(* ===== verification/Prelude.thy ===== *)
theory Prelude
  imports Main "HOL-Library.Word"
begin

text \<open>
  Shared vocabulary of the development: the Go integer types as words, byte slices as lists of
  bytes, Go errors as values of a term type, the big-endian codecs of
  \<^verbatim>\<open>encoding/binary\<close>, and the generic lemmas on lists, words and results that the component
  theories use.

  A Go slice \<open>s\<close> is the list of its elements, \<open>s[i:j]\<close> is \<open>subslice s i j\<close>. An \<open>int\<close> that only
  ever holds a length or an index is a \<open>nat\<close>; one that may be negative is an \<open>int\<close>. Values of
  fixed width (\<open>uint8\<close>, \<open>uint16\<close>, \<open>uint32\<close>, \<open>uint64\<close>) keep their width.
\<close>

unbundle bit_operations_syntax

section \<open>Types\<close>

type_synonym byte = "8 word"
type_synonym bytes = "byte list"
type_synonym u16 = "16 word"
type_synonym u32 = "32 word"
type_synonym u64 = "64 word"

text \<open>A \<open>time.Duration\<close> and a point of the monotonic clock, both in nanoseconds.\<close>

type_synonym duration = int
type_synonym instant = int

text \<open>
  The package errors of \<^verbatim>\<open>errors.go\<close>. An error value is a term over them: \<open>New m\<close> is
  \<open>E.New(m, ...)\<close>, \<open>Extend e m\<close> and \<open>Cause e m\<close> are the wrappers of the same name,
  \<open>Terminal e\<close> is \<open>markTerminal(e)\<close>, \<open>Joined es\<close> is \<open>E.Errors(es...)\<close> and \<open>External m\<close> is an
  error that a connection or a callback returned. \<open>RetryableAuthentication keys e\<close> is
  \<open>newRetryableAuthenticationError(e, keys...)\<close>, \<open>SessionRekey\<close> a \<open>sessionRekeyError\<close>, whose method is
  only printed, and \<open>Certificate m\<close> one of the three errors of \<^verbatim>\<open>crypto/x509\<close> that the
  client tells apart. Only the constant part of a message is kept.
\<close>

datatype sentinel =
    ErrMissingServer
  | ErrUnsupportedFlavor
  | ErrClientClosed
  | ErrClientSuspended
  | ErrDataChannelNotReady
  | ErrDataPacketDeliveryUnknown
  | ErrNoPendingAuthChallenge
  | ErrAuthChallengeNotAnswerable
  | ErrAuthChallengeCanceled
  | ErrInvalidAuthResponse
  | ErrAuthenticationFailed
  | ErrSessionRejected
  | ErrInvalidBrowserAuthentication
  | ErrMaterialSourceConflict
  | ErrInvalidTLSMaterial
  | ErrDeprecatedCryptoDisabled
  | ErrReconnectTimeout
  | ErrProtocolNotSupported
  | ErrTunnelConfiguration

datatype go_error =
    Sentinel sentinel
  | New string
  | External string
  | Extend go_error string
  | Cause go_error string
  | Terminal go_error
  | Joined "go_error list"
  | RetryableAuthentication "string list" go_error
  | SessionRekey
  | Certificate string

type_synonym 'a result = "go_error + 'a"

text \<open>\<open>markTerminal\<close> of a non-nil error; a nil error is the absence of a \<open>go_error\<close> value.\<close>

definition markTerminal :: "go_error \<Rightarrow> go_error" where
  "markTerminal e = Terminal e"

section \<open>Slices\<close>

definition subslice :: "'a list \<Rightarrow> nat \<Rightarrow> nat \<Rightarrow> 'a list" where
  "subslice xs i j = take (j - i) (drop i xs)"

section \<open>Big-endian integers\<close>

definition put_u16 :: "u16 \<Rightarrow> bytes" where
  "put_u16 v = [ucast (drop_bit 8 v), ucast v]"

definition put_u32 :: "u32 \<Rightarrow> bytes" where
  "put_u32 v = [ucast (drop_bit 24 v), ucast (drop_bit 16 v), ucast (drop_bit 8 v), ucast v]"

definition get_u16 :: "bytes \<Rightarrow> u16" where
  "get_u16 bs = push_bit 8 (ucast (bs ! 0)) OR ucast (bs ! 1)"

definition get_u32 :: "bytes \<Rightarrow> u32" where
  "get_u32 bs = push_bit 24 (ucast (bs ! 0)) OR push_bit 16 (ucast (bs ! 1))
     OR push_bit 8 (ucast (bs ! 2)) OR ucast (bs ! 3)"

text \<open>The little-endian order.\<close>

definition put_le16 :: "u16 \<Rightarrow> bytes" where "put_le16 v = rev (put_u16 v)"
definition get_le16 :: "bytes \<Rightarrow> u16" where "get_le16 bs = get_u16 (rev (take 2 bs))"
definition put_le32 :: "u32 \<Rightarrow> bytes" where "put_le32 v = rev (put_u32 v)"
definition get_le32 :: "bytes \<Rightarrow> u32" where "get_le32 bs = get_u32 (rev (take 4 bs))"

text \<open>The conversions \<open>uint16(n)\<close> and \<open>uint32(n)\<close> of an integer, and \<open>int(v)\<close> back.\<close>

abbreviation u16_of :: "nat \<Rightarrow> u16" where "u16_of n \<equiv> word_of_nat n"
abbreviation u32_of :: "nat \<Rightarrow> u32" where "u32_of n \<equiv> word_of_nat n"
abbreviation byte_of :: "nat \<Rightarrow> byte" where "byte_of n \<equiv> word_of_nat n"

section \<open>Lemmas\<close>

named_theorems wire_simps \<open>rewriting of encoded and decoded wire fields\<close>

subsection \<open>Slices\<close>

lemma length_subslice [simp]: "j \<le> length xs \<Longrightarrow> length (subslice xs i j) = j - i"
  by (auto simp: subslice_def)

lemma subslice_0 [simp]: "subslice xs 0 j = take j xs"
  by (simp add: subslice_def)

lemma subslice_same [simp]: "subslice xs i i = []"
  by (simp add: subslice_def)

lemma subslice_nth: "k < j - i \<Longrightarrow> j \<le> length xs \<Longrightarrow> subslice xs i j ! k = xs ! (i + k)"
  by (simp add: subslice_def)

lemma subslice_take [simp]: "j \<le> n \<Longrightarrow> subslice (take n xs) i j = subslice xs i j"
  by (simp add: subslice_def drop_take min_def)

lemma subslice_append [wire_simps]:
  "i = length xs \<Longrightarrow> j = length xs + length ys \<Longrightarrow> subslice (xs @ ys @ zs) i j = ys"
  by (simp add: subslice_def)

subsection \<open>Words and big-endian fields\<close>

lemma length_put_u16 [simp]: "length (put_u16 v) = 2"
  by (simp add: put_u16_def)

lemma length_put_u32 [simp]: "length (put_u32 v) = 4"
  by (simp add: put_u32_def)

lemma get_put_u16 [simp, wire_simps]: "get_u16 (put_u16 v @ bs) = v"
  by (rule bit_word_eqI)
    (auto simp: get_u16_def put_u16_def bit_simps not_le)

lemma get_put_u16_nil [simp, wire_simps]: "get_u16 (put_u16 v) = v"
  using get_put_u16 [of v "[]"] by simp

lemma get_put_u32 [simp, wire_simps]: "get_u32 (put_u32 v @ bs) = v"
proof (rule bit_word_eqI)
  fix n assume "n < LENGTH(32)"
  then consider "n < 8" | "8 \<le> n" "n < 16" | "16 \<le> n" "n < 24" | "24 \<le> n" "n < 32"
    by fastforce
  then show "bit (get_u32 (put_u32 v @ bs)) n = bit v n"
    by cases (auto simp: get_u32_def put_u32_def bit_simps)
qed

lemma get_put_u32_nil [simp, wire_simps]: "get_u32 (put_u32 v) = v"
  using get_put_u32 [of v "[]"] by simp

lemma length_put_le [simp]: "length (put_le16 v) = 2" "length (put_le32 w) = 4"
  by (simp_all add: put_le16_def put_le32_def)

lemma get_put_le [simp, wire_simps]:
  "get_le16 (put_le16 v @ bs) = v" "get_le16 (put_le16 v) = v"
  "get_le32 (put_le32 w @ bs) = w" "get_le32 (put_le32 w) = w"
  by (simp_all add: get_le16_def put_le16_def get_le32_def put_le32_def)

lemma bit_byte_ge [simp]: "8 \<le> n \<Longrightarrow> \<not> bit (b :: byte) n"
  by (auto dest: bit_imp_le_length)

lemma put_get_u16: "length bs = 2 \<Longrightarrow> put_u16 (get_u16 bs) = bs"
proof -
  assume "length bs = 2"
  then obtain x y where bs: "bs = [x, y]"
    by (auto simp: numeral_2_eq_2 length_Suc_conv)
  show ?thesis
    by (auto simp: bs put_u16_def get_u16_def bit_simps intro!: bit_word_eqI)
qed

lemma unat_u16_of: "n < 65536 \<Longrightarrow> unat (u16_of n) = n"
  by (simp add: unat_of_nat take_bit_nat_eq_self)

lemma unat_u32_of: "n < 4294967296 \<Longrightarrow> unat (u32_of n) = n"
  by (simp add: unat_of_nat take_bit_nat_eq_self)

lemma unat_byte_of: "n < 256 \<Longrightarrow> unat (byte_of n) = n"
  by (simp add: unat_of_nat take_bit_nat_eq_self)

lemma unat_u16_less [simp]: "unat (v :: u16) < 65536"
  using unsigned_less [of v, where ?'a = nat] by simp

lemma unat_byte_less [simp]: "unat (v :: byte) < 256"
  using unsigned_less [of v, where ?'a = nat] by simp

lemma unat_ucast_byte:
  "unat (ucast (b :: byte) :: u32) = unat b" "unat (ucast (b :: byte) :: u16) = unat b"
  by (auto simp: unsigned_ucast_eq intro!: take_bit_nat_eq_self less_trans [OF unat_byte_less])

lemma ucast_ucast_byte [simp]:
  "ucast (ucast (b :: byte) :: u32) = b" "ucast (ucast (b :: byte) :: u16) = b"
  by (rule bit_word_eqI, simp add: bit_simps)+

subsection \<open>Results\<close>

text \<open>A result is an error or has the property; the rules follow the branches of a definition.\<close>

definition ensures :: "('a \<Rightarrow> bool) \<Rightarrow> 'a result \<Rightarrow> bool" where
  "ensures Q r \<longleftrightarrow> (\<forall>y. r = Inr y \<longrightarrow> Q y)"

named_theorems ensures_intros \<open>introduction rules for results that are errors or good\<close>

lemma ensures_Inl [ensures_intros]: "ensures Q (Inl e)"
  and ensures_Inr [ensures_intros]: "Q y \<Longrightarrow> ensures Q (Inr y)"
  by (simp_all add: ensures_def)

lemma ensures_if [ensures_intros]: "(b \<Longrightarrow> ensures Q r) \<Longrightarrow> (\<not> b \<Longrightarrow> ensures Q r') \<Longrightarrow> ensures Q (if b then r else r')"
  by simp

lemma ensures_map_sum: "ensures P r \<Longrightarrow> (\<And>y. P y \<Longrightarrow> Q (f y)) \<Longrightarrow> ensures Q (map_sum id f r)"
  by (cases r) (simp_all add: ensures_def)

lemma ensures_case: "ensures P r \<Longrightarrow> (\<And>y. r = Inr y \<Longrightarrow> P y \<Longrightarrow> ensures Q (g y)) \<Longrightarrow> ensures Q (case r of Inl e \<Rightarrow> Inl (h e) | Inr y \<Rightarrow> g y)"
  by (cases r) (simp_all add: ensures_def)

lemma ensuresD: "ensures Q r \<Longrightarrow> r = Inr y \<Longrightarrow> Q y"
  by (simp add: ensures_def)

lemma ensuresI: "(\<And>y. r = Inr y \<Longrightarrow> Q y) \<Longrightarrow> ensures Q r"
  by (simp add: ensures_def)

end
