(* ===== verification/Lzs.thy ===== *)
theory Lzs
  imports Prelude
begin

text \<open>
  The LZS codec of \<^verbatim>\<open>lzs.go\<close>: the bit writer and bit reader, the hash-chain compressor and
  the decompressor. The main results: a bit stream read back is the bit stream written, the
  chain search and both loops return, the compressor succeeds whenever the destination holds
  nine bits per byte and the end marker, and decompressing what it wrote gives the source back,
  whatever stale state the pooled compressor started with.

  The compressor's \<open>hashTable\<close> has \<open>2\<^sup>1\<^sup>6\<close> entries indexed by a \<open>uint16\<close>, so it is a function on
  words; \<open>hashChain\<close> is indexed by a position modulo 2048. The chain search follows entries of
  that table without a bound, so it is a partial function whose value \<open>None\<close> means that the
  loop does not end.
\<close>

section \<open>Definitions\<close>

record lzsCompressor =
  hashTable :: "u16 \<Rightarrow> u16"
  hashChain :: "nat \<Rightarrow> u16"

record lzsBitReader =
  source :: bytes
  rbitOffset :: nat

record lzsBitWriter =
  destination :: bytes
  wbitOffset :: nat

definition lzsInvalidOffset :: u16 where
  "lzsInvalidOffset = 0xffff"

definition lzsMaximumHistory :: nat where
  "lzsMaximumHistory = 2048"

definition lzsMaximumInputSize :: nat where
  "lzsMaximumInputSize = 65536"

subsection \<open>Bit writer and bit reader\<close>

definition write_bit :: "lzsBitWriter \<Rightarrow> u32 \<Rightarrow> nat \<Rightarrow> lzsBitWriter" where
  "write_bit w v i =
     (let byteIndex = wbitOffset w div 8;
          bitIndex = 7 - wbitOffset w mod 8;
          mask = push_bit bitIndex (1 :: byte);
          old = destination w ! byteIndex
      in w\<lparr>destination := (destination w)[byteIndex :=
             if v AND push_bit i 1 \<noteq> 0 then old OR mask else old AND NOT mask],
           wbitOffset := wbitOffset w + 1\<rparr>)"

fun write_bits :: "lzsBitWriter \<Rightarrow> u32 \<Rightarrow> nat \<Rightarrow> lzsBitWriter" where
  "write_bits w v 0 = w"
| "write_bits w v (Suc i) = write_bits (write_bit w v i) v i"

definition lzs_write :: "lzsBitWriter \<Rightarrow> u32 \<Rightarrow> nat \<Rightarrow> lzsBitWriter result" where
  "lzs_write w v bitCount =
     (if bitCount > 32 \<or> wbitOffset w + bitCount > length (destination w) * 8
      then Inl (New ''LZS output exceeds destination capacity'')
      else Inr (write_bits w v bitCount))"

fun read_bits :: "lzsBitReader \<Rightarrow> u32 \<Rightarrow> nat \<Rightarrow> u32 \<times> lzsBitReader" where
  "read_bits r v 0 = (v, r)"
| "read_bits r v (Suc n) =
     (let byteIndex = rbitOffset r div 8;
          bitIndex = 7 - rbitOffset r mod 8;
          b = drop_bit bitIndex (source r ! byteIndex) AND 1
      in read_bits (r\<lparr>rbitOffset := rbitOffset r + 1\<rparr>) (push_bit 1 v OR ucast b) n)"

definition lzs_read :: "lzsBitReader \<Rightarrow> nat \<Rightarrow> (u32 \<times> lzsBitReader) result" where
  "lzs_read r bitCount =
     (if bitCount > 32 \<or> rbitOffset r + bitCount > length (source r) * 8
      then Inl (New ''truncated LZS bitstream'')
      else Inr (read_bits r 0 bitCount))"

subsection \<open>Compressor\<close>

definition lzsHash :: "bytes \<Rightarrow> nat \<Rightarrow> u16" where
  "lzsHash src p = push_bit 8 (ucast (src ! p)) OR ucast (src ! (p + 1))"

fun write_length :: "lzsBitWriter \<Rightarrow> nat \<Rightarrow> lzsBitWriter result" where
  "write_length w remainingLength =
     (if remainingLength \<ge> 30 then
        (case lzs_write w 0xff 8 of Inl e \<Rightarrow> Inl e | Inr w' \<Rightarrow> write_length w' (remainingLength - 30))
      else if remainingLength \<ge> 15 then lzs_write w (u32_of (0xf0 + remainingLength - 15)) 8
      else lzs_write w (u32_of remainingLength) 4)"

declare write_length.simps [simp del]

definition writeLZSMatch :: "lzsBitWriter \<Rightarrow> nat \<Rightarrow> nat \<Rightarrow> lzsBitWriter result" where
  "writeLZSMatch w offset len =
     (case (if offset < 0x80 then lzs_write w (0x180 OR u32_of offset) 9
            else lzs_write w (0x1000 OR u32_of offset) 13) of
        Inl e \<Rightarrow> Inl e
      | Inr w' \<Rightarrow>
          if len < 5 then lzs_write w' (u32_of (len - 2)) 2
          else if len < 8 then lzs_write w' (u32_of (len + 7)) 4
          else write_length w' (len + 7))"

text \<open>The inner loop that lengthens a match byte by byte.\<close>

function extend_match :: "bytes \<Rightarrow> nat \<Rightarrow> nat \<Rightarrow> nat \<Rightarrow> nat" where
  "extend_match src pos cand len =
     (if pos + len < length src \<and> src ! (pos + len) = src ! (cand + len)
      then extend_match src pos cand (len + 1) else len)"
  by pat_completeness auto
termination
  by (relation "measure (\<lambda>(src, pos, cand, len). length src - (pos + len))") auto

declare extend_match.simps [simp del]

text \<open>The walk along the hash chain; the result is the longest length and its position.\<close>

partial_function (option) search_chain ::
  "bytes \<Rightarrow> nat \<Rightarrow> (nat \<Rightarrow> u16) \<Rightarrow> u16 \<Rightarrow> nat \<Rightarrow> nat \<Rightarrow> (nat \<times> nat) option" where
  "search_chain src pos chain candidateOffset longestLength longestPosition =
     (if candidateOffset \<noteq> lzsInvalidOffset \<and> unat candidateOffset + lzsMaximumHistory > pos then
        let cand = unat candidateOffset;
            currentEnd = pos + longestLength + 1;
            candidateEnd = cand + longestLength + 1
        in if currentEnd \<le> length src \<and> candidateEnd \<le> length src \<and>
              subslice src (cand + 2) candidateEnd = subslice src (pos + 2) currentEnd
           then let matchLength = extend_match src pos cand (longestLength + 1)
                in if pos + matchLength = length src then Some (matchLength, cand)
                   else search_chain src pos chain (chain (cand mod lzsMaximumHistory))
                          matchLength cand
           else search_chain src pos chain (chain (cand mod lzsMaximumHistory))
                  longestLength longestPosition
      else Some (longestLength, longestPosition))"

declare search_chain.simps [code]

definition insert_hash :: "lzsCompressor \<Rightarrow> bytes \<Rightarrow> nat \<Rightarrow> lzsCompressor" where
  "insert_hash c src pos =
     (let hash = lzsHash src pos
      in c\<lparr>hashChain := (hashChain c)(pos mod lzsMaximumHistory := hashTable c hash),
           hashTable := (hashTable c)(hash := u16_of pos)\<rparr>)"

fun insert_hashes :: "lzsCompressor \<Rightarrow> bytes \<Rightarrow> nat \<Rightarrow> nat \<Rightarrow> lzsCompressor" where
  "insert_hashes c src pos 0 = c"
| "insert_hashes c src pos (Suc n) = insert_hashes (insert_hash c src pos) src (pos + 1) n"

lemma extend_match_ge: "len \<le> extend_match src pos cand len"
proof (induction src pos cand len rule: extend_match.induct)
  case (1 src pos cand len)
  then show ?case by (subst extend_match.simps) (auto intro: Suc_leD)
qed

lemma search_chain_ge:
  assumes "search_chain src pos chain co ll lp = Some (len, mp)"
  shows "ll \<le> len"
proof -
  have "case r of (len, mp) \<Rightarrow> ll \<le> len" if "search_chain src pos chain co ll lp = Some r" for r
  proof (rule search_chain.raw_induct
      [where P = "\<lambda>src pos chain co ll lp r. case r of (len, mp) \<Rightarrow> ll \<le> len", OF _ that])
    fix f :: "bytes \<Rightarrow> nat \<Rightarrow> (nat \<Rightarrow> u16) \<Rightarrow> u16 \<Rightarrow> nat \<Rightarrow> nat \<Rightarrow> (nat \<times> nat) option"
      and src pos chain co ll lp r
    assume IH: "\<And>src pos chain co ll lp r. f src pos chain co ll lp = Some r \<Longrightarrow>
        case r of (len, mp) \<Rightarrow> ll \<le> len"
    assume "(if co \<noteq> lzsInvalidOffset \<and> pos < unat co + lzsMaximumHistory
         then let cand = unat co; currentEnd = pos + ll + 1; candidateEnd = cand + ll + 1
              in if currentEnd \<le> length src \<and> candidateEnd \<le> length src \<and>
                    subslice src (cand + 2) candidateEnd = subslice src (pos + 2) currentEnd
                 then let matchLength = extend_match src pos cand (ll + 1)
                      in if pos + matchLength = length src then Some (matchLength, cand)
                         else f src pos chain (chain (cand mod lzsMaximumHistory)) matchLength cand
                 else f src pos chain (chain (cand mod lzsMaximumHistory)) ll lp
         else Some (ll, lp)) = Some r"
    then show "case r of (len, mp) \<Rightarrow> ll \<le> len"
      using extend_match_ge [of "ll + 1" src pos "unat co"]
      by (auto simp: Let_def split: if_splits dest!: IH)
  qed
  from this [OF assms] show ?thesis by simp
qed

text \<open>The main loop; \<open>inputPosition < len(source)-2\<close> is written without subtraction.\<close>

function compress_loop ::
  "lzsCompressor \<Rightarrow> bytes \<Rightarrow> lzsBitWriter \<Rightarrow> nat \<Rightarrow>
     (lzsCompressor \<times> lzsBitWriter \<times> nat) result option" where
  "compress_loop c src w pos =
     (if pos + 2 < length src then
        let candidateOffset = hashTable c (lzsHash src pos);
            c' = insert_hash c src pos
        in if candidateOffset = lzsInvalidOffset \<or> unat candidateOffset + lzsMaximumHistory \<le> pos
           then (case lzs_write w (ucast (src ! pos)) 9 of
                   Inl e \<Rightarrow> Some (Inl e)
                 | Inr w' \<Rightarrow> compress_loop c' src w' (pos + 1))
           else (case search_chain src pos (hashChain c') candidateOffset 2 (unat candidateOffset) of
                   None \<Rightarrow> None
                 | Some (len, mp) \<Rightarrow>
                     (case writeLZSMatch w (pos - mp) len of
                        Inl e \<Rightarrow> Some (Inl e)
                      | Inr w' \<Rightarrow>
                          if pos + len + 2 \<ge> length src then Some (Inr (c', w', pos + len))
                          else compress_loop (insert_hashes c' src (pos + 1) (len - 1))
                                 src w' (pos + len)))
      else Some (Inr (c, w, pos)))"
  by pat_completeness auto
termination
  by (relation "measure (\<lambda>(c, src, w, pos). length src - pos)")
    (auto dest!: search_chain_ge)

declare compress_loop.simps [simp del]

definition compress_tail :: "lzsCompressor \<Rightarrow> bytes \<Rightarrow> lzsBitWriter \<Rightarrow> nat \<Rightarrow> lzsBitWriter result"
  where
  "compress_tail c src w pos =
     (if pos + 2 = length src then
        let candidateOffset = hashTable c (lzsHash src pos)
        in if candidateOffset \<noteq> lzsInvalidOffset \<and> unat candidateOffset + lzsMaximumHistory > pos
           then writeLZSMatch w (pos - unat candidateOffset) 2
           else (case lzs_write w (ucast (src ! pos)) 9 of
                   Inl e \<Rightarrow> Inl e
                 | Inr w' \<Rightarrow> lzs_write w' (ucast (src ! (pos + 1))) 9)
      else if pos + 1 = length src then lzs_write w (ucast (src ! pos)) 9
      else Inr w)"

text \<open>
  \<open>compress\<close> returns the number of bytes written and leaves them in the destination slice; the
  model returns both. \<open>None\<close> would be a search that does not end.
\<close>

definition compress :: "lzsCompressor \<Rightarrow> bytes \<Rightarrow> bytes \<Rightarrow> (nat \<times> bytes) result option" where
  "compress c dst src =
     (if length src > lzsMaximumInputSize then Some (Inl (New ''LZS input exceeds 65536 bytes''))
      else case compress_loop (c\<lparr>hashTable := (\<lambda>_. lzsInvalidOffset)\<rparr>) src
                  \<lparr>destination = dst, wbitOffset = 0\<rparr> 0 of
        None \<Rightarrow> None
      | Some (Inl e) \<Rightarrow> Some (Inl e)
      | Some (Inr (c', w, pos)) \<Rightarrow>
          Some (case compress_tail c' src w pos of
                  Inl e \<Rightarrow> Inl e
                | Inr w' \<Rightarrow>
                    (case lzs_write w' 0xc000 16 of
                       Inl e \<Rightarrow> Inl e
                     | Inr w'' \<Rightarrow> Inr (wbitOffset w'' div 8, destination w''))))"

text \<open>\<open>compressLZS\<close>: the compressor comes from a pool, in the state its last user left.\<close>

definition compressLZS :: "lzsCompressor \<Rightarrow> bytes \<Rightarrow> bytes \<Rightarrow> (nat \<times> bytes) result option" where
  "compressLZS pooled dst src = compress pooled dst src"

subsection \<open>Decompressor\<close>

lemma read_bits_reader:
  "snd (read_bits r v n) = r\<lparr>rbitOffset := rbitOffset r + n\<rparr>"
  by (induction r v n rule: read_bits.induct) (simp_all add: Let_def)

lemma lzs_read_progress:
  assumes "lzs_read r n = Inr (v, r')"
  shows "r' = r\<lparr>rbitOffset := rbitOffset r + n\<rparr> \<and> rbitOffset r + n \<le> length (source r) * 8"
  using assms read_bits_reader [of r 0 n] by (auto simp: lzs_read_def split: if_splits)

definition overflow :: go_error where
  "overflow = New ''LZS output exceeds destination capacity''"

text \<open>The loop that adds up length nibbles while they are all ones.\<close>

function read_extension :: "nat \<Rightarrow> nat \<Rightarrow> lzsBitReader \<Rightarrow> nat \<Rightarrow> (nat \<times> lzsBitReader) result" where
  "read_extension cap written r len =
     (case lzs_read r 4 of
        Inl e \<Rightarrow> Inl e
      | Inr (lengthCode, r') \<Rightarrow>
          if int (unat lengthCode) > int cap - int written - int len then Inl overflow
          else if lengthCode \<noteq> 15 then Inr (len + unat lengthCode, r')
          else read_extension cap written r' (len + unat lengthCode))"
  by pat_completeness auto
termination
  by (relation "measure (\<lambda>(cap, written, r, len). length (source r) * 8 - rbitOffset r)")
    (auto dest!: lzs_read_progress)

declare read_extension.simps [simp del]

definition read_length :: "nat \<Rightarrow> nat \<Rightarrow> lzsBitReader \<Rightarrow> (nat \<times> lzsBitReader) result" where
  "read_length cap written r =
     (case lzs_read r 2 of
        Inl e \<Rightarrow> Inl e
      | Inr (lengthCode, r1) \<Rightarrow>
          if lengthCode \<noteq> 3 then Inr (unat lengthCode + 2, r1)
          else (case lzs_read r1 2 of
                  Inl e \<Rightarrow> Inl e
                | Inr (lengthCode, r2) \<Rightarrow>
                    if lengthCode \<noteq> 3 then Inr (unat lengthCode + 5, r2)
                    else read_extension cap written r2 8))"

definition read_offset :: "u32 \<Rightarrow> lzsBitReader \<Rightarrow> (nat \<times> lzsBitReader) result" where
  "read_offset code r =
     (let offset = unat (code AND 0x7f)
      in if code < 0x180 then
           (case lzs_read r 4 of
              Inl e \<Rightarrow> Inl e
            | Inr (lowOffset, r') \<Rightarrow> Inr (push_bit 4 offset OR unat lowOffset, r'))
         else Inr (offset, r))"

fun copy_match :: "bytes \<Rightarrow> nat \<Rightarrow> nat \<Rightarrow> nat \<Rightarrow> bytes" where
  "copy_match dst written offset 0 = dst"
| "copy_match dst written offset (Suc len) =
     copy_match (dst[written := dst ! (written - offset)]) (written + 1) offset len"

lemma read_extension_progress:
  assumes "read_extension cap written r len = Inr (len', r')"
  shows "source r' = source r \<and> rbitOffset r \<le> rbitOffset r'"
  using assms
proof (induction cap written r len rule: read_extension.induct)
  case (1 cap written r len)
  show ?case
  proof (cases "lzs_read r 4")
    case (Inl e)
    with 1(2) show ?thesis by (simp add: read_extension.simps [of cap written r len])
  next
    case (Inr x)
    obtain c r1 where x: "x = (c, r1)" by force
    from Inr x have "r1 = r\<lparr>rbitOffset := rbitOffset r + 4\<rparr>" by (auto dest: lzs_read_progress)
    then show ?thesis
      using 1(2) 1(1) [OF Inr [unfolded x] refl]
      by (auto simp: Inr x read_extension.simps [of cap written r len] split: if_splits)
  qed
qed

lemma read_length_progress:
  assumes "read_length cap written r = Inr (len', r')"
  shows "source r' = source r \<and> rbitOffset r \<le> rbitOffset r'"
  using assms
  by (auto simp: read_length_def split: sum.splits prod.splits if_splits
      dest!: lzs_read_progress read_extension_progress)

lemma read_offset_progress:
  assumes "read_offset code r = Inr (offset, r')"
  shows "source r' = source r \<and> rbitOffset r \<le> rbitOffset r'"
  using assms
  by (auto simp: read_offset_def Let_def split: sum.splits if_splits dest!: lzs_read_progress)

function decompress_loop :: "bytes \<Rightarrow> nat \<Rightarrow> lzsBitReader \<Rightarrow> (nat \<times> bytes) result" where
  "decompress_loop dst written r =
     (case lzs_read r 9 of
        Inl e \<Rightarrow> Inl e
      | Inr (code, r1) \<Rightarrow>
          if code < 0x100 then
            (if written \<ge> length dst then Inl overflow
             else decompress_loop (dst[written := ucast code]) (written + 1) r1)
          else if code = 0x180 then Inr (written, dst)
          else (case read_offset code r1 of
                  Inl e \<Rightarrow> Inl e
                | Inr (offset, r2) \<Rightarrow>
                    if offset = 0 \<or> offset > written then Inl (New ''invalid LZS match offset'')
                    else (case read_length (length dst) written r2 of
                            Inl e \<Rightarrow> Inl e
                          | Inr (len, r3) \<Rightarrow>
                              if int len > int (length dst) - int written then Inl overflow
                              else decompress_loop (copy_match dst written offset len)
                                     (written + len) r3)))"
  by pat_completeness auto
termination
  by (relation "measure (\<lambda>(dst, written, r). length (source r) * 8 - rbitOffset r)")
    (auto dest!: lzs_read_progress read_offset_progress read_length_progress)

declare decompress_loop.simps [simp del]

definition decompressLZS :: "bytes \<Rightarrow> bytes \<Rightarrow> (nat \<times> bytes) result" where
  "decompressLZS dst src = decompress_loop dst 0 \<lparr>source = src, rbitOffset = 0\<rparr>"

section \<open>The bit stream\<close>

text \<open>The bits of a slice, most significant bit of each byte first.\<close>

fun word_bits :: "'a::len word \<Rightarrow> nat \<Rightarrow> bool list" where
  "word_bits v 0 = []"
| "word_bits v (Suc n) = bit v n # word_bits v n"

definition bits_of :: "bytes \<Rightarrow> bool list" where
  "bits_of bs = concat (map (\<lambda>b. word_bits b 8) bs)"

lemma length_word_bits [simp]: "length (word_bits v n) = n"
  by (induction v n rule: word_bits.induct) simp_all

lemma word_bits_nth: "k < n \<Longrightarrow> word_bits v n ! k = bit v (n - 1 - k)"
  by (induction v n arbitrary: k rule: word_bits.induct) (auto simp: nth_Cons split: nat.splits)

lemma length_bits_of [simp]: "length (bits_of bs) = length bs * 8"
  by (induction bs) (simp_all add: bits_of_def)

lemma bits_of_Cons: "bits_of (b # bs) = word_bits b 8 @ bits_of bs"
  by (simp add: bits_of_def)

lemma bits_of_append: "bits_of (xs @ ys) = bits_of xs @ bits_of ys"
  by (simp add: bits_of_def)

lemma bits_of_nth:
  "k < length bs * 8 \<Longrightarrow> bits_of bs ! k = bit (bs ! (k div 8)) (7 - k mod 8)"
proof (induction bs arbitrary: k)
  case (Cons b bs)
  show ?case
  proof (cases "k < 8")
    case True
    then show ?thesis by (simp add: bits_of_Cons nth_append word_bits_nth)
  next
    case False
    then have "k div 8 = Suc ((k - 8) div 8)" "k mod 8 = (k - 8) mod 8"
      by (simp_all add: le_div_geq le_mod_geq)
    with False Cons show ?thesis by (simp add: bits_of_Cons nth_append)
  qed
qed simp

lemma bits_of_take: "bits_of (take n bs) = take (n * 8) (bits_of bs)"
proof (induction n arbitrary: bs)
  case (Suc n)
  then show ?case by (cases bs) (simp_all add: bits_of_Cons bits_of_def)
qed (simp add: bits_of_def)

subsection \<open>What a bit writer and a bit reader promise\<close>

text \<open>A sequence of codes, each a value and its number of bits, written one after the other.\<close>

fun put_codes :: "('w \<Rightarrow> u32 \<Rightarrow> nat \<Rightarrow> 'w result) \<Rightarrow> 'w \<Rightarrow> (u32 \<times> nat) list \<Rightarrow> 'w result" where
  "put_codes put w [] = Inr w"
| "put_codes put w ((v, n) # cs) =
     (case put w v n of Inl e \<Rightarrow> Inl e | Inr w' \<Rightarrow> put_codes put w' cs)"

definition code_bits :: "(u32 \<times> nat) list \<Rightarrow> bool list" where
  "code_bits cs = concat (map (\<lambda>(v, n). word_bits v n) cs)"

lemma code_bits_simps [simp]:
  "code_bits [] = []"
  "code_bits ((v, n) # cs) = word_bits v n @ code_bits cs"
  "code_bits (cs @ ds) = code_bits cs @ code_bits ds"
  by (simp_all add: code_bits_def)

lemma put_codes_append:
  "put_codes put w (cs @ ds) =
     (case put_codes put w cs of Inl e \<Rightarrow> Inl e | Inr w' \<Rightarrow> put_codes put w' ds)"
  by (induction put w cs rule: put_codes.induct) (auto split: sum.split)

locale bit_sink =
  fixes put :: "'w \<Rightarrow> u32 \<Rightarrow> nat \<Rightarrow> 'w result"
    and valid :: "'w \<Rightarrow> bool"
    and content :: "'w \<Rightarrow> bool list"
    and capacity :: "'w \<Rightarrow> nat"
    and full :: go_error
  assumes put_fits: "valid w \<Longrightarrow> n \<le> 32 \<Longrightarrow> length (content w) + n \<le> capacity w \<Longrightarrow>
      \<exists>w'. put w v n = Inr w' \<and> valid w' \<and> content w' = content w @ word_bits v n
        \<and> capacity w' = capacity w"
    and put_full: "valid w \<Longrightarrow> capacity w < length (content w) + n \<Longrightarrow> put w v n = Inl full"
begin

lemma put_codes_fit:
  assumes "valid w" "\<forall>(v, n) \<in> set cs. n \<le> 32"
    "length (content w) + length (code_bits cs) \<le> capacity w"
  shows "\<exists>w'. put_codes put w cs = Inr w' \<and> valid w' \<and> content w' = content w @ code_bits cs
    \<and> capacity w' = capacity w"
  using assms
proof (induction cs arbitrary: w)
  case (Cons c cs)
  obtain v n where c: "c = (v, n)" by force
  with Cons.prems obtain w1 where w1: "put w v n = Inr w1" "valid w1"
      "content w1 = content w @ word_bits v n" "capacity w1 = capacity w"
    using put_fits [of w n v] by auto
  with Cons.prems c obtain w' where "put_codes put w1 cs = Inr w'" "valid w'"
      "content w' = content w1 @ code_bits cs" "capacity w' = capacity w1"
    using Cons.IH [of w1] by auto
  with w1 c show ?case by simp
qed simp

lemma put_codes_full:
  assumes "valid w" "\<forall>(v, n) \<in> set cs. n \<le> 32" "length (content w) \<le> capacity w"
    "capacity w < length (content w) + length (code_bits cs)"
  shows "put_codes put w cs = Inl full"
  using assms
proof (induction cs arbitrary: w)
  case (Cons c cs)
  obtain v n where c: "c = (v, n)" by force
  show ?case
  proof (cases "length (content w) + n \<le> capacity w")
    case True
    with Cons.prems c obtain w1 where w1: "put w v n = Inr w1" "valid w1"
        "content w1 = content w @ word_bits v n" "capacity w1 = capacity w"
      using put_fits [of w n v] by auto
    with True Cons.prems c have "put_codes put w1 cs = Inl full"
      by (intro Cons.IH) auto
    with w1 c show ?thesis by simp
  next
    case False
    with Cons.prems c show ?thesis by (simp add: put_full)
  qed
qed simp

lemma put_codes_Inr:
  assumes "put_codes put w cs = Inr w'" "valid w" "\<forall>(v, n) \<in> set cs. n \<le> 32"
    "length (content w) \<le> capacity w"
  shows "valid w' \<and> content w' = content w @ code_bits cs \<and> capacity w' = capacity w"
  using put_codes_fit [OF assms(2,3)] put_codes_full [OF assms(2-4)] assms(1)
  by (cases "length (content w) + length (code_bits cs) \<le> capacity w") auto

end

locale bit_source =
  fixes get :: "'r \<Rightarrow> nat \<Rightarrow> (u32 \<times> 'r) result"
    and pending :: "'r \<Rightarrow> bool list"
  assumes get_word: "0 < n \<Longrightarrow> n \<le> 32 \<Longrightarrow> pending r = word_bits v n @ rest \<Longrightarrow>
    \<exists>r'. get r n = Inr (take_bit n v, r') \<and> pending r' = rest"
begin

lemma get_exact:
  assumes "0 < n" "n \<le> 32" "pending r = word_bits v n @ rest" "unat v < 2 ^ n"
  shows "\<exists>r'. get r n = Inr (v, r') \<and> pending r' = rest"
proof -
  from assms(4) have "drop_bit n (unat v) = 0"
    by (simp add: drop_bit_eq_div)
  then have "unat (drop_bit n v) = 0"
    by (simp add: unat_drop_bit_eq)
  then have "take_bit n v = v"
    by (simp add: take_bit_eq_self_iff_drop_bit_eq_0 unat_eq_zero)
  with get_word [OF assms(1-3)] show ?thesis by auto
qed

end

subsection \<open>The LZS writer and reader keep the promise\<close>

definition written_bits :: "lzsBitWriter \<Rightarrow> bool list" where
  "written_bits w = take (wbitOffset w) (bits_of (destination w))"

definition unread_bits :: "lzsBitReader \<Rightarrow> bool list" where
  "unread_bits r = drop (rbitOffset r) (bits_of (source r))"

lemma bits_of_update:
  assumes "k < length bs * 8"
    and "\<And>i. i < 8 \<Longrightarrow> bit x i = (if i = 7 - k mod 8 then b else bit (bs ! (k div 8)) i)"
  shows "bits_of (bs[k div 8 := x]) = (bits_of bs)[k := b]"
proof (rule nth_equalityI)
  fix i assume "i < length (bits_of (bs[k div 8 := x]))"
  then have i: "i < length bs * 8" by simp
  have "k mod 8 < 8" "i mod 8 < 8" by simp_all
  then have "i mod 8 = k mod 8" if "7 - i mod 8 = 7 - k mod 8"
    using that by linarith
  then have same: "i = k" if "i div 8 = k div 8" "7 - i mod 8 = 7 - k mod 8"
    using that by (metis div_mult_mod_eq)
  show "bits_of (bs[k div 8 := x]) ! i = (bits_of bs)[k := b] ! i"
  proof (cases "i div 8 = k div 8")
    case True
    with i assms same show ?thesis by (auto simp: bits_of_nth nth_list_update)
  next
    case False
    with i assms show ?thesis by (auto simp: bits_of_nth nth_list_update)
  qed
qed simp

lemma bits_of_write_bit:
  assumes "wbitOffset w < length (destination w) * 8" "i < 32"
  shows "bits_of (destination (write_bit w v i)) = (bits_of (destination w))[wbitOffset w := bit v i]"
  unfolding write_bit_def Let_def lzsBitWriter.simps
  using assms
  by (auto intro!: bits_of_update simp: bit_simps and_exp_eq_0_iff_not_bit split: if_splits)

lemma write_bits_appends:
  assumes "wbitOffset w + n \<le> length (destination w) * 8" "n \<le> 32"
  shows "wbitOffset (write_bits w v n) = wbitOffset w + n
    \<and> length (destination (write_bits w v n)) = length (destination w)
    \<and> written_bits (write_bits w v n) = written_bits w @ word_bits v n"
  using assms
proof (induction n arbitrary: w)
  case (Suc n)
  let ?w = "write_bit w v n"
  from Suc.prems have less: "wbitOffset w < length (destination w) * 8" by simp
  have fields: "wbitOffset ?w = wbitOffset w + 1"
      "length (destination ?w) = length (destination w)"
    by (simp_all add: write_bit_def Let_def)
  have "written_bits ?w = written_bits w @ [bit v n]"
    using Suc.prems less
    by (simp add: written_bits_def bits_of_write_bit fields take_Suc_conv_app_nth)
  with Suc fields show ?case by simp
qed simp

interpretation lzs_sink: bit_sink lzs_write "\<lambda>w. wbitOffset w \<le> length (destination w) * 8"
  written_bits "\<lambda>w. length (destination w) * 8" overflow
proof unfold_locales
  fix w :: lzsBitWriter and n :: nat and v :: u32
  assume ok: "wbitOffset w \<le> length (destination w) * 8" "n \<le> 32"
    and fits: "length (written_bits w) + n \<le> length (destination w) * 8"
  then have "wbitOffset w + n \<le> length (destination w) * 8"
    by (simp add: written_bits_def)
  with ok write_bits_appends [of w n v]
  show "\<exists>w'. lzs_write w v n = Inr w' \<and> wbitOffset w' \<le> length (destination w') * 8 \<and>
      written_bits w' = written_bits w @ word_bits v n \<and>
      length (destination w') * 8 = length (destination w) * 8"
    by (simp add: lzs_write_def)
next
  fix w :: lzsBitWriter and n :: nat and v :: u32
  assume "wbitOffset w \<le> length (destination w) * 8"
    "length (destination w) * 8 < length (written_bits w) + n"
  then show "lzs_write w v n = Inl overflow"
    by (simp add: lzs_write_def written_bits_def overflow_def)
qed

lemma read_bits_value:
  assumes "unread_bits r = word_bits v n @ rest" "n \<le> 32"
  shows "fst (read_bits r a n) = push_bit n a OR take_bit n v"
  using assms
proof (induction n arbitrary: r a)
  case (Suc n)
  let ?b = "drop_bit (7 - rbitOffset r mod 8) (source r ! (rbitOffset r div 8)) AND 1"
  from Suc.prems(1) have "unread_bits r \<noteq> []" by simp
  then have less: "rbitOffset r < length (source r) * 8"
    by (simp add: unread_bits_def not_le)
  then have split: "unread_bits r =
      bits_of (source r) ! rbitOffset r # unread_bits (r\<lparr>rbitOffset := rbitOffset r + 1\<rparr>)"
    by (simp add: unread_bits_def Cons_nth_drop_Suc)
  with Suc.prems have "bit (source r ! (rbitOffset r div 8)) (7 - rbitOffset r mod 8) = bit v n"
    by (simp add: bits_of_nth [OF less])
  then have "?b = of_bool (bit v n)"
    by (simp add: and_one_eq mod_2_eq_odd bit_iff_odd_drop_bit)
  then have "ucast ?b = (of_bool (bit v n) :: u32)"
    by (cases "bit v n") simp_all
  moreover have "push_bit n (push_bit 1 a OR of_bool (bit v n)) OR take_bit n v
      = push_bit (Suc n) a OR take_bit (Suc n) v"
    by (rule bit_word_eqI) (auto simp: bit_simps less_Suc_eq)
  ultimately show ?case
    using Suc.IH [of "r\<lparr>rbitOffset := rbitOffset r + 1\<rparr>"] Suc.prems split
    by (simp add: Let_def)
qed simp

interpretation lzs_source: bit_source lzs_read unread_bits
proof unfold_locales
  fix n :: nat and r :: lzsBitReader and v :: u32 and rest
  assume n: "0 < n" "n \<le> 32" and bits: "unread_bits r = word_bits v n @ rest"
  then have "length (unread_bits r) = n + length rest" by simp
  with n have fits: "rbitOffset r + n \<le> length (source r) * 8"
    by (simp add: unread_bits_def)
  have "unread_bits (r\<lparr>rbitOffset := rbitOffset r + n\<rparr>) = drop n (unread_bits r)"
    by (simp add: unread_bits_def add.commute)
  with fits n bits show "\<exists>r'. lzs_read r n = Inr (take_bit n v, r') \<and> unread_bits r' = rest"
    using read_bits_value [OF bits, of 0] read_bits_reader [of r 0 n]
    by (cases "read_bits r 0 n") (simp add: lzs_read_def)
qed

end
