(* ===== verification/Lzs_Roundtrip.thy ===== *)
theory Lzs_Roundtrip
  imports Lzs
begin

text \<open>
  Correctness of the LZS codec, by way of the tokens (literals and matches) that the bit stream
  encodes: the compressor writes the codes of a token list that expands to the source
  (\<open>compress_loop_tokens\<close>), the decompressor expands the tokens it reads (\<open>decompress_tokens\<close>),
  and the round trip composes the two.
\<close>

section \<open>Tokens and their codes\<close>

datatype lzs_token = Literal byte | Match nat nat

fun length_codes :: "nat \<Rightarrow> (u32 \<times> nat) list" where
  "length_codes m =
     (if m \<ge> 30 then (0xff, 8) # length_codes (m - 30)
      else if m \<ge> 15 then [(u32_of (0xf0 + m - 15), 8)] else [(u32_of m, 4)])"

declare length_codes.simps [simp del]

definition match_length_codes :: "nat \<Rightarrow> (u32 \<times> nat) list" where
  "match_length_codes len =
     (if len < 5 then [(u32_of (len - 2), 2)]
      else if len < 8 then [(u32_of (len + 7), 4)] else length_codes (len + 7))"

definition match_offset_code :: "nat \<Rightarrow> u32 \<times> nat" where
  "match_offset_code offset =
     (if offset < 0x80 then (0x180 OR u32_of offset, 9) else (0x1000 OR u32_of offset, 13))"

fun token_codes :: "lzs_token \<Rightarrow> (u32 \<times> nat) list" where
  "token_codes (Literal b) = [(ucast b, 9)]"
| "token_codes (Match offset len) = match_offset_code offset # match_length_codes len"

abbreviation tokens_codes :: "lzs_token list \<Rightarrow> (u32 \<times> nat) list" where
  "tokens_codes ts \<equiv> concat (map token_codes ts)"

fun copy_out :: "bytes \<Rightarrow> nat \<Rightarrow> nat \<Rightarrow> bytes" where
  "copy_out out offset 0 = out"
| "copy_out out offset (Suc n) = copy_out (out @ [out ! (length out - offset)]) offset n"

fun expand :: "bytes \<Rightarrow> lzs_token list \<Rightarrow> bytes" where
  "expand out [] = out"
| "expand out (Literal b # ts) = expand (out @ [b]) ts"
| "expand out (Match offset len # ts) = expand (copy_out out offset len) ts"

fun valid_tokens :: "nat \<Rightarrow> lzs_token list \<Rightarrow> bool" where
  "valid_tokens n [] = True"
| "valid_tokens n (Literal b # ts) = valid_tokens (n + 1) ts"
| "valid_tokens n (Match offset len # ts) =
     (1 \<le> offset \<and> offset < 2048 \<and> offset \<le> n \<and> 2 \<le> len \<and> valid_tokens (n + len) ts)"

lemma length_copy_out [simp]: "length (copy_out out offset n) = length out + n"
  by (induction out offset n rule: copy_out.induct) simp_all

lemma case_sum_eta [simp]: "(case x of Inl e \<Rightarrow> Inl e | Inr w \<Rightarrow> Inr w) = x"
  by (cases x) simp_all

lemma write_length_codes: "write_length w m = put_codes lzs_write w (length_codes m)"
proof (induction w m rule: write_length.induct)
  case (1 w m)
  then show ?case
    by (auto simp: write_length.simps [of w m] length_codes.simps [of m] split: sum.split)
qed

lemma writeLZSMatch_codes:
  "writeLZSMatch w offset len = put_codes lzs_write w (token_codes (Match offset len))"
  by (auto simp: writeLZSMatch_def match_offset_code_def match_length_codes_def write_length_codes
      split: sum.split)

lemma length_codes_width: "(v, n) \<in> set (length_codes m) \<Longrightarrow> n \<le> 32"
  by (induction m rule: length_codes.induct)
    (subst (asm) (2) length_codes.simps, auto split: if_splits)

lemma token_codes_width: "\<forall>(v, n) \<in> set (tokens_codes ts). n \<le> 32"
proof -
  have "n \<le> 32" if "(v, n) \<in> set (token_codes t)" for t v n
    using that by (cases t)
      (auto simp: match_offset_code_def match_length_codes_def split: if_splits
        dest: length_codes_width)
  then show ?thesis by auto
qed

section \<open>The compressor\<close>

lemma lzsHash_eqD:
  assumes "lzsHash src p = lzsHash src q"
  shows "src ! p = src ! q" "src ! Suc p = src ! Suc q"
proof -
  have "lzsHash src r = get_u16 [src ! r, src ! Suc r]" for r
    by (simp add: lzsHash_def get_u16_def)
  with assms have "put_u16 (get_u16 [src ! p, src ! Suc p]) = put_u16 (get_u16 [src ! q, src ! Suc q])"
    by simp
  then show "src ! p = src ! q" "src ! Suc p = src ! Suc q"
    by (simp_all add: put_get_u16)
qed

lemma lzsHash_two_bytes:
  assumes "lzsHash src p = lzsHash src q"
  shows "\<forall>k < 2. src ! (p + k) = src ! (q + k)"
proof (intro allI impI)
  fix k :: nat assume "k < 2"
  then consider "k = 0" | "k = 1" by linarith
  then show "src ! (p + k) = src ! (q + k)"
    using lzsHash_eqD [OF assms] by cases simp_all
qed

text \<open>
  The invariant of the two tables: an entry is empty or an earlier position with the same two
  bytes. Only the chain entries of the last 2048 positions are constrained, so whatever an
  earlier use of the compressor left in the chain is never followed.
\<close>

definition table_ok :: "lzsCompressor \<Rightarrow> bytes \<Rightarrow> nat \<Rightarrow> bool" where
  "table_ok c src pos \<longleftrightarrow> (\<forall>h. hashTable c h = lzsInvalidOffset \<or>
     unat (hashTable c h) < pos \<and> lzsHash src (unat (hashTable c h)) = h)"

definition chain_ok :: "(nat \<Rightarrow> u16) \<Rightarrow> bytes \<Rightarrow> nat \<Rightarrow> bool" where
  "chain_ok chain src pos \<longleftrightarrow> (\<forall>p < pos. pos \<le> p + 2048 \<longrightarrow>
     chain (p mod 2048) = lzsInvalidOffset \<or>
     unat (chain (p mod 2048)) < p \<and> lzsHash src (unat (chain (p mod 2048))) = lzsHash src p)"

lemma table_ok_mono: "table_ok c src p \<Longrightarrow> p \<le> q \<Longrightarrow> table_ok c src q"
  by (fastforce simp: table_ok_def)

lemma insert_hash_ok:
  assumes "table_ok c src pos" "chain_ok (hashChain c) src pos" "pos < 65535"
  shows "table_ok (insert_hash c src pos) src (pos + 1)"
    and "chain_ok (hashChain (insert_hash c src pos)) src (pos + 1)"
proof -
  from assms(3) have "unat (u16_of pos) = pos" by (simp add: unat_u16_of)
  with assms(1) show "table_ok (insert_hash c src pos) src (pos + 1)"
    by (fastforce simp: table_ok_def insert_hash_def Let_def less_Suc_eq)
  have "p mod 2048 \<noteq> pos mod 2048" if "p < pos" "pos < p + 2048" for p
  proof
    assume "p mod 2048 = pos mod 2048"
    with that have "2048 dvd pos - p" by (metis mod_eq_dvd_iff_nat less_imp_le)
    with that show False by (auto dest: dvd_imp_le)
  qed
  with assms show "chain_ok (hashChain (insert_hash c src pos)) src (pos + 1)"
    by (auto simp: chain_ok_def table_ok_def insert_hash_def Let_def lzsMaximumHistory_def
        less_Suc_eq)
qed

lemma insert_hashes_ok:
  assumes "table_ok c src pos" "chain_ok (hashChain c) src pos" "pos + n \<le> 65535"
  shows "table_ok (insert_hashes c src pos n) src (pos + n)
    \<and> chain_ok (hashChain (insert_hashes c src pos n)) src (pos + n)"
  using assms
proof (induction c src pos n rule: insert_hashes.induct)
  case (2 c src pos n)
  then show ?case using insert_hash_ok [of c src pos] by simp
qed simp

text \<open>A match at \<open>mp\<close> of length \<open>len\<close> for the position \<open>pos\<close>, within the history.\<close>

definition good_match :: "bytes \<Rightarrow> nat \<Rightarrow> nat \<Rightarrow> nat \<Rightarrow> bool" where
  "good_match src pos mp len \<longleftrightarrow> mp < pos \<and> pos < mp + 2048 \<and> pos + len \<le> length src \<and>
     (\<forall>k < len. src ! (mp + k) = src ! (pos + k))"

lemma extend_match_good:
  "good_match src pos cand len \<Longrightarrow> good_match src pos cand (extend_match src pos cand len)"
proof (induction src pos cand len rule: extend_match.induct)
  case (1 src pos cand len)
  show ?case
  proof (cases "pos + len < length src \<and> src ! (pos + len) = src ! (cand + len)")
    case True
    with 1 have "good_match src pos cand (len + 1)"
      by (auto simp: good_match_def less_Suc_eq)
    with True 1 show ?thesis by (simp add: extend_match.simps [of src pos cand len])
  next
    case False
    then have "extend_match src pos cand len = len"
      by (subst extend_match.simps) (rule if_not_P)
    with 1 show ?thesis by simp
  qed
qed

lemma candidate_good:
  assumes cand: "cand < pos" "pos < cand + 2048" "lzsHash src cand = lzsHash src pos"
    and fits: "2 \<le> len" "pos + len + 1 \<le> length src" "cand + len + 1 \<le> length src"
    and eq: "subslice src (cand + 2) (cand + len + 1) = subslice src (pos + 2) (pos + len + 1)"
  shows "good_match src pos cand (len + 1)"
proof -
  have "src ! (cand + k) = src ! (pos + k)" if "k < len + 1" for k
  proof (cases "k < 2")
    case True
    then show ?thesis using lzsHash_two_bytes [OF cand(3)] by blast
  next
    case False
    then obtain m where k: "k = m + 2" by (metis add.commute le_Suc_ex not_less)
    have "subslice src (cand + 2) (cand + len + 1) ! m = subslice src (pos + 2) (pos + len + 1) ! m"
      by (simp only: eq)
    with that k fits show ?thesis by (simp add: subslice_nth)
  qed
  with cand fits show ?thesis by (simp add: good_match_def)
qed

lemma search_chain_good:
  assumes chain: "chain_ok chain src (pos + 1)" and ll: "2 \<le> ll" and good: "good_match src pos lp ll"
    and co: "co = lzsInvalidOffset \<or> unat co < pos \<and> lzsHash src (unat co) = lzsHash src pos"
  shows "\<exists>len mp. search_chain src pos chain co ll lp = Some (len, mp) \<and> good_match src pos mp len"
  using ll good co
proof (induction "unat co" arbitrary: co ll lp rule: less_induct)
  case less
  let ?cand = "unat co" and ?next = "chain (unat co mod 2048)"
  show ?case
  proof (cases "co \<noteq> lzsInvalidOffset \<and> pos < unat co + 2048")
    case False
    then have "search_chain src pos chain co ll lp = Some (ll, lp)"
      by (subst search_chain.simps) (auto simp: lzsMaximumHistory_def)
    with less.prems show ?thesis by simp
  next
    case True
    with less.prems have cand: "?cand < pos" "pos < ?cand + 2048"
        "lzsHash src ?cand = lzsHash src pos" by auto
    have nxt: "?next = lzsInvalidOffset \<or>
        unat ?next < ?cand \<and> lzsHash src (unat ?next) = lzsHash src ?cand"
      using chain [unfolded chain_ok_def, rule_format, of ?cand] cand by auto
    have IH: "\<exists>len mp. search_chain src pos chain ?next l p = Some (len, mp) \<and> good_match src pos mp len"
      if "2 \<le> l" "good_match src pos p l" for l p
    proof (cases "?next = lzsInvalidOffset")
      case True
      then have "search_chain src pos chain ?next l p = Some (l, p)"
        by (subst search_chain.simps) simp
      with that show ?thesis by simp
    next
      case False
      with nxt cand that show ?thesis by (intro less.hyps) auto
    qed
    show ?thesis
    proof (cases "pos + ll + 1 \<le> length src \<and> ?cand + ll + 1 \<le> length src \<and>
        subslice src (?cand + 2) (?cand + ll + 1) = subslice src (pos + 2) (pos + ll + 1)")
      case True
      let ?ml = "extend_match src pos ?cand (ll + 1)"
      from True cand less.prems(1) have "good_match src pos ?cand (ll + 1)"
        by (intro candidate_good) auto
      then have ml: "good_match src pos ?cand ?ml" by (rule extend_match_good)
      moreover have "2 \<le> ?ml" using extend_match_ge [of "ll + 1" src pos ?cand] less.prems(1) by simp
      ultimately show ?thesis
        using True \<open>co \<noteq> lzsInvalidOffset \<and> pos < unat co + 2048\<close> IH [of ?ml ?cand]
        by (subst search_chain.simps) (auto simp: Let_def lzsMaximumHistory_def)
    next
      case False
      with \<open>co \<noteq> lzsInvalidOffset \<and> pos < unat co + 2048\<close> show ?thesis
        using IH less.prems
        by (subst search_chain.simps) (auto simp: Let_def lzsMaximumHistory_def)
    qed
  qed
qed

lemma copy_out_match:
  assumes "\<forall>k < n. src ! (mp + k) = src ! (pos + k)" "mp < pos" "pos + n \<le> length src"
  shows "copy_out (take pos src) (pos - mp) n = take (pos + n) src"
  using assms
proof (induction n arbitrary: pos mp)
  case (Suc n)
  from Suc.prems have "take pos src @ [take pos src ! (length (take pos src) - (pos - mp))]
      = take (Suc pos) src"
    by (auto simp: take_Suc_conv_app_nth dest: spec [of _ 0])
  moreover have "copy_out (take (Suc pos) src) (Suc pos - Suc mp) n = take (Suc pos + n) src"
    using Suc.prems by (intro Suc.IH) (auto dest: spec [of _ "Suc _"])
  ultimately show ?case by simp
qed simp

text \<open>
  What the loop does, for a writer of any size: it writes the codes of some tokens \<open>ts\<close>, which
  take the output from the first \<open>pos\<close> bytes of the source to the first \<open>pos'\<close> ones, and stops
  with at most two bytes left. A full writer is the only way to fail.
\<close>

definition loop_emits :: "lzsCompressor \<Rightarrow> bytes \<Rightarrow> nat \<Rightarrow> lzs_token list \<Rightarrow> lzsCompressor \<Rightarrow> nat \<Rightarrow> bool"
  where
  "loop_emits c src pos ts c' pos' \<longleftrightarrow>
     (\<forall>w. compress_loop c src w pos = Some (case put_codes lzs_write w (tokens_codes ts) of
                      Inl e \<Rightarrow> Inl e | Inr w' \<Rightarrow> Inr (c', w', pos'))) \<and>
     valid_tokens pos ts \<and> expand (take pos src) ts = take pos' src \<and>
     pos' \<le> length src \<and> length src \<le> pos' + 2 \<and> table_ok c' src pos'"

lemma loop_emits_literal:
  assumes "pos + 2 < length src"
    and "hashTable c (lzsHash src pos) = lzsInvalidOffset \<or>
      unat (hashTable c (lzsHash src pos)) + lzsMaximumHistory \<le> pos"
    and "loop_emits (insert_hash c src pos) src (pos + 1) ts c' pos'"
  shows "loop_emits c src pos (Literal (src ! pos) # ts) c' pos'"
  using assms
  by (auto simp: loop_emits_def compress_loop.simps [of c src _ pos] take_Suc_conv_app_nth
      split: sum.split)

lemma loop_emits_match:
  assumes pos: "pos + 2 < length src"
    and cand: "hashTable c (lzsHash src pos) \<noteq> lzsInvalidOffset"
      "\<not> unat (hashTable c (lzsHash src pos)) + lzsMaximumHistory \<le> pos"
    and found: "search_chain src pos (hashChain (insert_hash c src pos)) (hashTable c (lzsHash src pos))
      2 (unat (hashTable c (lzsHash src pos))) = Some (len, mp)"
    and good: "good_match src pos mp len" and len: "2 \<le> len"
    and rest: "if length src \<le> pos + len + 2
      then ts = [] \<and> c' = insert_hash c src pos \<and> pos' = pos + len \<and> table_ok c' src pos'
      else loop_emits (insert_hashes (insert_hash c src pos) src (pos + 1) (len - 1)) src (pos + len)
             ts c' pos'"
  shows "loop_emits c src pos (Match (pos - mp) len # ts) c' pos'"
proof -
  have copy: "copy_out (take pos src) (pos - mp) len = take (pos + len) src"
    using good by (intro copy_out_match) (auto simp: good_match_def)
  have step: "compress_loop c src w pos = (case put_codes lzs_write w (token_codes (Match (pos - mp) len)) of
      Inl e \<Rightarrow> Some (Inl e)
    | Inr w' \<Rightarrow> if pos + len + 2 \<ge> length src then Some (Inr (insert_hash c src pos, w', pos + len))
        else compress_loop (insert_hashes (insert_hash c src pos) src (pos + 1) (len - 1)) src w' (pos + len))"
    for w
    unfolding writeLZSMatch_codes [symmetric]
    using pos cand found by (simp add: compress_loop.simps [of c src w pos] Let_def)
  show ?thesis
  proof (cases "length src \<le> pos + len + 2")
    case True
    with rest good len show ?thesis
      by (auto simp: loop_emits_def step copy good_match_def split: sum.split
          simp del: token_codes.simps)
  next
    case False
    with rest good len show ?thesis
      by (auto simp: loop_emits_def step copy good_match_def put_codes_append split: sum.split
          simp del: token_codes.simps)
  qed
qed

lemma compress_loop_tokens:
  assumes "table_ok c src pos" "chain_ok (hashChain c) src pos" "length src \<le> 65536" "pos \<le> length src"
  shows "\<exists>ts c' pos'. loop_emits c src pos ts c' pos'"
  using assms
proof (induction "length src - pos" arbitrary: c pos rule: less_induct)
  case less
  let ?co = "hashTable c (lzsHash src pos)" and ?c = "insert_hash c src pos"
  show ?case
  proof (cases "pos + 2 < length src")
    case False
    with less.prems have "loop_emits c src pos [] c pos"
      by (simp add: loop_emits_def compress_loop.simps [of c src _ pos])
    then show ?thesis by blast
  next
    case True
    then have ok: "table_ok ?c src (pos + 1)" "chain_ok (hashChain ?c) src (pos + 1)"
      using insert_hash_ok [of c src pos] less.prems by simp_all
    show ?thesis
    proof (cases "?co = lzsInvalidOffset \<or> unat ?co + lzsMaximumHistory \<le> pos")
      case lit: True
      from True less.prems ok have "\<exists>ts c' pos'. loop_emits ?c src (pos + 1) ts c' pos'"
        by (intro less.hyps) auto
      with True lit show ?thesis by (blast intro: loop_emits_literal)
    next
      case False
      then have co: "unat ?co < pos" "lzsHash src (unat ?co) = lzsHash src pos" "pos < unat ?co + 2048"
        using less.prems(1) by (auto simp: table_ok_def lzsMaximumHistory_def)
      with True have "good_match src pos (unat ?co) 2"
        using lzsHash_two_bytes [OF co(2)] by (simp add: good_match_def)
      with ok co obtain len mp where
        found: "search_chain src pos (hashChain ?c) ?co 2 (unat ?co) = Some (len, mp)"
        and good: "good_match src pos mp len"
        using search_chain_good [of "hashChain ?c" src pos 2 "unat ?co" ?co] by auto
      from search_chain_ge [OF found] have len: "2 \<le> len" .
      show ?thesis
      proof (cases "length src \<le> pos + len + 2")
        case stop: True
        have "table_ok ?c src (pos + len)" using ok(1) len by (auto intro: table_ok_mono)
        with stop True False found good len show ?thesis
          by (intro exI [of _ "[Match (pos - mp) len]"] exI [of _ ?c] exI [of _ "pos + len"]
              loop_emits_match) auto
      next
        case more: False
        let ?c' = "insert_hashes ?c src (pos + 1) (len - 1)"
        have "table_ok ?c' src (pos + len) \<and> chain_ok (hashChain ?c') src (pos + len)"
          using insert_hashes_ok [OF ok, of "len - 1"] more len less.prems(3) by simp
        moreover have "length src - (pos + len) < length src - pos" using more len by simp
        ultimately obtain ts c' pos' where "loop_emits ?c' src (pos + len) ts c' pos'"
          using more less.prems less.hyps [of "pos + len" ?c'] by auto
        with more False have "loop_emits c src pos (Match (pos - mp) len # ts) c' pos'"
          by (intro loop_emits_match [OF True _ _ found good len]) auto
        then show ?thesis by blast
      qed
    qed
  qed
qed

lemma expand_append: "expand out (ts @ us) = expand (expand out ts) us"
  by (induction out ts rule: expand.induct) simp_all

text \<open>The last one or two bytes.\<close>

lemma compress_tail_tokens:
  assumes "table_ok c src pos" "pos \<le> length src" "length src \<le> pos + 2"
  shows "\<exists>ts. (\<forall>w. compress_tail c src w pos = put_codes lzs_write w (tokens_codes ts)) \<and>
    valid_tokens pos ts \<and> expand (take pos src) ts = src"
proof -
  let ?co = "hashTable c (lzsHash src pos)"
  consider "pos = length src" | "pos + 1 = length src"
    | (lit) "pos + 2 = length src" "?co = lzsInvalidOffset \<or> unat ?co + 2048 \<le> pos"
    | (mat) "pos + 2 = length src" "?co \<noteq> lzsInvalidOffset" "pos < unat ?co + 2048"
    using assms by fastforce
  then show ?thesis
  proof cases
    case 1
    then show ?thesis by (intro exI [of _ "[]"]) (simp add: compress_tail_def)
  next
    case 2
    then show ?thesis
      by (intro exI [of _ "[Literal (src ! pos)]"])
        (auto simp: compress_tail_def take_Suc_conv_app_nth [symmetric] split: sum.split)
  next
    case lit
    then show ?thesis
      by (intro exI [of _ "[Literal (src ! pos), Literal (src ! (pos + 1))]"])
        (auto simp: compress_tail_def lzsMaximumHistory_def take_Suc_conv_app_nth [symmetric]
          split: sum.split simp flip: append_assoc)
  next
    case mat
    with assms(1) have co: "unat ?co < pos" "lzsHash src (unat ?co) = lzsHash src pos"
      by (auto simp: table_ok_def)
    then have "copy_out (take pos src) (pos - unat ?co) 2 = take (pos + 2) src"
      using mat lzsHash_two_bytes [OF co(2)] by (intro copy_out_match) auto
    with mat co show ?thesis
      by (intro exI [of _ "[Match (pos - unat ?co) 2]"])
        (auto simp: compress_tail_def lzsMaximumHistory_def writeLZSMatch_codes)
  qed
qed

lemma valid_tokens_append:
  "valid_tokens (length out) (ts @ us) \<longleftrightarrow>
     valid_tokens (length out) ts \<and> valid_tokens (length (expand out ts)) us"
  by (induction out ts rule: expand.induct) auto

text \<open>The whole compressor: a token list that expands to the source, then the end marker.\<close>

lemma compress_tokens:
  assumes "length src \<le> 65536"
  obtains ts where "valid_tokens 0 ts" "expand [] ts = src"
    "\<And>dst. compress c dst src = Some
      (case put_codes lzs_write \<lparr>destination = dst, wbitOffset = 0\<rparr> (tokens_codes ts @ [(0xc000, 16)]) of
         Inl e \<Rightarrow> Inl e | Inr w \<Rightarrow> Inr (wbitOffset w div 8, destination w))"
proof -
  let ?c = "c\<lparr>hashTable := \<lambda>_. lzsInvalidOffset\<rparr>"
  have "table_ok ?c src 0" "chain_ok (hashChain ?c) src 0"
    by (simp_all add: table_ok_def chain_ok_def)
  then obtain ts c' pos where loop: "loop_emits ?c src 0 ts c' pos"
    using compress_loop_tokens assms by blast
  then obtain us where tail: "\<forall>w. compress_tail c' src w pos = put_codes lzs_write w (tokens_codes us)"
      "valid_tokens pos us" "expand (take pos src) us = src"
    using compress_tail_tokens [of c' src pos] by (auto simp: loop_emits_def)
  have "valid_tokens 0 (ts @ us)"
    using loop tail valid_tokens_append [of "[]" ts us] by (auto simp: loop_emits_def)
  moreover have "expand [] (ts @ us) = src"
    using loop tail by (auto simp: loop_emits_def expand_append)
  moreover have "compress c dst src = Some
      (case put_codes lzs_write \<lparr>destination = dst, wbitOffset = 0\<rparr> (tokens_codes (ts @ us) @ [(0xc000, 16)]) of
         Inl e \<Rightarrow> Inl e | Inr w \<Rightarrow> Inr (wbitOffset w div 8, destination w))" for dst
    using loop tail(1) assms
    by (auto simp: compress_def loop_emits_def put_codes_append lzsMaximumInputSize_def split: sum.split)
  ultimately show thesis by (rule that)
qed

section \<open>The decompressor\<close>

lemma word_bits_split: "word_bits v (m + n) = word_bits (drop_bit n v) m @ word_bits v n"
  by (induction m) (simp_all add: bit_drop_bit_eq add.commute)

text \<open>The length code as a sequence of nibbles.\<close>

fun nibbles :: "nat \<Rightarrow> bool list" where
  "nibbles m = (if m \<ge> 15 then word_bits (15 :: u32) 4 @ nibbles (m - 15)
     else word_bits (u32_of m) 4)"

declare nibbles.simps [simp del]

lemma word_bits_cong: "(\<And>i. i < n \<Longrightarrow> bit v i = bit w i) \<Longrightarrow> word_bits v n = word_bits w n"
  by (induction n) auto

lemma two_nibbles:
  assumes "k < 16"
  shows "word_bits (u32_of (0xf0 + k)) 8 = word_bits (15 :: u32) 4 @ word_bits (u32_of k) 4"
proof -
  have "k = 0 \<or> k = 1 \<or> k = 2 \<or> k = 3 \<or> k = 4 \<or> k = 5 \<or> k = 6 \<or> k = 7 \<or>
      k = 8 \<or> k = 9 \<or> k = 10 \<or> k = 11 \<or> k = 12 \<or> k = 13 \<or> k = 14 \<or> k = 15"
    using assms by arith
  then show ?thesis
    by (elim disjE; simp add: eval_nat_numeral bit_simps)
qed

lemma length_codes_nibbles: "code_bits (length_codes m) = nibbles m"
proof (induction m rule: length_codes.induct)
  case (1 m)
  show ?case
  proof (cases "m \<ge> 30")
    case True
    have "word_bits (0xff :: u32) 8 = word_bits (15 :: u32) 4 @ word_bits (15 :: u32) 4"
      using two_nibbles [of 15] by simp
    moreover have "15 \<le> m" "15 \<le> m - 15" "m - 15 - 15 = m - 30" using True by simp_all
    ultimately show ?thesis using True 1
      by (simp add: length_codes.simps [of m] nibbles.simps [of m] nibbles.simps [of "m - 15"])
  next
    case False
    then show ?thesis
      using two_nibbles [of "m - 15"]
      by (auto simp: length_codes.simps [of m] nibbles.simps [of m] nibbles.simps [of "m - 15"])
  qed
qed

lemma read_extension_nibbles:
  assumes "unread_bits r = nibbles m @ rest" "written + len + m \<le> cap"
  shows "\<exists>r'. read_extension cap written r len = Inr (len + m, r') \<and> unread_bits r' = rest"
  using assms
proof (induction m arbitrary: r len rule: nibbles.induct)
  case (1 m)
  show ?case
  proof (cases "m \<ge> 15")
    case True
    with 1(2) obtain r1 where r1: "lzs_read r 4 = Inr (15, r1)" "unread_bits r1 = nibbles (m - 15) @ rest"
      using lzs_source.get_exact [of 4 r 15 "nibbles (m - 15) @ rest"] by (auto simp: nibbles.simps [of m])
    with True 1 obtain r' where "read_extension cap written r1 (len + 15) = Inr (len + 15 + (m - 15), r')"
        "unread_bits r' = rest"
      using "1.IH" [of r1 "len + 15"] by auto
    with True 1(3) r1 show ?thesis by (auto simp: read_extension.simps [of cap written r len])
  next
    case False
    then have "unat (u32_of m) = m" by (simp add: unat_u32_of)
    with False 1(2) obtain r1 where r1: "lzs_read r 4 = Inr (u32_of m, r1)" "unread_bits r1 = rest"
      using lzs_source.get_exact [of 4 r "u32_of m" rest] by (auto simp: nibbles.simps [of m])
    moreover have "u32_of m \<noteq> 15"
      using \<open>unat (u32_of m) = m\<close> False by auto
    moreover have "uint (u32_of m) = int m" using \<open>unat (u32_of m) = m\<close> by (metis uint_nat)
    ultimately show ?thesis using 1(3) \<open>unat (u32_of m) = m\<close>
      by (auto simp: read_extension.simps [of cap written r len])
  qed
qed

lemma small_code:
  assumes "m < 3" shows "unat (u32_of m) = m" "u32_of m \<noteq> 3"
proof -
  show "unat (u32_of m) = m" using assms by (simp add: unat_u32_of)
  then show "u32_of m \<noteq> 3" using assms by auto
qed

lemma read_length_codes:
  assumes "unread_bits r = code_bits (match_length_codes len) @ rest" "2 \<le> len" "written + len \<le> cap"
  shows "\<exists>r'. read_length cap written r = Inr (len, r') \<and> unread_bits r' = rest"
proof -
  have three: "\<exists>r1. lzs_read r 2 = Inr (3, r1) \<and> unread_bits r1 = rest'"
    if "unread_bits r = word_bits (3 :: u32) 2 @ rest'" for r rest'
    using lzs_source.get_exact [of 2 r 3 rest'] that by simp
  consider "len < 5" | "5 \<le> len" "len < 8" | "8 \<le> len" by linarith
  then show ?thesis
  proof cases
    case 1
    define m where "m = len - 2"
    with 1 assms(2) have m: "len = m + 2" "m < 3" by simp_all
    then have small: "unat (u32_of m) = m" "u32_of m \<noteq> 3" by (simp_all add: small_code)
    with m assms(1) obtain r' where "lzs_read r 2 = Inr (u32_of m, r')" "unread_bits r' = rest"
      using lzs_source.get_exact [of 2 r "u32_of m" rest] by (auto simp: match_length_codes_def)
    with m small show ?thesis by (auto simp: read_length_def)
  next
    case 2
    define m where "m = len - 5"
    with 2 have m: "len = m + 5" "m < 3" by simp_all
    then have "m = 0 \<or> m = 1 \<or> m = 2" by arith
    then have "word_bits (u32_of (m + 12)) 4 = word_bits (3 :: u32) 2 @ word_bits (u32_of m) 2"
      by (elim disjE; simp add: eval_nat_numeral bit_simps)
    then have "unread_bits r = word_bits (3 :: u32) 2 @ word_bits (u32_of m) 2 @ rest"
      using m assms(1) by (simp add: match_length_codes_def add.assoc)
    with three obtain r1 where r1: "lzs_read r 2 = Inr (3, r1)"
        "unread_bits r1 = word_bits (u32_of m) 2 @ rest" by blast
    from m have small: "unat (u32_of m) = m" "u32_of m \<noteq> 3" by (simp_all add: small_code)
    then obtain r' where "lzs_read r1 2 = Inr (u32_of m, r')" "unread_bits r' = rest"
      using lzs_source.get_exact [of 2 r1 "u32_of m" rest] r1 m by auto
    with r1 m small show ?thesis by (auto simp: read_length_def)
  next
    case 3
    have "word_bits (15 :: u32) 4 = word_bits (3 :: u32) 2 @ word_bits (3 :: u32) 2"
      by (simp add: eval_nat_numeral bit_simps)
    with 3 assms(1) have "unread_bits r = word_bits (3 :: u32) 2 @ word_bits (3 :: u32) 2 @ nibbles (len - 8) @ rest"
      by (simp add: match_length_codes_def length_codes_nibbles nibbles.simps [of "len + 7"])
    then obtain r1 r2 where "lzs_read r 2 = Inr (3, r1)" "lzs_read r1 2 = Inr (3, r2)"
        and r2: "unread_bits r2 = nibbles (len - 8) @ rest"
      using three by meson
    then show ?thesis
      using read_extension_nibbles [OF r2, of written 8 cap] 3 assms(3) by (auto simp: read_length_def)
  qed
qed

lemma or_shifted_nat: "m < 2 ^ k \<Longrightarrow> push_bit k a OR m = a * 2 ^ k + (m :: nat)"
proof -
  assume "m < 2 ^ k"
  then have "take_bit k m = m" by (simp add: take_bit_nat_eq_self)
  then have "\<not> bit m n" if "k \<le> n" for n
    using that by (metis bit_take_bit_iff not_less)
  then have "push_bit k a + m = push_bit k a OR m"
    by (intro disjunctive_add) (auto simp: bit_push_bit_iff)
  then show ?thesis by (simp add: push_bit_eq_mult mult.commute)
qed

lemma and_mask7: "n AND 127 = n mod (128 :: nat)"
  using take_bit_eq_mask [of 7 n] by (simp add: mask_eq_exp_minus_1 take_bit_eq_mod)

lemma unat_and_mask7: "unat ((v :: u32) AND 0x7f) = unat v mod 128"
  by (simp add: unsigned_and_eq and_mask7)

lemma unat_short_offset: "offset < 128 \<Longrightarrow> unat (0x180 OR u32_of offset) = 0x180 + offset"
  using or_shifted_nat [of offset 7 3] by (simp add: unsigned_or_eq unat_u32_of push_bit_eq_mult)

lemma unat_long_offset: "offset < 2048 \<Longrightarrow> unat (0x1000 OR u32_of offset) = 0x1000 + offset"
  using or_shifted_nat [of offset 11 2] by (simp add: unsigned_or_eq unat_u32_of push_bit_eq_mult)

lemma read_short_offset:
  assumes "1 \<le> offset" "offset < 128"
    and "unread_bits r = word_bits (0x180 OR u32_of offset) 9 @ rest"
  obtains code r1 r2 where "lzs_read r 9 = Inr (code, r1)" "\<not> code < 0x100" "code \<noteq> 0x180"
    "read_offset code r1 = Inr (offset, r2)" "unread_bits r2 = rest"
proof -
  let ?code = "0x180 OR u32_of offset"
  from assms(2) have code: "unat ?code = 0x180 + offset" by (rule unat_short_offset)
  have "unat ?code < 2 ^ 9" using code assms(2) by simp
  with assms(3) obtain r1 where r1: "lzs_read r 9 = Inr (?code, r1)" "unread_bits r1 = rest"
    using lzs_source.get_exact [of 9 r ?code rest] by auto
  have less: "\<not> ?code < 0x100" "\<not> ?code < 0x180"
    using code by (simp_all only: word_less_nat_alt) simp_all
  have neq: "?code \<noteq> 0x180" using code assms(1) by auto
  have "(3 * 128 + offset) mod 128 = offset"
    using assms(2) by (simp only: mod_mult_self3 mod_less)
  then have "read_offset ?code r1 = Inr (offset, r1)"
    using less(2) code by (simp add: read_offset_def Let_def unat_and_mask7)
  with r1 less(1) neq show ?thesis by (intro that)
qed

lemma read_long_offset:
  assumes "offset < 2048"
    and "unread_bits r = word_bits (0x1000 OR u32_of offset) 13 @ rest"
  obtains code r1 r2 where "lzs_read r 9 = Inr (code, r1)" "\<not> code < 0x100" "code \<noteq> 0x180"
    "read_offset code r1 = Inr (offset, r2)" "unread_bits r2 = rest"
proof -
  define v where "v = 0x1000 OR u32_of offset"
  define code where "code = drop_bit 4 v"
  from assms(1) have v: "unat v = 0x1000 + offset"
    unfolding v_def by (rule unat_long_offset)
  then have code: "unat code = 256 + offset div 16"
    unfolding code_def by (simp only: unat_drop_bit_eq) (simp add: drop_bit_eq_div)
  have "word_bits v 13 = word_bits code 9 @ word_bits v 4"
    using word_bits_split [of v 9 4] by (simp add: code_def)
  with assms(2) have r: "unread_bits r = word_bits code 9 @ word_bits v 4 @ rest"
    by (simp add: v_def)
  have "unat code < 2 ^ 9" using code assms(1) by simp
  with r obtain r1 where r1: "lzs_read r 9 = Inr (code, r1)" "unread_bits r1 = word_bits v 4 @ rest"
    using lzs_source.get_exact [of 9 r code "word_bits v 4 @ rest"] by auto
  then obtain r2 where r2: "lzs_read r1 4 = Inr (take_bit 4 v, r2)" "unread_bits r2 = rest"
    using lzs_source.get_word [of 4 r1 v rest] by auto
  have less: "\<not> code < 0x100" "code < 0x180"
    using code assms(1) by (simp_all only: word_less_nat_alt) simp_all
  have neq: "code \<noteq> 0x180" using less by auto
  have "(256 * 16 + offset) mod 16 = offset mod 16" by (simp only: mod_mult_self3)
  then have low: "unat (take_bit 4 v) = offset mod 16"
    by (simp only: unsigned_take_bit_eq v) (simp add: take_bit_eq_mod)
  from assms(1) have "offset div 16 < 128" by simp
  then have "(2 * 128 + offset div 16) mod 128 = offset div 16"
    by (simp only: mod_mult_self3 mod_less)
  then have high: "unat (code AND 0x7f) = offset div 16"
    by (simp add: unat_and_mask7 code)
  have "push_bit 4 (offset div 16) OR offset mod 16 = offset"
    using or_shifted_nat [of "offset mod 16" 4 "offset div 16"] by simp
  with low high less(2) r2(1) have "read_offset code r1 = Inr (offset, r2)"
    by (simp add: read_offset_def Let_def)
  with r1(1) less(1) neq r2(2) show ?thesis by (intro that)
qed

lemma read_match_offset:
  assumes "1 \<le> offset" "offset < 2048"
    and "unread_bits r = code_bits [match_offset_code offset] @ rest"
  obtains code r1 r2 where "lzs_read r 9 = Inr (code, r1)" "\<not> code < 0x100" "code \<noteq> 0x180"
    "read_offset code r1 = Inr (offset, r2)" "unread_bits r2 = rest"
proof (cases "offset < 128")
  case True
  with assms show ?thesis by (intro read_short_offset [OF assms(1) _ _ that])
      (auto simp: match_offset_code_def)
next
  case False
  with assms show ?thesis by (intro read_long_offset [OF assms(2) _ that])
      (auto simp: match_offset_code_def)
qed

lemma length_copy_match [simp]: "length (copy_match dst written offset n) = length dst"
  by (induction dst written offset n rule: copy_match.induct) simp_all

lemma take_copy_match:
  assumes "1 \<le> offset" "offset \<le> written" "written + n \<le> length dst"
  shows "take (written + n) (copy_match dst written offset n) = copy_out (take written dst) offset n"
  using assms
proof (induction n arbitrary: dst written)
  case (Suc n)
  let ?b = "dst ! (written - offset)" and ?out = "take written dst"
  have "take (Suc written) (dst[written := ?b]) = ?out @ [?b]"
    using Suc.prems by (simp add: take_Suc_conv_app_nth)
  moreover have "?out ! (length ?out - offset) = ?b" using Suc.prems by simp
  moreover have "take (Suc written + n) (copy_match (dst[written := ?b]) (Suc written) offset n) =
      copy_out (take (Suc written) (dst[written := ?b])) offset n"
    using Suc.prems by (intro Suc.IH) simp_all
  ultimately show ?case by simp
qed simp

text \<open>One token read back: the loop goes on with the output the token expands to.\<close>

lemma decompress_token:
  assumes bits: "unread_bits r = code_bits (token_codes t) @ rest" and valid: "valid_tokens written [t]"
    and cap: "length (expand (take written dst) [t]) \<le> length dst" "written \<le> length dst"
  shows "\<exists>dst' r'. decompress_loop dst written r =
      decompress_loop dst' (length (expand (take written dst) [t])) r' \<and> unread_bits r' = rest \<and>
      length dst' = length dst \<and>
      take (length (expand (take written dst) [t])) dst' = expand (take written dst) [t]"
proof (cases t)
  case (Literal b)
  then obtain r' where "lzs_read r 9 = Inr (ucast b, r')" "unread_bits r' = rest"
    using lzs_source.get_exact [of 9 r "ucast b" rest] bits unat_byte_less [of b]
    by (auto simp: unat_ucast_byte)
  moreover have "(ucast b :: u32) < 0x100"
    using unat_byte_less [of b] by (simp add: word_less_nat_alt unat_ucast_byte)
  ultimately show ?thesis using Literal cap
    by (auto simp: decompress_loop.simps [of dst written r] take_Suc_conv_app_nth
        intro!: exI [of _ "dst[written := b]"] exI [of _ r'])
next
  case (Match offset len)
  with valid cap have m: "1 \<le> offset" "offset < 2048" "offset \<le> written" "2 \<le> len"
      "written + len \<le> length dst"
    by auto
  from bits Match have "unread_bits r = code_bits [match_offset_code offset] @
      (code_bits (match_length_codes len) @ rest)"
    by (cases "match_offset_code offset") simp
  with m obtain code r1 r2 where off: "lzs_read r 9 = Inr (code, r1)" "\<not> code < 0x100" "code \<noteq> 0x180"
      "read_offset code r1 = Inr (offset, r2)"
    and r2: "unread_bits r2 = code_bits (match_length_codes len) @ rest"
    by (elim read_match_offset) auto
  from read_length_codes [OF r2 m(4,5)] obtain r' where
    "read_length (length dst) written r2 = Inr (len, r')" "unread_bits r' = rest" by blast
  with off m Match cap show ?thesis
    by (auto simp: decompress_loop.simps [of dst written r] take_copy_match
        intro!: exI [of _ "copy_match dst written offset len"] exI [of _ r'])
qed

lemma length_expand_mono: "length out \<le> length (expand out ts)"
  by (induction out ts rule: expand.induct) auto

lemma decompress_tokens:
  assumes "unread_bits r = code_bits (tokens_codes ts) @ word_bits (0x180 :: u32) 9 @ rest"
    and "valid_tokens written ts" "written \<le> length dst"
    and "length (expand (take written dst) ts) \<le> length dst"
  shows "\<exists>dst'. decompress_loop dst written r = Inr (length (expand (take written dst) ts), dst') \<and>
    take (length (expand (take written dst) ts)) dst' = expand (take written dst) ts"
  using assms
proof (induction ts arbitrary: dst written r)
  case Nil
  then obtain r' where "lzs_read r 9 = Inr (0x180, r')"
    using lzs_source.get_exact [of 9 r "0x180" rest] by auto
  with Nil show ?case
    by (auto simp: decompress_loop.simps [of dst written r])
next
  case (Cons t ts)
  let ?out = "expand (take written dst) [t]"
  have split: "expand out (t # ts) = expand (expand out [t]) ts" for out
    by (cases t) simp_all
  have "valid_tokens written [t]" "valid_tokens (length ?out) ts"
    using Cons.prems by (cases t; simp)+
  moreover have "length ?out \<le> length dst"
    using Cons.prems(4) length_expand_mono [of ?out ts] by (simp add: split)
  ultimately obtain dst' r' where step: "decompress_loop dst written r = decompress_loop dst' (length ?out) r'"
      "unread_bits r' = code_bits (tokens_codes ts) @ word_bits (0x180 :: u32) 9 @ rest"
      "length dst' = length dst" "take (length ?out) dst' = ?out"
    using decompress_token [of r t "code_bits (tokens_codes ts) @ word_bits (0x180 :: u32) 9 @ rest"
        written dst] Cons.prems by auto
  then show ?case
    using Cons.IH [of r' "length ?out" dst'] Cons.prems
      \<open>valid_tokens (length ?out) ts\<close> \<open>length ?out \<le> length dst\<close>
    by (simp add: split)
qed

section \<open>Size of the output\<close>

lemma length_nibbles: "length (nibbles m) = 4 * (m div 15 + 1)"
proof (induction m rule: nibbles.induct)
  case (1 m)
  then show ?case
    by (cases "m \<ge> 15") (simp_all add: nibbles.simps [of m] le_div_geq)
qed

lemma token_size: "valid_tokens n [t] \<Longrightarrow>
  length (code_bits (token_codes t)) \<le> 9 * (length (expand out [t]) - length out)"
  by (cases t) (auto simp: match_offset_code_def match_length_codes_def length_codes_nibbles length_nibbles)

lemma tokens_size:
  "valid_tokens n ts \<Longrightarrow> length out + length (code_bits (tokens_codes ts)) \<le> 9 * length (expand out ts) - 8 * length out"
proof (induction ts arbitrary: n out)
  case (Cons t ts)
  let ?out = "expand out [t]"
  have split: "expand out (t # ts) = expand ?out ts" by (cases t) simp_all
  obtain m where "valid_tokens n [t]" "valid_tokens m ts"
    using Cons.prems by (cases t) auto
  then have "length (code_bits (token_codes t)) \<le> 9 * (length ?out - length out)"
      "length ?out + length (code_bits (tokens_codes ts)) \<le> 9 * length (expand ?out ts) - 8 * length ?out"
    using token_size Cons.IH by blast+
  then show ?case using length_expand_mono [of ?out ts] length_expand_mono [of out "[t]"]
    by (simp add: split)
qed simp

section \<open>The compressed stream\<close>

lemma compress_stream:
  assumes "compressLZS c dst src = Some (Inr (n, dst'))"
  obtains ts rest where "valid_tokens 0 ts" "expand [] ts = src" "length dst' = length dst" "n \<le> length dst"
    "bits_of (take n dst') = code_bits (tokens_codes ts) @ word_bits (0x180 :: u32) 9 @ rest"
proof -
  let ?w = "\<lparr>destination = dst, wbitOffset = 0\<rparr>"
  from assms have "length src \<le> 65536"
    by (auto simp: compressLZS_def compress_def lzsMaximumInputSize_def split: if_splits)
  from compress_tokens [OF this, of c] obtain ts where ts: "valid_tokens 0 ts" "expand [] ts = src"
    and comp: "\<And>dst. compress c dst src = Some (case put_codes lzs_write
         \<lparr>destination = dst, wbitOffset = 0\<rparr> (tokens_codes ts @ [(0xc000, 16)]) of
         Inl e \<Rightarrow> Inl e | Inr w \<Rightarrow> Inr (wbitOffset w div 8, destination w))"
    by blast
  let ?cs = "tokens_codes ts @ [(0xc000 :: u32, 16 :: nat)]" and ?A = "code_bits (tokens_codes ts)"
  from comp [of dst] assms obtain w where w: "put_codes lzs_write ?w ?cs = Inr w"
      "n = wbitOffset w div 8" "dst' = destination w"
    by (auto simp: compressLZS_def split: sum.splits)
  have bits: "written_bits w = code_bits ?cs" "wbitOffset w \<le> length dst' * 8" "length dst' = length dst"
    using lzs_sink.put_codes_Inr [OF w(1)] token_codes_width [of ts] w(3)
    by (auto simp: written_bits_def)
  have "word_bits (0xc000 :: u32) 16 = word_bits (0x180 :: u32) 9 @ word_bits (0xc000 :: u32) 7"
    using word_bits_split [of "0xc000 :: u32" 9 7] by simp
  then have wb: "written_bits w = ?A @ word_bits (0x180 :: u32) 9 @ word_bits (0xc000 :: u32) 7"
    using bits(1) by simp
  have "length (written_bits w) = wbitOffset w"
    using bits(2) w(3) by (simp add: written_bits_def)
  then have "length ?A + 16 = wbitOffset w" by (simp add: wb)
  with w(2) have room: "length ?A + 9 \<le> n * 8" "n * 8 \<le> wbitOffset w" by simp_all
  have "bits_of (take n dst') = take (n * 8) (written_bits w)"
    using room(2) w(3) by (simp add: bits_of_take written_bits_def)
  also have "\<dots> = ?A @ word_bits (0x180 :: u32) 9 @ take (n * 8 - length ?A - 9) (word_bits (0xc000 :: u32) 7)"
    using room(1) by (simp only: wb take_append) simp
  finally show thesis using that ts bits(2,3) room(2) by simp
qed

lemma copy_match_frame:
  "written + n \<le> m \<Longrightarrow> drop m (copy_match dst written offset n) = drop m dst"
  by (induction dst written offset n rule: copy_match.induct) simp_all

lemma decompress_loop_bounds:
  "decompress_loop dst written r = Inr (n, dst') \<Longrightarrow> written \<le> length dst \<Longrightarrow>
     written \<le> n \<and> n \<le> length dst \<and> length dst' = length dst \<and> drop n dst' = drop n dst"
proof (induction dst written r rule: decompress_loop.induct)
  case (1 dst written r)
  note loop = decompress_loop.simps [of dst written r]
  obtain code r1 where r1: "lzs_read r 9 = Inr (code, r1)"
    using "1.prems"(1) by (cases "lzs_read r 9") (auto simp: loop)
  consider (lit) "code < 0x100" | (stop) "code = 0x180" | (mat) "\<not> code < 0x100" "code \<noteq> 0x180"
    by blast
  then show ?case
  proof cases
    case lit
    with 1(3,4) r1 have less: "written < length dst" by (simp add: loop split: if_splits)
    with lit 1(3) r1 have "decompress_loop (dst[written := ucast code]) (written + 1) r1 = Inr (n, dst')"
      by (simp add: loop)
    with "1.IH"(1) [OF r1 refl lit] less show ?thesis by (auto simp: drop_update_cancel)
  next
    case stop
    with 1(3,4) r1 show ?thesis by (simp add: loop)
  next
    case mat
    with 1(3) r1 obtain offset r2 where r2: "read_offset code r1 = Inr (offset, r2)"
      by (auto simp: loop split: sum.splits)
    with mat 1(3) r1 obtain len r3 where r3: "read_length (length dst) written r2 = Inr (len, r3)"
      and ok: "\<not> (offset = 0 \<or> written < offset)" "\<not> int (length dst) - int written < int len"
      and go: "decompress_loop (copy_match dst written offset len) (written + len) r3 = Inr (n, dst')"
      by (auto simp: loop split: sum.splits if_splits)
    with "1.IH"(2) [OF r1 refl mat r2 refl ok(1) r3 refl ok(2) go]
    show ?thesis by (auto simp: copy_match_frame)
  qed
qed

text \<open>Nine bits per byte and the end marker are always enough room.\<close>

lemma compress_fits:
  assumes "length src \<le> 65536" "9 * length src + 16 \<le> 8 * length dst"
  shows "\<exists>n dst'. compressLZS c dst src = Some (Inr (n, dst')) \<and> n \<le> length dst \<and> length dst' = length dst"
proof -
  from compress_tokens [OF assms(1), of c] obtain ts where ts: "valid_tokens 0 ts" "expand [] ts = src"
    and comp: "\<And>dst. compress c dst src = Some (case put_codes lzs_write
         \<lparr>destination = dst, wbitOffset = 0\<rparr> (tokens_codes ts @ [(0xc000, 16)]) of
         Inl e \<Rightarrow> Inl e | Inr w \<Rightarrow> Inr (wbitOffset w div 8, destination w))"
    by blast
  let ?w = "\<lparr>destination = dst, wbitOffset = 0\<rparr>" and ?cs = "tokens_codes ts @ [(0xc000 :: u32, 16 :: nat)]"
  have "length (code_bits (tokens_codes ts)) \<le> 9 * length src"
    using tokens_size [OF ts(1), of "[]"] ts(2) by simp
  then obtain w where "put_codes lzs_write ?w ?cs = Inr w" "wbitOffset w \<le> length (destination w) * 8"
      "length (destination w) = length dst"
    using assms(2) token_codes_width [of ts] lzs_sink.put_codes_fit [of ?w ?cs]
    by (auto simp: written_bits_def)
  then show ?thesis by (simp add: compressLZS_def comp)
qed

lemma compress_returns: "\<exists>result. compressLZS c dst src = Some result"
proof (cases "length src \<le> 65536")
  case True
  from compress_tokens [OF this, of c] show ?thesis unfolding compressLZS_def by blast
next
  case False
  then show ?thesis by (simp add: compressLZS_def compress_def lzsMaximumInputSize_def)
qed

section \<open>Properties\<close>

text \<open>The round trip, for the codec and for the packets it compresses.\<close>

lemma lzs_inverse:
  assumes "compressLZS c dst src = Some (Inr (n, dst'))" and "length src \<le> length out"
  shows "\<exists>out'. decompressLZS out (take n dst') = Inr (length src, out') \<and> take (length src) out' = src"
proof -
  from assms(1) obtain ts rest where ts: "valid_tokens 0 ts" "expand [] ts = src"
    and "bits_of (take n dst') = code_bits (tokens_codes ts) @ word_bits (0x180 :: u32) 9 @ rest"
    by (rule compress_stream)
  then have "unread_bits \<lparr>source = take n dst', rbitOffset = 0\<rparr> =
      code_bits (tokens_codes ts) @ word_bits (0x180 :: u32) 9 @ rest"
    by (simp add: unread_bits_def)
  from decompress_tokens [OF this, of 0 out] ts assms(2) show ?thesis
    by (simp add: decompressLZS_def)
qed

text \<open>C1: whatever the pooled compressor holds, decompressing the bytes that \<open>compressLZS\<close> wrote, into
  any slice with room for the source, returns the length of the source and leaves the source in
  the slice.\<close>

theorem lzs_roundtrip:
  assumes "compressLZS c dst src = Some (Inr (n, dst'))" and "length src \<le> length out"
  shows "\<exists>out'. decompressLZS out (take n dst') = Inr (length src, out') \<and> take (length src) out' = src"
  using assms by (rule lzs_inverse)

theorem lzs_roundtrip_witness:
  "\<exists>n dst'. compressLZS \<lparr>hashTable = (\<lambda>_. 3), hashChain = (\<lambda>_. 7)\<rparr> (replicate 9 0) [1, 2, 1, 2, 1, 2] =
       Some (Inr (n, dst')) \<and>
     (\<exists>out'. decompressLZS (replicate 8 0) (take n dst') = Inr (6, out') \<and> take 6 out' = [1, 2, 1, 2, 1, 2])"
proof -
  let ?c = "\<lparr>hashTable = (\<lambda>_. 3), hashChain = (\<lambda>_. 7)\<rparr>" and ?src = "[1, 2, 1, 2, 1, 2] :: bytes"
  have len: "length ?src = 6" by simp
  obtain n dst' where comp: "compressLZS ?c (replicate 9 0) ?src = Some (Inr (n, dst'))"
    using compress_fits [of ?src "replicate 9 0" ?c] by auto
  have "length ?src \<le> length (replicate 8 (0 :: byte))" by simp
  with comp lzs_roundtrip [OF comp this] show ?thesis unfolding len by blast
qed

text \<open>C15: The compressor always returns: its search along the hash chain ends on every input, even when the
  pooled compressor holds stale or cyclic chain entries.\<close>

theorem compressLZS_returns: "\<exists>result. compressLZS c dst src = Some result"
  by (rule compress_returns)

text \<open>A source of at most 65536 bytes is compressed without error whenever the destination has nine
  bits per source byte and sixteen for the end marker, and the count it returns is within the
  destination.\<close>

theorem compressLZS_succeeds:
  assumes "length src \<le> 65536" and "9 * length src + 16 \<le> 8 * length dst"
  shows "\<exists>n dst'. compressLZS c dst src = Some (Inr (n, dst')) \<and> n \<le> length dst \<and> length dst' = length dst"
  using assms by (rule compress_fits)

theorem compressLZS_succeeds_witness:
  "\<exists>n dst'. compressLZS \<lparr>hashTable = (\<lambda>_. 3), hashChain = (\<lambda>_. 7)\<rparr> (replicate 9 0) [1, 2, 1, 2, 1, 2] =
     Some (Inr (n, dst')) \<and> n \<le> 9 \<and> length dst' = 9"
  using compressLZS_succeeds [of "[1, 2, 1, 2, 1, 2]" "replicate 9 0" "\<lparr>hashTable = (\<lambda>_. 3), hashChain = (\<lambda>_. 7)\<rparr>"]
  by simp

text \<open>Whatever bytes it is given, a successful \<open>decompressLZS\<close> wrote only the bytes it reports:
  the count is within the destination and the rest of the destination is untouched.\<close>

theorem decompressLZS_bounds:
  assumes "decompressLZS dst src = Inr (n, dst')"
  shows "n \<le> length dst \<and> length dst' = length dst \<and> drop n dst' = drop n dst"
  using assms decompress_loop_bounds [of dst 0] by (auto simp: decompressLZS_def)

theorem decompressLZS_bounds_witness:
  "decompressLZS [0, 0, 9] [0x03, 0xe0, 0x00] = Inr (1, [7, 0, 9]) \<and> drop 1 [7, 0, 9 :: byte] = drop 1 [0, 0, 9]"
proof -
  have "decompressLZS [0, 0, 9] [0x03, 0xe0, 0x00] = Inr (1, [7, 0, 9])" by code_simp
  from this decompressLZS_bounds [OF this] show ?thesis by simp
qed

end
