(* ===== verification/Esp_Replay.thy ===== *)
theory Esp_Replay
  imports Prelude
begin

text \<open>
  The anti-replay window of \<^verbatim>\<open>esp_replay.go\<close>: a bit mask of the sequence numbers missing
  below the next expected one. The abstraction is the set of sequence numbers accepted so far;
  \<open>tracks\<close> relates it to the two machine words, and the locale \<open>replay_filter\<close> is what the ESP
  receiver relies on; the window of \<^verbatim>\<open>dtls_legacy_record.go\<close> keeps the same contract.
\<close>

section \<open>Definitions\<close>

record espReplayWindow =
  missing :: u64
  nextSequence :: u64

definition accept :: "espReplayWindow \<Rightarrow> u32 \<Rightarrow> bool \<times> espReplayWindow" where
  "accept w sequence =
     (let sequence64 = ucast sequence :: u64 in
      if sequence64 = nextSequence w then
        (True, w\<lparr>missing := push_bit 1 (missing w), nextSequence := nextSequence w + 1\<rparr>)
      else if sequence64 > nextSequence w then
        let delta = unat (sequence64 - nextSequence w);
            missing' = (if delta \<ge> 64 then NOT 0
                        else if delta = 63 then drop_bit 1 (NOT 0)
                        else push_bit (delta + 1) (missing w) OR (push_bit delta 1 - 1))
        in (True, w\<lparr>missing := missing', nextSequence := sequence64 + 1\<rparr>)
      else
        let delta = unat (nextSequence w - sequence64)
        in if delta = 1 \<or> delta > 65 then (False, w)
           else let mask = push_bit (delta - 2) 1
                in if missing w AND mask = 0 then (False, w)
                   else (True, w\<lparr>missing := missing w AND NOT mask\<rparr>))"

text \<open>The window of a fresh security association.\<close>

definition emptyWindow :: espReplayWindow where
  "emptyWindow = \<lparr>missing = 0, nextSequence = 0\<rparr>"

section \<open>What a receiver relies on\<close>

text \<open>The sequence numbers that a filter lets through, in order, and the state it ends in.\<close>

fun accepted :: "('w \<Rightarrow> 'n \<Rightarrow> bool \<times> 'w) \<Rightarrow> 'w \<Rightarrow> 'n list \<Rightarrow> 'n list" where
  "accepted acc w [] = []"
| "accepted acc w (s # ss) =
     (case acc w s of (ok, w') \<Rightarrow> (if ok then [s] else []) @ accepted acc w' ss)"

fun after :: "('w \<Rightarrow> 'n \<Rightarrow> bool \<times> 'w) \<Rightarrow> 'w \<Rightarrow> 'n list \<Rightarrow> 'w" where
  "after acc w [] = w"
| "after acc w (s # ss) = after acc (snd (acc w s)) ss"

locale replay_filter =
  fixes start :: 'w
    and acc :: "'w \<Rightarrow> 'n \<Rightarrow> bool \<times> 'w"
    and seen :: "'w \<Rightarrow> 'n set \<Rightarrow> bool"
    and fresh :: "'n set \<Rightarrow> 'n \<Rightarrow> bool"
  assumes seen_start: "seen start {}"
    and acc_iff: "seen w S \<Longrightarrow> fst (acc w s) \<longleftrightarrow> fresh S s"
    and fresh_new: "fresh S s \<Longrightarrow> s \<notin> S"
    and seen_accept: "seen w S \<Longrightarrow> fst (acc w s) \<Longrightarrow> seen (snd (acc w s)) (insert s S)"
    and seen_reject: "seen w S \<Longrightarrow> \<not> fst (acc w s) \<Longrightarrow> seen (snd (acc w s)) S"
begin

lemma seen_after: "seen w S \<Longrightarrow> seen (after acc w ss) (S \<union> set (accepted acc w ss))"
proof (induction ss arbitrary: w S)
  case (Cons s ss)
  obtain ok w' where a: "acc w s = (ok, w')" by force
  have "seen w' (if ok then insert s S else S)"
    using Cons.prems a seen_accept [of w S s] seen_reject [of w S s] by auto
  from Cons.IH [OF this] a show ?case by (cases ok) simp_all
qed simp

lemma accepted_disjoint:
  "seen w S \<Longrightarrow> set (accepted acc w ss) \<inter> S = {} \<and> distinct (accepted acc w ss)"
proof (induction ss arbitrary: w S)
  case (Cons s ss)
  obtain ok w' where a: "acc w s = (ok, w')" by force
  show ?case
  proof (cases ok)
    case True
    with Cons.prems a have "seen w' (insert s S)" "s \<notin> S"
      using seen_accept [of w S s] acc_iff [of w S s] fresh_new by auto
    with a True Cons.IH [of w' "insert s S"] show ?thesis by auto
  next
    case False
    with Cons.prems a have "seen w' S" using seen_reject [of w S s] by simp
    with a False Cons.IH [of w' S] show ?thesis by auto
  qed
qed simp

lemma accepted_once: "distinct (accepted acc start ss)"
  using accepted_disjoint [OF seen_start] by blast

lemma accept_exact: "fst (acc (after acc start ss) s) \<longleftrightarrow> fresh (set (accepted acc start ss)) s"
  using acc_iff [OF seen_after [OF seen_start]] by simp

end

section \<open>The window keeps track of what it accepted\<close>

text \<open>
  Bit \<open>i\<close> of \<open>missing\<close> stands for the sequence number \<open>nextSequence - 2 - i\<close>: it is set exactly
  when that number exists and has not been accepted. The number just below \<open>nextSequence\<close> was.
\<close>

definition track :: "nat \<Rightarrow> u64 \<Rightarrow> nat set \<Rightarrow> bool" where
  "track n m R \<longleftrightarrow> n \<le> 2 ^ 32 \<and> (\<forall>r \<in> R. r < n) \<and> (n > 0 \<longrightarrow> n - 1 \<in> R) \<and>
     (\<forall>i < 64. bit m i \<longleftrightarrow> i + 2 \<le> n \<and> n - 2 - i \<notin> R)"

definition tracks :: "espReplayWindow \<Rightarrow> u32 set \<Rightarrow> bool" where
  "tracks w S \<longleftrightarrow> track (unat (nextSequence w)) (missing w) (unat ` S)"

text \<open>A number is fresh when it was not accepted and is at most 64 below the newest one.\<close>

definition in_window :: "u32 set \<Rightarrow> u32 \<Rightarrow> bool" where
  "in_window S s \<longleftrightarrow> s \<notin> S \<and> (\<forall>t \<in> S. unat t \<le> unat s + 64)"

lemma unat_ucast_u32: "unat (ucast (s :: u32) :: u64) = unat s"
  by (auto simp: unsigned_ucast_eq intro!: take_bit_nat_eq_self
      less_trans [OF unsigned_less [of s, where ?'a = nat]])

lemma unat_u32_bound: "unat (s :: u32) < 2 ^ 32"
  using unsigned_less [of s, where ?'a = nat] by simp

lemma inj_unat_u32: "inj (unat :: u32 \<Rightarrow> nat)"
  by (rule injI) (simp add: word_unat_eq_iff)

lemma track_newer:
  assumes "track n m R" "n \<le> s" "s < 2 ^ 32"
    and "\<And>i. i < 64 \<Longrightarrow> bit m' i \<longleftrightarrow> i < s - n \<or> s - n < i \<and> bit m (i - (s - n) - 1)"
  shows "track (s + 1) m' (insert s R)"
proof -
  obtain d where s: "s = n + d" using assms(2) le_iff_add by blast
  have below: "r < n" if "r \<in> R" for r using assms(1) that by (simp add: track_def)
  have bits: "bit m' i \<longleftrightarrow> i + 2 \<le> s + 1 \<and> s + 1 - 2 - i \<notin> insert s R" if "i < 64" for i
  proof -
    consider "i < d" | "i = d" | k where "i = d + 1 + k"
      by (metis less_iff_Suc_add nat_neq_iff add.assoc add_Suc_right plus_1_eq_Suc add.commute)
    then show ?thesis
    proof cases
      case 1
      then have "n \<le> n + d - 1 - i" by simp
      then have "n + d - 1 - i \<notin> R" using below not_less by blast
      with 1 assms(4) [OF that] show ?thesis by (simp add: s)
    next
      case 2
      have "n \<noteq> 0 \<longrightarrow> n - 1 \<in> R" using assms(1) by (simp add: track_def)
      with 2 assms(4) [OF that] show ?thesis by (auto simp: s)
    next
      case 3
      then have "bit m k \<longleftrightarrow> k + 2 \<le> n \<and> n - 2 - k \<notin> R"
        using assms(1) that by (simp add: track_def)
      moreover have "bit m' i \<longleftrightarrow> bit m k" using 3 assms(4) [OF that] by (simp add: s)
      moreover have "s + 1 - 2 - i = n - 2 - k" by (simp add: 3 s)
      ultimately show ?thesis using 3 by (auto simp: s)
    qed
  qed
  have "\<forall>r \<in> insert s R. r < s + 1" using below by (fastforce simp: s)
  with bits assms(3) show ?thesis by (simp add: track_def)
qed

lemma track_older:
  assumes "track n m R" "s + 2 \<le> n" "n - s - 2 < 64"
    and "\<And>i. i < 64 \<Longrightarrow> bit m' i \<longleftrightarrow> bit m i \<and> i \<noteq> n - s - 2"
  shows "track n m' (insert s R)"
proof -
  have "bit m' i \<longleftrightarrow> i + 2 \<le> n \<and> n - 2 - i \<notin> insert s R" if "i < 64" for i
  proof -
    have "i \<noteq> n - s - 2 \<longleftrightarrow> n - 2 - i \<noteq> s" if "i + 2 \<le> n" using assms(2) that by linarith
    with that assms show ?thesis by (auto simp: track_def)
  qed
  with assms show ?thesis by (auto simp: track_def)
qed

lemma next_bound: "tracks w S \<Longrightarrow> unat (nextSequence w) \<le> 2 ^ 32"
  by (simp add: tracks_def track_def)

lemma bit_ones_below: "d < 64 \<Longrightarrow> bit (push_bit d 1 - 1 :: u64) i \<longleftrightarrow> i < d"
  using bit_mask_iff [of d i, where ?'a = u64]
  by (auto simp: mask_eq_exp_minus_1 push_bit_of_1)

lemma bit_jump:
  assumes "i < 64" "d < 63"
  shows "bit (push_bit (d + 1) m OR (push_bit d 1 - 1) :: u64) i \<longleftrightarrow> i < d \<or> d < i \<and> bit m (i - d - 1)"
  using assms unfolding bit_or_iff bit_push_bit_iff
  by (subst bit_ones_below) auto

text \<open>The three ways a sequence number relates to the window.\<close>

lemma unat_successor: "unat (v :: u64) < 2 ^ 33 \<Longrightarrow> unat (v + 1) = unat v + 1"
  by (subst unat_add_lem [THEN iffD1]) simp_all

lemma accept_newer:
  assumes "tracks w S" "unat (nextSequence w) \<le> unat s"
  shows "fst (accept w s) \<and> tracks (snd (accept w s)) (insert s S)"
proof (cases "unat (nextSequence w) = unat s")
  case True
  then have eq: "ucast s = nextSequence w" by (metis unat_ucast_u32 word_unat_eq_iff)
  have "unat (nextSequence w + 1) = unat s + 1"
    using True unat_u32_bound [of s] by (subst unat_successor) simp_all
  moreover have "track (unat s + 1) (push_bit 1 (missing w)) (insert (unat s) (unat ` S))"
    using assms(1) True unat_u32_bound [of s]
    by (intro track_newer [of "unat s" "missing w"]) (auto simp: tracks_def bit_double_iff mult.commute [of "missing w" 2])
  ultimately show ?thesis by (simp add: accept_def eq tracks_def)
next
  case False
  let ?n = "unat (nextSequence w)" and ?d = "unat s - unat (nextSequence w)"
  let ?m = "missing (snd (accept w s))"
  have neq: "ucast s \<noteq> nextSequence w" using False unat_ucast_u32 [of s] by auto
  have less: "nextSequence w < ucast s"
    using False assms(2) by (simp add: word_less_nat_alt unat_ucast_u32)
  have d: "unat (ucast s - nextSequence w) = ?d"
    using less by (simp add: unat_sub unat_ucast_u32 order_less_imp_le)
  have "unat (ucast s + 1 :: u64) = unat s + 1"
    using unat_u32_bound [of s] by (subst unat_successor) (simp_all add: unat_ucast_u32)
  moreover have "bit ?m i \<longleftrightarrow> i < ?d \<or> ?d < i \<and> bit (missing w) (i - ?d - 1)" if "i < 64" for i
  proof -
    consider "64 \<le> ?d" | "?d = 63" | "?d < 63" by linarith
    then show ?thesis
    proof cases
      case 1
      with that neq less show ?thesis by (simp add: accept_def Let_def d bit_simps)
    next
      case 2
      with that neq less show ?thesis by (auto simp: accept_def Let_def d bit_simps)
    next
      case 3
      with neq less have "?m = push_bit (?d + 1) (missing w) OR (push_bit ?d 1 - 1)"
        by (simp add: accept_def Let_def d del: push_bit_Suc)
      with bit_jump [OF that 3] show ?thesis by simp
    qed
  qed
  ultimately show ?thesis
    using assms track_newer [of ?n "missing w" "unat ` S" "unat s" ?m] neq less unat_u32_bound [of s]
    by (simp add: accept_def Let_def tracks_def)
qed

lemma accept_older:
  assumes "tracks w S" "unat s < unat (nextSequence w)"
  shows "fst (accept w s) \<longleftrightarrow> s \<notin> S \<and> unat (nextSequence w) \<le> unat s + 65"
    and "tracks (snd (accept w s)) (if fst (accept w s) then insert s S else S)"
proof -
  let ?n = "unat (nextSequence w)" and ?d = "unat (nextSequence w) - unat s"
  have neq: "ucast s \<noteq> nextSequence w" "\<not> nextSequence w < ucast s"
    using assms(2) unat_ucast_u32 [of s] by (auto simp: word_less_nat_alt)
  have "unat (ucast s :: u64) \<le> ?n" using assms(2) by (simp add: unat_ucast_u32)
  then have d: "unat (nextSequence w - ucast s) = ?d"
    by (simp add: unat_sub word_le_nat_alt unat_ucast_u32)
  have mem: "unat s \<in> unat ` S \<longleftrightarrow> s \<in> S" by (rule inj_image_mem_iff [OF inj_unat_u32])
  have one: "s \<in> S" if "?d = 1"
  proof -
    from that assms(2) have "?n - 1 = unat s" "0 < ?n" by linarith+
    with assms(1) mem show ?thesis by (simp add: tracks_def track_def)
  qed
  have bitm: "bit (missing w) (?d - 2) \<longleftrightarrow> s \<notin> S" if "2 \<le> ?d" "?d \<le> 65"
  proof -
    have "?d - 2 < 64" "?d - 2 + 2 \<le> ?n" "?n - 2 - (?d - 2) = unat s" using that assms(2) by linarith+
    with assms(1) mem show ?thesis by (auto simp: tracks_def track_def)
  qed
  show iff: "fst (accept w s) \<longleftrightarrow> s \<notin> S \<and> ?n \<le> unat s + 65"
  proof -
    consider "?d = 1" | "65 < ?d" | "2 \<le> ?d" "?d \<le> 65" using assms(2) by linarith
    then show ?thesis
    proof cases
      case 1
      with neq one [OF 1] show ?thesis by (simp add: accept_def Let_def d)
    next
      case 2
      then have "\<not> ?n \<le> unat s + 65" by linarith
      with 2 neq show ?thesis by (simp add: accept_def Let_def d)
    next
      case 3
      with neq bitm [OF 3] assms(2) show ?thesis
        by (auto simp: accept_def Let_def d and_exp_eq_0_iff_not_bit push_bit_of_1)
    qed
  qed
  show "tracks (snd (accept w s)) (if fst (accept w s) then insert s S else S)"
  proof (cases "fst (accept w s)")
    case True
    with iff one have "?d \<noteq> 1" by blast
    moreover have "?n \<le> unat s + 65" using True iff by blast
    ultimately have r: "2 \<le> ?d" "?d \<le> 65" using assms(2) by linarith+
    from r have "track ?n (missing w AND NOT (push_bit (?d - 2) 1)) (insert (unat s) (unat ` S))"
      using assms by (intro track_older [of ?n "missing w"]) (auto simp: tracks_def bit_simps)
    with True neq show ?thesis by (auto simp: accept_def Let_def d tracks_def split: if_splits)
  next
    case False
    with neq assms(1) show ?thesis by (auto simp: accept_def Let_def split: if_splits)
  qed
qed

lemma tracks_in_window:
  assumes "tracks w S"
  shows "in_window S s \<longleftrightarrow> s \<notin> S \<and> unat (nextSequence w) \<le> unat s + 65"
proof -
  have "(\<forall>t \<in> S. unat t \<le> unat s + 64) \<longleftrightarrow> unat (nextSequence w) \<le> unat s + 65"
    using assms by (fastforce simp: tracks_def track_def)
  then show ?thesis by (simp add: in_window_def)
qed

interpretation esp_window: replay_filter emptyWindow accept tracks in_window
proof unfold_locales
  show "tracks emptyWindow {}" by (simp add: tracks_def track_def emptyWindow_def)
next
  fix w S s assume t: "tracks w S"
  then have new: "s \<notin> S" if "unat (nextSequence w) \<le> unat s"
    using that by (fastforce simp: tracks_def track_def)
  show "fst (accept w s) \<longleftrightarrow> in_window S s"
    using new accept_newer [OF t, of s] accept_older(1) [OF t, of s] tracks_in_window [OF t, of s]
    by (cases "unat (nextSequence w) \<le> unat s") auto
  show "tracks (snd (accept w s)) (insert s S)" if "fst (accept w s)"
    using that accept_newer [OF t, of s] accept_older(2) [OF t, of s]
    by (cases "unat (nextSequence w) \<le> unat s") auto
  show "tracks (snd (accept w s)) S" if "\<not> fst (accept w s)"
    using that accept_newer [OF t, of s] accept_older(2) [OF t, of s]
    by (cases "unat (nextSequence w) \<le> unat s") auto
qed (simp add: in_window_def)

section \<open>Properties\<close>

text \<open>Over any sequence of packets, the window of a fresh association lets no sequence number through
  twice.\<close>

theorem replay_accepted_once: "distinct (accepted accept emptyWindow ss)"
  by (rule esp_window.accepted_once)

text \<open>C16: after any sequence of packets, the window accepts a sequence number exactly when it was not
  accepted before and is at most 64 below the newest accepted one; in particular a number above
  all accepted ones is always accepted.\<close>

theorem replay_accept_exact:
  "fst (accept (after accept emptyWindow ss) s) \<longleftrightarrow>
     s \<notin> set (accepted accept emptyWindow ss) \<and>
     list_all (\<lambda>t. unat t \<le> unat s + 64) (accepted accept emptyWindow ss)"
  using esp_window.accept_exact [of ss s] by (simp add: in_window_def list_all_iff)

end
