(* ===== verification/Cbc.thy ===== *)
theory Cbc
  imports Prelude
begin

text \<open>
  Cipher block chaining (\<^verbatim>\<open>cipher.NewCBCEncrypter\<close> and \<^verbatim>\<open>NewCBCDecrypter\<close> of the Go standard library) over a
  block cipher with blocks of \<open>n\<close> bytes, which ESP packets and legacy DTLS records use.
\<close>

section \<open>Definitions\<close>

definition xor_bytes :: "bytes \<Rightarrow> bytes \<Rightarrow> bytes" where
  "xor_bytes xs ys = map2 (XOR) xs ys"

function cbc_encrypt :: "nat \<Rightarrow> (bytes \<Rightarrow> bytes) \<Rightarrow> bytes \<Rightarrow> bytes \<Rightarrow> bytes" where
  "cbc_encrypt n enc chain text =
     (if text = [] \<or> n = 0 then []
      else let block = enc (xor_bytes chain (take n text))
           in block @ cbc_encrypt n enc block (drop n text))"
  by pat_completeness auto
termination
  by (relation "measure (\<lambda>(n, enc, chain, text). length text)") auto

function cbc_decrypt :: "nat \<Rightarrow> (bytes \<Rightarrow> bytes) \<Rightarrow> bytes \<Rightarrow> bytes \<Rightarrow> bytes" where
  "cbc_decrypt n dec chain text =
     (if text = [] \<or> n = 0 then []
      else xor_bytes chain (dec (take n text)) @ cbc_decrypt n dec (take n text) (drop n text))"
  by pat_completeness auto
termination
  by (relation "measure (\<lambda>(n, dec, chain, text). length text)") auto

declare cbc_encrypt.simps [simp del] cbc_decrypt.simps [simp del]

section \<open>Decryption inverts encryption\<close>

lemma length_xor_bytes [simp]: "length (xor_bytes xs ys) = min (length xs) (length ys)"
  by (simp add: xor_bytes_def)

lemma xor_bytes_cancel: "length xs = length ys \<Longrightarrow> xor_bytes xs (xor_bytes xs ys) = ys"
  by (induction xs ys rule: list_induct2) (auto simp: xor_bytes_def xor.assoc [symmetric])

lemma block_split:
  assumes "n dvd length (plain :: bytes)" "plain \<noteq> []"
  shows "length (take n plain) = n" "n dvd length (drop n plain)"
proof -
  have "n \<le> length plain" using assms by (auto dest: dvd_imp_le)
  with assms(1) show "length (take n plain) = n" "n dvd length (drop n plain)"
    by (auto simp: dvd_diff_nat)
qed

lemma cbc_inverse:
  assumes "\<And>b. length b = n \<Longrightarrow> length (enc b) = n \<and> dec (enc b) = b"
    and "length chain = n" "n dvd length plain" "0 < n"
  shows "length (cbc_encrypt n enc chain plain) = length plain \<and>
    cbc_decrypt n dec chain (cbc_encrypt n enc chain plain) = plain"
  using assms(2,3)
proof (induction "length plain" arbitrary: chain plain rule: less_induct)
  case less
  show ?case
  proof (cases "plain = []")
    case True
    then show ?thesis by (simp add: cbc_encrypt.simps cbc_decrypt.simps)
  next
    case False
    let ?x = "xor_bytes chain (take n plain)"
    note split = block_split [OF less.prems(2) False]
    from split(1) less.prems(1) have x: "length ?x = n" by simp
    with assms(1) have e: "length (enc ?x) = n" "dec (enc ?x) = ?x" by blast+
    have IH: "length (cbc_encrypt n enc (enc ?x) (drop n plain)) = length (drop n plain) \<and>
        cbc_decrypt n dec (enc ?x) (cbc_encrypt n enc (enc ?x) (drop n plain)) = drop n plain"
      using False split e assms(4) by (intro less.hyps) auto
    have "cbc_encrypt n enc chain plain = enc ?x @ cbc_encrypt n enc (enc ?x) (drop n plain)"
      using False assms(4) by (simp add: cbc_encrypt.simps [of n enc chain plain] Let_def)
    moreover have "xor_bytes chain ?x = take n plain"
      using split(1) less.prems(1) by (simp add: xor_bytes_cancel)
    moreover have "enc ?x \<noteq> []" using e(1) assms(4) by auto
    ultimately show ?thesis
      using IH e split(1) assms(4) by (simp add: cbc_decrypt.simps [of n dec chain])
  qed
qed

end
