(* ===== verification/Esp_Packet.thy ===== *)
theory Esp_Packet
  imports Esp_Replay Cbc
begin

text \<open>
  ESP encapsulation of \<^verbatim>\<open>esp_packet.go\<close>: security associations, the key set with its current and
  previous inbound association, sealing and opening of datagrams.

  The block cipher and the keyed hash of the Go standard library are parameters, collected in
  the record \<open>esp_crypto\<close>; CBC chaining is that of \<open>Cbc\<close>. What the
  properties need of them (\<open>crypto_ok\<close>) is that decryption inverts encryption on blocks of
  sixteen bytes and that blocks and digests have their documented lengths. Randomness is an
  argument: the sixteen bytes, or the error, that \<open>rand.Read\<close> returned. A packet buffer is the
  list of bytes it holds.
\<close>

section \<open>Definitions\<close>

subsection \<open>Algorithms\<close>

datatype espEncryption = espEncryptionAES128CBC | espEncryptionAES256CBC | espEncryptionOther byte

datatype espAuthentication =
    espAuthenticationHMACMD596
  | espAuthenticationHMACSHA196
  | espAuthenticationHMACSHA256128
  | espAuthenticationOther byte

fun encryptionKeyLength :: "espEncryption \<Rightarrow> nat" where
  "encryptionKeyLength espEncryptionAES128CBC = 16"
| "encryptionKeyLength espEncryptionAES256CBC = 32"
| "encryptionKeyLength (espEncryptionOther _) = 0"

fun authenticationKeyLength :: "espAuthentication \<Rightarrow> nat" where
  "authenticationKeyLength espAuthenticationHMACMD596 = 16"
| "authenticationKeyLength espAuthenticationHMACSHA196 = 20"
| "authenticationKeyLength espAuthenticationHMACSHA256128 = 32"
| "authenticationKeyLength (espAuthenticationOther _) = 0"

fun icvLength :: "espAuthentication \<Rightarrow> nat" where
  "icvLength espAuthenticationHMACMD596 = 12"
| "icvLength espAuthenticationHMACSHA196 = 12"
| "icvLength espAuthenticationHMACSHA256128 = 16"
| "icvLength (espAuthenticationOther _) = 0"

text \<open>The cipher by key, and the full keyed digest by algorithm, key and message.\<close>

record esp_crypto =
  block_encrypt :: "bytes \<Rightarrow> bytes \<Rightarrow> bytes"
  block_decrypt :: "bytes \<Rightarrow> bytes \<Rightarrow> bytes"
  hmac_sum :: "espAuthentication \<Rightarrow> bytes \<Rightarrow> bytes \<Rightarrow> bytes"

subsection \<open>Security associations\<close>

record espKeyMaterial =
  SPI :: u32
  EncryptionKey :: bytes
  AuthenticationKey :: bytes

record espKeySetConfig =
  Encryption :: espEncryption
  Authentication :: espAuthentication
  Outbound :: espKeyMaterial
  Inbound :: espKeyMaterial
  DisableReplayProtection :: bool

text \<open>
  The fields \<open>block\<close> and \<open>mac\<close> are determined by the keys, and \<open>icv\<close> is scratch space of the
  digest; neither is kept.
\<close>

record espSecurityAssociation =
  encryption :: espEncryption
  authentication :: espAuthentication
  spi :: u32
  encryptionKey :: bytes
  authenticationKey :: bytes
  sequence :: u64
  replay :: espReplayWindow
  iv :: bytes
  valid :: bool

definition zeroAssociation :: espSecurityAssociation where
  "zeroAssociation = \<lparr>encryption = espEncryptionOther 0, authentication = espAuthenticationOther 0,
     spi = 0, encryptionKey = [], authenticationKey = [], sequence = 0, replay = emptyWindow,
     iv = replicate 16 0, valid = False\<rparr>"

text \<open>The association after \<open>destroy\<close>.\<close>

definition destroyAssociation :: "espSecurityAssociation \<Rightarrow> espSecurityAssociation" where
  "destroyAssociation a = zeroAssociation"

definition newESPSecurityAssociation ::
  "espEncryption \<Rightarrow> espAuthentication \<Rightarrow> espKeyMaterial \<Rightarrow> bool \<Rightarrow> bytes result \<Rightarrow>
     espSecurityAssociation result" where
  "newESPSecurityAssociation enc auth material outbound random =
     (if encryptionKeyLength enc = 0 then Inl (New ''unknown ESP encryption algorithm'')
      else if authenticationKeyLength auth = 0 then Inl (New ''unknown ESP authentication algorithm'')
      else if SPI material = 0 then Inl (New ''ESP SPI is zero'')
      else if length (EncryptionKey material) \<noteq> encryptionKeyLength enc
      then Inl (New ''invalid ESP encryption key length'')
      else if length (AuthenticationKey material) \<noteq> authenticationKeyLength auth
      then Inl (New ''invalid ESP authentication key length'')
      else
        let association = zeroAssociation\<lparr>encryption := enc, authentication := auth,
              spi := SPI material, encryptionKey := EncryptionKey material,
              authenticationKey := AuthenticationKey material, valid := True\<rparr>
        in if \<not> outbound then Inr association
           else (case random of
                   Inl e \<Rightarrow> Inl (Cause e ''generate initial ESP IV'')
                 | Inr initial \<Rightarrow> Inr (association\<lparr>iv := initial\<rparr>)))"

subsection \<open>Key sets\<close>

record espKeySet =
  outbound :: espSecurityAssociation
  currentInbound :: espSecurityAssociation
  previousInbound :: espSecurityAssociation
  previousLimit :: u64
  disableReplayProtection :: bool
  destroyed :: bool

definition errESPInvalidDatagram :: go_error where
  "errESPInvalidDatagram = New ''invalid ESP datagram''"
definition errESPAuthenticationFailed :: go_error where
  "errESPAuthenticationFailed = New ''ESP authentication failed''"
definition errESPReplay :: go_error where
  "errESPReplay = New ''ESP replay rejected''"
definition errESPSequenceExhausted :: go_error where
  "errESPSequenceExhausted = New ''ESP sequence exhausted''"
definition errESPKeysDestroyed :: go_error where
  "errESPKeysDestroyed = New ''ESP keys are destroyed''"

definition newESPKeySet :: "espKeySetConfig \<Rightarrow> bytes result \<Rightarrow> espKeySet result" where
  "newESPKeySet config random =
     (case newESPSecurityAssociation (Encryption config) (Authentication config) (Outbound config)
             True random of
        Inl e \<Rightarrow> Inl (Cause e ''initialize outbound ESP security association'')
      | Inr out \<Rightarrow>
          (case newESPSecurityAssociation (Encryption config) (Authentication config)
                  (Inbound config) False random of
             Inl e \<Rightarrow> Inl (Cause e ''initialize inbound ESP security association'')
           | Inr inb \<Rightarrow> Inr \<lparr>outbound = out, currentInbound = inb, previousInbound = zeroAssociation,
               previousLimit = 0, disableReplayProtection = DisableReplayProtection config,
               destroyed = False\<rparr>))"

text \<open>The mutating methods return the key set they leave behind, also when they fail.\<close>

definition install :: "espKeySet \<Rightarrow> espKeySetConfig \<Rightarrow> bytes result \<Rightarrow> espKeySet \<times> unit result" where
  "install s config random =
     (case newESPSecurityAssociation (Encryption config) (Authentication config) (Outbound config)
             True random of
        Inl e \<Rightarrow> (s, Inl (Cause e ''initialize replacement outbound ESP security association''))
      | Inr out \<Rightarrow>
          (case newESPSecurityAssociation (Encryption config) (Authentication config)
                  (Inbound config) False random of
             Inl e \<Rightarrow> (s, Inl (Cause e ''initialize replacement inbound ESP security association''))
           | Inr inb \<Rightarrow>
               if destroyed s then (s, Inl errESPKeysDestroyed)
               else (s\<lparr>previousInbound := currentInbound s,
                       previousLimit := nextSequence (replay (currentInbound s)) + 32,
                       outbound := out,
                       currentInbound := inb,
                       disableReplayProtection := DisableReplayProtection config\<rparr>, Inr ())))"

definition destroyKeySet :: "espKeySet \<Rightarrow> espKeySet" where
  "destroyKeySet s =
     (if destroyed s then s
      else s\<lparr>destroyed := True, outbound := destroyAssociation (outbound s),
             currentInbound := destroyAssociation (currentInbound s),
             previousInbound := destroyAssociation (previousInbound s), previousLimit := 0\<rparr>)"

subsection \<open>Sealing\<close>

definition espIPv4NextHeader :: byte where "espIPv4NextHeader = 4"
definition espLZONextHeader :: byte where "espLZONextHeader = 5"
definition espIPv6NextHeader :: byte where "espIPv6NextHeader = 41"

definition knownNextHeader :: "byte \<Rightarrow> bool" where
  "knownNextHeader h \<longleftrightarrow> h = espIPv4NextHeader \<or> h = espIPv6NextHeader \<or> h = espLZONextHeader"

definition selectNextHeader :: "bytes \<Rightarrow> byte \<Rightarrow> byte result" where
  "selectNextHeader payload nextHeader =
     (if nextHeader = 0 then
        (case payload of
           [] \<Rightarrow> Inl (Extend errESPInvalidDatagram ''empty ESP payload'')
         | b # _ \<Rightarrow>
             if drop_bit 4 b = 4 then Inr espIPv4NextHeader
             else if drop_bit 4 b = 6 then Inr espIPv6NextHeader
             else Inl (Extend errESPInvalidDatagram ''unknown inner IP version''))
      else Inr nextHeader)"

definition espPadding :: "nat \<Rightarrow> bytes" where
  "espPadding n = map (\<lambda>i. byte_of (i + 1)) [0..<n]"

definition paddingLengthFor :: "nat \<Rightarrow> nat" where
  "paddingLengthFor n = 16 - 1 - (n + 1) mod 16"

definition sealBuffer ::
  "esp_crypto \<Rightarrow> espKeySet \<Rightarrow> bytes \<Rightarrow> byte \<Rightarrow> espKeySet \<times> bytes result" where
  "sealBuffer cr s payload nextHeader0 =
     (if destroyed s \<or> \<not> valid (outbound s) then (s, Inl errESPKeysDestroyed)
      else case selectNextHeader payload nextHeader0 of
        Inl e \<Rightarrow> (s, Inl e)
      | Inr nextHeader \<Rightarrow>
          if \<not> knownNextHeader nextHeader
          then (s, Inl (Extend errESPInvalidDatagram ''unknown next header''))
          else if sequence (outbound s) > 0xffffffff then (s, Inl errESPSequenceExhausted)
          else
            let out = outbound s;
                paddingLength = paddingLengthFor (length payload);
                header = put_u32 (spi out) @ put_u32 (ucast (sequence out)) @ iv out;
                trailer = espPadding paddingLength @ [byte_of paddingLength, nextHeader];
                ciphertext = cbc_encrypt 16 (block_encrypt cr (encryptionKey out)) (iv out)
                               (payload @ trailer);
                fullICV = hmac_sum cr (authentication out) (authenticationKey out) (header @ ciphertext);
                chainInput = drop (length fullICV - 16) fullICV;
                lastCiphertext = drop (length ciphertext - 16) ciphertext;
                nextIV = block_encrypt cr (encryptionKey out) (xor_bytes chainInput lastCiphertext)
            in (s\<lparr>outbound := out\<lparr>sequence := sequence out + 1, iv := nextIV\<rparr>\<rparr>,
                Inr (header @ ciphertext @ take (icvLength (authentication out)) fullICV)))"

subsection \<open>Opening\<close>

text \<open>Which inbound association a datagram belongs to: \<open>True\<close> is the current one.\<close>

definition selectInbound :: "espKeySet \<Rightarrow> u32 \<Rightarrow> u32 \<Rightarrow> bool option" where
  "selectInbound s datagramSPI seq =
     (if datagramSPI = spi (currentInbound s) then Some True
      else if \<not> valid (previousInbound s) \<or> datagramSPI \<noteq> spi (previousInbound s) \<or>
              ucast seq + nextSequence (replay (currentInbound s)) \<ge> previousLimit s then None
      else Some False)"

text \<open>The checks on the decrypted text: padding length, padding bytes and next header.\<close>

definition parsePlaintext :: "bytes \<Rightarrow> (byte \<times> bytes) result" where
  "parsePlaintext plaintext =
     (let paddingLength = unat (plaintext ! (length plaintext - 2)) in
      if length plaintext \<le> paddingLength + 2 then Inl errESPInvalidDatagram
      else
        let payloadLength = length plaintext - paddingLength - 2;
            nextHeader = plaintext ! (length plaintext - 1)
        in if subslice plaintext payloadLength (payloadLength + paddingLength) \<noteq> espPadding paddingLength
           then Inl errESPInvalidDatagram
           else if \<not> knownNextHeader nextHeader then Inl errESPInvalidDatagram
           else Inr (nextHeader, take payloadLength plaintext))"

definition openWith ::
  "esp_crypto \<Rightarrow> espSecurityAssociation \<Rightarrow> bool \<Rightarrow> bytes \<Rightarrow>
     espSecurityAssociation \<times> (byte \<times> bytes) result" where
  "openWith cr a replayDisabled datagram =
     (let icvLen = icvLength (authentication a) in
      if length datagram < 24 + 16 + icvLen then (a, Inl errESPInvalidDatagram)
      else
        let ciphertextLength = length datagram - 24 - icvLen in
        if ciphertextLength mod 16 \<noteq> 0 then (a, Inl errESPInvalidDatagram)
        else
          let expectedICV = hmac_sum cr (authentication a) (authenticationKey a)
                              (take (length datagram - icvLen) datagram)
          in if take icvLen expectedICV \<noteq> drop (length datagram - icvLen) datagram
             then (a, Inl errESPAuthenticationFailed)
             else
               let (replayAccepted, window) = accept (replay a) (get_u32 (drop 4 datagram));
                   a' = a\<lparr>replay := window\<rparr>
               in if \<not> replayAccepted \<and> \<not> replayDisabled then (a', Inl errESPReplay)
                  else (a', parsePlaintext (cbc_decrypt 16 (block_decrypt cr (encryptionKey a))
                              (subslice datagram 8 24) (subslice datagram 24 (24 + ciphertextLength)))))"

definition openBuffer :: "esp_crypto \<Rightarrow> espKeySet \<Rightarrow> bytes \<Rightarrow> espKeySet \<times> (byte \<times> bytes) result" where
  "openBuffer cr s datagram =
     (if destroyed s \<or> \<not> valid (currentInbound s) then (s, Inl errESPKeysDestroyed)
      else if length datagram < 8 then (s, Inl errESPInvalidDatagram)
      else case selectInbound s (get_u32 datagram) (get_u32 (drop 4 datagram)) of
        None \<Rightarrow> (s, Inl errESPInvalidDatagram)
      | Some True \<Rightarrow>
          (let (a, r) = openWith cr (currentInbound s) (disableReplayProtection s) datagram
           in (s\<lparr>currentInbound := a\<rparr>, r))
      | Some False \<Rightarrow>
          (let (a, r) = openWith cr (previousInbound s) (disableReplayProtection s) datagram
           in (s\<lparr>previousInbound := a\<rparr>, r)))"

section \<open>What the algorithms promise\<close>

definition crypto_ok :: "esp_crypto \<Rightarrow> bool" where
  "crypto_ok cr \<longleftrightarrow>
     (\<forall>k b. length b = 16 \<longrightarrow> length (block_encrypt cr k b) = 16 \<and>
        block_decrypt cr k (block_encrypt cr k b) = b) \<and>
     (\<forall>a k m. authenticationKeyLength a \<noteq> 0 \<longrightarrow> length (hmac_sum cr a k m) = authenticationKeyLength a)"

section \<open>Sealing and opening\<close>

lemma length_espPadding [simp]: "length (espPadding n) = n"
  by (simp add: espPadding_def)

lemma paddingLengthFor_bound: "paddingLengthFor n < 16" "16 dvd n + paddingLengthFor n + 2"
proof -
  show "paddingLengthFor n < 16" by (simp add: paddingLengthFor_def)
  have "n + paddingLengthFor n + 2 = (n + 1) - (n + 1) mod 16 + 16"
    by (simp add: paddingLengthFor_def)
  then show "16 dvd n + paddingLengthFor n + 2" by (simp add: minus_mod_eq_mult_div)
qed

lemma parsePlaintext_sealed:
  assumes "payload \<noteq> []" "n < 256" "knownNextHeader h"
  shows "parsePlaintext (payload @ espPadding n @ [byte_of n, h]) = Inr (h, payload)"
proof -
  let ?t = "payload @ espPadding n @ [byte_of n, h]"
  have "?t ! (length ?t - 2) = byte_of n" "?t ! (length ?t - 1) = h"
    by (simp_all add: nth_append)
  moreover have "unat (byte_of n) = n" using assms(2) by (rule unat_byte_of)
  moreover have "subslice ?t (length payload) (length payload + n) = espPadding n"
    by (rule subslice_append) simp_all
  ultimately show ?thesis using assms(1,3) by (simp add: parsePlaintext_def Let_def)
qed


text \<open>The association that opens what another one sealed: same algorithms, index and keys.\<close>

definition matches :: "espSecurityAssociation \<Rightarrow> espSecurityAssociation \<Rightarrow> bool" where
  "matches out inb \<longleftrightarrow> valid out \<and> valid inb \<and> authentication inb = authentication out \<and>
     spi inb = spi out \<and> encryptionKey inb = encryptionKey out \<and>
     authenticationKey inb = authenticationKey out \<and>
     authenticationKeyLength (authentication out) \<noteq> 0 \<and> length (iv out) = 16"

definition paired :: "espKeySet \<Rightarrow> espKeySet \<Rightarrow> bool" where
  "paired s r \<longleftrightarrow> \<not> destroyed s \<and> \<not> destroyed r \<and> matches (outbound s) (currentInbound r) \<and>
     nextSequence (replay (currentInbound r)) \<le> sequence (outbound s)"

text \<open>The datagram that \<open>sealBuffer\<close> builds.\<close>

definition sealed_header :: "espSecurityAssociation \<Rightarrow> bytes" where
  "sealed_header out = put_u32 (spi out) @ put_u32 (ucast (sequence out)) @ iv out"

definition sealed_text :: "esp_crypto \<Rightarrow> espSecurityAssociation \<Rightarrow> bytes \<Rightarrow> byte \<Rightarrow> bytes" where
  "sealed_text cr out payload h = cbc_encrypt 16 (block_encrypt cr (encryptionKey out)) (iv out)
     (payload @ espPadding (paddingLengthFor (length payload)) @
      [byte_of (paddingLengthFor (length payload)), h])"

definition sealed_icv :: "esp_crypto \<Rightarrow> espSecurityAssociation \<Rightarrow> bytes \<Rightarrow> bytes" where
  "sealed_icv cr out m = take (icvLength (authentication out))
     (hmac_sum cr (authentication out) (authenticationKey out) m)"

definition sealed_body :: "esp_crypto \<Rightarrow> espSecurityAssociation \<Rightarrow> bytes \<Rightarrow> byte \<Rightarrow> bytes" where
  "sealed_body cr out payload h = sealed_header out @ sealed_text cr out payload h"

definition sealed_next_iv :: "esp_crypto \<Rightarrow> espSecurityAssociation \<Rightarrow> bytes \<Rightarrow> byte \<Rightarrow> bytes" where
  "sealed_next_iv cr out payload h =
     (let full = hmac_sum cr (authentication out) (authenticationKey out) (sealed_body cr out payload h);
          c = sealed_text cr out payload h
      in block_encrypt cr (encryptionKey out)
           (xor_bytes (drop (length full - 16) full) (drop (length c - 16) c)))"

definition sealed_association :: "esp_crypto \<Rightarrow> espSecurityAssociation \<Rightarrow> bytes \<Rightarrow> byte \<Rightarrow> espSecurityAssociation"
  where "sealed_association cr out payload h =
    out\<lparr>sequence := sequence out + 1, iv := sealed_next_iv cr out payload h\<rparr>"

lemma sealBuffer_eq:
  assumes "\<not> destroyed s" "valid (outbound s)" "selectNextHeader payload h0 = Inr h" "knownNextHeader h"
  shows "sealBuffer cr s payload h0 =
    (if sequence (outbound s) > 0xffffffff then (s, Inl errESPSequenceExhausted)
     else (s\<lparr>outbound := sealed_association cr (outbound s) payload h\<rparr>,
           Inr (sealed_body cr (outbound s) payload h @
                sealed_icv cr (outbound s) (sealed_body cr (outbound s) payload h))))"
  using assms by (simp add: sealBuffer_def Let_def sealed_association_def sealed_next_iv_def
      sealed_body_def sealed_header_def sealed_text_def sealed_icv_def)

lemma sealBuffer_success:
  assumes "sealBuffer cr s payload h0 = (s', Inr d)"
  obtains h where "selectNextHeader payload h0 = Inr h" "knownNextHeader h"
    "\<not> destroyed s" "valid (outbound s)" "sequence (outbound s) \<le> 0xffffffff"
    "d = sealed_body cr (outbound s) payload h @
           sealed_icv cr (outbound s) (sealed_body cr (outbound s) payload h)"
    "s' = s\<lparr>outbound := sealed_association cr (outbound s) payload h\<rparr>"
proof -
  have v: "\<not> destroyed s" "valid (outbound s)"
    using assms by (auto simp: sealBuffer_def split: if_splits)
  obtain h where h: "selectNextHeader payload h0 = Inr h"
    using assms v by (cases "selectNextHeader payload h0") (auto simp: sealBuffer_def)
  moreover have k: "knownNextHeader h"
    using assms v h by (auto simp: sealBuffer_def split: if_splits)
  ultimately show ?thesis
    using that v assms sealBuffer_eq [OF v h k, of cr] by (auto split: if_splits)
qed

lemma sealBuffer_failure: "sealBuffer cr s payload h0 = (s', Inl e) \<Longrightarrow> s' = s"
  by (auto simp: sealBuffer_def Let_def split: if_splits sum.splits)

lemma sealed_text_facts:
  assumes "crypto_ok cr" "length (iv out) = 16"
  shows "length (sealed_text cr out payload h) = length payload + paddingLengthFor (length payload) + 2"
    and "cbc_decrypt 16 (block_decrypt cr (encryptionKey out)) (iv out) (sealed_text cr out payload h) =
      payload @ espPadding (paddingLengthFor (length payload)) @
      [byte_of (paddingLengthFor (length payload)), h]"
proof -
  let ?plain = "payload @ espPadding (paddingLengthFor (length payload)) @
      [byte_of (paddingLengthFor (length payload)), h]"
  have "16 dvd length ?plain"
    using paddingLengthFor_bound(2) [of "length payload"] by (simp add: add.assoc)
  with assms have "length (sealed_text cr out payload h) = length ?plain \<and>
      cbc_decrypt 16 (block_decrypt cr (encryptionKey out)) (iv out) (sealed_text cr out payload h) = ?plain"
    unfolding sealed_text_def crypto_ok_def by (intro cbc_inverse) auto
  then show "length (sealed_text cr out payload h) = length payload + paddingLengthFor (length payload) + 2"
    and "cbc_decrypt 16 (block_decrypt cr (encryptionKey out)) (iv out) (sealed_text cr out payload h) = ?plain"
    by simp_all
qed

lemma sealed_text_length:
  assumes "crypto_ok cr" "length (iv out) = 16"
  shows "16 \<le> length (sealed_text cr out payload h)" "length (sealed_text cr out payload h) mod 16 = 0"
proof -
  have "16 dvd length (sealed_text cr out payload h)"
    using sealed_text_facts(1) [OF assms] paddingLengthFor_bound(2) by simp
  moreover have "0 < length (sealed_text cr out payload h)" by (simp add: sealed_text_facts(1) [OF assms])
  ultimately show "16 \<le> length (sealed_text cr out payload h)"
      "length (sealed_text cr out payload h) mod 16 = 0"
    by (simp_all add: dvd_imp_le)
qed

lemma digest_length:
  assumes "crypto_ok cr" "authenticationKeyLength a \<noteq> 0"
  shows "16 \<le> length (hmac_sum cr a k m)" "icvLength a \<le> length (hmac_sum cr a k m)"
  using assms by (cases a; simp add: crypto_ok_def)+

lemma matches_sealed:
  assumes "crypto_ok cr" "matches out inb"
  shows "matches (sealed_association cr out payload h) inb"
proof -
  let ?full = "hmac_sum cr (authentication out) (authenticationKey out) (sealed_body cr out payload h)"
  have l: "16 \<le> length ?full" "16 \<le> length (sealed_text cr out payload h)"
    using assms digest_length(1) [of cr "authentication out"] sealed_text_length(1) [of cr out]
    by (auto simp: matches_def)
  have e: "length (block_encrypt cr k b) = 16" if "length b = 16" for k b
    using assms(1) that by (simp add: crypto_ok_def)
  have "length (sealed_next_iv cr out payload h) = 16"
    unfolding sealed_next_iv_def Let_def by (rule e) (use l in simp)
  with assms(2) show ?thesis by (simp add: matches_def sealed_association_def)
qed

lemma openWith_sealed:
  assumes "crypto_ok cr" "matches out inb" "payload \<noteq> []" "knownNextHeader h"
    and "accept (replay inb) (ucast (sequence out)) = (True, w)"
  shows "openWith cr inb dis (sealed_body cr out payload h @ sealed_icv cr out (sealed_body cr out payload h))
    = (inb\<lparr>replay := w\<rparr>, Inr (h, payload))"
proof -
  define c where "c = sealed_text cr out payload h"
  define m where "m = sealed_header out @ c"
  define v where "v = sealed_icv cr out m"
  have iv: "length (iv out) = 16" and al: "authenticationKeyLength (authentication out) \<noteq> 0"
    using assms(2) by (auto simp: matches_def)
  have hl: "length (sealed_header out) = 24" by (simp add: sealed_header_def iv)
  have vl: "length v = icvLength (authentication out)"
    using digest_length(2) [OF assms(1) al] by (simp add: v_def sealed_icv_def)
  have ml: "length m = 24 + length c" by (simp add: m_def hl)
  note cl = sealed_text_length [OF assms(1) iv, of payload h, folded c_def]
  have seq: "get_u32 (drop 4 (m @ v)) = ucast (sequence out)"
    by (simp add: m_def sealed_header_def get_put_u32)
  have parts: "subslice (m @ v) 8 24 = iv out" "subslice (m @ v) 24 (24 + length c) = c"
    using hl iv by (simp_all add: m_def sealed_header_def subslice_def)
  have plain: "parsePlaintext (cbc_decrypt 16 (block_decrypt cr (encryptionKey inb)) (iv out) c) = Inr (h, payload)"
    using parsePlaintext_sealed [OF assms(3) _ assms(4), of "paddingLengthFor (length payload)"]
      sealed_text_facts(2) [OF assms(1) iv, of payload h] paddingLengthFor_bound(1) [of "length payload"]
      assms(2) by (simp add: c_def matches_def)
  have inb: "authentication inb = authentication out" "authenticationKey inb = authenticationKey out"
    using assms(2) by (auto simp: matches_def)
  have "openWith cr inb dis (m @ v) = (inb\<lparr>replay := w\<rparr>, Inr (h, payload))"
    using cl ml vl seq parts plain assms(5)
    by (simp add: openWith_def Let_def inb v_def sealed_icv_def)
  then show ?thesis by (simp add: v_def m_def c_def sealed_body_def)
qed


text \<open>A sequence number at or above the next expected one moves the window just past it.\<close>

lemma accept_next:
  assumes "nextSequence w \<le> n" "n \<le> 0xffffffff"
  shows "\<exists>w'. accept w (ucast n) = (True, w') \<and> nextSequence w' = n + 1"
proof -
  have "unat n < 2 ^ 32" using assms(2) by (simp add: word_le_nat_alt)
  then have "ucast (ucast n :: u32) = n"
    by (intro word_unat_eq_iff [THEN iffD2]) (simp add: unat_ucast_u32 unsigned_ucast_eq unsigned_take_bit_eq take_bit_nat_eq_self)
  with assms(1) show ?thesis by (auto simp: accept_def Let_def)
qed

lemma seal_open_step:
  assumes "crypto_ok cr" "paired s r" "payload \<noteq> []" "sealBuffer cr s payload h0 = (s', Inr d)"
    "selectNextHeader payload h0 = Inr h"
  shows "\<exists>r'. openBuffer cr r d = (r', Inr (h, payload)) \<and> paired s' r'"
proof -
  obtain h1 where h1: "selectNextHeader payload h0 = Inr h1" "knownNextHeader h1"
    and seq: "sequence (outbound s) \<le> 0xffffffff"
    and d: "d = sealed_body cr (outbound s) payload h1 @
      sealed_icv cr (outbound s) (sealed_body cr (outbound s) payload h1)"
    and s': "s' = s\<lparr>outbound := sealed_association cr (outbound s) payload h1\<rparr>"
    by (rule sealBuffer_success [OF assms(4)])
  have [simp]: "h1 = h" using h1(1) assms(5) by simp
  have m: "matches (outbound s) (currentInbound r)" using assms(2) by (simp add: paired_def)
  obtain w where w: "accept (replay (currentInbound r)) (ucast (sequence (outbound s))) = (True, w)"
      "nextSequence w = sequence (outbound s) + 1"
    using assms(2) accept_next [OF _ seq] by (auto simp: paired_def)
  have "get_u32 d = spi (outbound s)"
    by (simp add: d sealed_body_def sealed_header_def get_put_u32)
  moreover have "8 \<le> length d" by (simp add: d sealed_body_def sealed_header_def)
  ultimately have o: "openBuffer cr r d =
      (r\<lparr>currentInbound := (currentInbound r)\<lparr>replay := w\<rparr>\<rparr>, Inr (h, payload))"
    using assms(2) m openWith_sealed [OF assms(1) m assms(3) h1(2) w(1)]
    by (simp add: openBuffer_def selectInbound_def paired_def matches_def d)
  have "matches (sealed_association cr (outbound s) payload h) ((currentInbound r)\<lparr>replay := w\<rparr>)"
    using matches_sealed [OF assms(1) m, of payload h] by (simp add: matches_def)
  with o assms(2) show ?thesis by (simp add: s' paired_def w(2) sealed_association_def)
qed

lemma seal_lost_step:
  assumes "crypto_ok cr" "paired s r" "sealBuffer cr s payload h0 = (s', Inr d)"
  shows "paired s' r"
proof -
  obtain h where seq: "sequence (outbound s) \<le> 0xffffffff"
    and s': "s' = s\<lparr>outbound := sealed_association cr (outbound s) payload h\<rparr>"
    by (rule sealBuffer_success [OF assms(3)])
  have "sequence (outbound s) \<le> sequence (outbound s) + 1"
    using seq by (simp add: word_le_nat_alt unat_word_ariths)
  with assms(1,2) show ?thesis
    by (auto simp: paired_def s' sealed_association_def dest: order_trans
        intro: matches_sealed [unfolded sealed_association_def])
qed


section \<open>Runs of the sender and the receiver\<close>

text \<open>
  A lossy channel that keeps the order: each message is sealed by the sender, and opened by the
  receiver if it arrives.
\<close>

fun transmit ::
  "esp_crypto \<Rightarrow> espKeySet \<Rightarrow> espKeySet \<Rightarrow> (bytes \<times> byte \<times> bool) list \<Rightarrow> (byte \<times> bytes) result list" where
  "transmit cr s r [] = []"
| "transmit cr s r ((payload, h, arrives) # ms) =
     (case sealBuffer cr s payload h of
        (s', Inl e) \<Rightarrow> Inl e # transmit cr s' r ms
      | (s', Inr d) \<Rightarrow>
          if arrives then (case openBuffer cr r d of (r', x) \<Rightarrow> x # transmit cr s' r' ms)
          else transmit cr s' r ms)"

definition sendable :: "bytes \<Rightarrow> byte \<Rightarrow> bool" where
  "sendable payload h \<longleftrightarrow> payload \<noteq> [] \<and>
     (case selectNextHeader payload h of Inl _ \<Rightarrow> False | Inr h' \<Rightarrow> knownNextHeader h')"

lemma transmit_delivers:
  assumes "crypto_ok cr" "paired s r"
    and "list_all (\<lambda>(p, h, _). sendable p h) ms"
    and "unat (sequence (outbound s)) + length ms \<le> 2 ^ 32"
  shows "transmit cr s r ms =
    map (\<lambda>(p, h, _). map_sum id (\<lambda>h'. (h', p)) (selectNextHeader p h)) (filter (\<lambda>(_, _, a). a) ms)"
  using assms(2-)
proof (induction ms arbitrary: s r)
  case (Cons m ms)
  obtain p h a where m: "m = (p, h, a)" by (cases m) auto
  obtain h' where h: "p \<noteq> []" "selectNextHeader p h = Inr h'" "knownNextHeader h'"
    using Cons.prems(2) m by (auto simp: sendable_def split: sum.splits)
  have "unat (sequence (outbound s)) < 2 ^ 32" using Cons.prems(3) by simp
  then have n: "\<not> sequence (outbound s) > 0xffffffff" by (simp add: word_less_nat_alt)
  have v: "\<not> destroyed s" "valid (outbound s)" using Cons.prems(1) by (auto simp: paired_def matches_def)
  obtain s' d where seal: "sealBuffer cr s p h = (s', Inr d)" and
      s': "s' = s\<lparr>outbound := sealed_association cr (outbound s) p h'\<rparr>"
    using sealBuffer_eq [OF v h(2,3), of cr] n by simp
  have "unat (sequence (outbound s')) = unat (sequence (outbound s)) + 1"
    using \<open>unat (sequence (outbound s)) < 2 ^ 32\<close>
    by (simp add: s' sealed_association_def unat_word_ariths)
  then have bound: "unat (sequence (outbound s')) + length ms \<le> 2 ^ 32" using Cons.prems(3) by simp
  obtain r' where r': "openBuffer cr r d = (r', Inr (h', p))" "paired s' r'"
    using seal_open_step [OF assms(1) Cons.prems(1) h(1) seal h(2)] by blast
  have "paired s' r" using seal_lost_step [OF assms(1) Cons.prems(1) seal] .
  then show ?case
    using Cons.IH [OF r'(2) _ bound] Cons.IH [OF _ _ bound] Cons.prems(2) seal r' h(2) m by simp
qed simp

text \<open>The datagrams that a sender produces for a list of messages.\<close>

fun sealed_run :: "esp_crypto \<Rightarrow> espKeySet \<Rightarrow> (bytes \<times> byte) list \<Rightarrow> bytes list" where
  "sealed_run cr s [] = []"
| "sealed_run cr s ((payload, h) # ms) =
     (case sealBuffer cr s payload h of
        (s', Inl e) \<Rightarrow> sealed_run cr s' ms
      | (s', Inr d) \<Rightarrow> d # sealed_run cr s' ms)"

definition datagram_sequence :: "bytes \<Rightarrow> u32" where
  "datagram_sequence d = get_u32 (drop 4 d)"

lemma sealBuffer_sequence:
  assumes "sealBuffer cr s payload h = (s', Inr d)"
  shows "unat (datagram_sequence d) = unat (sequence (outbound s))"
    and "unat (sequence (outbound s')) = unat (sequence (outbound s)) + 1"
proof -
  obtain h' where seq: "sequence (outbound s) \<le> 0xffffffff"
    and d: "d = sealed_body cr (outbound s) payload h' @
      sealed_icv cr (outbound s) (sealed_body cr (outbound s) payload h')"
    and s': "s' = s\<lparr>outbound := sealed_association cr (outbound s) payload h'\<rparr>"
    by (rule sealBuffer_success [OF assms])
  have n: "unat (sequence (outbound s)) < 2 ^ 32" using seq by (simp add: word_le_nat_alt)
  have "datagram_sequence d = ucast (sequence (outbound s))"
    by (simp add: datagram_sequence_def d sealed_body_def sealed_header_def get_put_u32)
  with n show "unat (datagram_sequence d) = unat (sequence (outbound s))"
    by (simp add: unsigned_ucast_eq take_bit_nat_eq_self)
  show "unat (sequence (outbound s')) = unat (sequence (outbound s)) + 1"
    using n by (simp add: s' sealed_association_def unat_word_ariths)
qed

lemma sealed_run_consecutive:
  "map (\<lambda>d. unat (datagram_sequence d)) (sealed_run cr s ms) =
     [unat (sequence (outbound s)) ..< unat (sequence (outbound s)) + length (sealed_run cr s ms)]"
proof (induction ms arbitrary: s)
  case (Cons m ms)
  obtain p h where m: "m = (p, h)" by (cases m) auto
  obtain s' x where x: "sealBuffer cr s p h = (s', x)" by force
  show ?case
  proof (cases x)
    case (Inl e)
    with x have "s' = s" using sealBuffer_failure by simp
    with Inl x m Cons.IH [of s] show ?thesis by simp
  next
    case (Inr d)
    with x have "sealBuffer cr s p h = (s', Inr d)" by simp
    note q = sealBuffer_sequence [OF this]
    show ?thesis
      using Cons.IH [of s'] Inr x m q by (simp del: upt_Suc add: upt_conv_Cons)
  qed
qed simp


section \<open>The receiver\<close>

text \<open>A datagram is authentic for an association when its last bytes are the digest of the rest.\<close>

definition authentic :: "esp_crypto \<Rightarrow> espSecurityAssociation \<Rightarrow> bytes \<Rightarrow> bool" where
  "authentic cr a d \<longleftrightarrow>
     valid a \<and> get_u32 d = spi a \<and> 24 + 16 + icvLength (authentication a) \<le> length d \<and>
     drop (length d - icvLength (authentication a)) d =
       sealed_icv cr a (take (length d - icvLength (authentication a)) d)"

lemma openWith_window:
  assumes "openWith cr a dis d = (a', x)"
  shows "a' \<in> {a, a\<lparr>replay := snd (accept (replay a) (datagram_sequence d))\<rparr>}"
    and "\<not> isl x \<Longrightarrow> a' = a\<lparr>replay := snd (accept (replay a) (datagram_sequence d))\<rparr> \<and>
      (dis \<or> fst (accept (replay a) (datagram_sequence d)))"
    and "a' \<noteq> a \<or> \<not> isl x \<Longrightarrow> valid a \<Longrightarrow> get_u32 d = spi a \<Longrightarrow> authentic cr a d"
  using assms
  by (auto simp: openWith_def Let_def authentic_def sealed_icv_def datagram_sequence_def
      split: if_splits prod.splits)

text \<open>The key sets a client can hold: created, rekeyed, used in both directions, destroyed.\<close>

inductive key_state :: "esp_crypto \<Rightarrow> espKeySet \<Rightarrow> bool" for cr where
  created: "newESPKeySet config random = Inr s \<Longrightarrow> key_state cr s"
| rekeyed: "key_state cr s \<Longrightarrow> key_state cr (fst (install s config random))"
| sealed: "key_state cr s \<Longrightarrow> key_state cr (fst (sealBuffer cr s payload h))"
| opened: "key_state cr s \<Longrightarrow> key_state cr (fst (openBuffer cr s d))"
| erased: "key_state cr s \<Longrightarrow> key_state cr (destroyKeySet s)"

definition windows_ok :: "espKeySet \<Rightarrow> bool" where
  "windows_ok s \<longleftrightarrow> (\<exists>S. tracks (replay (currentInbound s)) S) \<and>
     (\<exists>S. tracks (replay (previousInbound s)) S)"

lemma zeroAssociation_tracks [simp]: "\<exists>S. tracks (replay zeroAssociation) S"
  using esp_window.seen_start by (auto simp: zeroAssociation_def)

lemma newESPSecurityAssociation_replay:
  "newESPSecurityAssociation enc auth m out random = Inr a \<Longrightarrow> replay a = emptyWindow"
  by (auto simp: newESPSecurityAssociation_def zeroAssociation_def Let_def split: if_splits sum.splits)

lemma accept_tracks: "tracks w S \<Longrightarrow> \<exists>S. tracks (snd (accept w s)) S"
  using esp_window.seen_accept esp_window.seen_reject by blast

lemma openBuffer_windows:
  assumes "windows_ok s"
  shows "windows_ok (fst (openBuffer cr s d))"
proof -
  have w: "\<exists>S. tracks (replay a') S" if "openWith cr a dis d = (a', x)" "tracks (replay a) S" for a dis a' x S
    using openWith_window(1) [OF that(1)] that(2) accept_tracks [OF that(2)] by auto
  show ?thesis
    using assms w by (auto simp: openBuffer_def windows_ok_def split: option.splits bool.splits prod.splits)
qed

lemma key_state_windows: "key_state cr s \<Longrightarrow> windows_ok s"
proof (induction rule: key_state.induct)
  case (created config random s)
  then show ?case
    using esp_window.seen_start
    by (auto simp: newESPKeySet_def windows_ok_def newESPSecurityAssociation_replay split: sum.splits)
next
  case (rekeyed s config random)
  then show ?case
    using esp_window.seen_start
    by (auto simp: install_def windows_ok_def newESPSecurityAssociation_replay split: sum.splits)
next
  case (sealed s payload h)
  then show ?case
    by (auto simp: sealBuffer_def windows_ok_def Let_def split: sum.splits)
next
  case (opened s d)
  then show ?case by (simp add: openBuffer_windows)
next
  case (erased s)
  then show ?case
    by (auto simp: destroyKeySet_def destroyAssociation_def windows_ok_def)
qed

text \<open>The security parameter indexes and sequence numbers of the datagrams that a receiver delivers.\<close>

fun delivered :: "esp_crypto \<Rightarrow> espKeySet \<Rightarrow> bytes list \<Rightarrow> (u32 \<times> u32) list" where
  "delivered cr s [] = []"
| "delivered cr s (d # ds) =
     (case openBuffer cr s d of (s', x) \<Rightarrow>
        (if isl x then [] else [(get_u32 d, datagram_sequence d)]) @ delivered cr s' ds)"


text \<open>What the two windows have let through, as pairs of index and sequence number.\<close>

definition seen_pairs :: "espKeySet \<Rightarrow> u32 set \<Rightarrow> u32 set \<Rightarrow> (u32 \<times> u32) set" where
  "seen_pairs s S T = {spi (currentInbound s)} \<times> S \<union>
     (if spi (previousInbound s) = spi (currentInbound s) then {} else {spi (previousInbound s)} \<times> T)"

definition seen_by :: "espKeySet \<Rightarrow> (u32 \<times> u32) set \<Rightarrow> bool" where
  "seen_by s P \<longleftrightarrow> (\<exists>S T. tracks (replay (currentInbound s)) S \<and> tracks (replay (previousInbound s)) T \<and>
     P = seen_pairs s S T)"

lemma openWith_seen:
  assumes "openWith cr a False d = (a', x)" "tracks (replay a) S"
  shows "isl x \<Longrightarrow> \<exists>S'. S \<subseteq> S' \<and> tracks (replay a') S'"
    and "\<not> isl x \<Longrightarrow> datagram_sequence d \<notin> S \<and> tracks (replay a') (insert (datagram_sequence d) S)"
    and "spi a' = spi a"
proof -
  let ?w = "accept (replay a) (datagram_sequence d)"
  have step: "\<exists>S'. S \<subseteq> S' \<and> tracks (snd ?w) S'"
    using esp_window.seen_accept [OF assms(2)] esp_window.seen_reject [OF assms(2)] by (cases "fst ?w") blast+
  show "\<exists>S'. S \<subseteq> S' \<and> tracks (replay a') S'" if "isl x"
    using openWith_window(1) [OF assms(1)] assms(2) step by auto
  show "datagram_sequence d \<notin> S \<and> tracks (replay a') (insert (datagram_sequence d) S)" if "\<not> isl x"
  proof -
    from openWith_window(2) [OF assms(1) that]
    have "fst ?w" "replay a' = snd ?w" by simp_all
    then show ?thesis
      using esp_window.seen_accept [OF assms(2)] esp_window.acc_iff [OF assms(2)] esp_window.fresh_new by simp
  qed
  show "spi a' = spi a" using openWith_window(1) [OF assms(1)] by auto
qed

lemma openBuffer_cases:
  assumes "openBuffer cr s d = (s', x)"
  obtains (refused) "s' = s" "isl x"
    | (current) a where "openWith cr (currentInbound s) (disableReplayProtection s) d = (a, x)"
        "s' = s\<lparr>currentInbound := a\<rparr>" "valid (currentInbound s)" "get_u32 d = spi (currentInbound s)"
    | (previous) a where "openWith cr (previousInbound s) (disableReplayProtection s) d = (a, x)"
        "s' = s\<lparr>previousInbound := a\<rparr>" "valid (previousInbound s)" "get_u32 d = spi (previousInbound s)"
        "get_u32 d \<noteq> spi (currentInbound s)"
proof (cases "destroyed s \<or> \<not> valid (currentInbound s) \<or> length d < 8")
  case True
  with assms have "s' = s" "isl x" by (auto simp: openBuffer_def split: if_splits)
  then show ?thesis by (rule refused)
next
  case False
  show ?thesis
  proof (cases "selectInbound s (get_u32 d) (get_u32 (drop 4 d))")
    case None
    with False assms have "s' = s" "isl x" by (auto simp: openBuffer_def)
    then show ?thesis by (rule refused)
  next
    case (Some b)
    obtain a y where a: "openWith cr (if b then currentInbound s else previousInbound s)
        (disableReplayProtection s) d = (a, y)" by force
    show ?thesis
    proof (cases b)
      case True
      with False Some a assms have "x = y" "s' = s\<lparr>currentInbound := a\<rparr>"
        by (simp_all add: openBuffer_def)
      with True False Some a current show ?thesis
        by (simp add: selectInbound_def split: if_splits)
    next
      case b: False
      with False Some a assms have "x = y" "s' = s\<lparr>previousInbound := a\<rparr>"
        by (simp_all add: openBuffer_def)
      with b Some a previous show ?thesis
        by (simp add: selectInbound_def split: if_splits)
    qed
  qed
qed

lemma openBuffer_seen:
  assumes "seen_by s P" "\<not> disableReplayProtection s" "openBuffer cr s d = (s', x)"
  shows "\<not> disableReplayProtection s'"
    and "isl x \<Longrightarrow> \<exists>P'. P \<subseteq> P' \<and> seen_by s' P'"
    and "\<not> isl x \<Longrightarrow> (get_u32 d, datagram_sequence d) \<notin> P \<and>
      seen_by s' (insert (get_u32 d, datagram_sequence d) P)"
proof -
  obtain S T where st: "tracks (replay (currentInbound s)) S" "tracks (replay (previousInbound s)) T"
    "P = seen_pairs s S T" using assms(1) by (auto simp: seen_by_def)
  have dis: "disableReplayProtection s = False" using assms(2) by simp
  note opened = openBuffer_cases [OF assms(3), unfolded dis]
  show "\<not> disableReplayProtection s'" by (rule opened) (simp_all add: dis)
  show "\<exists>P'. P \<subseteq> P' \<and> seen_by s' P'" if err: "isl x"
  proof (rule opened)
    fix a assume a: "openWith cr (currentInbound s) False d = (a, x)" "s' = s\<lparr>currentInbound := a\<rparr>"
    obtain S' where "S \<subseteq> S'" "tracks (replay a) S'"
      using openWith_seen(1) [OF a(1) st(1) err] by blast
    then show ?thesis
      using st a openWith_seen(3) [OF a(1) st(1)]
      by (intro exI [of _ "seen_pairs s' S' T"]) (auto simp: seen_by_def seen_pairs_def)
  next
    fix a assume a: "openWith cr (previousInbound s) False d = (a, x)" "s' = s\<lparr>previousInbound := a\<rparr>"
    obtain T' where "T \<subseteq> T'" "tracks (replay a) T'"
      using openWith_seen(1) [OF a(1) st(2) err] by blast
    then show ?thesis
      using st a openWith_seen(3) [OF a(1) st(2)]
      by (intro exI [of _ "seen_pairs s' S T'"]) (auto simp: seen_by_def seen_pairs_def)
  next
    assume "s' = s"
    with assms(1) show ?thesis by blast
  qed
  show "(get_u32 d, datagram_sequence d) \<notin> P \<and> seen_by s' (insert (get_u32 d, datagram_sequence d) P)"
    if ok: "\<not> isl x"
  proof (rule opened)
    fix a assume a: "openWith cr (currentInbound s) False d = (a, x)" "s' = s\<lparr>currentInbound := a\<rparr>"
      "get_u32 d = spi (currentInbound s)"
    note o = openWith_seen(2) [OF a(1) st(1) ok] openWith_seen(3) [OF a(1) st(1)]
    then have "insert (get_u32 d, datagram_sequence d) P = seen_pairs s' (insert (datagram_sequence d) S) T"
      by (auto simp: seen_pairs_def st a)
    with o st a show ?thesis by (auto simp: seen_by_def seen_pairs_def)
  next
    fix a assume a: "openWith cr (previousInbound s) False d = (a, x)" "s' = s\<lparr>previousInbound := a\<rparr>"
      "get_u32 d = spi (previousInbound s)" "get_u32 d \<noteq> spi (currentInbound s)"
    note o = openWith_seen(2) [OF a(1) st(2) ok] openWith_seen(3) [OF a(1) st(2)]
    then have "insert (get_u32 d, datagram_sequence d) P = seen_pairs s' S (insert (datagram_sequence d) T)"
      using a(3,4) by (auto simp: seen_pairs_def st a)
    with o st a show ?thesis by (auto simp: seen_by_def seen_pairs_def)
  qed (use ok in blast)
qed

lemma delivered_fresh:
  "seen_by s P \<Longrightarrow> \<not> disableReplayProtection s \<Longrightarrow>
     set (delivered cr s ds) \<inter> P = {} \<and> distinct (delivered cr s ds)"
proof (induction ds arbitrary: s P)
  case (Cons d ds)
  obtain s' x where o: "openBuffer cr s d = (s', x)" by force
  note step = openBuffer_seen [OF Cons.prems o]
  show ?case
  proof (cases "isl x")
    case True
    from step(2) [OF True] obtain P' where "P \<subseteq> P'" "seen_by s' P'" by blast
    with Cons.IH [OF _ step(1)] o True show ?thesis by fastforce
  next
    case False
    with step(3) Cons.IH [OF _ step(1)] o show ?thesis by fastforce
  qed
qed simp


lemma openBuffer_authentic:
  assumes "openBuffer cr s d = (s', x)" "s' \<noteq> s \<or> \<not> isl x"
  shows "authentic cr (currentInbound s) d \<or> authentic cr (previousInbound s) d"
proof (rule openBuffer_cases [OF assms(1)])
  fix a assume a: "openWith cr (currentInbound s) (disableReplayProtection s) d = (a, x)"
    "s' = s\<lparr>currentInbound := a\<rparr>" "valid (currentInbound s)" "get_u32 d = spi (currentInbound s)"
  have "a \<noteq> currentInbound s \<or> \<not> isl x" using assms(2) a(2) by auto
  with openWith_window(3) [OF a(1) _ a(3,4)] show ?thesis by blast
next
  fix a assume a: "openWith cr (previousInbound s) (disableReplayProtection s) d = (a, x)"
    "s' = s\<lparr>previousInbound := a\<rparr>" "valid (previousInbound s)" "get_u32 d = spi (previousInbound s)"
  have "a \<noteq> previousInbound s \<or> \<not> isl x" using assms(2) a(2) by auto
  with openWith_window(3) [OF a(1) _ a(3,4)] show ?thesis by blast
qed (use assms(2) in blast)

section \<open>A concrete instance\<close>

text \<open>
  A cipher and a digest that meet \<open>crypto_ok\<close>, and a pair of key sets that share keys, for
  evaluating the model.
\<close>

definition demo_crypto :: esp_crypto where
  "demo_crypto =
     (let mask = (\<lambda>k. if k = [] then 0 else hd k); f = (\<lambda>k b. map (\<lambda>x. x XOR mask k) b)
      in \<lparr>block_encrypt = f, block_decrypt = f,
          hmac_sum = (\<lambda>a k m. replicate (authenticationKeyLength a) (byte_of (length m)))\<rparr>)"

lemma demo_crypto_ok: "crypto_ok demo_crypto"
  by (auto simp: crypto_ok_def demo_crypto_def Let_def xor.assoc o_def)

definition demo_config :: espKeySetConfig where
  "demo_config = \<lparr>Encryption = espEncryptionAES128CBC, Authentication = espAuthenticationHMACSHA196,
     Outbound = \<lparr>SPI = 7, EncryptionKey = replicate 16 3, AuthenticationKey = replicate 20 5\<rparr>,
     Inbound = \<lparr>SPI = 7, EncryptionKey = replicate 16 3, AuthenticationKey = replicate 20 5\<rparr>,
     DisableReplayProtection = False\<rparr>"

definition demo_keys :: espKeySet where
  "demo_keys = (case newESPKeySet demo_config (Inr (replicate 16 1)) of Inr s \<Rightarrow> s)"

lemma demo_created: "newESPKeySet demo_config (Inr (replicate 16 1)) = Inr demo_keys"
  by (simp add: demo_keys_def demo_config_def newESPKeySet_def newESPSecurityAssociation_def Let_def)

lemma demo_keys_facts:
  "\<not> destroyed demo_keys" "matches (outbound demo_keys) (currentInbound demo_keys)"
  "sequence (outbound demo_keys) = 0" "\<not> disableReplayProtection demo_keys"
  "nextSequence (replay (currentInbound demo_keys)) = 0"
  by (simp_all add: demo_keys_def demo_config_def newESPKeySet_def newESPSecurityAssociation_def Let_def
      matches_def zeroAssociation_def emptyWindow_def)

definition demo_datagram :: bytes where
  "demo_datagram = (case sealBuffer demo_crypto demo_keys [0x45, 1] 0 of (_, Inr d) \<Rightarrow> d)"

lemma demo_opened: "\<exists>s'. openBuffer demo_crypto demo_keys demo_datagram = (s', Inr (4, [0x45, 1]))"
proof -
  have h: "selectNextHeader [0x45, 1] 0 = Inr 4" "knownNextHeader 4"
    by (simp_all add: selectNextHeader_def knownNextHeader_def espIPv4NextHeader_def drop_bit_eq_div)
  have p: "paired demo_keys demo_keys" by (simp add: paired_def demo_keys_facts)
  have v: "valid (outbound demo_keys)" using demo_keys_facts(2) by (simp add: matches_def)
  obtain s' where "sealBuffer demo_crypto demo_keys [0x45, 1] 0 = (s', Inr demo_datagram)"
    using sealBuffer_eq [OF demo_keys_facts(1) v h, of demo_crypto]
    by (simp add: demo_datagram_def demo_keys_facts)
  from seal_open_step [OF demo_crypto_ok p _ this h(1)] show ?thesis by auto
qed

section \<open>Properties\<close>

text \<open>C2: between two key sets that share their keys, over a channel that may lose datagrams and keeps
  their order, every payload that arrives is delivered unchanged with its next header, in order, and
  nothing else is, until the sequence numbers are used up.\<close>

theorem esp_transfer:
  assumes "crypto_ok cr" "paired s r" "list_all (\<lambda>(p, h, _). sendable p h) ms"
    and "unat (sequence (outbound s)) + length ms \<le> 2 ^ 32"
  shows "transmit cr s r ms =
    map (\<lambda>(p, h, _). map_sum id (\<lambda>h'. (h', p)) (selectNextHeader p h)) (filter (\<lambda>(_, _, a). a) ms)"
  using assms by (rule transmit_delivers)

theorem esp_transfer_witness:
  "transmit demo_crypto demo_keys demo_keys [([0x45, 1], 0, True), ([0x60], 0, False), ([1, 2], 5, True)] =
     [Inr (4, [0x45, 1]), Inr (5, [1, 2])]"
  using esp_transfer [OF demo_crypto_ok, of demo_keys demo_keys
      "[([0x45, 1], 0, True), ([0x60], 0, False), ([1, 2], 5, True)]"]
  by (simp add: demo_keys_facts paired_def sendable_def selectNextHeader_def knownNextHeader_def
      espIPv4NextHeader_def espIPv6NextHeader_def espLZONextHeader_def drop_bit_eq_div)

text \<open>C3: in every key set that a client can hold and that does not disable replay protection, no two
  datagrams that are delivered carry the same security parameter index and sequence number, whatever
  arrives, also while the previous inbound association is still in use after a rekey.\<close>

theorem esp_no_replay:
  assumes "key_state cr s" "\<not> disableReplayProtection s"
  shows "distinct (delivered cr s ds)"
proof -
  from key_state_windows [OF assms(1)] obtain P where "seen_by s P"
    by (auto simp: windows_ok_def seen_by_def)
  with delivered_fresh [OF _ assms(2)] show ?thesis by blast
qed

theorem esp_no_replay_witness:
  "(get_u32 demo_datagram, datagram_sequence demo_datagram)
     \<in> set (delivered demo_crypto demo_keys [demo_datagram, demo_datagram]) \<and>
   distinct (delivered demo_crypto demo_keys [demo_datagram, demo_datagram])"
proof
  show "distinct (delivered demo_crypto demo_keys [demo_datagram, demo_datagram])"
    by (rule esp_no_replay [OF key_state.created [OF demo_created] demo_keys_facts(4)])
  obtain s' where "openBuffer demo_crypto demo_keys demo_datagram = (s', Inr (4, [0x45, 1]))"
    using demo_opened by blast
  then show "(get_u32 demo_datagram, datagram_sequence demo_datagram)
      \<in> set (delivered demo_crypto demo_keys [demo_datagram, demo_datagram])"
    by simp
qed

text \<open>A datagram that is delivered, or that changes the receiver's state in any way, ends with the
  keyed digest of its own bytes under the keys of the current or of the previous inbound association.\<close>

theorem esp_only_authentic:
  assumes "openBuffer cr s d = (s', x)" "s' \<noteq> s \<or> \<not> isl x"
  shows "authentic cr (currentInbound s) d \<or> authentic cr (previousInbound s) d"
  using assms by (rule openBuffer_authentic)

theorem esp_only_authentic_witness:
  "\<not> isl (snd (openBuffer demo_crypto demo_keys demo_datagram)) \<and>
   (authentic demo_crypto (currentInbound demo_keys) demo_datagram \<or>
    authentic demo_crypto (previousInbound demo_keys) demo_datagram)"
proof -
  obtain s' where "openBuffer demo_crypto demo_keys demo_datagram = (s', Inr (4, [0x45, 1]))"
    using demo_opened by blast
  with esp_only_authentic [OF this] show ?thesis by simp
qed

text \<open>The datagrams a sender produces carry consecutive sequence numbers from the association's
  counter on, so none is used twice under the same keys; sealing stops before the counter wraps.\<close>

theorem esp_sequence_consecutive:
  "map (\<lambda>d. unat (datagram_sequence d)) (sealed_run cr s ms) =
     [unat (sequence (outbound s)) ..< unat (sequence (outbound s)) + length (sealed_run cr s ms)]"
  by (rule sealed_run_consecutive)

end
