(* ===== verification/Packet_Queue.thy ===== *)
theory Packet_Queue
  imports Prelude
begin

text \<open>
  The bounded packet queue of \<^verbatim>\<open>data_packet_queue.go\<close>: a ring buffer under a mutex with two
  channels for waiting. Every critical section is one definition. The channel \<open>notEmpty\<close> has one
  slot and may be closed; sending on it or closing it once closed is a panic, kept as a state of
  its own. The channel \<open>notFull\<close> is replaced after it is closed, so
  its state is the number of channels closed so far, and a producer that waits remembers the
  number it saw.

  The locale \<open>fifo\<close> is what the tunnels rely on; \<open>queue_step\<close> interleaves any number of blocking
  producers with consumers.
\<close>

section \<open>Definitions\<close>

text \<open>A channel with one slot: open or closed, with whether the slot is taken.\<close>

datatype signal_channel = Open bool | Shut bool | Panic

fun try_send :: "signal_channel \<Rightarrow> signal_channel" where
  "try_send (Open _) = Open True"
| "try_send (Shut _) = Panic"
| "try_send Panic = Panic"

fun try_receive :: "signal_channel \<Rightarrow> signal_channel" where
  "try_receive (Open _) = Open False"
| "try_receive (Shut _) = Shut False"
| "try_receive Panic = Panic"

fun close_channel :: "signal_channel \<Rightarrow> signal_channel" where
  "close_channel (Open pending) = Shut pending"
| "close_channel (Shut _) = Panic"
| "close_channel Panic = Panic"

record 'a dataPacketQueue =
  items :: "'a list"
  head :: nat
  queueLength :: nat
  notEmpty :: signal_channel
  notFull :: nat
  queueClosed :: bool

text \<open>The zero value of the element type is an argument.\<close>

definition newDataPacketQueue :: "'a \<Rightarrow> nat \<Rightarrow> 'a dataPacketQueue" where
  "newDataPacketQueue zero capacity =
     \<lparr>items = replicate capacity zero, head = 0, queueLength = 0, notEmpty = Open False, notFull = 0,
      queueClosed = False\<rparr>"

definition signalNotEmptyLocked :: "'a dataPacketQueue \<Rightarrow> 'a dataPacketQueue" where
  "signalNotEmptyLocked q = q\<lparr>notEmpty := try_send (notEmpty q)\<rparr>"

definition signalNotFullLocked :: "'a dataPacketQueue \<Rightarrow> 'a dataPacketQueue" where
  "signalNotFullLocked q = q\<lparr>notFull := notFull q + 1\<rparr>"

definition putItem :: "'a dataPacketQueue \<Rightarrow> 'a \<Rightarrow> 'a dataPacketQueue" where
  "putItem q x =
     (let tail = (head q + queueLength q) mod length (items q)
      in q\<lparr>items := (items q)[tail := x], queueLength := queueLength q + 1\<rparr>)"

text \<open>One round of the loop of \<open>PushBatch\<close>: it stops, stores one item, or waits on a channel.\<close>

datatype push_round = PushStopped | PushedOne | PushWaits nat

definition pushRound :: "'a dataPacketQueue \<Rightarrow> bool \<Rightarrow> 'a \<Rightarrow> 'a dataPacketQueue \<times> push_round" where
  "pushRound q cancelled x =
     (if queueClosed q \<or> cancelled then (q, PushStopped)
      else if queueLength q < length (items q) then
        let wasEmpty = (queueLength q = 0);
            q' = putItem q x
        in (if wasEmpty then signalNotEmptyLocked q' else q', PushedOne)
      else (q, PushWaits (notFull q)))"

definition TryPushBatch :: "'a dataPacketQueue \<Rightarrow> bool \<Rightarrow> 'a list \<Rightarrow> 'a dataPacketQueue \<times> nat" where
  "TryPushBatch q cancelled xs =
     (if queueClosed q \<or> cancelled \<or> length xs = 0 then (q, 0)
      else
        let count = min (length xs) (length (items q) - queueLength q);
            wasEmpty = (queueLength q = 0);
            q' = fold (\<lambda>x q. putItem q x) (take count xs) q
        in (if wasEmpty \<and> count > 0 then signalNotEmptyLocked q' else q', count))"

fun takeItems :: "'a \<Rightarrow> 'a dataPacketQueue \<Rightarrow> nat \<Rightarrow> nat \<Rightarrow> 'a list \<times> 'a list" where
  "takeItems zero q index 0 = ([], items q)"
| "takeItems zero q index (Suc n) =
     (let itemIndex = (head q + index) mod length (items q);
          (xs, rest) = takeItems zero (q\<lparr>items := (items q)[itemIndex := zero]\<rparr>) (index + 1) n
      in (items q ! itemIndex # xs, rest))"

definition PopInto :: "'a \<Rightarrow> 'a dataPacketQueue \<Rightarrow> int \<Rightarrow> 'a dataPacketQueue \<times> 'a list" where
  "PopInto zero q maximumItems =
     (let count = (if maximumItems > 0 then min (queueLength q) (nat maximumItems) else queueLength q)
      in if count = 0 then (q, [])
         else
           let wasFull = (queueLength q = length (items q));
               (xs, rest) = takeItems zero q 0 count;
               q1 = q\<lparr>items := rest, head := (head q + count) mod length (items q),
                      queueLength := queueLength q - count\<rparr>;
               q2 = (if queueLength q1 = 0 then q1\<lparr>notEmpty := try_receive (notEmpty q1)\<rparr>
                     else if \<not> queueClosed q1 then signalNotEmptyLocked q1
                     else q1);
               q3 = (if wasFull then signalNotFullLocked q2 else q2)
           in (q3, xs))"

definition Pop :: "'a \<Rightarrow> 'a dataPacketQueue \<Rightarrow> int \<Rightarrow> 'a dataPacketQueue \<times> 'a list" where
  "Pop zero q maximumItems = PopInto zero q maximumItems"

definition Wake :: "'a dataPacketQueue \<Rightarrow> 'a dataPacketQueue" where
  "Wake q = (if queueClosed q then q else if queueLength q > 0 then signalNotEmptyLocked q else q)"

definition Closed :: "'a dataPacketQueue \<Rightarrow> bool" where
  "Closed q = queueClosed q"

definition Close :: "'a dataPacketQueue \<Rightarrow> 'a dataPacketQueue" where
  "Close q = (if queueClosed q then q
              else signalNotFullLocked (q\<lparr>queueClosed := True, notEmpty := close_channel (notEmpty q)\<rparr>))"

text \<open>\<open>Drain\<close> hands every queued item to \<open>release\<close>: the second component is that sequence.\<close>

definition Drain :: "'a \<Rightarrow> 'a dataPacketQueue \<Rightarrow> 'a dataPacketQueue \<times> 'a list" where
  "Drain zero q = Pop zero q 0"

section \<open>The interface\<close>

text \<open>
  A bounded queue with batch operations, given by the sequence it holds. \<open>put\<close> reports how many
  items it took; \<open>get\<close> returns the items it removed.
\<close>

locale fifo =
  fixes good :: "'q \<Rightarrow> bool"
    and contents :: "'q \<Rightarrow> 'a list"
    and put :: "'q \<Rightarrow> 'a list \<Rightarrow> 'q \<times> nat"
    and get :: "'q \<Rightarrow> int \<Rightarrow> 'q \<times> 'a list"
  assumes put_good: "good q \<Longrightarrow> good (fst (put q xs))"
    and put_contents: "good q \<Longrightarrow> contents (fst (put q xs)) = contents q @ take (snd (put q xs)) xs"
    and get_good: "good q \<Longrightarrow> good (fst (get q n))"
    and get_contents: "good q \<Longrightarrow> contents q = snd (get q n) @ contents (fst (get q n))"
begin

text \<open>The items taken in and given out by a sequence of operations, and the queue it leaves.\<close>

fun run :: "'q \<Rightarrow> ('a list + int) list \<Rightarrow> 'a list \<times> 'a list \<times> 'q" where
  "run q [] = ([], [], q)"
| "run q (Inl xs # os) =
     (let (q1, n) = put q xs; (ins, outs, q') = run q1 os in (take n xs @ ins, outs, q'))"
| "run q (Inr n # os) =
     (let (q1, ys) = get q n; (ins, outs, q') = run q1 os in (ins, ys @ outs, q'))"

lemma run_order:
  "good q \<Longrightarrow> run q os = (ins, outs, q') \<Longrightarrow> contents q @ ins = outs @ contents q' \<and> good q'"
proof (induction os arbitrary: q ins outs)
  case (Cons oper os)
  show ?case
  proof (cases oper)
    case (Inl xs)
    obtain q1 n where p: "put q xs = (q1, n)" by force
    obtain ins1 where r: "run q1 os = (ins1, outs, q')" "ins = take n xs @ ins1"
      using Cons.prems(2) by (auto simp: Inl p split: prod.splits)
    have "good q1" "contents q1 = contents q @ take n xs"
      using put_good [OF Cons.prems(1), of xs] put_contents [OF Cons.prems(1), of xs] p by simp_all
    with Cons.IH [OF _ r(1)] r(2) show ?thesis by simp
  next
    case (Inr n)
    obtain q1 ys where p: "get q n = (q1, ys)" by force
    obtain outs1 where r: "run q1 os = (ins, outs1, q')" "outs = ys @ outs1"
      using Cons.prems(2) by (auto simp: Inr p split: prod.splits)
    have "good q1" "contents q = ys @ contents q1"
      using get_good [OF Cons.prems(1), of n] get_contents [OF Cons.prems(1), of n] p by simp_all
    with Cons.IH [OF _ r(1)] r(2) show ?thesis by simp
  qed
qed simp

end

section \<open>The ring buffer holds a sequence\<close>

definition ring :: "'a dataPacketQueue \<Rightarrow> bool" where
  "ring q \<longleftrightarrow> queueLength q \<le> length (items q) \<and> (head q < length (items q) \<or> items q = [] \<and> head q = 0)"

definition queued :: "'a dataPacketQueue \<Rightarrow> 'a list" where
  "queued q = map (\<lambda>i. items q ! ((head q + i) mod length (items q))) [0..<queueLength q]"

lemma length_queued [simp]: "length (queued q) = queueLength q"
  by (simp add: queued_def)

lemma ring_index_neq:
  assumes "i < (n :: nat)" "j < n" "i \<noteq> j"
  shows "(h + i) mod n \<noteq> (h + j) mod n"
  using assms
proof (induction i j rule: linorder_wlog)
  case (le a b)
  then have "\<not> n dvd (h + b) - (h + a)" by (auto dest: dvd_imp_le)
  with le show ?case by (metis mod_eq_dvd_iff_nat add_le_cancel_left)
next
  case (sym a b)
  then show ?case by metis
qed

lemma putItem_ring:
  assumes "ring q" "queueLength q < length (items q)"
  shows "ring (putItem q x)" "queued (putItem q x) = queued q @ [x]"
    "length (items (putItem q x)) = length (items q)" "queueLength (putItem q x) = queueLength q + 1"
proof -
  let ?n = "length (items q)" and ?t = "(head q + queueLength q) mod length (items q)"
  have "0 < ?n" using assms(2) by linarith
  then have t: "?t < ?n" by (rule mod_less_divisor)
  have "items q ! ((head q + i) mod ?n) = (items q)[?t := x] ! ((head q + i) mod ?n)"
    if "i < queueLength q" for i
    using ring_index_neq [of i ?n "queueLength q" "head q"] that assms(2) by simp
  with t show "queued (putItem q x) = queued q @ [x]" by (simp add: queued_def putItem_def)
  show "ring (putItem q x)" using assms by (auto simp: ring_def putItem_def Let_def)
qed (simp_all add: putItem_def Let_def)

lemma putItems_ring:
  assumes "ring q" "queueLength q + length xs \<le> length (items q)"
  shows "ring (fold (\<lambda>x q. putItem q x) xs q) \<and>
    queued (fold (\<lambda>x q. putItem q x) xs q) = queued q @ xs"
  using assms
proof (induction xs arbitrary: q)
  case (Cons x xs)
  then have "queueLength q < length (items q)" by simp
  note p = putItem_ring [OF Cons.prems(1) this, of x]
  with Cons.IH [OF p(1)] Cons.prems(2) show ?case by simp
qed simp

lemma takeItems_ring:
  assumes "i + n \<le> length (items q)"
  shows "length (snd (takeItems zero q i n)) = length (items q) \<and>
    fst (takeItems zero q i n) = map (\<lambda>k. items q ! ((head q + k) mod length (items q))) [i..<i + n] \<and>
    (\<forall>k. i + n \<le> k \<and> k < length (items q) + i \<longrightarrow>
      snd (takeItems zero q i n) ! ((head q + k) mod length (items q)) =
      items q ! ((head q + k) mod length (items q)))"
  using assms
proof (induction zero q i n rule: takeItems.induct)
  case (2 zero q i n)
  let ?n = "length (items q)" and ?j = "(head q + i) mod length (items q)"
  let ?q = "q\<lparr>items := (items q)[?j := zero]\<rparr>"
  obtain xs rest where r: "takeItems zero ?q (i + 1) n = (xs, rest)" by force
  have neq: "?j \<noteq> (head q + k) mod ?n" if "i < k" "k < ?n + i" for k
  proof -
    have "0 < ?n" "k - i < ?n" "0 \<noteq> k - i" using 2(2) that by linarith+
    from ring_index_neq [OF this, of "head q + i"] that show ?thesis by (simp add: add.assoc)
  qed
  have IH: "length rest = ?n \<and> xs = map (\<lambda>k. (items q)[?j := zero] ! ((head q + k) mod ?n)) [i + 1..<i + 1 + n] \<and>
     (\<forall>k. i + 1 + n \<le> k \<and> k < ?n + (i + 1) \<longrightarrow>
        rest ! ((head q + k) mod ?n) = (items q)[?j := zero] ! ((head q + k) mod ?n))"
    using 2(1) [OF refl, of] 2(2) r by simp
  have "xs = map (\<lambda>k. items q ! ((head q + k) mod ?n)) [i + 1..<i + 1 + n]"
    using IH neq 2(2) by auto
  moreover have "[i..<i + Suc n] = i # [i + 1..<i + 1 + n]" by (simp add: upt_conv_Cons del: upt_Suc)
  moreover have "takeItems zero q i (Suc n) = (items q ! ?j # xs, rest)" using r by (simp add: Let_def)
  ultimately show ?case using IH neq by (simp del: upt_Suc takeItems.simps)
qed simp

lemma PopInto_ring:
  assumes "ring q"
  shows "ring (fst (PopInto zero q m))" "queued q = snd (PopInto zero q m) @ queued (fst (PopInto zero q m))"
    "length (items (fst (PopInto zero q m))) = length (items q)"
proof -
  define c where "c = (if m > 0 then min (queueLength q) (nat m) else queueLength q)"
  have c: "c \<le> queueLength q" by (simp add: c_def)
  let ?n = "length (items q)"
  obtain xs rest where r: "takeItems zero q 0 c = (xs, rest)" by force
  have "0 + c \<le> ?n" using c assms by (simp add: ring_def)
  note tk = takeItems_ring [OF this, of zero, unfolded r]
  have pop: "snd (PopInto zero q m) = xs" "items (fst (PopInto zero q m)) = rest"
    "head (fst (PopInto zero q m)) = (if c = 0 then head q else (head q + c) mod ?n)"
    "queueLength (fst (PopInto zero q m)) = queueLength q - c"
    using r by (auto simp: PopInto_def Let_def signalNotEmptyLocked_def signalNotFullLocked_def c_def [symmetric])
  have shift: "((head q + c) mod ?n + i) mod ?n = (head q + (c + i)) mod ?n" for i
    by (simp add: mod_add_left_eq add.assoc)
  have "head (fst (PopInto zero q m)) < ?n \<or> items q = [] \<and> head (fst (PopInto zero q m)) = 0"
    using assms c mod_less_divisor [of ?n "head q + c"] unfolding pop ring_def by (cases "items q = []") simp_all
  with assms c tk show "ring (fst (PopInto zero q m))" unfolding ring_def pop by auto
  have "queued (fst (PopInto zero q m)) =
      map (\<lambda>k. items q ! ((head q + k) mod ?n)) (map (\<lambda>i. c + i) [0..<queueLength q - c])"
    using tk shift assms by (auto simp: queued_def pop ring_def)
  moreover have "[0..<queueLength q] = [0..<c] @ map (\<lambda>i. c + i) [0..<queueLength q - c]"
    using c map_add_upt [of c "queueLength q - c"] upt_add_eq_append [of 0 c "queueLength q - c"]
    by (simp add: add.commute [of c])
  ultimately show "queued q = snd (PopInto zero q m) @ queued (fst (PopInto zero q m))"
    using tk unfolding pop queued_def [of q] by simp
  show "length (items (fst (PopInto zero q m))) = length (items q)" using tk by (simp add: pop)
qed

lemma TryPushBatch_ring:
  assumes "ring q"
  shows "ring (fst (TryPushBatch q cancelled xs))"
    and "queued (fst (TryPushBatch q cancelled xs)) = queued q @ take (snd (TryPushBatch q cancelled xs)) xs"
proof -
  let ?c = "min (length xs) (length (items q) - queueLength q)"
  have "queueLength q + length (take ?c xs) \<le> length (items q)" using assms by (auto simp: ring_def)
  note p = putItems_ring [OF assms this]
  have sig: "ring (signalNotEmptyLocked r) = ring r" "queued (signalNotEmptyLocked r) = queued r" for r :: "'a dataPacketQueue"
    by (simp_all add: ring_def queued_def signalNotEmptyLocked_def)
  show "ring (fst (TryPushBatch q cancelled xs))"
    using p assms by (auto simp: TryPushBatch_def Let_def sig)
  show "queued (fst (TryPushBatch q cancelled xs)) = queued q @ take (snd (TryPushBatch q cancelled xs)) xs"
    using p by (auto simp: TryPushBatch_def Let_def sig)
qed

interpretation packet_queue: fifo ring queued "\<lambda>q. TryPushBatch q False" "PopInto zero" for zero
  by unfold_locales (simp_all add: TryPushBatch_ring PopInto_ring)

section \<open>Blocking producers and a consumer\<close>

text \<open>
  Any number of calls of \<open>PushBatch\<close> run beside a consumer that calls \<open>Wake\<close>, waits for a signal
  and pops. A producer is in its loop, waits on the channel it saw, or has returned with the items
  it did not push. The logs record what went in and out.
\<close>

datatype 'a producer = Pushing "'a list" | Waiting nat "'a list" | Returned "'a list"

record 'a queue_system =
  queue :: "'a dataPacketQueue"
  producers :: "nat \<Rightarrow> 'a producer"
  listening :: bool
  pushedLog :: "'a list"
  poppedLog :: "'a list"

definition startSystem :: "'a \<Rightarrow> nat \<Rightarrow> 'a queue_system" where
  "startSystem zero capacity = \<lparr>queue = newDataPacketQueue zero capacity,
     producers = (\<lambda>_. Returned []), listening = False, pushedLog = [], poppedLog = []\<rparr>"

text \<open>What a round of the loop does to its producer.\<close>

fun afterRound :: "push_round \<Rightarrow> 'a list \<Rightarrow> 'a producer" where
  "afterRound PushStopped xs = Returned xs"
| "afterRound PushedOne xs = Pushing (tl xs)"
| "afterRound (PushWaits g) xs = Waiting g xs"

fun signalled :: "signal_channel \<Rightarrow> bool" where
  "signalled (Open pending) = pending"
| "signalled (Shut _) = True"
| "signalled Panic = False"

inductive queue_step :: "'a \<Rightarrow> 'a queue_system \<Rightarrow> 'a queue_system \<Rightarrow> bool" for zero where
  call: "producers s i = Returned ys \<Longrightarrow>
    queue_step zero s (s\<lparr>producers := (producers s)(i := Pushing xs)\<rparr>)"
| loop: "producers s i = Pushing (x # xs) \<Longrightarrow> pushRound (queue s) cancelled x = (q', r) \<Longrightarrow>
    queue_step zero s (s\<lparr>queue := q', producers := (producers s)(i := afterRound r (x # xs)),
      pushedLog := pushedLog s @ (if r = PushedOne then [x] else [])\<rparr>)"
| exit: "producers s i = Pushing [] \<Longrightarrow>
    queue_step zero s (s\<lparr>producers := (producers s)(i := Returned [])\<rparr>)"
| resume: "producers s i = Waiting g xs \<Longrightarrow> g < notFull (queue s) \<Longrightarrow>
    queue_step zero s (s\<lparr>producers := (producers s)(i := Pushing xs)\<rparr>)"
| cancel: "producers s i = Waiting g xs \<Longrightarrow>
    queue_step zero s (s\<lparr>producers := (producers s)(i := Returned xs)\<rparr>)"
| try_push: "TryPushBatch (queue s) cancelled xs = (q', n) \<Longrightarrow>
    queue_step zero s (s\<lparr>queue := q', pushedLog := pushedLog s @ take n xs\<rparr>)"
| listen: "queue_step zero s (s\<lparr>queue := Wake (queue s), listening := True\<rparr>)"
| receive: "listening s \<Longrightarrow> signalled (notEmpty (queue s)) \<Longrightarrow>
    queue_step zero s (s\<lparr>queue := (queue s)\<lparr>notEmpty := try_receive (notEmpty (queue s))\<rparr>, listening := False\<rparr>)"
| pop: "PopInto zero (queue s) m = (q', ys) \<Longrightarrow>
    queue_step zero s (s\<lparr>queue := q', poppedLog := poppedLog s @ ys\<rparr>)"
| close: "queue_step zero s (s\<lparr>queue := Close (queue s)\<rparr>)"

inductive queue_reachable :: "'a \<Rightarrow> nat \<Rightarrow> 'a queue_system \<Rightarrow> bool" for zero capacity where
  init: "queue_reachable zero capacity (startSystem zero capacity)"
| step: "queue_reachable zero capacity s \<Longrightarrow> queue_step zero s s' \<Longrightarrow> queue_reachable zero capacity s'"

text \<open>A waiting producer holds a channel that is still open only while the queue is full.\<close>

definition waiting_ok :: "'a dataPacketQueue \<Rightarrow> 'a producer \<Rightarrow> bool" where
  "waiting_ok q p \<longleftrightarrow> (case p of
     Waiting g xs \<Rightarrow> g \<le> notFull q \<and> (g = notFull q \<longrightarrow> queueLength q = length (items q) \<and> \<not> queueClosed q)
   | _ \<Rightarrow> True)"

text \<open>The channel \<open>notEmpty\<close> is closed exactly when the queue is, and never misused.\<close>

definition channel_ok :: "'a dataPacketQueue \<Rightarrow> bool" where
  "channel_ok q \<longleftrightarrow> (\<exists>b. notEmpty q = (if queueClosed q then Shut b else Open b))"

text \<open>A listening consumer has a signal whenever there is something to pop.\<close>

definition consumer_ok :: "'a dataPacketQueue \<Rightarrow> bool" where
  "consumer_ok q \<longleftrightarrow> (queueLength q > 0 \<or> queueClosed q \<longrightarrow> signalled (notEmpty q))"

definition system_ok :: "nat \<Rightarrow> 'a queue_system \<Rightarrow> bool" where
  "system_ok capacity s \<longleftrightarrow> ring (queue s) \<and> length (items (queue s)) = capacity \<and>
     poppedLog s @ queued (queue s) = pushedLog s \<and>
     (\<forall>i. waiting_ok (queue s) (producers s i)) \<and> channel_ok (queue s) \<and>
     (listening s \<longrightarrow> consumer_ok (queue s))"

lemmas system_defs = system_ok_def waiting_ok_def channel_ok_def consumer_ok_def

lemma system_ok_start: "system_ok capacity (startSystem zero capacity)"
  by (simp add: system_defs startSystem_def newDataPacketQueue_def ring_def queued_def) auto

text \<open>The frame that an operation on the queue has to keep for the waiting sides.\<close>

definition keeps :: "'a dataPacketQueue \<Rightarrow> 'a dataPacketQueue \<Rightarrow> bool" where
  "keeps q q' \<longleftrightarrow> length (items q') = length (items q) \<and> ring q' \<and> channel_ok q' \<and>
     notFull q \<le> notFull q' \<and> (notFull q' = notFull q \<longrightarrow>
        (queueLength q = length (items q) \<and> \<not> queueClosed q \<longrightarrow>
         queueLength q' = length (items q') \<and> \<not> queueClosed q')) \<and>
     (consumer_ok q \<longrightarrow> consumer_ok q')"

lemma pushRound_ring:
  assumes "ring q" "channel_ok q" "pushRound q cancelled x = (q', r)"
  shows "keeps q q'" "queued q' = queued q @ (if r = PushedOne then [x] else [])"
    "r = PushWaits g \<Longrightarrow> q' = q \<and> g = notFull q \<and> queueLength q = length (items q) \<and> \<not> queueClosed q"
proof -
  have sig: "ring (signalNotEmptyLocked p) = ring p" "queued (signalNotEmptyLocked p) = queued p" for p :: "'a dataPacketQueue"
    by (simp_all add: ring_def queued_def signalNotEmptyLocked_def)
  have put: "notFull (putItem q x) = notFull q" "queueClosed (putItem q x) = queueClosed q"
    "notEmpty (putItem q x) = notEmpty q" by (simp_all add: putItem_def Let_def)
  show "queued q' = queued q @ (if r = PushedOne then [x] else [])"
    using assms putItem_ring [OF assms(1), of x]
    by (auto simp: pushRound_def Let_def sig split: if_splits)
  show "r = PushWaits g \<Longrightarrow> q' = q \<and> g = notFull q \<and> queueLength q = length (items q) \<and> \<not> queueClosed q"
    using assms by (auto simp: pushRound_def Let_def ring_def split: if_splits)
  show "keeps q q'"
    using assms putItem_ring [OF assms(1), of x]
    by (auto simp: pushRound_def Let_def keeps_def consumer_ok_def sig put channel_ok_def signalNotEmptyLocked_def
        ring_def split: if_splits)
qed

lemma putItems_frame:
  "notFull (fold (\<lambda>x q. putItem q x) xs q) = notFull q"
  "queueClosed (fold (\<lambda>x q. putItem q x) xs q) = queueClosed q"
  "notEmpty (fold (\<lambda>x q. putItem q x) xs q) = notEmpty q"
  "length (items (fold (\<lambda>x q. putItem q x) xs q)) = length (items q)"
  "queueLength (fold (\<lambda>x q. putItem q x) xs q) = queueLength q + length xs"
  by (induction xs arbitrary: q) (simp_all add: putItem_def Let_def)

lemma TryPushBatch_keeps:
  assumes "ring q" "channel_ok q"
  shows "keeps q (fst (TryPushBatch q cancelled xs))"
proof -
  note r = TryPushBatch_ring(1) [OF assms(1), of cancelled xs]
  show ?thesis
  proof (cases "queueClosed q \<or> cancelled \<or> length xs = 0")
    case True
    with assms show ?thesis by (auto simp: TryPushBatch_def keeps_def consumer_ok_def)
  next
    case False
    with assms r show ?thesis
      by (auto simp: TryPushBatch_def Let_def keeps_def consumer_ok_def channel_ok_def signalNotEmptyLocked_def
          putItems_frame ring_def)
  qed
qed

lemma PopInto_keeps:
  assumes "ring q" "channel_ok q"
  shows "keeps q (fst (PopInto zero q m))"
proof -
  define c where "c = (if m > 0 then min (queueLength q) (nat m) else queueLength q)"
  note r = PopInto_ring [OF assms(1), of zero m]
  obtain b where b: "notEmpty q = (if queueClosed q then Shut b else Open b)"
    using assms(2) by (auto simp: channel_ok_def)
  have c: "c \<le> queueLength q" by (simp add: c_def)
  have shape: "notFull (fst (PopInto zero q m)) = notFull q + (if c = 0 \<or> queueLength q \<noteq> length (items q) then 0 else 1)"
    "queueClosed (fst (PopInto zero q m)) = queueClosed q"
    "queueLength (fst (PopInto zero q m)) = queueLength q - c"
    "c \<noteq> 0 \<Longrightarrow> notEmpty (fst (PopInto zero q m)) = (if queueLength q - c = 0 then try_receive (notEmpty q)
       else if queueClosed q then notEmpty q else try_send (notEmpty q))"
    "c = 0 \<Longrightarrow> fst (PopInto zero q m) = q"
    by (auto simp: PopInto_def Let_def signalNotEmptyLocked_def signalNotFullLocked_def c_def [symmetric]
        split: prod.splits)
  show ?thesis
  proof (cases "c = 0")
    case True
    with shape(5) assms show ?thesis by (simp add: keeps_def consumer_ok_def)
  next
    case False
    then show ?thesis using shape(1-4) r b by (auto simp: keeps_def consumer_ok_def channel_ok_def)
  qed
qed

lemma Wake_keeps:
  assumes "ring q" "channel_ok q"
  shows "keeps q (Wake q)" "queued (Wake q) = queued q"
    "consumer_ok (Wake q)"
  using assms by (auto simp: Wake_def keeps_def consumer_ok_def channel_ok_def signalNotEmptyLocked_def ring_def queued_def
      split: if_splits)

lemma Close_keeps:
  assumes "ring q" "channel_ok q"
  shows "keeps q (Close q)" "queued (Close q) = queued q"
  using assms by (auto simp: Close_def keeps_def consumer_ok_def channel_ok_def signalNotFullLocked_def ring_def queued_def)

lemma keeps_waiting: "waiting_ok q p \<Longrightarrow> keeps q q' \<Longrightarrow> waiting_ok q' p"
  by (auto simp: waiting_ok_def keeps_def split: producer.splits)

lemma system_ok_producer:
  "system_ok capacity s \<Longrightarrow> waiting_ok (queue s) p \<Longrightarrow> system_ok capacity (s\<lparr>producers := (producers s)(i := p)\<rparr>)"
  by (simp add: system_ok_def)

lemma system_ok_queue:
  assumes "system_ok capacity s" "keeps (queue s) q'" "outs @ queued q' = ins"
  shows "system_ok capacity (s\<lparr>queue := q', pushedLog := ins, poppedLog := outs\<rparr>)"
  using assms keeps_waiting [OF _ assms(2)] by (auto simp: system_ok_def keeps_def)

lemma system_ok_parts:
  assumes "system_ok capacity s"
  shows "ring (queue s)" "channel_ok (queue s)" "pushedLog s = poppedLog s @ queued (queue s)"
  using assms by (simp_all add: system_ok_def)

lemma system_ok_loop:
  assumes "system_ok capacity s" "pushRound (queue s) cancelled x = (q', r)"
  shows "system_ok capacity (s\<lparr>queue := q', producers := (producers s)(i := afterRound r (x # xs)),
      pushedLog := pushedLog s @ (if r = PushedOne then [x] else [])\<rparr>)"
proof -
  note p = pushRound_ring [OF system_ok_parts(1,2) [OF assms(1)] assms(2)]
  let ?s = "s\<lparr>queue := q', pushedLog := pushedLog s @ (if r = PushedOne then [x] else []), poppedLog := poppedLog s\<rparr>"
  have "system_ok capacity ?s"
    by (rule system_ok_queue [OF assms(1) p(1)]) (simp add: p(2) system_ok_parts(3) [OF assms(1)])
  moreover have "waiting_ok (queue ?s) (afterRound r (x # xs))"
    using p(3) by (cases r) (auto simp: waiting_ok_def)
  ultimately have "system_ok capacity (?s\<lparr>producers := (producers ?s)(i := afterRound r (x # xs))\<rparr>)"
    by (rule system_ok_producer)
  then show ?thesis by (cases s) (simp split: if_splits)
qed

lemma system_ok_step:
  assumes "system_ok capacity s" "queue_step zero s s'"
  shows "system_ok capacity s'"
proof -
  note q = system_ok_parts [OF assms(1)]
  note upd = system_ok_queue [OF assms(1)]
  show ?thesis using assms(2)
  proof cases
    case loop
    then show ?thesis using system_ok_loop [OF assms(1)] by simp
  next
    case (try_push cancelled xs q' n)
    then show ?thesis
      using upd [of q' "poppedLog s"] TryPushBatch_keeps [OF q(1,2), of cancelled xs]
        TryPushBatch_ring(2) [OF q(1), of cancelled xs] q(3) by simp
  next
    case listen
    then show ?thesis
      using upd [OF Wake_keeps(1) [OF q(1,2)], of "poppedLog s"] Wake_keeps(2,3) [OF q(1,2)] q(3)
      by (simp add: system_ok_def)
  next
    case receive
    then show ?thesis using assms(1)
      by (auto simp: system_ok_def ring_def queued_def channel_ok_def waiting_ok_def split: producer.splits)
  next
    case (pop m q' ys)
    have "system_ok capacity (s\<lparr>queue := q', pushedLog := pushedLog s, poppedLog := poppedLog s @ ys\<rparr>)"
      using PopInto_keeps [OF q(1,2), of zero m] PopInto_ring(2) [OF q(1), of zero m] q(3) pop(2)
      by (intro upd) simp_all
    with pop(1) show ?thesis by simp
  next
    case close
    have "system_ok capacity (s\<lparr>queue := Close (queue s), pushedLog := pushedLog s, poppedLog := poppedLog s\<rparr>)"
      by (rule upd) (simp_all add: Close_keeps [OF q(1,2)] q(3))
    with close show ?thesis by simp
  qed (simp_all add: system_ok_producer [OF assms(1)] waiting_ok_def)
qed

lemma queue_reachable_ok: "queue_reachable zero capacity s \<Longrightarrow> system_ok capacity s"
  by (induction rule: queue_reachable.induct) (auto intro: system_ok_start system_ok_step)

section \<open>A concrete run\<close>

text \<open>
  A queue of capacity one: a producer pushes 1, waits with 2 left, the consumer listens and pops.
\<close>

definition blocked_run :: "nat queue_system" where
  "blocked_run = \<lparr>queue = \<lparr>items = [0], head = 0, queueLength = 0, notEmpty = Open False, notFull = 1,
     queueClosed = False\<rparr>, producers = (\<lambda>_. Returned [])(0 := Waiting 0 [2]), listening = True,
     pushedLog = [1], poppedLog = [1]\<rparr>"

lemma blocked_run_facts:
  "producers blocked_run 0 = Waiting 0 [2]" "queueLength (queue blocked_run) = 0"
  "listening blocked_run" "poppedLog blocked_run = [1]"
  by (simp_all add: blocked_run_def)

lemma blocked_run_reachable: "queue_reachable 0 1 blocked_run"
proof -
  let ?q0 = "newDataPacketQueue (0 :: nat) 1"
  let ?q1 = "\<lparr>items = [1 :: nat], head = 0, queueLength = 1, notEmpty = Open True, notFull = 0, queueClosed = False\<rparr>"
  let ?s = "\<lambda>q p l. \<lparr>queue = q, producers = (\<lambda>_. Returned [])(0 := p), listening = l,
    pushedLog = [1 :: nat], poppedLog = []\<rparr>"
  have "queue_reachable 0 1 (startSystem 0 1 :: nat queue_system)" by (rule queue_reachable.init)
  note queue_reachable.step [OF this queue_step.call [where i = 0 and xs = "[1, 2]" and ys = "[]"]]
  then have "queue_reachable 0 1 \<lparr>queue = ?q0, producers = (\<lambda>_. Returned [])(0 := Pushing [1, 2]),
      listening = False, pushedLog = [], poppedLog = []\<rparr>" by (simp add: startSystem_def)
  note queue_reachable.step [OF this queue_step.loop [where i = 0 and x = 1 and xs = "[2]" and cancelled = False
      and r = PushedOne and q' = ?q1]]
  then have "queue_reachable 0 1 (?s ?q1 (Pushing [2]) False)"
    by (simp add: pushRound_def newDataPacketQueue_def putItem_def signalNotEmptyLocked_def Let_def)
  note queue_reachable.step [OF this queue_step.loop [where i = 0 and x = 2 and xs = "[]" and cancelled = False
      and r = "PushWaits 0" and q' = ?q1]]
  then have "queue_reachable 0 1 (?s ?q1 (Waiting 0 [2]) False)" by (simp add: pushRound_def)
  note queue_reachable.step [OF this queue_step.listen]
  then have "queue_reachable 0 1 (?s ?q1 (Waiting 0 [2]) True)"
    by (simp add: Wake_def signalNotEmptyLocked_def)
  note queue_reachable.step [OF this queue_step.pop [where m = 0 and ys = "[1]" and q' = "queue blocked_run"]]
  then show ?thesis by (simp add: PopInto_def signalNotFullLocked_def Let_def blocked_run_def)
qed

section \<open>Properties\<close>

text \<open>Over any sequence of batch pushes and pops, the packets come out in the order they went in,
  without loss or duplication: what was taken in, after what was queued at the start, is what was
  given out followed by what is still queued.\<close>

theorem queue_fifo:
  assumes "ring q" "packet_queue.run zero q os = (ins, outs, q')"
  shows "queued q @ ins = outs @ queued q'"
  using packet_queue.run_order [OF assms] by blast

theorem queue_fifo_witness:
  "let q = newDataPacketQueue (0 :: nat) 2
   in case packet_queue.run 0 q [Inl [5, 6, 7], Inr 1, Inl [8, 9], Inr 0] of (ins, outs, q') \<Rightarrow>
        ins = [5, 6, 8] \<and> outs = [5, 6, 8] \<and> queued q @ ins = outs @ queued q'"
proof -
  let ?q = "newDataPacketQueue (0 :: nat) 2"
  obtain q' where r: "packet_queue.run 0 ?q [Inl [5, 6, 7], Inr 1, Inl [8, 9], Inr 0] = ([5, 6, 8], [5, 6, 8], q')"
    by (simp add: newDataPacketQueue_def TryPushBatch_def PopInto_def Let_def putItem_def
        signalNotEmptyLocked_def signalNotFullLocked_def take_Cons' numeral_2_eq_2)
  have "ring ?q" by (simp add: newDataPacketQueue_def ring_def)
  from queue_fifo [OF this r] r show ?thesis by (simp add: Let_def)
qed

text \<open>C13: in every reachable state of producers, consumer and queue, the packets that were popped
  followed by those queued are those that were pushed, in order; the queue never exceeds its capacity;
  and no goroutine has sent on, or closed, a closed channel.\<close>

theorem queue_system_order:
  assumes "queue_reachable zero capacity s"
  shows "poppedLog s @ queued (queue s) = pushedLog s \<and> length (queued (queue s)) \<le> capacity \<and>
    notEmpty (queue s) \<noteq> Panic"
  using queue_reachable_ok [OF assms]
  by (auto simp: system_ok_def ring_def channel_ok_def split: if_splits)

theorem queue_system_order_witness:
  "poppedLog blocked_run = [1] \<and> poppedLog blocked_run @ queued (queue blocked_run) = pushedLog blocked_run"
  using queue_system_order [OF blocked_run_reachable] by (simp add: blocked_run_facts)

text \<open>C12: no wake-up is lost: in every reachable state, a producer that waits while the queue has room or
  is closed can resume, and a consumer that waits while the queue is not empty or is closed has a
  signal to receive.\<close>

theorem queue_no_lost_wakeup:
  assumes "queue_reachable zero capacity s"
  shows "(producers s i = Waiting g xs \<and> (queueLength (queue s) < capacity \<or> Closed (queue s)) \<longrightarrow>
      g < notFull (queue s)) \<and>
    (listening s \<and> (queueLength (queue s) > 0 \<or> Closed (queue s)) \<longrightarrow> signalled (notEmpty (queue s)))"
proof -
  have ok: "system_ok capacity s" by (rule queue_reachable_ok [OF assms])
  then have "waiting_ok (queue s) (producers s i)" "length (items (queue s)) = capacity"
    by (simp_all add: system_ok_def)
  then have "g < notFull (queue s)"
    if "producers s i = Waiting g xs" "queueLength (queue s) < capacity \<or> Closed (queue s)"
    using that by (auto simp: waiting_ok_def Closed_def)
  with ok show ?thesis by (auto simp: system_ok_def consumer_ok_def Closed_def)
qed

theorem queue_no_lost_wakeup_witness:
  "producers blocked_run 0 = Waiting 0 [2] \<and> queueLength (queue blocked_run) < 1 \<and> 0 < notFull (queue blocked_run)"
  using queue_no_lost_wakeup [OF blocked_run_reachable, of 0 0 "[2]"] by (simp add: blocked_run_facts)

end
