(* ===== verification/Framing.thy ===== *)
theory Framing
  imports Prelude
begin

text \<open>
  What the record layers of the program have in common: reading from and writing to a connection
  (\<^verbatim>\<open>io.ReadFull\<close>, \<^verbatim>\<open>io.Writer\<close>), the contract of a self-delimiting record format, and the contract
  of a decoder that is fed a byte stream in pieces.
\<close>

section \<open>Connections\<close>

text \<open>
  A reader is given by the bytes it will still deliver and the error it reports after them; how
  they are split over calls of \<open>Read\<close> is invisible to \<open>io.ReadFull\<close>.
\<close>

record reader =
  stream :: bytes
  final :: go_error

definition ioEOF :: go_error where "ioEOF = External ''EOF''"
definition ioErrUnexpectedEOF :: go_error where "ioErrUnexpectedEOF = External ''unexpected EOF''"

definition readFull :: "reader \<Rightarrow> nat \<Rightarrow> bytes result \<times> reader" where
  "readFull r n =
     (if n \<le> length (stream r) then (Inr (take n (stream r)), r\<lparr>stream := drop n (stream r)\<rparr>)
      else (Inl (if stream r \<noteq> [] \<and> final r = ioEOF then ioErrUnexpectedEOF else final r), r\<lparr>stream := []\<rparr>))"

text \<open>
  A writer is a function from its state and the bytes offered to its next state, the number of
  bytes it reports as written, and an error.
\<close>

type_synonym 'w writer = "'w \<Rightarrow> bytes \<Rightarrow> 'w \<times> int \<times> go_error option"

text \<open>
  A writer in the sense of the standard library: what has been written so far only grows, by the
  bytes it reports.
\<close>

definition honest_writer :: "'w writer \<Rightarrow> ('w \<Rightarrow> bytes) \<Rightarrow> bool" where
  "honest_writer w out \<longleftrightarrow> (\<forall>s bs s' n err. w s bs = (s', n, err) \<longrightarrow>
     0 \<le> n \<and> n \<le> int (length bs) \<and> out s' = out s @ take (nat n) bs)"

text \<open>
  \<open>net.Buffers.WriteTo\<close> offers the pieces one by one until an error and adds up what was written;
  \<open>writeByteSequence\<close> of \<^verbatim>\<open>packet_buffer.go\<close> compares the sum with what was asked for.
\<close>

fun writeBuffers :: "'w writer \<Rightarrow> 'w \<Rightarrow> bytes list \<Rightarrow> int \<Rightarrow> 'w \<times> int \<times> go_error option" where
  "writeBuffers w s [] written = (s, written, None)"
| "writeBuffers w s (c # cs) written =
     (case w s c of
        (s', n, Some err) \<Rightarrow> (s', written + n, Some err)
      | (s', n, None) \<Rightarrow> writeBuffers w s' cs (written + n))"

definition writeByteSequence :: "'w writer \<Rightarrow> 'w \<Rightarrow> bytes list \<Rightarrow> 'w \<times> unit result" where
  "writeByteSequence w s content =
     (let expected = sum_list (map length content) in
      case writeBuffers w s content 0 of
        (s', written, Some err) \<Rightarrow> (s', Inl err)
      | (s', written, None) \<Rightarrow>
          (s', if written \<noteq> int expected then Inl (New ''short byte sequence write'') else Inr ()))"

lemma writeBuffers_honest:
  assumes "honest_writer w out" "writeBuffers w s cs k = (s', written, None)"
  shows "written \<le> k + int (sum_list (map length cs)) \<and>
    (written = k + int (sum_list (map length cs)) \<longrightarrow> out s' = out s @ concat cs)"
  using assms(2)
proof (induction cs arbitrary: s k)
  case (Cons c cs)
  obtain s1 n where w: "w s c = (s1, n, None)" and rec: "writeBuffers w s1 cs (k + n) = (s', written, None)"
    using Cons.prems by (auto split: prod.split_asm option.split_asm)
  have h: "0 \<le> n" "n \<le> int (length c)" "out s1 = out s @ take (nat n) c"
    using assms(1) w unfolding honest_writer_def by blast+
  have IH: "written \<le> k + n + int (sum_list (map length cs))"
    "written = k + n + int (sum_list (map length cs)) \<longrightarrow> out s' = out s1 @ concat cs"
    using Cons.IH [OF rec] by auto
  show ?case
  proof (intro conjI impI)
    show "written \<le> k + int (sum_list (map length (c # cs)))" using IH(1) h(2) by simp
    assume a: "written = k + int (sum_list (map length (c # cs)))"
    then have "n = int (length c)" using IH(1) h(2) by simp
    with a IH(2) h(3) show "out s' = out s @ concat (c # cs)" by simp
  qed
qed simp

lemma writeByteSequence_honest:
  assumes "honest_writer w out" "writeByteSequence w s cs = (s', Inr ())"
  shows "out s' = out s @ concat cs"
proof -
  obtain written where "writeBuffers w s cs 0 = (s', written, None)" "written = int (sum_list (map length cs))"
    using assms(2) by (auto simp: writeByteSequence_def Let_def split: prod.split_asm option.split_asm if_split_asm)
  with writeBuffers_honest [OF assms(1), of s cs 0] show ?thesis by auto
qed

text \<open>A writer that collects what it is given.\<close>

definition collect :: "bytes writer" where
  "collect s bs = (s @ bs, int (length bs), None)"

lemma collect_honest: "honest_writer collect id"
  by (simp add: honest_writer_def collect_def)

lemma map_sum_id_Inr: "map_sum id f r = Inr y \<longleftrightarrow> (\<exists>x. r = Inr x \<and> y = f x)"
  by (cases r) auto

lemma readFull_append [simp]:
  "n = length xs \<Longrightarrow> readFull \<lparr>stream = xs @ rest, final = e\<rparr> n = (Inr xs, \<lparr>stream = rest, final = e\<rparr>)"
  by (simp add: readFull_def)

section \<open>Self-delimiting records\<close>

text \<open>
  \<open>enc\<close> writes a record, \<open>dec\<close> takes one off the front of a byte sequence; on a good record, \<open>dec\<close>
  gives it back with whatever follows untouched.
\<close>

locale record_format =
  fixes good :: "'m \<Rightarrow> bool"
    and enc :: "'m \<Rightarrow> bytes"
    and dec :: "bytes \<Rightarrow> ('m \<times> bytes) result"
  assumes dec_enc: "good m \<Longrightarrow> dec (enc m @ rest) = Inr (m, rest)"
begin

fun dec_many :: "nat \<Rightarrow> bytes \<Rightarrow> ('m list \<times> bytes) result" where
  "dec_many 0 bs = Inr ([], bs)"
| "dec_many (Suc n) bs =
     (case dec bs of Inl e \<Rightarrow> Inl e
      | Inr (m, rest) \<Rightarrow> map_sum id (apfst ((#) m)) (dec_many n rest))"

lemma dec_many_enc:
  "list_all good ms \<Longrightarrow> dec_many (length ms) (concat (map enc ms) @ rest) = Inr (ms, rest)"
  by (induction ms) (simp_all add: dec_enc)

lemma enc_inject:
  assumes "good m" "good m'" "enc m @ rest = enc m' @ rest'"
  shows "m = m' \<and> rest = rest'"
  using dec_enc [OF assms(1), of rest, unfolded assms(3)] dec_enc [OF assms(2), of rest'] by simp

lemma enc_all_inject:
  assumes "list_all good ms" "list_all good ms'" "concat (map enc ms) = concat (map enc ms')"
    "length ms = length ms'"
  shows "ms = ms'"
  using dec_many_enc [OF assms(1), of "[]", unfolded assms(3,4)] dec_many_enc [OF assms(2), of "[]"] by simp

end

section \<open>Incremental decoders\<close>

text \<open>
  \<open>drain\<close> takes all complete records off the pending bytes and returns the remainder. Its laws say
  that more bytes never change what was already recognised, so a stream may be cut anywhere;
  \<open>same\<close> relates remainders that no later bytes can tell apart.
\<close>

definition like :: "(bytes \<Rightarrow> bytes \<Rightarrow> bool) \<Rightarrow> ('f list \<times> bytes) result \<Rightarrow> ('f list \<times> bytes) result \<Rightarrow> bool" where
  "like same r r' = rel_sum (=) (rel_prod (=) same) r r'"

definition prepend :: "'f list \<Rightarrow> ('f list \<times> bytes) result \<Rightarrow> ('f list \<times> bytes) result" where
  "prepend fs r = map_sum id (apfst ((@) fs)) r"

lemma prepend_simps [simp]:
  "prepend fs (Inl e) = Inl e" "prepend fs (Inr (gs, rest)) = Inr (fs @ gs, rest)"
  "prepend [] r = r" "prepend fs (prepend gs r) = prepend (fs @ gs) r"
  by (cases r; force simp: prepend_def)+

lemma like_Inr: "like same r (Inr (fs, rest)) \<longleftrightarrow> (\<exists>rest'. r = Inr (fs, rest') \<and> same rest' rest)"
  by (cases r) (auto simp: like_def)

lemma like_prepend: "like same r r' \<Longrightarrow> like same (prepend fs r) (prepend fs r')"
  by (cases r; cases r') (auto simp: like_def)

lemma like_refl: "(\<And>b. same b b) \<Longrightarrow> like same r r"
  unfolding like_def by (cases r) auto

locale stream_decoder =
  fixes drain :: "bytes \<Rightarrow> ('f list \<times> bytes) result"
    and same :: "bytes \<Rightarrow> bytes \<Rightarrow> bool"
  assumes drain_append: "drain xs = Inr (fs, rest) \<Longrightarrow>
      like same (drain (xs @ ys)) (prepend fs (drain (rest @ ys)))"
    and same_refl: "same p p"
    and same_trans: "same p q \<Longrightarrow> same q r \<Longrightarrow> same p r"
begin

text \<open>Feeding the pieces one after the other.\<close>

fun feed :: "bytes \<Rightarrow> bytes list \<Rightarrow> ('f list \<times> bytes) result" where
  "feed pending [] = Inr ([], pending)"
| "feed pending (c # cs) =
     (case drain (pending @ c) of Inl e \<Rightarrow> Inl e | Inr (fs, rest) \<Rightarrow> prepend fs (feed rest cs))"

lemma feed_concat:
  assumes "cs \<noteq> []" "feed pending cs = Inr (fs, rest)"
  shows "\<exists>rest'. drain (pending @ concat cs) = Inr (fs, rest') \<and> same rest' rest"
  using assms
proof (induction cs arbitrary: pending fs)
  case (Cons c cs)
  obtain gs r where d: "drain (pending @ c) = Inr (gs, r)"
    using Cons.prems by (auto split: sum.splits)
  obtain hs where f: "feed r cs = Inr (hs, rest)" "fs = gs @ hs"
    using Cons.prems d by (cases "feed r cs") auto
  show ?case
  proof (cases "cs = []")
    case True
    with f d same_refl show ?thesis by simp
  next
    case False
    from Cons.IH [OF False f(1)] obtain r' where r': "drain (r @ concat cs) = Inr (hs, r')" "same r' rest"
      by blast
    from drain_append [OF d, of "concat cs"] r'(1) obtain r''
      where "drain (pending @ c @ concat cs) = Inr (gs @ hs, r'')" "same r'' r'"
      by (auto simp: like_Inr)
    with r'(2) f(2) same_trans show ?thesis by auto
  qed
qed simp

text \<open>Hence the frames recognised do not depend on how the stream was cut.\<close>

lemma feed_frames:
  assumes "drain (pending @ concat cs) = Inr (fs, rest)" "feed pending cs = Inr (gs, rest')" "cs \<noteq> []"
  shows "gs = fs"
  using feed_concat [OF assms(3,2)] assms(1) by auto

end

text \<open>
  A decoder that in addition never keeps more than it was given, and whose errors later bytes
  cannot undo, so that no cut of a good stream makes it fail.
\<close>

locale bounded_stream_decoder = stream_decoder +
  assumes drain_length: "drain xs = Inr (fs, rest) \<Longrightarrow> length rest \<le> length xs"
    and drain_error: "drain xs = Inl e \<Longrightarrow> \<exists>e. drain (xs @ ys) = Inl e"
begin

lemma feed_total:
  assumes "drain (pending @ concat cs) = Inr (fs, rest)"
  shows "\<exists>r. feed pending cs = Inr r"
  using assms
proof (induction cs arbitrary: pending fs rest)
  case (Cons c cs)
  obtain gs r where d: "drain (pending @ c) = Inr (gs, r)"
  proof (cases "drain (pending @ c)")
    case (Inl e)
    from drain_error [OF this, of "concat cs"] Cons.prems show ?thesis by auto
  qed auto
  have "like same (Inr (fs, rest)) (prepend gs (drain (r @ concat cs)))"
    using drain_append [OF d, of "concat cs"] Cons.prems by simp
  then obtain fs' rest' where "drain (r @ concat cs) = Inr (fs', rest')"
    by (cases "drain (r @ concat cs)") (auto simp: like_def)
  from Cons.IH [OF this] obtain s where "feed r cs = Inr s" by blast
  with d show ?case by (cases s) auto
qed simp

text \<open>Feeding with a limit on what may be pending; empty pieces do nothing.\<close>

fun feed_limited :: "nat \<Rightarrow> bytes \<Rightarrow> bytes list \<Rightarrow> ('a list \<times> bytes) option" where
  "feed_limited limit pending [] = Some ([], pending)"
| "feed_limited limit pending (c # cs) =
     (if c = [] then feed_limited limit pending cs
      else if length pending + length c > limit then None
      else case drain (pending @ c) of
        Inl e \<Rightarrow> None
      | Inr (fs, rest) \<Rightarrow> map_option (apfst ((@) fs)) (feed_limited limit rest cs))"

lemma feed_limited_feed:
  "feed_limited limit pending cs = Some (fs, rest) \<Longrightarrow> feed pending (filter (\<lambda>c. c \<noteq> []) cs) = Inr (fs, rest)"
  by (induction cs arbitrary: pending fs) (auto split: if_splits sum.splits)

lemma feed_feed_limited:
  assumes "feed pending (filter (\<lambda>c. c \<noteq> []) cs) = Inr (fs, rest)" "length pending + length (concat cs) \<le> limit"
  shows "feed_limited limit pending cs = Some (fs, rest)"
  using assms
proof (induction cs arbitrary: pending fs)
  case (Cons c cs)
  show ?case
  proof (cases "c = []")
    case False
    with Cons.prems(1) obtain gs r where d: "drain (pending @ c) = Inr (gs, r)" by (auto split: sum.splits)
    with False Cons.prems(1) obtain hs where f: "feed r (filter (\<lambda>c. c \<noteq> []) cs) = Inr (hs, rest)" "fs = gs @ hs"
      by (cases "feed r (filter (\<lambda>c. c \<noteq> []) cs)") auto
    have "length r + length (concat cs) \<le> limit" using drain_length [OF d] Cons.prems(2) by simp
    from Cons.IH [OF f(1) this] False d f(2) Cons.prems(2) show ?thesis by simp
  qed (use Cons in simp)
qed simp

lemma concat_filter_nonempty: "concat (filter (\<lambda>c. c \<noteq> []) cs) = concat cs"
  by (induction cs) auto

lemma feed_limited_exact:
  assumes "drain (concat cs) = Inr (fs, rest)" "concat cs \<noteq> []"
  shows "feed_limited limit [] cs = Some (gs, rest') \<Longrightarrow> gs = fs"
    and "length (concat cs) \<le> limit \<Longrightarrow> \<exists>rest'. feed_limited limit [] cs = Some (fs, rest')"
proof -
  let ?cs = "filter (\<lambda>c. c \<noteq> []) cs"
  have ne: "?cs \<noteq> []" using assms(2) concat_filter_nonempty [of cs] by force
  have d: "drain ([] @ concat ?cs) = Inr (fs, rest)" using assms(1) by (simp add: concat_filter_nonempty)
  show "feed_limited limit [] cs = Some (gs, rest') \<Longrightarrow> gs = fs"
    using feed_frames [OF d _ ne] feed_limited_feed by blast
  obtain hs r where h: "feed [] ?cs = Inr (hs, r)" using feed_total [OF d] by auto
  then have "hs = fs" using feed_frames [OF d _ ne] by blast
  with h feed_feed_limited [of "[]" cs hs r limit]
  show "length (concat cs) \<le> limit \<Longrightarrow> \<exists>rest'. feed_limited limit [] cs = Some (fs, rest')" by auto
qed

end

end
