(* ===== verification/Cstp.thy ===== *)
theory Cstp
  imports Framing
begin

text \<open>
  The CSTP record layer and timers: \<^verbatim>\<open>cstp_packet.go\<close>, \<^verbatim>\<open>cstp_keepalive.go\<close>, \<^verbatim>\<open>cstp_rekey.go\<close>, the
  pure part of \<^verbatim>\<open>cstp_mtu.go\<close>, and the search of \<^verbatim>\<open>dtls_mtu.go\<close>.

  Times are nanoseconds since the origin of the state, as the code keeps them; the two atomics are
  fields. A probe of the MTU search is a parameter.
\<close>

section \<open>Definitions\<close>

subsection \<open>Records\<close>

definition cstpPacketData :: byte where "cstpPacketData = 0"
definition cstpPacketDPDRequest :: byte where "cstpPacketDPDRequest = 3"
definition cstpPacketDPDResponse :: byte where "cstpPacketDPDResponse = 4"
definition cstpPacketDisconnect :: byte where "cstpPacketDisconnect = 5"
definition cstpPacketKeepalive :: byte where "cstpPacketKeepalive = 7"
definition cstpPacketCompressed :: byte where "cstpPacketCompressed = 8"
definition cstpPacketTerminate :: byte where "cstpPacketTerminate = 9"

definition cstpPacketMagic :: bytes where "cstpPacketMagic = [0x53, 0x54, 0x46, 1]"

text \<open>The header and payload that \<open>writeCSTPPacketBuffer\<close> puts in the buffer.\<close>

definition cstpRecord :: "byte \<Rightarrow> bytes \<Rightarrow> bytes" where
  "cstpRecord packetType payload =
     cstpPacketMagic @ put_u16 (u16_of (length payload)) @ [packetType, 0] @ payload"

function writeAll :: "'w writer \<Rightarrow> 'w \<Rightarrow> bytes \<Rightarrow> nat \<Rightarrow> 'w \<times> unit result" where
  "writeAll w s packet written =
     (if written < length packet then
        (case w s (drop written packet) of
           (s', n, Some err) \<Rightarrow> (s', Inl (Cause err ''write CSTP packet''))
         | (s', n, None) \<Rightarrow>
             if n \<le> 0 then (s', Inl (New ''short CSTP packet write''))
             else writeAll w s' packet (written + nat n))
      else (s, Inr ()))"
  by pat_completeness auto
termination
  by (relation "measure (\<lambda>(w, s, packet, written). length packet - written)") auto

declare writeAll.simps [simp del]

definition writeCSTPPacketBuffer :: "'w writer \<Rightarrow> 'w \<Rightarrow> byte \<Rightarrow> bytes \<Rightarrow> 'w \<times> unit result" where
  "writeCSTPPacketBuffer w s packetType payload =
     (if length payload > 65535 then (s, Inl (New ''CSTP payload exceeds 65535 bytes''))
      else writeAll w s (cstpRecord packetType payload) 0)"

definition writeCSTPPacket :: "'w writer \<Rightarrow> 'w \<Rightarrow> byte \<Rightarrow> bytes \<Rightarrow> 'w \<times> unit result" where
  "writeCSTPPacket w s packetType payload = writeCSTPPacketBuffer w s packetType payload"

definition writeCSTPDisconnect :: "'w writer \<Rightarrow> 'w \<Rightarrow> bytes \<Rightarrow> 'w \<times> unit result" where
  "writeCSTPDisconnect w s reason = writeCSTPPacket w s cstpPacketDisconnect (0xb0 # reason)"

definition readCSTPPacket :: "reader \<Rightarrow> int \<Rightarrow> (byte \<times> bytes) result \<times> reader" where
  "readCSTPPacket r maximumPayloadSize =
     (case readFull r 8 of
        (Inl err, r') \<Rightarrow> (Inl (Cause err ''read CSTP packet header''), r')
      | (Inr header, r') \<Rightarrow>
          if take 4 header \<noteq> cstpPacketMagic \<or> header ! 7 \<noteq> 0
          then (Inl (Extend (Sentinel ErrProtocolNotSupported) ''invalid CSTP packet header''), r')
          else
            let payloadSize = unat (get_u16 (subslice header 4 6)) in
            if maximumPayloadSize > 0 \<and> int payloadSize > maximumPayloadSize
            then (Inl (Extend (Sentinel ErrProtocolNotSupported) ''CSTP payload exceeds receive limit''), r')
            else
              (case readFull r' payloadSize of
                 (Inl err, r'') \<Rightarrow> (Inl (Cause err ''read CSTP packet payload''), r'')
               | (Inr payload, r'') \<Rightarrow> (Inr (header ! 6, payload), r'')))"

subsection \<open>Rekey methods\<close>

datatype cstpRekeyMethod = cstpRekeyNone | cstpRekeyNewTunnel | cstpRekeyTLS

text \<open>\<open>strings.TrimSpace\<close> on ASCII text.\<close>

definition asciiSpace :: "char \<Rightarrow> bool" where
  "asciiSpace c \<longleftrightarrow> c \<in> {CHR '' '', CHR 0x09, CHR 0x0A, CHR 0x0B, CHR 0x0C, CHR 0x0D}"

definition trimSpace :: "string \<Rightarrow> string" where
  "trimSpace s = rev (dropWhile asciiSpace (rev (dropWhile asciiSpace s)))"

definition parseCSTPRekeyMethod :: "string \<Rightarrow> cstpRekeyMethod result" where
  "parseCSTPRekeyMethod v =
     (let t = trimSpace v in
      if t = '''' \<or> t = ''none'' then Inr cstpRekeyNone
      else if t = ''new-tunnel'' then Inr cstpRekeyNewTunnel
      else if t = ''ssl'' then Inr cstpRekeyTLS
      else Inl (Extend (Sentinel ErrProtocolNotSupported) ''unknown negotiated rekey method''))"

subsection \<open>Keepalive state\<close>

datatype cstpTimerAction =
  cstpTimerNone | cstpTimerDPD | cstpTimerDeadPeer | cstpTimerKeepalive | cstpTimerRekey

record cstpKeepaliveState =
  dpd :: duration
  keepalive :: duration
  rekey :: duration
  rekeyMethod :: cstpRekeyMethod
  lastRekey :: duration
  lastTransmit :: duration
  lastReceive :: duration
  lastDPD :: duration

definition newCSTPKeepaliveState ::
  "duration \<Rightarrow> duration \<Rightarrow> duration \<Rightarrow> cstpRekeyMethod \<Rightarrow> cstpKeepaliveState" where
  "newCSTPKeepaliveState d k r m = \<lparr>dpd = d, keepalive = k, rekey = r, rekeyMethod = m,
     lastRekey = 0, lastTransmit = 0, lastReceive = 0, lastDPD = 0\<rparr>"

definition markReceived :: "cstpKeepaliveState \<Rightarrow> duration \<Rightarrow> cstpKeepaliveState" where
  "markReceived s elapsed = s\<lparr>lastReceive := elapsed\<rparr>"

definition markTransmitted :: "cstpKeepaliveState \<Rightarrow> duration \<Rightarrow> cstpKeepaliveState" where
  "markTransmitted s elapsed = s\<lparr>lastTransmit := elapsed\<rparr>"

text \<open>When the next dead-peer probe is due. Go's division truncates; a period is not negative here.\<close>

definition dpdDue :: "cstpKeepaliveState \<Rightarrow> duration" where
  "dpdDue s = (if lastDPD s > lastReceive s then lastDPD s + dpd s div 2 else lastReceive s + dpd s)"

definition action :: "cstpKeepaliveState \<Rightarrow> duration \<Rightarrow> cstpTimerAction \<times> cstpKeepaliveState" where
  "action s elapsed =
     (if rekeyMethod s \<noteq> cstpRekeyNone \<and> rekey s > 0 \<and> elapsed \<ge> lastRekey s + rekey s
      then (cstpTimerRekey, s\<lparr>lastRekey := elapsed\<rparr>)
      else if dpd s > 0 \<and> elapsed > lastReceive s + 2 * dpd s then (cstpTimerDeadPeer, s)
      else if dpd s > 0 \<and> elapsed \<ge> dpdDue s then (cstpTimerDPD, s\<lparr>lastDPD := elapsed\<rparr>)
      else if keepalive s > 0 \<and> elapsed \<ge> lastTransmit s + keepalive s then (cstpTimerKeepalive, s)
      else (cstpTimerNone, s))"

definition deadlines :: "cstpKeepaliveState \<Rightarrow> duration list" where
  "deadlines s =
     (if rekeyMethod s \<noteq> cstpRekeyNone \<and> rekey s > 0 then [lastRekey s + rekey s] else []) @
     (if dpd s > 0 then [dpdDue s, lastReceive s + 2 * dpd s] else []) @
     (if keepalive s > 0 then [lastTransmit s + keepalive s] else [])"

definition nextDelay :: "cstpKeepaliveState \<Rightarrow> duration \<Rightarrow> duration" where
  "nextDelay s elapsed =
     (case deadlines s of
        [] \<Rightarrow> 3600000000000
      | d # ds \<Rightarrow>
          let delay = fold (\<lambda>deadline next. if deadline < next then deadline else next) ds d - elapsed
          in if delay \<le> 0 then 1000000 else delay)"

subsection \<open>MTU\<close>

definition cstpBaseMTUFromSocketInfo :: "u32 \<Rightarrow> int \<Rightarrow> u32" where
  "cstpBaseMTUFromSocketInfo pathMTU maximumSegmentSize =
     (if pathMTU \<ge> 1280 \<and> pathMTU \<le> 65535 then pathMTU
      else if maximumSegmentSize \<le> 13 then 0
      else
        let baseMTU = maximumSegmentSize - 13 in
        if baseMTU < 1280 \<or> baseMTU > 65535 then 0 else word_of_int baseMTU)"

text \<open>
  The search of \<open>detectAnyConnectDTLSMTU\<close>. The environment answers whether the deadline is still
  ahead, whether the context was cancelled, and what a probe of a size returned; each answer moves
  it on. The deferred reset of the deadline is the last argument: the error it returned, if any.
\<close>

record 'e probe_env =
  beforeDeadline :: "'e \<Rightarrow> 'e \<times> bool"
  ctxErr :: "'e \<Rightarrow> 'e \<times> go_error option"
  probeCandidate :: "'e \<Rightarrow> int \<Rightarrow> 'e \<times> bool result"
  clearDeadline :: "'e \<Rightarrow> 'e \<times> go_error option"

text \<open>
  The loop variable \<open>candidate\<close> is \<open>maximum\<close>, then also the value of \<open>upper\<close>, in the first round and
  the middle of the interval in the others; \<open>first\<close> says which.
\<close>

definition mtuCandidate :: "bool \<Rightarrow> int \<Rightarrow> int \<Rightarrow> int" where
  "mtuCandidate first lower upper = (if first then upper else (lower + upper + 1) div 2)"

function mtuSearch :: "'e probe_env \<Rightarrow> 'e \<Rightarrow> int \<Rightarrow> int \<Rightarrow> bool \<Rightarrow> 'e \<times> int result" where
  "mtuSearch env e lower upper first =
     (if \<not> lower < upper then (e, Inr lower)
      else case beforeDeadline env e of
        (e1, False) \<Rightarrow> (e1, Inr lower)
      | (e1, True) \<Rightarrow>
          (case ctxErr env e1 of
             (e2, Some err) \<Rightarrow> (e2, Inl err)
           | (e2, None) \<Rightarrow>
               (case probeCandidate env e2 (mtuCandidate first lower upper) of
                  (e3, Inl err) \<Rightarrow> (e3, Inl err)
                | (e3, Inr successful) \<Rightarrow>
                    if successful then mtuSearch env e3 (mtuCandidate first lower upper) upper False
                    else mtuSearch env e3 lower (mtuCandidate first lower upper - 1) False)))"
  by pat_completeness auto
termination
  by (relation "measure (\<lambda>(env, e, lower, upper, first). nat (upper - lower) + (if first then 1 else 0))")
    (auto simp: mtuCandidate_def)

declare mtuSearch.simps [simp del]

definition detectAnyConnectDTLSMTU :: "'e probe_env \<Rightarrow> 'e \<Rightarrow> int \<Rightarrow> int \<Rightarrow> 'e \<times> int result" where
  "detectAnyConnectDTLSMTU env e minimum maximum =
     (if minimum \<le> 0 \<or> maximum \<le> minimum then (e, Inr 0)
      else case mtuSearch env e minimum maximum True of
        (e1, r) \<Rightarrow>
          (case clearDeadline env e1 of
             (e2, Some deadlineErr) \<Rightarrow>
               (e2, if isl r then r
                    else Inl (Cause deadlineErr ''clear AnyConnect DTLS MTU probe deadline''))
           | (e2, None) \<Rightarrow> (e2, r)))"

section \<open>Writing and reading records\<close>

lemma writeAll_prefix:
  assumes "honest_writer w out"
  shows "written \<le> length packet \<Longrightarrow> writeAll w s packet written = (s', r) \<Longrightarrow>
     \<exists>k \<le> length packet - written. out s' = out s @ take k (drop written packet) \<and>
       (r = Inr () \<longrightarrow> k = length packet - written)"
proof (induction "length packet - written" arbitrary: s written rule: less_induct)
  case less
  show ?case
  proof (cases "written < length packet")
    case False
    with less.prems show ?thesis by (auto simp: writeAll.simps [of w s])
  next
    case True
    obtain s1 n err where w: "w s (drop written packet) = (s1, n, err)" by (metis surj_pair)
    have h: "0 \<le> n" "n \<le> int (length packet - written)" "out s1 = out s @ take (nat n) (drop written packet)"
      using assms w unfolding honest_writer_def by fastforce+
    have b: "nat n \<le> length packet - written" using h(1,2) by linarith
    show ?thesis
    proof (cases "err = None \<and> 0 < n")
      case False
      with less.prems True w h b show ?thesis
        by (intro exI [of _ "nat n"]) (auto simp: writeAll.simps [of w s] split: option.splits if_splits)
    next
      case pos: True
      with less.prems True w have rec: "writeAll w s1 packet (written + nat n) = (s', r)"
        by (simp add: writeAll.simps [of w s])
      have "length packet - (written + nat n) < length packet - written" "written + nat n \<le> length packet"
        using pos True b by linarith+
      from less.hyps [OF this rec] obtain k where
        k: "k \<le> length packet - (written + nat n)" "out s' = out s1 @ take k (drop (written + nat n) packet)"
          "r = Inr () \<longrightarrow> k = length packet - (written + nat n)" by blast
      show ?thesis
      proof (intro exI [of _ "nat n + k"] conjI impI)
        show "nat n + k \<le> length packet - written" using k(1) b by linarith
        show "out s' = out s @ take (nat n + k) (drop written packet)"
          using h k(2) by (simp add: take_add add.commute [of "nat n" written])
        show "nat n + k = length packet - written" if "r = Inr ()" using k(3) that b by simp
      qed
    qed
  qed
qed

lemma writeCSTPPacket_out:
  assumes "honest_writer w out" "writeCSTPPacket w s t payload = (s', Inr ())"
  shows "out s' = out s @ cstpRecord t payload \<and> length payload \<le> 65535"
proof -
  have "length payload \<le> 65535" "writeAll w s (cstpRecord t payload) 0 = (s', Inr ())"
    using assms(2) by (auto simp: writeCSTPPacket_def writeCSTPPacketBuffer_def split: if_splits)
  with writeAll_prefix [OF assms(1) _ this(2)] show ?thesis by auto
qed

text \<open>Reading one record off a byte sequence.\<close>

definition cstpTake :: "int \<Rightarrow> bytes \<Rightarrow> ((byte \<times> bytes) \<times> bytes) result" where
  "cstpTake limit bs = (case readCSTPPacket \<lparr>stream = bs, final = ioEOF\<rparr> limit of
     (Inl e, r) \<Rightarrow> Inl e | (Inr m, r) \<Rightarrow> Inr (m, stream r))"

definition cstp_fits :: "int \<Rightarrow> byte \<times> bytes \<Rightarrow> bool" where
  "cstp_fits limit m \<longleftrightarrow> length (snd m) \<le> 65535 \<and> (limit > 0 \<longrightarrow> int (length (snd m)) \<le> limit)"

lemma readCSTPPacket_record:
  assumes "cstp_fits limit (t, payload)" "stream r = cstpRecord t payload @ rest"
  shows "readCSTPPacket r limit = (Inr (t, payload), r\<lparr>stream := rest\<rparr>)"
proof -
  let ?h = "cstpPacketMagic @ put_u16 (u16_of (length payload)) @ [t, 0]"
  have m: "length cstpPacketMagic = 4" by (simp add: cstpPacketMagic_def)
  have s: "stream r = ?h @ payload @ rest" using assms(2) by (simp add: cstpRecord_def)
  have h: "readFull r 8 = (Inr ?h, r\<lparr>stream := payload @ rest\<rparr>)"
    by (simp add: readFull_def s m)
  have size: "unat (get_u16 (subslice ?h 4 6)) = length payload"
    using assms(1) by (simp add: subslice_append [OF m [symmetric]] m unat_u16_of cstp_fits_def)
  have "?h ! 6 = t" "?h ! 7 = 0" by (simp_all add: nth_append m)
  moreover have "readFull (r\<lparr>stream := payload @ rest\<rparr>) (length payload) = (Inr payload, r\<lparr>stream := rest\<rparr>)"
    by (simp add: readFull_def)
  ultimately show ?thesis
    using assms(1) h size m by (auto simp: readCSTPPacket_def Let_def cstp_fits_def not_less)
qed

interpretation cstp: record_format "cstp_fits limit" "\<lambda>(t, p). cstpRecord t p" "cstpTake limit" for limit
  by unfold_locales (auto simp: cstpTake_def readCSTPPacket_record split: prod.splits)

text \<open>Writing a list of packets until the first error.\<close>

fun writePackets :: "'w writer \<Rightarrow> 'w \<Rightarrow> (byte \<times> bytes) list \<Rightarrow> 'w \<times> unit result" where
  "writePackets w s [] = (s, Inr ())"
| "writePackets w s ((t, p) # ms) =
     (case writeCSTPPacket w s t p of (s', Inl e) \<Rightarrow> (s', Inl e) | (s', Inr _) \<Rightarrow> writePackets w s' ms)"

lemma writePackets_out:
  assumes "honest_writer w out" "writePackets w s ms = (s', Inr ())"
  shows "out s' = out s @ concat (map (\<lambda>(t, p). cstpRecord t p) ms) \<and> list_all (\<lambda>m. length (snd m) \<le> 65535) ms"
  using assms(2)
proof (induction ms arbitrary: s)
  case (Cons m ms)
  obtain t p where m: "m = (t, p)" by force
  obtain s1 where "writeCSTPPacket w s t p = (s1, Inr ())" "writePackets w s1 ms = (s', Inr ())"
    using Cons.prems by (auto simp: m split: prod.splits sum.splits)
  with writeCSTPPacket_out [OF assms(1)] Cons.IH m show ?case by fastforce
qed simp

section \<open>Timers\<close>

lemma fold_min: "fold (\<lambda>deadline next. if deadline < next then deadline else next) ds (d :: int) = Min (set (d # ds))"
proof (induction ds arbitrary: d)
  case (Cons x ds)
  have "(if x < d then x else d) = min x d" by simp
  moreover have "Min (set (min x d # ds)) = Min (set (d # x # ds))"
    by (cases "ds = []") (auto simp: min.assoc min.commute min.left_commute)
  ultimately show ?case by (simp only: fold_simps Cons.IH)
qed simp

text \<open>Some deadline has passed, or is reached.\<close>

definition due :: "cstpKeepaliveState \<Rightarrow> duration \<Rightarrow> bool" where
  "due s elapsed \<longleftrightarrow> fst (action s elapsed) \<noteq> cstpTimerNone"

lemma due_deadline: "due s elapsed \<Longrightarrow> \<exists>d \<in> set (deadlines s). d \<le> elapsed"
  by (auto simp: due_def action_def deadlines_def split: if_splits intro: less_imp_le
      bexI [where x = "lastReceive s + 2 * dpd s"])

lemma deadline_due: "d \<in> set (deadlines s) \<Longrightarrow> d < elapsed \<Longrightarrow> due s elapsed"
  by (auto simp: due_def action_def deadlines_def split: if_splits)

lemma nextDelay_Min:
  assumes "deadlines s \<noteq> []"
  shows "nextDelay s elapsed = (if Min (set (deadlines s)) \<le> elapsed then 1000000
    else Min (set (deadlines s)) - elapsed)"
  using assms by (cases "deadlines s") (simp_all add: nextDelay_def fold_min Let_def del: Min_insert)

section \<open>The MTU search\<close>

text \<open>
  An environment in which the deadline is never reached, nothing is cancelled, and a probe succeeds
  exactly for the sizes up to a limit.
\<close>

definition threshold_env :: "'e probe_env \<Rightarrow> int \<Rightarrow> bool" where
  "threshold_env env limit \<longleftrightarrow> (\<forall>e. snd (beforeDeadline env e)) \<and> (\<forall>e. snd (ctxErr env e) = None) \<and>
     (\<forall>e n. snd (probeCandidate env e n) = Inr (n \<le> limit)) \<and> (\<forall>e. snd (clearDeadline env e) = None)"

lemma mtuCandidate_bounds: "lower < upper \<Longrightarrow> lower < mtuCandidate first lower upper \<and> mtuCandidate first lower upper \<le> upper"
  by (auto simp: mtuCandidate_def)

text \<open>One round of the search in an environment that answers.\<close>

lemma mtuSearch_round:
  assumes "lower < upper" "beforeDeadline env e = (e1, True)" "ctxErr env e1 = (e2, None)"
    "probeCandidate env e2 (mtuCandidate first lower upper) = (e3, Inr ok)"
  shows "mtuSearch env e lower upper first =
    (if ok then mtuSearch env e3 (mtuCandidate first lower upper) upper False
     else mtuSearch env e3 lower (mtuCandidate first lower upper - 1) False)"
  using assms by (simp add: mtuSearch.simps [of env e lower upper first])

lemma mtuSearch_threshold:
  "threshold_env env limit \<Longrightarrow> lower \<le> limit \<Longrightarrow> limit \<le> upper \<Longrightarrow>
     snd (mtuSearch env e lower upper first) = Inr limit"
proof (induction "nat (upper - lower) + (if first then 1 else 0)" arbitrary: e lower upper first
    rule: less_induct)
  case less
  let ?c = "mtuCandidate first lower upper"
  show ?case
  proof (cases "lower < upper")
    case False
    with less.prems show ?thesis by (simp add: mtuSearch.simps [of env e])
  next
    case True
    note c = mtuCandidate_bounds [OF True, of first]
    obtain e1 e2 e3 where env: "beforeDeadline env e = (e1, True)" "ctxErr env e1 = (e2, None)"
      "probeCandidate env e2 ?c = (e3, Inr (?c \<le> limit))"
      using less.prems(1) unfolding threshold_env_def by (metis prod.collapse)
    have up: "snd (mtuSearch env e3 ?c upper False) = Inr limit" if "?c \<le> limit"
      using less.prems that c True by (intro less.hyps) auto
    have down: "snd (mtuSearch env e3 lower (?c - 1) False) = Inr limit" if "\<not> ?c \<le> limit"
      using less.prems that c True by (intro less.hyps) auto
    show ?thesis using mtuSearch_round [OF True env] up down by simp
  qed
qed

lemma mtuSearch_bounds:
  "lower \<le> upper \<Longrightarrow> snd (mtuSearch env e lower upper first) = Inr m \<Longrightarrow> lower \<le> m \<and> m \<le> upper"
proof (induction "nat (upper - lower) + (if first then 1 else 0)" arbitrary: e lower upper first
    rule: less_induct)
  case less
  let ?c = "mtuCandidate first lower upper"
  show ?case
  proof (cases "lower < upper")
    case False
    with less.prems show ?thesis by (simp add: mtuSearch.simps [of env e])
  next
    case True
    note c = mtuCandidate_bounds [OF True, of first]
    have up: "?c \<le> m \<and> m \<le> upper" if "snd (mtuSearch env e3 ?c upper False) = Inr m" for e3
      using that c True by (intro less.hyps [of upper ?c]) auto
    have down: "lower \<le> m \<and> m \<le> ?c - 1" if "snd (mtuSearch env e3 lower (?c - 1) False) = Inr m" for e3
      using that c True by (intro less.hyps [of "?c - 1" lower]) auto
    from less.prems(2) True c up down show ?thesis
      by (fastforce simp: mtuSearch.simps [of env e lower upper first]
          split: prod.splits option.splits sum.splits bool.splits if_splits)
  qed
qed

section \<open>Properties\<close>

text \<open>When a list of packets was written without an error over any connection that writes what it
  reports, reading that many records from the bytes written returns the same types and payloads in
  order and leaves what follows untouched.\<close>

theorem cstp_roundtrip:
  assumes "honest_writer w out" "writePackets w s ms = (s', Inr ())" "out s = []"
  shows "cstp.dec_many 0 (length ms) (out s' @ rest) = Inr (ms, rest)"
proof -
  from writePackets_out [OF assms(1,2)] assms(3)
  have o: "out s' = concat (map (\<lambda>(t, p). cstpRecord t p) ms)" "list_all (cstp_fits 0) ms"
    by (simp_all add: cstp_fits_def [abs_def])
  show ?thesis unfolding o(1) by (rule cstp.dec_many_enc [OF o(2)])
qed

text \<open>A connection that takes at most three bytes at a time.\<close>

definition slow_writer :: "bytes writer" where
  "slow_writer s bs = (s @ take 3 bs, int (min 3 (length bs)), None)"

lemma slow_writer_honest: "honest_writer slow_writer id"
  by (auto simp: honest_writer_def slow_writer_def min_def)

theorem cstp_roundtrip_witness:
  "case writePackets slow_writer [] [(0, [9, 8]), (7, [])] of (s', r) \<Rightarrow>
     r = Inr () \<and> cstp.dec_many 0 2 (s' @ [1]) = Inr ([(0, [9, 8]), (7, [])], [1])"
proof -
  obtain s' where "writePackets slow_writer [] [(0, [9, 8]), (7, [])] = (s', Inr ())"
    by (simp add: writeCSTPPacket_def writeCSTPPacketBuffer_def cstpRecord_def cstpPacketMagic_def put_u16_def
        writeAll.simps slow_writer_def)
  with cstp_roundtrip [OF slow_writer_honest this, of "[1]"] show ?thesis by (simp add: numeral_2_eq_2)
qed

text \<open>The timer loop sleeps exactly long enough: if nothing is due now, nothing becomes due before
  the wake-up that \<open>nextDelay\<close> asks for, up to the millisecond it waits at least; and just after the
  wake-up something is due, whenever any timer is configured.\<close>

theorem keepalive_wakeup:
  assumes "fst (action s now) = cstpTimerNone" "deadlines s \<noteq> []"
  shows "(now \<le> t \<and> t + 1000000 \<le> now + nextDelay s now \<longrightarrow> fst (action s t) = cstpTimerNone) \<and>
    fst (action s (now + nextDelay s now + 1)) \<noteq> cstpTimerNone"
proof
  let ?m = "Min (set (deadlines s))"
  have mem: "?m \<in> set (deadlines s)" using assms(2) by (intro Min_in) auto
  note next_delay = nextDelay_Min [OF assms(2), of now]
  show "now \<le> t \<and> t + 1000000 \<le> now + nextDelay s now \<longrightarrow> fst (action s t) = cstpTimerNone"
  proof
    assume t: "now \<le> t \<and> t + 1000000 \<le> now + nextDelay s now"
    show "fst (action s t) = cstpTimerNone"
    proof (cases "?m \<le> now")
      case True
      with t next_delay have "t = now" by simp
      with assms(1) show ?thesis by simp
    next
      case False
      with t next_delay have "t < ?m" by simp
      then have "\<not> due s t" using due_deadline [of s t] Min_le [of "set (deadlines s)"] by fastforce
      then show ?thesis by (simp add: due_def)
    qed
  qed
  have "?m < now + nextDelay s now + 1" using next_delay by simp
  from deadline_due [OF mem this] show "fst (action s (now + nextDelay s now + 1)) \<noteq> cstpTimerNone"
    by (simp add: due_def)
qed

theorem keepalive_wakeup_witness:
  "let s = newCSTPKeepaliveState 30 20 0 cstpRekeyNone in
     fst (action s 5) = cstpTimerNone \<and> fst (action s (5 + nextDelay s 5 + 1)) = cstpTimerKeepalive"
  using keepalive_wakeup [of "newCSTPKeepaliveState 30 20 0 cstpRekeyNone" 5 5]
  by (simp add: newCSTPKeepaliveState_def action_def deadlines_def nextDelay_def dpdDue_def)

text \<open>The path-MTU search returns, against a path that passes exactly the sizes up to a limit
  between the two bounds, that limit; and whatever the probes, the clock and the context do, a
  result it returns lies between the bounds.\<close>

theorem mtu_search_correct:
  assumes "0 < minimum" "minimum < maximum"
  shows "(threshold_env env limit \<and> minimum \<le> limit \<and> limit \<le> maximum \<longrightarrow>
      snd (detectAnyConnectDTLSMTU env e minimum maximum) = Inr limit) \<and>
    (snd (detectAnyConnectDTLSMTU env e minimum maximum) = Inr m \<longrightarrow> minimum \<le> m \<and> m \<le> maximum)"
proof -
  obtain e1 r where s: "mtuSearch env e minimum maximum True = (e1, r)" by force
  obtain e2 d where c: "clearDeadline env e1 = (e2, d)" by force
  have "r = Inr limit \<and> d = None" if "threshold_env env limit" "minimum \<le> limit" "limit \<le> maximum"
    using mtuSearch_threshold [OF that, of e True] s c that(1) unfolding threshold_env_def by (metis snd_conv)
  moreover have "minimum \<le> m \<and> m \<le> maximum" if "r = Inr m"
    using mtuSearch_bounds [of minimum maximum env e True m] s that assms by simp
  ultimately show ?thesis
    using assms s c by (auto simp: detectAnyConnectDTLSMTU_def split: option.splits if_splits)
qed

definition steady_env :: "unit probe_env" where
  "steady_env = \<lparr>beforeDeadline = (\<lambda>e. (e, True)), ctxErr = (\<lambda>e. (e, None)),
     probeCandidate = (\<lambda>e n. (e, Inr (n \<le> 1373))), clearDeadline = (\<lambda>e. (e, None))\<rparr>"

theorem mtu_search_correct_witness:
  "snd (detectAnyConnectDTLSMTU steady_env () 1280 1400) = Inr 1373"
  using mtu_search_correct [of 1280 1400 steady_env 1373]
  by (simp add: threshold_env_def steady_env_def)

end
