(* ===== verification/Ppp_Frame.thy ===== *)
theory Ppp_Frame
  imports Framing
begin

text \<open>
  PPP framing of \<^verbatim>\<open>ppp_frame.go\<close>: the F5, Fortinet and HDLC-like encapsulations, the frame check
  sequence and the incremental decoder. The three decoders are instances of \<open>stream_decoder\<close>.
\<close>

section \<open>Definitions\<close>

datatype pppEncapsulation =
    pppEncapsulationF5
  | pppEncapsulationF5HDLC
  | pppEncapsulationFortinet
  | pppEncapsulationOther byte

definition pppF5Magic :: u16 where "pppF5Magic = 0xf500"
definition pppFortinetMagic :: u16 where "pppFortinetMagic = 0x5050"
definition pppHDLCFlag :: byte where "pppHDLCFlag = 0x7e"
definition pppHDLCEscape :: byte where "pppHDLCEscape = 0x7d"
definition pppHDLCInitialFCS :: u16 where "pppHDLCInitialFCS = 0xffff"
definition pppHDLCGoodFCS :: u16 where "pppHDLCGoodFCS = 0xf0b8"
definition pppMaximumPayloadLength :: nat where "pppMaximumPayloadLength = 65535"
definition pppMaximumWireFrameSize :: nat where
  "pppMaximumWireFrameSize = 2 * pppMaximumPayloadLength + 6"
definition pppHDLCControlEscapeMask :: u32 where "pppHDLCControlEscapeMask = 0xffffffff"

subsection \<open>Frame check sequence\<close>

definition fcsShift :: "u16 \<Rightarrow> u16" where
  "fcsShift fcs = (if fcs AND 1 \<noteq> 0 then drop_bit 1 fcs XOR 0x8408 else drop_bit 1 fcs)"

definition updatePPPHDLCFCS :: "u16 \<Rightarrow> byte \<Rightarrow> u16" where
  "updatePPPHDLCFCS fcs v = (fcsShift ^^ 8) (fcs XOR ucast v)"

definition fcsOf :: "bytes \<Rightarrow> u16" where
  "fcsOf bs = fold (\<lambda>v fcs. updatePPPHDLCFCS fcs v) bs pppHDLCInitialFCS"

subsection \<open>Encoding\<close>

definition appendPPPHDLCByte :: "bytes \<Rightarrow> byte \<Rightarrow> u32 \<Rightarrow> bytes" where
  "appendPPPHDLCByte destination v asyncMap =
     (let needsEscape = (v = pppHDLCEscape \<or> v = pppHDLCFlag \<or>
                         v < 0x20 \<and> asyncMap AND push_bit (unat v) 1 \<noteq> 0)
      in if needsEscape then destination @ [pppHDLCEscape, v XOR 0x20] else destination @ [v])"

definition encodePPPHDLCFrame :: "bytes \<Rightarrow> u32 \<Rightarrow> bytes" where
  "encodePPPHDLCFrame payload asyncMap =
     (let fcs = fcsOf payload XOR 0xffff;
          content = fold (\<lambda>v content. appendPPPHDLCByte content v asyncMap) payload [pppHDLCFlag];
          content = appendPPPHDLCByte content (ucast fcs) asyncMap;
          content = appendPPPHDLCByte content (ucast (drop_bit 8 fcs)) asyncMap
      in content @ [pppHDLCFlag])"

definition encodePPPFrame :: "pppEncapsulation \<Rightarrow> bytes \<Rightarrow> u32 \<Rightarrow> bytes result" where
  "encodePPPFrame encapsulation payload asyncMap =
     (if length payload = 0 \<or> length payload > pppMaximumPayloadLength
      then Inl (New ''invalid PPP payload length'')
      else case encapsulation of
        pppEncapsulationF5 \<Rightarrow> Inr (put_u16 pppF5Magic @ put_u16 (u16_of (length payload)) @ payload)
      | pppEncapsulationF5HDLC \<Rightarrow> Inr (encodePPPHDLCFrame payload asyncMap)
      | pppEncapsulationFortinet \<Rightarrow>
          if length payload > pppMaximumPayloadLength - 6
          then Inl (New ''PPP payload exceeds frame length field'')
          else Inr (put_u16 (u16_of (6 + length payload)) @ put_u16 pppFortinetMagic @
                    put_u16 (u16_of (length payload)) @ payload)
      | pppEncapsulationOther _ \<Rightarrow> Inl (Extend (Sentinel ErrProtocolNotSupported) ''PPP encapsulation''))"

subsection \<open>Decoding\<close>

text \<open>Each decoder returns what is left pending, also when it fails, and the frames or the error.\<close>

type_synonym drained = "bytes \<times> bytes list result"

definition withFrame :: "bytes list \<Rightarrow> drained \<Rightarrow> drained" where
  "withFrame fs d = (fst d, map_sum id ((@) fs) (snd d))"

function decodeF5 :: "bytes \<Rightarrow> drained" where
  "decodeF5 pending =
     (if length pending \<ge> 4 then
        if get_u16 (take 2 pending) \<noteq> pppF5Magic
        then (pending, Inl (New ''invalid F5 PPP frame magic''))
        else
          let payloadLength = unat (get_u16 (subslice pending 2 4));
              frameLength = 4 + payloadLength
          in if length pending < frameLength then (pending, Inr [])
             else withFrame (if payloadLength > 0 then [subslice pending 4 frameLength] else [])
                    (decodeF5 (drop frameLength pending))
      else (pending, Inr []))"
  by pat_completeness auto
termination
  by (relation "measure length") auto

function decodeFortinet :: "bytes \<Rightarrow> drained" where
  "decodeFortinet pending =
     (if length pending \<ge> 6 then
        let totalLength = unat (get_u16 (take 2 pending)) in
        if get_u16 (subslice pending 2 4) \<noteq> pppFortinetMagic
        then (pending, Inl (New ''invalid Fortinet PPP frame magic''))
        else
          let payloadLength = unat (get_u16 (subslice pending 4 6)) in
          if totalLength \<noteq> payloadLength + 6
          then (pending, Inl (New ''invalid Fortinet PPP frame length''))
          else if length pending < totalLength then (pending, Inr [])
          else withFrame (if payloadLength > 0 then [subslice pending 6 totalLength] else [])
                 (decodeFortinet (drop totalLength pending))
      else (pending, Inr []))"
  by pat_completeness auto
termination
  by (relation "measure length") auto

text \<open>Removing the escapes: the bytes, and whether the input ended inside an escape.\<close>

fun unescape :: "bool \<Rightarrow> bytes \<Rightarrow> bytes \<times> bool" where
  "unescape escaped [] = ([], escaped)"
| "unescape True (v # vs) = apfst ((#) (v XOR 0x20)) (unescape False vs)"
| "unescape False (v # vs) =
     (if v = pppHDLCEscape then unescape True vs else apfst ((#) v) (unescape False vs))"

definition decodePPPHDLCFrameBuffer :: "bytes \<Rightarrow> bytes option" where
  "decodePPPHDLCFrameBuffer encoded =
     (case unescape False encoded of
        (decoded, escaped) \<Rightarrow>
          if escaped then None
          else if length decoded < 3 then None
          else if fcsOf decoded \<noteq> pppHDLCGoodFCS then None
          else Some (take (length decoded - 2) decoded))"

text \<open>
  Leading flags are skipped; the next flag ends the frame and stays pending. The loop variables
  \<open>start\<close> and \<open>end\<close> are the lengths of the two prefixes.
\<close>

function decodeHDLC :: "bytes \<Rightarrow> drained" where
  "decodeHDLC pending =
     (if pending = [] then ([], Inr [])
      else
        let start = length (takeWhile (\<lambda>b. b = pppHDLCFlag) pending) in
        if start = length pending then ([pppHDLCFlag], Inr [])
        else
          let endOffset = length (takeWhile (\<lambda>b. b \<noteq> pppHDLCFlag) (drop start pending)) in
          if endOffset = length (drop start pending) then (pending, Inr [])
          else withFrame (case decodePPPHDLCFrameBuffer (subslice pending start (start + endOffset)) of
                            None \<Rightarrow> [] | Some frame \<Rightarrow> [frame])
                 (decodeHDLC (drop (start + endOffset) pending)))"
  by pat_completeness auto
termination
proof (relation "measure length", simp)
  fix pending :: bytes and start endOffset
  assume ne: "pending \<noteq> []" and s: "start = length (takeWhile (\<lambda>b. b = pppHDLCFlag) pending)"
    "start \<noteq> length pending"
    and e: "endOffset = length (takeWhile (\<lambda>b. b \<noteq> pppHDLCFlag) (drop start pending))"
  have "start < length pending" using s length_takeWhile_le [of "\<lambda>b. b = pppHDLCFlag" pending] by linarith
  then have "pending ! start \<noteq> pppHDLCFlag"
    using nth_length_takeWhile [of "\<lambda>b. b = pppHDLCFlag" pending] s(1) by simp
  moreover have "drop start pending = pending ! start # drop (Suc start) pending"
    using \<open>start < length pending\<close> by (simp add: Cons_nth_drop_Suc)
  ultimately have "0 < endOffset" by (simp add: e)
  then show "(drop (start + endOffset) pending, pending) \<in> measure length" using ne by simp
qed

declare decodeF5.simps [simp del] decodeFortinet.simps [simp del] decodeHDLC.simps [simp del]

record pppFrameDecoder =
  encapsulation :: pppEncapsulation
  pending :: bytes

definition newPPPFrameDecoder :: "pppEncapsulation \<Rightarrow> pppFrameDecoder result" where
  "newPPPFrameDecoder e =
     (case e of
        pppEncapsulationOther _ \<Rightarrow> Inl (Extend (Sentinel ErrProtocolNotSupported) ''PPP encapsulation'')
      | _ \<Rightarrow> Inr \<lparr>encapsulation = e, pending = []\<rparr>)"

definition Push :: "pppFrameDecoder \<Rightarrow> bytes \<Rightarrow> pppFrameDecoder \<times> bytes list result" where
  "Push d content =
     (if length content = 0 then (d, Inr [])
      else if length (pending d) + length content > pppMaximumWireFrameSize
      then (d, Inl (New ''PPP receive buffer exceeds maximum wire frame size''))
      else
        let collected = pending d @ content;
            (rest, r) = (case encapsulation d of
                pppEncapsulationF5 \<Rightarrow> decodeF5 collected
              | pppEncapsulationF5HDLC \<Rightarrow> decodeHDLC collected
              | pppEncapsulationFortinet \<Rightarrow> decodeFortinet collected
              | pppEncapsulationOther _ \<Rightarrow>
                  (collected, Inl (Extend (Sentinel ErrProtocolNotSupported) ''PPP encapsulation'')))
        in (d\<lparr>pending := rest\<rparr>, r))"

definition Discard :: "pppFrameDecoder \<Rightarrow> pppFrameDecoder \<times> nat" where
  "Discard d = (d\<lparr>pending := []\<rparr>, length (pending d))"

section \<open>The frame check sequence\<close>

lemma fcsShift_odd: "fcsShift f = drop_bit 1 f XOR (if bit f 0 then 0x8408 else 0)"
  by (auto simp: fcsShift_def bit_0 and_one_eq even_iff_mod_2_eq_zero)

lemma fcsShift_xor: "fcsShift (a XOR b) = fcsShift a XOR fcsShift b"
  by (auto simp: fcsShift_odd bit_xor_iff xor.assoc xor.left_commute xor.commute drop_bit_xor)

lemma fcsShift_pow_xor: "(fcsShift ^^ n) (a XOR b) = (fcsShift ^^ n) a XOR (fcsShift ^^ n) b"
  by (induction n) (simp_all add: fcsShift_xor)

lemma fcsShift_push: "k < 8 \<Longrightarrow> fcsShift (push_bit (Suc k) (ucast (h :: byte))) = push_bit k (ucast h)"
  unfolding fcsShift_odd by (rule bit_word_eqI) (auto simp: bit_simps simp del: push_bit_Suc One_nat_def dest: bit_imp_le_length)

lemma fcsShift_pow_push: "k \<le> 8 \<Longrightarrow> (fcsShift ^^ k) (push_bit k (ucast (h :: byte))) = ucast h"
  by (induction k) (simp_all add: fcsShift_push funpow_swap1 del: push_bit_Suc)

lemma fcsShift_constants: "(fcsShift ^^ 8) 0xff = 0x0f78" "(fcsShift ^^ 8) 0x0f87 = 0xf0b8"
  by code_simp+

lemma fcs_masks: "(0xffff :: u16) = mask 16" "(0xff :: u16) = mask 8"
  by (simp_all add: mask_eq_exp_minus_1)

lemma fcs_low: "f XOR ucast (ucast (f XOR 0xffff) :: byte) =
    push_bit 8 (ucast (ucast (drop_bit 8 f) :: byte)) XOR (0xff :: u16)"
  unfolding fcs_masks by (rule bit_word_eqI) (auto simp: bit_simps)

lemma fcs_high: "ucast (ucast (drop_bit 8 (f :: u16)) :: byte) XOR ucast (ucast (drop_bit 8 (f XOR 0xffff)) :: byte) = (0xff :: u16)"
  unfolding fcs_masks by (rule bit_word_eqI) (auto simp: bit_simps)

text \<open>Appending the complement of the check sequence, low byte first, gives the good value.\<close>

lemma fcsOf_good:
  "fcsOf (payload @ [ucast (fcsOf payload XOR 0xffff), ucast (drop_bit 8 (fcsOf payload XOR 0xffff))])
     = pppHDLCGoodFCS"
proof -
  define f where "f = fcsOf payload"
  let ?h = "ucast (ucast (drop_bit 8 f) :: byte) :: u16"
  have "updatePPPHDLCFCS f (ucast (f XOR 0xffff)) = ?h XOR 0x0f78"
    unfolding updatePPPHDLCFCS_def fcs_low fcsShift_pow_xor fcsShift_constants
    by (simp add: fcsShift_pow_push)
  moreover have "(?h XOR 0x0f78) XOR ucast (ucast (drop_bit 8 (f XOR 0xffff)) :: byte) = 0x0f87"
  proof -
    have "(?h XOR 0x0f78) XOR ucast (ucast (drop_bit 8 (f XOR 0xffff)) :: byte) =
        (?h XOR ucast (ucast (drop_bit 8 (f XOR 0xffff)) :: byte)) XOR 0x0f78"
      by (simp only: xor.assoc xor.commute xor.left_commute)
    then show ?thesis unfolding fcs_high by simp
  qed
  then have "updatePPPHDLCFCS (?h XOR 0x0f78) (ucast (drop_bit 8 (f XOR 0xffff))) = 0xf0b8"
    by (simp only: updatePPPHDLCFCS_def fcsShift_constants)
  ultimately show ?thesis
    unfolding f_def [symmetric] by (simp only: fcsOf_def fold_append fold_simps o_apply pppHDLCGoodFCS_def
        f_def [unfolded fcsOf_def, symmetric])
qed

section \<open>Escaping\<close>

definition escapeByte :: "u32 \<Rightarrow> byte \<Rightarrow> bytes" where
  "escapeByte asyncMap v = appendPPPHDLCByte [] v asyncMap"

definition escapeAll :: "u32 \<Rightarrow> bytes \<Rightarrow> bytes" where
  "escapeAll asyncMap bs = concat (map (escapeByte asyncMap) bs)"

lemma appendPPPHDLCByte_escape: "appendPPPHDLCByte d v m = d @ escapeByte m v"
  by (simp add: escapeByte_def appendPPPHDLCByte_def Let_def)

lemma fold_appendPPPHDLCByte:
  "fold (\<lambda>v content. appendPPPHDLCByte content v m) bs d = d @ escapeAll m bs"
  by (induction bs arbitrary: d) (simp_all add: appendPPPHDLCByte_escape escapeAll_def)

lemma xor_20: "(v :: byte) XOR 0x20 = c \<longleftrightarrow> v = c XOR 0x20"
  by (metis xor.assoc xor_self_eq xor.right_neutral)

lemma escapeByte_noflag: "pppHDLCFlag \<notin> set (escapeByte m v)"
  by (auto simp: escapeByte_def appendPPPHDLCByte_def Let_def pppHDLCFlag_def pppHDLCEscape_def
      eq_commute [of _ "_ XOR 0x20"] xor_20)

lemma unescape_escapeByte: "unescape False (escapeByte m v @ rest) = apfst ((#) v) (unescape False rest)"
  by (simp add: escapeByte_def appendPPPHDLCByte_def Let_def pppHDLCEscape_def xor.assoc)

lemma unescape_escapeAll: "unescape False (escapeAll m bs @ rest) = apfst ((@) bs) (unescape False rest)"
proof (induction bs)
  case (Cons b bs)
  then show ?case by (cases "unescape False rest") (simp add: escapeAll_def unescape_escapeByte)
qed (cases "unescape False rest", simp add: escapeAll_def)

lemma escapeAll_noflag: "pppHDLCFlag \<notin> set (escapeAll m bs)"
  using escapeByte_noflag by (auto simp: escapeAll_def)

text \<open>The bytes between the two flags.\<close>

definition hdlcBody :: "u32 \<Rightarrow> bytes \<Rightarrow> bytes" where
  "hdlcBody m payload = escapeAll m
     (payload @ [ucast (fcsOf payload XOR 0xffff), ucast (drop_bit 8 (fcsOf payload XOR 0xffff))])"

lemma encodePPPHDLCFrame_body: "encodePPPHDLCFrame payload m = pppHDLCFlag # hdlcBody m payload @ [pppHDLCFlag]"
  unfolding encodePPPHDLCFrame_def Let_def fold_appendPPPHDLCByte
  by (simp add: hdlcBody_def appendPPPHDLCByte_escape escapeAll_def)

lemma escapeByte_length: "1 \<le> length (escapeByte m v)" "length (escapeByte m v) \<le> 2"
  by (auto simp: escapeByte_def appendPPPHDLCByte_def Let_def)

lemma escapeAll_length: "length bs \<le> length (escapeAll m bs)" "length (escapeAll m bs) \<le> 2 * length bs"
proof -
  have "length bs \<le> length (escapeAll m bs) \<and> length (escapeAll m bs) \<le> 2 * length bs"
  proof (induction bs)
    case (Cons b bs)
    then show ?case using escapeByte_length [of m b] by (simp add: escapeAll_def)
  qed (simp add: escapeAll_def)
  then show "length bs \<le> length (escapeAll m bs)" "length (escapeAll m bs) \<le> 2 * length bs" by simp_all
qed

lemma decode_hdlcBody:
  assumes "payload \<noteq> []"
  shows "decodePPPHDLCFrameBuffer (hdlcBody m payload) = Some payload"
  using unescape_escapeAll [of m "payload @ [ucast (fcsOf payload XOR 0xffff),
      ucast (drop_bit 8 (fcsOf payload XOR 0xffff))]" "[]"] fcsOf_good [of payload] assms
  by (cases payload) (auto simp: decodePPPHDLCFrameBuffer_def hdlcBody_def)

section \<open>Incremental decoding\<close>

definition drained :: "drained \<Rightarrow> (bytes list \<times> bytes) result" where
  "drained d = map_sum id (\<lambda>fs. (fs, fst d)) (snd d)"

lemma drained_withFrame [simp]: "drained (withFrame fs d) = prepend fs (drained d)"
  by (cases "snd d") (simp_all add: drained_def withFrame_def prepend_def)

lemma drained_simps [simp]: "drained (p, Inr fs) = Inr (fs, p)" "drained (p, Inl e) = Inl e"
  by (simp_all add: drained_def)

lemma prepend_eq_Inr: "prepend fs r = Inr (gs, rest) \<longleftrightarrow> (\<exists>hs. r = Inr (hs, rest) \<and> gs = fs @ hs)"
  by (cases r) auto

lemma take_subslice_append:
  "j \<le> length xs \<Longrightarrow> subslice (xs @ ys) i j = subslice xs i j" "n \<le> length xs \<Longrightarrow> take n (xs @ ys) = take n xs"
  "n \<le> length xs \<Longrightarrow> drop n (xs @ ys) = drop n xs @ ys"
  by (simp_all add: subslice_def)

lemma decodeF5_append:
  "drained (decodeF5 xs) = Inr (fs, rest) \<Longrightarrow>
     drained (decodeF5 (xs @ ys)) = prepend fs (drained (decodeF5 (rest @ ys)))"
proof (induction xs arbitrary: fs rule: decodeF5.induct)
  case (1 xs)
  let ?n = "4 + unat (get_u16 (subslice xs 2 4))"
  consider "length xs < 4" | "4 \<le> length xs" "get_u16 (take 2 xs) \<noteq> pppF5Magic"
    | (short) "4 \<le> length xs" "get_u16 (take 2 xs) = pppF5Magic" "length xs < ?n"
    | (frame) "4 \<le> length xs" "get_u16 (take 2 xs) = pppF5Magic" "?n \<le> length xs"
    by linarith
  then show ?case
  proof cases
    case frame
    from 1(2) frame obtain gs where g: "drained (decodeF5 (drop ?n xs)) = Inr (gs, rest)"
        "fs = (if 0 < unat (get_u16 (subslice xs 2 4)) then [subslice xs 4 ?n] else []) @ gs"
      by (auto simp: decodeF5.simps [of xs] Let_def prepend_eq_Inr)
    from 1(1) [OF frame(1) _ refl refl _ g(1)] frame
    have "drained (decodeF5 (drop ?n xs @ ys)) = prepend gs (drained (decodeF5 (rest @ ys)))" by auto
    with frame g(2) show ?thesis
      by (simp add: decodeF5.simps [of "xs @ ys"] Let_def take_subslice_append)
  qed (use 1(2) in \<open>auto simp: decodeF5.simps [of xs]\<close>)
qed

lemma decodeFortinet_append:
  "drained (decodeFortinet xs) = Inr (fs, rest) \<Longrightarrow>
     drained (decodeFortinet (xs @ ys)) = prepend fs (drained (decodeFortinet (rest @ ys)))"
proof (induction xs arbitrary: fs rule: decodeFortinet.induct)
  case (1 xs)
  let ?n = "unat (get_u16 (take 2 xs))" and ?p = "unat (get_u16 (subslice xs 4 6))"
  show ?case
  proof (cases "6 \<le> length xs \<and> get_u16 (subslice xs 2 4) = pppFortinetMagic \<and> ?n = ?p + 6 \<and> ?n \<le> length xs")
    case True
    from 1(2) True obtain gs where g: "drained (decodeFortinet (drop ?n xs)) = Inr (gs, rest)"
        "fs = (if 0 < ?p then [subslice xs 6 ?n] else []) @ gs"
      by (auto simp: decodeFortinet.simps [of xs] Let_def prepend_eq_Inr)
    have "drained (decodeFortinet (drop ?n xs @ ys)) = prepend gs (drained (decodeFortinet (rest @ ys)))"
      using 1(1) [OF _ refl _ refl _ _ g(1)] True by auto
    with True g(2) show ?thesis
      by (simp add: decodeFortinet.simps [of "xs @ ys"] Let_def take_subslice_append)
  next
    case False
    with 1(2) have "fs = []" "rest = xs" by (auto simp: decodeFortinet.simps [of xs] Let_def split: if_splits)
    then show ?thesis by simp
  qed
qed

subsection \<open>HDLC\<close>

abbreviation flag :: "byte \<Rightarrow> bool" where "flag b \<equiv> b = pppHDLCFlag"
abbreviation noflag :: "byte \<Rightarrow> bool" where "noflag b \<equiv> b \<noteq> pppHDLCFlag"

definition hdlcFrames :: "bytes \<Rightarrow> bytes list" where
  "hdlcFrames encoded = (case decodePPPHDLCFrameBuffer encoded of None \<Rightarrow> [] | Some frame \<Rightarrow> [frame])"

lemma takeWhile_length_split:
  "length (takeWhile P xs) = length xs \<longleftrightarrow> dropWhile P xs = []"
proof -
  have "length (takeWhile P xs) + length (dropWhile P xs) = length xs"
    by (metis takeWhile_dropWhile_id length_append)
  then show ?thesis by (simp only: length_0_conv [symmetric]) linarith
qed

text \<open>The decoder depends on its input only through what follows the leading flags.\<close>

lemma decodeHDLC_unfold:
  assumes "p \<noteq> []"
  shows "decodeHDLC p =
    (let d = dropWhile flag p in
     if d = [] then ([pppHDLCFlag], Inr [])
     else if list_all noflag d then (p, Inr [])
     else withFrame (hdlcFrames (takeWhile noflag d)) (decodeHDLC (dropWhile noflag d)))"
proof -
  let ?s = "length (takeWhile flag p)" and ?d = "dropWhile flag p"
  have d: "drop ?s p = ?d" by (simp add: dropWhile_eq_drop)
  have e: "length (takeWhile noflag ?d) = length ?d \<longleftrightarrow> list_all noflag ?d"
    using takeWhile_length_split [of noflag ?d] by (simp add: list_all_iff) 
  have s: "?s = length p \<longleftrightarrow> ?d = []"
    using takeWhile_length_split [of flag p] by simp
  have sub: "subslice p ?s (?s + length (takeWhile noflag ?d)) = takeWhile noflag ?d"
    by (simp add: subslice_def d takeWhile_eq_take [symmetric])
  have rest: "drop (?s + length (takeWhile noflag ?d)) p = dropWhile noflag ?d"
    using drop_drop [of "length (takeWhile noflag ?d)" ?s p] d
    by (simp add: add.commute dropWhile_eq_drop [of noflag ?d])
  show ?thesis
    using assms by (simp add: decodeHDLC.simps [of p] Let_def d e s sub rest hdlcFrames_def)
qed

definition hdlcSame :: "bytes \<Rightarrow> bytes \<Rightarrow> bool" where
  "hdlcSame p q \<longleftrightarrow> p = q \<or> p \<noteq> [] \<and> q \<noteq> [] \<and> flag (hd p) \<and> flag (hd q) \<and> dropWhile flag p = dropWhile flag q"

lemma hdlcSame_refl [simp]: "hdlcSame p p"
  by (simp add: hdlcSame_def)

lemma decodeHDLC_same:
  assumes "hdlcSame p q"
  shows "like hdlcSame (drained (decodeHDLC p)) (drained (decodeHDLC q))"
proof (cases "p = q")
  case True
  then show ?thesis by (auto intro: like_refl simp: hdlcSame_def)
next
  case False
  with assms have ne: "p \<noteq> []" "q \<noteq> []" "dropWhile flag p = dropWhile flag q" by (auto simp: hdlcSame_def)
  have refl: "like hdlcSame r r" for r :: "(bytes list \<times> bytes) result" by (rule like_refl) (simp add: hdlcSame_def)
  show ?thesis
    using assms unfolding decodeHDLC_unfold [OF ne(1)] decodeHDLC_unfold [OF ne(2)] ne(3)
    by (auto simp: Let_def refl like_Inr)
qed

lemma dropWhile_append_flag:
  "list_all flag xs \<Longrightarrow> dropWhile flag (xs @ ys) = dropWhile flag ys"
  by (induction xs) auto

lemma decodeHDLC_append:
  "drained (decodeHDLC xs) = Inr (fs, rest) \<Longrightarrow>
     like hdlcSame (drained (decodeHDLC (xs @ ys))) (prepend fs (drained (decodeHDLC (rest @ ys))))"
proof (induction "length xs" arbitrary: xs fs rule: less_induct)
  case less
  let ?d = "dropWhile flag xs"
  have refl: "like hdlcSame r r" for r :: "(bytes list \<times> bytes) result" by (rule like_refl) (simp add: hdlcSame_def)
  consider (empty) "xs = []" | (flags) "xs \<noteq> []" "?d = []" | (partial) "xs \<noteq> []" "?d \<noteq> []" "list_all noflag ?d"
    | (frame) "xs \<noteq> []" "?d \<noteq> []" "\<not> list_all noflag ?d" by blast
  then show ?case
  proof cases
    case empty
    with less.prems show ?thesis by (simp add: decodeHDLC.simps [of "[]"] refl)
  next
    case flags
    then have "list_all flag xs" by (auto simp: list_all_iff)
    then have "hdlcSame (xs @ ys) ([pppHDLCFlag] @ ys)"
      using flags(1) by (cases xs) (auto simp: hdlcSame_def dropWhile_append_flag)
    from decodeHDLC_same [OF this] less.prems flags show ?thesis
      by (auto simp: decodeHDLC_unfold [of xs])
  next
    case partial
    then have "decodeHDLC xs = (xs, Inr [])" by (auto simp: decodeHDLC_unfold [of xs] Let_def)
    with less.prems show ?thesis by (auto simp: refl)
  next
    case frame
    let ?r = "dropWhile noflag ?d"
    obtain gs where g: "drained (decodeHDLC ?r) = Inr (gs, rest)" "fs = hdlcFrames (takeWhile noflag ?d) @ gs"
    proof -
      have "decodeHDLC xs = withFrame (hdlcFrames (takeWhile noflag ?d)) (decodeHDLC ?r)"
        unfolding decodeHDLC_unfold [OF frame(1)] Let_def by (simp only: frame(2,3) if_False)
      with less.prems that show thesis by (auto simp: prepend_eq_Inr)
    qed
    have "noflag (hd ?d)" using frame(2) hd_dropWhile by blast
    then have "length ?r < length ?d" using frame(2) by (cases ?d) (auto intro: le_imp_less_Suc length_dropWhile_le)
    then have "length ?r < length xs" using length_dropWhile_le [of flag xs] by linarith
    note IH = less.hyps [OF this g(1)]
    have fl: "\<exists>x \<in> set ?d. flag x" using frame(3) by (auto simp: list_all_iff)
    have "dropWhile flag (xs @ ys) = ?d @ ys" using frame(2) by (auto simp: dropWhile_append1)
    moreover have "takeWhile noflag (?d @ ys) = takeWhile noflag ?d" "dropWhile noflag (?d @ ys) = ?r @ ys"
      using fl by (auto simp: takeWhile_append1 dropWhile_append1)
    moreover have "\<not> list_all noflag (?d @ ys)" "?d @ ys \<noteq> []" using frame by simp_all
    ultimately have "drained (decodeHDLC (xs @ ys)) = prepend (hdlcFrames (takeWhile noflag ?d)) (drained (decodeHDLC (?r @ ys)))"
      using frame(1) by (subst decodeHDLC_unfold) (simp_all only: Let_def if_False drained_withFrame append_is_Nil_conv simp_thms)
    with like_prepend [OF IH, of "hdlcFrames (takeWhile noflag ?d)"] g(2) show ?thesis by simp
  qed
qed

subsection \<open>Remainders and errors\<close>

lemma withFrame_fst [simp]: "fst (withFrame fs d) = fst d" "snd (withFrame fs d) = map_sum id ((@) fs) (snd d)"
  by (simp_all add: withFrame_def)

lemma drained_fst: "drained d = Inr (fs, rest) \<Longrightarrow> rest = fst d"
  by (cases "snd d") (auto simp: drained_def)

lemma decodeF5_length: "length (fst (decodeF5 xs)) \<le> length xs"
proof (induction "length xs" arbitrary: xs rule: less_induct)
  case less
  show ?case by (auto simp: decodeF5.simps [of xs] Let_def intro!: order_trans [OF less.hyps])
qed

lemma decodeFortinet_length: "length (fst (decodeFortinet xs)) \<le> length xs"
proof (induction "length xs" arbitrary: xs rule: less_induct)
  case less
  show ?case by (auto simp: decodeFortinet.simps [of xs] Let_def intro!: order_trans [OF less.hyps])
qed

lemma decodeHDLC_length: "length (fst (decodeHDLC xs)) \<le> length xs"
proof (induction xs rule: decodeHDLC.induct)
  case (1 xs)
  show ?case
  proof (cases "xs = []")
    case False
    have "length (fst (decodeHDLC (drop n xs))) \<le> length xs" if "length (fst (decodeHDLC (drop n xs))) \<le> length (drop n xs)" for n
      using that by simp
    with 1 False show ?thesis by (simp add: decodeHDLC.simps [of xs] Let_def Suc_le_eq)
  qed (simp add: decodeHDLC.simps [of "[]"])
qed

lemma decodeHDLC_succeeds: "\<not> isl (snd (decodeHDLC xs))"
proof (induction xs rule: decodeHDLC.induct)
  case (1 xs)
  have [simp]: "isl (map_sum f g r) = isl r" for f g and r :: "bytes list result" by (cases r) auto
  from 1 show ?case by (auto simp: decodeHDLC.simps [of xs] Let_def)
qed

lemma decodeF5_error: "drained (decodeF5 xs) = Inl e \<Longrightarrow> drained (decodeF5 (xs @ ys)) = Inl e"
proof (induction xs rule: decodeF5.induct)
  case (1 xs)
  let ?n = "4 + unat (get_u16 (subslice xs 2 4))"
  show ?case
  proof (cases "4 \<le> length xs \<and> get_u16 (take 2 xs) = pppF5Magic \<and> ?n \<le> length xs")
    case True
    with 1(2) have "drained (decodeF5 (drop ?n xs)) = Inl e"
      by (cases "drained (decodeF5 (drop ?n xs))") (auto simp: decodeF5.simps [of xs] Let_def)
    with 1(1) True have "drained (decodeF5 (drop ?n xs @ ys)) = Inl e" by auto
    with True show ?thesis by (simp add: decodeF5.simps [of "xs @ ys"] Let_def take_subslice_append)
  next
    case False
    with 1(2) show ?thesis
      by (auto simp: decodeF5.simps [of xs] decodeF5.simps [of "xs @ ys"] Let_def take_subslice_append split: if_splits)
  qed
qed

lemma decodeFortinet_error: "drained (decodeFortinet xs) = Inl e \<Longrightarrow> drained (decodeFortinet (xs @ ys)) = Inl e"
proof (induction xs rule: decodeFortinet.induct)
  case (1 xs)
  let ?n = "unat (get_u16 (take 2 xs))" and ?p = "unat (get_u16 (subslice xs 4 6))"
  show ?case
  proof (cases "6 \<le> length xs \<and> get_u16 (subslice xs 2 4) = pppFortinetMagic \<and> ?n = ?p + 6 \<and> ?n \<le> length xs")
    case True
    with 1(2) have e: "drained (decodeFortinet (drop ?n xs)) = Inl e"
      by (cases "drained (decodeFortinet (drop ?n xs))") (auto simp: decodeFortinet.simps [of xs] Let_def)
    have "drained (decodeFortinet (drop ?n xs @ ys)) = Inl e" using 1(1) [OF _ refl _ refl _ _ e] True by auto
    with True show ?thesis by (simp add: decodeFortinet.simps [of "xs @ ys"] Let_def take_subslice_append)
  next
    case False
    with 1(2) show ?thesis
      by (auto simp: decodeFortinet.simps [of xs] decodeFortinet.simps [of "xs @ ys"] Let_def
          take_subslice_append split: if_splits)
  qed
qed

subsection \<open>The decoder of an encapsulation\<close>

definition decodeAs :: "pppEncapsulation \<Rightarrow> bytes \<Rightarrow> drained" where
  "decodeAs e p = (case e of
       pppEncapsulationF5 \<Rightarrow> decodeF5 p
     | pppEncapsulationF5HDLC \<Rightarrow> decodeHDLC p
     | pppEncapsulationFortinet \<Rightarrow> decodeFortinet p
     | pppEncapsulationOther _ \<Rightarrow> (p, Inl (Extend (Sentinel ErrProtocolNotSupported) ''PPP encapsulation'')))"

definition sameAs :: "pppEncapsulation \<Rightarrow> bytes \<Rightarrow> bytes \<Rightarrow> bool" where
  "sameAs e = (if e = pppEncapsulationF5HDLC then hdlcSame else (=))"

lemma decodeHDLC_not_error: "drained (decodeHDLC xs) \<noteq> Inl e"
  using decodeHDLC_succeeds [of xs] by (cases "snd (decodeHDLC xs)") (auto simp: drained_def)

interpretation ppp_stream: bounded_stream_decoder "\<lambda>p. drained (decodeAs e p)" "sameAs e" for e
proof unfold_locales
  show "like (sameAs e) (drained (decodeAs e (xs @ ys))) (prepend fs (drained (decodeAs e (rest @ ys))))"
    if "drained (decodeAs e xs) = Inr (fs, rest)" for xs ys fs rest
    using that by (cases e)
      (auto simp: decodeAs_def sameAs_def decodeF5_append decodeFortinet_append decodeHDLC_append intro: like_refl)
  show "length rest \<le> length xs" if "drained (decodeAs e xs) = Inr (fs, rest)" for xs fs rest
    using drained_fst [OF that] by (cases e)
      (simp_all add: decodeAs_def decodeF5_length decodeFortinet_length decodeHDLC_length)
  show "\<exists>e'. drained (decodeAs e (xs @ ys)) = Inl e'" if "drained (decodeAs e xs) = Inl err" for xs ys err
    using that by (cases e)
      (auto simp: decodeAs_def decodeF5_error decodeFortinet_error decodeHDLC_not_error)
qed (auto simp: sameAs_def hdlcSame_def split: if_splits)

lemma Push_decodeAs:
  "Push d c = (if c = [] then (d, Inr [])
     else if length (pending d) + length c > pppMaximumWireFrameSize
     then (d, Inl (New ''PPP receive buffer exceeds maximum wire frame size''))
     else (d\<lparr>pending := fst (decodeAs (encapsulation d) (pending d @ c))\<rparr>,
           snd (decodeAs (encapsulation d) (pending d @ c))))"
  by (cases "encapsulation d") (simp_all add: Push_def decodeAs_def Let_def split_beta)

text \<open>Pushing pieces one after the other until the first error.\<close>

fun pushAll :: "pppFrameDecoder \<Rightarrow> bytes list \<Rightarrow> pppFrameDecoder \<times> bytes list result" where
  "pushAll d [] = (d, Inr [])"
| "pushAll d (c # cs) =
     (case Push d c of
        (d', Inl e) \<Rightarrow> (d', Inl e)
      | (d', Inr fs) \<Rightarrow> (case pushAll d' cs of (d'', r) \<Rightarrow> (d'', map_sum id ((@) fs) r)))"

lemma pushAll_limited:
  "snd (pushAll d cs) = Inr fs \<longleftrightarrow>
     (\<exists>rest. ppp_stream.feed_limited (encapsulation d) pppMaximumWireFrameSize (pending d) cs = Some (fs, rest))"
proof (induction cs arbitrary: d fs)
  case (Cons c cs)
  let ?p = "pending d @ c"
  obtain rest r where a: "decodeAs (encapsulation d) ?p = (rest, r)" by force
  have ms: "map_sum id ((@) gs) s = Inr fs \<longleftrightarrow> (\<exists>hs. s = Inr hs \<and> fs = gs @ hs)" for gs and s :: "bytes list result"
    by (cases s) auto
  show ?case
  proof (cases "c = [] \<or> length (pending d) + length c > pppMaximumWireFrameSize")
    case True
    then show ?thesis using Cons.IH [of d fs] by (auto simp: Push_decodeAs ms split_beta)
  next
    case False
    show ?thesis
    proof (cases r)
      case (Inl e)
      with False a show ?thesis by (simp add: Push_decodeAs)
    next
      case (Inr gs)
      with False a have "snd (pushAll d (c # cs)) = map_sum id ((@) gs) (snd (pushAll (d\<lparr>pending := rest\<rparr>) cs))"
        by (simp add: Push_decodeAs split_beta)
      with False a Inr Cons.IH [of "d\<lparr>pending := rest\<rparr>"] show ?thesis by (auto simp: ms)
    qed
  qed
qed simp

section \<open>Encoded streams\<close>

lemma decodeF5_frame:
  assumes "encodePPPFrame pppEncapsulationF5 payload m = Inr f"
  shows "decodeF5 (f @ rest) = withFrame [payload] (decodeF5 rest)"
proof -
  have p: "payload \<noteq> []" "length payload < 65536"
      "f = put_u16 pppF5Magic @ put_u16 (u16_of (length payload)) @ payload"
    using assms by (auto simp: encodePPPFrame_def pppMaximumPayloadLength_def split: if_splits)
  define g where "g = f @ rest"
  have "subslice g 2 4 = put_u16 (u16_of (length payload))" "take 2 g = put_u16 pppF5Magic"
    "subslice g 4 (4 + length payload) = payload" "drop (4 + length payload) g = rest"
    "4 + length payload \<le> length g"
    by (simp_all add: g_def p(3) subslice_def)
  with p(1,2) have "decodeF5 g = withFrame [payload] (decodeF5 rest)"
    by (simp add: decodeF5.simps [of g] Let_def unat_u16_of)
  then show ?thesis by (simp add: g_def)
qed

lemma decodeFortinet_frame:
  assumes "encodePPPFrame pppEncapsulationFortinet payload m = Inr f"
  shows "decodeFortinet (f @ rest) = withFrame [payload] (decodeFortinet rest)"
proof -
  have p: "payload \<noteq> []" "6 + length payload < 65536"
      "f = put_u16 (u16_of (6 + length payload)) @ put_u16 pppFortinetMagic @ put_u16 (u16_of (length payload)) @ payload"
    using assms by (auto simp: encodePPPFrame_def pppMaximumPayloadLength_def split: if_splits)
  define g where "g = f @ rest"
  have "subslice g 2 4 = put_u16 pppFortinetMagic" "take 2 g = put_u16 (u16_of (6 + length payload))"
    "subslice g 4 6 = put_u16 (u16_of (length payload))"
    "subslice g 6 (6 + length payload) = payload" "drop (6 + length payload) g = rest"
    "6 + length payload \<le> length g"
    by (simp_all add: g_def p(3) subslice_def)
  moreover have "unat (u16_of (6 + length payload)) = 6 + length payload" "unat (u16_of (length payload)) = length payload"
    using p(2) by (simp_all only: unat_u16_of)
  ultimately have "decodeFortinet g = withFrame [payload] (decodeFortinet rest)"
    using p(1) by (simp add: decodeFortinet.simps [of g] Let_def add.commute [of _ 6] del: of_nat_add)
  then show ?thesis by (simp add: g_def)
qed

lemma decodeHDLC_frame:
  assumes "encodePPPFrame pppEncapsulationF5HDLC payload m = Inr f"
  shows "decodeHDLC (f @ rest) = withFrame [payload] (decodeHDLC (pppHDLCFlag # rest))"
    and "decodeHDLC (pppHDLCFlag # f @ rest) = withFrame [payload] (decodeHDLC (pppHDLCFlag # rest))"
proof -
  have p: "payload \<noteq> []" "f = pppHDLCFlag # hdlcBody m payload @ [pppHDLCFlag]"
    using assms by (auto simp: encodePPPFrame_def encodePPPHDLCFrame_body split: if_splits)
  define b where "b = hdlcBody m payload"
  have nf: "\<forall>x \<in> set b. noflag x"
    using escapeAll_noflag by (auto simp: hdlcBody_def b_def)
  have "length (payload @ [ucast (fcsOf payload XOR 0xffff), ucast (drop_bit 8 (fcsOf payload XOR 0xffff))]) \<le> length b"
    unfolding b_def hdlcBody_def by (rule escapeAll_length(1))
  then have ne: "b \<noteq> []" by auto
  have body: "takeWhile noflag (b @ pppHDLCFlag # rest) = b" "dropWhile noflag (b @ pppHDLCFlag # rest) = pppHDLCFlag # rest"
    using nf by (simp_all add: takeWhile_append2 dropWhile_append2)
  have d: "dropWhile flag (b @ pppHDLCFlag # rest) = b @ pppHDLCFlag # rest"
    using nf ne by (cases b) auto
  have frame: "decodeHDLC q = withFrame [payload] (decodeHDLC (pppHDLCFlag # rest))"
    if "q \<noteq> []" "dropWhile flag q = b @ pppHDLCFlag # rest" for q
    unfolding decodeHDLC_unfold [OF that(1)] Let_def that(2) body
    using decode_hdlcBody [OF p(1), of m] by (simp add: hdlcFrames_def b_def)
  have f: "f @ rest = pppHDLCFlag # b @ pppHDLCFlag # rest" using p(2) by (simp add: b_def)
  show "decodeHDLC (f @ rest) = withFrame [payload] (decodeHDLC (pppHDLCFlag # rest))"
    unfolding f by (rule frame) (simp_all add: d)
  show "decodeHDLC (pppHDLCFlag # f @ rest) = withFrame [payload] (decodeHDLC (pppHDLCFlag # rest))"
    unfolding f by (rule frame) (simp_all add: d)
qed

lemma decodeHDLC_frames:
  assumes "list_all2 (\<lambda>p f. encodePPPFrame pppEncapsulationF5HDLC p m = Inr f) payloads frames"
  shows "drained (decodeHDLC (pppHDLCFlag # concat frames)) = Inr (payloads, [pppHDLCFlag])"
  using assms
proof (induction rule: list_all2_induct)
  case (Cons p ps f fs)
  then show ?case by (simp add: decodeHDLC_frame(2) [OF Cons(1)])
qed (simp add: decodeHDLC_unfold)

lemma decodeAs_frames:
  assumes "list_all2 (\<lambda>p f. encodePPPFrame e p m = Inr f) payloads frames" "payloads \<noteq> []"
  shows "\<exists>rest. drained (decodeAs e (concat frames)) = Inr (payloads, rest)"
proof (cases e)
  case pppEncapsulationF5
  have "drained (decodeF5 (concat frames)) = Inr (payloads, [])"
    using assms(1) unfolding pppEncapsulationF5
    by (induction rule: list_all2_induct) (simp_all add: decodeF5_frame, simp add: decodeF5.simps)
  with pppEncapsulationF5 show ?thesis by (simp add: decodeAs_def)
next
  case pppEncapsulationFortinet
  have "drained (decodeFortinet (concat frames)) = Inr (payloads, [])"
    using assms(1) unfolding pppEncapsulationFortinet
    by (induction rule: list_all2_induct) (simp_all add: decodeFortinet_frame, simp add: decodeFortinet.simps)
  with pppEncapsulationFortinet show ?thesis by (simp add: decodeAs_def)
next
  case pppEncapsulationF5HDLC
  with assms show ?thesis
  proof (cases frames)
    case (Cons f fs)
    with assms obtain p ps where "payloads = p # ps" "encodePPPFrame pppEncapsulationF5HDLC p m = Inr f"
      "list_all2 (\<lambda>p f. encodePPPFrame pppEncapsulationF5HDLC p m = Inr f) ps fs"
      using pppEncapsulationF5HDLC by (cases payloads) auto
    with Cons pppEncapsulationF5HDLC decodeHDLC_frames show ?thesis
      by (simp add: decodeAs_def decodeHDLC_frame(1))
  qed (simp add: decodeAs_def decodeHDLC.simps)
next
  case (pppEncapsulationOther b)
  with assms show ?thesis by (cases payloads; cases frames) (auto simp: encodePPPFrame_def split: if_splits)
qed

lemma pushAll_frames:
  assumes "list_all2 (\<lambda>p f. encodePPPFrame e p m = Inr f) payloads frames"
    and "newPPPFrameDecoder e = Inr d" "concat chunks = concat frames"
  shows "(length (concat chunks) \<le> pppMaximumWireFrameSize \<longrightarrow> snd (pushAll d chunks) = Inr payloads) \<and>
    (snd (pushAll d chunks) = Inr fs \<longrightarrow> fs = payloads)"
proof (cases "payloads = []")
  case True
  then have "set chunks \<subseteq> {[]}" using assms(1,3) by auto
  then have "snd (pushAll d chunks) = Inr []" by (induction chunks) (auto simp: Push_def split_beta)
  with True show ?thesis by simp
next
  case False
  have d: "encapsulation d = e" "pending d = []"
    using assms(2) by (auto simp: newPPPFrameDecoder_def split: pppEncapsulation.splits)
  obtain rest where r: "drained (decodeAs e (concat chunks)) = Inr (payloads, rest)"
    using decodeAs_frames [OF assms(1) False] assms(3) by auto
  have ne: "concat chunks \<noteq> []"
  proof
    assume e: "concat chunks = []"
    have "drained (decodeAs e []) = Inr ([], []) \<or> isl (drained (decodeAs e []))"
      by (cases e) (simp_all add: decodeAs_def decodeF5.simps decodeFortinet.simps decodeHDLC.simps)
    with r e False show False by auto
  qed
  note exact = ppp_stream.feed_limited_exact [OF r ne]
  show ?thesis using exact(1) exact(2) [of pppMaximumWireFrameSize]
    by (auto simp: pushAll_limited d)
qed

section \<open>Properties\<close>

text \<open>C14: for each of the three encapsulations, the frames of a list of payloads, concatenated and cut
  into pieces in any way, make the decoder return exactly these payloads in order: always when the
  stream fits the receive buffer, and in any case whenever every push succeeds.\<close>

theorem ppp_frames_roundtrip:
  assumes "list_all2 (\<lambda>p f. encodePPPFrame e p m = Inr f) payloads frames"
    and "newPPPFrameDecoder e = Inr d" "concat chunks = concat frames"
  shows "(length (concat chunks) \<le> pppMaximumWireFrameSize \<longrightarrow> snd (pushAll d chunks) = Inr payloads) \<and>
    (snd (pushAll d chunks) = Inr fs \<longrightarrow> fs = payloads)"
  using assms by (rule pushAll_frames)

theorem ppp_frames_roundtrip_witness:
  "let f = encodePPPHDLCFrame [0x7e, 1] 0
   in snd (pushAll \<lparr>encapsulation = pppEncapsulationF5HDLC, pending = []\<rparr> [take 3 f, [], drop 3 f]) =
        Inr [[0x7e, 1]]"
proof -
  let ?f = "encodePPPHDLCFrame [0x7e, 1] 0"
  have "length ?f \<le> pppMaximumWireFrameSize"
    using escapeAll_length(2) [of 0 "[0x7e, 1, ucast (fcsOf [0x7e, 1] XOR 0xffff), ucast (drop_bit 8 (fcsOf [0x7e, 1] XOR 0xffff))]"]
    by (simp add: encodePPPHDLCFrame_body hdlcBody_def pppMaximumWireFrameSize_def pppMaximumPayloadLength_def)
  then show ?thesis
    using ppp_frames_roundtrip [of pppEncapsulationF5HDLC 0 "[[0x7e, 1]]" "[?f]"
        "\<lparr>encapsulation = pppEncapsulationF5HDLC, pending = []\<rparr>" "[take 3 ?f, [], drop 3 ?f]" "[]"]
    by (simp add: encodePPPFrame_def newPPPFrameDecoder_def pppMaximumPayloadLength_def Let_def)
qed

end
