(* ===== verification/Netip.thy ===== *)
theory Netip
  imports Prelude
begin

text \<open>
  What the program uses of \<^verbatim>\<open>net/netip\<close>: addresses without zones and prefixes. The zero \<open>Addr\<close> is
  \<open>NoAddr\<close>. An address built by the functions below holds four or sixteen bytes.
\<close>

datatype addr = NoAddr | Addr4 bytes | Addr6 bytes

fun wf_addr :: "addr \<Rightarrow> bool" where
  "wf_addr NoAddr \<longleftrightarrow> True"
| "wf_addr (Addr4 bs) \<longleftrightarrow> length bs = 4"
| "wf_addr (Addr6 bs) \<longleftrightarrow> length bs = 16"

fun Is4 :: "addr \<Rightarrow> bool" where
  "Is4 (Addr4 _) = True" | "Is4 _ = False"

fun Is6 :: "addr \<Rightarrow> bool" where
  "Is6 (Addr6 _) = True" | "Is6 _ = False"

definition addrValid :: "addr \<Rightarrow> bool" where
  "addrValid a \<longleftrightarrow> a \<noteq> NoAddr"

definition IPv4Unspecified :: addr where "IPv4Unspecified = Addr4 (replicate 4 0)"
definition IPv6Unspecified :: addr where "IPv6Unspecified = Addr6 (replicate 16 0)"

definition IsUnspecified :: "addr \<Rightarrow> bool" where
  "IsUnspecified a \<longleftrightarrow> a = IPv4Unspecified \<or> a = IPv6Unspecified"

text \<open>\<open>As4\<close> panics on the zero address; every use is behind \<open>Is4\<close>.\<close>

fun As4 :: "addr \<Rightarrow> bytes" where
  "As4 (Addr4 bs) = bs" | "As4 (Addr6 bs) = drop 12 bs" | "As4 NoAddr = []"

definition mappedPrefix :: bytes where "mappedPrefix = replicate 10 0 @ [0xff, 0xff]"

fun As16 :: "addr \<Rightarrow> bytes" where
  "As16 NoAddr = replicate 16 0" | "As16 (Addr4 bs) = mappedPrefix @ bs" | "As16 (Addr6 bs) = bs"

fun Unmap :: "addr \<Rightarrow> addr" where
  "Unmap (Addr6 bs) = (if take 12 bs = mappedPrefix then Addr4 (drop 12 bs) else Addr6 bs)"
| "Unmap a = a"

fun Is4In6 :: "addr \<Rightarrow> bool" where
  "Is4In6 (Addr6 bs) \<longleftrightarrow> take 12 bs = mappedPrefix" | "Is4In6 _ \<longleftrightarrow> False"

fun IsMulticast :: "addr \<Rightarrow> bool" where
  "IsMulticast NoAddr \<longleftrightarrow> False"
| "IsMulticast (Addr4 bs) \<longleftrightarrow> hd bs AND 0xf0 = 0xe0"
| "IsMulticast (Addr6 bs) \<longleftrightarrow> hd bs = 0xff"

fun BitLen :: "addr \<Rightarrow> int" where
  "BitLen NoAddr = 0" | "BitLen (Addr4 _) = 32" | "BitLen (Addr6 _) = 128"

text \<open>A prefix is invalid when it has no length.\<close>

record prefix =
  prefixAddr :: addr
  prefixBits :: "int option"

definition PrefixFrom :: "addr \<Rightarrow> int \<Rightarrow> prefix" where
  "PrefixFrom a bits = \<lparr>prefixAddr = a,
     prefixBits = (if a \<noteq> NoAddr \<and> 0 \<le> bits \<and> bits \<le> BitLen a then Some bits else None)\<rparr>"

definition prefixValid :: "prefix \<Rightarrow> bool" where
  "prefixValid p \<longleftrightarrow> prefixBits p \<noteq> None"

definition Bits :: "prefix \<Rightarrow> int" where
  "Bits p = (case prefixBits p of None \<Rightarrow> -1 | Some b \<Rightarrow> b)"

definition noPrefix :: prefix where "noPrefix = \<lparr>prefixAddr = NoAddr, prefixBits = None\<rparr>"

text \<open>\<open>Masked\<close> clears the bits behind the prefix.\<close>

fun maskBytes :: "nat \<Rightarrow> bytes \<Rightarrow> bytes" where
  "maskBytes k [] = []"
| "maskBytes k (b # bs) = (b AND NOT (mask (8 - k))) # maskBytes (k - 8) bs"

fun maskAddr :: "nat \<Rightarrow> addr \<Rightarrow> addr" where
  "maskAddr k NoAddr = NoAddr" | "maskAddr k (Addr4 bs) = Addr4 (maskBytes k bs)" | "maskAddr k (Addr6 bs) = Addr6 (maskBytes k bs)"

definition Masked :: "prefix \<Rightarrow> prefix" where
  "Masked p = (case prefixBits p of None \<Rightarrow> noPrefix | Some k \<Rightarrow> p\<lparr>prefixAddr := maskAddr (nat k) (prefixAddr p)\<rparr>)"

lemma length_maskBytes [simp]: "length (maskBytes k bs) = length bs"
  by (induction k bs rule: maskBytes.induct) simp_all

lemma Is4_cases: "Is4 a \<longleftrightarrow> (\<exists>bs. a = Addr4 bs)" and Is6_cases: "Is6 a \<longleftrightarrow> (\<exists>bs. a = Addr6 bs)"
  by (cases a; simp)+

lemma Is6_not_Is4: "Is6 a \<Longrightarrow> \<not> Is4 a"
  by (cases a) simp_all

end
