(* ===== verification/Ppp_Control.thy ===== *)
theory Ppp_Control
  imports Framing Netip
begin

text \<open>
  PPP packets and control packets of \<^verbatim>\<open>ppp_control.go\<close>: the protocol header with its two
  compressions, control packets, configuration options, and the conversions between options and
  addresses.
\<close>

section \<open>Definitions\<close>

definition pppProtocolIPv4 :: u16 where "pppProtocolIPv4 = 0x0021"
definition pppProtocolIPv6 :: u16 where "pppProtocolIPv6 = 0x0057"
definition pppProtocolLCP :: u16 where "pppProtocolLCP = 0xc021"
definition pppProtocolIPCP :: u16 where "pppProtocolIPCP = 0x8021"
definition pppProtocolIP6CP :: u16 where "pppProtocolIP6CP = 0x8057"
definition pppProtocolCCP :: u16 where "pppProtocolCCP = 0x80fd"

definition pppCodeConfigureRequest :: byte where "pppCodeConfigureRequest = 1"
definition pppCodeConfigureAcknowledgement :: byte where "pppCodeConfigureAcknowledgement = 2"
definition pppCodeConfigureNegativeAcknowledgement :: byte where
  "pppCodeConfigureNegativeAcknowledgement = 3"
definition pppCodeConfigureRejection :: byte where "pppCodeConfigureRejection = 4"
definition pppCodeTerminateRequest :: byte where "pppCodeTerminateRequest = 5"
definition pppCodeTerminateAcknowledgement :: byte where "pppCodeTerminateAcknowledgement = 6"
definition pppCodeCodeRejection :: byte where "pppCodeCodeRejection = 7"
definition pppCodeProtocolRejection :: byte where "pppCodeProtocolRejection = 8"
definition pppCodeEchoRequest :: byte where "pppCodeEchoRequest = 9"
definition pppCodeEchoReply :: byte where "pppCodeEchoReply = 10"
definition pppCodeDiscardRequest :: byte where "pppCodeDiscardRequest = 11"

definition pppLCPOptionMRU :: byte where "pppLCPOptionMRU = 1"
definition pppLCPOptionAsyncMap :: byte where "pppLCPOptionAsyncMap = 2"
definition pppLCPOptionAuthentication :: byte where "pppLCPOptionAuthentication = 3"
definition pppLCPOptionMagic :: byte where "pppLCPOptionMagic = 5"
definition pppLCPOptionProtocolCompression :: byte where "pppLCPOptionProtocolCompression = 7"
definition pppLCPOptionAddressCompression :: byte where "pppLCPOptionAddressCompression = 8"
definition pppIPCPOptionAddresses :: byte where "pppIPCPOptionAddresses = 1"
definition pppIPCPOptionCompression :: byte where "pppIPCPOptionCompression = 2"
definition pppIPCPOptionAddress :: byte where "pppIPCPOptionAddress = 3"
definition pppIPCPOptionPrimaryDNS :: byte where "pppIPCPOptionPrimaryDNS = 129"
definition pppIPCPOptionPrimaryNBNS :: byte where "pppIPCPOptionPrimaryNBNS = 130"
definition pppIPCPOptionSecondaryDNS :: byte where "pppIPCPOptionSecondaryDNS = 131"
definition pppIPCPOptionSecondaryNBNS :: byte where "pppIPCPOptionSecondaryNBNS = 132"
definition pppIP6CPOptionInterfaceID :: byte where "pppIP6CPOptionInterfaceID = 1"

definition pppDefaultMRU :: u16 where "pppDefaultMRU = 1500"
definition pppMinimumMRU :: nat where "pppMinimumMRU = 128"

record pppControlProtocolState =
  nextIdentifier :: byte
  requestIdentifier :: byte
  requestSent :: bool
  requestAcknowledged :: bool
  peerRequestAcknowledged :: bool
  requestAttempts :: int
  lastRequestUnixNano :: instant

definition initialControlState :: pppControlProtocolState where
  "initialControlState = \<lparr>nextIdentifier = 0, requestIdentifier = 0, requestSent = False,
     requestAcknowledged = False, peerRequestAcknowledged = False, requestAttempts = 0,
     lastRequestUnixNano = 0\<rparr>"

record pppOption =
  kind :: byte
  optionValue :: bytes
  raw :: bytes

record pppPeerLCPOptions =
  mru :: u16
  magic :: bytes

subsection \<open>Options\<close>

function parsePPPOptions :: "bytes \<Rightarrow> pppOption list result" where
  "parsePPPOptions payload =
     (if payload = [] then Inr []
      else if length payload < 2 then Inl (New ''truncated PPP configuration option header'')
      else
        let optionLength = unat (payload ! 1) in
        if optionLength < 2 \<or> optionLength > length payload
        then Inl (New ''invalid PPP configuration option length'')
        else map_sum id ((#) \<lparr>kind = payload ! 0, optionValue = subslice payload 2 optionLength,
                              raw = take optionLength payload\<rparr>)
               (parsePPPOptions (drop optionLength payload)))"
  by pat_completeness auto
termination
  by (relation "measure length") auto

declare parsePPPOptions.simps [simp del]

definition appendPPPOption :: "bytes \<Rightarrow> byte \<Rightarrow> bytes \<Rightarrow> bytes" where
  "appendPPPOption destination k v = (destination @ [k, byte_of (length v + 2)]) @ v"

definition appendPPPOptionUint16 :: "bytes \<Rightarrow> byte \<Rightarrow> u16 \<Rightarrow> bytes" where
  "appendPPPOptionUint16 destination k v = appendPPPOption destination k (put_u16 v)"

definition appendPPPOptionUint32 :: "bytes \<Rightarrow> byte \<Rightarrow> u32 \<Rightarrow> bytes" where
  "appendPPPOptionUint32 destination k v = appendPPPOption destination k (put_u32 v)"

subsection \<open>Control packets\<close>

definition buildPPPControlPacket :: "byte \<Rightarrow> byte \<Rightarrow> bytes \<Rightarrow> bytes result" where
  "buildPPPControlPacket code identifier payload =
     (let packetLength = length payload + 4 in
      if packetLength > 65535 then Inl (New ''PPP control packet exceeds maximum payload length'')
      else Inr ([code, identifier] @ put_u16 (u16_of packetLength) @ payload))"

definition parsePPPControlPacket :: "bytes \<Rightarrow> (byte \<times> byte \<times> bytes) result" where
  "parsePPPControlPacket packet =
     (if length packet < 4 then Inl (New ''PPP control packet is too short'')
      else
        let packetLength = unat (get_u16 (subslice packet 2 4)) in
        if packetLength < 4 \<or> packetLength > length packet
        then Inl (New ''invalid PPP control packet length'')
        else Inr (packet ! 0, packet ! 1, subslice packet 4 packetLength))"

subsection \<open>Packets\<close>

definition buildPPPPacketHeader :: "u16 \<Rightarrow> bool \<Rightarrow> bool \<Rightarrow> bytes" where
  "buildPPPPacketHeader protocol protocolCompression addressCompression =
     (if protocol = pppProtocolLCP \<or> \<not> addressCompression then [0xff, 0x03] else []) @
     (if protocol \<le> 0xff \<and> protocolCompression then [ucast protocol]
      else [ucast (drop_bit 8 protocol), ucast protocol])"

definition parsePPPPacket :: "bytes \<Rightarrow> (u16 \<times> bytes) result" where
  "parsePPPPacket packet =
     (if length packet < 1 then Inl (New ''empty PPP packet'')
      else
        let position = (if length packet \<ge> 2 \<and> packet ! 0 = 0xff \<and> packet ! 1 = 0x03 then 2 else 0)
        in if position \<ge> length packet then Inl (New ''PPP packet is missing a protocol field'')
           else
             let firstProtocolByte = packet ! position in
             if firstProtocolByte AND 1 \<noteq> 0
             then Inr (ucast firstProtocolByte, drop (position + 1) packet)
             else if position + 1 \<ge> length packet
             then Inl (New ''PPP packet has a truncated protocol field'')
             else
               let protocol = push_bit 8 (ucast firstProtocolByte) OR ucast (packet ! (position + 1)) :: u16
               in if protocol AND 1 = 0 then Inl (New ''PPP protocol field has an invalid low bit'')
                  else Inr (protocol, drop (position + 2) packet))"

text \<open>
  \<open>randomPPPMagic\<close> draws until it has a non-zero number; the draws are an argument, and \<open>None\<close> means
  that they ran out before the loop ended.
\<close>

fun randomPPPMagic :: "bytes result list \<Rightarrow> bytes result option" where
  "randomPPPMagic [] = None"
| "randomPPPMagic (Inl err # draws) = Some (Inl (Cause err ''generate PPP LCP magic number''))"
| "randomPPPMagic (Inr number # draws) =
     (if number = replicate 4 0 then randomPPPMagic draws else Some (Inr number))"

subsection \<open>Addresses\<close>

definition pppIPv4FromBytes :: "bytes \<Rightarrow> addr result" where
  "pppIPv4FromBytes v =
     (if length v \<noteq> 4 then Inl (New ''invalid PPP IPv4 option length'') else Inr (Addr4 v))"

definition pppIPv6FromInterfaceID :: "bytes \<Rightarrow> addr result" where
  "pppIPv6FromInterfaceID v =
     (if length v \<noteq> 8 then Inl (New ''invalid PPP IPv6 interface identifier length'')
      else Inr (Addr6 ([0xfe, 0x80] @ replicate 6 0 @ v)))"

definition pppInterfaceID :: "addr \<Rightarrow> bytes" where
  "pppInterfaceID a = (if \<not> Is6 a then replicate 8 0 else drop 8 (As16 a))"

section \<open>Options\<close>

definition takeOption :: "bytes \<Rightarrow> ((byte \<times> bytes) \<times> bytes) result" where
  "takeOption bs =
     (if length bs < 2 then Inl (New ''truncated PPP configuration option header'')
      else if unat (bs ! 1) < 2 \<or> unat (bs ! 1) > length bs
      then Inl (New ''invalid PPP configuration option length'')
      else Inr ((bs ! 0, subslice bs 2 (unat (bs ! 1))), drop (unat (bs ! 1)) bs))"

definition mkOption :: "byte \<times> bytes \<Rightarrow> pppOption" where
  "mkOption o1 = \<lparr>kind = fst o1, optionValue = snd o1, raw = appendPPPOption [] (fst o1) (snd o1)\<rparr>"

lemma takeOption_append:
  assumes "length v \<le> 253"
  shows "takeOption (appendPPPOption [] k v @ rest) = Inr ((k, v), rest)"
proof -
  define g where "g = appendPPPOption [] k v @ rest"
  have "unat (byte_of (length v + 2)) = length v + 2" using assms by (intro unat_byte_of) simp
  then have "unat (g ! 1) = length v + 2" "g ! 0 = k" "length v + 2 \<le> length g"
    "subslice g 2 (length v + 2) = v" "drop (length v + 2) g = rest"
    by (simp_all add: g_def appendPPPOption_def subslice_def)
  then have "takeOption g = Inr ((k, v), rest)" by (simp add: takeOption_def)
  then show ?thesis by (simp add: g_def)
qed

interpretation ppp_option: record_format "\<lambda>(k, v). length v \<le> 253" "\<lambda>(k, v). appendPPPOption [] k v" takeOption
  by unfold_locales (auto simp: takeOption_append split: prod.splits)

lemma parsePPPOptions_take:
  assumes "takeOption bs = Inr ((k, v), rest)"
  shows "parsePPPOptions bs =
    map_sum id ((#) \<lparr>kind = k, optionValue = v, raw = take (length bs - length rest) bs\<rparr>) (parsePPPOptions rest)"
  using assms by (auto simp: takeOption_def parsePPPOptions.simps [of bs] Let_def split: if_splits)

lemma parsePPPOptions_append:
  assumes "length v \<le> 253"
  shows "parsePPPOptions (appendPPPOption [] k v @ rest) = map_sum id ((#) (mkOption (k, v))) (parsePPPOptions rest)"
  using parsePPPOptions_take [OF takeOption_append [OF assms]] by (simp add: mkOption_def)

lemma parsePPPOptions_encoded:
  "list_all (\<lambda>(k, v). length v \<le> 253) os \<Longrightarrow>
     parsePPPOptions (concat (map (\<lambda>(k, v). appendPPPOption [] k v) os)) = Inr (map mkOption os)"
  by (induction os) (auto simp: parsePPPOptions_append parsePPPOptions.simps [of "[]"])

text \<open>Whatever is parsed, the raw options are the payload, and each is the encoding of its fields.\<close>

lemma parsePPPOptions_raw:
  "parsePPPOptions payload = Inr os \<Longrightarrow>
     concat (map raw os) = payload \<and> list_all (\<lambda>x. raw x = appendPPPOption [] (kind x) (optionValue x) \<and> length (optionValue x) \<le> 253) os"
proof (induction payload arbitrary: os rule: parsePPPOptions.induct)
  case (1 payload)
  show ?case
  proof (cases "payload = []")
    case True
    with 1(2) show ?thesis by (simp add: parsePPPOptions.simps [of "[]"])
  next
    case False
    let ?n = "unat (payload ! 1)"
    from 1(2) False obtain ps where n: "2 \<le> length payload" "2 \<le> ?n" "?n \<le> length payload"
      and ps: "parsePPPOptions (drop ?n payload) = Inr ps"
      and os: "os = \<lparr>kind = payload ! 0, optionValue = subslice payload 2 ?n, raw = take ?n payload\<rparr> # ps"
      by (cases "parsePPPOptions (drop ?n payload)")
        (auto simp: parsePPPOptions.simps [of payload] Let_def split: if_splits)
    note IH = 1(1) [OF False _ refl _ ps]
    have "take ?n payload = payload ! 0 # payload ! 1 # subslice payload 2 ?n"
    proof -
      obtain a b cs where "payload = a # b # cs" using n(1) by (auto simp: numeral_2_eq_2 Suc_le_length_iff)
      with n(2) show ?thesis by (cases ?n; cases "?n - 1") (auto simp: subslice_def numeral_2_eq_2)
    qed
    moreover have "byte_of (length (subslice payload 2 ?n) + 2) = payload ! 1" using n by simp
    moreover have "length (subslice payload 2 ?n) \<le> 253"
      using n unat_byte_less [of "payload ! 1"] by (simp del: unat_byte_less)
    ultimately have "list_all (\<lambda>x. raw x = appendPPPOption [] (kind x) (optionValue x) \<and> length (optionValue x) \<le> 253) os"
      using IH n by (simp add: os appendPPPOption_def)
    moreover have "concat (map raw os) = payload" using IH n by (simp add: os)
    ultimately show ?thesis by blast
  qed
qed

section \<open>Packets\<close>

text \<open>A protocol number that the header can carry: low byte odd, high byte even, not \<open>0x00ff\<close>.\<close>

definition protocol_ok :: "u16 \<Rightarrow> bool" where
  "protocol_ok p \<longleftrightarrow> bit p 0 \<and> \<not> bit p 8 \<and> p \<noteq> 0xff"

lemma protocol_ok_used [simp]:
  "protocol_ok pppProtocolIPv4" "protocol_ok pppProtocolIPv6" "protocol_ok pppProtocolLCP"
  "protocol_ok pppProtocolIPCP" "protocol_ok pppProtocolIP6CP" "protocol_ok pppProtocolCCP"
  by (simp_all add: protocol_ok_def pppProtocolIPv4_def pppProtocolIPv6_def pppProtocolLCP_def
      pppProtocolIPCP_def pppProtocolIP6CP_def pppProtocolCCP_def bit_0 bit_iff_odd_drop_bit drop_bit_eq_div)

lemma byte_and_1: "(b :: byte) AND 1 \<noteq> 0 \<longleftrightarrow> bit b 0" "(p :: u16) AND 1 = 0 \<longleftrightarrow> \<not> bit p 0"
  by (auto simp: and_one_eq bit_0 even_iff_mod_2_eq_zero)

lemma protocol_bytes:
  "push_bit 8 (ucast (ucast (drop_bit 8 p) :: byte)) OR ucast (ucast p :: byte) = (p :: u16)"
  by (rule bit_word_eqI) (auto simp: bit_simps not_le)

lemma small_protocol:
  fixes p :: u16
  assumes "p \<le> 0xff"
  shows "ucast (ucast p :: byte) = p"
proof (rule bit_word_eqI)
  fix n assume "n < LENGTH(16)"
  note assms
  then have "unat p < 2 ^ 8" by (simp add: word_le_nat_alt)
  then have "\<not> bit p n" if "8 \<le> n"
    by (metis that bit_take_bit_iff not_le take_bit_nat_eq_self unsigned_take_bit_eq word_unat_eq_iff)
  then show "bit (ucast (ucast p :: byte) :: u16) n = bit p n"
    using \<open>n < LENGTH(16)\<close> by (cases "8 \<le> n") (auto simp: bit_simps not_le)
qed

text \<open>Parsing what stands after the address and control fields.\<close>

definition parseProtocol :: "bytes \<Rightarrow> (u16 \<times> bytes) result" where
  "parseProtocol bs =
     (case bs of
        [] \<Rightarrow> Inl (New ''PPP packet is missing a protocol field'')
      | b # rest \<Rightarrow>
          if bit b 0 then Inr (ucast b, rest)
          else (case rest of
                  [] \<Rightarrow> Inl (New ''PPP packet has a truncated protocol field'')
                | c # rest' \<Rightarrow>
                    let protocol = push_bit 8 (ucast b) OR ucast c :: u16
                    in if bit protocol 0 then Inr (protocol, rest')
                       else Inl (New ''PPP protocol field has an invalid low bit'')))"

lemma parsePPPPacket_protocol:
  assumes "packet \<noteq> []"
  shows "parsePPPPacket packet =
    parseProtocol (if take 2 packet = [0xff, 0x03] then drop 2 packet else packet)"
  using assms
  by (cases packet rule: list.exhaust; cases "tl packet"; cases "tl (tl packet)"; cases "tl (tl (tl packet))")
    (auto simp: parsePPPPacket_def parseProtocol_def Let_def byte_and_1)

lemma parseProtocol_header:
  assumes "protocol_ok p"
  shows "parseProtocol ((if p \<le> 0xff \<and> compressed then [ucast p] else [ucast (drop_bit 8 p), ucast p]) @ rest) = Inr (p, rest)"
proof -
  have "bit (ucast p :: byte) 0" "\<not> bit (ucast (drop_bit 8 p) :: byte) 0" "bit p 0"
    using assms by (auto simp: protocol_ok_def bit_simps)
  then show ?thesis
    using small_protocol [of p] by (auto simp: parseProtocol_def Let_def protocol_bytes)
qed

lemma parsePPPPacket_header:
  assumes "protocol_ok p"
  shows "parsePPPPacket (buildPPPPacketHeader p pc ac @ payload) = Inr (p, payload)"
proof -
  let ?q = "(if p \<le> 0xff \<and> pc then [ucast p] else [ucast (drop_bit 8 p), ucast p]) @ payload"
  have "\<not> bit (ucast (drop_bit 8 p) :: byte) 0" using assms by (auto simp: protocol_ok_def bit_simps)
  then have "ucast (drop_bit 8 p) \<noteq> (0xff :: byte)" by (auto simp: bit_0)
  moreover have "ucast p \<noteq> (0xff :: byte)" if "p \<le> 0xff"
  proof
    assume "ucast p = (0xff :: byte)"
    then have "p = ucast (0xff :: byte)" using small_protocol [OF that] by simp
    with assms show False by (simp add: protocol_ok_def)
  qed
  ultimately have "take 2 ?q \<noteq> [0xff, 0x03]" by auto
  then show ?thesis
    using parseProtocol_header [OF assms, of pc payload]
    by (subst parsePPPPacket_protocol) (auto simp: buildPPPPacketHeader_def)
qed

section \<open>Control packets\<close>

lemma parsePPPControlPacket_build:
  assumes "buildPPPControlPacket code identifier payload = Inr packet"
  shows "parsePPPControlPacket (packet @ padding) = Inr (code, identifier, payload)"
proof -
  have n: "length payload + 4 \<le> 65535" and packet: "packet = [code, identifier] @ put_u16 (u16_of (length payload + 4)) @ payload"
    using assms by (auto simp: buildPPPControlPacket_def Let_def split: if_splits)
  define g where "g = [code, identifier] @ put_u16 (u16_of (length payload + 4)) @ payload @ padding"
  have "unat (u16_of (length payload + 4)) = length payload + 4" using n by (intro unat_u16_of) simp
  then have "unat (get_u16 (subslice g 2 4)) = length payload + 4" "g ! 0 = code" "g ! 1 = identifier"
    "subslice g 4 (length payload + 4) = payload" "length payload + 4 \<le> length g"
    by (simp_all add: g_def subslice_def)
  then have "parsePPPControlPacket g = Inr (code, identifier, payload)"
    by (simp add: parsePPPControlPacket_def)
  then show ?thesis by (simp add: packet g_def)
qed

lemmas parsePPPControlPacket_built = parsePPPControlPacket_build [where padding = "[]", simplified]

section \<open>Properties\<close>

text \<open>A PPP packet parses back to its protocol and payload under every combination of protocol and
  address compression, for every protocol number with an odd low byte and an even high byte other than
  \<open>0x00ff\<close>, which covers all that the client uses.\<close>

theorem ppp_packet_roundtrip:
  assumes "protocol_ok p"
  shows "parsePPPPacket (buildPPPPacketHeader p pc ac @ payload) = Inr (p, payload)"
  using assms by (rule parsePPPPacket_header)

theorem ppp_packet_roundtrip_witness:
  "parsePPPPacket (buildPPPPacketHeader pppProtocolIPv4 True True @ [0x45]) = Inr (pppProtocolIPv4, [0x45]) \<and>
   buildPPPPacketHeader pppProtocolIPv4 True True = [0x21]"
  using ppp_packet_roundtrip [OF protocol_ok_used(1), of True True "[0x45]"]
  by (simp add: buildPPPPacketHeader_def pppProtocolIPv4_def pppProtocolLCP_def)

text \<open>A control packet parses back to its code, identifier and payload, whatever padding follows it;
  and building fails exactly when the length does not fit the field.\<close>

theorem ppp_control_roundtrip:
  "case buildPPPControlPacket code identifier payload of
     Inl e \<Rightarrow> length payload > 65531
   | Inr packet \<Rightarrow> parsePPPControlPacket (packet @ padding) = Inr (code, identifier, payload)"
proof (cases "buildPPPControlPacket code identifier payload")
  case (Inl e)
  then show ?thesis by (simp add: buildPPPControlPacket_def Let_def split: if_split_asm)
next
  case (Inr packet)
  then show ?thesis using parsePPPControlPacket_build by simp
qed

text \<open>A list of configuration options with values of at most 253 bytes parses back from its encoding.\<close>

theorem ppp_options_roundtrip:
  assumes "list_all (\<lambda>(k, v). length v \<le> 253) os"
  shows "parsePPPOptions (concat (map (\<lambda>(k, v). appendPPPOption [] k v) os)) = Inr (map mkOption os)"
  using assms by (rule parsePPPOptions_encoded)

theorem ppp_options_roundtrip_witness:
  "parsePPPOptions [1, 4, 5, 220, 7, 2] = Inr [mkOption (1, [5, 220]), mkOption (7, [])]"
  using ppp_options_roundtrip [of "[(1, [5, 220]), (7, [])]"] by (simp add: appendPPPOption_def)

end
