(* ===== verification/Tunnel_Config.thy ===== *)
theory Tunnel_Config
  imports Netip
begin

text \<open>
  The tunnel configuration that every flavour produces and its normalisation, from
  \<^verbatim>\<open>tunnel_config.go\<close>. Slices are lists, so cloning a configuration is the identity on values.
\<close>

section \<open>Definitions\<close>

definition minimumIPv6MTU :: nat where "minimumIPv6MTU = 1280"

record TunnelSplitDNSRule =
  Domains :: "string list"
  Servers :: "addr list"

record TunnelRoute =
  Prefix :: prefix
  Gateway :: addr
  Metric :: int

record TunnelConfiguration =
  MTU :: u32
  RemoteAddress :: addr
  Addresses :: "prefix list"
  Routes :: "TunnelRoute list"
  ExcludedRoutes :: "TunnelRoute list"
  DNS :: "addr list"
  NBNS :: "addr list"
  SearchDomains :: "string list"
  SplitDNS :: "string list"
  SplitDNSRules :: "TunnelSplitDNSRule list"
  ProxyAutoConfigURL :: string
  Banner :: string
  TunnelAllDNS :: bool
  ClientBypassProtocol :: bool
  IdleTimeout :: duration
  AuthenticationExpiration :: instant
  defaultIPv4RouteSuppressed :: bool
  defaultIPv6RouteSuppressed :: bool

definition emptyTunnelConfiguration :: TunnelConfiguration where
  "emptyTunnelConfiguration = \<lparr>MTU = 0, RemoteAddress = NoAddr, Addresses = [], Routes = [],
     ExcludedRoutes = [], DNS = [], NBNS = [], SearchDomains = [], SplitDNS = [], SplitDNSRules = [],
     ProxyAutoConfigURL = [], Banner = [], TunnelAllDNS = False, ClientBypassProtocol = False,
     IdleTimeout = 0, AuthenticationExpiration = 0, defaultIPv4RouteSuppressed = False,
     defaultIPv6RouteSuppressed = False\<rparr>"

definition defaultRoute :: "addr \<Rightarrow> TunnelRoute" where
  "defaultRoute a = \<lparr>Prefix = PrefixFrom a 0, Gateway = NoAddr, Metric = 0\<rparr>"

text \<open>The part of the normalisation that runs when IPv6 is disabled.\<close>

definition withoutIPv6 :: "TunnelConfiguration \<Rightarrow> TunnelConfiguration" where
  "withoutIPv6 c = c\<lparr>
     Addresses := filter (\<lambda>p. \<not> Is6 (prefixAddr p)) (Addresses c),
     Routes := filter (\<lambda>r. \<not> Is6 (prefixAddr (Prefix r))) (Routes c),
     ExcludedRoutes := filter (\<lambda>r. \<not> Is6 (prefixAddr (Prefix r))) (ExcludedRoutes c),
     DNS := filter (\<lambda>a. \<not> Is6 a) (DNS c),
     NBNS := filter (\<lambda>a. \<not> Is6 a) (NBNS c),
     SplitDNSRules := filter (\<lambda>r. length (Servers r) > 0)
       (map (\<lambda>r. r\<lparr>Servers := filter (\<lambda>a. \<not> Is6 a) (Servers r)\<rparr>) (SplitDNSRules c))\<rparr>"

text \<open>Of the loops over addresses and routes: an address of a family is present.\<close>

definition hasIPv4 :: "addr list \<Rightarrow> bool" where
  "hasIPv4 as = list_ex (\<lambda>a. Is4 (Unmap a)) as"

definition hasIPv6 :: "addr list \<Rightarrow> bool" where
  "hasIPv6 as = list_ex (\<lambda>a. \<not> Is4 (Unmap a) \<and> Is6 a) as"

definition normalizeTunnelConfiguration :: "TunnelConfiguration \<Rightarrow> bool \<Rightarrow> TunnelConfiguration" where
  "normalizeTunnelConfiguration configuration ipv6Disabled =
     (let c = (if ipv6Disabled then withoutIPv6 configuration else configuration);
          addresses = map prefixAddr (Addresses c);
          routes = map (\<lambda>r. prefixAddr (Prefix r)) (Routes c);
          c4 = (if hasIPv4 addresses \<and> \<not> hasIPv4 routes \<and> \<not> defaultIPv4RouteSuppressed c
                then c\<lparr>Routes := Routes c @ [defaultRoute IPv4Unspecified]\<rparr> else c)
      in if hasIPv6 addresses \<and> \<not> hasIPv6 routes \<and> \<not> defaultIPv6RouteSuppressed c4
         then c4\<lparr>Routes := Routes c4 @ [defaultRoute IPv6Unspecified]\<rparr> else c4)"

subsection \<open>Building a configuration\<close>

text \<open>A server is added while there are fewer than three.\<close>

definition appendServer :: "addr list \<Rightarrow> addr \<Rightarrow> addr list" where
  "appendServer servers a = (if length servers < 3 then servers @ [a] else servers)"

text \<open>\<open>TunnelRoute{Prefix: p}\<close>\<close>

definition prefixRoute :: "prefix \<Rightarrow> TunnelRoute" where
  "prefixRoute p = \<lparr>Prefix = p, Gateway = NoAddr, Metric = 0\<rparr>"

section \<open>Lemmas\<close>

subsection \<open>IPv4 addresses and routes\<close>

definition wf_address4 :: "addr \<Rightarrow> bool" where
  "wf_address4 a \<longleftrightarrow> Is4 a \<and> wf_addr a"

definition wf_route4 :: "TunnelRoute \<Rightarrow> bool" where
  "wf_route4 r \<longleftrightarrow> wf_address4 (prefixAddr (Prefix r)) \<and> (\<exists>k \<le> 32. prefixBits (Prefix r) = Some (int k))"

lemma wf_prefix4: "wf_address4 a \<Longrightarrow> k \<le> 32 \<Longrightarrow> wf_route4 (prefixRoute (PrefixFrom a (int k)))"
  by (auto simp: wf_route4_def prefixRoute_def PrefixFrom_def wf_address4_def Is4_cases)

lemma appendServer_wf:
  "list_all wf_address4 as \<Longrightarrow> length as \<le> 3 \<Longrightarrow> wf_address4 a \<Longrightarrow>
     list_all wf_address4 (appendServer as a) \<and> length (appendServer as a) \<le> 3"
  by (simp add: appendServer_def)

lemma wf_address4_family: "wf_address4 a \<Longrightarrow> Is4 (Unmap a)" "wf_address4 a \<Longrightarrow> \<not> Is6 a"
  by (cases a; simp add: wf_address4_def)+

subsection \<open>Normalisation\<close>

text \<open>Every address that a configuration mentions, in its lists.\<close>

definition mentions :: "TunnelConfiguration \<Rightarrow> addr set" where
  "mentions c = prefixAddr ` set (Addresses c) \<union> (prefixAddr \<circ> Prefix) ` set (Routes c) \<union>
     (prefixAddr \<circ> Prefix) ` set (ExcludedRoutes c) \<union> set (DNS c) \<union> set (NBNS c) \<union>
     (\<Union>r \<in> set (SplitDNSRules c). set (Servers r))"

text \<open>A family with an address has a route, unless its default route is suppressed.\<close>

definition routed :: "TunnelConfiguration \<Rightarrow> bool" where
  "routed c \<longleftrightarrow>
     (hasIPv4 (map prefixAddr (Addresses c)) \<longrightarrow>
        hasIPv4 (map (\<lambda>r. prefixAddr (Prefix r)) (Routes c)) \<or> defaultIPv4RouteSuppressed c) \<and>
     (hasIPv6 (map prefixAddr (Addresses c)) \<longrightarrow>
        hasIPv6 (map (\<lambda>r. prefixAddr (Prefix r)) (Routes c)) \<or> defaultIPv6RouteSuppressed c)"

lemma zero_not_mapped: "replicate n 0 \<noteq> mappedPrefix"
proof
  assume "replicate n 0 = mappedPrefix"
  then have "0xff \<in> set (replicate n (0 :: byte))" by (simp add: mappedPrefix_def)
  then show False by simp
qed

lemma defaultRoute_family [simp]:
  "Is4 (Unmap (prefixAddr (Prefix (defaultRoute IPv4Unspecified))))"
  "\<not> Is6 (prefixAddr (Prefix (defaultRoute IPv4Unspecified)))"
  "\<not> Is4 (Unmap (prefixAddr (Prefix (defaultRoute IPv6Unspecified))))"
  "Is6 (prefixAddr (Prefix (defaultRoute IPv6Unspecified)))"
  by (simp_all add: defaultRoute_def PrefixFrom_def IPv4Unspecified_def IPv6Unspecified_def zero_not_mapped)

lemma withoutIPv6_mentions: "a \<in> mentions (withoutIPv6 c) \<Longrightarrow> \<not> Is6 a"
  by (auto simp: mentions_def withoutIPv6_def)

lemma withoutIPv6_id: "\<forall>a \<in> mentions c. \<not> Is6 a \<Longrightarrow> \<forall>r \<in> set (SplitDNSRules c). Servers r \<noteq> [] \<Longrightarrow> withoutIPv6 c = c"
proof -
  assume n: "\<forall>a \<in> mentions c. \<not> Is6 a" and s: "\<forall>r \<in> set (SplitDNSRules c). Servers r \<noteq> []"
  have "map (\<lambda>r. r\<lparr>Servers := filter (\<lambda>a. \<not> Is6 a) (Servers r)\<rparr>) (SplitDNSRules c) = SplitDNSRules c"
  proof (rule map_idI)
    fix r assume "r \<in> set (SplitDNSRules c)"
    then have "filter (\<lambda>a. \<not> Is6 a) (Servers r) = Servers r"
      using n by (intro filter_True) (auto simp: mentions_def)
    then show "r\<lparr>Servers := filter (\<lambda>a. \<not> Is6 a) (Servers r)\<rparr> = r" by simp
  qed
  moreover have "filter (\<lambda>r. 0 < length (Servers r)) (SplitDNSRules c) = SplitDNSRules c"
    using s by (intro filter_True) auto
  moreover have "filter (\<lambda>p. \<not> Is6 (prefixAddr p)) (Addresses c) = Addresses c"
    "filter (\<lambda>r. \<not> Is6 (prefixAddr (Prefix r))) (Routes c) = Routes c"
    "filter (\<lambda>r. \<not> Is6 (prefixAddr (Prefix r))) (ExcludedRoutes c) = ExcludedRoutes c"
    "filter (\<lambda>a. \<not> Is6 a) (DNS c) = DNS c" "filter (\<lambda>a. \<not> Is6 a) (NBNS c) = NBNS c"
    using n by (intro filter_True; auto simp: mentions_def)+
  ultimately show ?thesis by (simp add: withoutIPv6_def)
qed

lemma normalize_routed: "routed (normalizeTunnelConfiguration c ipv6Disabled)"
  by (auto simp: routed_def normalizeTunnelConfiguration_def Let_def hasIPv4_def hasIPv6_def list_ex_iff)

lemma routed_normalize: "routed c \<Longrightarrow> normalizeTunnelConfiguration c False = c"
  by (auto simp: routed_def normalizeTunnelConfiguration_def Let_def)

lemma normalize_base:
  "normalizeTunnelConfiguration c ipv6Disabled =
     normalizeTunnelConfiguration (if ipv6Disabled then withoutIPv6 c else c) False"
  by (simp add: normalizeTunnelConfiguration_def)

lemma normalize_mentions:
  assumes "\<forall>a \<in> mentions c. \<not> Is6 a" "a \<in> mentions (normalizeTunnelConfiguration c False)"
  shows "\<not> Is6 a"
proof -
  have "\<not> hasIPv6 (map prefixAddr (Addresses c))"
    using assms(1) by (auto simp: hasIPv6_def list_ex_iff mentions_def)
  then have "mentions (normalizeTunnelConfiguration c False) \<subseteq>
      insert (prefixAddr (Prefix (defaultRoute IPv4Unspecified))) (mentions c)"
    by (auto simp: normalizeTunnelConfiguration_def Let_def mentions_def)
  with assms show ?thesis by auto
qed

lemma normalize_rules: "SplitDNSRules (normalizeTunnelConfiguration c False) = SplitDNSRules c"
  by (simp add: normalizeTunnelConfiguration_def Let_def)

section \<open>A concrete configuration\<close>

text \<open>Both families have an address; a split-DNS rule is served over IPv6 only.\<close>

definition mixed_configuration :: TunnelConfiguration where
  "mixed_configuration = emptyTunnelConfiguration\<lparr>
     Addresses := [PrefixFrom (Addr4 [10, 0, 0, 1]) 32, PrefixFrom (Addr6 (0x20 # replicate 15 1)) 64],
     DNS := [Addr6 (0x20 # replicate 15 1), Addr4 [10, 0, 0, 1]],
     SplitDNSRules := [\<lparr>Domains = [''a''], Servers = [Addr6 (0x20 # replicate 15 1)]\<rparr>]\<rparr>"

lemma mixed_configuration_normalized:
  "DNS (normalizeTunnelConfiguration mixed_configuration True) = [Addr4 [10, 0, 0, 1]]"
  "SplitDNSRules (normalizeTunnelConfiguration mixed_configuration True) = []"
  "Routes (normalizeTunnelConfiguration mixed_configuration True) = [defaultRoute IPv4Unspecified]"
  by (simp_all add: mixed_configuration_def normalizeTunnelConfiguration_def withoutIPv6_def
      emptyTunnelConfiguration_def hasIPv4_def hasIPv6_def PrefixFrom_def Let_def)

section \<open>Properties\<close>

text \<open>Normalisation leaves no IPv6 address in the tunnel's addresses, routes, name servers or split-DNS
  rules when IPv6 is disabled, gives every address family that has an address a route unless its default
  route was suppressed, and is idempotent.\<close>

theorem normalize_tunnel_configuration:
  "(if ipv6Disabled then Ball (mentions (normalizeTunnelConfiguration c ipv6Disabled)) (\<lambda>a. \<not> Is6 a) else True) \<and>
   routed (normalizeTunnelConfiguration c ipv6Disabled) \<and>
   normalizeTunnelConfiguration (normalizeTunnelConfiguration c ipv6Disabled) ipv6Disabled =
     normalizeTunnelConfiguration c ipv6Disabled"
proof -
  let ?n = "normalizeTunnelConfiguration c ipv6Disabled"
  have no6: "Ball (mentions ?n) (\<lambda>a. \<not> Is6 a)" if "ipv6Disabled"
    using that normalize_mentions [of "withoutIPv6 c"] withoutIPv6_mentions [of _ c]
    by (subst normalize_base) auto
  have rules: "Servers r \<noteq> []" if "ipv6Disabled" "r \<in> set (SplitDNSRules ?n)" for r
    using that unfolding normalize_base [of c] by (auto simp: normalize_rules withoutIPv6_def)
  have "normalizeTunnelConfiguration ?n ipv6Disabled = normalizeTunnelConfiguration ?n False"
    using no6 rules withoutIPv6_id [of ?n] by (subst normalize_base) auto
  with no6 show ?thesis by (simp add: normalize_routed routed_normalize)
qed

theorem normalize_tunnel_configuration_witness:
  "DNS (normalizeTunnelConfiguration mixed_configuration True) = [Addr4 [10, 0, 0, 1]] \<and>
   Routes (normalizeTunnelConfiguration mixed_configuration True) = [defaultRoute IPv4Unspecified] \<and>
   routed (normalizeTunnelConfiguration mixed_configuration True)"
  using normalize_tunnel_configuration [of True mixed_configuration] mixed_configuration_normalized by blast

end
