(* ===== verification/Ppp_Negotiation.thy ===== *)
theory Ppp_Negotiation
  imports Ppp_Frame Ppp_Control Tunnel_Config
begin

text \<open>
  The state of a PPP link (\<^verbatim>\<open>ppp_link.go\<close>) and its negotiation (\<^verbatim>\<open>ppp_negotiation.go\<close>): building
  configuration requests, answering the peer's, acting on its answers, advancing to the network
  phase, and the timers.

  Every function here runs under the link's mutex in the code, so it is a function from the link
  to the link it leaves behind and a result; the state it leaves behind when it fails is kept. The
  clock is the argument \<open>now\<close>. Successive results of \<open>randomPPPMagic\<close> are the field \<open>randomMagic\<close>,
  counted by \<open>draws\<close>. A channel that is closed once is a flag.
\<close>

section \<open>Definitions\<close>

subsection \<open>Link state\<close>

record pppCarrierConfig =
  carrierConnection :: "nat option"
  carrierDatagram :: bool
  carrierMTU :: u32
  negotiationTimeout :: duration

record pppLinkConfig =
  Carrier :: pppCarrierConfig
  Encapsulation :: pppEncapsulation
  WantIPv4 :: bool
  WantIPv6 :: bool
  IPv4Address :: prefix
  IPv6Address :: prefix
  LockAddresses :: bool
  linkMTU :: u32
  RequestIPv4NameServers :: bool
  NegotiationPeriod :: duration
  NegotiationAttempts :: int
  EchoInterval :: duration
  EchoFailures :: int

datatype pppLinkPhase =
    pppLinkPhaseEstablishing
  | pppLinkPhaseNetwork
  | pppLinkPhaseTerminating
  | pppLinkPhaseClosed

record pppCarrier =
  connection :: nat
  datagram :: bool
  generation :: u64
  decoder :: pppFrameDecoder
  writeFailed :: bool

record pppOutboundPacket =
  outGeneration :: u64
  protocol :: u16
  payload :: bytes
  packetBuffer :: "bytes option"
  protocolCompression :: bool
  addressCompression :: bool
  asyncMap :: u32

text \<open>How far \<open>terminateLocked\<close> has come, with its error: before the carrier is taken, before it is closed when there was one, before
  the result is published.\<close>

datatype pppTermination =
    TermDetach "go_error option"
  | TermClose "go_error option" bool
  | TermPublish "go_error option"

record pppLink =
  config :: pppLinkConfig
  carrier :: "pppCarrier option"
  configuration :: TunnelConfiguration
  lcp :: pppControlProtocolState
  ipcp :: pppControlProtocolState
  ip6cp :: pppControlProtocolState
  phase :: pppLinkPhase
  localMRU :: u16
  peerMRU :: u16
  localMagic :: bytes
  localMagicEnabled :: bool
  requestAsyncMap :: bool
  requestProtocolCompression :: bool
  requestAddressCompression :: bool
  localAsyncMap :: u32
  outboundProtocolCompression :: bool
  outboundAddressCompression :: bool
  requestMRU :: bool
  addressesLocked :: bool
  networkPending :: bool
  wantIPv4 :: bool
  wantIPv6 :: bool
  localIPv4 :: addr
  peerIPv4 :: addr
  localIPv6 :: addr
  peerIPv6 :: addr
  nameServerRequests :: "byte \<rightharpoonup> addr"
  lastReceived :: instant
  pendingEcho :: bool
  pendingEchoIdentifier :: byte
  pendingEchoSent :: instant
  missedEchoReplies :: int
  readyWaitClosed :: bool
  termAcknowledgedClosed :: bool
  doneResult :: "go_error option option"
  started :: bool
  linkClosed :: bool
  linkTermination :: "pppTermination option"
  closeErr :: "go_error list"
  ready :: bool
  randomMagic :: "nat \<Rightarrow> bytes result"
  draws :: nat

definition nextMagic :: "pppLink \<Rightarrow> pppLink \<times> bytes result" where
  "nextMagic l = (l\<lparr>draws := draws l + 1\<rparr>, randomMagic l (draws l))"

definition resetNegotiationLocked :: "pppLink \<Rightarrow> instant \<Rightarrow> pppLink" where
  "resetNegotiationLocked l now = l\<lparr>
     lcp := initialControlState, ipcp := initialControlState, ip6cp := initialControlState,
     phase := pppLinkPhaseEstablishing, peerMRU := pppDefaultMRU, localAsyncMap := 0,
     requestMRU := True,
     requestAsyncMap := (Encapsulation (config l) = pppEncapsulationF5HDLC),
     requestProtocolCompression := (Encapsulation (config l) \<noteq> pppEncapsulationFortinet),
     requestAddressCompression := (Encapsulation (config l) \<noteq> pppEncapsulationFortinet),
     localMagicEnabled := True, outboundProtocolCompression := False,
     outboundAddressCompression := False, pendingEcho := False, missedEchoReplies := 0,
     networkPending := False, lastReceived := now, ready := False, readyWaitClosed := False,
     termAcknowledgedClosed := False\<rparr>"

definition controlStateLocked :: "pppLink \<Rightarrow> u16 \<Rightarrow> pppControlProtocolState result" where
  "controlStateLocked l p =
     (if p = pppProtocolLCP then Inr (lcp l)
      else if p = pppProtocolIPCP then Inr (ipcp l)
      else if p = pppProtocolIP6CP then Inr (ip6cp l)
      else Inl (New ''unsupported PPP control protocol''))"

text \<open>The update through the pointer that \<open>controlStateLocked\<close> returns.\<close>

definition updateControl :: "u16 \<Rightarrow> (pppControlProtocolState \<Rightarrow> pppControlProtocolState) \<Rightarrow> pppLink \<Rightarrow> pppLink" where
  "updateControl p f l =
     (if p = pppProtocolLCP then l\<lparr>lcp := f (lcp l)\<rparr>
      else if p = pppProtocolIPCP then l\<lparr>ipcp := f (ipcp l)\<rparr>
      else if p = pppProtocolIP6CP then l\<lparr>ip6cp := f (ip6cp l)\<rparr>
      else l)"

definition currentGeneration :: "pppLink \<Rightarrow> u64" where
  "currentGeneration l = (case carrier l of None \<Rightarrow> 0 | Some c \<Rightarrow> generation c)"

definition outboundPacketLocked :: "pppLink \<Rightarrow> u16 \<Rightarrow> bytes \<Rightarrow> pppOutboundPacket" where
  "outboundPacketLocked l p content = \<lparr>outGeneration = currentGeneration l, protocol = p,
     payload = content, packetBuffer = None,
     protocolCompression = outboundProtocolCompression l,
     addressCompression = outboundAddressCompression l,
     asyncMap = (if p = pppProtocolLCP then pppHDLCControlEscapeMask else localAsyncMap l)\<rparr>"

definition outboundPacketBufferLocked :: "pppLink \<Rightarrow> u16 \<Rightarrow> bytes \<Rightarrow> pppOutboundPacket" where
  "outboundPacketBufferLocked l p buffer = \<lparr>outGeneration = currentGeneration l, protocol = p,
     payload = [], packetBuffer = Some buffer,
     protocolCompression = outboundProtocolCompression l,
     addressCompression = outboundAddressCompression l,
     asyncMap = (if p = pppProtocolLCP then pppHDLCControlEscapeMask else localAsyncMap l)\<rparr>"

subsection \<open>Configuration requests\<close>

text \<open>The options of a request. For LCP this draws a fresh magic number into the link.\<close>

definition lcpRequestOptions :: "pppLink \<Rightarrow> pppLink \<times> bytes result" where
  "lcpRequestOptions l =
     (let p = [];
          p = (if requestMRU l then appendPPPOptionUint16 p pppLCPOptionMRU (localMRU l) else p);
          p = (if requestAsyncMap l then appendPPPOptionUint32 p pppLCPOptionAsyncMap (localAsyncMap l) else p);
          tail = (\<lambda>p. let p = (if requestProtocolCompression l
                               then appendPPPOption p pppLCPOptionProtocolCompression [] else p)
                      in if requestAddressCompression l
                         then appendPPPOption p pppLCPOptionAddressCompression [] else p)
      in if localMagicEnabled l then
           (case nextMagic l of
              (l', Inl err) \<Rightarrow> (l'\<lparr>localMagic := replicate 4 0\<rparr>, Inl err)
            | (l', Inr number) \<Rightarrow>
                (l'\<lparr>localMagic := number\<rparr>, Inr (tail (appendPPPOption p pppLCPOptionMagic number))))
         else (l, Inr (tail p)))"

definition addressBytes :: "addr \<Rightarrow> bytes" where
  "addressBytes a = (if Is4 a then As4 a else replicate 4 0)"

definition nameServerKinds :: "byte list" where
  "nameServerKinds = [pppIPCPOptionPrimaryDNS, pppIPCPOptionPrimaryNBNS, pppIPCPOptionSecondaryDNS,
     pppIPCPOptionSecondaryNBNS]"

definition ipcpRequestOptions :: "pppLink \<Rightarrow> bytes" where
  "ipcpRequestOptions l =
     fold (\<lambda>k p. case nameServerRequests l k of
                   None \<Rightarrow> p | Some a \<Rightarrow> appendPPPOption p k (addressBytes a))
       nameServerKinds (appendPPPOption [] pppIPCPOptionAddress (addressBytes (localIPv4 l)))"

definition ip6cpRequestOptions :: "pppLink \<Rightarrow> bytes" where
  "ip6cpRequestOptions l = appendPPPOption [] pppIP6CPOptionInterfaceID (pppInterfaceID (localIPv6 l))"

definition requestOptions :: "pppLink \<Rightarrow> u16 \<Rightarrow> pppLink \<times> bytes result" where
  "requestOptions l p =
     (if p = pppProtocolLCP then lcpRequestOptions l
      else if p = pppProtocolIPCP then (l, Inr (ipcpRequestOptions l))
      else (l, Inr (ip6cpRequestOptions l)))"

definition markRequest :: "instant \<Rightarrow> pppControlProtocolState \<Rightarrow> pppControlProtocolState" where
  "markRequest now s = s\<lparr>nextIdentifier := nextIdentifier s + 1,
     requestIdentifier := nextIdentifier s + 1, requestSent := True, requestAcknowledged := False,
     requestAttempts := requestAttempts s + 1, lastRequestUnixNano := now\<rparr>"

definition buildConfigurationRequestLocked ::
  "pppLink \<Rightarrow> u16 \<Rightarrow> instant \<Rightarrow> pppLink \<times> pppOutboundPacket result" where
  "buildConfigurationRequestLocked l p now =
     (case controlStateLocked l p of
        Inl err \<Rightarrow> (l, Inl err)
      | Inr state \<Rightarrow>
          (case requestOptions l p of
             (l1, Inl err) \<Rightarrow> (l1, Inl err)
           | (l1, Inr options) \<Rightarrow>
               let l2 = updateControl p (markRequest now) l1 in
               (case buildPPPControlPacket pppCodeConfigureRequest (nextIdentifier state + 1) options of
                  Inl err \<Rightarrow> (l2, Inl err)
                | Inr control \<Rightarrow> (l2, Inr (outboundPacketLocked l2 p control)))))"

subsection \<open>Advancing\<close>

definition addressUsable4 :: "addr \<Rightarrow> bool" where
  "addressUsable4 a \<longleftrightarrow> Is4 a \<and> \<not> IsUnspecified a"

definition addressUsable6 :: "addr \<Rightarrow> bool" where
  "addressUsable6 a \<longleftrightarrow> Is6 a \<and> pppInterfaceID a \<noteq> replicate 8 0"

definition nameServers :: "pppLink \<Rightarrow> byte list \<Rightarrow> addr list" where
  "nameServers l kinds = concat (map (\<lambda>k. case nameServerRequests l k of
       None \<Rightarrow> [] | Some a \<Rightarrow> if Is4 a \<and> \<not> IsUnspecified a then [a] else []) kinds)"

definition negotiatedConfiguration :: "pppLink \<Rightarrow> TunnelConfiguration" where
  "negotiatedConfiguration l = emptyTunnelConfiguration\<lparr>
     MTU := u32_of (min (unat (localMRU l)) (unat (peerMRU l))),
     Addresses :=
       (if wantIPv4 l then
          [PrefixFrom (localIPv4 l)
             (if prefixValid (IPv4Address (config l)) then Bits (IPv4Address (config l)) else 32)]
        else []) @
       (if wantIPv6 l then
          [PrefixFrom (localIPv6 l)
             (if prefixValid (IPv6Address (config l)) then Bits (IPv6Address (config l)) else 64)]
        else []),
     DNS := nameServers l [pppIPCPOptionPrimaryDNS, pppIPCPOptionSecondaryDNS],
     NBNS := nameServers l [pppIPCPOptionPrimaryNBNS, pppIPCPOptionSecondaryNBNS]\<rparr>"

definition errAllRejected :: go_error where
  "errAllRejected = Extend (Sentinel ErrProtocolNotSupported)
     ''PPP peer rejected every requested network control protocol''"

text \<open>One request of \<open>advanceNegotiationLocked\<close>: sent when wanted and not sent yet.\<close>

definition requestIfWanted ::
  "pppLink \<Rightarrow> bool \<Rightarrow> bool \<Rightarrow> u16 \<Rightarrow> instant \<Rightarrow> pppLink \<times> pppOutboundPacket list result" where
  "requestIfWanted l wanted sent p now =
     (if wanted \<and> \<not> sent then
        (case buildConfigurationRequestLocked l p now of
           (l1, Inl err) \<Rightarrow> (l1, Inl err)
         | (l1, Inr request) \<Rightarrow> (l1, Inr [request]))
      else (l, Inr []))"

definition acknowledgedBothWays :: "pppControlProtocolState \<Rightarrow> bool" where
  "acknowledgedBothWays s \<longleftrightarrow> requestAcknowledged s \<and> peerRequestAcknowledged s"

text \<open>The checks after the requests: whether the network phase may begin.\<close>

definition completeNegotiation ::
  "pppLink \<Rightarrow> pppOutboundPacket list \<Rightarrow> pppLink \<times> pppOutboundPacket list result" where
  "completeNegotiation l outbound =
     (if wantIPv4 l \<and> \<not> acknowledgedBothWays (ipcp l) then (l, Inr outbound)
      else if wantIPv6 l \<and> \<not> acknowledgedBothWays (ip6cp l) then (l, Inr outbound)
      else if wantIPv4 l \<and> \<not> addressUsable4 (localIPv4 l)
      then (l, Inl (New ''PPP IPv4 negotiation completed without a local address''))
      else if wantIPv6 l \<and> \<not> addressUsable6 (localIPv6 l)
      then (l, Inl (New ''PPP IPv6 negotiation completed without a local address''))
      else (l\<lparr>networkPending := True, configuration := negotiatedConfiguration l\<rparr>, Inr outbound))"

definition advanceNegotiationLocked ::
  "pppLink \<Rightarrow> instant \<Rightarrow> pppLink \<times> pppOutboundPacket list result" where
  "advanceNegotiationLocked l now =
     (if \<not> acknowledgedBothWays (lcp l) then (l, Inr [])
      else if \<not> wantIPv4 l \<and> \<not> wantIPv6 l then (l, Inl errAllRejected)
      else case requestIfWanted l (wantIPv4 l) (requestSent (ipcp l)) pppProtocolIPCP now of
        (l1, Inl err) \<Rightarrow> (l1, Inl err)
      | (l1, Inr out4) \<Rightarrow>
          (case requestIfWanted l1 (wantIPv6 l1) (requestSent (ip6cp l1)) pppProtocolIP6CP now of
             (l2, Inl err) \<Rightarrow> (l2, Inl err)
           | (l2, Inr out6) \<Rightarrow> completeNegotiation l2 (out4 @ out6)))"

subsection \<open>The peer's requests\<close>

text \<open>What the loop over the options of a request collects.\<close>

record requestScan =
  rejected :: bytes
  negativeAcknowledgement :: bytes
  peerOptions :: pppPeerLCPOptions
  scanIPv4 :: addr
  scanIPv6 :: addr

definition emptyScan :: requestScan where
  "emptyScan = \<lparr>rejected = [], negativeAcknowledgement = [],
     peerOptions = \<lparr>mru = pppDefaultMRU, magic = replicate 4 0\<rparr>, scanIPv4 = NoAddr, scanIPv6 = NoAddr\<rparr>"

definition rejectOption :: "pppOption \<Rightarrow> requestScan \<Rightarrow> requestScan" where
  "rejectOption x s = s\<lparr>rejected := rejected s @ raw x\<rparr>"

definition scanLCPOption :: "pppLink \<Rightarrow> requestScan \<Rightarrow> pppOption \<Rightarrow> pppLink \<times> requestScan result" where
  "scanLCPOption l s x =
     (if kind x = pppLCPOptionMRU then
        if length (optionValue x) \<noteq> 2 then (l, Inr (rejectOption x s))
        else
          let m = get_u16 (optionValue x) in
          if unat m < pppMinimumMRU
          then (l, Inr (s\<lparr>negativeAcknowledgement :=
                 appendPPPOptionUint16 (negativeAcknowledgement s) (kind x) (u16_of pppMinimumMRU)\<rparr>))
          else (l, Inr (s\<lparr>peerOptions := (peerOptions s)\<lparr>mru := m\<rparr>\<rparr>))
      else if kind x = pppLCPOptionAsyncMap then
        (l, Inr (if length (optionValue x) \<noteq> 4 then rejectOption x s else s))
      else if kind x = pppLCPOptionMagic then
        if length (optionValue x) \<noteq> 4 then (l, Inr (rejectOption x s))
        else
          let s1 = s\<lparr>peerOptions := (peerOptions s)\<lparr>magic := optionValue x\<rparr>\<rparr> in
          if localMagicEnabled l \<and> optionValue x = localMagic l then
            (case nextMagic l of
               (l1, Inl err) \<Rightarrow> (l1, Inl err)
             | (l1, Inr number) \<Rightarrow>
                 (l1, Inr (s1\<lparr>negativeAcknowledgement :=
                    appendPPPOption (negativeAcknowledgement s1) (kind x) number\<rparr>)))
          else (l, Inr s1)
      else if kind x = pppLCPOptionProtocolCompression \<or> kind x = pppLCPOptionAddressCompression then
        (l, Inr (if length (optionValue x) \<noteq> 0 then rejectOption x s else s))
      else (l, Inr (rejectOption x s)))"

definition scanIPCPOption :: "requestScan \<Rightarrow> pppOption \<Rightarrow> requestScan" where
  "scanIPCPOption s x =
     (if kind x = pppIPCPOptionAddresses then
        if length (optionValue x) \<noteq> 8 then rejectOption x s else s
      else if kind x = pppIPCPOptionAddress then
        (case pppIPv4FromBytes (optionValue x) of
           Inl _ \<Rightarrow> rejectOption x s
         | Inr a \<Rightarrow> s\<lparr>scanIPv4 := a\<rparr>)
      else rejectOption x s)"

definition scanIP6CPOption :: "requestScan \<Rightarrow> pppOption \<Rightarrow> requestScan" where
  "scanIP6CPOption s x =
     (if kind x \<noteq> pppIP6CPOptionInterfaceID then rejectOption x s
      else (case pppIPv6FromInterfaceID (optionValue x) of
              Inl _ \<Rightarrow> rejectOption x s
            | Inr a \<Rightarrow> s\<lparr>scanIPv6 := a\<rparr>))"

definition scanOption :: "u16 \<Rightarrow> pppLink \<Rightarrow> requestScan \<Rightarrow> pppOption \<Rightarrow> pppLink \<times> requestScan result" where
  "scanOption p l s x =
     (if p = pppProtocolLCP then scanLCPOption l s x
      else if p = pppProtocolIPCP then (l, Inr (scanIPCPOption s x))
      else if p = pppProtocolIP6CP then (l, Inr (scanIP6CPOption s x))
      else (l, Inr s))"

fun scanOptions :: "u16 \<Rightarrow> pppLink \<Rightarrow> requestScan \<Rightarrow> pppOption list \<Rightarrow> pppLink \<times> requestScan result" where
  "scanOptions p l s [] = (l, Inr s)"
| "scanOptions p l s (x # xs) =
     (case scanOption p l s x of
        (l1, Inl err) \<Rightarrow> (l1, Inl err)
      | (l1, Inr s1) \<Rightarrow> scanOptions p l1 s1 xs)"

text \<open>A reply that is sent only when its payload is not empty.\<close>

definition optionalReply :: "pppLink \<Rightarrow> u16 \<Rightarrow> byte \<Rightarrow> byte \<Rightarrow> bytes \<Rightarrow> pppOutboundPacket list result" where
  "optionalReply l p code identifier content =
     (if length content \<noteq> 0 then
        (case buildPPPControlPacket code identifier content of
           Inl err \<Rightarrow> Inl err
         | Inr control \<Rightarrow> Inr [outboundPacketLocked l p control])
      else Inr [])"

definition recordPeer :: "u16 \<Rightarrow> requestScan \<Rightarrow> pppLink \<Rightarrow> pppLink" where
  "recordPeer p s l =
     (let l1 = updateControl p (\<lambda>c. c\<lparr>peerRequestAcknowledged := True\<rparr>) l in
      if p = pppProtocolLCP then l1\<lparr>peerMRU := mru (peerOptions s)\<rparr>
      else if p = pppProtocolIPCP then l1\<lparr>peerIPv4 := scanIPv4 s\<rparr>
      else if p = pppProtocolIP6CP then l1\<lparr>peerIPv6 := scanIPv6 s\<rparr>
      else l1)"

definition answerRequest ::
  "pppLink \<Rightarrow> u16 \<Rightarrow> byte \<Rightarrow> bytes \<Rightarrow> requestScan \<Rightarrow> instant \<Rightarrow> pppLink \<times> pppOutboundPacket list result" where
  "answerRequest l p identifier content s now =
     (case optionalReply l p pppCodeConfigureRejection identifier (rejected s) of
        Inl err \<Rightarrow> (l, Inl err)
      | Inr rejections \<Rightarrow>
          (case optionalReply l p pppCodeConfigureNegativeAcknowledgement identifier
                  (negativeAcknowledgement s) of
             Inl err \<Rightarrow> (l, Inl err)
           | Inr naks \<Rightarrow>
               if length (rejected s) = 0 \<and> length (negativeAcknowledgement s) = 0 then
                 (case buildPPPControlPacket pppCodeConfigureAcknowledgement identifier content of
                    Inl err \<Rightarrow> (l, Inl err)
                  | Inr control \<Rightarrow>
                      let reply = outboundPacketLocked l p control in
                      (case advanceNegotiationLocked (recordPeer p s l) now of
                         (l2, Inl err) \<Rightarrow> (l2, Inl err)
                       | (l2, Inr advanced) \<Rightarrow> (l2, Inr (reply # advanced))))
               else (l, Inr (rejections @ naks))))"

definition handleConfigurationRequestLocked ::
  "pppLink \<Rightarrow> u16 \<Rightarrow> byte \<Rightarrow> bytes \<Rightarrow> instant \<Rightarrow> pppLink \<times> pppOutboundPacket list result" where
  "handleConfigurationRequestLocked l p identifier content now =
     (case controlStateLocked l p of
        Inl err \<Rightarrow> (l, Inl err)
      | Inr _ \<Rightarrow>
          (case parsePPPOptions content of
             Inl err \<Rightarrow> (l, Inl err)
           | Inr options \<Rightarrow>
               (case scanOptions p l emptyScan options of
                  (l1, Inl err) \<Rightarrow> (l1, Inl err)
                | (l1, Inr s) \<Rightarrow> answerRequest l1 p identifier content s now)))"

subsection \<open>The peer's refusals\<close>

text \<open>The body of the loop over a Nak or Reject; the result says whether it disabled the protocol.\<close>

definition refuseLCPOption :: "byte \<Rightarrow> pppLink \<Rightarrow> pppOption \<Rightarrow> pppLink \<times> bool result" where
  "refuseLCPOption code l x =
     (if kind x = pppLCPOptionMRU then
        if length (optionValue x) \<noteq> 2 then (l, Inl (New ''invalid LCP MRU Nak/Reject''))
        else (l\<lparr>requestMRU := False\<rparr>, Inr False)
      else if kind x = pppLCPOptionAsyncMap then
        if length (optionValue x) \<noteq> 4 then (l, Inl (New ''invalid LCP async-map Nak/Reject''))
        else (l\<lparr>localAsyncMap := pppHDLCControlEscapeMask, requestAsyncMap := False\<rparr>, Inr False)
      else if kind x = pppLCPOptionMagic then
        if length (optionValue x) \<noteq> 4 then (l, Inl (New ''invalid LCP magic Nak/Reject''))
        else (if code = pppCodeConfigureRejection then l\<lparr>localMagicEnabled := False\<rparr> else l, Inr False)
      else if kind x = pppLCPOptionProtocolCompression then
        if length (optionValue x) \<noteq> 0
        then (l, Inl (New ''invalid LCP protocol-compression Nak/Reject''))
        else (l\<lparr>requestProtocolCompression := False, outboundProtocolCompression := False\<rparr>, Inr False)
      else if kind x = pppLCPOptionAddressCompression then
        if length (optionValue x) \<noteq> 0
        then (l, Inl (New ''invalid LCP address-compression Nak/Reject''))
        else (l\<lparr>requestAddressCompression := False, outboundAddressCompression := False\<rparr>, Inr False)
      else (l, Inl (New ''PPP peer Nak/Rejected an unknown LCP option'')))"

definition refuseIPCPOption :: "byte \<Rightarrow> pppLink \<Rightarrow> pppOption \<Rightarrow> pppLink \<times> bool result" where
  "refuseIPCPOption code l x =
     (if kind x = pppIPCPOptionAddress then
        (case pppIPv4FromBytes (optionValue x) of
           Inl _ \<Rightarrow> (l, Inl (New ''PPP peer rejected the IPv4 address negotiation''))
         | Inr a \<Rightarrow>
             if code = pppCodeConfigureRejection \<or> IsUnspecified a
             then (l, Inl (New ''PPP peer rejected the IPv4 address negotiation''))
             else if addressesLocked l \<and> addrValid (localIPv4 l) \<and> a \<noteq> localIPv4 l
             then (l, Inl (Extend (Sentinel ErrSessionRejected) ''PPP peer changed the proposed IPv4 address''))
             else (l\<lparr>localIPv4 := a\<rparr>, Inr False))
      else if kind x \<in> set nameServerKinds then
        if code = pppCodeConfigureRejection
        then (l\<lparr>nameServerRequests := (nameServerRequests l)(kind x := None)\<rparr>, Inr False)
        else (case pppIPv4FromBytes (optionValue x) of
                Inl _ \<Rightarrow> (l, Inl (New ''PPP peer returned an invalid IPv4 name server option''))
              | Inr a \<Rightarrow>
                  if IsUnspecified a
                  then (l, Inl (New ''PPP peer returned an invalid IPv4 name server option''))
                  else (l\<lparr>nameServerRequests := (nameServerRequests l)(kind x \<mapsto> a)\<rparr>, Inr False))
      else (l, Inl (New ''PPP peer Nak/Rejected an unknown IPCP option'')))"

definition refuseIP6CPOption :: "byte \<Rightarrow> pppLink \<Rightarrow> pppOption \<Rightarrow> pppLink \<times> bool result" where
  "refuseIP6CPOption code l x =
     (if kind x \<noteq> pppIP6CPOptionInterfaceID
      then (l, Inl (New ''PPP peer Nak/Rejected an unknown IP6CP option''))
      else if code = pppCodeConfigureRejection then (l\<lparr>wantIPv6 := False\<rparr>, Inr True)
      else (case pppIPv6FromInterfaceID (optionValue x) of
              Inl err \<Rightarrow> (l, Inl err)
            | Inr a \<Rightarrow>
                if pppInterfaceID a = replicate 8 0 then (l\<lparr>wantIPv6 := False\<rparr>, Inr True)
                else if addressesLocked l \<and> addrValid (localIPv6 l) \<and>
                        pppInterfaceID a \<noteq> pppInterfaceID (localIPv6 l)
                then (l, Inl (Extend (Sentinel ErrSessionRejected)
                       ''PPP peer changed the proposed IPv6 interface identifier''))
                else if \<not> addrValid (localIPv6 l) then (l\<lparr>localIPv6 := a\<rparr>, Inr False)
                else (l\<lparr>localIPv6 := Addr6 (take 8 (As16 (localIPv6 l)) @ drop 8 (As16 a))\<rparr>, Inr False)))"

definition refuseOption :: "u16 \<Rightarrow> byte \<Rightarrow> pppLink \<Rightarrow> pppOption \<Rightarrow> pppLink \<times> bool result" where
  "refuseOption p code l x =
     (if p = pppProtocolLCP then refuseLCPOption code l x
      else if p = pppProtocolIPCP then refuseIPCPOption code l x
      else if p = pppProtocolIP6CP then refuseIP6CPOption code l x
      else (l, Inr False))"

fun refuseOptions :: "u16 \<Rightarrow> byte \<Rightarrow> pppLink \<Rightarrow> bool \<Rightarrow> pppOption list \<Rightarrow> pppLink \<times> bool result" where
  "refuseOptions p code l disabled [] = (l, Inr disabled)"
| "refuseOptions p code l disabled (x # xs) =
     (case refuseOption p code l x of
        (l1, Inl err) \<Rightarrow> (l1, Inl err)
      | (l1, Inr d) \<Rightarrow> refuseOptions p code l1 (disabled \<or> d) xs)"

definition handleConfigurationNakOrRejectLocked ::
  "pppLink \<Rightarrow> u16 \<Rightarrow> byte \<Rightarrow> byte \<Rightarrow> bytes \<Rightarrow> instant \<Rightarrow> pppLink \<times> pppOutboundPacket list result" where
  "handleConfigurationNakOrRejectLocked l p identifier code content now =
     (case controlStateLocked l p of
        Inl err \<Rightarrow> (l, Inl err)
      | Inr state \<Rightarrow>
          if identifier \<noteq> requestIdentifier state then (l, Inr [])
          else (case parsePPPOptions content of
             Inl err \<Rightarrow> (l, Inl err)
           | Inr options \<Rightarrow>
               (case refuseOptions p code l False options of
                  (l1, Inl err) \<Rightarrow> (l1, Inl err)
                | (l1, Inr protocolDisabled) \<Rightarrow>
                    if protocolDisabled then advanceNegotiationLocked l1 now
                    else if requestAttempts state \<ge> NegotiationAttempts (config l1)
                    then (l1, Inl (New ''PPP control protocol negotiation attempts exhausted''))
                    else (case buildConfigurationRequestLocked l1 p now of
                            (l2, Inl err) \<Rightarrow> (l2, Inl err)
                          | (l2, Inr request) \<Rightarrow> (l2, Inr [request])))))"

subsection \<open>Control packets\<close>

definition protocolRejectionLocked :: "pppLink \<Rightarrow> u16 \<Rightarrow> bytes \<Rightarrow> pppLink \<times> pppOutboundPacket list result" where
  "protocolRejectionLocked l p content =
     (let maximumPayload = min (length content + 2) (nat (max (int (unat (peerMRU l)) - 10) 2));
          rejection = take maximumPayload (put_u16 p @ content);
          l1 = l\<lparr>lcp := (lcp l)\<lparr>nextIdentifier := nextIdentifier (lcp l) + 1\<rparr>\<rparr>
      in case buildPPPControlPacket pppCodeProtocolRejection (nextIdentifier (lcp l1)) rejection of
           Inl err \<Rightarrow> (l1, Inl err)
         | Inr control \<Rightarrow> (l1, Inr [outboundPacketLocked l1 pppProtocolLCP control]))"

text \<open>The result also says whether the peer terminated the link.\<close>

type_synonym control_result = "pppLink \<times> (pppOutboundPacket list \<times> bool) result"

definition notTerminated :: "pppLink \<times> pppOutboundPacket list result \<Rightarrow> control_result" where
  "notTerminated r = (fst r, map_sum id (\<lambda>out. (out, False)) (snd r))"

definition handleEchoRequest :: "pppLink \<Rightarrow> byte \<Rightarrow> bytes \<Rightarrow> control_result" where
  "handleEchoRequest l identifier content =
     (if \<not> acknowledgedBothWays (lcp l) then (l, Inr ([], False))
      else
        let replyPayload = (if localMagicEnabled l then localMagic l else replicate 4 0) @ drop 4 content
        in case buildPPPControlPacket pppCodeEchoReply identifier replyPayload of
             Inl err \<Rightarrow> (l, Inl err)
           | Inr control \<Rightarrow> (l, Inr ([outboundPacketLocked l pppProtocolLCP control], False)))"

definition handleProtocolRejection :: "pppLink \<Rightarrow> u16 \<Rightarrow> bytes \<Rightarrow> instant \<Rightarrow> control_result" where
  "handleProtocolRejection l p content now =
     (if p \<noteq> pppProtocolLCP \<or> length content < 2
      then (l, Inl (New ''invalid PPP Protocol-Reject packet''))
      else
        let rejectedProtocol = get_u16 (take 2 content) in
        if rejectedProtocol \<noteq> pppProtocolIPCP \<and> rejectedProtocol \<noteq> pppProtocolIP6CP
        then (l, Inr ([], False))
        else
          let l1 = (if rejectedProtocol = pppProtocolIPCP then l\<lparr>wantIPv4 := False\<rparr>
                    else l\<lparr>wantIPv6 := False\<rparr>)
          in if \<not> wantIPv4 l1 \<and> \<not> wantIPv6 l1 then (l1, Inl errAllRejected)
             else notTerminated (advanceNegotiationLocked l1 now))"

definition acknowledgeRequest :: "pppLink \<Rightarrow> u16 \<Rightarrow> pppLink" where
  "acknowledgeRequest l p =
     (let l1 = updateControl p (\<lambda>c. c\<lparr>requestAcknowledged := True\<rparr>) l
      in if p = pppProtocolLCP
         then l1\<lparr>outboundProtocolCompression := requestProtocolCompression l1,
                 outboundAddressCompression := requestAddressCompression l1\<rparr>
         else l1)"

definition handleControlPacketLocked :: "pppLink \<Rightarrow> u16 \<Rightarrow> bytes \<Rightarrow> instant \<Rightarrow> control_result" where
  "handleControlPacketLocked l p packet now =
     (case parsePPPControlPacket packet of
        Inl err \<Rightarrow> (l, Inl (Cause err ''parse PPP control packet''))
      | Inr (code, identifier, content) \<Rightarrow>
          if code = pppCodeConfigureRequest
          then notTerminated (handleConfigurationRequestLocked l p identifier content now)
          else if code = pppCodeConfigureAcknowledgement then
            (case controlStateLocked l p of
               Inl err \<Rightarrow> (l, Inl err)
             | Inr _ \<Rightarrow> notTerminated (advanceNegotiationLocked (acknowledgeRequest l p) now))
          else if code = pppCodeConfigureNegativeAcknowledgement \<or> code = pppCodeConfigureRejection
          then notTerminated (handleConfigurationNakOrRejectLocked l p identifier code content now)
          else if code = pppCodeTerminateRequest then
            (case buildPPPControlPacket pppCodeTerminateAcknowledgement identifier [] of
               Inl err \<Rightarrow> (l, Inl err)
             | Inr control \<Rightarrow>
                 let l1 = l\<lparr>phase := pppLinkPhaseTerminating\<rparr>
                 in (l1, Inr ([outboundPacketLocked l1 p control], True)))
          else if code = pppCodeTerminateAcknowledgement then
            (if phase l = pppLinkPhaseTerminating then l\<lparr>termAcknowledgedClosed := True\<rparr> else l,
             Inr ([], False))
          else if code = pppCodeEchoRequest then
            if p \<noteq> pppProtocolLCP
            then (l, Inl (New ''PPP echo request arrived on a non-LCP protocol''))
            else handleEchoRequest l identifier content
          else if code = pppCodeEchoReply then
            if p \<noteq> pppProtocolLCP
            then (l, Inl (New ''PPP echo reply arrived on a non-LCP protocol''))
            else (if pendingEcho l \<and> identifier = pendingEchoIdentifier l
                  then l\<lparr>pendingEcho := False, missedEchoReplies := 0\<rparr> else l, Inr ([], False))
          else if code = pppCodeDiscardRequest then (l, Inr ([], False))
          else if code = pppCodeProtocolRejection then handleProtocolRejection l p content now
          else if code = pppCodeCodeRejection
          then (l, Inl (Extend (Sentinel ErrProtocolNotSupported) ''PPP peer sent Code-Reject''))
          else (l, Inl (Extend (Sentinel ErrProtocolNotSupported) ''PPP control code'')))"

subsection \<open>Frames\<close>

text \<open>
  \<open>handleFrame\<close> holds the lock twice: while it interprets the frame, and, after it has written its
  replies, while it enters the network phase and delivers. The two sections are separate
  definitions, since other operations may run between them. \<open>isMulti\<close> is \<open>E.IsMulti\<close>, which says
  whether an error wraps one of the given errors.
\<close>

datatype frameOutcome =
    FrameIgnored
  | FrameFailed go_error
  | FrameHandled "pppOutboundPacket list" "bytes option" bool

definition controlOutcome :: "(go_error \<Rightarrow> go_error list \<Rightarrow> bool) \<Rightarrow> (pppOutboundPacket list \<times> bool) result \<Rightarrow> frameOutcome" where
  "controlOutcome isMulti r =
     (case r of
        Inl err \<Rightarrow>
          FrameFailed (if isMulti err [Sentinel ErrSessionRejected, Sentinel ErrProtocolNotSupported]
                       then err else markTerminal err)
      | Inr (outbound, peerTerminated) \<Rightarrow> FrameHandled outbound None peerTerminated)"

definition handleFrameBegin ::
  "(go_error \<Rightarrow> go_error list \<Rightarrow> bool) \<Rightarrow> pppLink \<Rightarrow> u64 \<Rightarrow> bytes \<Rightarrow> instant \<Rightarrow> pppLink \<times> frameOutcome" where
  "handleFrameBegin isMulti l gen frame now =
     (if linkClosed l then (l, FrameIgnored)
      else if gen \<noteq> currentGeneration l then (l, FrameIgnored)
      else case parsePPPPacket frame of
        Inl err \<Rightarrow> (l, FrameFailed (markTerminal (Cause err ''parse PPP packet'')))
      | Inr (p, content) \<Rightarrow>
          let l1 = l\<lparr>lastReceived := now, pendingEcho := False, missedEchoReplies := 0\<rparr> in
          if p = pppProtocolLCP \<or> p = pppProtocolIPCP \<or> p = pppProtocolIP6CP then
            if p = pppProtocolIPCP \<and> \<not> wantIPv4 l1 \<or> p = pppProtocolIP6CP \<and> \<not> wantIPv6 l1
            then (case notTerminated (protocolRejectionLocked l1 p content) of
                    (l2, r) \<Rightarrow> (l2, controlOutcome isMulti r))
            else (case handleControlPacketLocked l1 p content now of
                    (l2, r) \<Rightarrow> (l2, controlOutcome isMulti r))
          else if p = pppProtocolIPv4 \<or> p = pppProtocolIPv6 then
            (l1, FrameHandled [] (if phase l1 = pppLinkPhaseNetwork then Some content else None) False)
          else (case notTerminated (protocolRejectionLocked l1 p content) of
                  (l2, r) \<Rightarrow> (l2, controlOutcome isMulti r)))"

text \<open>The second section: the link, and whether a delivery is allowed.\<close>

definition handleFrameFinish :: "pppLink \<Rightarrow> u64 \<Rightarrow> pppLink \<times> bool" where
  "handleFrameFinish l gen =
     (let deliverAllowed = (gen = currentGeneration l \<and> \<not> linkClosed l)
      in (if deliverAllowed \<and> networkPending l
          then l\<lparr>phase := pppLinkPhaseNetwork, networkPending := False, ready := True,
                 addressesLocked := True, readyWaitClosed := True\<rparr>
          else l, deliverAllowed))"

definition errPPPPeerDead :: go_error where
  "errPPPPeerDead = New ''PPP peer did not answer LCP echo requests''"
definition errPPPPeerTerminated :: go_error where
  "errPPPPeerTerminated = New ''PPP peer terminated the link''"

text \<open>The first error that the writes of the replies returned, if any.\<close>

fun firstError :: "go_error option list \<Rightarrow> go_error option" where
  "firstError [] = None"
| "firstError (Some e # es) = Some e"
| "firstError (None # es) = firstError es"

text \<open>
  The whole handler when nothing else runs in between. \<open>write\<close> gives the result of writing each
  reply; the result is the delivered payload and the error returned.
\<close>

definition handleFrame ::
  "(go_error \<Rightarrow> go_error list \<Rightarrow> bool) \<Rightarrow> (pppOutboundPacket \<Rightarrow> go_error option) \<Rightarrow> pppLink \<Rightarrow> u64 \<Rightarrow>
     bytes \<Rightarrow> instant \<Rightarrow> pppLink \<times> bytes option \<times> go_error option" where
  "handleFrame isMulti write_packet l gen frame now =
     (case handleFrameBegin isMulti l gen frame now of
        (l1, FrameIgnored) \<Rightarrow> (l1, None, None)
      | (l1, FrameFailed err) \<Rightarrow> (l1, None, Some err)
      | (l1, FrameHandled outbound delivery peerTerminated) \<Rightarrow>
          (case firstError (map write_packet outbound) of
             Some err \<Rightarrow>
               (l1, None, Some (if peerTerminated then Joined [errPPPPeerTerminated, err] else err))
           | None \<Rightarrow>
               (case handleFrameFinish l1 gen of
                  (l2, deliverAllowed) \<Rightarrow>
                    (l2, if deliverAllowed then delivery else None,
                     if peerTerminated then Some errPPPPeerTerminated else None))))"

subsection \<open>Timers\<close>

text \<open>Retransmission of one protocol's request.\<close>

definition retransmit ::
  "pppLink \<Rightarrow> u16 \<Rightarrow> instant \<Rightarrow> pppLink \<times> pppOutboundPacket list result" where
  "retransmit l p now =
     (if p = pppProtocolIPCP \<and> \<not> wantIPv4 l \<or> p = pppProtocolIP6CP \<and> \<not> wantIPv6 l then (l, Inr [])
      else case controlStateLocked l p of
        Inl err \<Rightarrow> (l, Inl err)
      | Inr state \<Rightarrow>
          if \<not> requestSent state \<or> requestAcknowledged state then (l, Inr [])
          else if now - lastRequestUnixNano state < NegotiationPeriod (config l) then (l, Inr [])
          else if requestAttempts state \<ge> NegotiationAttempts (config l)
          then (l, Inl (New ''PPP control protocol negotiation timed out''))
          else (case buildConfigurationRequestLocked l p now of
                  (l1, Inl err) \<Rightarrow> (l1, Inl err)
                | (l1, Inr request) \<Rightarrow> (l1, Inr [request])))"

fun retransmitAll ::
  "pppLink \<Rightarrow> u16 list \<Rightarrow> instant \<Rightarrow> pppLink \<times> pppOutboundPacket list result" where
  "retransmitAll l [] now = (l, Inr [])"
| "retransmitAll l (p # ps) now =
     (case retransmit l p now of
        (l1, Inl err) \<Rightarrow> (l1, Inl err)
      | (l1, Inr out) \<Rightarrow>
          (case retransmitAll l1 ps now of
             (l2, Inl err) \<Rightarrow> (l2, Inl err)
           | (l2, Inr out') \<Rightarrow> (l2, Inr (out @ out'))))"

definition sendEcho :: "pppLink \<Rightarrow> pppOutboundPacket list \<Rightarrow> instant \<Rightarrow> pppLink \<times> pppOutboundPacket list result" where
  "sendEcho l outbound now =
     (let identifier = nextIdentifier (lcp l) + 1;
          l1 = l\<lparr>lcp := (lcp l)\<lparr>nextIdentifier := identifier\<rparr>, pendingEchoIdentifier := identifier,
                 pendingEcho := True, pendingEchoSent := now\<rparr>
      in case buildPPPControlPacket pppCodeEchoRequest identifier
                (if localMagicEnabled l1 then localMagic l1 else replicate 4 0) of
           Inl err \<Rightarrow> (l1, Inl err)
         | Inr control \<Rightarrow> (l1, Inr (outbound @ [outboundPacketLocked l1 pppProtocolLCP control])))"

definition handleTimer :: "pppLink \<Rightarrow> instant \<Rightarrow> pppLink \<times> pppOutboundPacket list result" where
  "handleTimer l now =
     (if linkClosed l \<or> phase l = pppLinkPhaseTerminating then (l, Inr [])
      else case retransmitAll l [pppProtocolLCP, pppProtocolIPCP, pppProtocolIP6CP] now of
        (l1, Inl err) \<Rightarrow> (l1, Inl err)
      | (l1, Inr outbound) \<Rightarrow>
          if phase l1 \<noteq> pppLinkPhaseNetwork \<or> EchoInterval (config l1) \<le> 0 then (l1, Inr outbound)
          else if pendingEcho l1 then
            if now - pendingEchoSent l1 < EchoInterval (config l1) then (l1, Inr outbound)
            else
              let l2 = l1\<lparr>missedEchoReplies := missedEchoReplies l1 + 1\<rparr>
              in if missedEchoReplies l2 \<ge> EchoFailures (config l2) then (l2, Inl errPPPPeerDead)
                 else sendEcho l2 outbound now
          else if now - lastReceived l1 < EchoInterval (config l1) then (l1, Inr outbound)
          else sendEcho l1 outbound now)"

end
