(* ===== verification/Ppp_Link.thy ===== *)
theory Ppp_Link
  imports Ppp_Negotiation
begin

text \<open>
  The life of a PPP link (\<^verbatim>\<open>ppp_link.go\<close>): construction, start, carrier switch, data packets, frame
  encoding, reading, closing and termination.

  A connection is a number; what its methods return is an argument of the operation that calls
  them. The goroutines' waiting (\<open>waitUntilReady\<close> and its variants) is the set of results that the
  channels allow in a state.
\<close>

section \<open>Definitions\<close>

subsection \<open>MTU\<close>

definition pppDefaultTunnelMTU :: u32 where "pppDefaultTunnelMTU = 1400"
definition pppDefaultBaseMTU :: u32 where "pppDefaultBaseMTU = 1406"
definition pppDefaultNegotiationPeriod :: duration where "pppDefaultNegotiationPeriod = 3000000000"
definition pppDefaultNegotiationTries :: int where "pppDefaultNegotiationTries = 10"
definition pppDefaultEchoFailures :: int where "pppDefaultEchoFailures = 3"

definition calculatePPPTunnelMTU :: "u32 \<Rightarrow> u32 \<Rightarrow> bool \<Rightarrow> pppEncapsulation \<Rightarrow> u32" where
  "calculatePPPTunnelMTU requestedMTU baseMTU outerIPv6 e =
     (let baseMTU = (if baseMTU = 0 then pppDefaultBaseMTU else baseMTU);
          baseMTU = (if baseMTU < u32_of minimumIPv6MTU then u32_of minimumIPv6MTU else baseMTU);
          mtu = (if requestedMTU = 0
                 then int (unat baseMTU) - (if outerIPv6 then 40 else 20) - 20
                 else int (unat requestedMTU));
          overhead = 5 + (case e of
              pppEncapsulationF5 \<Rightarrow> 4 + 1
            | pppEncapsulationF5HDLC \<Rightarrow> 4 + 1
            | pppEncapsulationFortinet \<Rightarrow> 6 + 2 + 2
            | pppEncapsulationOther _ \<Rightarrow> 0);
          mtu = mtu - overhead;
          mtu = (if e = pppEncapsulationF5HDLC then mtu - mtu div 32 else mtu)
      in word_of_int mtu)"

definition pppMaximumTunnelMTU :: "pppEncapsulation \<Rightarrow> u32" where
  "pppMaximumTunnelMTU e =
     (let maximumMTU = u32_of (pppMaximumPayloadLength - 4)
      in if e = pppEncapsulationFortinet then maximumMTU - 6 else maximumMTU)"

subsection \<open>Construction\<close>

definition withDefaults :: "pppLinkConfig \<Rightarrow> pppLinkConfig" where
  "withDefaults c = c\<lparr>
     NegotiationPeriod := (if NegotiationPeriod c \<le> 0 then pppDefaultNegotiationPeriod else NegotiationPeriod c),
     NegotiationAttempts := (if NegotiationAttempts c \<le> 0 then pppDefaultNegotiationTries else NegotiationAttempts c),
     EchoFailures := (if EchoFailures c \<le> 0 then pppDefaultEchoFailures else EchoFailures c)\<rparr>"

definition initialNameServers :: "bool \<Rightarrow> byte \<rightharpoonup> addr" where
  "initialNameServers requested =
     (if requested then (\<lambda>k. if k \<in> set nameServerKinds then Some IPv4Unspecified else None) else Map.empty)"

definition newPPPLink :: "pppLinkConfig \<Rightarrow> (nat \<Rightarrow> bytes result) \<Rightarrow> instant \<Rightarrow> pppLink result" where
  "newPPPLink config0 random now =
     (case carrierConnection (Carrier config0) of
        None \<Rightarrow> Inl (markTerminal (New ''PPP link requires a carrier connection''))
      | Some conn \<Rightarrow>
          if \<not> WantIPv4 config0 \<and> \<not> WantIPv6 config0
          then Inl (markTerminal (New ''PPP link requires IPv4 or IPv6''))
          else if prefixValid (IPv4Address config0) \<and> \<not> Is4 (prefixAddr (IPv4Address config0))
          then Inl (markTerminal (New ''PPP link IPv4 address is not IPv4''))
          else if prefixValid (IPv6Address config0) \<and> \<not> Is6 (prefixAddr (IPv6Address config0))
          then Inl (markTerminal (New ''PPP link IPv6 address is not IPv6''))
          else
            let config1 = (if linkMTU config0 = 0 then config0\<lparr>linkMTU := pppDefaultTunnelMTU\<rparr> else config0)
            in if unat (linkMTU config1) < pppMinimumMRU \<or>
                  linkMTU config1 > pppMaximumTunnelMTU (Encapsulation config1)
               then Inl (markTerminal (New ''PPP tunnel MTU is outside the supported range''))
               else
                 let config2 = withDefaults config1 in
                 (case newPPPFrameDecoder (Encapsulation config2) of
                    Inl err \<Rightarrow> Inl err
                  | Inr dec \<Rightarrow>
                      (case random 0 of
                         Inl err \<Rightarrow> Inl (markTerminal err)
                       | Inr number \<Rightarrow> Inr \<lparr>config = config2,
                           carrier = Some \<lparr>connection = conn, datagram = carrierDatagram (Carrier config2),
                             generation = 1, decoder = dec, writeFailed = False\<rparr>,
                           configuration = emptyTunnelConfiguration,
                           lcp = initialControlState, ipcp = initialControlState, ip6cp = initialControlState,
                           phase = pppLinkPhaseEstablishing, localMRU = ucast (linkMTU config2),
                           peerMRU = pppDefaultMRU, localMagic = number, localMagicEnabled = True,
                           requestAsyncMap = (Encapsulation config2 = pppEncapsulationF5HDLC),
                           requestProtocolCompression = (Encapsulation config2 \<noteq> pppEncapsulationFortinet),
                           requestAddressCompression = (Encapsulation config2 \<noteq> pppEncapsulationFortinet),
                           localAsyncMap = 0, outboundProtocolCompression = False,
                           outboundAddressCompression = False, requestMRU = True,
                           addressesLocked = LockAddresses config2, networkPending = False,
                           wantIPv4 = WantIPv4 config2, wantIPv6 = WantIPv6 config2,
                           localIPv4 = prefixAddr (IPv4Address config2), peerIPv4 = NoAddr,
                           localIPv6 = prefixAddr (IPv6Address config2), peerIPv6 = NoAddr,
                           nameServerRequests = initialNameServers (RequestIPv4NameServers config2),
                           lastReceived = now, pendingEcho = False, pendingEchoIdentifier = 0,
                           pendingEchoSent = 0, missedEchoReplies = 0, readyWaitClosed = False,
                           termAcknowledgedClosed = False, doneResult = None, started = False,
                           linkClosed = False, linkTermination = None, closeErr = [], ready = False,
                           randomMagic = random, draws = 1\<rparr>)))"

subsection \<open>Termination\<close>

text \<open>
  \<open>E.Errors\<close> of results that may be nil, and the close of a connection from the results of its
  \<open>SetDeadline\<close> and \<open>Close\<close>. \<open>isClosed\<close> and \<open>isTimeout\<close> are \<open>E.IsClosed\<close> and \<open>E.IsTimeout\<close>.
\<close>

definition joinErrors :: "go_error option list \<Rightarrow> go_error option" where
  "joinErrors rs = (case concat (map (\<lambda>r. case r of None \<Rightarrow> [] | Some e \<Rightarrow> [e]) rs) of
     [] \<Rightarrow> None | es \<Rightarrow> Some (Joined es))"

definition unlessError :: "(go_error \<Rightarrow> bool) \<Rightarrow> go_error option \<Rightarrow> go_error option" where
  "unlessError ignored r = (case r of None \<Rightarrow> None | Some e \<Rightarrow> if ignored e then None else Some e)"

definition closePPPCarrierConnection ::
  "(go_error \<Rightarrow> bool) \<Rightarrow> (go_error \<Rightarrow> bool) \<Rightarrow> go_error option \<Rightarrow> go_error option \<Rightarrow> go_error option" where
  "closePPPCarrierConnection isClosed isTimeout setDeadline closed =
     (let deadlineErr = map_option (\<lambda>e. Cause e ''set PPP carrier close deadline'') (unlessError isClosed setDeadline);
          closeErr = unlessError (\<lambda>e. isClosed e \<or> isTimeout e) closed
      in joinErrors [deadlineErr, closeErr])"

text \<open>
  The body of \<open>terminateLocked\<close> in the pieces between which it holds neither \<open>access\<close> nor \<open>carrierAccess\<close>: the link is closed, its
  carrier is taken away, \<open>closeResult\<close> is what \<open>closePPPCarrierConnection\<close> then returned for it if there was one, and at last the
  result is published.
\<close>

definition terminateBegin :: "pppLink \<Rightarrow> go_error option \<Rightarrow> pppLink" where
  "terminateBegin l err =
     (if linkClosed l then l
      else l\<lparr>ready := False, linkClosed := True, phase := pppLinkPhaseClosed, linkTermination := Some (TermDetach err)\<rparr>)"

definition terminateDetach :: "pppLink \<Rightarrow> pppLink" where
  "terminateDetach l =
     (case linkTermination l of
        Some (TermDetach err) \<Rightarrow> l\<lparr>carrier := None, linkTermination := Some (TermClose err (carrier l \<noteq> None))\<rparr>
      | _ \<Rightarrow> l)"

definition terminateClosed :: "pppLink \<Rightarrow> go_error option \<Rightarrow> pppLink" where
  "terminateClosed l closeResult =
     (case linkTermination l of
        Some (TermClose err hadCarrier) \<Rightarrow>
          (case (if hadCarrier then closeResult else None) of
             None \<Rightarrow> l\<lparr>linkTermination := Some (TermPublish err)\<rparr>
           | Some e \<Rightarrow> l\<lparr>closeErr := closeErr l @ [Cause e ''close PPP carrier''],
               linkTermination := Some (TermPublish (Some (case err of None \<Rightarrow> e | Some e0 \<Rightarrow> Joined [e0, e])))\<rparr>)
      | _ \<Rightarrow> l)"

definition terminatePublish :: "pppLink \<Rightarrow> pppLink" where
  "terminatePublish l =
     (case linkTermination l of
        Some (TermPublish err) \<Rightarrow> l\<lparr>linkTermination := None, doneResult := Some err\<rparr>
      | _ \<Rightarrow> l)"

text \<open>The whole of it, when nothing else runs in between.\<close>

definition terminateLocked :: "pppLink \<Rightarrow> go_error option \<Rightarrow> go_error option \<Rightarrow> pppLink" where
  "terminateLocked l err closeResult =
     (if linkClosed l then l
      else terminatePublish (terminateClosed (terminateDetach (terminateBegin l err)) closeResult))"

lemmas terminate_defs = terminateBegin_def terminateDetach_def terminateClosed_def terminatePublish_def

definition terminateLink :: "pppLink \<Rightarrow> go_error option \<Rightarrow> go_error option \<Rightarrow> pppLink" where
  "terminateLink l err closeResult = terminateLocked l err closeResult"

definition terminateCarrier ::
  "pppLink \<Rightarrow> u64 \<Rightarrow> go_error \<Rightarrow> pppLinkPhase list \<Rightarrow> go_error option \<Rightarrow> pppLink \<times> bool" where
  "terminateCarrier l gen err phases closeResult =
     (let phaseMatches = (phase l \<in> set phases);
          current = (case carrier l of None \<Rightarrow> False | Some c \<Rightarrow> generation c = gen);
          shouldTerminate = (\<not> linkClosed l \<and> phaseMatches \<and> current)
      in (if shouldTerminate then terminateLocked l (Some err) closeResult else l, shouldTerminate))"

definition Fail :: "pppLink \<Rightarrow> go_error option \<Rightarrow> go_error option \<Rightarrow> pppLink" where
  "Fail l err closeResult =
     terminateLink l (Some (case err of None \<Rightarrow> New ''PPP link failed'' | Some e \<Rightarrow> e)) closeResult"

subsection \<open>Start and carrier switch\<close>

text \<open>What the locked section of \<open>Start\<close> decides.\<close>

datatype startOutcome =
    StartRefused go_error
  | StartJoined
  | StartFailed go_error
  | StartRequested pppOutboundPacket

definition startLocked :: "pppLink \<Rightarrow> instant \<Rightarrow> pppLink \<times> startOutcome" where
  "startLocked l now =
     (if linkClosed l \<or> phase l = pppLinkPhaseTerminating then (l, StartRefused (Sentinel ErrClientClosed))
      else if started l then (l, StartJoined)
      else case buildConfigurationRequestLocked (l\<lparr>started := True\<rparr>) pppProtocolLCP now of
        (l1, Inl err) \<Rightarrow> (l1, StartFailed (markTerminal err))
      | (l1, Inr request) \<Rightarrow> (l1, StartRequested request))"

definition Start :: "pppLink \<Rightarrow> instant \<Rightarrow> go_error option \<Rightarrow> pppLink \<times> startOutcome" where
  "Start l now closeResult =
     (case startLocked l now of
        (l1, StartFailed err) \<Rightarrow> (terminateLink l1 (Some err) closeResult, StartFailed err)
      | (l1, outcome) \<Rightarrow> (l1, outcome))"

definition switchLocked :: "pppLink \<Rightarrow> pppCarrierConfig \<Rightarrow> instant \<Rightarrow> pppLink \<times> startOutcome" where
  "switchLocked l c now =
     (case carrierConnection c of
        None \<Rightarrow> (l, StartRefused (markTerminal (New ''PPP carrier switch requires a connection'')))
      | Some conn \<Rightarrow>
          (case newPPPFrameDecoder (Encapsulation (config l)) of
             Inl err \<Rightarrow> (l, StartRefused err)
           | Inr dec \<Rightarrow>
               if carrierMTU c \<noteq> 0 \<and> (unat (carrierMTU c) < pppMinimumMRU \<or>
                    carrierMTU c > pppMaximumTunnelMTU (Encapsulation (config l)))
               then (l, StartRefused (markTerminal (New ''PPP takeover MTU is outside the supported range'')))
               else if \<not> started l \<or> linkClosed l then (l, StartRefused (Sentinel ErrClientClosed))
               else if phase l \<noteq> pppLinkPhaseNetwork then (l, StartRefused (Sentinel ErrDataChannelNotReady))
               else
                 let l1 = (if carrierMTU c \<noteq> 0
                           then l\<lparr>localMRU := ucast (carrierMTU c), config := (config l)\<lparr>linkMTU := carrierMTU c\<rparr>\<rparr>
                           else l);
                     l2 = resetNegotiationLocked l1 now;
                     l3 = l2\<lparr>carrier := Some \<lparr>connection = conn, datagram = carrierDatagram c,
                            generation = currentGeneration l2 + 1, decoder = dec, writeFailed = False\<rparr>\<rparr>
                 in (case buildConfigurationRequestLocked l3 pppProtocolLCP now of
                       (l4, Inl err) \<Rightarrow> (l4, StartFailed (markTerminal err))
                     | (l4, Inr request) \<Rightarrow> (l4, StartRequested request))))"

text \<open>The sections that follow: closing the previous carrier, whose error is kept, and termination if there is no request.\<close>

definition keepCloseErr :: "string \<Rightarrow> go_error option \<Rightarrow> pppLink \<Rightarrow> pppLink" where
  "keepCloseErr description r l = (case r of None \<Rightarrow> l | Some e \<Rightarrow> l\<lparr>closeErr := closeErr l @ [Cause e description]\<rparr>)"

definition SwitchCarrier ::
  "pppLink \<Rightarrow> pppCarrierConfig \<Rightarrow> instant \<Rightarrow> go_error option \<Rightarrow> go_error option \<Rightarrow> pppLink \<times> startOutcome" where
  "SwitchCarrier l c now oldCloseResult closeResult =
     (case switchLocked l c now of
        (l1, StartFailed err) \<Rightarrow>
          (terminateLink (keepCloseErr ''close previous PPP carrier'' oldCloseResult l1) (Some err) closeResult, StartFailed err)
      | (l1, StartRequested request) \<Rightarrow> (keepCloseErr ''close previous PPP carrier'' oldCloseResult l1, StartRequested request)
      | (l1, outcome) \<Rightarrow> (l1, outcome))"

text \<open>
  The write of the first request, of which \<open>result\<close> is the error if any: a result of \<open>None\<close> means
  that the caller waits for the link to become ready.
\<close>

definition requestWritten ::
  "pppLink \<Rightarrow> pppOutboundPacket \<Rightarrow> go_error option \<Rightarrow> go_error option \<Rightarrow> pppLink \<times> go_error option" where
  "requestWritten l request result closeResult =
     (case result of
        None \<Rightarrow> (l, None)
      | Some err \<Rightarrow>
          (case terminateCarrier l (outGeneration request) err [pppLinkPhaseEstablishing] closeResult of
             (l1, True) \<Rightarrow> (l1, Some err)
           | (l1, False) \<Rightarrow> (l1, None)))"

text \<open>The results that \<open>waitUntilReady\<close> may return; none while both channels are open.\<close>

definition waitUntilReady :: "pppLink \<Rightarrow> go_error option set" where
  "waitUntilReady l =
     (if readyWaitClosed l then {None} else {}) \<union>
     (case doneResult l of
        None \<Rightarrow> {}
      | Some (Some err) \<Rightarrow> {Some err, Some (Sentinel ErrClientClosed)}
      | Some None \<Rightarrow> {Some (Sentinel ErrClientClosed)})"

text \<open>
  The variants that may terminate the carrier themselves: one round of the select when the carrier
  classified its error, and the expiry of the negotiation timeout. A result of \<open>None\<close> means that
  the wait goes on as \<open>waitUntilReady\<close>.
\<close>

definition waitCarrierClassified ::
  "pppLink \<Rightarrow> u64 \<Rightarrow> go_error option \<Rightarrow> go_error option \<Rightarrow> pppLink \<times> go_error option" where
  "waitCarrierClassified l gen classification closeResult =
     (case classification of
        None \<Rightarrow> (l, None)
      | Some err \<Rightarrow> (fst (terminateCarrier l gen err [pppLinkPhaseEstablishing] closeResult), Some err))"

definition waitTimedOut :: "pppLink \<Rightarrow> u64 \<Rightarrow> go_error option \<Rightarrow> pppLink \<times> go_error option" where
  "waitTimedOut l gen closeResult =
     (let timeoutErr = New ''PPP carrier negotiation timed out'' in
      case terminateCarrier l gen timeoutErr [pppLinkPhaseEstablishing] closeResult of
        (l1, True) \<Rightarrow> (l1, Some timeoutErr)
      | (l1, False) \<Rightarrow> (l1, None))"

subsection \<open>Encoding\<close>

definition writePPPHDLCBufferByte :: "bytes \<Rightarrow> byte \<Rightarrow> u32 \<Rightarrow> bytes" where
  "writePPPHDLCBufferByte destination v m =
     (let needsEscape = (v = pppHDLCEscape \<or> v = pppHDLCFlag \<or> v < 0x20 \<and> m AND push_bit (unat v) 1 \<noteq> 0)
      in if needsEscape then (destination @ [pppHDLCEscape]) @ [v XOR 0x20] else destination @ [v])"

definition encodePPPHDLCFrameBuffer :: "bytes \<Rightarrow> bytes \<Rightarrow> u32 \<Rightarrow> bytes" where
  "encodePPPHDLCFrameBuffer buffer header m =
     (let step = (\<lambda>v (fcs, frame). (updatePPPHDLCFCS fcs v, writePPPHDLCBufferByte frame v m));
          (fcs, frame) = fold step header (pppHDLCInitialFCS, [pppHDLCFlag]);
          (fcs, frame) = fold step buffer (fcs, frame);
          fcs = fcs XOR 0xffff;
          frame = writePPPHDLCBufferByte frame (ucast fcs) m;
          frame = writePPPHDLCBufferByte frame (ucast (drop_bit 8 fcs)) m
      in frame @ [pppHDLCFlag])"

definition encodePPPOutboundPacketBuffer :: "pppEncapsulation \<Rightarrow> pppOutboundPacket \<Rightarrow> bytes result" where
  "encodePPPOutboundPacketBuffer e packet =
     (case packetBuffer packet of
        None \<Rightarrow> Inl (New ''invalid empty PPP outbound packet'')
      | Some buffer \<Rightarrow>
          if protocol packet = 0 \<or> buffer = [] then Inl (New ''invalid empty PPP outbound packet'')
          else
            let header = buildPPPPacketHeader (protocol packet) (protocolCompression packet) (addressCompression packet);
                payloadLength = length header + length buffer
            in (case e of
                  pppEncapsulationF5 \<Rightarrow>
                    Inr (put_u16 pppF5Magic @ put_u16 (u16_of payloadLength) @ header @ buffer)
                | pppEncapsulationF5HDLC \<Rightarrow> Inr (encodePPPHDLCFrameBuffer buffer header (asyncMap packet))
                | pppEncapsulationFortinet \<Rightarrow>
                    if payloadLength > pppMaximumPayloadLength - 6
                    then Inl (New ''PPP payload exceeds frame length field'')
                    else Inr (put_u16 (u16_of (6 + payloadLength)) @ put_u16 pppFortinetMagic @
                              put_u16 (u16_of payloadLength) @ header @ buffer)
                | pppEncapsulationOther _ \<Rightarrow>
                    Inl (Extend (Sentinel ErrProtocolNotSupported) ''PPP encapsulation'')))"

definition encodePPPOutboundPacket :: "pppEncapsulation \<Rightarrow> pppOutboundPacket \<Rightarrow> bytes result" where
  "encodePPPOutboundPacket e packet =
     (if packetBuffer packet \<noteq> None then encodePPPOutboundPacketBuffer e packet
      else if protocol packet = 0 \<or> length (payload packet) = 0
      then Inl (New ''invalid empty PPP outbound packet'')
      else encodePPPFrame e
             (buildPPPPacketHeader (protocol packet) (protocolCompression packet) (addressCompression packet) @
              payload packet) (asyncMap packet))"

subsection \<open>Writing\<close>

text \<open>The loop that encodes packets for one generation: the frames before the first failure, and it.\<close>

fun encodePackets :: "pppEncapsulation \<Rightarrow> u64 \<Rightarrow> pppOutboundPacket list \<Rightarrow> bytes list \<times> go_error option" where
  "encodePackets e gen [] = ([], None)"
| "encodePackets e gen (packet # packets) =
     (if outGeneration packet \<noteq> gen then ([], Some (Sentinel ErrDataChannelNotReady))
      else case encodePPPOutboundPacket e packet of
        Inl err \<Rightarrow> ([], Some (markTerminal err))
      | Inr frame \<Rightarrow> apfst ((#) frame) (encodePackets e gen packets))"

text \<open>
  What the connection and the other goroutines do during a write: the result of writing each
  datagram, the result of writing a stream, and whether the carrier is still the link's.
\<close>

record write_env =
  writeDatagram :: "bytes \<Rightarrow> int \<times> go_error option"
  writeStream :: "bytes list \<Rightarrow> go_error option"
  stillCurrent :: bool

definition failWrite :: "pppLink \<Rightarrow> write_env \<Rightarrow> go_error \<Rightarrow> pppLink \<times> go_error option" where
  "failWrite l env err =
     (if stillCurrent env then l\<lparr>carrier := map_option (\<lambda>c. c\<lparr>writeFailed := True\<rparr>) (carrier l)\<rparr> else l,
      Some (if stillCurrent env then err else Sentinel ErrDataChannelNotReady))"

fun writeDatagrams :: "pppLink \<Rightarrow> write_env \<Rightarrow> bytes list \<Rightarrow> pppLink \<times> go_error option" where
  "writeDatagrams l env [] = (l, None)"
| "writeDatagrams l env (frame # frames) =
     (case writeDatagram env frame of
        (n, Some err) \<Rightarrow> failWrite l env (Cause err ''write PPP datagram'')
      | (n, None) \<Rightarrow>
          if n \<noteq> int (length frame) then failWrite l env (New ''short PPP datagram write'')
          else writeDatagrams l env frames)"

definition writeOutboundsLocked ::
  "pppLink \<Rightarrow> write_env \<Rightarrow> pppOutboundPacket list \<Rightarrow> pppLink \<times> go_error option" where
  "writeOutboundsLocked l env packets =
     (case carrier l of
        None \<Rightarrow> (l, Some (Sentinel ErrDataChannelNotReady))
      | Some c \<Rightarrow>
          if generation c \<noteq> outGeneration (hd packets) then (l, Some (Sentinel ErrDataChannelNotReady))
          else
            let (frames, encodeErr) = encodePackets (Encapsulation (config l)) (generation c) packets;
                finish = (\<lambda>l. (l, if stillCurrent env then encodeErr else Some (Sentinel ErrDataChannelNotReady)))
            in if frames = [] then (l, encodeErr)
               else if datagram c then
                 (case writeDatagrams l env frames of
                    (l1, Some err) \<Rightarrow> (l1, Some err)
                  | (l1, None) \<Rightarrow> finish l1)
               else
                 (case writeStream env frames of
                    Some err \<Rightarrow> failWrite l env (Cause err ''write PPP stream frame'')
                  | None \<Rightarrow> finish l))"

definition writeOutbounds ::
  "pppLink \<Rightarrow> write_env \<Rightarrow> pppOutboundPacket list \<Rightarrow> pppLink \<times> go_error option" where
  "writeOutbounds l env packets =
     (if length packets = 0 then (l, None) else writeOutboundsLocked l env packets)"

subsection \<open>Data packets\<close>

text \<open>The validation of one data packet: its protocol, or the error.\<close>

definition dataProtocol :: "pppLink \<Rightarrow> bytes \<Rightarrow> u16 result" where
  "dataProtocol l buffer =
     (if buffer = [] then Inl (New ''empty PPP data packet'')
      else if length buffer > min (unat (localMRU l)) (unat (peerMRU l))
      then Inl (New ''PPP data packet exceeds negotiated MTU'')
      else if drop_bit 4 (hd buffer) = 4 then
        if \<not> wantIPv4 l
        then Inl (Extend (Sentinel ErrProtocolNotSupported) ''PPP IPv4 data on an IPv6-only link'')
        else Inr pppProtocolIPv4
      else if drop_bit 4 (hd buffer) = 6 then
        if \<not> wantIPv6 l
        then Inl (Extend (Sentinel ErrProtocolNotSupported) ''PPP IPv6 data on an IPv4-only link'')
        else Inr pppProtocolIPv6
      else Inl (New ''PPP data packet has an invalid IP version''))"

fun dataPackets :: "pppLink \<Rightarrow> bytes list \<Rightarrow> pppOutboundPacket list \<times> go_error option" where
  "dataPackets l [] = ([], None)"
| "dataPackets l (buffer # buffers) =
     (case dataProtocol l buffer of
        Inl err \<Rightarrow> ([], Some err)
      | Inr p \<Rightarrow> apfst ((#) (outboundPacketBufferLocked l p buffer)) (dataPackets l buffers))"

definition WriteDataPacketBuffers ::
  "(go_error \<Rightarrow> go_error list \<Rightarrow> bool) \<Rightarrow> pppLink \<Rightarrow> write_env \<Rightarrow> bytes list \<Rightarrow> go_error option \<Rightarrow>
     pppLink \<times> go_error option" where
  "WriteDataPacketBuffers isMulti l env buffers closeResult =
     (if \<not> ready l then (l, Some (Sentinel ErrDataChannelNotReady))
      else if linkClosed l \<or> phase l \<noteq> pppLinkPhaseNetwork
      then (l, Some (Sentinel ErrDataChannelNotReady))
      else
        let (packets, validationErr) = dataPackets l buffers
        in if packets = [] then (l, validationErr)
           else (case writeOutbounds l env packets of
             (l1, None) \<Rightarrow> (l1, validationErr)
           | (l1, Some err) \<Rightarrow>
               if isMulti err [Sentinel ErrDataChannelNotReady] then (l1, Some err)
               else (case terminateCarrier l1 (outGeneration (hd packets)) err [pppLinkPhaseNetwork] closeResult of
                       (l2, True) \<Rightarrow> (l2, Some err)
                     | (l2, False) \<Rightarrow> (l2, Some (Sentinel ErrDataChannelNotReady)))))"

definition WriteDataPackets ::
  "(go_error \<Rightarrow> go_error list \<Rightarrow> bool) \<Rightarrow> pppLink \<Rightarrow> write_env \<Rightarrow> bytes list \<Rightarrow> go_error option \<Rightarrow>
     pppLink \<times> go_error option" where
  "WriteDataPackets isMulti l env payloads closeResult =
     (if length payloads = 0 then (l, None) else WriteDataPacketBuffers isMulti l env payloads closeResult)"

definition WriteDataPacket ::
  "(go_error \<Rightarrow> go_error list \<Rightarrow> bool) \<Rightarrow> pppLink \<Rightarrow> write_env \<Rightarrow> bytes \<Rightarrow> go_error option \<Rightarrow>
     pppLink \<times> go_error option" where
  "WriteDataPacket isMulti l env content closeResult = WriteDataPackets isMulti l env [content] closeResult"

subsection \<open>Reading\<close>

text \<open>
  One successful read of the loop of a carrier: the decoder's frames are handled in order until one
  fails. \<open>False\<close> means that the loop goes on.
\<close>

fun handleFrames ::
  "(go_error \<Rightarrow> go_error list \<Rightarrow> bool) \<Rightarrow> (pppOutboundPacket \<Rightarrow> go_error option) \<Rightarrow> pppLink \<Rightarrow> u64 \<Rightarrow>
     bytes list \<Rightarrow> instant \<Rightarrow> go_error option \<Rightarrow> pppLink \<times> bytes list \<times> bool" where
  "handleFrames isMulti write_packet l gen [] now closeResult = (l, [], False)"
| "handleFrames isMulti write_packet l gen (frame # frames) now closeResult =
     (case handleFrame isMulti write_packet l gen frame now of
        (l1, delivery, Some err) \<Rightarrow>
          (fst (terminateCarrier l1 gen err
             ([pppLinkPhaseEstablishing, pppLinkPhaseNetwork] @
              (if isMulti err [errPPPPeerTerminated] then [pppLinkPhaseTerminating] else [])) closeResult),
           (case delivery of None \<Rightarrow> [] | Some d \<Rightarrow> [d]), True)
      | (l1, delivery, None) \<Rightarrow>
          (case handleFrames isMulti write_packet l1 gen frames now closeResult of
             (l2, deliveries, stop) \<Rightarrow>
               (l2, (case delivery of None \<Rightarrow> [] | Some d \<Rightarrow> [d]) @ deliveries, stop)))"

definition readChunk ::
  "(go_error \<Rightarrow> go_error list \<Rightarrow> bool) \<Rightarrow> (pppOutboundPacket \<Rightarrow> go_error option) \<Rightarrow> pppLink \<Rightarrow> pppCarrier \<Rightarrow>
     bytes \<Rightarrow> instant \<Rightarrow> go_error option \<Rightarrow> pppLink \<times> pppFrameDecoder \<times> bytes list \<times> bool" where
  "readChunk isMulti write_packet l c content now closeResult =
     (case Push (decoder c) content of
        (dec, r) \<Rightarrow>
          if datagram c then
            (case handleFrames isMulti write_packet l (generation c)
                    (case r of Inl _ \<Rightarrow> [] | Inr frames \<Rightarrow> frames) now closeResult of
               (l1, deliveries, stop) \<Rightarrow> (l1, fst (Discard dec), deliveries, stop))
          else
            (case r of
               Inl err \<Rightarrow>
                 (fst (terminateCarrier l (generation c) (markTerminal (Cause err ''decode PPP carrier frame''))
                    [pppLinkPhaseEstablishing, pppLinkPhaseNetwork] closeResult), dec, [], True)
             | Inr frames \<Rightarrow>
                 (case handleFrames isMulti write_packet l (generation c) frames now closeResult of
                    (l1, deliveries, stop) \<Rightarrow> (l1, dec, deliveries, stop))))"

text \<open>The end of the loop on a read error; \<open>isCurrent\<close> and \<open>isClosedErr\<close> are what the checks found.\<close>

definition readFailed :: "pppLink \<Rightarrow> pppCarrier \<Rightarrow> go_error \<Rightarrow> bool \<Rightarrow> bool \<Rightarrow> go_error option \<Rightarrow> pppLink" where
  "readFailed l c err isCurrent isClosedErr closeResult =
     (if \<not> isCurrent then l
      else fst (terminateCarrier l (generation c)
             (if err = ioEOF \<or> isClosedErr then New ''PPP carrier closed'' else Cause err ''read PPP carrier'')
             [pppLinkPhaseEstablishing, pppLinkPhaseNetwork] closeResult))"

subsection \<open>The timer loop\<close>

definition timerPeriod :: "pppLinkConfig \<Rightarrow> duration" where
  "timerPeriod c =
     (let period = NegotiationPeriod c div 4;
          period = (if period \<le> 0 \<or> period > 250000000 then 250000000 else period);
          period = (if EchoInterval c > 0 \<and> EchoInterval c div 4 < period then EchoInterval c div 4 else period)
      in if period \<le> 0 then 10000000 else period)"

text \<open>Writing what the timer produced: the first packet that failed, and its error.\<close>

fun firstFailure :: "(pppOutboundPacket \<Rightarrow> go_error option) \<Rightarrow> pppOutboundPacket list \<Rightarrow> (pppOutboundPacket \<times> go_error) option" where
  "firstFailure write_packet [] = None"
| "firstFailure write_packet (packet # packets) =
     (case write_packet packet of
        None \<Rightarrow> firstFailure write_packet packets
      | Some err \<Rightarrow> Some (packet, err))"

text \<open>One tick; the result says whether the loop ends.\<close>

definition timerTick ::
  "(go_error \<Rightarrow> go_error list \<Rightarrow> bool) \<Rightarrow> (pppOutboundPacket \<Rightarrow> go_error option) \<Rightarrow> pppLink \<Rightarrow> instant \<Rightarrow>
     go_error option \<Rightarrow> pppLink \<times> bool" where
  "timerTick isMulti write_packet l now closeResult =
     (let gen = currentGeneration l in
      case handleTimer l now of
        (l1, Inl err) \<Rightarrow>
          if isMulti err [errPPPPeerDead]
          then terminateCarrier l1 gen err [pppLinkPhaseNetwork] closeResult
          else terminateCarrier l1 gen (markTerminal err) [pppLinkPhaseEstablishing, pppLinkPhaseNetwork] closeResult
      | (l1, Inr outbound) \<Rightarrow>
          (case firstFailure write_packet outbound of
             None \<Rightarrow> (l1, False)
           | Some (packet, err) \<Rightarrow>
               if isMulti err [Sentinel ErrDataChannelNotReady] then (l1, False)
               else terminateCarrier l1 (outGeneration packet) err
                      [pppLinkPhaseEstablishing, pppLinkPhaseNetwork] closeResult))"

subsection \<open>Closing\<close>

text \<open>The first section of \<open>Close\<close>; the result is the number of termination attempts, if any.\<close>

definition closeBegin :: "pppLink \<Rightarrow> pppLink \<times> nat option" where
  "closeBegin l =
     (if linkClosed l then (l, None)
      else (l\<lparr>phase := pppLinkPhaseTerminating, ready := False\<rparr>,
            Some (case carrier l of None \<Rightarrow> 1 | Some c \<Rightarrow> if datagram c then 3 else 1)))"

text \<open>One attempt: the request to write, unless the link was closed meanwhile.\<close>

definition closeAttempt :: "pppLink \<Rightarrow> pppLink \<times> pppOutboundPacket result option" where
  "closeAttempt l =
     (if linkClosed l then (l, None)
      else
        let identifier = nextIdentifier (lcp l) + 1;
            l1 = l\<lparr>lcp := (lcp l)\<lparr>nextIdentifier := identifier\<rparr>\<rparr>
        in (l1, Some (map_sum id (outboundPacketLocked l1 pppProtocolLCP)
                        (buildPPPControlPacket pppCodeTerminateRequest identifier []))))"

text \<open>
  What one attempt meets: whether the write lock was taken, the results of the connection's methods
  on each branch, and whether the acknowledgement came before the timer or the end of the link.
\<close>

record close_env =
  contended :: bool
  interruptDeadline :: "go_error option"
  interruptClose :: "go_error option"
  carrierWriteFailed :: bool
  writeDeadline :: "go_error option"
  terminateWrite :: "go_error option"
  acknowledged :: bool

text \<open>The write of one attempt: \<open>Inl\<close> ends the attempts with an error or without.\<close>

definition closeWrite :: "(go_error \<Rightarrow> bool) \<Rightarrow> close_env \<Rightarrow> go_error option + bool" where
  "closeWrite isClosed env =
     (if contended env \<and> interruptDeadline env \<noteq> None then
        (let err = Cause (the (interruptDeadline env)) ''interrupt blocked PPP carrier write'' in
         Inl (Some (case unlessError isClosed (interruptClose env) of
                      None \<Rightarrow> err
                    | Some e \<Rightarrow> Joined [err, Cause e ''close blocked PPP carrier''])))
      else if contended env \<and> carrierWriteFailed env then
        Inl (map_option (\<lambda>e. Cause e ''close PPP carrier after interrupted write'')
               (unlessError isClosed (interruptClose env)))
      else case writeDeadline env of
        Some e \<Rightarrow> Inl (Some (Cause e ''set PPP termination write deadline''))
      | None \<Rightarrow> (case terminateWrite env of Some e \<Rightarrow> Inl (Some e) | None \<Rightarrow> Inr (acknowledged env)))"

fun closeAttempts ::
  "(go_error \<Rightarrow> bool) \<Rightarrow> (nat \<Rightarrow> close_env) \<Rightarrow> nat \<Rightarrow> pppLink \<Rightarrow> pppLink \<times> go_error option" where
  "closeAttempts isClosed env 0 l = (l, None)"
| "closeAttempts isClosed env (Suc n) l =
     (case closeAttempt l of
        (l1, None) \<Rightarrow> (l1, None)
      | (l1, Some (Inl err)) \<Rightarrow> (l1, Some err)
      | (l1, Some (Inr packet)) \<Rightarrow>
          (case closeWrite isClosed (env n) of
             Inl err \<Rightarrow> (l1, err)
           | Inr ack \<Rightarrow> if ack then (l1, None) else closeAttempts isClosed env n l1))"

text \<open>The body of \<open>Close\<close> when nothing else runs in between; \<open>closeErr\<close> of the result is returned.\<close>

definition closeLink ::
  "(go_error \<Rightarrow> bool) \<Rightarrow> (nat \<Rightarrow> close_env) \<Rightarrow> pppLink \<Rightarrow> go_error option \<Rightarrow> pppLink" where
  "closeLink isClosed env l closeResult =
     (case closeBegin l of
        (l1, None) \<Rightarrow> l1
      | (l1, Some attempts) \<Rightarrow>
          (case closeAttempts isClosed env attempts l1 of
             (l2, err) \<Rightarrow>
               let l3 = terminateLink l2 None closeResult in
               keepCloseErr ''terminate PPP link'' (unlessError isClosed err) l3))"

section \<open>A link for the examples\<close>

definition sampleConfig :: pppLinkConfig where
  "sampleConfig = \<lparr>Carrier = \<lparr>carrierConnection = Some 7, carrierDatagram = False, carrierMTU = 0, negotiationTimeout = 0\<rparr>,
     Encapsulation = pppEncapsulationF5, WantIPv4 = True, WantIPv6 = False,
     IPv4Address = PrefixFrom (Addr4 [10, 0, 0, 5]) 32, IPv6Address = noPrefix, LockAddresses = False, linkMTU = 0,
     RequestIPv4NameServers = False, NegotiationPeriod = 0, NegotiationAttempts = 0, EchoInterval = 0, EchoFailures = 0\<rparr>"

definition sampleLink :: pppLink where
  "sampleLink = projr (newPPPLink sampleConfig (\<lambda>_. Inr [1, 2, 3, 4]) 0)"

lemmas sample_simps = newPPPLink_def sampleConfig_def withDefaults_def PrefixFrom_def noPrefix_def prefixValid_def
  pppDefaultTunnelMTU_def pppMinimumMRU_def pppMaximumTunnelMTU_def pppMaximumPayloadLength_def newPPPFrameDecoder_def Let_def

lemma sampleLink_new: "newPPPLink sampleConfig (\<lambda>_. Inr [1, 2, 3, 4]) 0 = Inr sampleLink"
  by (simp add: sampleLink_def sample_simps)

lemma sampleLink_fields:
  "randomMagic sampleLink = (\<lambda>_. Inr [1, 2, 3, 4])" "lcp sampleLink = initialControlState" "ipcp sampleLink = initialControlState"
  "ip6cp sampleLink = initialControlState" "phase sampleLink = pppLinkPhaseEstablishing" "wantIPv4 sampleLink" "\<not> wantIPv6 sampleLink"
  "localIPv4 sampleLink = Addr4 [10, 0, 0, 5]" "\<not> linkClosed sampleLink" "currentGeneration sampleLink = 1" "\<not> started sampleLink"
  "localMagicEnabled sampleLink" "\<not> networkPending sampleLink"
  by (simp_all add: sampleLink_def sample_simps currentGeneration_def)

end
