(* ===== verification/Ppp_Invariants.thy ===== *)
theory Ppp_Invariants
  imports Ppp_Link
begin

text \<open>
  Invariants of a PPP link over every interleaving of its operations: the bounds on retransmission
  and on the MRUs, the life cycle, the addresses of the network phase, and that locked addresses
  stay. \<open>ppp_step\<close> has one rule per locked section of the code.
\<close>

section \<open>What the negotiation leaves alone\<close>

named_theorems ppp_protocols \<open>the protocol numbers are distinct\<close>

lemma ppp_protocol_distinct [simp, ppp_protocols]:
  "pppProtocolIPCP \<noteq> pppProtocolLCP" "pppProtocolIP6CP \<noteq> pppProtocolLCP" "pppProtocolIP6CP \<noteq> pppProtocolIPCP"
  "pppProtocolLCP \<noteq> pppProtocolIPCP" "pppProtocolLCP \<noteq> pppProtocolIP6CP" "pppProtocolIPCP \<noteq> pppProtocolIP6CP"
  by (simp_all add: pppProtocolLCP_def pppProtocolIPCP_def pppProtocolIP6CP_def)

definition untouched :: "pppLink \<Rightarrow> pppLink \<Rightarrow> bool" where
  "untouched l l' \<longleftrightarrow> config l' = config l \<and> carrier l' = carrier l \<and> linkClosed l' = linkClosed l \<and>
     linkTermination l' = linkTermination l \<and> doneResult l' = doneResult l \<and> ready l' = ready l \<and> addressesLocked l' = addressesLocked l \<and>
     readyWaitClosed l' = readyWaitClosed l \<and> localMRU l' = localMRU l \<and> started l' = started l \<and>
     phase l' = phase l"

lemma untouched_refl [simp]: "untouched l l"
  by (simp add: untouched_def)

lemma untouched_trans: "untouched l l1 \<Longrightarrow> untouched l1 l2 \<Longrightarrow> untouched l l2"
  by (simp add: untouched_def)

lemma untouched_updateControl [simp]: "untouched l (updateControl p f l') \<longleftrightarrow> untouched l l'"
  by (simp add: untouched_def updateControl_def)

text \<open>The negotiated parameters that a configuration request does not change.\<close>

definition same_terms :: "pppLink \<Rightarrow> pppLink \<Rightarrow> bool" where
  "same_terms l l' \<longleftrightarrow> untouched l l' \<and> peerMRU l' = peerMRU l \<and> networkPending l' = networkPending l \<and>
     wantIPv4 l' = wantIPv4 l \<and> wantIPv6 l' = wantIPv6 l \<and> localIPv4 l' = localIPv4 l \<and>
     localIPv6 l' = localIPv6 l"

lemma same_terms_refl [simp]: "same_terms l l"
  by (simp add: same_terms_def)

lemma same_terms_trans: "same_terms l l1 \<Longrightarrow> same_terms l1 l2 \<Longrightarrow> same_terms l l2"
  by (auto simp: same_terms_def intro: untouched_trans)

lemma same_terms_updateControl [simp]: "same_terms l (updateControl p f l') \<longleftrightarrow> same_terms l l'"
  by (simp add: same_terms_def) (auto simp: updateControl_def)

definition same_controls :: "pppLink \<Rightarrow> pppLink \<Rightarrow> bool" where
  "same_controls l l' \<longleftrightarrow> lcp l' = lcp l \<and> ipcp l' = ipcp l \<and> ip6cp l' = ip6cp l"

lemma same_controls_refl [simp]: "same_controls l l"
  by (simp add: same_controls_def)

lemma same_controls_trans: "same_controls l l1 \<Longrightarrow> same_controls l1 l2 \<Longrightarrow> same_controls l l2"
  by (simp add: same_controls_def)

lemma requestOptions_frame:
  "same_terms l (fst (requestOptions l p))" "same_controls l (fst (requestOptions l p))"
  by (auto simp: requestOptions_def lcpRequestOptions_def nextMagic_def same_terms_def untouched_def same_controls_def
      Let_def split: sum.splits)

text \<open>A property of all three protocol states, and what an update of one of them has to show.\<close>

definition all_controls :: "(pppControlProtocolState \<Rightarrow> bool) \<Rightarrow> pppLink \<Rightarrow> bool" where
  "all_controls P l \<longleftrightarrow> P (lcp l) \<and> P (ipcp l) \<and> P (ip6cp l)"

lemma all_controls_same: "same_controls l l' \<Longrightarrow> all_controls P l' \<longleftrightarrow> all_controls P l"
  by (simp add: all_controls_def same_controls_def)

lemma controlState_same: "same_controls l l' \<Longrightarrow> controlStateLocked l' p = controlStateLocked l p"
  by (simp add: controlStateLocked_def same_controls_def)

lemma all_controls_update:
  "all_controls P l \<Longrightarrow> (\<And>s. controlStateLocked l p = Inr s \<Longrightarrow> P s \<Longrightarrow> P (f s)) \<Longrightarrow> all_controls P (updateControl p f l)"
  by (auto simp: all_controls_def updateControl_def controlStateLocked_def)

lemma all_controls_state: "all_controls P l \<Longrightarrow> controlStateLocked l p = Inr s \<Longrightarrow> P s"
  by (auto simp: all_controls_def controlStateLocked_def split: if_splits)

text \<open>A configuration request changes nothing but its protocol's state and the magic number.\<close>

lemma build_cases:
  obtains l1 where "same_terms l l1" "same_controls l l1"
    "fst (buildConfigurationRequestLocked l p now) \<in> {l1, updateControl p (markRequest now) l1}"
    "controlStateLocked l p = Inl e \<Longrightarrow> fst (buildConfigurationRequestLocked l p now) = l"
proof (cases "controlStateLocked l p")
  case (Inl err)
  then show ?thesis using that [of l] by (simp add: buildConfigurationRequestLocked_def)
next
  case (Inr state)
  obtain l1 r where r: "requestOptions l p = (l1, r)" by force
  have "fst (buildConfigurationRequestLocked l p now) \<in> {l1, updateControl p (markRequest now) l1}"
    using Inr r by (auto simp: buildConfigurationRequestLocked_def Let_def split: sum.splits)
  with that [of l1] r requestOptions_frame [of l p] Inr show ?thesis by simp
qed

lemma build_frame: "same_terms l (fst (buildConfigurationRequestLocked l p now))"
  by (rule build_cases [of l p now]) auto

section \<open>Bounded retransmission\<close>

definition attempts_ok :: "int \<Rightarrow> pppControlProtocolState \<Rightarrow> bool" where
  "attempts_ok n s \<longleftrightarrow> 0 \<le> requestAttempts s \<and> requestAttempts s \<le> n \<and> (\<not> requestSent s \<longrightarrow> requestAttempts s = 0)"

definition link_attempts :: "pppLink \<Rightarrow> bool" where
  "link_attempts l \<longleftrightarrow> 1 \<le> NegotiationAttempts (config l) \<and>
     all_controls (attempts_ok (NegotiationAttempts (config l))) l"

lemma link_attempts_same:
  "config l' = config l \<Longrightarrow> same_controls l l' \<Longrightarrow> link_attempts l' \<longleftrightarrow> link_attempts l"
  by (simp add: link_attempts_def all_controls_same)

lemma config_updateControl [simp]: "config (updateControl p f l) = config l"
  by (simp add: updateControl_def)

lemma build_attempts:
  assumes "link_attempts l"
    "\<And>s. controlStateLocked l p = Inr s \<Longrightarrow> requestAttempts s < NegotiationAttempts (config l)"
  shows "link_attempts (fst (buildConfigurationRequestLocked l p now))"
proof (rule build_cases [of l p now])
  fix l1 assume l1: "same_terms l l1" "same_controls l l1"
    "fst (buildConfigurationRequestLocked l p now) \<in> {l1, updateControl p (markRequest now) l1}"
  have c: "config l1 = config l" using l1(1) by (simp add: same_terms_def untouched_def)
  have "link_attempts l1" using assms(1) link_attempts_same [OF c l1(2)] by simp
  moreover have "link_attempts (updateControl p (markRequest now) l1)"
    using \<open>link_attempts l1\<close> assms(2) unfolding link_attempts_def config_updateControl c
    by (auto intro!: all_controls_update simp: controlState_same [OF l1(2)] attempts_ok_def markRequest_def)
  ultimately show ?thesis using l1(3) by auto
qed

text \<open>A request that was never sent may always be sent once.\<close>

lemma unsent_attempts:
  "link_attempts l \<Longrightarrow> controlStateLocked l p = Inr s \<Longrightarrow> \<not> requestSent s \<Longrightarrow> requestAttempts s < NegotiationAttempts (config l)"
  using all_controls_state [of "attempts_ok (NegotiationAttempts (config l))" l p s]
  by (auto simp: link_attempts_def attempts_ok_def)

section \<open>Negotiated terms\<close>

text \<open>Once the network phase is reached or due, every wanted family has a usable local address.\<close>

definition link_terms :: "pppLink \<Rightarrow> bool" where
  "link_terms l \<longleftrightarrow> wf_addr (localIPv6 l) \<and> (networkPending l \<or> phase l = pppLinkPhaseNetwork \<longrightarrow>
     (wantIPv4 l \<longrightarrow> addressUsable4 (localIPv4 l)) \<and> (wantIPv6 l \<longrightarrow> addressUsable6 (localIPv6 l)))"

definition link_mru :: "pppLink \<Rightarrow> bool" where
  "link_mru l \<longleftrightarrow> 128 \<le> unat (localMRU l) \<and>
     unat (localMRU l) \<le> unat (pppMaximumTunnelMTU (Encapsulation (config l))) \<and> 128 \<le> unat (peerMRU l)"

definition link_ok :: "pppLink \<Rightarrow> bool" where
  "link_ok l \<longleftrightarrow> link_attempts l \<and> link_terms l \<and> link_mru l"

text \<open>Locked addresses stay as they are.\<close>

definition keeps_addresses :: "pppLink \<Rightarrow> pppLink \<Rightarrow> bool" where
  "keeps_addresses l l' \<longleftrightarrow> (addressesLocked l \<longrightarrow>
     (addrValid (localIPv4 l) \<longrightarrow> localIPv4 l' = localIPv4 l) \<and>
     (Is6 (localIPv6 l) \<and> wf_addr (localIPv6 l) \<longrightarrow> localIPv6 l' = localIPv6 l))"

definition good_step :: "pppLink \<Rightarrow> pppLink \<Rightarrow> bool" where
  "good_step l l' \<longleftrightarrow> (link_ok l \<longrightarrow> link_ok l') \<and> untouched l l' \<and> keeps_addresses l l'"

lemma good_step_refl [simp]: "good_step l l"
  by (simp add: good_step_def keeps_addresses_def)

lemma good_step_trans: "good_step l l1 \<Longrightarrow> good_step l1 l2 \<Longrightarrow> good_step l l2"
  by (auto simp: good_step_def keeps_addresses_def untouched_def)

lemma link_terms_same: "same_terms l l' \<Longrightarrow> link_terms l' \<longleftrightarrow> link_terms l" "same_terms l l' \<Longrightarrow> link_mru l' \<longleftrightarrow> link_mru l"
  by (simp_all add: link_terms_def link_mru_def same_terms_def untouched_def)

lemma same_terms_keeps: "same_terms l l' \<Longrightarrow> keeps_addresses l l'"
  by (simp add: same_terms_def keeps_addresses_def)

lemma same_terms_good:
  "same_terms l l' \<Longrightarrow> (link_attempts l \<Longrightarrow> link_attempts l') \<Longrightarrow> good_step l l'"
  by (auto simp: good_step_def link_ok_def link_terms_same same_terms_keeps) (simp add: same_terms_def)

lemma build_good:
  assumes "\<And>s. link_attempts l \<Longrightarrow> controlStateLocked l p = Inr s \<Longrightarrow> requestAttempts s < NegotiationAttempts (config l)"
  shows "good_step l (fst (buildConfigurationRequestLocked l p now))"
  using build_frame [of l p now] build_attempts [of l p now] assms by (intro same_terms_good) auto

subsection \<open>Advancing\<close>

lemma requestIfWanted_good:
  assumes "controlStateLocked l p = Inr s"
  shows "good_step l (fst (requestIfWanted l w (requestSent s) p now))"
proof (cases "w \<and> \<not> requestSent s")
  case True
  then have "good_step l (fst (buildConfigurationRequestLocked l p now))"
    using unsent_attempts [OF _ assms] assms by (intro build_good) auto
  with True show ?thesis by (auto simp: requestIfWanted_def split: prod.splits sum.splits)
qed (auto simp: requestIfWanted_def)

lemma completeNegotiation_good: "good_step l (fst (completeNegotiation l out))"
  by (auto simp: completeNegotiation_def good_step_def link_ok_def link_attempts_def all_controls_def
      link_terms_def link_mru_def untouched_def keeps_addresses_def)

lemma advance_good: "good_step l (fst (advanceNegotiationLocked l now))"
proof -
  obtain l1 r1 where 1: "requestIfWanted l (wantIPv4 l) (requestSent (ipcp l)) pppProtocolIPCP now = (l1, r1)" by force
  obtain l2 r2 where 2: "requestIfWanted l1 (wantIPv6 l1) (requestSent (ip6cp l1)) pppProtocolIP6CP now = (l2, r2)" by force
  have g1: "good_step l l1"
    using requestIfWanted_good [of l pppProtocolIPCP "ipcp l" "wantIPv4 l" now] 1 by (simp add: controlStateLocked_def)
  have g2: "good_step l1 l2"
    using requestIfWanted_good [of l1 pppProtocolIP6CP "ip6cp l1" "wantIPv6 l1" now] 2 by (simp add: controlStateLocked_def)
  have g3: "good_step l2 (fst (completeNegotiation l2 out))" for out by (rule completeNegotiation_good)
  note t = good_step_trans [OF g1 g2] good_step_trans [OF good_step_trans [OF g1 g2] g3]
  show ?thesis
    using g1 t by (auto simp: advanceNegotiationLocked_def 1 2 split: sum.splits)
qed

subsection \<open>Requests and refusals\<close>

lemma scanOption_good: "good_step l (fst (scanOption p l s x))"
  "snd (scanOption p l s x) = Inr s' \<Longrightarrow> 128 \<le> unat (mru (peerOptions s)) \<Longrightarrow> 128 \<le> unat (mru (peerOptions s'))"
proof -
  have n: "good_step l (l\<lparr>draws := d\<rparr>)" for d
    by (rule same_terms_good) (auto simp: same_terms_def untouched_def link_attempts_def all_controls_def)
  show "good_step l (fst (scanOption p l s x))"
    by (auto simp: scanOption_def scanLCPOption_def nextMagic_def Let_def n split: sum.splits)
  show "snd (scanOption p l s x) = Inr s' \<Longrightarrow> 128 \<le> unat (mru (peerOptions s)) \<Longrightarrow> 128 \<le> unat (mru (peerOptions s'))"
    by (auto simp: scanOption_def scanLCPOption_def scanIPCPOption_def scanIP6CPOption_def nextMagic_def Let_def
        rejectOption_def pppMinimumMRU_def split: sum.splits if_splits)
qed

lemma scanOptions_good:
  "good_step l (fst (scanOptions p l s xs))"
  "snd (scanOptions p l s xs) = Inr s' \<Longrightarrow> 128 \<le> unat (mru (peerOptions s)) \<Longrightarrow> 128 \<le> unat (mru (peerOptions s'))"
proof (induction p l s xs rule: scanOptions.induct)
  case (2 p l s x xs)
  obtain l1 r where r: "scanOption p l s x = (l1, r)" by force
  note o = scanOption_good(1) [of l p s x, unfolded r] scanOption_good(2) [of p l s x, unfolded r]
  show "good_step l (fst (scanOptions p l s (x # xs)))"
    using 2(1) [OF r [symmetric]] o(1) r by (cases r) (auto intro: good_step_trans)
  show "snd (scanOptions p l s (x # xs)) = Inr s' \<Longrightarrow> 128 \<le> unat (mru (peerOptions s)) \<Longrightarrow> 128 \<le> unat (mru (peerOptions s'))"
    using 2(2) [OF r [symmetric]] o(2) r by (cases r) auto
qed simp_all

lemma good_stepI:
  "untouched l l' \<Longrightarrow> (link_attempts l \<Longrightarrow> link_attempts l') \<Longrightarrow> (link_terms l \<Longrightarrow> link_terms l') \<Longrightarrow>
     (link_mru l \<Longrightarrow> link_mru l') \<Longrightarrow> keeps_addresses l l' \<Longrightarrow> good_step l l'"
  by (simp add: good_step_def link_ok_def)

lemma updateControl_good:
  assumes "\<And>s. requestAttempts (f s) = requestAttempts s" "\<And>s. requestSent (f s) = requestSent s"
  shows "good_step l (updateControl p f l)"
proof (rule same_terms_good)
  assume "link_attempts l"
  then show "link_attempts (updateControl p f l)"
    using assms by (auto simp: link_attempts_def attempts_ok_def intro!: all_controls_update)
qed simp

lemma recordPeer_good: "128 \<le> unat (mru (peerOptions s)) \<Longrightarrow> good_step l (recordPeer p s l)"
proof -
  assume m: "128 \<le> unat (mru (peerOptions s))"
  define l1 where "l1 = updateControl p (\<lambda>c. c\<lparr>peerRequestAcknowledged := True\<rparr>) l"
  have 1: "good_step l l1" unfolding l1_def by (rule updateControl_good) simp_all
  have "good_step l1 (recordPeer p s l)"
    using m by (intro good_stepI) (auto simp: recordPeer_def Let_def l1_def [symmetric] untouched_def
        link_attempts_def all_controls_def link_terms_def link_mru_def keeps_addresses_def)
  with 1 show ?thesis by (rule good_step_trans)
qed

lemma answerRequest_good:
  "128 \<le> unat (mru (peerOptions s)) \<Longrightarrow> good_step l (fst (answerRequest l p i content s now))"
  using recordPeer_good [of s l p] advance_good [of "recordPeer p s l" now]
  by (auto simp: answerRequest_def Let_def intro: good_step_trans split: sum.splits prod.splits)

lemma handleConfigurationRequest_good: "good_step l (fst (handleConfigurationRequestLocked l p i content now))"
proof -
  have e: "128 \<le> unat (mru (peerOptions emptyScan))" by (simp add: emptyScan_def pppDefaultMRU_def)
  have "good_step l (fst (case scanOptions p l emptyScan xs of (l1, Inl err) \<Rightarrow> (l1, Inl err)
          | (l1, Inr s) \<Rightarrow> answerRequest l1 p i content s now))" for xs
  proof -
    obtain l1 r where r: "scanOptions p l emptyScan xs = (l1, r)" by force
    have "good_step l l1" using scanOptions_good(1) [of l p emptyScan xs] r by simp
    moreover have "good_step l1 (fst (answerRequest l1 p i content s now))" if "r = Inr s" for s
      using answerRequest_good scanOptions_good(2) [of p l emptyScan xs s] r that e by simp
    ultimately show ?thesis by (cases r) (auto simp: r intro: good_step_trans)
  qed
  then show ?thesis by (auto simp: handleConfigurationRequestLocked_def split: sum.splits)
qed

text \<open>A Nak may set an address only to a usable one, and not to another one when it is locked.\<close>

lemma pppIPv4FromBytes_usable: "pppIPv4FromBytes v = Inr a \<Longrightarrow> \<not> IsUnspecified a \<Longrightarrow> addressUsable4 a"
  by (auto simp: pppIPv4FromBytes_def addressUsable4_def split: if_splits)

lemma refuseIPCPOption_good: "good_step l (fst (refuseIPCPOption code l x))"
proof (rule good_stepI)
  let ?l = "fst (refuseIPCPOption code l x)"
  show "untouched l ?l" "link_attempts l \<Longrightarrow> link_attempts ?l" "link_mru l \<Longrightarrow> link_mru ?l" "keeps_addresses l ?l"
    by (auto simp: refuseIPCPOption_def untouched_def link_attempts_def all_controls_def link_mru_def
        keeps_addresses_def split: sum.splits)
  show "link_terms l \<Longrightarrow> link_terms ?l"
    by (auto simp: refuseIPCPOption_def link_terms_def dest: pppIPv4FromBytes_usable split: sum.splits)
qed

lemma refuseLCPOption_good: "good_step l (fst (refuseLCPOption code l x))"
  by (rule same_terms_good)
    (auto simp: refuseLCPOption_def same_terms_def untouched_def link_attempts_def all_controls_def)

lemma As16_length: "wf_addr a \<Longrightarrow> length (As16 a) = 16"
  by (cases a) (simp_all add: mappedPrefix_def)

lemma pppIPv6FromInterfaceID_wf: "pppIPv6FromInterfaceID v = Inr a \<Longrightarrow> \<exists>bs. a = Addr6 bs \<and> length bs = 16"
  by (auto simp: pppIPv6FromInterfaceID_def split: if_splits)

lemma interfaceID_merge:
  "wf_addr a \<Longrightarrow> length bs = 16 \<Longrightarrow> pppInterfaceID (Addr6 (take 8 (As16 a) @ drop 8 bs)) = pppInterfaceID (Addr6 bs)"
  by (simp add: pppInterfaceID_def As16_length)

lemma interfaceID_same:
  "Is6 a \<Longrightarrow> wf_addr a \<Longrightarrow> length bs = 16 \<Longrightarrow> pppInterfaceID (Addr6 bs) = pppInterfaceID a \<Longrightarrow>
     Addr6 (take 8 (As16 a) @ drop 8 bs) = a"
  by (cases a) (auto simp: pppInterfaceID_def)

lemma refuseIP6CPOption_good: "good_step l (fst (refuseIP6CPOption code l x))"
proof (rule good_stepI)
  let ?l = "fst (refuseIP6CPOption code l x)"
  show "untouched l ?l" "link_attempts l \<Longrightarrow> link_attempts ?l" "link_mru l \<Longrightarrow> link_mru ?l"
    by (auto simp: refuseIP6CPOption_def untouched_def link_attempts_def all_controls_def link_mru_def split: sum.splits)
  show "link_terms l \<Longrightarrow> link_terms ?l"
    by (auto simp: refuseIP6CPOption_def link_terms_def addressUsable6_def As16_length interfaceID_merge
        dest: pppIPv6FromInterfaceID_wf split: sum.splits)
  show "keeps_addresses l ?l"
    by (auto simp: refuseIP6CPOption_def keeps_addresses_def addrValid_def dest!: pppIPv6FromInterfaceID_wf
        intro: interfaceID_same split: sum.splits)
qed

lemma refuseOption_good: "good_step l (fst (refuseOption p code l x))"
  by (simp add: refuseOption_def refuseLCPOption_good refuseIPCPOption_good refuseIP6CPOption_good)

lemma refuseOptions_good: "good_step l (fst (refuseOptions p code l d xs))"
proof (induction p code l d xs rule: refuseOptions.induct)
  case (2 p code l d x xs)
  obtain l1 r where r: "refuseOption p code l x = (l1, r)" by force
  have "good_step l l1" using refuseOption_good [of l p code x] r by simp
  then show ?case using 2 [OF r [symmetric]] r by (cases r) (auto intro: good_step_trans)
qed simp

text \<open>The options of a Nak or Reject leave the protocol states alone, so that the attempts read before still bound it.\<close>

lemma refuseOption_controls: "same_controls l (fst (refuseOption p code l x))"
proof -
  have "same_controls l (fst (refuseLCPOption code l x))" "same_controls l (fst (refuseIPCPOption code l x))"
    "same_controls l (fst (refuseIP6CPOption code l x))"
    by (simp add: refuseLCPOption_def same_controls_def,
        simp add: refuseIPCPOption_def same_controls_def split: sum.split,
        simp add: refuseIP6CPOption_def same_controls_def split: sum.split)
  then show ?thesis by (simp add: refuseOption_def)
qed

lemma refuseOptions_controls: "same_controls l (fst (refuseOptions p code l d xs))"
proof (induction p code l d xs rule: refuseOptions.induct)
  case (2 p code l d x xs)
  obtain l1 r where r: "refuseOption p code l x = (l1, r)" by force
  have "same_controls l (fst (refuseOption p code l x))" by (rule refuseOption_controls)
  then show ?case using 2 [OF r [symmetric]] r by (cases r) (auto intro: same_controls_trans)
qed simp

lemma handleConfigurationNakOrReject_good:
  "good_step l (fst (handleConfigurationNakOrRejectLocked l p i code content now))"
proof -
  have "good_step l (fst (case refuseOptions p code l False xs of
       (l1, Inl err) \<Rightarrow> (l1, Inl err)
     | (l1, Inr disabled) \<Rightarrow>
         if disabled then advanceNegotiationLocked l1 now
         else if requestAttempts state \<ge> NegotiationAttempts (config l1)
         then (l1, Inl (New ''PPP control protocol negotiation attempts exhausted''))
         else (case buildConfigurationRequestLocked l1 p now of
                 (l2, Inl err) \<Rightarrow> (l2, Inl err) | (l2, Inr request) \<Rightarrow> (l2, Inr [request]))))"
    if st: "controlStateLocked l p = Inr state" for xs state
  proof -
    obtain l1 r where r: "refuseOptions p code l False xs = (l1, r)" by force
    have 1: "good_step l l1" "same_controls l l1"
      using refuseOptions_good [of l p code False xs] refuseOptions_controls [of l p code False xs] r by simp_all
    have "good_step l1 (fst (buildConfigurationRequestLocked l1 p now))"
      if "\<not> requestAttempts state \<ge> NegotiationAttempts (config l1)"
      using that st controlState_same [OF 1(2)] by (intro build_good) auto
    with 1 advance_good [of l1 now] show ?thesis
      by (auto simp: r intro: good_step_trans split: sum.splits prod.splits)
  qed
  then show ?thesis by (auto simp: handleConfigurationNakOrRejectLocked_def split: sum.splits)
qed

subsection \<open>Control packets\<close>

lemma protocolRejection_good: "good_step l (fst (protocolRejectionLocked l p content))"
proof -
  have "good_step l (l\<lparr>lcp := (lcp l)\<lparr>nextIdentifier := n\<rparr>\<rparr>)" for n
    by (rule same_terms_good) (auto simp: same_terms_def untouched_def link_attempts_def all_controls_def attempts_ok_def)
  then show ?thesis by (auto simp: protocolRejectionLocked_def Let_def split: sum.splits)
qed

lemma acknowledgeRequest_good: "good_step l (acknowledgeRequest l p)"
proof -
  define l1 where "l1 = updateControl p (\<lambda>c. c\<lparr>requestAcknowledged := True\<rparr>) l"
  have 1: "good_step l l1" unfolding l1_def by (rule updateControl_good) simp_all
  have "good_step l1 (acknowledgeRequest l p)"
    by (rule same_terms_good) (auto simp: acknowledgeRequest_def Let_def l1_def [symmetric] same_terms_def untouched_def
        link_attempts_def all_controls_def)
  with 1 show ?thesis by (rule good_step_trans)
qed

lemma handleProtocolRejection_good: "good_step l (fst (handleProtocolRejection l p content now))"
proof -
  have w: "good_step l (l\<lparr>wantIPv4 := False\<rparr>)" "good_step l (l\<lparr>wantIPv6 := False\<rparr>)"
    by (auto intro!: good_stepI simp: untouched_def link_attempts_def all_controls_def link_terms_def link_mru_def
        keeps_addresses_def)
  have a: "good_step l (fst (advanceNegotiationLocked l1 now))" if "good_step l l1" for l1
    using good_step_trans [OF that advance_good] .
  show ?thesis
    using w by (auto simp: handleProtocolRejection_def Let_def notTerminated_def intro: a)
qed

text \<open>Updates of fields that no property here depends on.\<close>

lemma idle_good:
  "same_terms l l' \<Longrightarrow> same_controls l l' \<Longrightarrow> good_step l l'"
  using link_attempts_same [of l' l] by (intro same_terms_good) (auto simp: same_terms_def untouched_def)

text \<open>What a control packet may do: negotiate, or end the link because the peer asked for it.\<close>

definition control_step :: "pppLink \<Rightarrow> pppLink \<Rightarrow> bool" where
  "control_step l l' \<longleftrightarrow> good_step l l' \<or> l' = l\<lparr>phase := pppLinkPhaseTerminating\<rparr>"

lemma good_control: "good_step l l' \<Longrightarrow> control_step l l'"
  by (simp add: control_step_def)

lemma control_if: "(c \<Longrightarrow> control_step l a) \<Longrightarrow> (\<not> c \<Longrightarrow> control_step l b) \<Longrightarrow> control_step l (if c then a else b)"
  by simp

lemma notTerminated_fst [simp]: "fst (notTerminated r) = fst r"
  by (simp add: notTerminated_def)

lemma handleControlPacket_step: "control_step l (fst (handleControlPacketLocked l p packet now))"
proof -
  have ack: "good_step l (fst (advanceNegotiationLocked (acknowledgeRequest l p) now))"
    using good_step_trans [OF acknowledgeRequest_good advance_good] .
  have echo: "good_step l (fst (handleEchoRequest l i c))" for i c
    by (simp add: handleEchoRequest_def Let_def split: sum.split)
  have idle: "good_step l (l\<lparr>termAcknowledgedClosed := True\<rparr>)"
    "good_step l (l\<lparr>pendingEcho := False, missedEchoReplies := 0\<rparr>)"
    by (rule idle_good; simp add: same_terms_def untouched_def same_controls_def)+
  have "control_step l (l\<lparr>phase := pppLinkPhaseTerminating\<rparr>)" by (simp add: control_step_def)
  note steps = this idle ack echo handleConfigurationRequest_good handleConfigurationNakOrReject_good handleProtocolRejection_good
  show ?thesis
  proof (cases "parsePPPControlPacket packet")
    case (Inr r)
    obtain code i c where "r = (code, i, c)" by (cases r)
    with Inr have pk: "parsePPPControlPacket packet = Inr (code, i, c)" by simp
    show ?thesis
      unfolding handleControlPacketLocked_def pk sum.case prod.case if_distrib [of fst] Let_def fst_conv notTerminated_fst
      by (intro control_if) (simp_all add: steps good_control split: sum.split)
  qed (simp add: handleControlPacketLocked_def good_control)
qed

lemma handleFrameBegin_step:
  "\<exists>l1. good_step l l1 \<and> control_step l1 (fst (handleFrameBegin isMulti l gen frame now))"
proof -
  define l1 where "l1 = l\<lparr>lastReceived := now, pendingEcho := False, missedEchoReplies := 0\<rparr>"
  have 1: "good_step l l1"
    by (rule idle_good) (simp_all add: l1_def same_terms_def untouched_def same_controls_def)
  have r: "fst (case x of (l2, r) \<Rightarrow> (l2, controlOutcome isMulti r)) = fst x" for x :: control_result by (cases x) simp
  note steps = handleControlPacket_step [of l1] protocolRejection_good [of l1, THEN good_control]
    good_control [OF good_step_refl, of l1]
  show ?thesis
  proof (cases "linkClosed l \<or> gen \<noteq> currentGeneration l \<or> isl (parsePPPPacket frame)")
    case True
    then have "fst (handleFrameBegin isMulti l gen frame now) = l"
      by (auto simp: handleFrameBegin_def split: sum.splits)
    then show ?thesis using good_control [OF good_step_refl, of l] good_step_refl by metis
  next
    case False
    then obtain p c where pk: "parsePPPPacket frame = Inr (p, c)" by (cases "parsePPPPacket frame") auto
    have "control_step l1 (fst (handleFrameBegin isMulti l gen frame now))"
      using False unfolding handleFrameBegin_def pk sum.case prod.case Let_def l1_def [symmetric] if_distrib [of fst] fst_conv r
        notTerminated_fst by (intro control_if) (simp_all add: steps)
    with 1 show ?thesis by blast
  qed
qed

subsection \<open>Timers\<close>

lemma retransmit_good: "good_step l (fst (retransmit l p now))"
proof (cases "controlStateLocked l p")
  case (Inr state)
  have "good_step l (fst (buildConfigurationRequestLocked l p now))"
    if "\<not> requestAttempts state \<ge> NegotiationAttempts (config l)"
    using that Inr by (intro build_good) auto
  then show ?thesis using Inr by (auto simp: retransmit_def split: sum.splits prod.splits)
qed (simp add: retransmit_def)

lemma retransmitAll_good: "good_step l (fst (retransmitAll l ps now))"
proof (induction l ps now rule: retransmitAll.induct)
  case (2 l p ps now)
  obtain l1 r where r: "retransmit l p now = (l1, r)" by force
  have "good_step l l1" using retransmit_good [of l p now] r by simp
  then show ?case using 2 [OF r [symmetric]] r by (cases r) (auto intro: good_step_trans split: prod.splits sum.splits)
qed simp

lemma sendEcho_good: "good_step l (fst (sendEcho l out now))"
proof -
  have "good_step l (l\<lparr>lcp := (lcp l)\<lparr>nextIdentifier := i\<rparr>, pendingEchoIdentifier := i, pendingEcho := True, pendingEchoSent := now\<rparr>)" for i
    by (rule same_terms_good) (auto simp: same_terms_def untouched_def link_attempts_def all_controls_def attempts_ok_def)
  then show ?thesis by (simp add: sendEcho_def Let_def split: sum.split)
qed

lemma handleTimer_good: "good_step l (fst (handleTimer l now))"
proof -
  obtain l1 r where r: "retransmitAll l [pppProtocolLCP, pppProtocolIPCP, pppProtocolIP6CP] now = (l1, r)" by force
  have 1: "good_step l l1"
    using retransmitAll_good [of l "[pppProtocolLCP, pppProtocolIPCP, pppProtocolIP6CP]" now] r by simp
  have m: "good_step l1 (l1\<lparr>missedEchoReplies := n\<rparr>)" for n
    by (rule idle_good) (simp_all add: same_terms_def untouched_def same_controls_def)
  have e: "good_step l (fst (sendEcho l1 out now))" "good_step l (fst (sendEcho (l1\<lparr>missedEchoReplies := n\<rparr>) out now))"
    "good_step l (l1\<lparr>missedEchoReplies := n\<rparr>)" for n out
    using 1 m sendEcho_good good_step_trans by blast+
  show ?thesis
    using 1 e by (simp add: handleTimer_def r Let_def del: retransmitAll.simps split: sum.split)
qed

end
