(* ===== verification/Ppp_Lifecycle.thy ===== *)
theory Ppp_Lifecycle
  imports Ppp_Invariants
begin

text \<open>
  The life cycle of a PPP link: a step relation with one rule per locked section of the code, the
  states it reaches from a new link, and the invariants of all of them. The goroutines of a link
  may run these sections in any order once the link was started.
\<close>

section \<open>Steps\<close>

inductive ppp_step :: "(go_error \<Rightarrow> go_error list \<Rightarrow> bool) \<Rightarrow> pppLink \<Rightarrow> pppLink \<Rightarrow> bool"
  for isMulti :: "go_error \<Rightarrow> go_error list \<Rightarrow> bool" where
  step_start: "ppp_step isMulti l (fst (startLocked l now))"
| step_switch: "ppp_step isMulti l (fst (switchLocked l c now))"
| step_frame: "started l \<Longrightarrow> ppp_step isMulti l (fst (handleFrameBegin isMulti l gen frame now))"
| step_finish: "started l \<Longrightarrow> ppp_step isMulti l (fst (handleFrameFinish l gen))"
| step_timer: "started l \<Longrightarrow> ppp_step isMulti l (fst (handleTimer l now))"
| step_terminate: "ppp_step isMulti l (terminateBegin l err)"
| step_detach: "ppp_step isMulti l (terminateDetach l)"
| step_carrier_closed: "ppp_step isMulti l (terminateClosed l closed)"
| step_publish: "ppp_step isMulti l (terminatePublish l)"
| step_close_err: "ppp_step isMulti l (keepCloseErr description r l)"
| step_write: "ppp_step isMulti l (fst (writeOutbounds l env packets))"
| step_close: "ppp_step isMulti l (fst (closeBegin l))"
| step_close_attempt: "ppp_step isMulti l (fst (closeAttempt l))"

inductive ppp_run :: "(go_error \<Rightarrow> go_error list \<Rightarrow> bool) \<Rightarrow> pppLink \<Rightarrow> pppLink \<Rightarrow> bool"
  for isMulti :: "go_error \<Rightarrow> go_error list \<Rightarrow> bool" where
  run_refl: "ppp_run isMulti l l"
| run_step: "ppp_run isMulti l l1 \<Longrightarrow> ppp_step isMulti l1 l2 \<Longrightarrow> ppp_run isMulti l l2"

section \<open>The life-cycle invariant\<close>

definition link_end :: "pppLink \<Rightarrow> bool" where
  "link_end l \<longleftrightarrow>
     (linkClosed l \<longleftrightarrow> phase l = pppLinkPhaseClosed) \<and> (linkClosed l \<longrightarrow> linkTermination l \<noteq> None \<or> doneResult l \<noteq> None) \<and>
     (linkTermination l \<noteq> None \<longrightarrow> linkClosed l \<and> doneResult l = None) \<and> (doneResult l \<noteq> None \<longrightarrow> linkClosed l) \<and>
     (carrier l = None \<longleftrightarrow> linkClosed l \<and> (\<forall>err. linkTermination l \<noteq> Some (TermDetach err)))"

definition link_life :: "pppLink \<Rightarrow> bool" where
  "link_life l \<longleftrightarrow> link_end l \<and>
     (phase l = pppLinkPhaseNetwork \<longrightarrow> ready l) \<and>
     (ready l \<longrightarrow> phase l \<in> {pppLinkPhaseNetwork, pppLinkPhaseTerminating} \<and> readyWaitClosed l \<and> addressesLocked l)"

text \<open>A link stays closed, and its result stays.\<close>

definition keeps_end :: "pppLink \<Rightarrow> pppLink \<Rightarrow> bool" where
  "keeps_end l l' \<longleftrightarrow> (linkClosed l \<longrightarrow> linkClosed l') \<and>
     (\<forall>r. linkClosed l \<and> linkTermination l = None \<and> doneResult l = Some r \<longrightarrow> linkTermination l' = None \<and> doneResult l' = Some r)"

lemma keeps_endI: "linkClosed l' = linkClosed l \<Longrightarrow> linkTermination l' = linkTermination l \<Longrightarrow> doneResult l' = doneResult l \<Longrightarrow> keeps_end l l'"
  by (simp add: keeps_end_def)

text \<open>Before \<open>Start\<close> nothing was requested.\<close>

definition not_started :: "pppLink \<Rightarrow> bool" where
  "not_started l \<longleftrightarrow> (\<not> started l \<longrightarrow> \<not> requestSent (lcp l))"

definition link_inv :: "pppLink \<Rightarrow> bool" where
  "link_inv l \<longleftrightarrow> link_ok l \<and> link_life l \<and> not_started l"

definition keeps_run :: "pppLink \<Rightarrow> pppLink \<Rightarrow> bool" where
  "keeps_run l l' \<longleftrightarrow> keeps_addresses l l' \<and> (addressesLocked l \<longrightarrow> addressesLocked l') \<and> keeps_end l l'"

lemma keeps_run_refl [simp]: "keeps_run l l"
  by (simp add: keeps_run_def keeps_addresses_def keeps_end_def)

lemma keeps_run_trans: "keeps_run l l1 \<Longrightarrow> keeps_run l1 l2 \<Longrightarrow> keeps_run l l2"
  by (auto simp: keeps_run_def keeps_addresses_def keeps_end_def)

definition inv_step :: "pppLink \<Rightarrow> pppLink \<Rightarrow> bool" where
  "inv_step l l' \<longleftrightarrow> (link_inv l \<longrightarrow> link_inv l') \<and> keeps_run l l'"

lemma inv_step_refl [simp]: "inv_step l l"
  by (simp add: inv_step_def)

lemma inv_step_trans: "inv_step l l1 \<Longrightarrow> inv_step l1 l2 \<Longrightarrow> inv_step l l2"
  by (auto simp: inv_step_def intro: keeps_run_trans)

lemma good_inv: "good_step l l' \<Longrightarrow> started l \<Longrightarrow> inv_step l l'"
  by (auto simp: inv_step_def good_step_def link_inv_def link_life_def link_end_def untouched_def keeps_run_def keeps_end_def
      not_started_def)

text \<open>A step that leaves the negotiated terms and the protocol states alone.\<close>

definition same_negotiation :: "pppLink \<Rightarrow> pppLink \<Rightarrow> bool" where
  "same_negotiation l l' \<longleftrightarrow> config l' = config l \<and> link_attempts l' = link_attempts l \<and> localMRU l' = localMRU l \<and>
     peerMRU l' = peerMRU l \<and> localIPv4 l' = localIPv4 l \<and> localIPv6 l' = localIPv6 l \<and>
     wantIPv4 l' = wantIPv4 l \<and> wantIPv6 l' = wantIPv6 l \<and> addressesLocked l' = addressesLocked l \<and>
     started l' = started l \<and> requestSent (lcp l') = requestSent (lcp l) \<and> networkPending l' = networkPending l"

lemma same_negotiation_inv:
  assumes "same_negotiation l l'" "link_life l \<Longrightarrow> link_life l'" "phase l' = pppLinkPhaseNetwork \<Longrightarrow> phase l = pppLinkPhaseNetwork"
    "keeps_end l l'"
  shows "inv_step l l'"
  using assms by (auto simp: inv_step_def same_negotiation_def link_inv_def link_ok_def link_terms_def link_mru_def
      keeps_run_def keeps_addresses_def not_started_def)

subsection \<open>Termination and closing\<close>

lemma link_attempts_update [simp]:
  "link_attempts (l\<lparr>phase := p\<rparr>) = link_attempts l" "link_attempts (l\<lparr>ready := b\<rparr>) = link_attempts l"
  "link_attempts (l\<lparr>linkClosed := b\<rparr>) = link_attempts l" "link_attempts (l\<lparr>carrier := c\<rparr>) = link_attempts l"
  "link_attempts (l\<lparr>linkTermination := t\<rparr>) = link_attempts l" "link_attempts (l\<lparr>closeErr := es\<rparr>) = link_attempts l" "link_attempts (l\<lparr>doneResult := d\<rparr>) = link_attempts l"
  "link_attempts (l\<lparr>started := b\<rparr>) = link_attempts l" "link_attempts (l\<lparr>networkPending := b\<rparr>) = link_attempts l"
  "link_attempts (l\<lparr>addressesLocked := b\<rparr>) = link_attempts l" "link_attempts (l\<lparr>readyWaitClosed := b\<rparr>) = link_attempts l"
  "link_attempts (l\<lparr>lcp := (lcp l)\<lparr>nextIdentifier := i\<rparr>\<rparr>) = link_attempts l"
  by (simp_all add: link_attempts_def all_controls_def attempts_ok_def)

lemma terminateBegin_inv: "inv_step l (terminateBegin l err)"
  by (rule same_negotiation_inv)
    (auto simp: terminateBegin_def same_negotiation_def link_life_def link_end_def keeps_end_def split: if_split_asm)

lemma terminateDetach_inv: "inv_step l (terminateDetach l)"
  by (rule same_negotiation_inv)
    (auto simp: terminateDetach_def same_negotiation_def link_life_def link_end_def keeps_end_def split: option.split pppTermination.split
      option.split_asm pppTermination.split_asm)

lemma terminateClosed_inv: "inv_step l (terminateClosed l closed)"
  by (rule same_negotiation_inv)
    (auto simp: terminateClosed_def same_negotiation_def link_life_def link_end_def keeps_end_def split: option.split pppTermination.split
      option.split_asm pppTermination.split_asm)

lemma terminatePublish_inv: "inv_step l (terminatePublish l)"
  by (rule same_negotiation_inv)
    (auto simp: terminatePublish_def same_negotiation_def link_life_def link_end_def keeps_end_def split: option.split pppTermination.split
      option.split_asm pppTermination.split_asm)

lemma keepCloseErr_inv: "inv_step l (keepCloseErr description r l)"
  by (rule same_negotiation_inv)
    (auto simp: keepCloseErr_def same_negotiation_def link_life_def link_end_def keeps_end_def split: option.split option.split_asm)

lemma closeBegin_inv: "inv_step l (fst (closeBegin l))"
  by (rule same_negotiation_inv) (auto simp: closeBegin_def same_negotiation_def link_life_def link_end_def keeps_end_def split: if_splits)

lemma closeAttempt_inv: "inv_step l (fst (closeAttempt l))"
  by (rule same_negotiation_inv)
    (auto simp: closeAttempt_def same_negotiation_def link_life_def link_end_def keeps_end_def Let_def split: if_splits)

subsection \<open>Writing\<close>

lemma failWrite_inv: "inv_step l (fst (failWrite l env e))"
  by (rule same_negotiation_inv) (auto simp: failWrite_def same_negotiation_def link_life_def link_end_def keeps_end_def split: if_split_asm)

lemma writeDatagrams_inv: "inv_step l (fst (writeDatagrams l env frames))"
  by (induction l env frames rule: writeDatagrams.induct) (auto simp: failWrite_inv split: prod.splits option.splits)

lemma writeOutbounds_inv: "inv_step l (fst (writeOutbounds l env packets))"
proof -
  have "inv_step l (fst (case writeDatagrams l env frames of (l1, Some err) \<Rightarrow> (l1, Some err) | (l1, None) \<Rightarrow> (l1, f l1)))"
    for frames and f :: "pppLink \<Rightarrow> go_error option"
    using writeDatagrams_inv [of l env frames] by (auto split: prod.splits option.splits)
  then show ?thesis
    by (auto simp: writeOutbounds_def writeOutboundsLocked_def Let_def failWrite_inv split: option.split prod.split)
qed

subsection \<open>Frames\<close>

lemma handleFrameBegin_inv: "started l \<Longrightarrow> inv_step l (fst (handleFrameBegin isMulti l gen frame now))"
proof (cases "linkClosed l")
  case True
  then show ?thesis by (simp add: handleFrameBegin_def)
next
  case False
  assume "started l"
  obtain l1 where 1: "good_step l l1" "control_step l1 (fst (handleFrameBegin isMulti l gen frame now))"
    using handleFrameBegin_step by blast
  have s: "started l1" "\<not> linkClosed l1"
    using 1(1) \<open>started l\<close> False by (simp_all add: good_step_def untouched_def)
  have t: "inv_step l1 (l1\<lparr>phase := pppLinkPhaseTerminating\<rparr>)"
    by (rule same_negotiation_inv) (use s in \<open>auto simp: same_negotiation_def link_life_def link_end_def keeps_end_def\<close>)
  have "inv_step l1 (fst (handleFrameBegin isMulti l gen frame now))"
    using 1(2) t good_inv s(1) by (auto simp: control_step_def)
  with good_inv [OF 1(1) \<open>started l\<close>] show ?thesis by (rule inv_step_trans)
qed

text \<open>The second section enters the network phase, with the addresses that the first one checked.\<close>

lemma enterNetwork_inv:
  assumes "networkPending l" "\<not> linkClosed l" "started l"
  shows "inv_step l (l\<lparr>phase := pppLinkPhaseNetwork, networkPending := False, ready := True, addressesLocked := True, readyWaitClosed := True\<rparr>)"
    (is "inv_step l ?l")
proof -
  have "link_attempts ?l = link_attempts l" by (simp add: link_attempts_def all_controls_def)
  moreover have "link_terms l \<Longrightarrow> link_terms ?l" "link_mru l \<Longrightarrow> link_mru ?l"
    using assms(1) by (simp_all add: link_terms_def link_mru_def)
  moreover have "link_life l \<Longrightarrow> link_life ?l" using assms(2) by (simp add: link_life_def link_end_def)
  moreover have "keeps_end l ?l" by (rule keeps_endI) simp_all
  ultimately show ?thesis
    using assms(3) by (simp add: inv_step_def link_inv_def link_ok_def not_started_def keeps_run_def keeps_addresses_def)
qed

lemma handleFrameFinish_inv: "started l \<Longrightarrow> inv_step l (fst (handleFrameFinish l gen))"
  using enterNetwork_inv [of l] by (simp add: handleFrameFinish_def Let_def)

subsection \<open>Start and carrier switch\<close>

lemma build_inv:
  assumes "started l" "link_inv l \<Longrightarrow> \<not> requestSent (lcp l)"
  shows "inv_step l (fst (buildConfigurationRequestLocked l pppProtocolLCP now))"
proof (cases "link_inv l")
  case True
  then have "good_step l (fst (buildConfigurationRequestLocked l pppProtocolLCP now))"
    using assms(2) unsent_attempts [of l pppProtocolLCP] by (intro build_good) (auto simp: controlStateLocked_def)
  then show ?thesis using assms(1) by (rule good_inv)
next
  case False
  have "same_terms l (fst (buildConfigurationRequestLocked l pppProtocolLCP now))" by (rule build_frame)
  with False show ?thesis
    by (simp add: inv_step_def keeps_run_def same_terms_keeps) (simp add: same_terms_def untouched_def keeps_end_def)
qed

lemma startLocked_inv: "inv_step l (fst (startLocked l now))"
proof (cases "linkClosed l \<or> phase l = pppLinkPhaseTerminating \<or> started l")
  case True
  then show ?thesis by (auto simp: startLocked_def)
next
  case False
  let ?l = "l\<lparr>started := True\<rparr>"
  obtain l1 r where r: "buildConfigurationRequestLocked ?l pppProtocolLCP now = (l1, r)" by force
  have 1: "inv_step l ?l"
    by (auto simp: inv_step_def link_inv_def link_ok_def link_terms_def link_mru_def link_life_def link_end_def not_started_def
        keeps_run_def keeps_addresses_def keeps_end_def)
  have "inv_step l l1"
  proof (cases "link_inv l")
    case True
    then have "inv_step ?l l1"
      using build_inv [of ?l now] False r by (auto simp: link_inv_def not_started_def)
    with 1 show ?thesis by (rule inv_step_trans)
  next
    case nv: False
    have "same_terms ?l l1" using build_frame [of ?l pppProtocolLCP now] r by simp
    with nv show ?thesis
      by (auto simp: inv_step_def keeps_run_def keeps_addresses_def keeps_end_def same_terms_def untouched_def)
  qed
  then show ?thesis using False r by (auto simp: startLocked_def split: sum.split)
qed

lemma unat_tunnel_mtu:
  "m \<le> pppMaximumTunnelMTU e \<Longrightarrow> unat (ucast m :: u16) = unat m"
  "m \<le> pppMaximumTunnelMTU e \<Longrightarrow> unat m \<le> unat (pppMaximumTunnelMTU e)"
proof -
  assume m: "m \<le> pppMaximumTunnelMTU e"
  then have u: "unat m \<le> unat (pppMaximumTunnelMTU e)" by (simp add: word_le_nat_alt)
  have "unat (pppMaximumTunnelMTU e) \<le> 65531"
    by (simp add: pppMaximumTunnelMTU_def pppMaximumPayloadLength_def Let_def)
  with u have "unat m < 65536" by simp
  then show "unat (ucast m :: u16) = unat m"
    by (simp add: unsigned_ucast_eq take_bit_nat_eq_self)
  show "unat m \<le> unat (pppMaximumTunnelMTU e)" by (rule u)
qed

text \<open>The link that a switch leaves before it builds the new request.\<close>

lemma switched_inv:
  fixes l m c now k
  assumes "started l" "\<not> linkClosed l" "phase l = pppLinkPhaseNetwork"
    and m: "m = localMRU l \<or> 128 \<le> unat m \<and> unat m \<le> unat (pppMaximumTunnelMTU (Encapsulation (config l)))"
    and c: "NegotiationAttempts c = NegotiationAttempts (config l)" "Encapsulation c = Encapsulation (config l)"
  defines "l3 \<equiv> (resetNegotiationLocked (l\<lparr>localMRU := m, config := c\<rparr>) now)\<lparr>carrier := Some k\<rparr>"
  shows "inv_step l l3" "started l3" "\<not> requestSent (lcp l3)"
proof -
  have "link_ok l \<Longrightarrow> link_ok l3"
    using m c by (auto simp: l3_def resetNegotiationLocked_def link_ok_def link_attempts_def all_controls_def attempts_ok_def
        initialControlState_def link_terms_def link_mru_def pppDefaultMRU_def)
  moreover have "link_life l \<Longrightarrow> link_life l3"
    using assms(2) by (auto simp: l3_def resetNegotiationLocked_def link_life_def link_end_def)
  moreover show "started l3" using assms(1) by (simp add: l3_def resetNegotiationLocked_def)
  moreover have "keeps_run l l3" by (simp add: l3_def resetNegotiationLocked_def keeps_run_def keeps_addresses_def keeps_end_def)
  ultimately show "inv_step l l3" by (auto simp: inv_step_def link_inv_def not_started_def)
  show "\<not> requestSent (lcp l3)" by (simp add: l3_def resetNegotiationLocked_def initialControlState_def)
qed

text \<open>What a successful switch comes to.\<close>

lemma switchLocked_accepted:
  fixes l c conn dec now
  defines "m \<equiv> if carrierMTU c \<noteq> 0 then ucast (carrierMTU c) else localMRU l"
    and "cfg \<equiv> if carrierMTU c \<noteq> 0 then (config l)\<lparr>linkMTU := carrierMTU c\<rparr> else config l"
  defines "l2 \<equiv> resetNegotiationLocked (l\<lparr>localMRU := m, config := cfg\<rparr>) now"
  defines "l3 \<equiv> l2\<lparr>carrier := Some \<lparr>connection = conn, datagram = carrierDatagram c,
                            generation = currentGeneration l + 1, decoder = dec, writeFailed = False\<rparr>\<rparr>"
  assumes "carrierConnection c = Some conn" "newPPPFrameDecoder (Encapsulation (config l)) = Inr dec"
    "\<not> (carrierMTU c \<noteq> 0 \<and> (unat (carrierMTU c) < pppMinimumMRU \<or> carrierMTU c > pppMaximumTunnelMTU (Encapsulation (config l))))"
    "started l" "\<not> linkClosed l" "phase l = pppLinkPhaseNetwork"
    "buildConfigurationRequestLocked l3 pppProtocolLCP now = (l4, built)"
  shows "switchLocked l c now = (l4, case built of Inl err \<Rightarrow> StartFailed (markTerminal err) | Inr request \<Rightarrow> StartRequested request)"
proof -
  have "(if carrierMTU c \<noteq> 0 then l\<lparr>localMRU := ucast (carrierMTU c), config := (config l)\<lparr>linkMTU := carrierMTU c\<rparr>\<rparr> else l)
      = l\<lparr>localMRU := m, config := cfg\<rparr>"
    by (simp add: m_def cfg_def)
  moreover have "currentGeneration l2 = currentGeneration l"
    by (simp add: l2_def resetNegotiationLocked_def currentGeneration_def)
  ultimately have "switchLocked l c now = (case (l4, built) of
       (l4, Inl err) \<Rightarrow> (l4, StartFailed (markTerminal err)) | (l4, Inr request) \<Rightarrow> (l4, StartRequested request))"
    using assms(5-) unfolding switchLocked_def Let_def
    by (simp only: option.case sum.case if_not_P if_False not_not de_Morgan_disj simp_thms l2_def [symmetric] l3_def [symmetric])
  then show ?thesis by (cases built) simp_all
qed

lemma SwitchCarrier_accepted:
  assumes "switchLocked l c now = (l4, case built of Inl err \<Rightarrow> StartFailed (markTerminal err) | Inr request \<Rightarrow> StartRequested request)"
  shows "SwitchCarrier l c now oldClosed closed =
     (let l5 = keepCloseErr ''close previous PPP carrier'' oldClosed l4
      in case built of
           Inl err \<Rightarrow> (terminateLink l5 (Some (markTerminal err)) closed, StartFailed (markTerminal err))
         | Inr request \<Rightarrow> (l5, StartRequested request))"
  by (cases built) (simp_all add: SwitchCarrier_def assms)

lemma keepCloseErr_fields [simp]:
  "carrier (keepCloseErr t r l) = carrier l" "linkClosed (keepCloseErr t r l) = linkClosed l" "phase (keepCloseErr t r l) = phase l"
  "ready (keepCloseErr t r l) = ready l"
  by (simp_all add: keepCloseErr_def split: option.split)

lemma switchLocked_refused:
  "carrierConnection c = None \<or> isl (newPPPFrameDecoder (Encapsulation (config l))) \<or>
   carrierMTU c \<noteq> 0 \<and> (unat (carrierMTU c) < pppMinimumMRU \<or> carrierMTU c > pppMaximumTunnelMTU (Encapsulation (config l))) \<or>
   \<not> started l \<or> linkClosed l \<or> phase l \<noteq> pppLinkPhaseNetwork \<Longrightarrow>
   \<exists>err. switchLocked l c now = (l, StartRefused err)"
  by (cases "newPPPFrameDecoder (Encapsulation (config l))"; cases "carrierConnection c")
    (auto simp: switchLocked_def Let_def)

lemma SwitchCarrier_refused:
  "carrierConnection c = None \<or> isl (newPPPFrameDecoder (Encapsulation (config l))) \<or>
   carrierMTU c \<noteq> 0 \<and> (unat (carrierMTU c) < pppMinimumMRU \<or> carrierMTU c > pppMaximumTunnelMTU (Encapsulation (config l))) \<or>
   \<not> started l \<or> linkClosed l \<or> phase l \<noteq> pppLinkPhaseNetwork \<Longrightarrow>
   \<exists>err. SwitchCarrier l c now oldClosed closed = (l, StartRefused err)"
  using switchLocked_refused [of c l now] by (auto simp: SwitchCarrier_def)

lemma switchLocked_inv: "inv_step l (fst (switchLocked l c now))"
proof (cases "carrierConnection c = None \<or> isl (newPPPFrameDecoder (Encapsulation (config l))) \<or>
   carrierMTU c \<noteq> 0 \<and> (unat (carrierMTU c) < pppMinimumMRU \<or> carrierMTU c > pppMaximumTunnelMTU (Encapsulation (config l))) \<or>
   \<not> started l \<or> linkClosed l \<or> phase l \<noteq> pppLinkPhaseNetwork")
  case True
  then obtain err where "switchLocked l c now = (l, StartRefused err)"
    using switchLocked_refused [of c l now] by blast
  then show ?thesis by simp
next
  case False
  then obtain conn dec where cd: "carrierConnection c = Some conn" "newPPPFrameDecoder (Encapsulation (config l)) = Inr dec"
    by (cases "newPPPFrameDecoder (Encapsulation (config l))") auto
  define m where "m = (if carrierMTU c \<noteq> 0 then ucast (carrierMTU c) else localMRU l)"
  define cfg where "cfg = (if carrierMTU c \<noteq> 0 then (config l)\<lparr>linkMTU := carrierMTU c\<rparr> else config l)"
  define k where "k = \<lparr>connection = conn, datagram = carrierDatagram c, generation = currentGeneration l + 1, decoder = dec, writeFailed = False\<rparr>"
  define l3 where "l3 = (resetNegotiationLocked (l\<lparr>localMRU := m, config := cfg\<rparr>) now)\<lparr>carrier := Some k\<rparr>"
  obtain l4 built where b: "buildConfigurationRequestLocked l3 pppProtocolLCP now = (l4, built)" by force
  have m: "m = localMRU l \<or> 128 \<le> unat m \<and> unat m \<le> unat (pppMaximumTunnelMTU (Encapsulation (config l)))"
    using False unat_tunnel_mtu [of "carrierMTU c" "Encapsulation (config l)"] by (auto simp: m_def pppMinimumMRU_def not_less)
  have "NegotiationAttempts cfg = NegotiationAttempts (config l)" "Encapsulation cfg = Encapsulation (config l)"
    by (simp_all add: cfg_def)
  then have 3: "inv_step l l3" "started l3" "\<not> requestSent (lcp l3)"
    unfolding l3_def using False by (intro switched_inv m; simp)+
  have 4: "inv_step l l4"
    using inv_step_trans [OF 3(1) build_inv [of l3 now]] 3 b by simp
  note acc = switchLocked_accepted [OF cd _ _ _ _ b [unfolded l3_def k_def m_def cfg_def]]
  show ?thesis using False 4 by (simp add: acc)
qed

section \<open>Reachable links\<close>

lemma ppp_step_inv: "ppp_step isMulti l l' \<Longrightarrow> inv_step l l'"
  by (induction rule: ppp_step.cases)
    (simp_all add: startLocked_inv switchLocked_inv handleFrameBegin_inv handleFrameFinish_inv terminateBegin_inv terminateDetach_inv
      terminateClosed_inv terminatePublish_inv keepCloseErr_inv writeOutbounds_inv closeBegin_inv closeAttempt_inv good_inv [OF handleTimer_good])

text \<open>The operations that consist of several sections are runs.\<close>

lemma ppp_run_trans: "ppp_run isMulti l1 l2 \<Longrightarrow> ppp_run isMulti l l1 \<Longrightarrow> ppp_run isMulti l l2"
  by (induction rule: ppp_run.induct) (auto intro: run_step)

lemma terminateLocked_run: "ppp_run isMulti l (terminateLocked l err closed)"
  by (auto simp: terminateLocked_def intro!: run_refl intro: run_step [OF run_step [OF run_step [OF run_step [OF run_refl
    step_terminate] step_detach] step_carrier_closed] step_publish])

lemma terminateCarrier_run: "ppp_run isMulti l (fst (terminateCarrier l gen e phases closed))"
  by (simp add: terminateCarrier_def Let_def terminateLocked_run run_refl)

lemma Start_run: "ppp_run isMulti l (fst (Start l now closed))"
proof -
  have 1: "ppp_run isMulti l (fst (startLocked l now))" by (rule run_step [OF run_refl step_start])
  have "fst (Start l now closed) = fst (startLocked l now) \<or> (\<exists>err. fst (Start l now closed) = terminateLocked (fst (startLocked l now)) err closed)"
    by (auto simp: Start_def terminateLink_def split: prod.split startOutcome.split)
  then show ?thesis using 1 ppp_run_trans [OF terminateLocked_run 1] by auto
qed

lemma SwitchCarrier_run: "ppp_run isMulti l (fst (SwitchCarrier l c now oldClosed closed))"
proof -
  let ?l1 = "fst (switchLocked l c now)"
  let ?l2 = "keepCloseErr ''close previous PPP carrier'' oldClosed ?l1"
  have 1: "ppp_run isMulti l ?l1" by (rule run_step [OF run_refl step_switch])
  have 2: "ppp_run isMulti l ?l2" by (rule run_step [OF 1 step_close_err])
  have "fst (SwitchCarrier l c now oldClosed closed) \<in> {?l1, ?l2} \<or>
      (\<exists>err. fst (SwitchCarrier l c now oldClosed closed) = terminateLocked ?l2 err closed)"
    by (auto simp: SwitchCarrier_def terminateLink_def split: prod.split startOutcome.split)
  then show ?thesis using 1 2 ppp_run_trans [OF terminateLocked_run 2] by auto
qed

lemma ppp_run_inv: "ppp_run isMulti l l' \<Longrightarrow> inv_step l l'"
  by (induction rule: ppp_run.induct) (auto intro: inv_step_trans ppp_step_inv)

lemma withDefaults_simps [simp]:
  "linkMTU (withDefaults c) = linkMTU c" "Encapsulation (withDefaults c) = Encapsulation c"
  "1 \<le> NegotiationAttempts (withDefaults c)" "0 \<le> NegotiationAttempts (withDefaults c)" "IPv6Address (withDefaults c) = IPv6Address c"
  "IPv4Address (withDefaults c) = IPv4Address c" "WantIPv4 (withDefaults c) = WantIPv4 c" "WantIPv6 (withDefaults c) = WantIPv6 c"
  "LockAddresses (withDefaults c) = LockAddresses c"
  by (auto simp: withDefaults_def pppDefaultNegotiationTries_def)

lemma newPPPLink_shape:
  assumes "newPPPLink c random now = Inr l"
  obtains c1 where "c1 = (if linkMTU c = 0 then c\<lparr>linkMTU := pppDefaultTunnelMTU\<rparr> else c)" "config l = withDefaults c1"
    "128 \<le> unat (linkMTU c1)" "linkMTU c1 \<le> pppMaximumTunnelMTU (Encapsulation c1)"
    "localMRU l = ucast (linkMTU c1)" "localIPv6 l = prefixAddr (IPv6Address c1)"
    "lcp l = initialControlState" "ipcp l = initialControlState" "ip6cp l = initialControlState"
    "\<not> networkPending l" "phase l = pppLinkPhaseEstablishing" "peerMRU l = pppDefaultMRU" "\<not> linkClosed l"
    "doneResult l = None" "linkTermination l = None" "carrier l \<noteq> None" "\<not> ready l" "\<not> started l"
proof -
  define c1 where "c1 = (if linkMTU c = 0 then c\<lparr>linkMTU := pppDefaultTunnelMTU\<rparr> else c)"
  note eq = assms [unfolded newPPPLink_def Let_def, folded c1_def]
  show ?thesis
    by (rule that [OF c1_def]; insert eq;
        simp add: pppMinimumMRU_def not_less split: option.split_asm if_split_asm sum.split_asm; auto)
qed

lemma newPPPLink_inv:
  assumes "newPPPLink c random now = Inr l" "wf_addr (prefixAddr (IPv6Address c))"
  shows "link_inv l"
proof (rule newPPPLink_shape [OF assms(1)])
  fix c1
  assume c1: "c1 = (if linkMTU c = 0 then c\<lparr>linkMTU := pppDefaultTunnelMTU\<rparr> else c)" and a: "config l = withDefaults c1"
    "128 \<le> unat (linkMTU c1)" "linkMTU c1 \<le> pppMaximumTunnelMTU (Encapsulation c1)"
    "localMRU l = ucast (linkMTU c1)" "localIPv6 l = prefixAddr (IPv6Address c1)"
    and b: "lcp l = initialControlState" "ipcp l = initialControlState" "ip6cp l = initialControlState"
    "\<not> networkPending l" "phase l = pppLinkPhaseEstablishing" "peerMRU l = pppDefaultMRU" "\<not> linkClosed l"
    "doneResult l = None" "linkTermination l = None" "carrier l \<noteq> None" "\<not> ready l" "\<not> started l"
  have "wf_addr (localIPv6 l)" using a(5) assms(2) by (simp add: c1)
  then show ?thesis
    using a b unat_tunnel_mtu [OF a(3)]
    by (simp add: link_inv_def link_ok_def link_attempts_def all_controls_def attempts_ok_def initialControlState_def
        link_terms_def link_mru_def link_life_def link_end_def not_started_def pppDefaultMRU_def)
qed

lemma reachable_inv:
  "newPPPLink c random now = Inr l0 \<Longrightarrow> wf_addr (prefixAddr (IPv6Address c)) \<Longrightarrow> ppp_run isMulti l0 l \<Longrightarrow> link_inv l"
  using newPPPLink_inv [of c random now l0] ppp_run_inv [of isMulti l0 l] by (simp add: inv_step_def)

end
