(* ===== verification/Ppp_Answers.thy ===== *)
theory Ppp_Answers
  imports Ppp_Invariants
begin

text \<open>
  What a PPP link answers to a configuration request of the peer: it rejects exactly the options it
  does not know or cannot read, asks for other values of those it cannot take, and otherwise
  acknowledges the request as it came.
\<close>

section \<open>Which options are refused\<close>

definition rejectable :: "u16 \<Rightarrow> pppOption \<Rightarrow> bool" where
  "rejectable p x \<longleftrightarrow>
     (if p = pppProtocolLCP then
        \<not> (kind x = pppLCPOptionMRU \<and> length (optionValue x) = 2 \<or>
           kind x \<in> {pppLCPOptionAsyncMap, pppLCPOptionMagic} \<and> length (optionValue x) = 4 \<or>
           kind x \<in> {pppLCPOptionProtocolCompression, pppLCPOptionAddressCompression} \<and> optionValue x = [])
      else if p = pppProtocolIPCP then
        \<not> (kind x = pppIPCPOptionAddresses \<and> length (optionValue x) = 8 \<or>
           kind x = pppIPCPOptionAddress \<and> length (optionValue x) = 4)
      else \<not> (kind x = pppIP6CPOptionInterfaceID \<and> length (optionValue x) = 8))"

definition nakable :: "u16 \<Rightarrow> pppLink \<Rightarrow> pppOption \<Rightarrow> bool" where
  "nakable p l x \<longleftrightarrow> p = pppProtocolLCP \<and>
     (kind x = pppLCPOptionMRU \<and> length (optionValue x) = 2 \<and> unat (get_u16 (optionValue x)) < pppMinimumMRU \<or>
      kind x = pppLCPOptionMagic \<and> length (optionValue x) = 4 \<and> localMagicEnabled l \<and> optionValue x = localMagic l)"

definition control_protocol :: "u16 \<Rightarrow> bool" where
  "control_protocol p \<longleftrightarrow> p = pppProtocolLCP \<or> p = pppProtocolIPCP \<or> p = pppProtocolIP6CP"

text \<open>The number source gives four bytes when it gives any.\<close>

definition magic_ok :: "pppLink \<Rightarrow> bool" where
  "magic_ok l \<longleftrightarrow> (\<forall>n m. randomMagic l n = Inr m \<longrightarrow> length m = 4)"

section \<open>Scanning a request\<close>

definition same_link :: "pppLink \<Rightarrow> pppLink \<Rightarrow> bool" where
  "same_link l l' \<longleftrightarrow> (\<exists>d. l' = l\<lparr>draws := d\<rparr>)"

lemma same_link_facts:
  "same_link l l' \<Longrightarrow> nakable p l' = nakable p l" "same_link l l' \<Longrightarrow> magic_ok l' = magic_ok l"
  "same_link l l' \<Longrightarrow> controlStateLocked l' p = controlStateLocked l p"
  "same_link l l1 \<Longrightarrow> same_link l1 l2 \<Longrightarrow> same_link l l2"
  by (auto simp: same_link_def nakable_def magic_ok_def controlStateLocked_def fun_eq_iff)

lemma same_link_refl [simp]: "same_link l l" "same_link l (l\<lparr>draws := d\<rparr>)"
  unfolding same_link_def by (rule exI [of _ "draws l"], simp, blast)

lemma option_kinds [simp]:
  "pppLCPOptionAsyncMap \<noteq> pppLCPOptionMRU" "pppLCPOptionMagic \<noteq> pppLCPOptionMRU" "pppLCPOptionMagic \<noteq> pppLCPOptionAsyncMap"
  "pppLCPOptionProtocolCompression \<noteq> pppLCPOptionMRU" "pppLCPOptionProtocolCompression \<noteq> pppLCPOptionAsyncMap"
  "pppLCPOptionProtocolCompression \<noteq> pppLCPOptionMagic" "pppLCPOptionAddressCompression \<noteq> pppLCPOptionMRU"
  "pppLCPOptionAddressCompression \<noteq> pppLCPOptionAsyncMap" "pppLCPOptionAddressCompression \<noteq> pppLCPOptionMagic"
  "pppIPCPOptionAddress \<noteq> pppIPCPOptionAddresses"
  by (simp_all add: pppLCPOptionMRU_def pppLCPOptionAsyncMap_def pppLCPOptionMagic_def pppLCPOptionProtocolCompression_def
      pppLCPOptionAddressCompression_def pppIPCPOptionAddress_def pppIPCPOptionAddresses_def)

lemmas option_kinds' [simp] = option_kinds [symmetric]

text \<open>What scanning one option adds: its bytes to the rejection, or another value to the Nak, or nothing.\<close>

definition scanned :: "u16 \<Rightarrow> pppLink \<Rightarrow> pppOption list \<Rightarrow> requestScan \<Rightarrow> requestScan \<Rightarrow> bool" where
  "scanned p l xs s s' \<longleftrightarrow>
     rejected s' = rejected s @ concat (map raw (filter (rejectable p) xs)) \<and>
     (\<exists>vs. length vs = length (filter (nakable p l) xs) \<and> list_all (\<lambda>v. length v \<le> 253) vs \<and>
        negativeAcknowledgement s' = negativeAcknowledgement s @
          concat (map (\<lambda>(k, v). appendPPPOption [] k v) (zip (map kind (filter (nakable p l) xs)) vs)))"

lemma scanned_nil: "scanned p l [] s s"
  by (simp add: scanned_def)

lemma scanned_cons: "scanned p l [x] s s1 \<Longrightarrow> scanned p l xs s1 s' \<Longrightarrow> scanned p l (x # xs) s s'"
proof -
  assume 1: "scanned p l [x] s s1" and 2: "scanned p l xs s1 s'"
  obtain vs1 vs2 where v: "length vs1 = length (filter (nakable p l) [x])" "list_all (\<lambda>v. length v \<le> 253) vs1"
    "negativeAcknowledgement s1 = negativeAcknowledgement s @
          concat (map (\<lambda>(k, v). appendPPPOption [] k v) (zip (map kind (filter (nakable p l) [x])) vs1))"
    "length vs2 = length (filter (nakable p l) xs)" "list_all (\<lambda>v. length v \<le> 253) vs2"
    "negativeAcknowledgement s' = negativeAcknowledgement s1 @
          concat (map (\<lambda>(k, v). appendPPPOption [] k v) (zip (map kind (filter (nakable p l) xs)) vs2))"
    using 1 2 unfolding scanned_def by blast
  have "map kind (filter (nakable p l) (x # xs)) = map kind (filter (nakable p l) [x]) @ map kind (filter (nakable p l) xs)" by simp
  then have "negativeAcknowledgement s' = negativeAcknowledgement s @
          concat (map (\<lambda>(k, v). appendPPPOption [] k v) (zip (map kind (filter (nakable p l) (x # xs))) (vs1 @ vs2)))"
    using v(1) by (simp only: v(3,6) zip_append length_map map_append concat_append append_assoc)
  moreover have "length (vs1 @ vs2) = length (filter (nakable p l) (x # xs))" using v(1,4) by (simp split: if_split_asm)
  ultimately show ?thesis
    using 1 2 v(2,5) unfolding scanned_def by (intro conjI exI [of _ "vs1 @ vs2"]) auto
qed

lemma scanned_none:
  "\<not> rejectable p x \<Longrightarrow> \<not> nakable p l x \<Longrightarrow> rejected s1 = rejected s \<Longrightarrow>
     negativeAcknowledgement s1 = negativeAcknowledgement s \<Longrightarrow> scanned p l [x] s s1"
  by (simp add: scanned_def)

lemma scanned_reject: "rejectable p x \<Longrightarrow> \<not> nakable p l x \<Longrightarrow> scanned p l [x] s (rejectOption x s)"
  by (simp add: scanned_def rejectOption_def)

lemma scanned_nak:
  assumes "\<not> rejectable p x" "nakable p l x" "rejected s1 = rejected s" "length v \<le> 253"
    "negativeAcknowledgement s1 = appendPPPOption (negativeAcknowledgement s) (kind x) v"
  shows "scanned p l [x] s s1"
proof -
  have "negativeAcknowledgement s1 = negativeAcknowledgement s @ appendPPPOption [] (kind x) v"
    using assms(5) by (simp add: appendPPPOption_def)
  then show ?thesis
    unfolding scanned_def using assms(3,4) by (intro conjI exI [of _ "[v]"]) (simp_all add: assms(1,2))
qed

lemma scanLCPOption_scanned:
  assumes "scanLCPOption l s x = (l1, Inr s1)" "magic_ok l"
  shows "scanned pppProtocolLCP l [x] s s1 \<and> same_link l l1"
proof -
  consider "kind x = pppLCPOptionMRU" | "kind x = pppLCPOptionAsyncMap" | "kind x = pppLCPOptionMagic"
    | "kind x \<in> {pppLCPOptionProtocolCompression, pppLCPOptionAddressCompression}"
    | "kind x \<notin> {pppLCPOptionMRU, pppLCPOptionAsyncMap, pppLCPOptionMagic, pppLCPOptionProtocolCompression, pppLCPOptionAddressCompression}"
    by blast
  then show ?thesis
  proof cases
    case 1
    have v: "length (put_u16 (u16_of pppMinimumMRU)) \<le> 253" by simp
    show ?thesis
    proof (cases "length (optionValue x) = 2")
      case True
      show ?thesis
      proof (cases "unat (get_u16 (optionValue x)) < pppMinimumMRU")
        case m: True
        with 1 True assms(1) show ?thesis
          by (auto simp: scanLCPOption_def Let_def appendPPPOptionUint16_def rejectable_def nakable_def
              intro!: scanned_nak [OF _ _ _ v])
      next
        case False
        with 1 True assms(1) show ?thesis
          by (auto simp: scanLCPOption_def Let_def rejectable_def nakable_def intro!: scanned_none)
      qed
    next
      case False
      with 1 assms(1) show ?thesis
        by (auto simp: scanLCPOption_def rejectable_def nakable_def intro!: scanned_reject)
    qed
  next
    case 2
    with assms(1) show ?thesis
      by (auto simp: scanLCPOption_def rejectable_def nakable_def intro!: scanned_reject scanned_none split: if_split_asm)
  next
    case 3
    show ?thesis
    proof (cases "length (optionValue x) = 4")
      case True
      show ?thesis
      proof (cases "localMagicEnabled l \<and> optionValue x = localMagic l")
        case m: True
        with 3 True assms(1) obtain v where v: "randomMagic l (draws l) = Inr v" and l1: "l1 = l\<lparr>draws := draws l + 1\<rparr>"
          and s1: "s1 = s\<lparr>peerOptions := (peerOptions s)\<lparr>magic := optionValue x\<rparr>,
             negativeAcknowledgement := appendPPPOption (negativeAcknowledgement s) (kind x) v\<rparr>"
          by (auto simp: scanLCPOption_def nextMagic_def Let_def split: sum.split_asm)
        have "length v \<le> 253" using v assms(2) by (auto simp: magic_ok_def)
        then have "scanned pppProtocolLCP l [x] s s1"
          using 3 True m by (intro scanned_nak) (simp_all add: rejectable_def nakable_def s1)
        then show ?thesis by (simp add: l1)
      next
        case False
        with 3 True assms(1) show ?thesis
          by (auto simp: scanLCPOption_def Let_def rejectable_def nakable_def intro!: scanned_none)
      qed
    next
      case False
      with 3 assms(1) show ?thesis by (auto simp: scanLCPOption_def rejectable_def nakable_def intro!: scanned_reject)
    qed
  next
    case 4
    with assms(1) show ?thesis
      by (auto simp: scanLCPOption_def rejectable_def nakable_def intro!: scanned_reject scanned_none split: if_split_asm)
  next
    case 5
    with assms(1) show ?thesis
      by (auto simp: scanLCPOption_def rejectable_def nakable_def intro!: scanned_reject)
  qed
qed

lemma scanOption_scanned:
  assumes "scanOption p l s x = (l1, Inr s1)" "control_protocol p" "magic_ok l"
  shows "scanned p l [x] s s1 \<and> same_link l l1"
proof -
  consider "p = pppProtocolLCP" | "p = pppProtocolIPCP" | "p = pppProtocolIP6CP" using assms(2) by (auto simp: control_protocol_def)
  then show ?thesis
  proof cases
    case 1
    then show ?thesis using scanLCPOption_scanned assms by (simp add: scanOption_def)
  next
    case 2
    then show ?thesis
      using assms(1) by (auto simp: scanOption_def scanIPCPOption_def rejectable_def nakable_def pppIPv4FromBytes_def
          intro!: scanned_none scanned_reject split: if_split_asm sum.split_asm)
  next
    case 3
    then show ?thesis
      using assms(1) by (auto simp: scanOption_def scanIP6CPOption_def rejectable_def nakable_def pppIPv6FromInterfaceID_def
          intro!: scanned_none scanned_reject split: if_split_asm sum.split_asm)
  qed
qed

lemma scanOptions_scanned:
  "scanOptions p l s xs = (l', Inr s') \<Longrightarrow> control_protocol p \<Longrightarrow> magic_ok l \<Longrightarrow> scanned p l xs s s' \<and> same_link l l'"
proof (induction p l s xs arbitrary: rule: scanOptions.induct)
  case (2 p l s x xs)
  then obtain l1 s1 where 1: "scanOption p l s x = (l1, Inr s1)" and rest: "scanOptions p l1 s1 xs = (l', Inr s')"
    by (auto split: prod.split_asm sum.split_asm)
  have s1: "scanned p l [x] s s1" "same_link l l1" using scanOption_scanned [OF 1 2(3,4)] by auto
  have "scanned p l1 xs s1 s' \<and> same_link l1 l'"
    using 2(1) [OF 1 [symmetric] refl rest 2(3)] 2(4) same_link_facts(2) [OF s1(2)] by simp
  moreover have "scanned p l1 xs s1 s' = scanned p l xs s1 s'"
    by (simp add: scanned_def same_link_facts(1) [OF s1(2)])
  ultimately show ?case using s1 scanned_cons same_link_facts(4) by blast
qed (simp add: scanned_nil)

section \<open>The replies\<close>

text \<open>What the peer reads from a reply, and whether the link counts the peer's request as acknowledged.\<close>

definition readReply :: "pppOutboundPacket \<Rightarrow> (byte \<times> byte \<times> bytes) result" where
  "readReply out = parsePPPControlPacket (payload out)"

definition peerAcknowledged :: "pppLink \<Rightarrow> u16 \<Rightarrow> bool" where
  "peerAcknowledged l p = (case controlStateLocked l p of Inl _ \<Rightarrow> False | Inr s \<Rightarrow> peerRequestAcknowledged s)"

lemma peerAcknowledged_update:
  "(\<And>s. peerRequestAcknowledged (f s) = peerRequestAcknowledged s) \<Longrightarrow> peerAcknowledged (updateControl q f l) p = peerAcknowledged l p"
  by (simp add: peerAcknowledged_def updateControl_def controlStateLocked_def)

lemma build_peerAcknowledged: "peerAcknowledged (fst (buildConfigurationRequestLocked l q now)) p = peerAcknowledged l p"
proof (rule build_cases [of l q now])
  fix l1 assume l1: "same_controls l l1" "fst (buildConfigurationRequestLocked l q now) \<in> {l1, updateControl q (markRequest now) l1}"
  have "peerAcknowledged l1 p = peerAcknowledged l p"
    using controlState_same [OF l1(1)] by (simp add: peerAcknowledged_def)
  moreover have "peerAcknowledged (updateControl q (markRequest now) l1) p = peerAcknowledged l1 p"
    by (rule peerAcknowledged_update) (simp add: markRequest_def)
  ultimately show ?thesis using l1(2) by auto
qed

lemma advance_peerAcknowledged: "peerAcknowledged (fst (advanceNegotiationLocked l now)) p = peerAcknowledged l p"
proof -
  have r: "peerAcknowledged (fst (requestIfWanted l w sent q now)) p = peerAcknowledged l p" for l w sent q
    using build_peerAcknowledged [of l q now p] by (auto simp: requestIfWanted_def split: prod.splits sum.splits)
  have c: "peerAcknowledged (fst (completeNegotiation l out)) p = peerAcknowledged l p" for l out
    by (simp add: completeNegotiation_def peerAcknowledged_def controlStateLocked_def)
  obtain l1 r1 where 1: "requestIfWanted l (wantIPv4 l) (requestSent (ipcp l)) pppProtocolIPCP now = (l1, r1)" by force
  obtain l2 r2 where 2: "requestIfWanted l1 (wantIPv6 l1) (requestSent (ip6cp l1)) pppProtocolIP6CP now = (l2, r2)" by force
  have "peerAcknowledged l1 p = peerAcknowledged l p" "peerAcknowledged l2 p = peerAcknowledged l1 p"
    using r [of l "wantIPv4 l" "requestSent (ipcp l)" pppProtocolIPCP] 1 r [of l1 "wantIPv6 l1" "requestSent (ip6cp l1)" pppProtocolIP6CP] 2
    by simp_all
  then show ?thesis by (auto simp: advanceNegotiationLocked_def 1 2 c split: sum.split)
qed

lemma recordPeer_peerAcknowledged: "control_protocol p \<Longrightarrow> peerAcknowledged (recordPeer p s l) p"
  by (auto simp: control_protocol_def recordPeer_def updateControl_def peerAcknowledged_def controlStateLocked_def Let_def)

lemma readReply_outbound:
  "buildPPPControlPacket code i content = Inr control \<Longrightarrow> readReply (outboundPacketLocked l p control) = Inr (code, i, content)"
  by (simp add: readReply_def outboundPacketLocked_def parsePPPControlPacket_built)

lemma optionalReply_read:
  "optionalReply l p code i content = Inr outs \<Longrightarrow> map readReply outs = (if content = [] then [] else [Inr (code, i, content)])"
  by (auto simp: optionalReply_def readReply_outbound split: if_split_asm sum.split_asm)

lemma answerRequest_ack:
  assumes "answerRequest l p i content s now = (l', Inr out)" "rejected s = []" "negativeAcknowledgement s = []" "control_protocol p"
  shows "peerAcknowledged l' p \<and> (\<exists>more. map readReply out = Inr (pppCodeConfigureAcknowledgement, i, content) # more)"
proof -
  obtain control more where c: "buildPPPControlPacket pppCodeConfigureAcknowledgement i content = Inr control"
    and a: "advanceNegotiationLocked (recordPeer p s l) now = (l', Inr more)"
    and out: "out = outboundPacketLocked l p control # more"
    using assms(1-3) by (auto simp: answerRequest_def optionalReply_def Let_def split: sum.split_asm prod.split_asm)
  have "peerAcknowledged l' p"
    using advance_peerAcknowledged [of "recordPeer p s l" now p] recordPeer_peerAcknowledged [OF assms(4)] a by simp
  then show ?thesis by (simp add: out readReply_outbound [OF c])
qed

lemma answerRequest_refuse:
  assumes "answerRequest l p i content s now = (l', Inr out)" "\<not> (rejected s = [] \<and> negativeAcknowledgement s = [])"
  shows "l' = l \<and> map readReply out =
    (if rejected s = [] then [] else [Inr (pppCodeConfigureRejection, i, rejected s)]) @
    (if negativeAcknowledgement s = [] then [] else [Inr (pppCodeConfigureNegativeAcknowledgement, i, negativeAcknowledgement s)])"
proof -
  obtain r n where r: "optionalReply l p pppCodeConfigureRejection i (rejected s) = Inr r"
    and n: "optionalReply l p pppCodeConfigureNegativeAcknowledgement i (negativeAcknowledgement s) = Inr n"
    and out: "out = r @ n" "l' = l"
    using assms by (auto simp: answerRequest_def split: sum.split_asm)
  show ?thesis using optionalReply_read [OF r] optionalReply_read [OF n] by (simp only: out map_append simp_thms)
qed

section \<open>Properties\<close>

text \<open>C8: an answered configuration request is acknowledged with its own content exactly when every option of it
  is acceptable. Otherwise the peer reads one Configure-Reject with exactly the bytes of the options that are
  not understood, if there are any, and one Configure-Nak that names exactly the options whose value is refused,
  if there are any, both under the request's identifier, and the request does not count as acknowledged.\<close>

theorem ppp_request_answered:
  assumes "control_protocol p" "magic_ok l" "parsePPPOptions content = Inr xs"
    "handleConfigurationRequestLocked l p i content now = (l', Inr out)"
  shows "if list_ex (\<lambda>x. rejectable p x \<or> nakable p l x) xs
    then peerAcknowledged l' p = peerAcknowledged l p \<and>
      (\<exists>naks ys. map readReply out =
         (if filter (rejectable p) xs = [] then []
          else [Inr (pppCodeConfigureRejection, i, concat (map raw (filter (rejectable p) xs)))]) @
         (if filter (nakable p l) xs = [] then [] else [Inr (pppCodeConfigureNegativeAcknowledgement, i, naks)]) \<and>
         parsePPPOptions naks = Inr ys \<and> map kind ys = map kind (filter (nakable p l) xs))
    else peerAcknowledged l' p \<and> (\<exists>more. map readReply out = Inr (pppCodeConfigureAcknowledgement, i, content) # more)"
proof -
  obtain l1 s where s: "scanOptions p l emptyScan xs = (l1, Inr s)" and ans: "answerRequest l1 p i content s now = (l', Inr out)"
    using assms(3,4) by (auto simp: handleConfigurationRequestLocked_def split: sum.split_asm prod.split_asm)
  let ?r = "filter (rejectable p) xs" and ?n = "filter (nakable p l) xs"
  have "same_link l l1" "scanned p l xs emptyScan s" using scanOptions_scanned [OF s assms(1,2)] by auto
  then obtain vs where rej: "rejected s = concat (map raw ?r)" and vs: "length vs = length ?n" "list_all (\<lambda>v. length v \<le> 253) vs"
    and nak: "negativeAcknowledgement s = concat (map (\<lambda>(k, v). appendPPPOption [] k v) (zip (map kind ?n) vs))"
    and pl: "peerAcknowledged l1 p = peerAcknowledged l p"
    by (auto simp: scanned_def emptyScan_def peerAcknowledged_def same_link_facts(3))
  have "list_all (\<lambda>x. raw x \<noteq> []) xs"
    using parsePPPOptions_raw [OF assms(3)] by (auto simp: list_all_iff appendPPPOption_def)
  then have r0: "rejected s = [] \<longleftrightarrow> ?r = []" by (auto simp: rej list_all_iff filter_empty_conv)
  have n0: "negativeAcknowledgement s = [] \<longleftrightarrow> ?n = []"
    using vs(1) by (cases ?n; cases vs) (auto simp: nak appendPPPOption_def)
  have ex: "list_ex (\<lambda>x. rejectable p x \<or> nakable p l x) xs \<longleftrightarrow> \<not> (rejected s = [] \<and> negativeAcknowledgement s = [])"
    unfolding r0 n0 by (auto simp: list_ex_iff filter_empty_conv)
  have "list_all (\<lambda>(k, v). length v \<le> 253) (zip (map kind ?n) vs)"
    using vs(2) by (auto simp: list_all_iff dest: set_zip_rightD)
  then have ys: "parsePPPOptions (negativeAcknowledgement s) = Inr (map mkOption (zip (map kind ?n) vs))"
    "map kind (map mkOption (zip (map kind ?n) vs)) = map kind ?n"
    using vs(1) by (simp_all add: nak parsePPPOptions_encoded mkOption_def o_def)
  show ?thesis
  proof (cases "rejected s = [] \<and> negativeAcknowledgement s = []")
    case True
    then show ?thesis using answerRequest_ack [OF ans _ _ assms(1)] ex by simp
  next
    case False
    then have "list_ex (\<lambda>x. rejectable p x \<or> nakable p l x) xs" using ex by simp
    moreover note answerRequest_refuse [OF ans False, unfolded r0 n0, unfolded rej]
    ultimately show ?thesis using ys pl by (simp only: if_True) blast
  qed
qed

theorem ppp_request_answered_witness:
  "\<exists>l' out. handleConfigurationRequestLocked sampleLink pppProtocolIPCP 9 [3, 6, 10, 0, 0, 1, 2, 4, 0, 0x2d] 0 = (l', Inr out) \<and>
     \<not> peerAcknowledged l' pppProtocolIPCP \<and> map readReply out = [Inr (pppCodeConfigureRejection, 9, [2, 4, 0, 0x2d])]"
proof -
  let ?c = "[3, 6, 10, 0, 0, 1, 2, 4, 0, 0x2d] :: bytes"
  let ?xs = "[mkOption (3, [10, 0, 0, 1]), mkOption (2, [0, 0x2d])]"
  have xs: "parsePPPOptions ?c = Inr ?xs"
    using parsePPPOptions_encoded [of "[(3, [10, 0, 0, 1]), (2, [0, 0x2d])]"] by (simp add: appendPPPOption_def)
  have p: "control_protocol pppProtocolIPCP" by (simp add: control_protocol_def)
  have m: "magic_ok sampleLink" by (simp add: magic_ok_def sampleLink_fields)
  have r: "rejectable pppProtocolIPCP (mkOption (2, [0, 0x2d]))" "\<not> rejectable pppProtocolIPCP (mkOption (3, [10, 0, 0, 1]))"
    "\<not> nakable pppProtocolIPCP sampleLink x" for x
    by (simp_all add: rejectable_def nakable_def mkOption_def pppIPCPOptionAddresses_def pppIPCPOptionAddress_def)
  obtain l' out where h: "handleConfigurationRequestLocked sampleLink pppProtocolIPCP 9 ?c 0 = (l', Inr out)"
    by (simp add: handleConfigurationRequestLocked_def xs controlStateLocked_def scanOption_def scanIPCPOption_def mkOption_def
        rejectOption_def emptyScan_def pppIPCPOptionAddresses_def pppIPCPOptionAddress_def pppIPv4FromBytes_def
        answerRequest_def optionalReply_def buildPPPControlPacket_def appendPPPOption_def Let_def)
  have "\<not> peerAcknowledged sampleLink pppProtocolIPCP"
    by (simp add: peerAcknowledged_def controlStateLocked_def sampleLink_fields initialControlState_def)
  then show ?thesis
    using ppp_request_answered [OF p m xs h] h r by (simp add: mkOption_def appendPPPOption_def)
qed

end
