(* ===== verification/Ppp_Progress.thy ===== *)
theory Ppp_Progress
  imports Ppp_Lifecycle Ppp_Answers
begin

text \<open>
  Progress of the PPP negotiation: a peer that acknowledges the link's requests and sends requests the
  link can accept brings it into the network phase, whatever the order and repetition of its frames,
  once LCP came first.
\<close>

section \<open>Requests of the network protocols\<close>

text \<open>A link that can build its requests and would accept the end of the negotiation.\<close>

definition able :: "pppLink \<Rightarrow> bool" where
  "able l \<longleftrightarrow> \<not> linkClosed l \<and> (wantIPv4 l \<or> wantIPv6 l) \<and> wf_addr (localIPv4 l) \<and> wf_addr (localIPv6 l) \<and>
     (\<forall>k a. nameServerRequests l k = Some a \<longrightarrow> wf_addr a) \<and>
     (wantIPv4 l \<longrightarrow> addressUsable4 (localIPv4 l)) \<and> (wantIPv6 l \<longrightarrow> addressUsable6 (localIPv6 l))"

lemma length_appendPPPOption [simp]: "length (appendPPPOption d k v) = length d + 2 + length v"
  by (simp add: appendPPPOption_def)

lemma length_addressBytes: "wf_addr a \<Longrightarrow> length (addressBytes a) = 4"
  by (cases a) (simp_all add: addressBytes_def)

lemma length_ipcpRequest:
  assumes "able l"
  shows "length (ipcpRequestOptions l) \<le> 30"
proof -
  have ns: "length (case nameServerRequests l k of None \<Rightarrow> p | Some a \<Rightarrow> appendPPPOption p k (addressBytes a)) \<le> length p + 6" for k p
    using assms by (auto simp: able_def length_addressBytes split: option.split)
  have "length (fold (\<lambda>k p. case nameServerRequests l k of None \<Rightarrow> p | Some a \<Rightarrow> appendPPPOption p k (addressBytes a)) ks p)
      \<le> length p + 6 * length ks" for ks p
  proof (induction ks arbitrary: p)
    case (Cons k ks)
    show ?case using Cons [of "case nameServerRequests l k of None \<Rightarrow> p | Some a \<Rightarrow> appendPPPOption p k (addressBytes a)"] ns [of p k] by simp
  qed simp
  from this [of nameServerKinds "appendPPPOption [] pppIPCPOptionAddress (addressBytes (localIPv4 l))"] show ?thesis
    using assms by (simp add: ipcpRequestOptions_def able_def length_addressBytes nameServerKinds_def)
qed

lemma length_ip6cpRequest: "able l \<Longrightarrow> length (ip6cpRequestOptions l) = 10"
  by (simp add: able_def ip6cpRequestOptions_def pppInterfaceID_def As16_length)

lemma buildPPPControlPacket_short: "length content \<le> 65531 \<Longrightarrow> \<exists>control. buildPPPControlPacket code i content = Inr control"
  by (simp add: buildPPPControlPacket_def Let_def)

lemma requestIfWanted_able:
  assumes "able l" "p = pppProtocolIPCP \<or> p = pppProtocolIP6CP"
  obtains out where "requestIfWanted l w sent p now = (if w \<and> \<not> sent then updateControl p (markRequest now) l else l, Inr out)"
proof -
  have "length (ipcpRequestOptions l) \<le> 65531" "length (ip6cpRequestOptions l) \<le> 65531"
    using length_ipcpRequest [OF assms(1)] length_ip6cpRequest [OF assms(1)] by simp_all
  then have "\<exists>c. buildPPPControlPacket pppCodeConfigureRequest i (ipcpRequestOptions l) = Inr c"
    "\<exists>c. buildPPPControlPacket pppCodeConfigureRequest i (ip6cpRequestOptions l) = Inr c" for i
    by (simp_all add: buildPPPControlPacket_short)
  then have "\<exists>request. buildConfigurationRequestLocked l p now = (updateControl p (markRequest now) l, Inr request)"
    using assms(2)
    by (elim disjE) (simp_all add: buildConfigurationRequestLocked_def controlStateLocked_def requestOptions_def Let_def
        split: sum.split, (metis Inl_Inr_False)+)
  then have "\<exists>out. requestIfWanted l w sent p now = (if w \<and> \<not> sent then updateControl p (markRequest now) l else l, Inr out)"
    by (auto simp: requestIfWanted_def)
  with that show ?thesis by blast
qed

section \<open>Advancing\<close>

text \<open>The protocol states after \<open>advanceNegotiationLocked\<close> has asked for what is wanted.\<close>

definition requested :: "pppLink \<Rightarrow> instant \<Rightarrow> pppLink" where
  "requested l now =
     (let l1 = (if wantIPv4 l \<and> \<not> requestSent (ipcp l) then l\<lparr>ipcp := markRequest now (ipcp l)\<rparr> else l)
      in if wantIPv6 l \<and> \<not> requestSent (ip6cp l) then l1\<lparr>ip6cp := markRequest now (ip6cp l)\<rparr> else l1)"

definition complete :: "pppLink \<Rightarrow> bool" where
  "complete l \<longleftrightarrow> acknowledgedBothWays (lcp l) \<and> (wantIPv4 l \<longrightarrow> acknowledgedBothWays (ipcp l)) \<and>
     (wantIPv6 l \<longrightarrow> acknowledgedBothWays (ip6cp l))"

lemma able_update [simp]:
  "able (l\<lparr>ipcp := s\<rparr>) = able l" "able (l\<lparr>ip6cp := s\<rparr>) = able l" "able (l\<lparr>lcp := s\<rparr>) = able l"
  by (simp_all add: able_def)

lemma advance_able:
  assumes "able l" "acknowledgedBothWays (lcp l)"
  obtains out where "advanceNegotiationLocked l now =
    (if complete (requested l now) then (requested l now)\<lparr>networkPending := True, configuration := negotiatedConfiguration (requested l now)\<rparr>
     else requested l now, Inr out)"
proof -
  let ?l1 = "if wantIPv4 l \<and> \<not> requestSent (ipcp l) then updateControl pppProtocolIPCP (markRequest now) l else l"
  have l1: "?l1 = (if wantIPv4 l \<and> \<not> requestSent (ipcp l) then l\<lparr>ipcp := markRequest now (ipcp l)\<rparr> else l)"
    by (simp add: updateControl_def)
  obtain o4 where 4: "requestIfWanted l (wantIPv4 l) (requestSent (ipcp l)) pppProtocolIPCP now = (?l1, Inr o4)"
    using requestIfWanted_able [OF assms(1), of pppProtocolIPCP "wantIPv4 l" "requestSent (ipcp l)" now] by blast
  have "able ?l1" using assms(1) by (simp add: l1)
  then obtain o6 where 6: "requestIfWanted ?l1 (wantIPv6 ?l1) (requestSent (ip6cp ?l1)) pppProtocolIP6CP now =
      (if wantIPv6 ?l1 \<and> \<not> requestSent (ip6cp ?l1) then updateControl pppProtocolIP6CP (markRequest now) ?l1 else ?l1, Inr o6)"
    using requestIfWanted_able [of ?l1 pppProtocolIP6CP "wantIPv6 ?l1" "requestSent (ip6cp ?l1)" now] by blast
  have req: "(if wantIPv6 ?l1 \<and> \<not> requestSent (ip6cp ?l1) then updateControl pppProtocolIP6CP (markRequest now) ?l1 else ?l1) = requested l now"
    by (simp add: requested_def Let_def l1 updateControl_def)
  have r: "able (requested l now)" "lcp (requested l now) = lcp l"
    using assms(1) by (simp_all add: requested_def Let_def)
  have "wantIPv4 l \<or> wantIPv6 l" using assms(1) by (simp add: able_def)
  then have "advanceNegotiationLocked l now = completeNegotiation (requested l now) (o4 @ o6)"
    unfolding advanceNegotiationLocked_def 4 prod.case sum.case 6 req using assms(2) by auto
  also have "\<dots> = (if complete (requested l now) then (requested l now)\<lparr>networkPending := True, configuration := negotiatedConfiguration (requested l now)\<rparr>
     else requested l now, Inr (o4 @ o6))"
    using r assms(2) by (auto simp: completeNegotiation_def complete_def able_def)
  finally show ?thesis using that by blast
qed

section \<open>One frame\<close>

definition wanted :: "pppLink \<Rightarrow> u16 \<Rightarrow> bool" where
  "wanted l p \<longleftrightarrow> p = pppProtocolLCP \<or> p = pppProtocolIPCP \<and> wantIPv4 l \<or> p = pppProtocolIP6CP \<and> wantIPv6 l"

text \<open>A frame that helps: an acknowledgement, or a request with acceptable options only.\<close>

definition helpful :: "pppLink \<Rightarrow> u16 \<Rightarrow> bool \<Rightarrow> bytes \<Rightarrow> bool" where
  "helpful l p ack frame \<longleftrightarrow> (\<exists>pc ac i content control.
     buildPPPControlPacket (if ack then pppCodeConfigureAcknowledgement else pppCodeConfigureRequest) i content = Inr control \<and>
     frame = buildPPPPacketHeader p pc ac @ control \<and>
     (\<not> ack \<longrightarrow> (\<exists>xs. parsePPPOptions content = Inr xs \<and> \<not> list_ex (\<lambda>x. rejectable p x \<or> nakable p l x) xs)))"

text \<open>Acceptable options are scanned without a trace but in what is learnt of the peer.\<close>

lemma scanOption_acceptable:
  assumes "\<not> rejectable p x" "\<not> nakable p l x" "control_protocol p"
  shows "\<exists>s'. scanOption p l s x = (l, Inr s') \<and> rejected s' = rejected s \<and> negativeAcknowledgement s' = negativeAcknowledgement s"
proof -
  consider "p = pppProtocolLCP" | "p = pppProtocolIPCP" | "p = pppProtocolIP6CP" using assms(3) by (auto simp: control_protocol_def)
  then show ?thesis
  proof cases
    case 1
    have lcp: "scanOption p l s x = scanLCPOption l s x" by (simp add: 1 scanOption_def)
    consider "kind x = pppLCPOptionMRU" "length (optionValue x) = 2" "\<not> unat (get_u16 (optionValue x)) < pppMinimumMRU"
      | "kind x = pppLCPOptionAsyncMap" "length (optionValue x) = 4"
      | "kind x = pppLCPOptionMagic" "length (optionValue x) = 4" "\<not> (localMagicEnabled l \<and> optionValue x = localMagic l)"
      | "kind x \<in> {pppLCPOptionProtocolCompression, pppLCPOptionAddressCompression}" "optionValue x = []"
      using assms(1,2) unfolding rejectable_def nakable_def by (simp only: 1 if_True simp_thms) blast
    then show ?thesis
      unfolding lcp scanLCPOption_def by cases (simp_all add: Let_def, auto)
  next
    case 2
    then show ?thesis using assms(1)
      by (auto simp: scanOption_def scanIPCPOption_def rejectable_def pppIPv4FromBytes_def)
  next
    case 3
    then show ?thesis using assms(1)
      by (auto simp: scanOption_def scanIP6CPOption_def rejectable_def pppIPv6FromInterfaceID_def)
  qed
qed

lemma scanOptions_acceptable:
  "\<not> list_ex (\<lambda>x. rejectable p x \<or> nakable p l x) xs \<Longrightarrow> control_protocol p \<Longrightarrow>
     \<exists>s'. scanOptions p l s xs = (l, Inr s') \<and> rejected s' = rejected s \<and> negativeAcknowledgement s' = negativeAcknowledgement s"
proof (induction xs arbitrary: s)
  case (Cons x xs)
  then obtain s1 where "scanOption p l s x = (l, Inr s1)" "rejected s1 = rejected s" "negativeAcknowledgement s1 = negativeAcknowledgement s"
    using scanOption_acceptable [of p x l s] by auto
  with Cons.IH [of s1] Cons.prems show ?case by auto
qed simp

text \<open>The marks of a helpful frame on the protocol states.\<close>

definition requestAcked :: "pppLink \<Rightarrow> u16 \<Rightarrow> bool" where
  "requestAcked l p = (case controlStateLocked l p of Inl _ \<Rightarrow> False | Inr s \<Rightarrow> requestAcknowledged s)"

definition marked :: "pppLink \<Rightarrow> u16 \<Rightarrow> bool \<Rightarrow> pppLink \<Rightarrow> bool" where
  "marked l p ack m \<longleftrightarrow> able m = able l \<and> currentGeneration m = currentGeneration l \<and> linkClosed m = linkClosed l \<and>
     wanted m = wanted l \<and> (\<forall>q. nakable q m = nakable q l) \<and>
     (\<forall>q. requestAcked m q \<longleftrightarrow> requestAcked l q \<or> q = p \<and> ack) \<and>
     (\<forall>q. peerAcknowledged m q \<longleftrightarrow> peerAcknowledged l q \<or> q = p \<and> \<not> ack) \<and>
     requestSent (ipcp m) = requestSent (ipcp l) \<and> requestSent (ip6cp m) = requestSent (ip6cp l)"

lemma acknowledgeRequest_marked: "control_protocol p \<Longrightarrow> marked l p True (acknowledgeRequest l p)"
  by (auto simp: control_protocol_def marked_def acknowledgeRequest_def updateControl_def Let_def able_def currentGeneration_def
      wanted_def nakable_def requestAcked_def peerAcknowledged_def controlStateLocked_def fun_eq_iff)

lemma recordPeer_marked: "control_protocol p \<Longrightarrow> marked l p False (recordPeer p s l)"
  by (auto simp: control_protocol_def marked_def recordPeer_def updateControl_def Let_def able_def currentGeneration_def
      wanted_def nakable_def requestAcked_def peerAcknowledged_def controlStateLocked_def fun_eq_iff)

lemma touched_marked:
  "marked (l\<lparr>lastReceived := now, pendingEcho := False, missedEchoReplies := 0\<rparr>) p ack m = marked l p ack m"
  by (simp add: marked_def able_def currentGeneration_def wanted_def nakable_def requestAcked_def peerAcknowledged_def
      controlStateLocked_def fun_eq_iff)

lemma handleControl_helpful:
  assumes "helpful l p ack frame" "wanted l p" "able l"
    and l1: "l1 = l\<lparr>lastReceived := now, pendingEcho := False, missedEchoReplies := 0\<rparr>"
  obtains content m where "parsePPPPacket frame = Inr (p, content)" "marked l p ack m"
    "\<And>l2 more. advanceNegotiationLocked m now = (l2, Inr more) \<Longrightarrow> \<exists>out. handleControlPacketLocked l1 p content now = (l2, Inr (out, False))"
proof -
  obtain pc ac i content control where b: "buildPPPControlPacket (if ack then pppCodeConfigureAcknowledgement else pppCodeConfigureRequest) i content = Inr control"
    and f: "frame = buildPPPPacketHeader p pc ac @ control"
    and req: "\<not> ack \<Longrightarrow> \<exists>xs. parsePPPOptions content = Inr xs \<and> \<not> list_ex (\<lambda>x. rejectable p x \<or> nakable p l x) xs"
    using assms(1) unfolding helpful_def by blast
  have cp: "control_protocol p" using assms(2) by (auto simp: wanted_def control_protocol_def)
  then have pk: "parsePPPPacket frame = Inr (p, control)"
    unfolding f by (intro parsePPPPacket_header) (auto simp: control_protocol_def)
  have pc: "parsePPPControlPacket control = Inr (if ack then pppCodeConfigureAcknowledgement else pppCodeConfigureRequest, i, content)"
    using parsePPPControlPacket_built [OF b] .
  have st: "\<exists>s. controlStateLocked l1 p = Inr s" using cp by (auto simp: control_protocol_def controlStateLocked_def)
  show ?thesis
  proof (cases ack)
    case True
    have "marked l p ack (acknowledgeRequest l1 p)"
      using acknowledgeRequest_marked [OF cp, of l1] True by (simp add: l1 touched_marked)
    moreover have "\<exists>out. handleControlPacketLocked l1 p control now = (l2, Inr (out, False))"
      if "advanceNegotiationLocked (acknowledgeRequest l1 p) now = (l2, Inr more)" for l2 more
      using that pc st True
      by (auto simp: handleControlPacketLocked_def notTerminated_def pppCodeConfigureAcknowledgement_def pppCodeConfigureRequest_def)
    ultimately show ?thesis using that pk by blast
  next
    case False
    then obtain xs where xs: "parsePPPOptions content = Inr xs" "\<not> list_ex (\<lambda>x. rejectable p x \<or> nakable p l x) xs"
      using req by blast
    then have "\<not> list_ex (\<lambda>x. rejectable p x \<or> nakable p l1 x) xs" by (simp add: l1 nakable_def)
    then obtain s where s: "scanOptions p l1 emptyScan xs = (l1, Inr s)" "rejected s = []" "negativeAcknowledgement s = []"
      using scanOptions_acceptable [of p l1 xs emptyScan] cp by (auto simp: emptyScan_def)
    have "marked l p ack (recordPeer p s l1)"
      using recordPeer_marked [OF cp, of l1 s] False by (simp add: l1 touched_marked)
    moreover have "\<exists>out. handleControlPacketLocked l1 p control now = (l2, Inr (out, False))"
      if adv: "advanceNegotiationLocked (recordPeer p s l1) now = (l2, Inr more)" for l2 more
    proof -
      obtain reply where r: "buildPPPControlPacket pppCodeConfigureAcknowledgement i content = Inr reply"
        using b by (auto simp: buildPPPControlPacket_def Let_def split: if_split_asm)
      have "handleConfigurationRequestLocked l1 p i content now = (l2, Inr (outboundPacketLocked l1 p reply # more))"
        using st xs(1) s adv r by (auto simp: handleConfigurationRequestLocked_def answerRequest_def optionalReply_def Let_def)
      with pc False show ?thesis by (auto simp: handleControlPacketLocked_def notTerminated_def)
    qed
    ultimately show ?thesis using that pk by blast
  qed
qed

section \<open>What the frame leads to\<close>

definition settled :: "pppLink \<Rightarrow> bool" where
  "settled l \<longleftrightarrow> acknowledgedBothWays (lcp l) \<and> (wantIPv4 l \<longrightarrow> requestSent (ipcp l)) \<and> (wantIPv6 l \<longrightarrow> requestSent (ip6cp l))"

definition follows :: "pppLink \<Rightarrow> pppLink \<Rightarrow> bool" where
  "follows m l \<longleftrightarrow> able l \<and> currentGeneration l = currentGeneration m \<and> wanted l = wanted m \<and> (\<forall>q. nakable q l = nakable q m) \<and>
     (\<forall>q. peerAcknowledged l q = peerAcknowledged m q) \<and> requestAcked l pppProtocolLCP = requestAcked m pppProtocolLCP \<and>
     (settled m \<longrightarrow> settled l \<and> (\<forall>q. requestAcked l q = requestAcked m q)) \<and>
     (acknowledgedBothWays (lcp m) \<longrightarrow> settled l)"

text \<open>The network phase has begun with the negotiated configuration.\<close>

definition established :: "pppLink \<Rightarrow> bool" where
  "established l \<longleftrightarrow> phase l = pppLinkPhaseNetwork \<and> ready l \<and> readyWaitClosed l \<and>
     configuration l = negotiatedConfiguration l"

lemma lcp_acked: "acknowledgedBothWays (lcp l) \<longleftrightarrow> requestAcked l pppProtocolLCP \<and> peerAcknowledged l pppProtocolLCP"
  by (simp add: acknowledgedBothWays_def requestAcked_def peerAcknowledged_def controlStateLocked_def)

lemma complete_acked: "complete l \<longleftrightarrow> (\<forall>q. wanted l q \<longrightarrow> requestAcked l q \<and> peerAcknowledged l q)"
  by (auto simp: complete_def wanted_def acknowledgedBothWays_def requestAcked_def peerAcknowledged_def controlStateLocked_def)

lemma requested_follows:
  assumes "able m" "acknowledgedBothWays (lcp m)"
  shows "follows m (requested m now)"
proof -
  have p: "peerRequestAcknowledged (markRequest now s) = peerRequestAcknowledged s" "requestSent (markRequest now s)" for s
    by (simp_all add: markRequest_def)
  have "settled m \<Longrightarrow> requested m now = m" by (auto simp: settled_def requested_def Let_def)
  moreover have "settled (requested m now)" using assms(2) by (auto simp: settled_def requested_def Let_def p)
  moreover have "peerAcknowledged (requested m now) q = peerAcknowledged m q" for q
    by (simp add: requested_def Let_def peerAcknowledged_def controlStateLocked_def p)
  ultimately show ?thesis
    using assms(1) by (auto simp: follows_def requested_def Let_def able_def currentGeneration_def wanted_def nakable_def
        requestAcked_def controlStateLocked_def fun_eq_iff)
qed

lemma finish_follows:
  assumes "follows m l" "gen = currentGeneration m"
  shows "follows m (fst (handleFrameFinish l gen))"
    "networkPending l \<Longrightarrow> configuration l = negotiatedConfiguration l \<Longrightarrow> established (fst (handleFrameFinish l gen))"
proof -
  have l: "\<not> linkClosed l" "gen = currentGeneration l" using assms by (auto simp: follows_def able_def)
  have n: "follows m (l\<lparr>phase := x, networkPending := False, ready := True, addressesLocked := True, readyWaitClosed := True\<rparr>) = follows m l" for x
    by (simp add: follows_def able_def currentGeneration_def wanted_def nakable_def peerAcknowledged_def requestAcked_def
        controlStateLocked_def settled_def fun_eq_iff)
  show "follows m (fst (handleFrameFinish l gen))" using assms(1) n by (simp add: handleFrameFinish_def Let_def)
  show "networkPending l \<Longrightarrow> configuration l = negotiatedConfiguration l \<Longrightarrow> established (fst (handleFrameFinish l gen))"
    using l by (simp add: handleFrameFinish_def Let_def established_def negotiatedConfiguration_def nameServers_def)
qed

lemma follows_pending: "follows m (l\<lparr>networkPending := b, configuration := c\<rparr>) = follows m l"
  by (simp add: follows_def able_def currentGeneration_def wanted_def nakable_def peerAcknowledged_def requestAcked_def
      controlStateLocked_def settled_def fun_eq_iff)

lemma advance_finish:
  assumes "able m"
  obtains l2 more where "advanceNegotiationLocked m now = (l2, Inr more)" "follows m (fst (handleFrameFinish l2 (currentGeneration m)))"
    "complete (fst (handleFrameFinish l2 (currentGeneration m))) \<Longrightarrow> established (fst (handleFrameFinish l2 (currentGeneration m)))"
proof (cases "acknowledgedBothWays (lcp m)")
  case False
  have "follows m m" using assms False by (simp add: follows_def)
  note f = finish_follows(1) [OF this refl]
  have "\<not> complete (fst (handleFrameFinish m (currentGeneration m)))"
    using False f by (auto simp: complete_acked lcp_acked wanted_def follows_def)
  with False f that [of m "[]"] show ?thesis by (simp add: advanceNegotiationLocked_def)
next
  case True
  let ?r = "requested m now"
  have 1: "follows m ?r" using requested_follows [OF assms True] .
  obtain out where a: "advanceNegotiationLocked m now =
    (if complete ?r then ?r\<lparr>networkPending := True, configuration := negotiatedConfiguration ?r\<rparr> else ?r, Inr out)"
    using advance_able [OF assms True] by blast
  show ?thesis
  proof (cases "complete ?r")
    case c: True
    let ?l = "?r\<lparr>networkPending := True, configuration := negotiatedConfiguration ?r\<rparr>"
    have "follows m ?l" using 1 by (simp only: follows_pending)
    moreover have "configuration ?l = negotiatedConfiguration ?l" by (simp add: negotiatedConfiguration_def nameServers_def)
    ultimately show ?thesis
      using finish_follows [of m ?l "currentGeneration m"] that [of ?l out] a c by simp
  next
    case False
    note f = finish_follows(1) [OF 1 refl]
    have "complete (fst (handleFrameFinish ?r (currentGeneration m))) = complete ?r"
      by (simp add: handleFrameFinish_def Let_def complete_def)
    then show ?thesis using f that [of ?r out] a False by simp
  qed
qed

lemma firstError_none: "firstError (map (\<lambda>_. None) out) = None"
  by (induction out) simp_all

lemma handleFrame_helpful:
  assumes "helpful l p ack frame" "wanted l p" "able l"
  obtains m l' where "handleFrame isMulti (\<lambda>_. None) l (currentGeneration l) frame now = (l', None, None)" "marked l p ack m"
    "follows m l'" "complete l' \<Longrightarrow> established l'"
proof -
  define l1 where "l1 = l\<lparr>lastReceived := now, pendingEcho := False, missedEchoReplies := 0\<rparr>"
  show thesis
  proof (rule handleControl_helpful [OF assms l1_def])
    fix content m
    assume pk: "parsePPPPacket frame = Inr (p, content)" and m: "marked l p ack m"
      and h: "\<And>l2 more. advanceNegotiationLocked m now = (l2, Inr more) \<Longrightarrow> \<exists>out. handleControlPacketLocked l1 p content now = (l2, Inr (out, False))"
    have am: "able m" "currentGeneration m = currentGeneration l" using m assms(3) by (simp_all add: marked_def)
    show thesis
    proof (rule advance_finish [OF am(1)])
      fix l2 more
      assume a: "advanceNegotiationLocked m now = (l2, Inr more)" "follows m (fst (handleFrameFinish l2 (currentGeneration m)))"
        "complete (fst (handleFrameFinish l2 (currentGeneration m))) \<Longrightarrow> established (fst (handleFrameFinish l2 (currentGeneration m)))"
      obtain out where c: "handleControlPacketLocked l1 p content now = (l2, Inr (out, False))" using h [OF a(1)] by blast
      have "\<not> linkClosed l" using assms(3) by (simp add: able_def)
      moreover have "p = pppProtocolLCP \<or> p = pppProtocolIPCP \<and> wantIPv4 l1 \<or> p = pppProtocolIP6CP \<and> wantIPv6 l1"
        using assms(2) by (simp add: wanted_def l1_def)
      ultimately have b: "handleFrameBegin isMulti l (currentGeneration l) frame now = (l2, FrameHandled out None False)"
        unfolding handleFrameBegin_def pk sum.case prod.case Let_def l1_def [symmetric] c
        by (elim disjE conjE) (simp_all add: controlOutcome_def)
      obtain l3 d where f: "handleFrameFinish l2 (currentGeneration l) = (l3, d)" by force
      have "handleFrame isMulti (\<lambda>_. None) l (currentGeneration l) frame now = (l3, None, None)"
        by (simp add: handleFrame_def b f firstError_none)
      then show thesis using that [of l3 m] m a(2,3) am(2) f by simp
    qed
  qed
qed

section \<open>A sequence of frames\<close>

text \<open>A frame as it is described: its protocol, whether it acknowledges, and its bytes.\<close>

type_synonym described = "u16 \<times> bool \<times> bytes"

definition all_helpful :: "pppLink \<Rightarrow> described list \<Rightarrow> bool" where
  "all_helpful l hs \<longleftrightarrow> list_all (\<lambda>(p, ack, frame). wanted l p \<and> helpful l p ack frame) hs"

definition mentions :: "described list \<Rightarrow> u16 \<Rightarrow> bool \<Rightarrow> bool" where
  "mentions hs p ack \<longleftrightarrow> list_ex (\<lambda>(q, b, frame). q = p \<and> b = ack) hs"

definition wireFrames :: "described list \<Rightarrow> bytes list" where
  "wireFrames hs = map (\<lambda>(p, ack, frame). frame) hs"

lemma all_helpful_same:
  "wanted l' = wanted l \<Longrightarrow> (\<And>q. nakable q l' = nakable q l) \<Longrightarrow> all_helpful l' hs = all_helpful l hs"
  by (simp add: all_helpful_def helpful_def)

text \<open>What a sequence of helpful frames leaves behind.\<close>

definition progressed :: "pppLink \<Rightarrow> described list \<Rightarrow> pppLink \<Rightarrow> bool" where
  "progressed l hs l' \<longleftrightarrow> able l' \<and> currentGeneration l' = currentGeneration l \<and> wanted l' = wanted l \<and> (\<forall>q. nakable q l' = nakable q l) \<and>
     (\<forall>q. peerAcknowledged l' q \<longleftrightarrow> peerAcknowledged l q \<or> mentions hs q False) \<and>
     (requestAcked l' pppProtocolLCP \<longleftrightarrow> requestAcked l pppProtocolLCP \<or> mentions hs pppProtocolLCP True) \<and>
     (settled l \<longrightarrow> settled l' \<and> (\<forall>q. requestAcked l' q \<longleftrightarrow> requestAcked l q \<or> mentions hs q True)) \<and>
     (hs \<noteq> [] \<and> acknowledgedBothWays (lcp l') \<longrightarrow> settled l') \<and>
     (hs \<noteq> [] \<and> complete l' \<longrightarrow> established l')"

lemma settled_wanted:
  "settled l \<longleftrightarrow> acknowledgedBothWays (lcp l) \<and> (wanted l pppProtocolIPCP \<longrightarrow> requestSent (ipcp l)) \<and>
     (wanted l pppProtocolIP6CP \<longrightarrow> requestSent (ip6cp l))"
  by (simp add: settled_def wanted_def)

lemma marked_follows_progressed:
  assumes "marked l p ack m" "follows m l'" "complete l' \<Longrightarrow> established l'"
  shows "progressed l [(p, ack, frame)] l'"
proof -
  have "settled l \<Longrightarrow> settled m"
    using assms(1) by (simp add: settled_wanted marked_def lcp_acked)
  then show ?thesis
    using assms by (auto simp: progressed_def marked_def follows_def mentions_def lcp_acked)
qed

lemma progressed_cons:
  assumes "progressed l [h] l1" "progressed l1 hs l'" "hs \<noteq> []"
  shows "progressed l (h # hs) l'"
proof -
  have m: "mentions (h # hs) q b \<longleftrightarrow> mentions [h] q b \<or> mentions hs q b" for q b by (simp add: mentions_def)
  show ?thesis using assms unfolding progressed_def m by auto
qed

lemma handleFrames_helpful:
  assumes "able l" "all_helpful l hs" "hs \<noteq> []"
  shows "\<exists>l'. handleFrames isMulti (\<lambda>_. None) l (currentGeneration l) (wireFrames hs) now closed = (l', [], False) \<and> progressed l hs l'"
  using assms
proof (induction hs arbitrary: l)
  case (Cons h hs)
  obtain p ack frame where h: "h = (p, ack, frame)" by (cases h) auto
  have "wanted l p" "helpful l p ack frame" using Cons.prems(2) by (simp_all add: h all_helpful_def)
  then obtain m l1 where 1: "handleFrame isMulti (\<lambda>_. None) l (currentGeneration l) frame now = (l1, None, None)"
    and m: "marked l p ack m" "follows m l1" "complete l1 \<Longrightarrow> established l1"
    using handleFrame_helpful Cons.prems(1) by metis
  have p1: "progressed l [h] l1" unfolding h using marked_follows_progressed [OF m] .
  have l1: "able l1" "currentGeneration l1 = currentGeneration l" "all_helpful l1 hs"
    using p1 Cons.prems(2) all_helpful_same [of l1 l hs] by (auto simp: progressed_def all_helpful_def)
  show ?case
  proof (cases "hs = []")
    case True
    with 1 p1 show ?thesis by (simp add: wireFrames_def h)
  next
    case False
    obtain l' where l': "handleFrames isMulti (\<lambda>_. None) l1 (currentGeneration l1) (wireFrames hs) now closed = (l', [], False)"
      "progressed l1 hs l'" using Cons.IH [OF l1(1,3) False] by blast
    then show ?thesis using progressed_cons [OF p1 l'(2) False] 1 l1(2) by (simp add: wireFrames_def h)
  qed
qed simp

lemma progressed_append:
  assumes "progressed l hs l1" "progressed l1 hs' l'" "hs' \<noteq> []"
    "mentions hs pppProtocolLCP True" "mentions hs pppProtocolLCP False"
    "\<And>p b. wanted l p \<Longrightarrow> p \<noteq> pppProtocolLCP \<Longrightarrow> mentions hs' p b"
  shows "established l'"
proof -
  have "hs \<noteq> []" using assms(4) by (auto simp: mentions_def)
  then have s1: "settled l1" using assms(1,4,5) by (auto simp: progressed_def lcp_acked)
  have w: "wanted l' = wanted l" using assms(1,2) by (simp add: progressed_def)
  have "requestAcked l1 pppProtocolLCP" "peerAcknowledged l1 pppProtocolLCP" using s1 by (simp_all add: settled_def lcp_acked)
  then have "requestAcked l' q \<and> peerAcknowledged l' q" if "wanted l' q" for q
    using that assms(2,6) s1 w by (cases "q = pppProtocolLCP") (auto simp: progressed_def)
  then have "complete l'" by (simp add: complete_acked)
  with assms(2,3) show ?thesis by (simp add: progressed_def)
qed

lemma handleFrames_append:
  "handleFrames isMulti w l gen xs now closed = (l1, ds, False) \<Longrightarrow> handleFrames isMulti w l1 gen ys now closed = (l2, es, stop) \<Longrightarrow>
     handleFrames isMulti w l gen (xs @ ys) now closed = (l2, ds @ es, stop)"
  by (induction isMulti w l gen xs now closed arbitrary: ds rule: handleFrames.induct)
    (auto split: prod.split_asm option.split_asm)

lemma negotiation_completes:
  assumes "able l" "all_helpful l (lcps @ nets)"
    "mentions lcps pppProtocolLCP True" "mentions lcps pppProtocolLCP False"
    "\<And>p b. wanted l p \<Longrightarrow> p \<noteq> pppProtocolLCP \<Longrightarrow> mentions nets p b"
  shows "\<exists>l'. handleFrames isMulti (\<lambda>_. None) l (currentGeneration l) (wireFrames (lcps @ nets)) now closed = (l', [], False) \<and>
     phase l' = pppLinkPhaseNetwork \<and> ready l' \<and> readyWaitClosed l' \<and> configuration l' = negotiatedConfiguration l'"
proof -
  have "wanted l pppProtocolIPCP \<or> wanted l pppProtocolIP6CP" using assms(1) by (simp add: able_def wanted_def)
  then have n: "nets \<noteq> []" using assms(5) [of pppProtocolIPCP True] assms(5) [of pppProtocolIP6CP True] by (auto simp: mentions_def)
  have c: "lcps \<noteq> []" using assms(3) by (auto simp: mentions_def)
  have helpful1: "all_helpful l lcps" using assms(2) by (simp add: all_helpful_def)
  obtain l1 where 1: "handleFrames isMulti (\<lambda>_. None) l (currentGeneration l) (wireFrames lcps) now closed = (l1, [], False)" "progressed l lcps l1"
    using handleFrames_helpful [OF assms(1) helpful1 c] by blast
  have l1: "able l1" "currentGeneration l1 = currentGeneration l" "all_helpful l1 nets"
    using 1(2) assms(2) all_helpful_same [of l1 l nets] by (auto simp: progressed_def all_helpful_def)
  obtain l' where 2: "handleFrames isMulti (\<lambda>_. None) l1 (currentGeneration l1) (wireFrames nets) now closed = (l', [], False)" "progressed l1 nets l'"
    using handleFrames_helpful [OF l1(1,3) n] by blast
  have "established l'" using progressed_append [OF 1(2) 2(2) n assms(3-5)] .
  moreover have "handleFrames isMulti (\<lambda>_. None) l (currentGeneration l) (wireFrames (lcps @ nets)) now closed = (l', [], False)"
    using handleFrames_append [OF 1(1) 2(1) [unfolded l1(2)]] by (simp add: wireFrames_def)
  ultimately show ?thesis by (auto simp: established_def)
qed

section \<open>A run of a link\<close>

text \<open>Handling frames is a run of the two locked sections of each.\<close>

lemma handleFrameBegin_started: "started (fst (handleFrameBegin isMulti l gen frame now)) = started l"
  using handleFrameBegin_step [of l isMulti gen frame now] by (auto simp: control_step_def good_step_def untouched_def)

lemma handleFrame_run:
  assumes "handleFrame isMulti w l gen frame now = (l', d, e)" "started l"
  shows "ppp_run isMulti l l' \<and> started l'"
proof -
  obtain l1 o1 where b: "handleFrameBegin isMulti l gen frame now = (l1, o1)" by force
  have 1: "ppp_run isMulti l l1" "started l1"
    using step_frame [OF assms(2), of isMulti gen frame now] handleFrameBegin_started [of isMulti l gen frame now] b assms(2)
    by (auto intro: run_step [OF run_refl])
  have "ppp_run isMulti l (fst (handleFrameFinish l1 gen))" using run_step [OF 1(1) step_finish [OF 1(2), of isMulti gen]] .
  moreover have "started (fst (handleFrameFinish l1 gen))" using 1(2) by (simp add: handleFrameFinish_def Let_def)
  moreover have "l' = l1 \<or> l' = fst (handleFrameFinish l1 gen)"
    using assms(1) b by (auto simp: handleFrame_def split: frameOutcome.split_asm option.split_asm prod.split_asm)
  ultimately show ?thesis using 1 by auto
qed

lemma handleFrames_run:
  "handleFrames isMulti w l gen frames now closed = (l', ds, stop) \<Longrightarrow> started l \<Longrightarrow> ppp_run isMulti l l'"
proof (induction frames arbitrary: l ds)
  case (Cons f fs)
  obtain l1 d e where h: "handleFrame isMulti w l gen f now = (l1, d, e)" by (cases "handleFrame isMulti w l gen f now") auto
  have 1: "ppp_run isMulti l l1" "started l1" using handleFrame_run [OF h Cons.prems(2)] by auto
  show ?case
  proof (cases e)
    case None
    obtain l2 ds2 s2 where "handleFrames isMulti w l1 gen fs now closed = (l2, ds2, s2)"
      by (cases "handleFrames isMulti w l1 gen fs now closed") auto
    with Cons.IH [of l1 ds2] Cons.prems(1) h None 1 show ?thesis by (auto intro: ppp_run_trans)
  next
    case (Some err)
    with h Cons.prems(1) ppp_run_trans [OF terminateCarrier_run 1(1)] show ?thesis by auto
  qed
qed (simp add: run_refl)

text \<open>The frames of a peer that acknowledges and asks for nothing.\<close>

definition sampleFrame :: "u16 \<Rightarrow> bool \<Rightarrow> bytes" where
  "sampleFrame p ack = buildPPPPacketHeader p False False @ [if ack then 2 else 1, 1, 0, 4]"

lemma sampleFrame_helpful: "helpful l p ack (sampleFrame p ack)"
proof -
  have "buildPPPControlPacket (if ack then pppCodeConfigureAcknowledgement else pppCodeConfigureRequest) 1 [] =
      Inr [if ack then 2 else 1, 1, 0, 4]"
    by (simp add: buildPPPControlPacket_def put_u16_def pppCodeConfigureAcknowledgement_def pppCodeConfigureRequest_def)
  moreover have "parsePPPOptions [] = Inr []" by (simp add: parsePPPOptions.simps [of "[]"])
  ultimately show ?thesis
    unfolding helpful_def sampleFrame_def
    by (intro exI [of _ False] exI [of _ "1 :: byte"] exI [of _ "[] :: bytes"] exI [of _ "[if ack then 2 else 1, 1, 0, 4]"]) simp
qed

definition sampleDescribed :: "u16 \<Rightarrow> described list" where
  "sampleDescribed p = [(p, True, sampleFrame p True), (p, False, sampleFrame p False)]"

lemma replicate_4: "replicate 4 x = [x, x, x, x]"
  by (simp add: eval_nat_numeral)

lemma sample_able: "able sampleLink"
  by (simp add: able_def sampleLink_fields) (auto simp: sampleLink_def sample_simps initialNameServers_def addressUsable4_def
      IsUnspecified_def IPv4Unspecified_def IPv6Unspecified_def replicate_4)

lemma sample_helpful: "all_helpful sampleLink (sampleDescribed pppProtocolLCP @ sampleDescribed pppProtocolIPCP)"
  by (simp add: all_helpful_def sampleDescribed_def sampleFrame_helpful wanted_def sampleLink_fields)

lemma sample_mentions:
  "mentions (sampleDescribed p) p b"
  "wanted sampleLink q \<Longrightarrow> q \<noteq> pppProtocolLCP \<Longrightarrow> mentions (sampleDescribed pppProtocolIPCP) q b"
proof -
  show m: "mentions (sampleDescribed p) p b" for p by (cases b) (simp_all add: mentions_def sampleDescribed_def)
  show "mentions (sampleDescribed pppProtocolIPCP) q b" if "wanted sampleLink q" "q \<noteq> pppProtocolLCP"
    using that m by (auto simp: wanted_def sampleLink_fields)
qed

lemma sample_wire: "wireFrames (sampleDescribed pppProtocolLCP @ sampleDescribed pppProtocolIPCP) =
   [[0xff, 3, 0xc0, 0x21, 2, 1, 0, 4], [0xff, 3, 0xc0, 0x21, 1, 1, 0, 4], [0xff, 3, 0x80, 0x21, 2, 1, 0, 4], [0xff, 3, 0x80, 0x21, 1, 1, 0, 4]]"
  by (simp add: wireFrames_def sampleDescribed_def sampleFrame_def buildPPPPacketHeader_def pppProtocolLCP_def pppProtocolIPCP_def
      drop_bit_eq_div)

lemma sampleStarted_eq:
  obtains request where "Start sampleLink 0 None =
    (sampleLink\<lparr>started := True, draws := Suc (draws sampleLink), localMagic := [1, 2, 3, 4], lcp := markRequest 0 (lcp sampleLink)\<rparr>,
     StartRequested request)"
proof -
  have f: "requestMRU sampleLink" "requestAsyncMap sampleLink = False" "requestProtocolCompression sampleLink" "requestAddressCompression sampleLink"
    by (simp_all add: sampleLink_def sample_simps)
  show ?thesis
    using that by (simp add: Start_def startLocked_def buildConfigurationRequestLocked_def controlStateLocked_def requestOptions_def lcpRequestOptions_def
        nextMagic_def sampleLink_fields f appendPPPOptionUint16_def buildPPPControlPacket_def updateControl_def Let_def)
qed

lemma sample_run:
  obtains l' where "ppp_run (\<lambda>_ _. False) sampleLink l'" "phase l' = pppLinkPhaseNetwork" "wantIPv4 l'"
proof -
  obtain request where st: "Start sampleLink 0 None =
    (sampleLink\<lparr>started := True, draws := Suc (draws sampleLink), localMagic := [1, 2, 3, 4], lcp := markRequest 0 (lcp sampleLink)\<rparr>,
     StartRequested request)" using sampleStarted_eq by blast
  define l where "l = fst (Start sampleLink 0 None)"
  have l: "l = sampleLink\<lparr>started := True, draws := Suc (draws sampleLink), localMagic := [1, 2, 3, 4], lcp := markRequest 0 (lcp sampleLink)\<rparr>"
    by (simp add: l_def st)
  have a: "able l" "started l" "wanted l = wanted sampleLink"
    using sample_able by (simp_all add: l able_def wanted_def fun_eq_iff)
  let ?l = "sampleDescribed pppProtocolLCP" and ?n = "sampleDescribed pppProtocolIPCP"
  have h: "all_helpful l (?l @ ?n)"
    by (simp add: all_helpful_def sampleDescribed_def sampleFrame_helpful a) (simp add: wanted_def sampleLink_fields)
  note m = sample_mentions(1)
  have n: "mentions ?n p b" if "wanted l p" "p \<noteq> pppProtocolLCP" for p b
    using that a(3) sample_mentions(2) by simp
  obtain l' where l': "handleFrames (\<lambda>_ _. False) (\<lambda>_. None) l (currentGeneration l) (wireFrames (?l @ ?n)) 0 None = (l', [], False)"
    "phase l' = pppLinkPhaseNetwork" "progressed l (?l @ ?n) l'"
    using negotiation_completes [OF a(1) h m m n, of "\<lambda>_ _. False" 0 None] handleFrames_helpful [OF a(1) h, of "\<lambda>_ _. False" 0 None]
    by (auto simp: sampleDescribed_def)
  have "ppp_run (\<lambda>_ _. False) sampleLink l" unfolding l_def by (rule Start_run)
  with handleFrames_run [OF l'(1) a(2)] have "ppp_run (\<lambda>_ _. False) sampleLink l'" by (rule ppp_run_trans)
  moreover have "wanted l' pppProtocolIPCP = wanted sampleLink pppProtocolIPCP" using l'(3) a(3) by (simp only: progressed_def)
  then have "wantIPv4 l'" by (simp add: wanted_def sampleLink_fields)
  ultimately show ?thesis using that l'(2) by blast
qed

section \<open>Properties\<close>

text \<open>C5: negotiation completes. When a peer's frames are acknowledgements and requests with acceptable options, first for
  LCP alone and then for any of the wanted protocols, in any order and with any repetitions, and there is at least
  one of each for LCP in the first part and for every wanted network protocol in the second, then a link with usable
  addresses handles all of them without an error, enters the network phase, becomes ready and publishes the negotiated
  addresses, name servers and MTU.\<close>

theorem ppp_negotiation_completes:
  assumes "able l" "all_helpful l (lcps @ nets)"
    "mentions lcps pppProtocolLCP True" "mentions lcps pppProtocolLCP False"
    "\<And>p b. wanted l p \<Longrightarrow> p \<noteq> pppProtocolLCP \<Longrightarrow> mentions nets p b"
  shows "\<exists>l'. handleFrames isMulti (\<lambda>_. None) l (currentGeneration l) (wireFrames (lcps @ nets)) now closed = (l', [], False) \<and>
     phase l' = pppLinkPhaseNetwork \<and> ready l' \<and> readyWaitClosed l' \<and> configuration l' = negotiatedConfiguration l'"
  using assms by (rule negotiation_completes)

theorem ppp_negotiation_completes_witness:
  "\<exists>l'. handleFrames (\<lambda>_ _. False) (\<lambda>_. None) sampleLink 1
      [[0xff, 3, 0xc0, 0x21, 2, 1, 0, 4], [0xff, 3, 0xc0, 0x21, 1, 1, 0, 4],
       [0xff, 3, 0x80, 0x21, 2, 1, 0, 4], [0xff, 3, 0x80, 0x21, 1, 1, 0, 4]] 0 None = (l', [], False) \<and>
     phase l' = pppLinkPhaseNetwork \<and> ready l' \<and> readyWaitClosed l' \<and> configuration l' = negotiatedConfiguration l'"
  using ppp_negotiation_completes [OF sample_able sample_helpful sample_mentions(1) sample_mentions(1) sample_mentions(2), of "\<lambda>_ _. False" 0 None]
  unfolding sample_wire sampleLink_fields .

text \<open>C9: bounds in every state that a link can reach. No protocol has sent more requests than the configured number of
  attempts, the local MRU stays between the minimum and the largest MTU of the encapsulation, and the peer's MRU
  never falls below the minimum.\<close>

theorem ppp_link_bounds:
  assumes "newPPPLink c random now = Inr l0" "wf_addr (prefixAddr (IPv6Address c))" "ppp_run isMulti l0 l"
  shows "requestAttempts (lcp l) \<le> NegotiationAttempts (config l) \<and> requestAttempts (ipcp l) \<le> NegotiationAttempts (config l) \<and>
    requestAttempts (ip6cp l) \<le> NegotiationAttempts (config l) \<and>
    pppMinimumMRU \<le> unat (localMRU l) \<and> unat (localMRU l) \<le> unat (pppMaximumTunnelMTU (Encapsulation (config l))) \<and>
    pppMinimumMRU \<le> unat (peerMRU l)"
  using reachable_inv [OF assms]
  by (simp add: link_inv_def link_ok_def link_attempts_def all_controls_def attempts_ok_def link_mru_def pppMinimumMRU_def)

lemma sampleConfig_wf: "wf_addr (prefixAddr (IPv6Address sampleConfig))"
  by (simp add: sampleConfig_def noPrefix_def)

theorem ppp_link_bounds_witness:
  "let l = fst (Start sampleLink 0 None)
   in requestAttempts (lcp l) = 1 \<and> requestAttempts (lcp l) \<le> NegotiationAttempts (config l) \<and> pppMinimumMRU \<le> unat (localMRU l)"
proof (rule sampleStarted_eq)
  fix request
  assume st: "Start sampleLink 0 None =
    (sampleLink\<lparr>started := True, draws := Suc (draws sampleLink), localMagic := [1, 2, 3, 4], lcp := markRequest 0 (lcp sampleLink)\<rparr>,
     StartRequested request)"
  have "ppp_run (\<lambda>_ _. False) sampleLink (fst (Start sampleLink 0 None))" by (rule Start_run)
  from ppp_link_bounds [OF sampleLink_new sampleConfig_wf this] show ?thesis
    by (simp add: st markRequest_def sampleLink_fields initialControlState_def)
qed

text \<open>C7: the life cycle. In every state that a link can reach, also while it is being terminated, it is closed exactly when its
  phase says so and exactly when its termination is under way or its result was published, never both; it has lost its
  carrier exactly when its termination went past the first section; so a link whose result was published has none; a link in the
  network phase is ready; and a ready link is in the network phase or was asked to terminate by its peer, has released
  those who wait for it, and has locked its addresses. A link that is closed stays closed, and a published result
  stays, in whatever happens afterwards.\<close>

theorem ppp_link_lifecycle:
  assumes "newPPPLink c random now = Inr l0" "wf_addr (prefixAddr (IPv6Address c))" "ppp_run isMulti l0 l"
  shows "(linkClosed l \<longleftrightarrow> phase l = pppLinkPhaseClosed) \<and> (linkClosed l \<longleftrightarrow> (linkTermination l \<noteq> None) \<noteq> (doneResult l \<noteq> None)) \<and>
    (linkClosed l \<longleftrightarrow> linkTermination l \<noteq> None \<or> doneResult l \<noteq> None) \<and>
    (carrier l = None \<longleftrightarrow> linkClosed l \<and> (\<forall>err. linkTermination l \<noteq> Some (TermDetach err))) \<and> (phase l = pppLinkPhaseNetwork \<longrightarrow> ready l) \<and>
    (ready l \<longrightarrow> phase l \<in> {pppLinkPhaseNetwork, pppLinkPhaseTerminating} \<and> readyWaitClosed l \<and> addressesLocked l) \<and>
    (\<forall>l'. ppp_run isMulti l l' \<longrightarrow> (linkClosed l \<longrightarrow> linkClosed l') \<and> (\<forall>r. doneResult l = Some r \<longrightarrow> doneResult l' = Some r))"
proof -
  have life: "link_life l" using reachable_inv [OF assms] by (simp add: link_inv_def)
  have stays: "(linkClosed l \<longrightarrow> linkClosed l') \<and> (\<forall>r. doneResult l = Some r \<longrightarrow> doneResult l' = Some r)" if "ppp_run isMulti l l'" for l'
    using ppp_run_inv [OF that] life by (auto simp: inv_step_def keeps_run_def keeps_end_def link_life_def link_end_def)
  have e: "link_end l" using life by (simp add: link_life_def)
  have now: "linkClosed l \<longleftrightarrow> phase l = pppLinkPhaseClosed" "linkClosed l \<longleftrightarrow> (linkTermination l \<noteq> None) \<noteq> (doneResult l \<noteq> None)"
    "linkClosed l \<longleftrightarrow> linkTermination l \<noteq> None \<or> doneResult l \<noteq> None"
    "carrier l = None \<longleftrightarrow> linkClosed l \<and> (\<forall>err. linkTermination l \<noteq> Some (TermDetach err))"
    using e unfolding link_end_def by (simp; cases "linkTermination l"; cases "doneResult l"; simp)+
  show ?thesis using now stays life unfolding link_life_def by blast
qed

theorem ppp_link_lifecycle_witness:
  "\<exists>l. ppp_run (\<lambda>_ _. False) sampleLink l \<and> phase l = pppLinkPhaseNetwork \<and> ready l \<and> addressesLocked l \<and> \<not> linkClosed l \<and> carrier l \<noteq> None \<and>
    linkClosed (terminateBegin l None) \<and> carrier (terminateBegin l None) \<noteq> None \<and> doneResult (terminateBegin l None) = None"
proof (rule sample_run)
  fix l assume l: "ppp_run (\<lambda>_ _. False) sampleLink l" "phase l = pppLinkPhaseNetwork"
  have t: "ppp_run (\<lambda>_ _. False) sampleLink (terminateBegin l None)" by (rule run_step [OF l(1) step_terminate])
  have o: "\<not> linkClosed l" "ready l" "addressesLocked l" "carrier l \<noteq> None"
    using ppp_link_lifecycle [OF sampleLink_new sampleConfig_wf l(1)] l(2) by auto
  then have "linkTermination (terminateBegin l None) = Some (TermDetach None)" by (simp add: terminateBegin_def)
  then have "linkClosed (terminateBegin l None)" "carrier (terminateBegin l None) \<noteq> None" "doneResult (terminateBegin l None) = None"
    using ppp_link_lifecycle [OF sampleLink_new sampleConfig_wf t] by auto
  then show ?thesis using l o by blast
qed

text \<open>C6: the addresses of the network phase. When a link reached it, every wanted family has a usable local address, and
  these addresses stay the same in whatever happens afterwards, carrier switches and renegotiation included.\<close>

theorem ppp_network_addresses:
  assumes "newPPPLink c random now = Inr l0" "wf_addr (prefixAddr (IPv6Address c))" "ppp_run isMulti l0 l"
    "phase l = pppLinkPhaseNetwork" "ppp_run isMulti l l'"
  shows "(wantIPv4 l \<longrightarrow> addressUsable4 (localIPv4 l) \<and> localIPv4 l' = localIPv4 l) \<and>
    (wantIPv6 l \<longrightarrow> addressUsable6 (localIPv6 l) \<and> localIPv6 l' = localIPv6 l)"
proof -
  have inv: "link_inv l" using reachable_inv [OF assms(1-3)] .
  have k: "keeps_addresses l l'" using ppp_run_inv [OF assms(5)] by (simp add: inv_step_def keeps_run_def)
  have "addressesLocked l" "wf_addr (localIPv6 l)"
    using inv assms(4) by (auto simp: link_inv_def link_life_def link_ok_def link_terms_def)
  moreover have "wantIPv4 l \<Longrightarrow> addressUsable4 (localIPv4 l)" "wantIPv6 l \<Longrightarrow> addressUsable6 (localIPv6 l)"
    using inv assms(4) by (simp_all add: link_inv_def link_ok_def link_terms_def)
  moreover have "addressUsable4 a \<Longrightarrow> addrValid a" "addressUsable6 a \<Longrightarrow> Is6 a" for a
    by (auto simp: addressUsable4_def addressUsable6_def addrValid_def)
  ultimately show ?thesis using k by (auto simp: keeps_addresses_def)
qed

theorem ppp_network_addresses_witness:
  "\<exists>l. ppp_run (\<lambda>_ _. False) sampleLink l \<and> phase l = pppLinkPhaseNetwork \<and> wantIPv4 l \<and> addressUsable4 (localIPv4 l) \<and>
     localIPv4 (fst (closeBegin l)) = localIPv4 l"
proof (rule sample_run)
  fix l assume l: "ppp_run (\<lambda>_ _. False) sampleLink l" "phase l = pppLinkPhaseNetwork" "wantIPv4 l"
  have "ppp_run (\<lambda>_ _. False) l (fst (closeBegin l))" by (rule run_step [OF run_refl step_close])
  from ppp_network_addresses [OF sampleLink_new sampleConfig_wf l(1,2) this] l show ?thesis by auto
qed

text \<open>C10: a successful carrier switch isolates the link from its old carrier. A frame, a delivery, a failure and a write of the
  previous generation have no effect on the link any more, which negotiates afresh under the next generation and
  carries no data until it is ready again.\<close>

theorem ppp_switch_isolates:
  assumes "SwitchCarrier l c now oldClosed closed = (l', StartRequested request)"
  shows "handleFrameBegin isMulti l' (currentGeneration l) frame t = (l', FrameIgnored) \<and>
    handleFrameFinish l' (currentGeneration l) = (l', False) \<and>
    terminateCarrier l' (currentGeneration l) e phases result = (l', False) \<and>
    writeOutbounds l' env (packet\<lparr>outGeneration := currentGeneration l\<rparr> # packets) = (l', Some (Sentinel ErrDataChannelNotReady)) \<and>
    outGeneration request = currentGeneration l + 1 \<and> phase l' = pppLinkPhaseEstablishing \<and>
    WriteDataPacketBuffers isMulti l' env buffers result = (l', Some (Sentinel ErrDataChannelNotReady))"
proof -
  have ok: "\<not> (carrierConnection c = None \<or> isl (newPPPFrameDecoder (Encapsulation (config l))) \<or>
   carrierMTU c \<noteq> 0 \<and> (unat (carrierMTU c) < pppMinimumMRU \<or> carrierMTU c > pppMaximumTunnelMTU (Encapsulation (config l))) \<or>
   \<not> started l \<or> linkClosed l \<or> phase l \<noteq> pppLinkPhaseNetwork)"
    using SwitchCarrier_refused [of c l now oldClosed closed] assms by force
  then obtain conn dec where cd: "carrierConnection c = Some conn" "newPPPFrameDecoder (Encapsulation (config l)) = Inr dec"
    by (cases "newPPPFrameDecoder (Encapsulation (config l))") auto
  define m where "m = (if carrierMTU c \<noteq> 0 then ucast (carrierMTU c) else localMRU l)"
  define cfg where "cfg = (if carrierMTU c \<noteq> 0 then (config l)\<lparr>linkMTU := carrierMTU c\<rparr> else config l)"
  define k where "k = \<lparr>connection = conn, datagram = carrierDatagram c, generation = currentGeneration l + 1, decoder = dec, writeFailed = False\<rparr>"
  define l3 where "l3 = (resetNegotiationLocked (l\<lparr>localMRU := m, config := cfg\<rparr>) now)\<lparr>carrier := Some k\<rparr>"
  obtain l4 built where b: "buildConfigurationRequestLocked l3 pppProtocolLCP now = (l4, built)" by force
  note acc = SwitchCarrier_accepted [OF switchLocked_accepted [OF cd _ _ _ _ b [unfolded l3_def k_def m_def cfg_def]], of oldClosed closed]
  have sw: "built = Inr request" "carrier l' = carrier l4 \<and> linkClosed l' = linkClosed l4 \<and> phase l' = phase l4 \<and> ready l' = ready l4"
    using assms ok by (auto simp: acc Let_def split: sum.split_asm)
  have s4: "same_terms l3 l4" using build_frame [of l3 pppProtocolLCP now] b by simp
  have l3: "carrier l3 = Some k" "\<not> linkClosed l3" "phase l3 = pppLinkPhaseEstablishing" "\<not> ready l3" "generation k = currentGeneration l + 1"
    using ok by (simp_all add: l3_def resetNegotiationLocked_def k_def)
  then have l': "carrier l' = Some k" "\<not> linkClosed l'" "phase l' = pppLinkPhaseEstablishing" "\<not> ready l'"
    using s4 sw(2) by (simp_all add: same_terms_def untouched_def)
  have g: "currentGeneration l' = currentGeneration l + 1" "currentGeneration l \<noteq> currentGeneration l + 1"
    using l' l3(5) by (simp_all add: currentGeneration_def)
  have "outGeneration request = currentGeneration l + 1"
  proof -
    have "outGeneration request = currentGeneration l4"
      using b sw(1) by (auto simp: buildConfigurationRequestLocked_def outboundPacketLocked_def Let_def split: sum.split_asm prod.split_asm)
    then show ?thesis using l'(1) sw(2) l3(5) by (simp add: currentGeneration_def)
  qed
  then show ?thesis
    using l' l3(5) g by (simp add: handleFrameBegin_def handleFrameFinish_def terminateCarrier_def writeOutbounds_def
        writeOutboundsLocked_def WriteDataPacketBuffers_def Let_def)
qed

lemma switch_sample:
  obtains l' request where "SwitchCarrier (sampleLink\<lparr>phase := pppLinkPhaseNetwork, started := True\<rparr>)
     \<lparr>carrierConnection = Some 8, carrierDatagram = True, carrierMTU = 0, negotiationTimeout = 0\<rparr> 5 None None = (l', StartRequested request)"
proof -
  have "Encapsulation (config sampleLink) = pppEncapsulationF5" by (simp add: sampleLink_def sample_simps)
  then show ?thesis
    using that by (simp add: SwitchCarrier_def switchLocked_def keepCloseErr_def newPPPFrameDecoder_def resetNegotiationLocked_def buildConfigurationRequestLocked_def
        controlStateLocked_def requestOptions_def lcpRequestOptions_def nextMagic_def sampleLink_fields appendPPPOptionUint16_def
        buildPPPControlPacket_def updateControl_def Let_def)
qed

theorem ppp_switch_isolates_witness:
  "\<exists>l' request. SwitchCarrier (sampleLink\<lparr>phase := pppLinkPhaseNetwork, started := True\<rparr>)
     \<lparr>carrierConnection = Some 8, carrierDatagram = True, carrierMTU = 0, negotiationTimeout = 0\<rparr> 5 None None = (l', StartRequested request) \<and>
     outGeneration request = 2 \<and> handleFrameBegin (\<lambda>_ _. False) l' 1 [0xff, 3, 0xc0, 0x21, 5, 1, 0, 4] 6 = (l', FrameIgnored)"
proof (rule switch_sample)
  fix l' request
  let ?l = "sampleLink\<lparr>phase := pppLinkPhaseNetwork, started := True\<rparr>"
  assume s: "SwitchCarrier ?l \<lparr>carrierConnection = Some 8, carrierDatagram = True, carrierMTU = 0, negotiationTimeout = 0\<rparr> 5 None None =
      (l', StartRequested request)"
  have "currentGeneration ?l = 1" by (simp add: currentGeneration_def) (use sampleLink_fields(10) in \<open>simp add: currentGeneration_def\<close>)
  then show ?thesis using ppp_switch_isolates [OF s, of "\<lambda>_ _. False" "[0xff, 3, 0xc0, 0x21, 5, 1, 0, 4]" 6] s by simp
qed

text \<open>C11: closing does not stop a negotiation that the peer completes. After \<open>Close\<close> has put a link that is still
  negotiating into the terminating phase, the peer's outstanding acknowledgements and requests bring it into the
  network phase and make it ready again; the peer's Terminate-Ack, for which \<open>Close\<close> waits, is then ignored.\<close>

theorem ppp_close_reopened:
  assumes "able l" "all_helpful l (lcps @ nets)"
    "mentions lcps pppProtocolLCP True" "mentions lcps pppProtocolLCP False"
    "\<And>p b. wanted l p \<Longrightarrow> p \<noteq> pppProtocolLCP \<Longrightarrow> mentions nets p b"
  shows "phase (fst (closeBegin l)) = pppLinkPhaseTerminating \<and>
    (\<exists>l'. handleFrames isMulti (\<lambda>_. None) (fst (closeBegin l)) (currentGeneration l) (wireFrames (lcps @ nets)) now closed = (l', [], False) \<and>
      phase l' = pppLinkPhaseNetwork \<and> ready l' \<and>
      handleControlPacketLocked l' pppProtocolLCP [6, i, 0, 4] later = (l', Inr ([], False)))"
proof -
  let ?l = "fst (closeBegin l)"
  have c: "?l = l\<lparr>phase := pppLinkPhaseTerminating, ready := False\<rparr>" using assms(1) by (simp add: closeBegin_def able_def)
  have a: "able ?l" "wanted ?l = wanted l" "currentGeneration ?l = currentGeneration l" "nakable q ?l = nakable q l" for q
    using assms(1) by (simp_all add: c able_def wanted_def currentGeneration_def nakable_def fun_eq_iff)
  have h: "all_helpful ?l (lcps @ nets)" using assms(2) a(2,4) all_helpful_same [of ?l l "lcps @ nets"] by simp
  obtain l' where l': "handleFrames isMulti (\<lambda>_. None) ?l (currentGeneration ?l) (wireFrames (lcps @ nets)) now closed = (l', [], False)"
    "phase l' = pppLinkPhaseNetwork" "ready l'"
    using negotiation_completes [OF a(1) h assms(3,4), of isMulti now closed] assms(5) a(2) by auto
  have pk: "parsePPPControlPacket [6, i, 0, 4] = Inr (6, i, [])"
    using parsePPPControlPacket_built [of 6 i "[]" "[6, i, 0, 4]"] by (simp add: buildPPPControlPacket_def put_u16_def)
  have "handleControlPacketLocked l' pppProtocolLCP [6, i, 0, 4] later = (l', Inr ([], False))"
    using l'(2) by (simp add: handleControlPacketLocked_def pk pppCodeConfigureRequest_def pppCodeConfigureAcknowledgement_def
        pppCodeConfigureNegativeAcknowledgement_def pppCodeConfigureRejection_def pppCodeTerminateRequest_def
        pppCodeTerminateAcknowledgement_def)
  moreover have "phase ?l = pppLinkPhaseTerminating" by (simp add: c)
  ultimately show ?thesis using l' a(3) by auto
qed

theorem ppp_close_reopened_witness:
  "\<exists>l'. handleFrames (\<lambda>_ _. False) (\<lambda>_. None) (fst (closeBegin sampleLink)) 1
      [[0xff, 3, 0xc0, 0x21, 2, 1, 0, 4], [0xff, 3, 0xc0, 0x21, 1, 1, 0, 4],
       [0xff, 3, 0x80, 0x21, 2, 1, 0, 4], [0xff, 3, 0x80, 0x21, 1, 1, 0, 4]] 0 None = (l', [], False) \<and>
     phase l' = pppLinkPhaseNetwork \<and> ready l'"
  using ppp_close_reopened [OF sample_able sample_helpful sample_mentions(1) sample_mentions(1) sample_mentions(2), of "\<lambda>_ _. False" 0 None]
  unfolding sample_wire sampleLink_fields by blast

end
