(* ===== verification/Ppp_Data.thy ===== *)
theory Ppp_Data
  imports Ppp_Lifecycle
begin

text \<open>
  Data over a PPP link: the encoder that works in the packet's buffer agrees with the plain one, and
  whatever a link accepts as data is encoded, decoded and parsed back by the other side.
\<close>

section \<open>The two encoders\<close>

lemma writePPPHDLCBufferByte_append: "writePPPHDLCBufferByte d v m = appendPPPHDLCByte d v m"
  by (simp add: writePPPHDLCBufferByte_def appendPPPHDLCByte_def Let_def)

lemma hdlc_fold:
  "fold (\<lambda>v (fcs, frame). (updatePPPHDLCFCS fcs v, appendPPPHDLCByte frame v m)) xs (f, c) =
     (fold (\<lambda>v fcs. updatePPPHDLCFCS fcs v) xs f, fold (\<lambda>v content. appendPPPHDLCByte content v m) xs c)"
  by (induction xs arbitrary: f c) simp_all

lemma encodePPPHDLCFrameBuffer_plain: "encodePPPHDLCFrameBuffer buffer header m = encodePPPHDLCFrame (header @ buffer) m"
  by (simp add: encodePPPHDLCFrameBuffer_def encodePPPHDLCFrame_def writePPPHDLCBufferByte_append hdlc_fold fcsOf_def Let_def)

lemma header_length: "length (buildPPPPacketHeader p pc ac) \<le> 4" "buildPPPPacketHeader p pc ac \<noteq> []"
  by (simp_all add: buildPPPPacketHeader_def)

lemma encodeBuffer_plain:
  assumes "packetBuffer packet = Some buffer" "protocol packet \<noteq> 0" "buffer \<noteq> []"
    "length (buildPPPPacketHeader (protocol packet) (protocolCompression packet) (addressCompression packet)) + length buffer \<le> pppMaximumPayloadLength"
  shows "encodePPPOutboundPacket e packet =
    encodePPPFrame e (buildPPPPacketHeader (protocol packet) (protocolCompression packet) (addressCompression packet) @ buffer) (asyncMap packet)"
  using assms by (cases e)
    (simp_all add: encodePPPOutboundPacket_def encodePPPOutboundPacketBuffer_def encodePPPFrame_def encodePPPHDLCFrameBuffer_plain Let_def)

section \<open>Data packets\<close>

lemma dataPackets_prefix:
  "dataPackets l bs = (ps, err) \<Longrightarrow>
     list_all2 (\<lambda>b p. dataProtocol l b = Inr (protocol p) \<and> p = outboundPacketBufferLocked l (protocol p) b) (take (length ps) bs) ps"
proof (induction bs arbitrary: ps)
  case (Cons b bs)
  show ?case
  proof (cases "dataProtocol l b")
    case (Inl e)
    with Cons.prems show ?thesis by simp
  next
    case (Inr p)
    then obtain qs where "dataPackets l bs = (qs, err)" "ps = outboundPacketBufferLocked l p b # qs"
      using Cons.prems by (cases "dataPackets l bs") auto
    with Cons.IH [of qs] Inr show ?thesis by (simp add: outboundPacketBufferLocked_def)
  qed
qed simp

lemma dataProtocol_ok:
  assumes "dataProtocol l b = Inr p"
  shows "b \<noteq> []" "length b \<le> unat (localMRU l)" "p = pppProtocolIPv4 \<or> p = pppProtocolIPv6"
  using assms by (auto simp: dataProtocol_def split: if_split_asm)

text \<open>The payload of the frame that a data packet becomes.\<close>

definition framePayload :: "pppLink \<Rightarrow> u16 \<Rightarrow> bytes \<Rightarrow> bytes" where
  "framePayload l p b = buildPPPPacketHeader p (outboundProtocolCompression l) (outboundAddressCompression l) @ b"

lemma data_encodes:
  assumes "dataProtocol l b = Inr p" "link_mru l" "newPPPFrameDecoder (Encapsulation (config l)) = Inr d"
  obtains f where "encodePPPOutboundPacket (Encapsulation (config l)) (outboundPacketBufferLocked l p b) = Inr f"
    "encodePPPFrame (Encapsulation (config l)) (framePayload l p b) (localAsyncMap l) = Inr f"
proof -
  let ?e = "Encapsulation (config l)" and ?h = "buildPPPPacketHeader p (outboundProtocolCompression l) (outboundAddressCompression l)"
  note ok = dataProtocol_ok [OF assms(1)]
  have p: "p \<noteq> 0" "p \<noteq> pppProtocolLCP"
    using ok(3) by (auto simp: pppProtocolIPv4_def pppProtocolIPv6_def pppProtocolLCP_def)
  have mru: "length b \<le> unat (pppMaximumTunnelMTU ?e)" using ok(2) assms(2) by (simp add: link_mru_def)
  have max: "unat (pppMaximumTunnelMTU ?e) = (if ?e = pppEncapsulationFortinet then 65525 else 65531)"
    by (simp add: pppMaximumTunnelMTU_def pppMaximumPayloadLength_def Let_def)
  have len: "length ?h + length b \<le> (if ?e = pppEncapsulationFortinet then 65529 else 65535)"
    using header_length(1) [of p "outboundProtocolCompression l" "outboundAddressCompression l"] mru max by (simp split: if_split_asm)
  have e: "?e = pppEncapsulationF5 \<or> ?e = pppEncapsulationF5HDLC \<or> ?e = pppEncapsulationFortinet"
    using assms(3) by (cases ?e) (auto simp: newPPPFrameDecoder_def)
  have plain: "encodePPPOutboundPacket ?e (outboundPacketBufferLocked l p b) = encodePPPFrame ?e (framePayload l p b) (localAsyncMap l)"
    using encodeBuffer_plain [of "outboundPacketBufferLocked l p b" b ?e] p ok(1) len
    by (simp add: outboundPacketBufferLocked_def framePayload_def pppMaximumPayloadLength_def split: if_split_asm)
  have "\<exists>f. encodePPPFrame ?e (framePayload l p b) (localAsyncMap l) = Inr f"
    using e ok(1) len by (auto simp: encodePPPFrame_def framePayload_def pppMaximumPayloadLength_def)
  with plain that show ?thesis by metis
qed

lemma encodePackets_data:
  assumes "list_all2 (\<lambda>b p. dataProtocol l b = Inr (protocol p) \<and> p = outboundPacketBufferLocked l (protocol p) b) bs ps"
    "link_mru l" "newPPPFrameDecoder (Encapsulation (config l)) = Inr d"
  shows "\<exists>frames. encodePackets (Encapsulation (config l)) (currentGeneration l) ps = (frames, None) \<and>
    list_all2 (\<lambda>x f. encodePPPFrame (Encapsulation (config l)) x (localAsyncMap l) = Inr f)
      (map2 (\<lambda>b p. framePayload l (protocol p) b) bs ps) frames"
  using assms(1)
proof (induction bs ps rule: list_all2_induct)
  case (Cons b bs p ps)
  obtain f where f: "encodePPPOutboundPacket (Encapsulation (config l)) p = Inr f"
    "encodePPPFrame (Encapsulation (config l)) (framePayload l (protocol p) b) (localAsyncMap l) = Inr f"
    using data_encodes [of l b "protocol p" d] Cons.hyps(1) assms(2,3) by metis
  have "outGeneration p = currentGeneration l"
    using Cons.hyps(1) by (metis outboundPacketBufferLocked_def pppOutboundPacket.select_convs(1))
  then show ?case using Cons.IH f by auto
qed simp

section \<open>Properties\<close>

text \<open>The encoder that builds the frame inside the packet's buffer and the plain encoder agree on every packet
  that fits a frame, on the bytes and on the error.\<close>

theorem ppp_encoders_agree:
  assumes "packetBuffer packet = Some buffer"
    "length (buildPPPPacketHeader (protocol packet) (protocolCompression packet) (addressCompression packet)) + length buffer \<le> pppMaximumPayloadLength"
  shows "encodePPPOutboundPacket e packet = encodePPPOutboundPacket e (packet\<lparr>packetBuffer := None, payload := buffer\<rparr>)"
proof (cases "protocol packet = 0 \<or> buffer = []")
  case True
  then show ?thesis using assms(1) by (auto simp: encodePPPOutboundPacket_def encodePPPOutboundPacketBuffer_def)
next
  case False
  then show ?thesis using encodeBuffer_plain [OF assms(1) _ _ assms(2), of e] by (simp add: encodePPPOutboundPacket_def)
qed

theorem ppp_encoders_agree_witness:
  "let packet = outboundPacketBufferLocked sampleLink pppProtocolIPv4 [0x45, 0x7e]
   in encodePPPOutboundPacket pppEncapsulationF5HDLC packet =
        encodePPPOutboundPacket pppEncapsulationF5HDLC (packet\<lparr>packetBuffer := None, payload := [0x45, 0x7e]\<rparr>) \<and>
      encodePPPOutboundPacket pppEncapsulationF5 packet =
        Inr (put_u16 pppF5Magic @ put_u16 6 @ [0xff, 3, 0, 0x21, 0x45, 0x7e])"
proof -
  let ?p = "outboundPacketBufferLocked sampleLink pppProtocolIPv4 [0x45, 0x7e]"
  have h: "buildPPPPacketHeader pppProtocolIPv4 False False = [0xff, 3, 0, 0x21]"
    by (simp add: buildPPPPacketHeader_def pppProtocolIPv4_def drop_bit_eq_div)
  have c: "outboundProtocolCompression sampleLink = False" "outboundAddressCompression sampleLink = False"
    by (simp_all add: sampleLink_def sample_simps)
  have p: "protocol ?p = pppProtocolIPv4" "packetBuffer ?p = Some [0x45, 0x7e]" "protocolCompression ?p = False" "addressCompression ?p = False"
    by (simp_all add: outboundPacketBufferLocked_def c)
  have n: "pppProtocolIPv4 \<noteq> 0" by (simp add: pppProtocolIPv4_def)
  have "encodePPPOutboundPacket pppEncapsulationF5 ?p = Inr (put_u16 pppF5Magic @ put_u16 6 @ [0xff, 3, 0, 0x21, 0x45, 0x7e])"
    by (simp add: encodePPPOutboundPacket_def encodePPPOutboundPacketBuffer_def p h n Let_def)
  moreover have "length (buildPPPPacketHeader (protocol ?p) (protocolCompression ?p) (addressCompression ?p)) + length [0x45 :: byte, 0x7e] \<le> pppMaximumPayloadLength"
    by (simp add: p h pppMaximumPayloadLength_def)
  ultimately show ?thesis using ppp_encoders_agree [OF p(2)] by simp
qed

text \<open>C4: data that a link accepts always reaches the other side. In every state that a link can reach, the packets that
  the validation admits are all encoded without an error, and a decoder of the link's encapsulation that is given
  their frames, cut into pieces in any way, returns payloads that parse to exactly the admitted packets under
  their protocols, in order, whenever the pieces fit its receive buffer.\<close>

theorem ppp_data_roundtrip:
  assumes "newPPPLink c random now = Inr l0" "wf_addr (prefixAddr (IPv6Address c))" "ppp_run isMulti l0 l"
    "newPPPFrameDecoder (Encapsulation (config l)) = Inr d" "dataPackets l buffers = (packets, err)"
  shows "\<exists>frames. encodePackets (Encapsulation (config l)) (currentGeneration l) packets = (frames, None) \<and>
    (\<forall>chunks. concat chunks = concat frames \<and> length (concat chunks) \<le> pppMaximumWireFrameSize \<longrightarrow>
      (\<exists>payloads. snd (pushAll d chunks) = Inr payloads \<and>
         map parsePPPPacket payloads = map2 (\<lambda>b p. Inr (protocol p, b)) (take (length packets) buffers) packets))"
proof -
  let ?bs = "take (length packets) buffers"
  have mru: "link_mru l" using reachable_inv [OF assms(1-3)] by (simp add: link_inv_def link_ok_def)
  note pre = dataPackets_prefix [OF assms(5)]
  obtain frames where f: "encodePackets (Encapsulation (config l)) (currentGeneration l) packets = (frames, None)"
    and enc: "list_all2 (\<lambda>x f. encodePPPFrame (Encapsulation (config l)) x (localAsyncMap l) = Inr f)
      (map2 (\<lambda>b p. framePayload l (protocol p) b) ?bs packets) frames"
    using encodePackets_data [OF pre mru assms(4)] by blast
  have "parsePPPPacket (framePayload l (protocol p) b) = Inr (protocol p, b)" if "(b, p) \<in> set (zip ?bs packets)" for b p
  proof -
    have "dataProtocol l b = Inr (protocol p)" using pre that by (auto simp: list_all2_iff)
    then show ?thesis
      using dataProtocol_ok(3) unfolding framePayload_def by (intro parsePPPPacket_header) fastforce
  qed
  then have "map parsePPPPacket (map2 (\<lambda>b p. framePayload l (protocol p) b) ?bs packets) = map2 (\<lambda>b p. Inr (protocol p, b)) ?bs packets"
    by auto
  with f pushAll_frames [OF enc assms(4)] show ?thesis by blast
qed

theorem ppp_data_roundtrip_witness:
  "\<exists>frames. encodePackets pppEncapsulationF5 1 (fst (dataPackets sampleLink [[0x45, 0], [], [0x45, 1]])) = (frames, None) \<and>
     snd (dataPackets sampleLink [[0x45, 0], [], [0x45, 1]]) = Some (New ''empty PPP data packet'') \<and>
    (\<forall>chunks. concat chunks = concat frames \<and> length (concat chunks) \<le> pppMaximumWireFrameSize \<longrightarrow>
      (\<exists>payloads. snd (pushAll \<lparr>encapsulation = pppEncapsulationF5, pending = []\<rparr> chunks) = Inr payloads \<and>
         map parsePPPPacket payloads = [Inr (pppProtocolIPv4, [0x45, 0])]))"
proof -
  have m: "localMRU sampleLink = 1400" "peerMRU sampleLink = 1500" "Encapsulation (config sampleLink) = pppEncapsulationF5"
    by (simp_all add: sampleLink_def sample_simps pppDefaultMRU_def)
  have d: "newPPPFrameDecoder (Encapsulation (config sampleLink)) = Inr \<lparr>encapsulation = pppEncapsulationF5, pending = []\<rparr>"
    by (simp add: m newPPPFrameDecoder_def)
  let ?p = "outboundPacketBufferLocked sampleLink pppProtocolIPv4 [0x45, 0]"
  have p: "dataPackets sampleLink [[0x45, 0], [], [0x45, 1]] = ([?p], Some (New ''empty PPP data packet''))"
    by (simp add: dataProtocol_def m sampleLink_fields drop_bit_eq_div)
  have w: "wf_addr (prefixAddr (IPv6Address sampleConfig))" by (simp add: sampleConfig_def noPrefix_def)
  have q: "protocol ?p = pppProtocolIPv4" by (simp add: outboundPacketBufferLocked_def)
  show ?thesis
    using ppp_data_roundtrip [OF sampleLink_new w run_refl d p] unfolding m(3) sampleLink_fields(10) p by (simp add: q)
qed

end
