(* ===== verification/Pulse_Ift.thy ===== *)
theory Pulse_Ift
  imports Framing
begin

text \<open>
  The transport of Pulse (\<^verbatim>\<open>pulse_ift.go\<close>): IF-T frames over a connection, EAP packets, and the
  attribute-value pairs of the authentication.

  A connection is what it will still deliver, the state of its writer, and the sequence number of
  the next frame written. A packet buffer is its content.
\<close>

section \<open>Definitions\<close>

definition pulseVendorTCG :: u32 where "pulseVendorTCG = 0x5597"
definition pulseVendorJuniper :: u32 where "pulseVendorJuniper = 0x0a4c"
definition pulseVendorJuniper2 :: u32 where "pulseVendorJuniper2 = 0x0583"

definition pulseIFTVersionRequest :: u32 where "pulseIFTVersionRequest = 1"
definition pulseIFTVersionResponse :: u32 where "pulseIFTVersionResponse = 2"
definition pulseIFTClientAuthChallenge :: u32 where "pulseIFTClientAuthChallenge = 5"
definition pulseIFTClientAuthResponse :: u32 where "pulseIFTClientAuthResponse = 6"
definition pulseIFTClientAuthSuccess :: u32 where "pulseIFTClientAuthSuccess = 7"
definition pulseIFTAuthenticationJuniper :: u32 where
  "pulseIFTAuthenticationJuniper = push_bit 8 pulseVendorJuniper OR 1"

definition pulseEAPRequest :: byte where "pulseEAPRequest = 1"
definition pulseEAPResponse :: byte where "pulseEAPResponse = 2"
definition pulseEAPSuccess :: byte where "pulseEAPSuccess = 3"
definition pulseEAPFailure :: byte where "pulseEAPFailure = 4"

definition pulseEAPTypeTTLS :: byte where "pulseEAPTypeTTLS = 0x15"
definition pulseEAPTypeExpanded :: byte where "pulseEAPTypeExpanded = 0xfe"
definition pulseEAPExpandedJuniper :: u32 where
  "pulseEAPExpandedJuniper = push_bit 24 (ucast pulseEAPTypeExpanded) OR pulseVendorJuniper"
definition pulseAVPEAPMessage :: u32 where "pulseAVPEAPMessage = 79"
definition pulseAVPFlagVendor :: byte where "pulseAVPFlagVendor = 0x80"
definition pulseAVPFlagMandatory :: byte where "pulseAVPFlagMandatory = 0x40"

definition pulseIFTHeaderSize :: nat where "pulseIFTHeaderSize = 16"
definition pulseAuthenticationFrameLimit :: nat where "pulseAuthenticationFrameLimit = 16 * 1024"
definition pulseConfigurationFrameLimit :: nat where "pulseConfigurationFrameLimit = 1024 * 1024"

subsection \<open>Frames\<close>

record pulseIFTFrame =
  vendor :: u32
  frameType :: u32
  frameSequence :: u32
  framePayload :: bytes

record 'w pulseIFTConnection =
  iftInput :: reader
  iftOutput :: 'w
  nextSequence :: u32

definition readFrameBuffer :: "'w pulseIFTConnection \<Rightarrow> int \<Rightarrow> 'w pulseIFTConnection \<times> pulseIFTFrame result" where
  "readFrameBuffer c maximumLength =
     (if maximumLength < int pulseIFTHeaderSize then (c, Inl (New ''invalid Pulse IF-T frame limit''))
      else case readFull (iftInput c) pulseIFTHeaderSize of
        (Inl err, r) \<Rightarrow> (c\<lparr>iftInput := r\<rparr>, Inl (Cause err ''read Pulse IF-T header''))
      | (Inr header, r) \<Rightarrow>
          let totalLength = get_u32 (subslice header 8 12) in
          if totalLength < u32_of pulseIFTHeaderSize \<or> totalLength > word_of_int maximumLength
          then (c\<lparr>iftInput := r\<rparr>, Inl (New ''invalid Pulse IF-T frame length''))
          else case readFull r (unat totalLength - pulseIFTHeaderSize) of
            (Inl err, r') \<Rightarrow> (c\<lparr>iftInput := r'\<rparr>, Inl (Cause err ''read Pulse IF-T payload''))
          | (Inr content, r') \<Rightarrow>
              (c\<lparr>iftInput := r'\<rparr>, Inr \<lparr>vendor = get_u32 (take 4 header), frameType = get_u32 (subslice header 4 8),
                 frameSequence = get_u32 (subslice header 12 16), framePayload = content\<rparr>))"

definition readFrame :: "'w pulseIFTConnection \<Rightarrow> int \<Rightarrow> 'w pulseIFTConnection \<times> pulseIFTFrame result" where
  "readFrame c maximumLength = readFrameBuffer c maximumLength"

text \<open>The bytes of a frame, and the loop that puts the headers in front: it stops at a payload that is too large.\<close>

definition iftBytes :: "u32 \<Rightarrow> u32 \<Rightarrow> u32 \<Rightarrow> bytes \<Rightarrow> bytes" where
  "iftBytes v t n content =
     put_u32 v @ put_u32 t @ put_u32 (u32_of (pulseIFTHeaderSize + length content)) @ put_u32 n @ content"

fun iftEncode :: "u32 \<Rightarrow> u32 \<Rightarrow> u32 \<Rightarrow> bytes list \<Rightarrow> u32 \<times> bytes list result" where
  "iftEncode v t n [] = (n, Inr [])"
| "iftEncode v t n (content # contents) =
     (if length content + pulseIFTHeaderSize > 4294967295 then (n, Inl (New ''IF-T payload is too large''))
      else case iftEncode v t (n + 1) contents of
        (n', r) \<Rightarrow> (n', map_sum id ((#) (iftBytes v t n content)) r))"

definition writeFrameBuffers ::
  "'w writer \<Rightarrow> 'w pulseIFTConnection \<Rightarrow> u32 \<Rightarrow> u32 \<Rightarrow> bytes list \<Rightarrow> 'w pulseIFTConnection \<times> unit result" where
  "writeFrameBuffers w c v t contents =
     (if contents = [] then (c, Inr ())
      else case iftEncode v t (nextSequence c) contents of
        (n, Inl err) \<Rightarrow> (c\<lparr>nextSequence := n\<rparr>, Inl err)
      | (n, Inr frames) \<Rightarrow>
          (case writeByteSequence w (iftOutput c) frames of
             (s, Inl err) \<Rightarrow> (c\<lparr>nextSequence := n, iftOutput := s\<rparr>, Inl (Cause err ''write Pulse protocol bytes''))
           | (s, Inr _) \<Rightarrow> (c\<lparr>nextSequence := n, iftOutput := s\<rparr>, Inr ())))"

definition writeFrames ::
  "'w writer \<Rightarrow> 'w pulseIFTConnection \<Rightarrow> u32 \<Rightarrow> u32 \<Rightarrow> bytes list \<Rightarrow> 'w pulseIFTConnection \<times> unit result" where
  "writeFrames w c v t contents = (if contents = [] then (c, Inr ()) else writeFrameBuffers w c v t contents)"

definition writeFrame ::
  "'w writer \<Rightarrow> 'w pulseIFTConnection \<Rightarrow> u32 \<Rightarrow> u32 \<Rightarrow> bytes \<Rightarrow> 'w pulseIFTConnection \<times> unit result" where
  "writeFrame w c v t content = writeFrames w c v t [content]"

function writePulseBytes :: "'w writer \<Rightarrow> 'w \<Rightarrow> bytes \<Rightarrow> 'w \<times> unit result" where
  "writePulseBytes w s content =
     (if content = [] then (s, Inr ())
      else case w s content of
        (s', n, Some err) \<Rightarrow> (s', Inl (Cause err ''write Pulse protocol bytes''))
      | (s', n, None) \<Rightarrow>
          if n \<le> 0 \<or> n > int (length content) then (s', Inl (New ''invalid Pulse protocol write length''))
          else writePulseBytes w s' (drop (nat n) content))"
  by pat_completeness auto
termination
  by (relation "measure (\<lambda>(w, s, content). length content)") auto

declare writePulseBytes.simps [simp del]

subsection \<open>EAP\<close>

record pulseEAPPacket =
  eapCode :: byte
  eapIdentifier :: byte
  typeValue :: u32
  subtype :: u32
  eapPayload :: bytes

definition parsePulseEAP :: "bytes \<Rightarrow> pulseEAPPacket result" where
  "parsePulseEAP content =
     (if length content < 4 then Inl (New ''EAP packet is shorter than its header'')
      else if unat (get_u16 (subslice content 2 4)) \<noteq> length content then Inl (New ''EAP length mismatch'')
      else
        let packet = \<lparr>eapCode = content ! 0, eapIdentifier = content ! 1, typeValue = 0, subtype = 0, eapPayload = []\<rparr> in
        if eapCode packet = pulseEAPSuccess \<or> eapCode packet = pulseEAPFailure then
          if length content \<noteq> 4 then Inl (New ''terminal EAP packet has a payload'') else Inr packet
        else if length content < 5 then Inl (New ''EAP packet omitted its type'')
        else if content ! 4 = pulseEAPTypeExpanded then
          if length content < 12 then Inl (New ''expanded EAP packet is too short'')
          else Inr (packet\<lparr>typeValue := get_u32 (subslice content 4 8), subtype := get_u32 (subslice content 8 12),
                           eapPayload := drop 12 content\<rparr>)
        else Inr (packet\<lparr>typeValue := ucast (content ! 4), eapPayload := drop 5 content\<rparr>))"

definition buildPulseEAP :: "byte \<Rightarrow> byte \<Rightarrow> byte \<Rightarrow> u32 \<Rightarrow> bytes \<Rightarrow> bytes result" where
  "buildPulseEAP code identifier type sub payload =
     (let headerLength = (if type = pulseEAPTypeExpanded then 12 else 5) in
      if int (length payload) > 65535 - headerLength then Inl (New ''EAP payload is too large'')
      else Inr ([code, identifier] @ put_u16 (u16_of (nat headerLength + length payload)) @
                (if type = pulseEAPTypeExpanded then put_u32 pulseEAPExpandedJuniper @ put_u32 sub else [type]) @
                payload))"

definition parsePulseAuthenticationEAP :: "pulseIFTFrame \<Rightarrow> pulseEAPPacket result" where
  "parsePulseAuthenticationEAP frame =
     (if vendor frame AND 0x00ffffff \<noteq> pulseVendorTCG \<or> frameType frame \<noteq> pulseIFTClientAuthChallenge
      then Inl (New ''unexpected Pulse IF-T authentication frame'')
      else if length (framePayload frame) < 4 \<or> get_u32 (take 4 (framePayload frame)) \<noteq> pulseIFTAuthenticationJuniper
      then Inl (New ''IF-T authentication frame omitted Juniper/1 auth type'')
      else case parsePulseEAP (drop 4 (framePayload frame)) of
        Inl err \<Rightarrow> Inl (Cause err ''parse Pulse IF-T EAP packet'')
      | Inr packet \<Rightarrow>
          if eapCode packet \<noteq> pulseEAPRequest then Inl (New ''unexpected Pulse EAP code'') else Inr packet)"

definition buildPulseAuthenticationPayload :: "bytes \<Rightarrow> bytes" where
  "buildPulseAuthenticationPayload packet = put_u32 pulseIFTAuthenticationJuniper @ packet"

subsection \<open>Attribute-value pairs\<close>

record pulseAVP =
  avpCode :: u32
  avpVendor :: u32
  avpFlags :: byte
  avpData :: bytes

definition aligned :: "nat \<Rightarrow> nat" where
  "aligned n = (n + 3) div 4 * 4"

function parsePulseAVPs :: "bytes \<Rightarrow> pulseAVP list result" where
  "parsePulseAVPs content =
     (if content = [] then Inr []
      else if length content < 8 then Inl (New ''AVP stream ended inside a header'')
      else
        let flags = content ! 4;
            attributeLength = unat (get_u32 (subslice content 4 8) AND 0x00ffffff);
            headerLength = (if flags AND pulseAVPFlagVendor \<noteq> 0 then 12 else 8)
        in if attributeLength < headerLength \<or> attributeLength > length content
           then Inl (New ''invalid Pulse AVP length'')
           else if aligned attributeLength > length content then Inl (New ''AVP padding exceeds its packet'')
           else map_sum id ((#) \<lparr>avpCode = get_u32 (take 4 content),
                  avpVendor = (if headerLength = 12 then get_u32 (subslice content 8 12) else 0),
                  avpFlags = flags, avpData = subslice content headerLength attributeLength\<rparr>)
                  (parsePulseAVPs (drop (aligned attributeLength) content)))"
  by pat_completeness auto
termination
proof (relation "measure length")
  fix content :: bytes and flags attributeLength and headerLength :: nat
  assume "content \<noteq> []" "headerLength = (if flags AND pulseAVPFlagVendor \<noteq> 0 then 12 else 8)"
    "\<not> (attributeLength < headerLength \<or> attributeLength > length content)"
  then have "0 < aligned attributeLength" by (simp add: aligned_def split: if_splits)
  with \<open>content \<noteq> []\<close> show "(drop (aligned attributeLength) content, content) \<in> measure length" by simp
qed simp

declare parsePulseAVPs.simps [simp del]

text \<open>The bytes appended for one pair.\<close>

definition avpBytes :: "u32 \<Rightarrow> u32 \<Rightarrow> bytes \<Rightarrow> bytes" where
  "avpBytes code v content =
     (let headerLength = (if v \<noteq> 0 then 12 else 8);
          flags = (if v \<noteq> 0 then pulseAVPFlagMandatory OR pulseAVPFlagVendor else pulseAVPFlagMandatory);
          attributeLength = headerLength + length content
      in put_u32 code @ put_u32 (push_bit 24 (ucast flags) OR u32_of attributeLength) @
         (if v \<noteq> 0 then put_u32 v else []) @ content @ replicate (aligned attributeLength - attributeLength) 0)"

definition appendPulseAVP :: "bytes \<Rightarrow> u32 \<Rightarrow> u32 \<Rightarrow> bytes \<Rightarrow> bytes result" where
  "appendPulseAVP destination code v content =
     (if (if v \<noteq> 0 then 12 else 8) + length content > 0x00ffffff then Inl (New ''AVP is too large'')
      else Inr (destination @ avpBytes code v content))"

section \<open>Frames\<close>

definition iftTake :: "int \<Rightarrow> bytes \<Rightarrow> (pulseIFTFrame \<times> bytes) result" where
  "iftTake limit bs = (case readFrameBuffer \<lparr>iftInput = \<lparr>stream = bs, final = ioEOF\<rparr>, iftOutput = (), nextSequence = 0\<rparr> limit of
     (c, Inl e) \<Rightarrow> Inl e | (c, Inr f) \<Rightarrow> Inr (f, stream (iftInput c)))"

definition ift_fits :: "int \<Rightarrow> pulseIFTFrame \<Rightarrow> bool" where
  "ift_fits limit f \<longleftrightarrow> 16 + int (length (framePayload f)) \<le> limit \<and> limit < 4294967296"

definition iftEnc :: "pulseIFTFrame \<Rightarrow> bytes" where
  "iftEnc f = iftBytes (vendor f) (frameType f) (frameSequence f) (framePayload f)"

lemma readFrameBuffer_frame:
  assumes "ift_fits limit f" "stream (iftInput c) = iftEnc f @ rest"
  shows "readFrameBuffer c limit = (c\<lparr>iftInput := (iftInput c)\<lparr>stream := rest\<rparr>\<rparr>, Inr f)"
proof -
  obtain e where i: "iftInput c = \<lparr>stream = iftEnc f @ rest, final = e\<rparr>" using assms(2) by (cases "iftInput c") simp
  define n where "n = pulseIFTHeaderSize + length (framePayload f)"
  define h where "h = put_u32 (vendor f) @ put_u32 (frameType f) @ put_u32 (u32_of n) @ put_u32 (frameSequence f)"
  have n: "int n \<le> limit" "limit < 4294967296" "16 \<le> n" "n - 16 = length (framePayload f)"
    using assms(1) by (simp_all add: ift_fits_def n_def pulseIFTHeaderSize_def)
  then have un: "unat (u32_of n) = n" by (intro unat_u32_of) linarith
  have ul: "unat (word_of_int limit :: u32) = nat limit"
    using n by (simp add: unsigned_of_int take_bit_int_eq_self)
  have ok: "\<not> (u32_of n < u32_of pulseIFTHeaderSize \<or> u32_of n > word_of_int limit)"
    using n un ul by (simp add: word_less_nat_alt pulseIFTHeaderSize_def)
  have bytes: "iftEnc f @ rest = h @ framePayload f @ rest" by (simp add: iftEnc_def iftBytes_def h_def n_def)
  have h: "length h = 16" "take 4 h = put_u32 (vendor f)" "subslice h 4 8 = put_u32 (frameType f)"
    "subslice h 8 12 = put_u32 (u32_of n)" "subslice h 12 16 = put_u32 (frameSequence f)"
    by (simp_all add: h_def subslice_def)
  have r: "readFull (iftInput c) pulseIFTHeaderSize = (Inr h, \<lparr>stream = framePayload f @ rest, final = e\<rparr>)"
    using readFull_append [of 16 h] by (simp add: i bytes h(1) pulseIFTHeaderSize_def)
  have "\<not> limit < int pulseIFTHeaderSize" using n by (simp add: pulseIFTHeaderSize_def)
  then show ?thesis
    unfolding readFrameBuffer_def r using ok un n(4) by (simp add: h Let_def) (simp add: pulseIFTHeaderSize_def i h)
qed

interpretation pulse_ift: record_format "ift_fits limit" iftEnc "iftTake limit" for limit
  by unfold_locales (simp add: iftTake_def readFrameBuffer_frame)

text \<open>The frames that a list of payloads becomes.\<close>

fun iftFrames :: "u32 \<Rightarrow> u32 \<Rightarrow> u32 \<Rightarrow> bytes list \<Rightarrow> pulseIFTFrame list" where
  "iftFrames v t n [] = []"
| "iftFrames v t n (content # contents) =
     \<lparr>vendor = v, frameType = t, frameSequence = n, framePayload = content\<rparr> # iftFrames v t (n + 1) contents"

lemma iftEncode_frames:
  "iftEncode v t n contents = (n', Inr fs) \<Longrightarrow> fs = map iftEnc (iftFrames v t n contents) \<and> n' = n + of_nat (length contents)"
proof (induction contents arbitrary: n fs)
  case (Cons content contents)
  obtain gs where e: "iftEncode v t (n + 1) contents = (n', Inr gs)" "fs = iftBytes v t n content # gs"
    using Cons.prems by (auto simp: map_sum_id_Inr split: if_split_asm prod.split_asm)
  show ?case using Cons.IH [OF e(1)] e(2) by (simp add: iftEnc_def)
qed simp

lemma writeFrames_out:
  assumes "honest_writer w out" "writeFrames w c v t contents = (c', Inr ())"
  shows "out (iftOutput c') = out (iftOutput c) @ concat (map iftEnc (iftFrames v t (nextSequence c) contents))"
    "nextSequence c' = nextSequence c + of_nat (length contents)" "iftInput c' = iftInput c"
proof -
  have "out (iftOutput c') = out (iftOutput c) @ concat (map iftEnc (iftFrames v t (nextSequence c) contents)) \<and>
    nextSequence c' = nextSequence c + of_nat (length contents) \<and> iftInput c' = iftInput c"
  proof (cases "contents = []")
    case True
    with assms(2) show ?thesis by (simp add: writeFrames_def)
  next
    case False
    then obtain fs n s where e: "iftEncode v t (nextSequence c) contents = (n, Inr fs)"
      and w: "writeByteSequence w (iftOutput c) fs = (s, Inr ())" and c': "c' = c\<lparr>nextSequence := n, iftOutput := s\<rparr>"
      using assms(2) by (auto simp: writeFrames_def writeFrameBuffers_def split: prod.split_asm sum.split_asm)
    show ?thesis
      using iftEncode_frames [OF e] writeByteSequence_honest [OF assms(1) w] by (simp add: c')
  qed
  then show "out (iftOutput c') = out (iftOutput c) @ concat (map iftEnc (iftFrames v t (nextSequence c) contents))"
    "nextSequence c' = nextSequence c + of_nat (length contents)" "iftInput c' = iftInput c" by auto
qed

section \<open>EAP\<close>

lemma parse_buildPulseEAP:
  assumes "buildPulseEAP code i t sub content = Inr bs" "code \<noteq> pulseEAPSuccess" "code \<noteq> pulseEAPFailure"
  shows "parsePulseEAP bs = Inr \<lparr>eapCode = code, eapIdentifier = i,
    typeValue = (if t = pulseEAPTypeExpanded then pulseEAPExpandedJuniper else ucast t),
    subtype = (if t = pulseEAPTypeExpanded then sub else 0), eapPayload = content\<rparr>"
proof (cases "t = pulseEAPTypeExpanded")
  case True
  let ?n = "12 + length content"
  have n: "?n \<le> 65535" and bs: "bs = [code, i] @ put_u16 (u16_of ?n) @ put_u32 pulseEAPExpandedJuniper @ put_u32 sub @ content"
    using assms(1) True by (auto simp: buildPulseEAP_def Let_def split: if_split_asm)
  have u: "unat (u16_of ?n) = ?n" using n by (intro unat_u16_of) simp
  have "subslice bs 2 4 = put_u16 (u16_of ?n)" "subslice bs 4 8 = put_u32 pulseEAPExpandedJuniper"
    "subslice bs 8 12 = put_u32 sub" "drop 12 bs = content" "length bs = ?n" "bs ! 0 = code" "bs ! 1 = i"
    by (simp_all add: bs subslice_def)
  moreover have "bs ! 4 = pulseEAPTypeExpanded"
    by (simp add: bs nth_append put_u32_def) (code_simp)
  ultimately show ?thesis using assms(2,3) True u by (simp add: parsePulseEAP_def Let_def)
next
  case False
  let ?n = "5 + length content"
  have n: "?n \<le> 65535" and bs: "bs = [code, i] @ put_u16 (u16_of ?n) @ [t] @ content"
    using assms(1) False by (auto simp: buildPulseEAP_def Let_def split: if_split_asm)
  have u: "unat (u16_of ?n) = ?n" using n by (intro unat_u16_of) simp
  have "subslice bs 2 4 = put_u16 (u16_of ?n)" "drop 5 bs = content" "length bs = ?n" "bs ! 0 = code" "bs ! 1 = i" "bs ! 4 = t"
    by (simp_all add: bs subslice_def nth_append)
  then show ?thesis using assms(2,3) False u by (simp add: parsePulseEAP_def Let_def)
qed

lemma parse_authentication:
  assumes "buildPulseEAP pulseEAPRequest i t sub content = Inr bs"
  shows "parsePulseAuthenticationEAP \<lparr>vendor = pulseVendorTCG, frameType = pulseIFTClientAuthChallenge, frameSequence = n,
      framePayload = buildPulseAuthenticationPayload bs\<rparr> =
    Inr \<lparr>eapCode = pulseEAPRequest, eapIdentifier = i,
      typeValue = (if t = pulseEAPTypeExpanded then pulseEAPExpandedJuniper else ucast t),
      subtype = (if t = pulseEAPTypeExpanded then sub else 0), eapPayload = content\<rparr>"
proof -
  have "pulseVendorTCG AND 0x00ffffff = pulseVendorTCG" by (simp add: pulseVendorTCG_def)
  moreover have "pulseEAPRequest \<noteq> pulseEAPSuccess" "pulseEAPRequest \<noteq> pulseEAPFailure"
    by (simp_all add: pulseEAPRequest_def pulseEAPSuccess_def pulseEAPFailure_def)
  ultimately show ?thesis
    using parse_buildPulseEAP [OF assms] by (simp add: parsePulseAuthenticationEAP_def buildPulseAuthenticationPayload_def)
qed

section \<open>Attribute-value pairs\<close>

text \<open>One pair off the front: what the loop of \<open>parsePulseAVPs\<close> does.\<close>

definition takeAVP :: "bytes \<Rightarrow> (pulseAVP \<times> bytes) result" where
  "takeAVP content =
     (if length content < 8 then Inl (New ''AVP stream ended inside a header'')
      else
        let flags = content ! 4;
            attributeLength = unat (get_u32 (subslice content 4 8) AND 0x00ffffff);
            headerLength = (if flags AND pulseAVPFlagVendor \<noteq> 0 then 12 else 8)
        in if attributeLength < headerLength \<or> attributeLength > length content
           then Inl (New ''invalid Pulse AVP length'')
           else if aligned attributeLength > length content then Inl (New ''AVP padding exceeds its packet'')
           else Inr (\<lparr>avpCode = get_u32 (take 4 content),
                  avpVendor = (if headerLength = 12 then get_u32 (subslice content 8 12) else 0),
                  avpFlags = flags, avpData = subslice content headerLength attributeLength\<rparr>,
                  drop (aligned attributeLength) content))"

lemma parsePulseAVPs_take:
  "parsePulseAVPs [] = Inr []"
  "content \<noteq> [] \<Longrightarrow> parsePulseAVPs content =
     (case takeAVP content of Inl e \<Rightarrow> Inl e | Inr (a, rest) \<Rightarrow> map_sum id ((#) a) (parsePulseAVPs rest))"
  by (simp_all add: parsePulseAVPs.simps [of content] parsePulseAVPs.simps [of "[]"] takeAVP_def Let_def)

definition mkAVP :: "u32 \<times> u32 \<times> bytes \<Rightarrow> pulseAVP" where
  "mkAVP = (\<lambda>(code, v, content). \<lparr>avpCode = code, avpVendor = v,
     avpFlags = (if v \<noteq> 0 then pulseAVPFlagMandatory OR pulseAVPFlagVendor else pulseAVPFlagMandatory), avpData = content\<rparr>)"

definition avp_fits :: "u32 \<times> u32 \<times> bytes \<Rightarrow> bool" where
  "avp_fits = (\<lambda>(code, v, content). (if v \<noteq> 0 then 12 else 8) + length content \<le> 0x00ffffff)"

lemma aligned_ge: "n \<le> aligned n"
  by (simp add: aligned_def)

lemma avp_length_word:
  fixes flags :: byte
  assumes "n \<le> 0x00ffffff"
  shows "unat ((push_bit 24 (ucast flags) OR u32_of n) AND 0x00ffffff) = n"
    "put_u32 (push_bit 24 (ucast flags) OR u32_of n) ! 0 = flags"
proof -
  have m: "(0x00ffffff :: u32) = mask 24" by (simp add: mask_eq_decr_exp)
  have t: "take_bit 24 (u32_of n) = u32_of n"
    using assms by (simp add: take_bit_word_eq_self unat_u32_of word_le_nat_alt take_bit_of_nat take_bit_nat_eq_self)
  have "(push_bit 24 (ucast flags) OR u32_of n) AND mask 24 = take_bit 24 (u32_of n)"
    by (rule bit_word_eqI) (auto simp: bit_simps)
  then show "unat ((push_bit 24 (ucast flags) OR u32_of n) AND 0x00ffffff) = n"
    using assms unfolding m t by (simp add: unat_u32_of)
  have z: "\<not> bit n k" if "24 \<le> k" for k
  proof -
    have "n < 2 ^ 24" using assms by simp
    also have "(2 :: nat) ^ 24 \<le> 2 ^ k" using that by (intro power_increasing) auto
    finally show ?thesis by (simp add: bit_iff_odd)
  qed
  show "put_u32 (push_bit 24 (ucast flags) OR u32_of n) ! 0 = flags"
    by (rule bit_word_eqI) (auto simp: put_u32_def bit_simps z)
qed

lemma vendor_flag: "(pulseAVPFlagMandatory OR pulseAVPFlagVendor) AND pulseAVPFlagVendor \<noteq> 0"
  "pulseAVPFlagMandatory AND pulseAVPFlagVendor = 0" "pulseAVPFlagVendor \<noteq> 0"
  by (simp_all add: pulseAVPFlagMandatory_def pulseAVPFlagVendor_def)

lemma takeAVP_append:
  assumes "avp_fits (code, v, content)"
  shows "takeAVP (avpBytes code v content @ rest) = Inr (mkAVP (code, v, content), rest)"
proof -
  define hl :: nat where "hl = (if v \<noteq> 0 then 12 else 8)"
  define flags where "flags = (if v \<noteq> 0 then pulseAVPFlagMandatory OR pulseAVPFlagVendor else pulseAVPFlagMandatory)"
  define n where "n = hl + length content"
  define lw where "lw = put_u32 (push_bit 24 (ucast flags) OR u32_of n)"
  define g where "g = avpBytes code v content @ rest"
  have n: "n \<le> 0x00ffffff" using assms by (simp add: avp_fits_def n_def hl_def)
  have g: "g = put_u32 code @ lw @ (if v \<noteq> 0 then put_u32 v else []) @ content @ replicate (aligned n - n) 0 @ rest"
    by (simp add: g_def avpBytes_def Let_def lw_def n_def flags_def hl_def)
  have lw: "length lw = 4" by (simp add: lw_def)
  note a = avp_length_word [OF n, of flags]
  have "g ! 4 = flags" using a(2) by (simp add: g nth_append lw lw_def)
  moreover have "get_u32 (subslice g 4 8) = push_bit 24 (ucast flags) OR u32_of n" by (simp add: g subslice_def lw_def)
  moreover have len: "length g = aligned n + length rest" using aligned_ge [of n] by (simp add: g lw n_def hl_def)
  moreover have "subslice g hl n = content" "drop (aligned n) g = rest" "v \<noteq> 0 \<Longrightarrow> subslice g 8 12 = put_u32 v"
    "get_u32 (take 4 g) = code"
    using aligned_ge [of n] by (auto simp: g subslice_def lw n_def hl_def)
  moreover have "(if flags AND pulseAVPFlagVendor \<noteq> 0 then 12 else 8) = hl" by (simp add: flags_def hl_def vendor_flag)
  moreover have "8 \<le> n" "hl \<le> n" by (simp_all add: n_def hl_def)
  ultimately have "takeAVP g = Inr (\<lparr>avpCode = code, avpVendor = (if hl = 12 then v else 0), avpFlags = flags, avpData = content\<rparr>, rest)"
    using a(1) aligned_ge [of n] unfolding takeAVP_def Let_def by (simp add: hl_def pulseAVPFlagVendor_def split: if_split_asm)
  then show ?thesis by (simp add: g_def mkAVP_def flags_def hl_def split: if_split_asm)
qed

interpretation pulse_avp: record_format avp_fits "\<lambda>(code, v, content). avpBytes code v content"
  "\<lambda>bs. map_sum id (apfst (\<lambda>a. (avpCode a, avpVendor a, avpData a))) (takeAVP bs)"
  by unfold_locales (auto simp: takeAVP_append mkAVP_def split: prod.splits)

lemma avpBytes_nonempty: "avpBytes code v content \<noteq> []"
  by (simp add: avpBytes_def Let_def put_u32_def)

lemma parsePulseAVPs_encoded:
  "list_all avp_fits as \<Longrightarrow> parsePulseAVPs (concat (map (\<lambda>(code, v, content). avpBytes code v content) as)) = Inr (map mkAVP as)"
proof (induction as)
  case Nil
  show ?case by (simp add: parsePulseAVPs_take)
next
  case (Cons a as)
  obtain code v content where a: "a = (code, v, content)" by (cases a) auto
  show ?case
    using Cons takeAVP_append [of code v content] avpBytes_nonempty [of code v content]
    by (simp add: a parsePulseAVPs_take(2))
qed

text \<open>Appending pairs until one is too large.\<close>

fun appendPulseAVPs :: "bytes \<Rightarrow> (u32 \<times> u32 \<times> bytes) list \<Rightarrow> bytes result" where
  "appendPulseAVPs destination [] = Inr destination"
| "appendPulseAVPs destination ((code, v, content) # as) =
     (case appendPulseAVP destination code v content of Inl e \<Rightarrow> Inl e | Inr d \<Rightarrow> appendPulseAVPs d as)"

lemma appendPulseAVPs_bytes:
  "appendPulseAVPs d as = Inr bs \<Longrightarrow>
     bs = d @ concat (map (\<lambda>(code, v, content). avpBytes code v content) as) \<and> list_all avp_fits as"
  by (induction d as rule: appendPulseAVPs.induct)
    (auto simp: appendPulseAVP_def avp_fits_def not_less split: if_split_asm)

section \<open>Properties\<close>

text \<open>Payloads written over any connection that keeps the contract of a writer are read back on the other side as
  frames with the same vendor, type and content and consecutive sequence numbers, whatever follows them, when no
  frame exceeds the reader's limit.\<close>

theorem pulse_frames_roundtrip:
  assumes "honest_writer w out" "writeFrames w c v t contents = (c', Inr ())" "out (iftOutput c) = []"
    "list_all (\<lambda>x. 16 + int (length x) \<le> limit) contents" "limit < 4294967296"
  shows "pulse_ift.dec_many limit (length contents) (out (iftOutput c') @ rest) = Inr (iftFrames v t (nextSequence c) contents, rest) \<and>
    map framePayload (iftFrames v t (nextSequence c) contents) = contents \<and>
    nextSequence c' = nextSequence c + of_nat (length contents)"
proof -
  have f: "list_all (ift_fits limit) (iftFrames v t n contents) \<and> length (iftFrames v t n contents) = length contents \<and>
      map framePayload (iftFrames v t n contents) = contents" for n
    using assms(4,5) by (induction contents arbitrary: n) (auto simp: ift_fits_def)
  have "pulse_ift.dec_many limit (length (iftFrames v t (nextSequence c) contents))
      (concat (map iftEnc (iftFrames v t (nextSequence c) contents)) @ rest) = Inr (iftFrames v t (nextSequence c) contents, rest)"
    using f by (intro pulse_ift.dec_many_enc) auto
  then show ?thesis using f writeFrames_out [OF assms(1,2)] assms(3) by simp
qed

theorem pulse_frames_roundtrip_witness:
  "let c = \<lparr>iftInput = \<lparr>stream = [], final = ioEOF\<rparr>, iftOutput = [], nextSequence = 7\<rparr>;
       (c', r) = writeFrames collect c pulseVendorTCG pulseIFTClientAuthResponse [[1, 2], []]
   in r = Inr () \<and> nextSequence c' = 9 \<and> pulse_ift.dec_many 100 2 (iftOutput c' @ [5]) =
        Inr ([\<lparr>vendor = pulseVendorTCG, frameType = pulseIFTClientAuthResponse, frameSequence = 7, framePayload = [1, 2]\<rparr>,
              \<lparr>vendor = pulseVendorTCG, frameType = pulseIFTClientAuthResponse, frameSequence = 8, framePayload = []\<rparr>], [5])"
proof -
  let ?c = "\<lparr>iftInput = \<lparr>stream = [], final = ioEOF\<rparr>, iftOutput = [] :: bytes, nextSequence = 7\<rparr>"
  obtain c' where w: "writeFrames collect ?c pulseVendorTCG pulseIFTClientAuthResponse [[1, 2], []] = (c', Inr ())"
    by (simp add: writeFrames_def writeFrameBuffers_def writeByteSequence_def collect_def pulseIFTHeaderSize_def Let_def iftBytes_def)
  show ?thesis
    using pulse_frames_roundtrip [OF collect_honest w, of 100 "[5]"] by (simp add: w numeral_2_eq_2 [symmetric] del: One_nat_def)
qed

text \<open>An EAP packet of any type but the two terminal codes parses back to its fields, and so does a request inside an
  IF-T authentication frame.\<close>

theorem pulse_eap_roundtrip:
  assumes "buildPulseEAP code i t sub content = Inr bs" "code \<noteq> pulseEAPSuccess" "code \<noteq> pulseEAPFailure"
  shows "parsePulseEAP bs = Inr \<lparr>eapCode = code, eapIdentifier = i,
    typeValue = (if t = pulseEAPTypeExpanded then pulseEAPExpandedJuniper else ucast t),
    subtype = (if t = pulseEAPTypeExpanded then sub else 0), eapPayload = content\<rparr> \<and>
    (code = pulseEAPRequest \<longrightarrow>
      parsePulseAuthenticationEAP \<lparr>vendor = pulseVendorTCG, frameType = pulseIFTClientAuthChallenge, frameSequence = n,
        framePayload = buildPulseAuthenticationPayload bs\<rparr> = parsePulseEAP bs)"
  using parse_buildPulseEAP [OF assms] parse_authentication [of i t sub content bs n] assms(1) by auto

theorem pulse_eap_roundtrip_witness:
  "parsePulseEAP [1, 9, 0, 7, 0x15, 5, 6] =
     Inr \<lparr>eapCode = 1, eapIdentifier = 9, typeValue = 0x15, subtype = 0, eapPayload = [5, 6]\<rparr>"
proof -
  have "buildPulseEAP 1 9 pulseEAPTypeTTLS 0 [5, 6] = Inr [1, 9, 0, 7, 0x15, 5, 6]"
    by (simp add: buildPulseEAP_def pulseEAPTypeTTLS_def pulseEAPTypeExpanded_def put_u16_def)
  from pulse_eap_roundtrip [OF this] show ?thesis
    by (simp add: pulseEAPSuccess_def pulseEAPFailure_def pulseEAPTypeTTLS_def pulseEAPTypeExpanded_def)
qed

text \<open>Attribute-value pairs appended one after the other, with and without a vendor and with their padding, parse back
  to their codes, vendors, flags and data.\<close>

theorem pulse_avp_roundtrip:
  assumes "appendPulseAVPs [] as = Inr bs"
  shows "parsePulseAVPs bs = Inr (map mkAVP as)"
  using appendPulseAVPs_bytes [OF assms] parsePulseAVPs_encoded by simp

theorem pulse_avp_roundtrip_witness:
  "parsePulseAVPs [0, 0, 0, 79, 0x40, 0, 0, 10, 1, 2, 0, 0, 0, 0, 0, 5, 0xc0, 0, 0, 13, 0, 0, 0x05, 0x83, 9, 0, 0, 0] =
     Inr [\<lparr>avpCode = 79, avpVendor = 0, avpFlags = 0x40, avpData = [1, 2]\<rparr>,
          \<lparr>avpCode = 5, avpVendor = 0x583, avpFlags = 0xc0, avpData = [9]\<rparr>]"
proof -
  have "avpBytes 79 0 [1, 2] @ avpBytes 5 0x583 [9] =
    [0, 0, 0, 79, 0x40, 0, 0, 10, 1, 2, 0, 0, 0, 0, 0, 5, 0xc0, 0, 0, 13, 0, 0, 0x05, 0x83, 9, 0, 0, 0]" by code_simp
  then have "appendPulseAVPs [] [(79, 0, [1, 2]), (5, 0x583, [9])] =
    Inr [0, 0, 0, 79, 0x40, 0, 0, 10, 1, 2, 0, 0, 0, 0, 0, 5, 0xc0, 0, 0, 13, 0, 0, 0x05, 0x83, 9, 0, 0, 0]"
    by (simp add: appendPulseAVP_def)
  from pulse_avp_roundtrip [OF this] have "parsePulseAVPs [0, 0, 0, 79, 0x40, 0, 0, 10, 1, 2, 0, 0, 0, 0, 0, 5, 0xc0, 0, 0, 13, 0, 0, 0x05, 0x83, 9, 0, 0, 0]
      = Inr (map mkAVP [(79, 0, [1, 2]), (5, 0x583, [9])])" .
  moreover have "mkAVP (79, 0, [1, 2]) = \<lparr>avpCode = 79, avpVendor = 0, avpFlags = 0x40, avpData = [1, 2]\<rparr>"
    "mkAVP (5, 0x583, [9]) = \<lparr>avpCode = 5, avpVendor = 0x583, avpFlags = 0xc0, avpData = [9]\<rparr>"
    by (simp_all add: mkAVP_def pulseAVPFlagMandatory_def pulseAVPFlagVendor_def)
  ultimately show ?thesis by simp
qed

end
