(* ===== verification/Pulse_Ttls.thy ===== *)
theory Pulse_Ttls
  imports Pulse_Ift
begin

text \<open>
  The EAP-TTLS tunnel of Pulse (\<^verbatim>\<open>pulse_ttls.go\<close>): a connection that carries a byte stream in
  fragments, each acknowledged by the other side, and the inner EAP messages.
\<close>

section \<open>Definitions\<close>

definition pulseTTLSMaximumFragment :: nat where "pulseTTLSMaximumFragment = 8192"
definition pulseTTLSFlagLength :: byte where "pulseTTLSFlagLength = 0x80"
definition pulseTTLSFlagMore :: byte where "pulseTTLSFlagMore = 0x40"
definition pulseTTLSFlagStart :: byte where "pulseTTLSFlagStart = 0x20"

record 'w pulseTTLSConn =
  outer :: "'w pulseIFTConnection"
  ttlsIdentifier :: byte
  sendBuffer :: bytes
  receiveBuffer :: bytes
  messageLeft :: u32
  ttlsClosed :: bool

subsection \<open>Writing a fragment\<close>

text \<open>The payload of the EAP packet.\<close>

definition ttlsPayload :: "byte \<Rightarrow> bytes \<Rightarrow> u32 \<Rightarrow> bytes" where
  "ttlsPayload flags fragment totalLength =
     flags # (if flags AND pulseTTLSFlagLength \<noteq> 0 then put_u32 totalLength else []) @ fragment"

definition writeTTLSFrame ::
  "'w writer \<Rightarrow> 'w pulseTTLSConn \<Rightarrow> byte \<Rightarrow> bytes \<Rightarrow> u32 \<Rightarrow> 'w pulseTTLSConn \<times> unit result" where
  "writeTTLSFrame w c flags fragment totalLength =
     (case buildPulseEAP pulseEAPResponse (ttlsIdentifier c) pulseEAPTypeTTLS 0 (ttlsPayload flags fragment totalLength) of
        Inl err \<Rightarrow> (c, Inl err)
      | Inr packet \<Rightarrow>
          (case writeFrame w (outer c) pulseVendorTCG pulseIFTClientAuthResponse (buildPulseAuthenticationPayload packet) of
             (o', r) \<Rightarrow> (c\<lparr>outer := o'\<rparr>, r)))"

subsection \<open>Receiving a fragment\<close>

text \<open>
  The checks on the flags and lengths of a fragment: what it adds to the receive buffer and how much
  of the message is left after it. \<open>left\<close> is what was left before.
\<close>

definition acceptFragment :: "u32 \<Rightarrow> byte \<Rightarrow> bytes \<Rightarrow> (bytes \<times> u32) result" where
  "acceptFragment left flags fragment =
     (if left > 0 then
        if flags AND pulseTTLSFlagLength \<noteq> 0
        then Inl (New ''continued Pulse EAP-TTLS fragment repeated the length flag'')
        else if length fragment = 0 \<or> u32_of (length fragment) > left
        then Inl (New ''invalid continued Pulse EAP-TTLS fragment length'')
        else if flags AND pulseTTLSFlagMore \<noteq> 0 \<and> u32_of (length fragment) \<ge> left
        then Inl (New ''non-final Pulse EAP-TTLS fragment consumed the complete message'')
        else if flags AND pulseTTLSFlagMore = 0 \<and> u32_of (length fragment) \<noteq> left
        then Inl (New ''final Pulse EAP-TTLS fragment length mismatch'')
        else Inr (fragment, left - u32_of (length fragment))
      else if flags AND pulseTTLSFlagMore \<noteq> 0 then
        if flags AND pulseTTLSFlagLength = 0 \<or> length fragment < 5
        then Inl (New ''initial fragmented Pulse EAP-TTLS packet omitted its total length'')
        else
          let totalLength = get_u32 (take 4 fragment); fragment = drop 4 fragment in
          if totalLength > u32_of pulseConfigurationFrameLimit \<or> totalLength \<le> u32_of (length fragment) \<or> length fragment = 0
          then Inl (New ''invalid Pulse EAP-TTLS fragmented message length'')
          else Inr (fragment, totalLength - u32_of (length fragment))
      else if flags AND pulseTTLSFlagLength \<noteq> 0 then
        if length fragment < 4 then Inl (New ''EAP-TTLS length flag omitted its value'')
        else
          let totalLength = get_u32 (take 4 fragment); fragment = drop 4 fragment in
          if totalLength > u32_of pulseConfigurationFrameLimit \<or> totalLength \<noteq> u32_of (length fragment) \<or> length fragment = 0
          then Inl (New ''EAP-TTLS unfragmented message length mismatch'')
          else Inr (fragment, left)
      else if length fragment = 0 then Inl (New ''empty Pulse EAP-TTLS data packet'')
      else Inr (fragment, left))"

definition receiveNextFragment :: "'w writer \<Rightarrow> 'w pulseTTLSConn \<Rightarrow> 'w pulseTTLSConn \<times> unit result" where
  "receiveNextFragment w c =
     (case (if messageLeft c > 0 then writeTTLSFrame w c 0 [] 0 else (c, Inr ())) of
        (c1, Inl err) \<Rightarrow> (c1, Inl (Cause err ''acknowledge Pulse EAP-TTLS fragment''))
      | (c1, Inr _) \<Rightarrow>
          (case readFrame (outer c1) (int pulseAuthenticationFrameLimit) of
             (o', Inl err) \<Rightarrow> (c1\<lparr>outer := o'\<rparr>, Inl err)
           | (o', Inr frame) \<Rightarrow>
               let c2 = c1\<lparr>outer := o'\<rparr> in
               (case parsePulseAuthenticationEAP frame of
                  Inl err \<Rightarrow> (c2, Inl (Cause err ''parse Pulse EAP-TTLS fragment''))
                | Inr packet \<Rightarrow>
                    if typeValue packet \<noteq> ucast pulseEAPTypeTTLS \<or> length (eapPayload packet) < 1
                    then (c2, Inl (New ''unexpected Pulse EAP-TTLS packet''))
                    else
                      let c3 = c2\<lparr>ttlsIdentifier := eapIdentifier packet\<rparr>;
                          flags = hd (eapPayload packet)
                      in if flags AND 0x3f \<noteq> 0 then (c3, Inl (New ''unsupported Pulse EAP-TTLS flags''))
                         else case acceptFragment (messageLeft c3) flags (tl (eapPayload packet)) of
                           Inl err \<Rightarrow> (c3, Inl err)
                         | Inr (fragment, left) \<Rightarrow>
                             (c3\<lparr>messageLeft := left, receiveBuffer := fragment\<rparr>, Inr ()))))"

subsection \<open>Flushing\<close>

text \<open>Waiting for the acknowledgement of a fragment.\<close>

definition readAcknowledgement :: "'w pulseTTLSConn \<Rightarrow> 'w pulseTTLSConn \<times> unit result" where
  "readAcknowledgement c =
     (case readFrame (outer c) (int pulseAuthenticationFrameLimit) of
        (o', Inl err) \<Rightarrow> (c\<lparr>outer := o'\<rparr>, Inl (Cause err ''read Pulse EAP-TTLS fragment acknowledgement''))
      | (o', Inr frame) \<Rightarrow>
          let c1 = c\<lparr>outer := o'\<rparr> in
          (case parsePulseAuthenticationEAP frame of
             Inl err \<Rightarrow> (c1, Inl (Cause err ''parse Pulse EAP-TTLS fragment acknowledgement''))
           | Inr packet \<Rightarrow>
               if typeValue packet \<noteq> ucast pulseEAPTypeTTLS \<or> length (eapPayload packet) \<noteq> 1 \<or> hd (eapPayload packet) \<noteq> 0
               then (c1, Inl (New ''invalid Pulse EAP-TTLS fragment acknowledgement''))
               else (c1\<lparr>ttlsIdentifier := eapIdentifier packet\<rparr>, Inr ())))"

text \<open>The loop over the fragments; \<open>first\<close> is \<open>firstFragment\<close> and \<open>whole\<close> the length of everything.\<close>

function flushLoop ::
  "'w writer \<Rightarrow> 'w pulseTTLSConn \<Rightarrow> bool \<Rightarrow> nat \<Rightarrow> bytes \<Rightarrow> 'w pulseTTLSConn \<times> unit result" where
  "flushLoop w c first whole content =
     (if length content > pulseTTLSMaximumFragment then
        (case writeTTLSFrame w c (if first then pulseTTLSFlagMore OR pulseTTLSFlagLength else pulseTTLSFlagMore)
                (take pulseTTLSMaximumFragment content) (if first then u32_of whole else 0) of
           (c1, Inl err) \<Rightarrow> (c1, Inl err)
         | (c1, Inr _) \<Rightarrow>
             (case readAcknowledgement c1 of
                (c2, Inl err) \<Rightarrow> (c2, Inl err)
              | (c2, Inr _) \<Rightarrow> flushLoop w c2 False whole (drop pulseTTLSMaximumFragment content)))
      else writeTTLSFrame w c 0 content 0)"
  by pat_completeness auto
termination
  by (relation "measure (\<lambda>(w, c, first, whole, content). length content)")
    (auto simp: pulseTTLSMaximumFragment_def)

declare flushLoop.simps [simp del]

definition flushPending :: "'w writer \<Rightarrow> 'w pulseTTLSConn \<Rightarrow> 'w pulseTTLSConn \<times> unit result" where
  "flushPending w c =
     (if length (sendBuffer c) = 0 then (c, Inr ())
      else flushLoop w (c\<lparr>sendBuffer := []\<rparr>) True (length (sendBuffer c)) (sendBuffer c))"

definition flush :: "'w writer \<Rightarrow> 'w pulseTTLSConn \<Rightarrow> 'w pulseTTLSConn \<times> unit result" where
  "flush w c =
     (if ttlsClosed c then (c, Inl (Sentinel ErrClientClosed))
      else if length (receiveBuffer c) > 0 \<or> messageLeft c > 0
      then (c, Inl (New ''cannot flush Pulse EAP-TTLS output with pending input''))
      else flushPending w c)"

subsection \<open>The connection's methods\<close>

text \<open>\<open>Read\<close> into a destination of size \<open>n\<close>: what was copied.\<close>

definition readTTLS :: "'w writer \<Rightarrow> 'w pulseTTLSConn \<Rightarrow> nat \<Rightarrow> 'w pulseTTLSConn \<times> bytes result" where
  "readTTLS w c n =
     (if n = 0 then (c, Inr [])
      else if ttlsClosed c then (c, Inl (Sentinel ErrClientClosed))
      else
        let (c1, r) =
          (if length (receiveBuffer c) = 0 then
             (case (if messageLeft c = 0 then flushPending w c else (c, Inr ())) of
                (c1, Inl err) \<Rightarrow> (c1, Inl err)
              | (c1, Inr _) \<Rightarrow> receiveNextFragment w c1)
           else (c, Inr ()))
        in case r of
             Inl err \<Rightarrow> (c1, Inl err)
           | Inr _ \<Rightarrow> (c1\<lparr>receiveBuffer := drop n (receiveBuffer c1)\<rparr>, Inr (take n (receiveBuffer c1))))"

definition writeTTLS :: "'w pulseTTLSConn \<Rightarrow> bytes \<Rightarrow> 'w pulseTTLSConn \<times> nat result" where
  "writeTTLS c content =
     (if length content = 0 then (c, Inr 0)
      else if ttlsClosed c then (c, Inl (Sentinel ErrClientClosed))
      else if int (length (sendBuffer c)) > int pulseConfigurationFrameLimit - int (length content)
      then (c, Inl (New ''EAP-TTLS pending output exceeds 1048576 bytes''))
      else (c\<lparr>sendBuffer := sendBuffer c @ content\<rparr>, Inr (length content)))"

definition closeTTLS :: "'w pulseTTLSConn \<Rightarrow> 'w pulseTTLSConn" where
  "closeTTLS c = c\<lparr>ttlsClosed := True, sendBuffer := [], receiveBuffer := [], messageLeft := 0\<rparr>"

subsection \<open>Inner EAP messages\<close>

definition writePulseInnerEAP :: "'w writer \<Rightarrow> 'w \<Rightarrow> bytes \<Rightarrow> 'w \<times> unit result" where
  "writePulseInnerEAP w s packet =
     (let attributeLength = 8 + length packet in
      if attributeLength > 0x00ffffff then (s, Inl (New ''inner EAP-Message AVP is too large''))
      else writePulseBytes w s
             (put_u32 pulseAVPEAPMessage @
              put_u32 (push_bit 24 (ucast pulseAVPFlagMandatory) OR u32_of attributeLength) @ packet))"

definition readPulseInnerEAP :: "reader \<Rightarrow> pulseEAPPacket result \<times> reader" where
  "readPulseInnerEAP r =
     (case readFull r 8 of
        (Inl err, r1) \<Rightarrow> (Inl (Cause err ''read Pulse inner EAP-Message AVP header''), r1)
      | (Inr header, r1) \<Rightarrow>
          if get_u32 (take 4 header) \<noteq> pulseAVPEAPMessage \<or> header ! 4 AND pulseAVPFlagVendor \<noteq> 0
          then (Inl (New ''unexpected Pulse inner EAP-TTLS AVP''), r1)
          else
            let attributeLength = unat (get_u32 (subslice header 4 8) AND 0x00ffffff) in
            if attributeLength < 8 \<or> attributeLength > pulseAuthenticationFrameLimit
            then (Inl (New ''invalid Pulse inner EAP-Message AVP length''), r1)
            else case readFull r1 (attributeLength - 8) of
              (Inl err, r2) \<Rightarrow> (Inl (Cause err ''read Pulse inner EAP-Message AVP''), r2)
            | (Inr content, r2) \<Rightarrow>
                (case parsePulseEAP content of
                   Inl err \<Rightarrow> (Inl (Cause err ''parse Pulse inner EAP packet''), r2)
                 | Inr packet \<Rightarrow>
                     if eapCode packet \<noteq> pulseEAPRequest \<or> typeValue packet \<noteq> pulseEAPExpandedJuniper \<or> subtype packet \<noteq> 1
                     then (Inl (New ''unexpected Pulse inner EAP packet type''), r2)
                     else (Inr packet, r2)))"

section \<open>Fragments\<close>

text \<open>The flags and the rest of the payload of the fragments that \<open>flushLoop\<close> sends for a message.\<close>

function fragments :: "bool \<Rightarrow> nat \<Rightarrow> bytes \<Rightarrow> (byte \<times> bytes) list" where
  "fragments first whole content =
     (if length content > pulseTTLSMaximumFragment then
        (if first then pulseTTLSFlagMore OR pulseTTLSFlagLength else pulseTTLSFlagMore,
         (if first then put_u32 (u32_of whole) else []) @ take pulseTTLSMaximumFragment content) #
        fragments False whole (drop pulseTTLSMaximumFragment content)
      else [(0, content)])"
  by pat_completeness auto
termination
  by (relation "measure (\<lambda>(first, whole, content). length content)") (auto simp: pulseTTLSMaximumFragment_def)

declare fragments.simps [simp del]

text \<open>Reassembling fragments with the checks of \<open>receiveNextFragment\<close>.\<close>

fun reassemble :: "u32 \<Rightarrow> (byte \<times> bytes) list \<Rightarrow> (bytes \<times> u32) result" where
  "reassemble left [] = Inr ([], left)"
| "reassemble left ((flags, body) # fs) =
     (case acceptFragment left flags body of
        Inl e \<Rightarrow> Inl e
      | Inr (fragment, left') \<Rightarrow> map_sum id (apfst ((@) fragment)) (reassemble left' fs))"

lemma ttls_flags [simp]:
  "pulseTTLSFlagMore \<noteq> 0" "pulseTTLSFlagLength \<noteq> 0"
  "pulseTTLSFlagMore AND pulseTTLSFlagLength = 0" "pulseTTLSFlagMore AND pulseTTLSFlagMore \<noteq> 0"
  "(pulseTTLSFlagMore OR pulseTTLSFlagLength) AND pulseTTLSFlagLength \<noteq> 0"
  "(pulseTTLSFlagMore OR pulseTTLSFlagLength) AND pulseTTLSFlagMore \<noteq> 0"
  "pulseTTLSFlagMore AND 0x3f = 0" "(pulseTTLSFlagMore OR pulseTTLSFlagLength) AND 0x3f = 0"
  by (simp_all add: pulseTTLSFlagMore_def pulseTTLSFlagLength_def)

lemma fragment_lengths:
  assumes "pulseTTLSMaximumFragment < length content" "length content \<le> pulseConfigurationFrameLimit"
    "x = take pulseTTLSMaximumFragment content"
  shows "length x = 8192" "x \<noteq> []" "u32_of (length content) > 0" "\<not> u32_of (length x) \<ge> u32_of (length content)"
    "\<not> u32_of (length content) > u32_of pulseConfigurationFrameLimit"
    "u32_of (length content) - u32_of (length x) = u32_of (length content - pulseTTLSMaximumFragment)"
proof -
  have l: "length content < 4294967296" "8192 < length content"
    using assms(1,2) by (simp_all add: pulseConfigurationFrameLimit_def pulseTTLSMaximumFragment_def)
  have u: "unat (u32_of (length content)) = length content" using l by (intro unat_u32_of)
  show x: "length x = 8192" using l(2) by (simp add: assms(3) pulseTTLSMaximumFragment_def)
  then show "x \<noteq> []" by auto
  show "u32_of (length content) > 0" using u l by (cases "content = []") (simp_all add: word_less_nat_alt)
  show "\<not> u32_of (length x) \<ge> u32_of (length content)" unfolding x using u l by (simp add: word_le_nat_alt)
  show "\<not> u32_of (length content) > u32_of pulseConfigurationFrameLimit"
    using u assms(2) by (simp add: word_less_nat_alt pulseConfigurationFrameLimit_def)
  show "u32_of (length content) - u32_of (length x) = u32_of (length content - pulseTTLSMaximumFragment)"
    unfolding x using l by (simp add: pulseTTLSMaximumFragment_def of_nat_diff)
qed

lemma acceptFragment_first:
  assumes "pulseTTLSMaximumFragment < length content" "length content \<le> pulseConfigurationFrameLimit"
  shows "acceptFragment 0 (pulseTTLSFlagMore OR pulseTTLSFlagLength)
      (put_u32 (u32_of (length content)) @ take pulseTTLSMaximumFragment content) =
    Inr (take pulseTTLSMaximumFragment content, u32_of (length content - pulseTTLSMaximumFragment))"
proof -
  define x where "x = take pulseTTLSMaximumFragment content"
  note x = fragment_lengths [OF assms x_def]
  have "\<not> length (put_u32 (u32_of (length content)) @ x) < 5" using x(1) by simp
  then show ?thesis using x unfolding acceptFragment_def Let_def x_def [symmetric] by simp
qed

lemma acceptFragment_next:
  assumes "pulseTTLSMaximumFragment < length content" "length content \<le> pulseConfigurationFrameLimit"
  shows "acceptFragment (u32_of (length content)) pulseTTLSFlagMore (take pulseTTLSMaximumFragment content) =
    Inr (take pulseTTLSMaximumFragment content, u32_of (length content - pulseTTLSMaximumFragment))"
proof -
  define x where "x = take pulseTTLSMaximumFragment content"
  note x = fragment_lengths [OF assms x_def]
  then show ?thesis unfolding acceptFragment_def Let_def x_def [symmetric] by simp
qed

lemma acceptFragment_last:
  assumes "content \<noteq> []" "length content \<le> pulseConfigurationFrameLimit" "left = 0 \<or> left = u32_of (length content)"
  shows "acceptFragment left 0 content = Inr (content, 0)"
proof -
  have "unat (u32_of (length content)) = length content"
    using assms(2) by (intro unat_u32_of) (simp add: pulseConfigurationFrameLimit_def)
  then have "u32_of (length content) > 0" using assms(1) by (simp add: word_less_nat_alt)
  then show ?thesis using assms by (auto simp: acceptFragment_def)
qed

lemma reassemble_fragments:
  "content \<noteq> [] \<Longrightarrow> length content \<le> pulseConfigurationFrameLimit \<Longrightarrow> (first \<longrightarrow> left = 0 \<and> whole = length content) \<Longrightarrow>
     (\<not> first \<longrightarrow> left = u32_of (length content)) \<Longrightarrow> reassemble left (fragments first whole content) = Inr (content, 0)"
proof (induction first whole content arbitrary: left rule: fragments.induct)
  case (1 first whole content)
  show ?case
  proof (cases "length content > pulseTTLSMaximumFragment")
    case False
    then show ?thesis using acceptFragment_last [of content left] 1(2-5) by (cases first) (simp_all add: fragments.simps [of _ _ content])
  next
    case True
    let ?rest = "drop pulseTTLSMaximumFragment content"
    have r: "?rest \<noteq> []" "length ?rest \<le> pulseConfigurationFrameLimit" using True 1(3) by auto
    have IH: "reassemble (u32_of (length content - pulseTTLSMaximumFragment)) (fragments False whole ?rest) = Inr (?rest, 0)"
      using 1(1) [OF True r] by simp
    show ?thesis
      using True IH acceptFragment_first [OF True 1(3)] acceptFragment_next [OF True 1(3)] 1(4,5)
      by (cases first) (simp_all add: fragments.simps [of _ _ content])
  qed
qed

section \<open>Flushing\<close>

text \<open>The fragment inside an IF-T frame, as the other side parses it.\<close>

definition fragmentOf :: "pulseIFTFrame \<Rightarrow> (byte \<times> bytes) option" where
  "fragmentOf f =
     (if vendor f = pulseVendorTCG \<and> take 4 (framePayload f) = put_u32 pulseIFTAuthenticationJuniper then
        (case parsePulseEAP (drop 4 (framePayload f)) of
           Inl _ \<Rightarrow> None
         | Inr packet \<Rightarrow>
             if typeValue packet = ucast pulseEAPTypeTTLS \<and> eapPayload packet \<noteq> []
             then Some (hd (eapPayload packet), tl (eapPayload packet)) else None)
      else None)"

lemma ttls_type [simp]: "pulseEAPTypeTTLS \<noteq> pulseEAPTypeExpanded"
  by (simp add: pulseEAPTypeTTLS_def pulseEAPTypeExpanded_def)

lemma eap_codes [simp]:
  "pulseEAPRequest \<noteq> pulseEAPSuccess" "pulseEAPRequest \<noteq> pulseEAPFailure"
  "pulseEAPResponse \<noteq> pulseEAPSuccess" "pulseEAPResponse \<noteq> pulseEAPFailure"
  by (simp_all add: pulseEAPRequest_def pulseEAPResponse_def pulseEAPSuccess_def pulseEAPFailure_def)

lemma fragmentOf_built:
  assumes "buildPulseEAP code i pulseEAPTypeTTLS 0 (flags # body) = Inr packet" "code = pulseEAPRequest \<or> code = pulseEAPResponse"
  shows "fragmentOf \<lparr>vendor = pulseVendorTCG, frameType = t, frameSequence = n, framePayload = buildPulseAuthenticationPayload packet\<rparr> =
    Some (flags, body)"
  using parse_buildPulseEAP [OF assms(1)] assms(2) by (auto simp: fragmentOf_def buildPulseAuthenticationPayload_def)

lemma writeTTLSFrame_out:
  assumes "honest_writer w out" "writeTTLSFrame w c flags fragment whole = (c', Inr ())"
  shows "\<exists>f. out (iftOutput (outer c')) = out (iftOutput (outer c)) @ iftEnc f \<and>
     fragmentOf f = Some (flags, (if flags AND pulseTTLSFlagLength \<noteq> 0 then put_u32 whole else []) @ fragment)"
    "sendBuffer c' = sendBuffer c" "receiveBuffer c' = receiveBuffer c" "messageLeft c' = messageLeft c"
proof -
  obtain packet o' where b: "buildPulseEAP pulseEAPResponse (ttlsIdentifier c) pulseEAPTypeTTLS 0 (ttlsPayload flags fragment whole) = Inr packet"
    and w: "writeFrames w (outer c) pulseVendorTCG pulseIFTClientAuthResponse [buildPulseAuthenticationPayload packet] = (o', Inr ())"
    and c': "c' = c\<lparr>outer := o'\<rparr>"
    using assms(2) by (auto simp: writeTTLSFrame_def writeFrame_def split: sum.split_asm prod.split_asm)
  show "\<exists>f. out (iftOutput (outer c')) = out (iftOutput (outer c)) @ iftEnc f \<and>
     fragmentOf f = Some (flags, (if flags AND pulseTTLSFlagLength \<noteq> 0 then put_u32 whole else []) @ fragment)"
    using writeFrames_out(1) [OF assms(1) w] fragmentOf_built [OF b [unfolded ttlsPayload_def]] by (auto simp: c')
  show "sendBuffer c' = sendBuffer c" "receiveBuffer c' = receiveBuffer c" "messageLeft c' = messageLeft c" by (simp_all add: c')
qed

lemma readFrame_iftOutput: "readFrame o1 n = (o2, r) \<Longrightarrow> iftOutput o2 = iftOutput o1"
  by (auto simp: readFrame_def readFrameBuffer_def Let_def split: if_split_asm prod.split_asm sum.split_asm)

lemma readAcknowledgement_keeps:
  "readAcknowledgement c = (c', Inr ()) \<Longrightarrow> iftOutput (outer c') = iftOutput (outer c) \<and> sendBuffer c' = sendBuffer c"
  by (auto simp: readAcknowledgement_def Let_def dest: readFrame_iftOutput split: if_split_asm prod.split_asm sum.split_asm)

lemma flushLoop_out:
  "flushLoop w c first whole content = (c', Inr ()) \<Longrightarrow> honest_writer w out \<Longrightarrow>
    \<exists>frames. out (iftOutput (outer c')) = out (iftOutput (outer c)) @ concat (map iftEnc frames) \<and>
      map fragmentOf frames = map Some (fragments first whole content) \<and> sendBuffer c' = sendBuffer c"
proof (induction w c first whole content rule: flushLoop.induct)
  case (1 w c first whole content)
  show ?case
  proof (cases "length content > pulseTTLSMaximumFragment")
    case False
    then have w: "writeTTLSFrame w c 0 content 0 = (c', Inr ())" using 1(2) by (simp add: flushLoop.simps [of w])
    obtain f where f: "out (iftOutput (outer c')) = out (iftOutput (outer c)) @ iftEnc f" "fragmentOf f = Some (0, content)"
      using writeTTLSFrame_out(1) [OF 1(3) w] by auto
    show ?thesis
      using f False writeTTLSFrame_out(2) [OF 1(3) w] by (intro exI [of _ "[f]"]) (simp add: fragments.simps [of first])
  next
    case True
    let ?flags = "if first then pulseTTLSFlagMore OR pulseTTLSFlagLength else pulseTTLSFlagMore"
    obtain c1 c2 where w: "writeTTLSFrame w c ?flags (take pulseTTLSMaximumFragment content) (if first then u32_of whole else 0) = (c1, Inr ())"
      and a: "readAcknowledgement c1 = (c2, Inr ())" and rec: "flushLoop w c2 False whole (drop pulseTTLSMaximumFragment content) = (c', Inr ())"
      using 1(2) True unfolding flushLoop.simps [of w c first whole content] by (auto split: prod.split_asm sum.split_asm)
    obtain f where f: "out (iftOutput (outer c1)) = out (iftOutput (outer c)) @ iftEnc f"
      "fragmentOf f = Some (?flags, (if first then put_u32 (u32_of whole) else []) @ take pulseTTLSMaximumFragment content)"
      using writeTTLSFrame_out(1) [OF 1(3) w] by (cases first) auto
    obtain fs where fs: "out (iftOutput (outer c')) = out (iftOutput (outer c2)) @ concat (map iftEnc fs)"
      "map fragmentOf fs = map Some (fragments False whole (drop pulseTTLSMaximumFragment content))" "sendBuffer c' = sendBuffer c2"
      using 1(1) [OF True w [symmetric] refl a [symmetric] refl rec 1(3)] by blast
    show ?thesis
    proof (intro exI [of _ "f # fs"] conjI)
      show "out (iftOutput (outer c')) = out (iftOutput (outer c)) @ concat (map iftEnc (f # fs))"
        using fs(1) f(1) readAcknowledgement_keeps [OF a] by simp
      show "map fragmentOf (f # fs) = map Some (fragments first whole content)"
        using True f(2) fs(2) by (simp add: fragments.simps [of first])
      show "sendBuffer c' = sendBuffer c"
        using fs(3) readAcknowledgement_keeps [OF a] writeTTLSFrame_out(2) [OF 1(3) w] by simp
    qed
  qed
qed

section \<open>Receiving\<close>

text \<open>An IF-T frame of the other side that carries the fragment \<open>x\<close> in a request.\<close>

definition challenged :: "pulseIFTFrame \<Rightarrow> byte \<times> bytes \<Rightarrow> bool" where
  "challenged f x \<longleftrightarrow> ift_fits (int pulseAuthenticationFrameLimit) f \<and> fst x AND 0x3f = 0 \<and>
     (case parsePulseAuthenticationEAP f of Inl _ \<Rightarrow> False
      | Inr packet \<Rightarrow> typeValue packet = ucast pulseEAPTypeTTLS \<and> eapPayload packet = fst x # snd x)"

text \<open>
  What is still to be read: the receive buffer and what the fragments waiting in the connection
  reassemble to, before \<open>rest\<close>.
\<close>

definition incoming :: "'w pulseTTLSConn \<Rightarrow> bytes \<Rightarrow> bytes \<Rightarrow> bool" where
  "incoming c content rest \<longleftrightarrow> sendBuffer c = [] \<and> \<not> ttlsClosed c \<and>
     (\<exists>frames fragments later. stream (iftInput (outer c)) = concat (map iftEnc frames) @ rest \<and>
        list_all2 challenged frames fragments \<and> reassemble (messageLeft c) fragments = Inr (later, 0) \<and>
        content = receiveBuffer c @ later)"

text \<open>A connection that takes everything it is offered.\<close>

definition reliable_writer :: "'w writer \<Rightarrow> bool" where
  "reliable_writer w \<longleftrightarrow> (\<forall>s bs. snd (w s bs) = (int (length bs), None))"

lemma writeBuffers_reliable:
  "reliable_writer w \<Longrightarrow> \<exists>s'. writeBuffers w s cs k = (s', k + int (sum_list (map length cs)), None)"
proof (induction cs arbitrary: s k)
  case (Cons c cs)
  obtain s1 where "w s c = (s1, int (length c), None)"
    using Cons.prems by (metis reliable_writer_def prod.collapse)
  with Cons.IH [OF Cons.prems, of s1 "k + int (length c)"] show ?case by (auto simp: add.assoc)
qed simp

lemma writeFrame_reliable:
  assumes "reliable_writer w" "length content + 16 \<le> 4294967295"
  shows "\<exists>o'. writeFrame w c v t content = (o', Inr ()) \<and> iftInput o' = iftInput c"
proof -
  obtain s' where "writeByteSequence w (iftOutput c) [iftBytes v t (nextSequence c) content] = (s', Inr ())"
    using writeBuffers_reliable [OF assms(1), of "iftOutput c" "[iftBytes v t (nextSequence c) content]" 0]
    by (auto simp: writeByteSequence_def)
  then show ?thesis
    using assms(2) by (simp add: writeFrame_def writeFrames_def writeFrameBuffers_def pulseIFTHeaderSize_def)
qed

text \<open>The acknowledgement that asks for the next fragment.\<close>

lemma acknowledge_reliable:
  assumes "reliable_writer w"
  shows "\<exists>c'. writeTTLSFrame w c 0 [] 0 = (c', Inr ()) \<and> stream (iftInput (outer c')) = stream (iftInput (outer c)) \<and>
    sendBuffer c' = sendBuffer c \<and> messageLeft c' = messageLeft c \<and> ttlsClosed c' = ttlsClosed c"
proof -
  obtain packet where b: "buildPulseEAP pulseEAPResponse (ttlsIdentifier c) pulseEAPTypeTTLS 0 (ttlsPayload 0 [] 0) = Inr packet"
    "length packet = 6"
    by (simp add: buildPulseEAP_def Let_def ttlsPayload_def)
  then have "length (buildPulseAuthenticationPayload packet) + 16 \<le> 4294967295"
    by (simp add: buildPulseAuthenticationPayload_def)
  from writeFrame_reliable [OF assms this, of "outer c" pulseVendorTCG pulseIFTClientAuthResponse]
  show ?thesis by (auto simp: writeTTLSFrame_def b(1))
qed

lemma acceptFragment_nonempty: "acceptFragment left flags body = Inr (fragment, left') \<Longrightarrow> fragment \<noteq> []"
  by (auto simp: acceptFragment_def Let_def split: if_split_asm)

lemma receiveNextFragment_incoming:
  assumes "reliable_writer w" "incoming c content rest" "content \<noteq> []" "receiveBuffer c = []"
  shows "\<exists>c'. receiveNextFragment w c = (c', Inr ()) \<and> incoming c' content rest \<and> receiveBuffer c' \<noteq> []"
proof -
  obtain fs ps where st: "stream (iftInput (outer c)) = concat (map iftEnc fs) @ rest"
    and ch: "list_all2 challenged fs ps" and re: "reassemble (messageLeft c) ps = Inr (content, 0)"
    and keep: "sendBuffer c = []" "\<not> ttlsClosed c"
    using assms(2,4) by (auto simp: incoming_def)
  obtain flags body ps' where ps: "ps = (flags, body) # ps'"
    using re assms(3) by (cases ps) auto
  obtain f fs' where fs: "fs = f # fs'" and f: "challenged f (flags, body)" and ch': "list_all2 challenged fs' ps'"
    using ch by (auto simp: ps list_all2_Cons2)
  obtain fragment left later where a: "acceptFragment (messageLeft c) flags body = Inr (fragment, left)"
    and re': "reassemble left ps' = Inr (later, 0)" and content: "content = fragment @ later"
    using re by (auto simp: ps map_sum_id_Inr split: sum.split_asm)
  obtain c1 where c1: "(if messageLeft c > 0 then writeTTLSFrame w c 0 [] 0 else (c, Inr ())) = (c1, Inr ())"
    "stream (iftInput (outer c1)) = iftEnc f @ concat (map iftEnc fs') @ rest" "sendBuffer c1 = []" "\<not> ttlsClosed c1"
    "messageLeft c1 = messageLeft c"
    using acknowledge_reliable [OF assms(1), of c] st fs keep by (cases "messageLeft c > 0") auto
  have r: "readFrame (outer c1) (int pulseAuthenticationFrameLimit) =
      ((outer c1)\<lparr>iftInput := (iftInput (outer c1))\<lparr>stream := concat (map iftEnc fs') @ rest\<rparr>\<rparr>, Inr f)"
    using f c1(2) unfolding readFrame_def by (intro readFrameBuffer_frame) (simp_all add: challenged_def)
  obtain packet where p: "parsePulseAuthenticationEAP f = Inr packet" "typeValue packet = ucast pulseEAPTypeTTLS"
    "eapPayload packet = flags # body" "flags AND 0x3f = 0"
    using f by (auto simp: challenged_def split: sum.split_asm)
  let ?c' = "c1\<lparr>outer := (outer c1)\<lparr>iftInput := (iftInput (outer c1))\<lparr>stream := concat (map iftEnc fs') @ rest\<rparr>\<rparr>,
     ttlsIdentifier := eapIdentifier packet, messageLeft := left, receiveBuffer := fragment\<rparr>"
  have "receiveNextFragment w c = (?c', Inr ())"
    unfolding receiveNextFragment_def c1(1) by (simp add: r p Let_def c1(5) a)
  moreover have "incoming ?c' content rest"
    using c1(3,4) ch' re' content by (auto simp: incoming_def)
  moreover have "fragment \<noteq> []" using a by (rule acceptFragment_nonempty)
  ultimately show ?thesis by auto
qed

lemma readTTLS_incoming:
  assumes "reliable_writer w" "incoming c content rest" "content \<noteq> []" "n > 0"
  shows "\<exists>c' bs content'. readTTLS w c n = (c', Inr bs) \<and> bs \<noteq> [] \<and> length bs \<le> n \<and> content = bs @ content' \<and> incoming c' content' rest"
proof -
  have keep: "sendBuffer c = []" "\<not> ttlsClosed c" using assms(2) by (simp_all add: incoming_def)
  obtain c1 where c1: "(if length (receiveBuffer c) = 0 then
             (case (if messageLeft c = 0 then flushPending w c else (c, Inr ())) of
                (c1, Inl err) \<Rightarrow> (c1, Inl err)
              | (c1, Inr _) \<Rightarrow> receiveNextFragment w c1)
           else (c, Inr ())) = (c1, Inr ())" "incoming c1 content rest" "receiveBuffer c1 \<noteq> []"
  proof (cases "receiveBuffer c = []")
    case True
    from receiveNextFragment_incoming [OF assms(1-3) True] keep show ?thesis
      by (auto simp: True flushPending_def intro: that)
  qed (use assms(2) in \<open>auto intro: that\<close>)
  obtain later where l: "content = receiveBuffer c1 @ later"
    using c1(2) by (auto simp: incoming_def)
  let ?c' = "c1\<lparr>receiveBuffer := drop n (receiveBuffer c1)\<rparr>"
  have "readTTLS w c n = (?c', Inr (take n (receiveBuffer c1)))"
    using assms(4) keep unfolding readTTLS_def c1(1) by simp
  moreover have "incoming ?c' (drop n (receiveBuffer c1) @ later) rest"
    using c1(2) l by (auto simp: incoming_def)
  moreover have "content = take n (receiveBuffer c1) @ drop n (receiveBuffer c1) @ later" using l by simp
  moreover have "take n (receiveBuffer c1) \<noteq> []" "length (take n (receiveBuffer c1)) \<le> n" using assms(4) c1(3) by auto
  ultimately show ?thesis by blast
qed

text \<open>\<open>io.ReadFull\<close> over the connection; each round reads at least a byte, so \<open>k\<close> rounds suffice for \<open>k\<close> bytes.\<close>

fun readFullTTLS :: "nat \<Rightarrow> 'w writer \<Rightarrow> 'w pulseTTLSConn \<Rightarrow> nat \<Rightarrow> ('w pulseTTLSConn \<times> bytes result) option" where
  "readFullTTLS fuel w c k =
     (if k = 0 then Some (c, Inr [])
      else case fuel of
        0 \<Rightarrow> None
      | Suc fuel \<Rightarrow>
          (case readTTLS w c k of
             (c1, Inl err) \<Rightarrow> Some (c1, Inl err)
           | (c1, Inr bs) \<Rightarrow> map_option (apsnd (map_sum id ((@) bs))) (readFullTTLS fuel w c1 (k - length bs))))"

declare readFullTTLS.simps [simp del]

lemma readFullTTLS_incoming:
  "reliable_writer w \<Longrightarrow> incoming c content rest \<Longrightarrow> k \<le> length content \<Longrightarrow> k \<le> fuel \<Longrightarrow>
    \<exists>c'. readFullTTLS fuel w c k = Some (c', Inr (take k content)) \<and> incoming c' (drop k content) rest"
proof (induction fuel arbitrary: c k content)
  case 0
  then show ?case by (simp add: readFullTTLS.simps)
next
  case (Suc fuel)
  show ?case
  proof (cases "k = 0")
    case True
    then show ?thesis using Suc.prems by (simp add: readFullTTLS.simps)
  next
    case False
    then obtain c1 bs content' where r: "readTTLS w c k = (c1, Inr bs)" "bs \<noteq> []" "length bs \<le> k" "content = bs @ content'" "incoming c1 content' rest"
      using readTTLS_incoming [OF Suc.prems(1,2), of k] Suc.prems(3) by fastforce
    have "k - length bs \<le> fuel" using r(2) Suc.prems(4) by (cases bs) auto
    moreover have "k - length bs \<le> length content'" using Suc.prems(3) r(4) by auto
    ultimately obtain c' where "readFullTTLS fuel w c1 (k - length bs) = Some (c', Inr (take (k - length bs) content'))"
      "incoming c' (drop (k - length bs) content') rest"
      using Suc.IH [OF Suc.prems(1) r(5)] by blast
    with r False show ?thesis by (simp add: readFullTTLS.simps [of "Suc fuel"])
  qed
qed

section \<open>Properties\<close>

lemma flush_out:
  assumes "honest_writer w out" "flush w c = (c', Inr ())" "sendBuffer c \<noteq> []" "length (sendBuffer c) \<le> pulseConfigurationFrameLimit"
  shows "\<exists>frames parts. out (iftOutput (outer c')) = out (iftOutput (outer c)) @ concat (map iftEnc frames) \<and>
     map fragmentOf frames = map Some parts \<and> reassemble 0 parts = Inr (sendBuffer c, 0) \<and> sendBuffer c' = []"
proof -
  let ?c = "c\<lparr>sendBuffer := []\<rparr>"
  have f: "flushLoop w ?c True (length (sendBuffer c)) (sendBuffer c) = (c', Inr ())"
    using assms(2,3) by (simp add: flush_def flushPending_def split: if_split_asm)
  have "reassemble 0 (fragments True (length (sendBuffer c)) (sendBuffer c)) = Inr (sendBuffer c, 0)"
    using assms(3,4) by (intro reassemble_fragments) auto
  with flushLoop_out [OF f assms(1)] show ?thesis by auto
qed

text \<open>C17: a flush that succeeds, over any connection that keeps the contract of a writer, puts out frames whose
  fragments pass every check of the receiving side, reassemble to exactly the bytes that were pending with nothing
  left to come, and leaves nothing pending, in messages of any length up to the limit that \<open>Write\<close> enforces.\<close>

theorem pulse_ttls_flush:
  assumes "honest_writer w out" "writeTTLS c0 content = (c, Inr (length content))" "content \<noteq> []"
    "flush w c = (c', Inr ())"
  shows "\<exists>frames parts. out (iftOutput (outer c')) = out (iftOutput (outer c0)) @ concat (map iftEnc frames) \<and>
     map fragmentOf frames = map Some parts \<and> reassemble 0 parts = Inr (sendBuffer c0 @ content, 0) \<and> sendBuffer c' = []"
proof -
  have "sendBuffer c = sendBuffer c0 @ content" "outer c = outer c0" "length (sendBuffer c) \<le> pulseConfigurationFrameLimit"
    using assms(2,3) by (auto simp: writeTTLS_def split: if_split_asm)
  with flush_out [OF assms(1,4)] assms(3) show ?thesis by simp
qed

definition sampleTTLS :: "bytes \<Rightarrow> bytes pulseTTLSConn" where
  "sampleTTLS bs = \<lparr>outer = \<lparr>iftInput = \<lparr>stream = bs, final = ioEOF\<rparr>, iftOutput = [], nextSequence = 3\<rparr>,
     ttlsIdentifier = 9, sendBuffer = [], receiveBuffer = [], messageLeft = 0, ttlsClosed = False\<rparr>"

theorem pulse_ttls_flush_witness:
  "\<exists>frames parts c'. flush collect ((sampleTTLS [])\<lparr>sendBuffer := [1, 2]\<rparr>) = (c', Inr ()) \<and>
     iftOutput (outer c') = concat (map iftEnc frames) \<and>
     map fragmentOf frames = map Some parts \<and> reassemble 0 parts = Inr ([1, 2], 0) \<and> sendBuffer c' = []"
proof -
  have w: "writeTTLS (sampleTTLS []) [1, 2] = ((sampleTTLS [])\<lparr>sendBuffer := [1, 2]\<rparr>, Inr (length [1, 2 :: byte]))"
    by (simp add: writeTTLS_def sampleTTLS_def pulseConfigurationFrameLimit_def)
  obtain c' where f: "flush collect ((sampleTTLS [])\<lparr>sendBuffer := [1, 2]\<rparr>) = (c', Inr ())"
    by (simp add: flush_def sampleTTLS_def flushPending_def flushLoop.simps pulseTTLSMaximumFragment_def
        writeTTLSFrame_def ttlsPayload_def buildPulseEAP_def Let_def writeFrame_def writeFrames_def writeFrameBuffers_def
        writeByteSequence_def collect_def buildPulseAuthenticationPayload_def pulseIFTHeaderSize_def)
  obtain frames parts where "id (iftOutput (outer c')) = id (iftOutput (outer (sampleTTLS []))) @ concat (map iftEnc frames)"
    "map fragmentOf frames = map Some parts" "reassemble 0 parts = Inr (sendBuffer (sampleTTLS []) @ [1, 2], 0)" "sendBuffer c' = []"
    using pulse_ttls_flush [OF collect_honest w _ f] by auto
  then show ?thesis
    by (intro exI [of _ frames] exI [of _ parts] exI [of _ c']) (simp add: f, simp add: sampleTTLS_def)
qed

text \<open>\<open>io.ReadFull\<close> over the tunnel delivers exactly the next bytes of the messages that wait in the connection as
  fragments, however they are cut and however few bytes each \<open>Read\<close> asks for, acknowledging every fragment but the
  first of a message; what was not asked for stays readable and nothing behind the fragments is touched.\<close>

theorem pulse_ttls_stream:
  assumes "reliable_writer w" "incoming c content rest" "k \<le> length content" "k \<le> fuel"
  shows "\<exists>c'. readFullTTLS fuel w c k = Some (c', Inr (take k content)) \<and> incoming c' (drop k content) rest"
  using assms by (rule readFullTTLS_incoming)

theorem pulse_ttls_stream_witness:
  "\<exists>bs c'. bs \<noteq> [] \<and> readFullTTLS 2 collect (sampleTTLS (bs @ [1])) 2 = Some (c', Inr [7, 8]) \<and> incoming c' [4] [1]"
proof -
  obtain packet where b: "buildPulseEAP pulseEAPRequest 5 pulseEAPTypeTTLS 0 [0, 7, 8, 4] = Inr packet" "length packet = 9"
    by (simp add: buildPulseEAP_def Let_def)
  define f where "f = \<lparr>vendor = pulseVendorTCG, frameType = pulseIFTClientAuthChallenge, frameSequence = 0,
    framePayload = buildPulseAuthenticationPayload packet\<rparr>"
  have "challenged f (0, [7, 8, 4])"
    using parse_authentication [OF b(1), of 0] b(2)
    by (simp add: challenged_def f_def ift_fits_def buildPulseAuthenticationPayload_def pulseAuthenticationFrameLimit_def)
  then have "incoming (sampleTTLS (iftEnc f @ [1])) [7, 8, 4] [1]"
    unfolding incoming_def sampleTTLS_def
    by (intro conjI exI [of _ "[f]"] exI [of _ "[(0, [7, 8, 4])]"] exI [of _ "[7, 8, 4]"]) (simp_all add: acceptFragment_def)
  moreover have "reliable_writer collect" by (simp add: reliable_writer_def collect_def)
  moreover have "iftEnc f \<noteq> []" by (simp add: iftEnc_def iftBytes_def put_u32_def)
  ultimately show ?thesis
    using pulse_ttls_stream [of collect "sampleTTLS (iftEnc f @ [1])" "[7, 8, 4]" "[1]" 2 2] by auto
qed

end
