(* ===== verification/Nc_Oncp.thy ===== *)
theory Nc_Oncp
  imports Framing
begin

text \<open>
  The byte stream of Network Connect (\<^verbatim>\<open>nc_oncp.go\<close>): records with a length in front, the KMP
  messages that are cut into records, and the exchange that precedes the tunnel.

  A connection is what it will still deliver, the state of its writer, and the bytes of a record
  that no message has used; \<open>None\<close> is the nil buffer. A packet buffer is its content.
\<close>

section \<open>Definitions\<close>

definition ncONCPMaximumKMPPayload :: nat where "ncONCPMaximumKMPPayload = 65535"
definition ncONCPMaximumInitialRecords :: nat where "ncONCPMaximumInitialRecords = 4096"
definition ncONCPMaximumInitialPending :: nat where "ncONCPMaximumInitialPending = 1024 * 1024"
definition ncONCPKMPHeaderSize :: nat where "ncONCPKMPHeaderSize = 20"
definition ncONCPKMPData :: u16 where "ncONCPKMPData = 300"
definition ncONCPKMPConfiguration :: u16 where "ncONCPKMPConfiguration = 301"
definition ncONCPKMPESP :: u16 where "ncONCPKMPESP = 302"
definition ncONCPKMPControl :: u16 where "ncONCPKMPControl = 303"

definition ncONCPAuthenticationHead :: bytes where "ncONCPAuthenticationHead = [0x00, 0x04, 0x00, 0x00, 0x00]"
definition ncONCPAuthenticationTail :: bytes where "ncONCPAuthenticationTail = [0xbb, 0x01, 0x00, 0x00, 0x00, 0x00]"
definition ncONCPKMPHead :: bytes where "ncONCPKMPHead = [0x00, 0x00, 0x00, 0x00, 0x00, 0x00]"
definition ncONCPKMPTail :: bytes where
  "ncONCPKMPTail = [0x01, 0x00, 0x00, 0x00, 0x00, 0x00, 0x00, 0x00, 0x00, 0x00]"
definition ncONCPKMPTailOutgoing :: bytes where
  "ncONCPKMPTailOutgoing = [0x01, 0x00, 0x00, 0x00, 0x01, 0x00, 0x00, 0x00, 0x00, 0x00]"

record 'w ncONCPConnection =
  oncpInput :: reader
  oncpOutput :: 'w
  pending :: "bytes option"

subsection \<open>Writing\<close>

function oncpWriteBytes :: "'w writer \<Rightarrow> 'w \<Rightarrow> bytes \<Rightarrow> 'w \<times> unit result" where
  "oncpWriteBytes w s content =
     (if content = [] then (s, Inr ())
      else case w s content of
        (s', n, Some err) \<Rightarrow> (s', Inl (Cause err ''write Network Connect oNCP bytes''))
      | (s', n, None) \<Rightarrow>
          if n \<le> 0 \<or> n > int (length content) then (s', Inl (New ''oNCP write made invalid progress''))
          else oncpWriteBytes w s' (drop (nat n) content))"
  by pat_completeness auto
termination
  by (relation "measure (\<lambda>(w, s, content). length content)") auto

declare oncpWriteBytes.simps [simp del]

definition writeRecord :: "'w writer \<Rightarrow> 'w ncONCPConnection \<Rightarrow> bytes \<Rightarrow> 'w ncONCPConnection \<times> unit result" where
  "writeRecord w c content =
     (if length content = 0 \<or> length content > ncONCPMaximumKMPPayload
      then (c, Inl (New ''oNCP record has invalid length''))
      else case oncpWriteBytes w (oncpOutput c) (put_le16 (u16_of (length content)) @ content) of
        (s, r) \<Rightarrow> (c\<lparr>oncpOutput := s\<rparr>, r))"

text \<open>A message inside its record, and the packets before the first one that is too large.\<close>

definition kmpRecord :: "u16 \<Rightarrow> bytes \<Rightarrow> bytes" where
  "kmpRecord messageType payload =
     put_le16 (u16_of (ncONCPKMPHeaderSize + length payload)) @
     ncONCPKMPHead @ put_u16 messageType @ ncONCPKMPTailOutgoing @ put_u16 (u16_of (length payload)) @ payload"

fun validPackets :: "u16 \<Rightarrow> bytes list \<Rightarrow> bytes list \<times> unit result" where
  "validPackets messageType [] = ([], Inr ())"
| "validPackets messageType (payload # payloads) =
     (if length payload > ncONCPMaximumKMPPayload then ([], Inl (New ''oNCP KMP payload is too large''))
      else if ncONCPKMPHeaderSize + length payload > ncONCPMaximumKMPPayload
      then ([], Inl (New ''oNCP record has invalid length''))
      else case validPackets messageType payloads of (rs, e) \<Rightarrow> (kmpRecord messageType payload # rs, e))"

definition writeKMPPacketBuffers ::
  "'w writer \<Rightarrow> 'w ncONCPConnection \<Rightarrow> u16 \<Rightarrow> bytes list \<Rightarrow> 'w ncONCPConnection \<times> unit result" where
  "writeKMPPacketBuffers w c messageType payloads =
     (case validPackets messageType payloads of
        (records, validationErr) \<Rightarrow>
          if records = [] then (c, validationErr)
          else case writeByteSequence w (oncpOutput c) records of
            (s, Inl err) \<Rightarrow> (c\<lparr>oncpOutput := s\<rparr>, Inl (Cause err ''write Network Connect oNCP bytes''))
          | (s, Inr _) \<Rightarrow> (c\<lparr>oncpOutput := s\<rparr>, validationErr))"

definition encodeNCONCPKMP :: "u16 \<Rightarrow> bytes \<Rightarrow> bytes result" where
  "encodeNCONCPKMP messageType payload =
     (if length payload > ncONCPMaximumKMPPayload then Inl (New ''oNCP KMP payload is too large'')
      else Inr (ncONCPKMPHead @ put_u16 messageType @ ncONCPKMPTailOutgoing @ put_u16 (u16_of (length payload)) @ payload))"

definition encodeNCONCPTLV :: "u16 \<Rightarrow> bytes \<Rightarrow> bytes" where
  "encodeNCONCPTLV key content = put_u16 key @ put_u32 (u32_of (length content)) @ content"

definition encodeNCONCPAuthenticationPacket :: "bytes \<Rightarrow> bytes result" where
  "encodeNCONCPAuthenticationPacket localHostname =
     (let packetLength = length ncONCPAuthenticationHead + 2 + length localHostname + length ncONCPAuthenticationTail in
      if packetLength > ncONCPMaximumKMPPayload \<or> length localHostname > ncONCPMaximumKMPPayload
      then Inl (New ''oNCP local hostname is too long'')
      else Inr (put_le16 (u16_of packetLength) @ ncONCPAuthenticationHead @ put_le16 (u16_of (length localHostname)) @
                localHostname @ ncONCPAuthenticationTail))"

subsection \<open>Reading records\<close>

definition readRecord :: "reader \<Rightarrow> bytes result \<times> reader" where
  "readRecord r =
     (case readFull r 2 of
        (Inl err, r1) \<Rightarrow> (Inl (Cause err ''read Network Connect oNCP record length''), r1)
      | (Inr lengthBytes, r1) \<Rightarrow>
          let n = unat (get_le16 lengthBytes) in
          if n = 0 then
            (case readFull r1 1 of
               (Inl err, r2) \<Rightarrow> (Inl (Cause err ''read Network Connect oNCP termination reason''), r2)
             | (Inr reason, r2) \<Rightarrow>
                 let reasonErr = New ''oNCP server terminated the session'' in
                 (Inl (if reason ! 0 = 1 then Joined [Sentinel ErrSessionRejected, reasonErr] else reasonErr), r2))
          else case readFull r1 n of
            (Inl err, r2) \<Rightarrow> (Inl (Cause err ''read Network Connect oNCP record''), r2)
          | (Inr content, r2) \<Rightarrow> (Inr content, r2))"

definition readRecordBuffer :: "reader \<Rightarrow> bytes result \<times> reader" where
  "readRecordBuffer r = readRecord r"

lemma readFull_shrinks: "readFull r n = (Inr bs, r') \<Longrightarrow> length (stream r) = n + length (stream r')"
  by (auto simp: readFull_def split: if_split_asm)

lemma readRecord_shrinks: "readRecord r = (Inr bs, r') \<Longrightarrow> length (stream r') < length (stream r) \<and> bs \<noteq> []"
  by (auto simp: readRecord_def Let_def readFull_def split: if_split_asm prod.split_asm sum.split_asm)

subsection \<open>Reading messages\<close>

definition parseNCONCPKMPHeader :: "bytes \<Rightarrow> bool \<Rightarrow> (u16 \<times> nat) result" where
  "parseNCONCPKMPHeader header outgoing =
     (if length header < ncONCPKMPHeaderSize \<or> take 6 header \<noteq> ncONCPKMPHead
      then Inl (markTerminal (New ''oNCP KMP header is invalid''))
      else
        let expectedTail = (if outgoing then ncONCPKMPTailOutgoing else ncONCPKMPTail);
            messageType = get_u16 (subslice header 6 8);
            legacyDataTail = (messageType = ncONCPKMPData \<and> header ! 8 = 0 \<and> subslice header 9 18 = drop 1 ncONCPKMPTail)
        in if subslice header 8 18 \<noteq> expectedTail \<and> \<not> legacyDataTail
           then Inl (markTerminal (New ''oNCP KMP constants are invalid''))
           else Inr (messageType, unat (get_u16 (subslice header 18 20))))"

definition releasePending :: "'w ncONCPConnection \<Rightarrow> 'w ncONCPConnection" where
  "releasePending c = c\<lparr>pending := None\<rparr>"

definition appendPending :: "'w ncONCPConnection \<Rightarrow> bytes \<Rightarrow> 'w ncONCPConnection" where
  "appendPending c content =
     (case pending c of None \<Rightarrow> c\<lparr>pending := Some content\<rparr> | Some p \<Rightarrow> c\<lparr>pending := Some (p @ content)\<rparr>)"

text \<open>The two loops of \<open>readKMP\<close>: records are read until \<open>n\<close> bytes are pending.\<close>

abbreviation pendingBytes :: "'w ncONCPConnection \<Rightarrow> bytes" where
  "pendingBytes c \<equiv> case_option [] (\<lambda>p. p) (pending c)"

function readPending :: "'w ncONCPConnection \<Rightarrow> nat \<Rightarrow> 'w ncONCPConnection \<times> unit result" where
  "readPending c n =
     (if pending c \<noteq> None \<and> length (pendingBytes c) \<ge> n then (c, Inr ())
      else case readRecordBuffer (oncpInput c) of
        (Inl err, r) \<Rightarrow> (releasePending (c\<lparr>oncpInput := r\<rparr>), Inl err)
      | (Inr content, r) \<Rightarrow> readPending (appendPending (c\<lparr>oncpInput := r\<rparr>) content) n)"
  by pat_completeness auto
termination
  by (relation "measure (\<lambda>(c, n). length (stream (oncpInput c)))")
    (auto simp: appendPending_def readRecordBuffer_def dest!: sym [of _ "readRecord _"] readRecord_shrinks split: option.split)

declare readPending.simps [simp del]

definition readKMP :: "'w ncONCPConnection \<Rightarrow> 'w ncONCPConnection \<times> (u16 \<times> bytes) result" where
  "readKMP c =
     (case readPending c ncONCPKMPHeaderSize of
        (c1, Inl err) \<Rightarrow> (c1, Inl err)
      | (c1, Inr _) \<Rightarrow>
          (case parseNCONCPKMPHeader (take ncONCPKMPHeaderSize (pendingBytes c1)) False of
             Inl err \<Rightarrow> (releasePending c1, Inl err)
           | Inr (messageType, payloadLength) \<Rightarrow>
               let size = ncONCPKMPHeaderSize + payloadLength in
               (case readPending c1 size of
                  (c2, Inl err) \<Rightarrow> (c2, Inl err)
                | (c2, Inr _) \<Rightarrow>
                    if length (pendingBytes c2) = size
                    then (c2\<lparr>pending := None\<rparr>, Inr (messageType, drop ncONCPKMPHeaderSize (pendingBytes c2)))
                    else (c2\<lparr>pending := Some (drop size (pendingBytes c2))\<rparr>,
                          Inr (messageType, subslice (pendingBytes c2) ncONCPKMPHeaderSize size)))))"

subsection \<open>The first configuration\<close>

definition isNCONCPStandaloneDataRecord :: "bytes \<Rightarrow> bool" where
  "isNCONCPStandaloneDataRecord content =
     (if length content < ncONCPKMPHeaderSize + 20 then False
      else case parseNCONCPKMPHeader (take ncONCPKMPHeaderSize content) False of
        Inl _ \<Rightarrow> False
      | Inr (messageType, payloadLength) \<Rightarrow>
          messageType = ncONCPKMPData \<and> payloadLength + ncONCPKMPHeaderSize = length content \<and>
          drop_bit 4 (content ! ncONCPKMPHeaderSize) = 4)"

text \<open>
  A round of the loop: the test for a complete configuration message, \<open>None\<close> when it is not yet
  complete, and what a record does to the configuration and the queued packets.
\<close>

definition completeConfiguration :: "bytes \<Rightarrow> bytes \<Rightarrow> (bytes \<times> bytes) option result" where
  "completeConfiguration configurationBytes pendingPackets =
     (if length configurationBytes \<ge> ncONCPKMPHeaderSize then
        (case parseNCONCPKMPHeader (take ncONCPKMPHeaderSize configurationBytes) False of
           Inl err \<Rightarrow> Inl err
         | Inr (messageType, payloadLength) \<Rightarrow>
             if messageType \<noteq> ncONCPKMPConfiguration then Inl (markTerminal (New ''oNCP expected KMP 301''))
             else
               let size = ncONCPKMPHeaderSize + payloadLength in
               if length configurationBytes \<ge> size
               then Inr (Some (take size configurationBytes, pendingPackets @ drop size configurationBytes))
               else Inr None)
      else Inr None)"

definition queueRecord :: "nat \<Rightarrow> bytes \<Rightarrow> bytes \<Rightarrow> bytes \<Rightarrow> (bytes \<times> bytes) result" where
  "queueRecord recordCount configurationBytes pendingPackets content =
     (if recordCount > ncONCPMaximumInitialRecords
      then Inl (markTerminal (New ''oNCP initial configuration used too many records''))
      else if isNCONCPStandaloneDataRecord content then
        if length pendingPackets + length content > ncONCPMaximumInitialPending
        then Inl (markTerminal (New ''oNCP queued too much data during initial configuration''))
        else Inr (configurationBytes, pendingPackets @ content)
      else if length configurationBytes + length content > ncONCPKMPHeaderSize + ncONCPMaximumKMPPayload
      then Inl (markTerminal (New ''oNCP initial configuration is too large''))
      else Inr (configurationBytes @ content, pendingPackets))"

function initialLoop :: "reader \<Rightarrow> nat \<Rightarrow> bytes \<Rightarrow> bytes \<Rightarrow> (bytes \<times> bytes) result \<times> reader" where
  "initialLoop r recordCount configurationBytes pendingPackets =
     (case completeConfiguration configurationBytes pendingPackets of
        Inl err \<Rightarrow> (Inl err, r)
      | Inr (Some result) \<Rightarrow> (Inr result, r)
      | Inr None \<Rightarrow>
          (case readRecord r of
             (Inl err, r1) \<Rightarrow> (Inl err, r1)
           | (Inr content, r1) \<Rightarrow>
               (case queueRecord (recordCount + 1) configurationBytes pendingPackets content of
                  Inl err \<Rightarrow> (Inl err, r1)
                | Inr (configurationBytes', pendingPackets') \<Rightarrow>
                    initialLoop r1 (recordCount + 1) configurationBytes' pendingPackets')))"
  by pat_completeness auto
termination
  by (relation "measure (\<lambda>(r, n, c, p). length (stream r))") (auto dest!: sym [of _ "readRecord _"] readRecord_shrinks)

declare initialLoop.simps [simp del]

definition readInitialConfiguration :: "'w ncONCPConnection \<Rightarrow> 'w ncONCPConnection \<times> (bytes \<times> bytes) result" where
  "readInitialConfiguration c =
     (case readRecord (oncpInput c) of
        (Inl err, r) \<Rightarrow> (c\<lparr>oncpInput := r\<rparr>, Inl err)
      | (Inr content, r) \<Rightarrow>
          if length content < 1 then (c\<lparr>oncpInput := r\<rparr>, Inl (markTerminal (New ''oNCP hostname response is empty'')))
          else if content ! 0 \<noteq> 0
          then (c\<lparr>oncpInput := r\<rparr>, Inl (markTerminal (New ''oNCP hostname response returned error'')))
          else case initialLoop r 1 (drop 1 content) [] of (result, r1) \<Rightarrow> (c\<lparr>oncpInput := r1\<rparr>, result))"

section \<open>Records\<close>

definition recordBytes :: "bytes \<Rightarrow> bytes" where
  "recordBytes content = put_le16 (u16_of (length content)) @ content"

definition good_record :: "bytes \<Rightarrow> bool" where
  "good_record content \<longleftrightarrow> content \<noteq> [] \<and> length content \<le> ncONCPMaximumKMPPayload"

lemma readRecord_frame:
  assumes "good_record content" "stream r = recordBytes content @ rest"
  shows "readRecord r = (Inr content, r\<lparr>stream := rest\<rparr>)"
proof -
  obtain e where r: "r = \<lparr>stream = put_le16 (u16_of (length content)) @ content @ rest, final = e\<rparr>"
    using assms(2) by (cases r) (simp add: recordBytes_def)
  have "unat (u16_of (length content)) = length content" "content \<noteq> []"
    using assms(1) by (auto simp: good_record_def ncONCPMaximumKMPPayload_def intro: unat_u16_of)
  then show ?thesis unfolding readRecord_def r by (simp add: Let_def)
qed

definition takeRecord :: "bytes \<Rightarrow> (bytes \<times> bytes) result" where
  "takeRecord bs = (case readRecord \<lparr>stream = bs, final = ioEOF\<rparr> of (Inl e, r) \<Rightarrow> Inl e | (Inr x, r) \<Rightarrow> Inr (x, stream r))"

interpretation oncp_record: record_format good_record recordBytes takeRecord
  by unfold_locales (simp add: takeRecord_def readRecord_frame)

section \<open>Messages\<close>

text \<open>A message with the constants \<open>tail\<close>, and the constants the client accepts.\<close>

definition kmpBytes :: "bytes \<Rightarrow> u16 \<times> bytes \<Rightarrow> bytes" where
  "kmpBytes tail m = ncONCPKMPHead @ put_u16 (fst m) @ tail @ put_u16 (u16_of (length (snd m))) @ snd m"

definition good_message :: "bytes \<Rightarrow> u16 \<times> bytes \<Rightarrow> bool" where
  "good_message tail m \<longleftrightarrow> length (snd m) \<le> ncONCPMaximumKMPPayload \<and>
     (tail = ncONCPKMPTail \<or> fst m = ncONCPKMPData \<and> tail = 0 # drop 1 ncONCPKMPTail)"

lemma kmp_constant_lengths [simp]:
  "length ncONCPKMPHead = 6" "length ncONCPKMPTail = 10" "length ncONCPKMPTailOutgoing = 10"
  by (simp_all add: ncONCPKMPHead_def ncONCPKMPTail_def ncONCPKMPTailOutgoing_def)

lemma good_message_tail: "good_message tail m \<Longrightarrow> length tail = 10"
  by (auto simp: good_message_def)

lemma length_kmpBytes: "length tail = 10 \<Longrightarrow> length (kmpBytes tail m) = 20 + length (snd m)"
  by (simp add: kmpBytes_def)

lemma parse_kmp_header:
  assumes "length tail = 10" "length (snd m) \<le> ncONCPMaximumKMPPayload"
    "tail = (if outgoing then ncONCPKMPTailOutgoing else ncONCPKMPTail) \<or> fst m = ncONCPKMPData \<and> tail = 0 # drop 1 ncONCPKMPTail"
  shows "parseNCONCPKMPHeader (take 20 (kmpBytes tail m)) outgoing = Inr (fst m, length (snd m))"
proof -
  define h where "h = ncONCPKMPHead @ put_u16 (fst m) @ tail @ put_u16 (u16_of (length (snd m)))"
  have h: "take 20 (kmpBytes tail m) = h" using assms(1) by (simp add: kmpBytes_def h_def)
  have u: "unat (u16_of (length (snd m))) = length (snd m)"
    using assms(2) by (intro unat_u16_of) (simp add: ncONCPMaximumKMPPayload_def)
  have f: "length h = 20" "take 6 h = ncONCPKMPHead" "subslice h 6 8 = put_u16 (fst m)" "subslice h 8 18 = tail"
    "subslice h 18 20 = put_u16 (u16_of (length (snd m)))" "h ! 8 = tail ! 0" "subslice h 9 18 = drop 1 tail"
    using assms(1) by (simp_all add: h_def subslice_def nth_append)
  show ?thesis
    unfolding h parseNCONCPKMPHeader_def using assms(3) by (auto simp: f u ncONCPKMPHeaderSize_def Let_def)
qed

lemma parse_header_take: "20 \<le> length h \<Longrightarrow> parseNCONCPKMPHeader (take 20 h) outgoing = parseNCONCPKMPHeader h outgoing"
  by (simp add: parseNCONCPKMPHeader_def ncONCPKMPHeaderSize_def min_def Let_def)

section \<open>Reading\<close>

text \<open>The bytes of messages a connection holds: those pending and those in the records it will still deliver.\<close>

definition holding :: "'w ncONCPConnection \<Rightarrow> bytes \<Rightarrow> bytes \<Rightarrow> bool" where
  "holding c bs rest \<longleftrightarrow> (\<exists>records. stream (oncpInput c) = concat (map recordBytes records) @ rest \<and>
     list_all good_record records \<and> bs = pendingBytes c @ concat records)"

lemma readPending_holding:
  "holding c bs rest \<Longrightarrow> n \<le> length bs \<Longrightarrow> 0 < n \<Longrightarrow>
     \<exists>c'. readPending c n = (c', Inr ()) \<and> holding c' bs rest \<and> n \<le> length (pendingBytes c')"
proof (induction c n rule: readPending.induct)
  case (1 c n)
  show ?case
  proof (cases "pending c \<noteq> None \<and> length (pendingBytes c) \<ge> n")
    case True
    with 1(2) show ?thesis by (simp add: readPending.simps [of c])
  next
    case False
    obtain records where r: "stream (oncpInput c) = concat (map recordBytes records) @ rest"
      "list_all good_record records" "bs = pendingBytes c @ concat records"
      using 1(2) by (auto simp: holding_def)
    obtain x xs where xs: "records = x # xs"
      using r(3) False 1(3,4) by (cases records; cases "pending c") auto
    let ?r = "(oncpInput c)\<lparr>stream := concat (map recordBytes xs) @ rest\<rparr>"
    let ?c = "appendPending (c\<lparr>oncpInput := ?r\<rparr>) x"
    have read: "readRecordBuffer (oncpInput c) = (Inr x, ?r)"
      unfolding readRecordBuffer_def using r(1,2) by (intro readRecord_frame) (simp_all add: xs)
    have "holding ?c bs rest"
      using r(2,3) by (auto simp: holding_def appendPending_def xs split: option.split)
    from 1(1) [OF False read [symmetric] refl this 1(3,4)] show ?thesis
      unfolding readPending.simps [of c n] if_not_P [OF False] read by simp
  qed
qed

lemma holding_prefix:
  assumes "holding c bs rest" "n \<le> length (pendingBytes c)"
  shows "take n (pendingBytes c) = take n bs"
  using assms by (auto simp: holding_def)

lemma readKMP_holding:
  assumes "good_message tail m" "holding c (kmpBytes tail m @ bs) rest"
  shows "\<exists>c'. readKMP c = (c', Inr m) \<and> holding c' bs rest"
proof -
  note tail = good_message_tail [OF assms(1)]
  note len = length_kmpBytes [OF tail, of m]
  let ?n = "20 + length (snd m)"
  obtain c1 where c1: "readPending c 20 = (c1, Inr ())" "holding c1 (kmpBytes tail m @ bs) rest" "20 \<le> length (pendingBytes c1)"
    using readPending_holding [OF assms(2), of 20] len by auto
  have "take 20 (pendingBytes c1) = take 20 (kmpBytes tail m)"
    using holding_prefix [OF c1(2,3)] len by simp
  then have h: "parseNCONCPKMPHeader (take 20 (pendingBytes c1)) False = Inr (fst m, length (snd m))"
    using parse_kmp_header [OF tail, of m False] assms(1) by (simp add: good_message_def)
  obtain c2 where c2: "readPending c1 ?n = (c2, Inr ())" "holding c2 (kmpBytes tail m @ bs) rest" "?n \<le> length (pendingBytes c2)"
    using readPending_holding [OF c1(2), of ?n] len by auto
  obtain records where r: "stream (oncpInput c2) = concat (map recordBytes records) @ rest"
    "list_all good_record records" "kmpBytes tail m @ bs = pendingBytes c2 @ concat records"
    using c2(2) by (auto simp: holding_def)
  have p: "pendingBytes c2 = kmpBytes tail m @ drop ?n (pendingBytes c2)" and b: "bs = drop ?n (pendingBytes c2) @ concat records"
    using r(3) len c2(3) by (auto simp: append_eq_append_conv_if)
  have "drop 20 (kmpBytes tail m) = snd m" using tail by (simp add: kmpBytes_def)
  then have payload: "drop 20 (take ?n (pendingBytes c2)) = snd m"
    using p len by (metis append_eq_conv_conj)
  show ?thesis
  proof (cases "length (pendingBytes c2) = ?n")
    case True
    then have "readKMP c = (c2\<lparr>pending := None\<rparr>, Inr m)"
      using payload by (simp add: readKMP_def ncONCPKMPHeaderSize_def c1(1) h c2(1) Let_def)
    moreover have "holding (c2\<lparr>pending := None\<rparr>) bs rest" using r(1,2) b True by (auto simp: holding_def)
    ultimately show ?thesis by blast
  next
    case False
    then have "readKMP c = (c2\<lparr>pending := Some (drop ?n (pendingBytes c2))\<rparr>, Inr m)"
      using payload by (simp add: readKMP_def ncONCPKMPHeaderSize_def c1(1) h c2(1) Let_def subslice_def drop_take)
    moreover have "holding (c2\<lparr>pending := Some (drop ?n (pendingBytes c2))\<rparr>) bs rest" using r(1,2) b by (auto simp: holding_def)
    ultimately show ?thesis by blast
  qed
qed

fun readKMPs :: "nat \<Rightarrow> 'w ncONCPConnection \<Rightarrow> 'w ncONCPConnection \<times> (u16 \<times> bytes) list result" where
  "readKMPs 0 c = (c, Inr [])"
| "readKMPs (Suc n) c =
     (case readKMP c of
        (c1, Inl err) \<Rightarrow> (c1, Inl err)
      | (c1, Inr m) \<Rightarrow> apsnd (map_sum id ((#) m)) (readKMPs n c1))"

lemma readKMPs_holding:
  "list_all (\<lambda>(tail, m). good_message tail m) ms \<Longrightarrow> holding c (concat (map (\<lambda>(tail, m). kmpBytes tail m) ms) @ bs) rest \<Longrightarrow>
     \<exists>c'. readKMPs (length ms) c = (c', Inr (map snd ms)) \<and> holding c' bs rest"
proof (induction ms arbitrary: c)
  case (Cons a ms)
  obtain tail m where a: "a = (tail, m)" by (cases a)
  obtain c1 where c1: "readKMP c = (c1, Inr m)" "holding c1 (concat (map (\<lambda>(tail, m). kmpBytes tail m) ms) @ bs) rest"
    using readKMP_holding [of tail m c] Cons.prems by (auto simp: a)
  with Cons.IH [OF _ c1(2)] Cons.prems(1) show ?case by (auto simp: a)
qed simp

section \<open>The first configuration\<close>

lemma completeConfiguration_prefix:
  assumes "good_message tail m" "fst m = ncONCPKMPConfiguration" "conf @ extra = kmpBytes tail m @ trailing"
  shows "completeConfiguration conf queued = Inr
    (if length conf \<ge> length (kmpBytes tail m)
     then Some (kmpBytes tail m, queued @ drop (length (kmpBytes tail m)) conf) else None)"
proof -
  note tail = good_message_tail [OF assms(1)]
  note len = length_kmpBytes [OF tail, of m]
  have "parseNCONCPKMPHeader (take 20 conf) False = Inr (ncONCPKMPConfiguration, length (snd m))" if "20 \<le> length conf"
  proof -
    have "take 20 conf = take 20 (kmpBytes tail m)"
      using that len assms(3) by (metis le_add1 take_append diff_is_0_eq take_0 append_Nil2)
    then show ?thesis using parse_kmp_header [OF tail, of m False] assms(1,2) by (simp add: good_message_def)
  qed
  moreover have "take (length (kmpBytes tail m)) conf = kmpBytes tail m" if "length (kmpBytes tail m) \<le> length conf"
    using that assms(3) by (metis append_eq_conv_conj take_append diff_is_0_eq take_0 append_Nil2)
  ultimately show ?thesis
    by (auto simp: completeConfiguration_def ncONCPKMPHeaderSize_def len Let_def)
qed

abbreviation dataRecords :: "bytes list \<Rightarrow> bytes list" where
  "dataRecords \<equiv> filter isNCONCPStandaloneDataRecord"

abbreviation configurationRecords :: "bytes list \<Rightarrow> bytes list" where
  "configurationRecords \<equiv> filter (\<lambda>x. \<not> isNCONCPStandaloneDataRecord x)"

lemma initialLoop_records:
  assumes "good_message tail m" "fst m = ncONCPKMPConfiguration"
  shows "stream r = concat (map recordBytes records) @ rest \<Longrightarrow> list_all good_record records \<Longrightarrow>
     conf @ concat (configurationRecords records) = kmpBytes tail m @ trailing \<Longrightarrow>
     n + length records \<le> ncONCPMaximumInitialRecords \<Longrightarrow>
     length queued + length (concat (dataRecords records)) \<le> ncONCPMaximumInitialPending \<Longrightarrow>
     length conf + length (concat (configurationRecords records)) \<le> ncONCPKMPHeaderSize + ncONCPMaximumKMPPayload \<Longrightarrow>
     \<exists>used unused. records = used @ unused \<and>
       initialLoop r n conf queued =
         (Inr (kmpBytes tail m, queued @ concat (dataRecords used) @
            drop (length (kmpBytes tail m)) (conf @ concat (configurationRecords used))),
          r\<lparr>stream := concat (map recordBytes unused) @ rest\<rparr>)"
proof (induction records arbitrary: r n conf queued)
  case Nil
  then have "length (kmpBytes tail m) \<le> length conf" by (simp add: list.size) 
  with completeConfiguration_prefix [OF assms, of conf "[]" trailing queued] Nil show ?case
    by (simp add: initialLoop.simps [of r])
next
  case (Cons x xs)
  let ?K = "kmpBytes tail m"
  note cc = completeConfiguration_prefix [OF assms Cons.prems(3), of queued]
  show ?case
  proof (cases "length ?K \<le> length conf")
    case True
    with cc Cons.prems(1) show ?thesis
      by (intro exI [of _ "[]"] exI [of _ "x # xs"]) (simp add: initialLoop.simps [of r])
  next
    case False
    let ?r = "r\<lparr>stream := concat (map recordBytes xs) @ rest\<rparr>"
    let ?conf = "if isNCONCPStandaloneDataRecord x then conf else conf @ x"
    let ?queued = "if isNCONCPStandaloneDataRecord x then queued @ x else queued"
    have rd: "readRecord r = (Inr x, ?r)" using Cons.prems(1,2) by (intro readRecord_frame) simp_all
    have q: "queueRecord (n + 1) conf queued x = Inr (?conf, ?queued)"
      using Cons.prems(4-6) by (cases "isNCONCPStandaloneDataRecord x") (simp_all add: queueRecord_def)
    have step: "initialLoop r n conf queued = initialLoop ?r (n + 1) ?conf ?queued"
      unfolding initialLoop.simps [of r n] cc rd using False q by simp
    have "\<exists>used unused. xs = used @ unused \<and> initialLoop ?r (n + 1) ?conf ?queued =
         (Inr (?K, ?queued @ concat (dataRecords used) @ drop (length ?K) (?conf @ concat (configurationRecords used))),
          ?r\<lparr>stream := concat (map recordBytes unused) @ rest\<rparr>)"
      using Cons.prems by (intro Cons.IH) (auto simp: if_distrib)
    then obtain used unused where "xs = used @ unused" "initialLoop ?r (n + 1) ?conf ?queued =
         (Inr (?K, ?queued @ concat (dataRecords used) @ drop (length ?K) (?conf @ concat (configurationRecords used))),
          ?r\<lparr>stream := concat (map recordBytes unused) @ rest\<rparr>)" by blast
    then show ?thesis
      by (intro exI [of _ "x # used"] exI [of _ unused]) (simp add: step)
  qed
qed

lemma readInitialConfiguration_records:
  assumes "good_message tail m" "fst m = ncONCPKMPConfiguration" "stream (oncpInput c) = concat (map recordBytes ((0 # first) # records)) @ rest"
    "list_all good_record ((0 # first) # records)" "first @ concat (configurationRecords records) = kmpBytes tail m @ trailing"
    "length records < ncONCPMaximumInitialRecords" "length (concat (dataRecords records)) \<le> ncONCPMaximumInitialPending"
    "length first + length (concat (configurationRecords records)) \<le> ncONCPKMPHeaderSize + ncONCPMaximumKMPPayload"
  shows "\<exists>used unused c'. records = used @ unused \<and> readInitialConfiguration c = (c', Inr (kmpBytes tail m,
       concat (dataRecords used) @ drop (length (kmpBytes tail m)) (first @ concat (configurationRecords used)))) \<and>
     stream (oncpInput c') = concat (map recordBytes unused) @ rest"
proof -
  let ?r = "(oncpInput c)\<lparr>stream := concat (map recordBytes records) @ rest\<rparr>"
  have rd: "readRecord (oncpInput c) = (Inr (0 # first), ?r)" using assms(3,4) by (intro readRecord_frame) simp_all
  have s: "stream ?r = concat (map recordBytes records) @ rest" by simp
  obtain used unused where u: "records = used @ unused" "initialLoop ?r 1 first [] =
         (Inr (kmpBytes tail m, [] @ concat (dataRecords used) @
            drop (length (kmpBytes tail m)) (first @ concat (configurationRecords used))),
          ?r\<lparr>stream := concat (map recordBytes unused) @ rest\<rparr>)"
    using initialLoop_records [OF assms(1,2) s _ assms(5), of 1 "[]"] assms(4,6,7,8) by auto
  then have "readInitialConfiguration c = (c\<lparr>oncpInput := ?r\<lparr>stream := concat (map recordBytes unused) @ rest\<rparr>\<rparr>,
      Inr (kmpBytes tail m, concat (dataRecords used) @ drop (length (kmpBytes tail m)) (first @ concat (configurationRecords used))))"
    by (simp add: readInitialConfiguration_def rd)
  then show ?thesis using u(1) by (intro exI [of _ used] exI [of _ unused] exI) auto
qed

section \<open>Writing\<close>

lemma validPackets_records:
  "validPackets t payloads = (records, r) \<Longrightarrow> \<exists>n. records = map (\<lambda>p. recordBytes (kmpBytes ncONCPKMPTailOutgoing (t, p))) (take n payloads) \<and>
     list_all (\<lambda>p. length p + 20 \<le> 65535) (take n payloads) \<and>
     (if r = Inr () then n = length payloads else n < length payloads \<and> 65535 < length (payloads ! n) + 20)"
proof (induction t payloads arbitrary: records rule: validPackets.induct)
  case (2 t payload payloads)
  show ?case
  proof (cases "length payload + 20 \<le> 65535")
    case False
    with "2.prems" show ?thesis
      by (intro exI [of _ 0]) (auto simp: ncONCPMaximumKMPPayload_def ncONCPKMPHeaderSize_def split: if_split_asm)
  next
    case True
    then have small: "\<not> length payload > ncONCPMaximumKMPPayload" "\<not> ncONCPKMPHeaderSize + length payload > ncONCPMaximumKMPPayload"
      by (simp_all add: ncONCPMaximumKMPPayload_def ncONCPKMPHeaderSize_def)
    then obtain rs where v: "validPackets t payloads = (rs, r)" "records = kmpRecord t payload # rs"
      using "2.prems" by (auto split: prod.split_asm)
    obtain n where "rs = map (\<lambda>p. recordBytes (kmpBytes ncONCPKMPTailOutgoing (t, p))) (take n payloads)"
      "list_all (\<lambda>p. length p + 20 \<le> 65535) (take n payloads)"
      "if r = Inr () then n = length payloads else n < length payloads \<and> 65535 < length (payloads ! n) + 20"
      using "2.IH" [OF _ _ v(1)] small by blast
    moreover have "kmpRecord t payload = recordBytes (kmpBytes ncONCPKMPTailOutgoing (t, payload))"
      by (simp add: kmpRecord_def recordBytes_def kmpBytes_def length_kmpBytes ncONCPKMPHeaderSize_def)
    ultimately show ?thesis using True v(2) by (intro exI [of _ "Suc n"]) (auto split: if_split_asm)
  qed
qed simp

section \<open>Properties\<close>

text \<open>Reading messages from an oNCP connection gives back the messages the server sent, in order, with the old and
  the new constants, however the server cut their bytes into records and whatever was pending before; the bytes
  behind them stay readable.\<close>

theorem oncp_message_stream:
  assumes "list_all (\<lambda>(tail, m). good_message tail m) messages"
    "holding c (concat (map (\<lambda>(tail, m). kmpBytes tail m) messages) @ behind) rest"
  shows "\<exists>c'. readKMPs (length messages) c = (c', Inr (map snd messages)) \<and> holding c' behind rest"
  using assms by (rule readKMPs_holding)

theorem oncp_message_stream_witness:
  "\<exists>c'. readKMPs 2 \<lparr>oncpInput = \<lparr>stream = recordBytes (take 7 (kmpBytes ncONCPKMPTail (303, [9]))) @
          recordBytes (drop 7 (kmpBytes ncONCPKMPTail (303, [9])) @ kmpBytes (0 # drop 1 ncONCPKMPTail) (300, [4, 5]) @ [1]) @ [8],
        final = ioEOF\<rparr>, oncpOutput = (), pending = None\<rparr> = (c', Inr [(303, [9]), (300, [4, 5])]) \<and> holding c' [1] [8]"
proof -
  let ?a = "kmpBytes ncONCPKMPTail (303, [9])" and ?b = "kmpBytes (0 # drop 1 ncONCPKMPTail) (300, [4, 5])"
  let ?c = "\<lparr>oncpInput = \<lparr>stream = recordBytes (take 7 ?a) @ recordBytes (drop 7 ?a @ ?b @ [1]) @ [8],
        final = ioEOF\<rparr>, oncpOutput = (), pending = None\<rparr>"
  have "length ?a = 21" "length ?b = 22" by (simp_all add: length_kmpBytes)
  then have h: "holding ?c (concat (map (\<lambda>(tail, m). kmpBytes tail m)
      [(ncONCPKMPTail, 303, [9]), (0 # drop 1 ncONCPKMPTail, 300, [4, 5])]) @ [1]) [8]"
    unfolding holding_def
    by (intro exI [of _ "[take 7 ?a, drop 7 ?a @ ?b @ [1]]"]) (auto simp: good_record_def ncONCPMaximumKMPPayload_def simp flip: append_assoc)
  have g: "list_all (\<lambda>(tail, m). good_message tail m)
      [(ncONCPKMPTail, 303, [9]), (0 # drop 1 ncONCPKMPTail, 300, [4, 5])]"
    by (simp add: good_message_def ncONCPMaximumKMPPayload_def ncONCPKMPData_def)
  from oncp_message_stream [OF g h] show ?thesis by (simp add: numeral_2_eq_2)
qed

text \<open>The first configuration message is recognised however it is cut into records after the hostname response and
  however data records are mixed in between; the data records seen on the way are queued in order, followed by what the last
  configuration record held behind the message, and nothing further is read. So no byte is lost or read twice.\<close>

theorem oncp_initial_configuration:
  assumes "good_message tail m" "fst m = ncONCPKMPConfiguration"
    "stream (oncpInput c) = concat (map recordBytes ((0 # first) # records)) @ rest"
    "list_all good_record ((0 # first) # records)"
    "first @ concat (configurationRecords records) = kmpBytes tail m @ trailing"
    "length records < ncONCPMaximumInitialRecords" "length (concat (dataRecords records)) \<le> ncONCPMaximumInitialPending"
    "length first + length (concat (configurationRecords records)) \<le> ncONCPKMPHeaderSize + ncONCPMaximumKMPPayload"
  shows "\<exists>used unused c'. records = used @ unused \<and> readInitialConfiguration c = (c', Inr (kmpBytes tail m,
       concat (dataRecords used) @ drop (length (kmpBytes tail m)) (first @ concat (configurationRecords used)))) \<and>
     stream (oncpInput c') = concat (map recordBytes unused) @ rest"
  using assms by (rule readInitialConfiguration_records)

text \<open>An IPv4 packet of twenty bytes, as a data record.\<close>

definition sampleData :: bytes where "sampleData = kmpBytes ncONCPKMPTail (300, 0x45 # replicate 19 0)"

lemma sampleData_standalone: "isNCONCPStandaloneDataRecord sampleData" "length sampleData = 40"
proof -
  show l: "length sampleData = 40" by (simp add: sampleData_def length_kmpBytes)
  have "parseNCONCPKMPHeader (take 20 sampleData) False = Inr (300, 20)"
    unfolding sampleData_def by (subst parse_kmp_header) (simp_all add: ncONCPMaximumKMPPayload_def)
  moreover have "sampleData ! 20 = 0x45" by (simp add: sampleData_def kmpBytes_def nth_append)
  ultimately show "isNCONCPStandaloneDataRecord sampleData"
    by (simp add: isNCONCPStandaloneDataRecord_def l ncONCPKMPHeaderSize_def ncONCPKMPData_def)
qed

theorem oncp_initial_configuration_witness:
  "let msg = kmpBytes ncONCPKMPTail (301, [7]);
       c = \<lparr>oncpInput = \<lparr>stream = concat (map recordBytes [0 # take 9 msg, sampleData, drop 9 msg @ [3]]) @ [6], final = ioEOF\<rparr>,
            oncpOutput = (), pending = None\<rparr>
   in \<exists>c' queued. readInitialConfiguration c = (c', Inr (msg, queued))"
proof -
  let ?msg = "kmpBytes ncONCPKMPTail (301, [7])"
  let ?records = "[sampleData, drop 9 ?msg @ [3]]"
  let ?c = "\<lparr>oncpInput = \<lparr>stream = concat (map recordBytes [0 # take 9 ?msg, sampleData, drop 9 ?msg @ [3]]) @ [6], final = ioEOF\<rparr>,
            oncpOutput = (), pending = None\<rparr>"
  have l: "length ?msg = 21" by (simp add: length_kmpBytes)
  have "length (drop 9 ?msg @ [3]) = 13" by (simp add: l)
  then have n: "\<not> isNCONCPStandaloneDataRecord (drop 9 ?msg @ [3])"
    by (simp add: isNCONCPStandaloneDataRecord_def ncONCPKMPHeaderSize_def)
  have "sampleData \<noteq> []" using sampleData_standalone(2) by auto
  then have "\<exists>used unused c'. ?records = used @ unused \<and> readInitialConfiguration ?c = (c', Inr (?msg,
       concat (dataRecords used) @ drop (length ?msg) (take 9 ?msg @ concat (configurationRecords used)))) \<and>
     stream (oncpInput c') = concat (map recordBytes unused) @ [6]"
    using sampleData_standalone n l
    by (intro oncp_initial_configuration [where trailing = "[3]"])
      (auto simp: good_message_def good_record_def ncONCPKMPConfiguration_def ncONCPMaximumKMPPayload_def ncONCPMaximumInitialRecords_def
        ncONCPMaximumInitialPending_def ncONCPKMPHeaderSize_def simp flip: append_assoc)
  then show ?thesis by (auto simp: Let_def)
qed

text \<open>What \<open>writeKMPPacketBuffers\<close> puts out over a connection that keeps the contract of a writer are whole records, one
  message each, of exactly the packets before the first one that does not fit a record; an error without a failed write is
  reported exactly when there is such a packet.\<close>

theorem oncp_packets_written:
  assumes "honest_writer w out" "out (oncpOutput c) = []" "writeByteSequence w (oncpOutput c) (fst (validPackets t payloads)) = (s, Inr ())"
    "writeKMPPacketBuffers w c t payloads = (c', r)"
  shows "\<exists>n. oncp_record.dec_many n (out (oncpOutput c') @ rest) =
      Inr (map (\<lambda>p. kmpBytes ncONCPKMPTailOutgoing (t, p)) (take n payloads), rest) \<and> n \<le> length payloads \<and>
    list_all (\<lambda>p. parseNCONCPKMPHeader (take 20 (kmpBytes ncONCPKMPTailOutgoing (t, p))) True = Inr (t, length p)) (take n payloads) \<and>
    (if r = Inr () then n = length payloads else n < length payloads \<and> 65535 < length (payloads ! n) + 20)"
proof -
  obtain records e where v: "validPackets t payloads = (records, e)" by (cases "validPackets t payloads")
  obtain n where n: "records = map (\<lambda>p. recordBytes (kmpBytes ncONCPKMPTailOutgoing (t, p))) (take n payloads)"
    "list_all (\<lambda>p. length p + 20 \<le> 65535) (take n payloads)"
    "if e = Inr () then n = length payloads else n < length payloads \<and> 65535 < length (payloads ! n) + 20"
    using validPackets_records [OF v] by blast
  let ?ms = "map (\<lambda>p. kmpBytes ncONCPKMPTailOutgoing (t, p)) (take n payloads)"
  have "writeKMPPacketBuffers w c t payloads = (if records = [] then c else c\<lparr>oncpOutput := s\<rparr>, e)"
    using assms(3) unfolding writeKMPPacketBuffers_def v by simp
  then have c': "c' = (if records = [] then c else c\<lparr>oncpOutput := s\<rparr>)" and r: "r = e" using assms(4) by simp_all
  have "out s = concat records" using writeByteSequence_honest [OF assms(1,3)] assms(2) v by simp
  moreover have "concat records = concat (map recordBytes ?ms)" unfolding n(1) by (simp add: comp_def)
  ultimately have o: "out (oncpOutput c') = concat (map recordBytes ?ms)" using assms(2) n(1) by (cases "records = []") (auto simp: c')
  have "good_record (kmpBytes ncONCPKMPTailOutgoing (t, p))" if "length p + 20 \<le> 65535" for p
    using that length_kmpBytes [of ncONCPKMPTailOutgoing "(t, p)"] by (auto simp: good_record_def ncONCPMaximumKMPPayload_def)
  with n(2) have "list_all good_record ?ms" unfolding list_all_iff by auto
  from oncp_record.dec_many_enc [OF this, of rest] n(3) have "oncp_record.dec_many n (out (oncpOutput c') @ rest) = Inr (?ms, rest)"
    unfolding o by (simp split: if_split_asm)
  moreover have "list_all (\<lambda>p. parseNCONCPKMPHeader (take 20 (kmpBytes ncONCPKMPTailOutgoing (t, p))) True = Inr (t, length p)) (take n payloads)"
    unfolding list_all_iff
  proof
    fix p assume "p \<in> set (take n payloads)"
    then have "length p + 20 \<le> 65535" using n(2) by (simp add: list_all_iff)
    then show "parseNCONCPKMPHeader (take 20 (kmpBytes ncONCPKMPTailOutgoing (t, p))) True = Inr (t, length p)"
      using parse_kmp_header [of ncONCPKMPTailOutgoing "(t, p)" True] by (simp add: ncONCPMaximumKMPPayload_def)
  qed
  moreover have "n \<le> length payloads" using n(3) by (simp split: if_split_asm)
  ultimately show ?thesis using n(3) unfolding r by blast
qed

theorem oncp_packets_written_witness:
  "\<exists>n c'. writeKMPPacketBuffers collect \<lparr>oncpInput = \<lparr>stream = [], final = ioEOF\<rparr>, oncpOutput = [], pending = None\<rparr> 300 [[1], [2, 3]] = (c', Inr ()) \<and>
     oncp_record.dec_many n (oncpOutput c' @ [5]) = Inr (map (\<lambda>p. kmpBytes ncONCPKMPTailOutgoing (300, p)) [[1], [2, 3]], [5])"
proof -
  let ?c = "\<lparr>oncpInput = \<lparr>stream = [], final = ioEOF\<rparr>, oncpOutput = [] :: bytes, pending = None\<rparr>"
  have v: "validPackets 300 [[1], [2, 3]] = ([kmpRecord 300 [1], kmpRecord 300 [2, 3]], Inr ())"
    by (simp add: ncONCPMaximumKMPPayload_def ncONCPKMPHeaderSize_def)
  obtain s where w: "writeByteSequence collect (oncpOutput ?c) (fst (validPackets 300 [[1], [2, 3]])) = (s, Inr ())"
    unfolding v by (simp add: writeByteSequence_def collect_def)
  then have k: "writeKMPPacketBuffers collect ?c 300 [[1], [2, 3]] = (?c\<lparr>oncpOutput := s\<rparr>, Inr ())"
    unfolding writeKMPPacketBuffers_def v by simp
  have e: "id (oncpOutput ?c) = []" by simp
  from oncp_packets_written [OF collect_honest e w k, of "[5]"] obtain n
    where "n = Suc (Suc 0)" "oncp_record.dec_many n (oncpOutput (?c\<lparr>oncpOutput := s\<rparr>) @ [5]) =
      Inr (map (\<lambda>p. kmpBytes ncONCPKMPTailOutgoing (300, p)) (take n [[1], [2, 3]]), [5])" by (auto simp del: oncp_record.dec_many.simps)
  then show ?thesis using k by (auto simp del: oncp_record.dec_many.simps)
qed

end
