(* ===== verification/Netmask.thy ===== *)
theory Netmask
  imports Netip
begin

text \<open>
  The netmasks of \<^verbatim>\<open>net.IPMask\<close> and the prefix lengths they stand for, which the Network Connect and
  Pulse configurations use.
\<close>

section \<open>Definitions\<close>

text \<open>
  \<open>net.IPMask.Size\<close>: the number of leading ones and of bits, or zeros when the ones are not in one
  block. \<open>shiftOnes\<close> is the loop that shifts ones out of a byte; eight rounds empty it.
\<close>

fun shiftOnes :: "nat \<Rightarrow> byte \<Rightarrow> int \<times> byte" where
  "shiftOnes 0 v = (0, v)"
| "shiftOnes (Suc k) v = (if v AND 0x80 \<noteq> 0 then apfst ((+) 1) (shiftOnes k (push_bit 1 v)) else (0, v))"

fun simpleMaskLength :: "bytes \<Rightarrow> int \<Rightarrow> int" where
  "simpleMaskLength [] n = n"
| "simpleMaskLength (v # rest) n =
     (if v = 0xff then simpleMaskLength rest (n + 8)
      else case shiftOnes 8 v of (ones, v') \<Rightarrow>
        if v' \<noteq> 0 then -1 else if list_ex (\<lambda>b. b \<noteq> 0) rest then -1 else n + ones)"

definition IPMaskSize :: "bytes \<Rightarrow> int \<times> int" where
  "IPMaskSize m = (let ones = simpleMaskLength m 0 in if ones = -1 then (0, 0) else (ones, int (length m) * 8))"

text \<open>The netmask of a prefix of length \<open>k\<close>.\<close>

definition netmask :: "nat \<Rightarrow> bytes" where
  "netmask k = put_u32 (NOT (mask (32 - k)))"

definition netmaskBytes :: bytes where "netmaskBytes = [0, 0x80, 0xc0, 0xe0, 0xf0, 0xf8, 0xfc, 0xfe]"

lemma shiftOnes_byte: "snd (shiftOnes 8 v) = 0 \<Longrightarrow> v \<noteq> 0xff \<Longrightarrow> v \<in> set netmaskBytes"
proof -
  have all: "list_all (\<lambda>v. snd (shiftOnes 8 v) = 0 \<longrightarrow> v = 0xff \<or> v \<in> set netmaskBytes) (map word_of_nat [0..<256])"
    by code_simp
  have "v = word_of_nat (unat v)" by simp
  then have "v \<in> set (map word_of_nat [0..<256])"
    unfolding set_map by (rule image_eqI) simp
  then show "snd (shiftOnes 8 v) = 0 \<Longrightarrow> v \<noteq> 0xff \<Longrightarrow> v \<in> set netmaskBytes"
    using all unfolding list_all_iff by blast
qed

lemma netmask_lengths: "list_all (\<lambda>k. simpleMaskLength (netmask k) 0 = int k) [0..<33]"
  by code_simp

lemma netmask_all:
  "list_all (\<lambda>i. list_all (\<lambda>v. replicate i 0xff @ v # replicate (3 - i) 0 \<in> set (map netmask [0..<33])) netmaskBytes) [0..<4]"
  by code_simp

lemma simpleMaskLength_zero:
  "simpleMaskLength bs n \<noteq> -1 \<Longrightarrow> 0 \<le> n \<Longrightarrow> bs = replicate (length bs) 0xff \<or>
    (\<exists>i v. i < length bs \<and> v \<in> set netmaskBytes \<and> bs = replicate i 0xff @ v # replicate (length bs - 1 - i) 0)"
proof (induction bs n rule: simpleMaskLength.induct)
  case (2 v rest n)
  show ?case
  proof (cases "v = 0xff")
    case True
    with 2 have "rest = replicate (length rest) 0xff \<or>
      (\<exists>i v. i < length rest \<and> v \<in> set netmaskBytes \<and> rest = replicate i 0xff @ v # replicate (length rest - 1 - i) 0)" by simp
    then show ?thesis
    proof (elim disjE exE conjE)
      fix i v' assume "i < length rest" "v' \<in> set netmaskBytes" "rest = replicate i 0xff @ v' # replicate (length rest - 1 - i) 0"
      with True show ?thesis by (intro disjI2 exI [of _ "Suc i"] exI [of _ v']) simp
    qed (simp add: True)
  next
    case False
    with 2(2) have "snd (shiftOnes 8 v) = 0" "list_all (\<lambda>b. b = 0) rest"
      by (auto split: prod.split_asm if_split_asm simp: list_ex_iff list_all_iff)
    moreover have "rest = replicate (length rest) 0"
      using calculation(2) by (intro replicate_eqI) (auto simp: list_all_iff)
    ultimately have "v \<in> set netmaskBytes" "rest = replicate (length rest) 0" using shiftOnes_byte False by auto
    then show ?thesis by (intro disjI2 exI [of _ 0] exI [of _ v]) simp
  qed
qed simp

lemma IPMaskSize_netmask:
  assumes "length m = 4"
  shows "IPMaskSize m = (k, 32) \<longleftrightarrow> (\<exists>n \<le> 32. k = int n \<and> m = netmask n)"
proof
  assume "IPMaskSize m = (k, 32)"
  then have s: "simpleMaskLength m 0 = k" "simpleMaskLength m 0 \<noteq> -1"
    using assms by (auto simp: IPMaskSize_def Let_def split: if_split_asm)
  have "m \<in> set (map netmask [0..<33])"
    using simpleMaskLength_zero [OF s(2) order_refl]
  proof (elim disjE exE conjE)
    assume "m = replicate (length m) 0xff"
    moreover have "netmask 32 = replicate 4 0xff" by code_simp
    ultimately have "m = netmask 32" using assms by simp
    then show ?thesis by (auto intro: image_eqI [of _ _ 32])
  next
    fix i v assume "i < length m" "v \<in> set netmaskBytes" "m = replicate i 0xff @ v # replicate (length m - 1 - i) 0"
    then show ?thesis using netmask_all assms unfolding list_all_iff by auto
  qed
  then obtain n where "n < 33" "m = netmask n" by auto
  then show "\<exists>n \<le> 32. k = int n \<and> m = netmask n" using netmask_lengths s(1) by (auto simp: list_all_iff)
next
  assume "\<exists>n \<le> 32. k = int n \<and> m = netmask n"
  then show "IPMaskSize m = (k, 32)" using netmask_lengths by (auto simp: IPMaskSize_def Let_def list_all_iff netmask_def)
qed

end
