(* ===== verification/Go_Strings.thy ===== *)
theory Go_Strings
  imports Prelude
begin

text \<open>
  What the program uses of \<^verbatim>\<open>strings\<close> on byte strings. A Go string is its bytes; a value of type
  \<open>string\<close> has one character per byte.
\<close>

definition goString :: "bytes \<Rightarrow> string" where
  "goString bs = map (\<lambda>b. char_of (unat b)) bs"

text \<open>
  \<open>strings.TrimSpace\<close> removes white space as Unicode defines it from both ends: the encodings of
  the white space characters. A character that is cut off or encoded wrongly is not white space.
\<close>

definition spaces :: "bytes list" where
  "spaces = [[0x09], [0x0a], [0x0b], [0x0c], [0x0d], [0x20], [0xc2, 0x85], [0xc2, 0xa0], [0xe1, 0x9a, 0x80]] @
     map (\<lambda>n. [0xe2, 0x80, 0x80 + word_of_nat n]) [0..<11] @
     [[0xe2, 0x80, 0xa8], [0xe2, 0x80, 0xa9], [0xe2, 0x80, 0xaf], [0xe2, 0x81, 0x9f], [0xe3, 0x80, 0x80]]"

text \<open>Removes elements of a list of words from the front as long as one is there.\<close>

function trimPrefixes :: "bytes list \<Rightarrow> bytes \<Rightarrow> bytes" where
  "trimPrefixes ws bs =
     (case find (\<lambda>w. w \<noteq> [] \<and> take (length w) bs = w) ws of
        None \<Rightarrow> bs
      | Some w \<Rightarrow> trimPrefixes ws (drop (length w) bs))"
  by pat_completeness auto
termination
proof (relation "measure (\<lambda>(ws, bs). length bs)")
  fix ws and bs w :: bytes
  assume "find (\<lambda>w. w \<noteq> [] \<and> take (length w) bs = w) ws = Some w"
  then have "w \<noteq> []" "take (length w) bs = w" by (auto simp: find_Some_iff)
  then have "bs \<noteq> []" by auto
  with \<open>w \<noteq> []\<close> show "((ws, drop (length w) bs), ws, bs) \<in> measure (\<lambda>(ws, bs). length bs)" by simp
qed simp

declare trimPrefixes.simps [simp del]

definition TrimSpace :: "bytes \<Rightarrow> bytes" where
  "TrimSpace bs = rev (trimPrefixes (map rev spaces) (rev (trimPrefixes spaces bs)))"

end
