(* ===== verification/Esp_Exchange.thy ===== *)
theory Esp_Exchange
  imports Esp_Packet
begin

text \<open>
  What the ESP key exchanges of Network Connect and Pulse have in common (\<^verbatim>\<open>nc_oncp.go\<close>,
  \<^verbatim>\<open>pulse_config.go\<close>): the numbers of the algorithms, the block that holds the keys of one direction,
  and the client's draws of keys and of a security parameter index.
\<close>

section \<open>Definitions\<close>

definition espEncryptionOf :: "nat \<Rightarrow> espEncryption" where
  "espEncryptionOf n = (if n = 2 then espEncryptionAES128CBC else if n = 5 then espEncryptionAES256CBC else espEncryptionOther 0)"

definition espAuthenticationOf :: "nat \<Rightarrow> espAuthentication" where
  "espAuthenticationOf n =
     (if n = 1 then espAuthenticationHMACMD596 else if n = 2 then espAuthenticationHMACSHA196
      else if n = 3 then espAuthenticationHMACSHA256128 else espAuthenticationOther 0)"

text \<open>\<open>copy\<close> into a block of 64 zeros: the keys one after the other, cut off at its end.\<close>

definition espSecret :: "bytes \<Rightarrow> bytes \<Rightarrow> bytes" where
  "espSecret enc auth = take 64 (enc @ auth @ replicate 64 0)"

text \<open>The loop that draws a security parameter index other than zero.\<close>

fun drawSPI :: "bytes result list \<Rightarrow> (u32 result \<times> bytes result list) option" where
  "drawSPI [] = None"
| "drawSPI (Inl err # draws) = Some (Inl err, draws)"
| "drawSPI (Inr bs # draws) = (if get_u32 bs = 0 then drawSPI draws else Some (Inr (get_u32 bs), draws))"

text \<open>The client's keys and index: two draws, then the loop.\<close>

definition drawClientKeys :: "bytes result list \<Rightarrow> ((bytes \<times> bytes \<times> u32) result \<times> bytes result list) option" where
  "drawClientKeys draws =
     (case draws of
        Inl err # rest \<Rightarrow> Some (Inl err, rest)
      | Inr enc # Inl err # rest \<Rightarrow> Some (Inl err, rest)
      | Inr enc # Inr auth # rest \<Rightarrow> map_option (apfst (map_sum id (\<lambda>n. (enc, auth, n)))) (drawSPI rest)
      | _ \<Rightarrow> None)"

text \<open>The keys at the beginning of a block of secrets.\<close>

definition secretMaterial :: "espEncryption \<Rightarrow> espAuthentication \<Rightarrow> u32 \<Rightarrow> bytes \<Rightarrow> espKeyMaterial" where
  "secretMaterial e a n secret =
     (let el = encryptionKeyLength e; al = authenticationKeyLength a in
      \<lparr>SPI = n, EncryptionKey = take el secret, AuthenticationKey = subslice secret el (el + al)\<rparr>)"

section \<open>Key sets that mirror each other\<close>

lemma newESPSecurityAssociation_new:
  assumes "encryptionKeyLength e \<noteq> 0" "authenticationKeyLength a \<noteq> 0" "SPI m \<noteq> 0"
    "length (EncryptionKey m) = encryptionKeyLength e" "length (AuthenticationKey m) = authenticationKeyLength a"
  shows "newESPSecurityAssociation e a m out (Inr r) = Inr (zeroAssociation\<lparr>encryption := e, authentication := a,
     spi := SPI m, encryptionKey := EncryptionKey m, authenticationKey := AuthenticationKey m, valid := True,
     iv := (if out then r else replicate 16 0)\<rparr>)"
  using assms by (simp add: newESPSecurityAssociation_def Let_def zeroAssociation_def)

lemma newESPSecurityAssociation_checked:
  assumes "newESPSecurityAssociation e a m out r = Inr s"
  shows "encryptionKeyLength e \<noteq> 0" "authenticationKeyLength a \<noteq> 0" "SPI m \<noteq> 0"
    "length (EncryptionKey m) = encryptionKeyLength e" "length (AuthenticationKey m) = authenticationKeyLength a"
  using assms by (simp_all add: newESPSecurityAssociation_def split: if_split_asm)

text \<open>Two key sets whose configurations mirror each other are paired both ways.\<close>

lemma mirrored_paired:
  assumes "newESPKeySet config r = Inr s" "length (iv (outbound s)) = 16" "length r' = 16"
    "config' = \<lparr>Encryption = Encryption config, Authentication = Authentication config,
       Outbound = Inbound config, Inbound = Outbound config, DisableReplayProtection = d\<rparr>"
  shows "\<exists>s'. newESPKeySet config' (Inr r') = Inr s' \<and> paired s s' \<and> paired s' s"
proof -
  obtain out inb where o: "newESPSecurityAssociation (Encryption config) (Authentication config) (Outbound config) True r = Inr out"
    and i: "newESPSecurityAssociation (Encryption config) (Authentication config) (Inbound config) False r = Inr inb"
    and s: "outbound s = out" "currentInbound s = inb" "\<not> destroyed s"
    using assms(1) by (auto simp: newESPKeySet_def split: sum.split_asm)
  note co = newESPSecurityAssociation_checked [OF o] and ci = newESPSecurityAssociation_checked [OF i]
  obtain r0 where r: "r = Inr r0"
    using o co by (cases r) (auto simp: newESPSecurityAssociation_def Let_def)
  have eo: "out = zeroAssociation\<lparr>encryption := Encryption config, authentication := Authentication config, spi := SPI (Outbound config),
      encryptionKey := EncryptionKey (Outbound config), authenticationKey := AuthenticationKey (Outbound config), valid := True, iv := r0\<rparr>"
    using newESPSecurityAssociation_new [OF co, of True r0] o by (simp add: r)
  have ei: "inb = zeroAssociation\<lparr>encryption := Encryption config, authentication := Authentication config, spi := SPI (Inbound config),
      encryptionKey := EncryptionKey (Inbound config), authenticationKey := AuthenticationKey (Inbound config), valid := True,
      iv := replicate 16 0\<rparr>"
    using newESPSecurityAssociation_new [OF ci, of False r0] i by (simp add: r)
  note n = newESPSecurityAssociation_new [OF ci, of True r'] newESPSecurityAssociation_new [OF co, of False r']
  have "length r0 = 16" using assms(2) s(1) eo by simp
  then show ?thesis
    using s assms(3) co(2) unfolding newESPKeySet_def assms(4)
    by (simp add: n) (simp add: paired_def matches_def s eo ei zeroAssociation_def emptyWindow_def)
qed

lemma espSecret_keys:
  assumes "length enc = encryptionKeyLength e" "length auth = authenticationKeyLength a"
    "encryptionKeyLength e + authenticationKeyLength a \<le> 64"
  shows "secretMaterial e a n (espSecret enc auth) = \<lparr>SPI = n, EncryptionKey = enc, AuthenticationKey = auth\<rparr>"
    "length (espSecret enc auth) = 64"
  using assms by (simp_all add: secretMaterial_def espSecret_def subslice_def Let_def drop_take flip: assms(1,2))

lemma drawSPI_nonzero: "drawSPI draws = Some (Inr n, rest) \<Longrightarrow> n \<noteq> 0"
  by (induction draws rule: drawSPI.induct) (auto split: if_split_asm)

end
