(* ===== verification/Nc_Config.thy ===== *)
theory Nc_Config
  imports Nc_Oncp Netmask Go_Strings Tunnel_Config Esp_Exchange
begin

text \<open>
  The tunnel configuration and the ESP key exchange of Network Connect (\<^verbatim>\<open>nc_oncp.go\<close>): groups of
  attributes, what each attribute sets, the keys drawn for ESP and the messages that carry them.

  The draws of the random source are an argument; \<open>None\<close> means that they ran out before the loop
  that draws an index ended. The zero values of the algorithms are the unknown ones.
\<close>

section \<open>Definitions\<close>

definition second :: duration where "second = 1000000000"
definition ncONCPDefaultESPDPD :: duration where "ncONCPDefaultESPDPD = 60 * second"

record ncESPParameters =
  parEncryption :: espEncryption
  parAuthentication :: espAuthentication
  parCompression :: byte
  parReplayProtection :: bool
  parPort :: u16
  parDPD :: duration
  serverSPI :: u32
  serverSecret :: bytes

definition clearParameters :: ncESPParameters where
  "clearParameters = \<lparr>parEncryption = espEncryptionOther 0, parAuthentication = espAuthenticationOther 0,
     parCompression = 0, parReplayProtection = False, parPort = 0, parDPD = 0, serverSPI = 0, serverSecret = []\<rparr>"

text \<open>The address and port of \<open>remote\<close> are the arguments of \<open>M.ParseSocksaddrHostPort\<close>.\<close>

record ncESPConfiguration =
  ncRemote :: "addr \<times> u16"
  ncKeys :: espKeySet
  ncEncryption :: espEncryption
  ncAuthentication :: espAuthentication
  ncCompression :: bool
  ncReplayProtection :: bool
  ncPort :: u16
  ncDPD :: duration

record ncTunnelConfiguration =
  ncConfiguration :: TunnelConfiguration
  ncAssignedIPv4 :: addr
  ncESP :: "ncESPConfiguration option"

definition emptyNCTunnelConfiguration :: ncTunnelConfiguration where
  "emptyNCTunnelConfiguration = \<lparr>ncConfiguration = emptyTunnelConfiguration, ncAssignedIPv4 = NoAddr, ncESP = None\<rparr>"

text \<open>The configuration without ESP, and the destroyed keys it had.\<close>

definition destroyNCTunnelConfiguration :: "ncTunnelConfiguration \<Rightarrow> ncTunnelConfiguration \<times> espKeySet option" where
  "destroyNCTunnelConfiguration c = (c\<lparr>ncESP := None\<rparr>, map_option (\<lambda>e. destroyKeySet (ncKeys e)) (ncESP c))"

subsection \<open>Attributes\<close>

definition ncIPv4Attribute :: "bytes \<Rightarrow> addr result" where
  "ncIPv4Attribute content =
     (if length content \<noteq> 4 then Inl (New ''oNCP attribute has invalid length'') else Inr (Addr4 content))"

definition ncIPv4Prefix :: "addr \<Rightarrow> addr \<Rightarrow> prefix result" where
  "ncIPv4Prefix address maskAddress =
     (if \<not> Is4 address \<or> \<not> Is4 maskAddress then Inl (New ''oNCP IPv4 prefix has a non-IPv4 value'')
      else case IPMaskSize (As4 maskAddress) of (ones, bits) \<Rightarrow>
        if ones < 0 \<or> bits \<noteq> 32 then Inl (New ''oNCP IPv4 netmask is not contiguous'')
        else Inr (PrefixFrom address ones))"

definition ncIPv4Route :: "bytes \<Rightarrow> prefix result" where
  "ncIPv4Route content =
     (if length content \<noteq> 8 then Inl (New ''oNCP IPv4 route has invalid length'')
      else ncIPv4Prefix (Addr4 (take 4 content)) (Addr4 (drop 4 content)))"

text \<open>What the attributes accumulate.\<close>

record ncAttributes =
  accConfiguration :: TunnelConfiguration
  accESP :: ncESPParameters
  accIPv4 :: addr
  accNetmask :: addr

definition emptyNCAttributes :: ncAttributes where
  "emptyNCAttributes = \<lparr>accConfiguration = emptyTunnelConfiguration, accESP = clearParameters,
     accIPv4 = NoAddr, accNetmask = NoAddr\<rparr>"

text \<open>The groups one to six set the configuration, seven and eight the parameters of ESP.\<close>

definition applyTunnelAttribute :: "TunnelConfiguration \<Rightarrow> u16 \<Rightarrow> u16 \<Rightarrow> bytes \<Rightarrow> TunnelConfiguration result" where
  "applyTunnelAttribute c grp attribute content =
     (if grp = 2 \<and> attribute = 1 then
        map_sum id (\<lambda>a. c\<lparr>DNS := appendServer (DNS c) a\<rparr>) (ncIPv4Attribute content)
      else if grp = 2 \<and> attribute = 2 then
        (let domain = TrimSpace content in
         Inr (if domain \<noteq> [] then c\<lparr>SearchDomains := SearchDomains c @ [goString domain]\<rparr> else c))
      else if grp = 3 \<and> (attribute = 3 \<or> attribute = 4) then
        map_sum id (\<lambda>p. if attribute = 3 then c\<lparr>Routes := Routes c @ [prefixRoute p]\<rparr>
                        else c\<lparr>ExcludedRoutes := ExcludedRoutes c @ [prefixRoute p]\<rparr>) (ncIPv4Route content)
      else if grp = 4 \<and> attribute = 1 then
        map_sum id (\<lambda>a. c\<lparr>NBNS := appendServer (NBNS c) a\<rparr>) (ncIPv4Attribute content)
      else if grp = 6 \<and> attribute = 2 then
        if length content \<noteq> 4 then Inl (New ''oNCP MTU attribute has invalid length'')
        else Inr (c\<lparr>MTU := get_u32 content\<rparr>)
      else Inr c)"

definition applyESPAttribute :: "ncESPParameters \<Rightarrow> u16 \<Rightarrow> u16 \<Rightarrow> bytes \<Rightarrow> ncESPParameters result" where
  "applyESPAttribute p grp attribute content =
     (if grp = 7 \<and> attribute = 1 then
        if length content \<noteq> 4 then Inl (New ''ESP SPI attribute has invalid length'')
        else Inr (p\<lparr>serverSPI := get_u32 content\<rparr>)
      else if grp = 7 \<and> attribute = 2 then
        if length content \<noteq> 64 then Inl (New ''ESP secret attribute has invalid length'')
        else Inr (p\<lparr>serverSecret := content\<rparr>)
      else if grp = 8 \<and> attribute = 1 then
        if length content \<noteq> 1 then Inl (New ''ESP encryption attribute has invalid length'')
        else Inr (p\<lparr>parEncryption := espEncryptionOf (unat (content ! 0))\<rparr>)
      else if grp = 8 \<and> attribute = 2 then
        if length content \<noteq> 1 then Inl (New ''ESP authentication attribute has invalid length'')
        else Inr (p\<lparr>parAuthentication := espAuthenticationOf (unat (content ! 0))\<rparr>)
      else if grp = 8 \<and> attribute = 3 then
        if length content \<noteq> 1 then Inl (New ''ESP compression attribute has invalid length'')
        else Inr (p\<lparr>parCompression := content ! 0\<rparr>)
      else if grp = 8 \<and> attribute = 4 then
        if length content \<noteq> 2 then Inl (New ''ESP port attribute has invalid length'')
        else Inr (p\<lparr>parPort := get_u16 content\<rparr>)
      else if grp = 8 \<and> attribute = 9 then
        if length content \<noteq> 4 then Inl (New ''ESP fallback attribute has invalid length'')
        else Inr (p\<lparr>parDPD := uint (get_u32 content) * second\<rparr>)
      else if grp = 8 \<and> attribute = 10 then
        if length content \<noteq> 4 then Inl (New ''ESP replay protection attribute has invalid length'')
        else Inr (p\<lparr>parReplayProtection := (get_u32 content \<noteq> 0)\<rparr>)
      else Inr p)"

definition applyNCONCPConfigurationAttribute :: "u16 \<Rightarrow> u16 \<Rightarrow> bytes \<Rightarrow> ncAttributes \<Rightarrow> ncAttributes result" where
  "applyNCONCPConfigurationAttribute grp attribute content a =
     (if grp = 1 \<and> attribute = 1 then map_sum id (\<lambda>x. a\<lparr>accIPv4 := x\<rparr>) (ncIPv4Attribute content)
      else if grp = 1 \<and> attribute = 2 then map_sum id (\<lambda>x. a\<lparr>accNetmask := x\<rparr>) (ncIPv4Attribute content)
      else if grp = 7 \<or> grp = 8 then
        map_sum id (\<lambda>p. a\<lparr>accESP := p\<rparr>) (applyESPAttribute (accESP a) grp attribute content)
      else map_sum id (\<lambda>c. a\<lparr>accConfiguration := c\<rparr>) (applyTunnelAttribute (accConfiguration a) grp attribute content))"

subsection \<open>Groups\<close>

text \<open>
  The inner and the outer loop; \<open>what\<close> begins the error messages of both callers, \<open>groupError\<close> is the
  message for a group, and \<open>allowed\<close> the test of the group that only the ESP message makes.
\<close>

function ncAttributeLoop :: "string \<Rightarrow> u16 \<Rightarrow> bytes \<Rightarrow> ncAttributes \<Rightarrow> ncAttributes result" where
  "ncAttributeLoop what grp content a =
     (if content = [] then Inr a
      else if length content < 6 then Inl (markTerminal (New (what @ '' has a truncated attribute'')))
      else
        let attribute = get_u16 (take 2 content); attributeLength = unat (get_u32 (subslice content 2 6)) in
        if attributeLength > length content - 6 then Inl (markTerminal (New (what @ '' attribute length is invalid'')))
        else case applyNCONCPConfigurationAttribute grp attribute (subslice content 6 (6 + attributeLength)) a of
          Inl err \<Rightarrow> Inl (markTerminal err)
        | Inr a' \<Rightarrow> ncAttributeLoop what grp (drop (6 + attributeLength) content) a')"
  by pat_completeness auto
termination
  by (relation "measure (\<lambda>(what, grp, content, a). length content)") auto

declare ncAttributeLoop.simps [simp del]

function ncGroupLoop :: "string \<Rightarrow> string \<Rightarrow> (u16 \<Rightarrow> bool) \<Rightarrow> bytes \<Rightarrow> ncAttributes \<Rightarrow> ncAttributes result" where
  "ncGroupLoop what groupError allowed payload a =
     (if payload = [] then Inr a
      else if length payload < 6 then Inl (markTerminal (New (what @ '' has a truncated group'')))
      else
        let grp = get_u16 (take 2 payload); groupLength = unat (get_u32 (subslice payload 2 6)) in
        if \<not> allowed grp \<or> groupLength > length payload - 6
        then Inl (markTerminal (New groupError))
        else case ncAttributeLoop what grp (subslice payload 6 (6 + groupLength)) a of
          Inl err \<Rightarrow> Inl err
        | Inr a' \<Rightarrow> ncGroupLoop what groupError allowed (drop (6 + groupLength) payload) a')"
  by pat_completeness auto
termination
  by (relation "measure (\<lambda>(what, groupError, allowed, payload, a). length payload)") auto

declare ncGroupLoop.simps [simp del]

definition parseNCONCPConfigurationPayload :: "bytes \<Rightarrow> (ncTunnelConfiguration \<times> ncESPParameters) result" where
  "parseNCONCPConfigurationPayload payload =
     (case ncGroupLoop ''oNCP configuration'' ''oNCP configuration group length is invalid'' (\<lambda>_. True) payload emptyNCAttributes of
        Inl err \<Rightarrow> Inl err
      | Inr a \<Rightarrow>
          if \<not> addrValid (accIPv4 a) \<or> \<not> addrValid (accNetmask a) \<or> MTU (accConfiguration a) < 576 \<or> MTU (accConfiguration a) > 65535
          then Inl (markTerminal (New ''oNCP server returned insufficient IPv4 tunnel configuration''))
          else case ncIPv4Prefix (accIPv4 a) (accNetmask a) of
            Inl err \<Rightarrow> Inl (markTerminal err)
          | Inr p \<Rightarrow> Inr (\<lparr>ncConfiguration = (accConfiguration a)\<lparr>Addresses := [p]\<rparr>, ncAssignedIPv4 = accIPv4 a, ncESP = None\<rparr>,
                          accESP a))"

definition parseNCONCPESPParameters :: "bytes \<Rightarrow> ncESPParameters \<Rightarrow> ncESPParameters result" where
  "parseNCONCPESPParameters payload parameters =
     map_sum id accESP
       (ncGroupLoop ''ESP KMP 302'' ''ESP KMP 302 group is invalid'' (\<lambda>grp. grp = 7 \<or> grp = 8) payload (emptyNCAttributes\<lparr>accESP := parameters\<rparr>))"

subsection \<open>Messages\<close>

definition encodeNCONCPMTUControlPayload :: "u32 \<Rightarrow> bytes" where
  "encodeNCONCPMTUControlPayload mtu = encodeNCONCPTLV 6 (encodeNCONCPTLV 2 (put_u32 mtu))"

definition encodeNCONCPESPControl :: "bool \<Rightarrow> bytes result" where
  "encodeNCONCPESPControl enable =
     encodeNCONCPKMP ncONCPKMPControl (encodeNCONCPTLV 6 (encodeNCONCPTLV 1 [if enable then 1 else 0]))"

definition encodeNCONCPESPResponse :: "u32 \<Rightarrow> bytes \<Rightarrow> bytes \<Rightarrow> bytes result" where
  "encodeNCONCPESPResponse clientSPI enc auth =
     encodeNCONCPKMP ncONCPKMPESP (encodeNCONCPTLV 7
       (encodeNCONCPTLV 1 (put_u32 clientSPI) @ encodeNCONCPTLV 2 (espSecret enc auth)))"

subsection \<open>Keys\<close>

definition buildNCONCPESPKeyConfiguration ::
  "ncESPParameters \<Rightarrow> bytes result list \<Rightarrow> ((espKeySetConfig \<times> bytes) result \<times> bytes result list) option" where
  "buildNCONCPESPKeyConfiguration p draws =
     (let el = encryptionKeyLength (parEncryption p); al = authenticationKeyLength (parAuthentication p) in
      if el = 0 \<or> al = 0 \<or> parPort p = 0 \<or> serverSPI p = 0 \<or> length (serverSecret p) \<noteq> 64
      then Some (Inl (New ''ESP parameters are incomplete or use unknown algorithms''), draws)
      else if parCompression p > 1 then Some (Inl (Extend (Sentinel ErrProtocolNotSupported) ''ESP compression type''), draws)
      else if el + al > length (serverSecret p) then Some (Inl (New ''ESP secret block is too short''), draws)
      else case drawClientKeys draws of
        None \<Rightarrow> None
      | Some (Inl err, rest) \<Rightarrow> Some (Inl (Cause err ''generate Network Connect ESP client keys''), rest)
      | Some (Inr (enc, auth, clientSPI), rest) \<Rightarrow>
          (case encodeNCONCPESPResponse clientSPI enc auth of
             Inl err \<Rightarrow> Some (Inl err, rest)
           | Inr response \<Rightarrow> Some (Inr (\<lparr>Encryption = parEncryption p, Authentication = parAuthentication p,
               Outbound = secretMaterial (parEncryption p) (parAuthentication p) (serverSPI p) (serverSecret p),
               Inbound = \<lparr>SPI = clientSPI, EncryptionKey = enc, AuthenticationKey = auth\<rparr>,
               DisableReplayProtection = \<not> parReplayProtection p\<rparr>, response), rest)))"

definition prepareNCONCPESP ::
  "addr \<Rightarrow> ncESPParameters \<Rightarrow> bytes result list \<Rightarrow> (ncESPConfiguration \<times> bytes) result option" where
  "prepareNCONCPESP acceptedAddress p draws =
     (case buildNCONCPESPKeyConfiguration p draws of
        None \<Rightarrow> None
      | Some (Inl err, rest) \<Rightarrow> Some (Inl err)
      | Some (Inr (keyConfiguration, response), []) \<Rightarrow> None
      | Some (Inr (keyConfiguration, response), random # rest) \<Rightarrow>
          (case newESPKeySet keyConfiguration random of
             Inl err \<Rightarrow> Some (Inl err)
           | Inr keys \<Rightarrow> Some (Inr (\<lparr>ncRemote = (acceptedAddress, parPort p), ncKeys = keys, ncEncryption = parEncryption p,
               ncAuthentication = parAuthentication p, ncCompression = (parCompression p = 1),
               ncReplayProtection = parReplayProtection p, ncPort = parPort p,
               ncDPD = (if parDPD p \<le> 0 then ncONCPDefaultESPDPD else parDPD p)\<rparr>, response))))"

text \<open>The options of the client that the function reads are arguments.\<close>

definition parseNCONCPInitialConfiguration ::
  "bool \<Rightarrow> bool \<Rightarrow> duration \<Rightarrow> addr \<Rightarrow> bytes \<Rightarrow> bytes result list \<Rightarrow> (ncTunnelConfiguration \<times> bytes) result option" where
  "parseNCONCPInitialConfiguration ipv6Disabled noUDP dpdInterval acceptedAddress message draws =
     (case parseNCONCPKMPHeader message False of
        Inl err \<Rightarrow> Some (Inl err)
      | Inr (messageType, payloadLength) \<Rightarrow>
          if messageType \<noteq> ncONCPKMPConfiguration \<or> int payloadLength \<noteq> int (length message) - int ncONCPKMPHeaderSize
          then Some (Inl (markTerminal (New ''oNCP initial KMP 301 length is invalid'')))
          else case parseNCONCPConfigurationPayload (drop ncONCPKMPHeaderSize message) of
            Inl err \<Rightarrow> Some (Inl err)
          | Inr (configuration, parameters) \<Rightarrow>
              let tunnel = normalizeTunnelConfiguration
                    ((ncConfiguration configuration)\<lparr>RemoteAddress := Unmap acceptedAddress\<rparr>) ipv6Disabled;
                  configuration = configuration\<lparr>ncConfiguration := tunnel\<rparr>
              in case encodeNCONCPKMP ncONCPKMPControl (encodeNCONCPMTUControlPayload (MTU tunnel)) of
                   Inl err \<Rightarrow> Some (Inl err)
                 | Inr response \<Rightarrow>
                     if \<not> noUDP \<and> Is4 acceptedAddress then
                       (case prepareNCONCPESP acceptedAddress parameters draws of
                          None \<Rightarrow> None
                        | Some (Inl err) \<Rightarrow> Some (Inr (configuration, response))
                        | Some (Inr (esp, espResponse)) \<Rightarrow>
                            Some (Inr (configuration\<lparr>ncESP := Some (esp\<lparr>ncDPD := (if dpdInterval > 0 then dpdInterval else ncDPD esp)\<rparr>)\<rparr>,
                                       response @ espResponse)))
                     else Some (Inr (configuration, response)))"

section \<open>Attributes and groups as they are encoded\<close>

lemma get_encodeNCONCPTLV:
  assumes "length content < 4294967296" "bs = encodeNCONCPTLV key content @ rest"
  shows "length bs = 6 + length content + length rest" "get_u16 (take 2 bs) = key" "unat (get_u32 (subslice bs 2 6)) = length content"
    "subslice bs 6 (6 + length content) = content" "drop (6 + length content) bs = rest"
  using assms by (simp_all add: encodeNCONCPTLV_def subslice_def unat_u32_of)

definition takeTLV :: "bytes \<Rightarrow> ((u16 \<times> bytes) \<times> bytes) result" where
  "takeTLV bs =
     (if length bs < 6 then Inl (New ''truncated'')
      else let n = unat (get_u32 (subslice bs 2 6)) in
        if n > length bs - 6 then Inl (New ''invalid length'')
        else Inr ((get_u16 (take 2 bs), subslice bs 6 (6 + n)), drop (6 + n) bs))"

interpretation nc_tlv: record_format "\<lambda>(key, content). length content < 4294967296" "\<lambda>(key, content). encodeNCONCPTLV key content" takeTLV
proof
  fix m :: "u16 \<times> bytes" and rest
  assume "case m of (key, content) \<Rightarrow> length content < 4294967296"
  then obtain k c where m: "m = (k, c)" and c: "length c < 4294967296" by (cases m) auto
  define bs where "bs = encodeNCONCPTLV k c @ rest"
  have "takeTLV bs = Inr (m, rest)"
    using get_encodeNCONCPTLV [OF c bs_def] by (simp add: takeTLV_def m Let_def)
  then show "takeTLV ((case m of (key, content) \<Rightarrow> encodeNCONCPTLV key content) @ rest) = Inr (m, rest)"
    by (simp add: m bs_def)
qed

text \<open>Attributes in the order in which they come.\<close>

fun applyAttributes :: "u16 \<Rightarrow> (u16 \<times> bytes) list \<Rightarrow> ncAttributes \<Rightarrow> ncAttributes result" where
  "applyAttributes grp [] a = Inr a"
| "applyAttributes grp ((attribute, content) # as) a =
     (case applyNCONCPConfigurationAttribute grp attribute content a of
        Inl err \<Rightarrow> Inl (markTerminal err)
      | Inr a' \<Rightarrow> applyAttributes grp as a')"

fun applyGroups :: "(u16 \<times> (u16 \<times> bytes) list) list \<Rightarrow> ncAttributes \<Rightarrow> ncAttributes result" where
  "applyGroups [] a = Inr a"
| "applyGroups ((grp, as) # gs) a = (case applyAttributes grp as a of Inl err \<Rightarrow> Inl err | Inr a' \<Rightarrow> applyGroups gs a')"

definition encodeAttributes :: "(u16 \<times> bytes) list \<Rightarrow> bytes" where
  "encodeAttributes as = concat (map (\<lambda>(attribute, content). encodeNCONCPTLV attribute content) as)"

definition encodeGroups :: "(u16 \<times> (u16 \<times> bytes) list) list \<Rightarrow> bytes" where
  "encodeGroups gs = concat (map (\<lambda>(grp, as). encodeNCONCPTLV grp (encodeAttributes as)) gs)"

lemma ncAttributeLoop_encoded:
  "list_all (\<lambda>(k, x). length x < 4294967296) as \<Longrightarrow> ncAttributeLoop what grp (encodeAttributes as) a = applyAttributes grp as a"
proof (induction as arbitrary: a)
  case Nil
  show ?case by (simp add: ncAttributeLoop.simps encodeAttributes_def)
next
  case (Cons x as)
  obtain k c where x: "x = (k, c)" by (cases x)
  define bs where "bs = encodeNCONCPTLV k c @ encodeAttributes as"
  have e: "encodeAttributes (x # as) = bs" by (simp add: encodeAttributes_def bs_def x)
  have c: "length c < 4294967296" using Cons.prems by (simp add: x)
  note f = get_encodeNCONCPTLV [OF c bs_def]
  have "bs \<noteq> []" using f(1) by auto
  then show ?case
    using f Cons unfolding e ncAttributeLoop.simps [of what grp bs a] by (simp add: x Let_def split: sum.split)
qed

lemma ncGroupLoop_encoded:
  "list_all (\<lambda>(grp, as). allowed grp \<and> list_all (\<lambda>(k, x). length x < 4294967296) as \<and> length (encodeAttributes as) < 4294967296) gs \<Longrightarrow>
     ncGroupLoop what groupError allowed (encodeGroups gs) a = applyGroups gs a"
proof (induction gs arbitrary: a)
  case Nil
  show ?case by (simp add: ncGroupLoop.simps encodeGroups_def)
next
  case (Cons x gs)
  obtain g as where x: "x = (g, as)" by (cases x)
  define bs where "bs = encodeNCONCPTLV g (encodeAttributes as) @ encodeGroups gs"
  have e: "encodeGroups (x # gs) = bs" by (simp add: encodeGroups_def bs_def x)
  have c: "length (encodeAttributes as) < 4294967296" using Cons.prems by (simp add: x)
  note f = get_encodeNCONCPTLV [OF c bs_def]
  have "bs \<noteq> []" using f(1) by auto
  then show ?case
    using f Cons unfolding e ncGroupLoop.simps [of what groupError allowed bs a]
    by (simp add: x Let_def ncAttributeLoop_encoded split: sum.split)
qed

section \<open>Well-formed configurations\<close>

definition wf_tunnel :: "TunnelConfiguration \<Rightarrow> bool" where
  "wf_tunnel c \<longleftrightarrow>
     list_all wf_address4 (DNS c) \<and> length (DNS c) \<le> 3 \<and> list_all wf_address4 (NBNS c) \<and> length (NBNS c) \<le> 3 \<and>
     list_all wf_route4 (Routes c) \<and> list_all wf_route4 (ExcludedRoutes c) \<and> Addresses c = [] \<and> [] \<notin> set (SearchDomains c) \<and>
     SplitDNSRules c = [] \<and> \<not> defaultIPv4RouteSuppressed c"

definition wf_attributes :: "ncAttributes \<Rightarrow> bool" where
  "wf_attributes a \<longleftrightarrow>
     (accIPv4 a = NoAddr \<or> wf_address4 (accIPv4 a)) \<and> (accNetmask a = NoAddr \<or> wf_address4 (accNetmask a)) \<and>
     wf_tunnel (accConfiguration a) \<and> length (serverSecret (accESP a)) \<in> {0, 64}"

lemma ncIPv4Prefix_netmask:
  assumes "wf_address4 address" "wf_address4 (Addr4 m)"
  shows "ncIPv4Prefix address (Addr4 m) = Inr p \<longleftrightarrow> (\<exists>k \<le> 32. m = netmask k \<and> p = PrefixFrom address (int k))"
proof -
  obtain ones bits where s: "IPMaskSize m = (ones, bits)" by (cases "IPMaskSize m")
  have m: "length m = 4" using assms(2) by (simp add: wf_address4_def)
  have "ncIPv4Prefix address (Addr4 m) = Inr p \<longleftrightarrow> 0 \<le> ones \<and> bits = 32 \<and> p = PrefixFrom address ones"
    using assms(1) by (auto simp: ncIPv4Prefix_def s wf_address4_def)
  also have "\<dots> \<longleftrightarrow> (\<exists>k \<le> 32. m = netmask k \<and> p = PrefixFrom address (int k))"
  proof
    assume "0 \<le> ones \<and> bits = 32 \<and> p = PrefixFrom address ones"
    then show "\<exists>k \<le> 32. m = netmask k \<and> p = PrefixFrom address (int k)" using IPMaskSize_netmask [OF m, of ones] s by auto
  next
    assume "\<exists>k \<le> 32. m = netmask k \<and> p = PrefixFrom address (int k)"
    then obtain k where k: "k \<le> 32" "m = netmask k" "p = PrefixFrom address (int k)" by blast
    then have "IPMaskSize m = (int k, 32)" using IPMaskSize_netmask [OF m, of "int k"] by blast
    then show "0 \<le> ones \<and> bits = 32 \<and> p = PrefixFrom address ones" using s k(3) by simp
  qed
  finally show ?thesis .
qed

lemma ncIPv4Route_wf: "ncIPv4Route content = Inr p \<Longrightarrow> wf_route4 (prefixRoute p)"
proof -
  assume a: "ncIPv4Route content = Inr p"
  then have l: "length content = 8" by (simp add: ncIPv4Route_def split: if_split_asm)
  then have w: "wf_address4 (Addr4 (take 4 content))" "wf_address4 (Addr4 (drop 4 content))" by (simp_all add: wf_address4_def)
  from a l have "ncIPv4Prefix (Addr4 (take 4 content)) (Addr4 (drop 4 content)) = Inr p" by (simp add: ncIPv4Route_def)
  then show ?thesis unfolding ncIPv4Prefix_netmask [OF w] using wf_prefix4 [OF w(1)] by auto
qed

lemma ncIPv4Attribute_wf: "ensures wf_address4 (ncIPv4Attribute content)"
  by (simp add: ensures_def ncIPv4Attribute_def wf_address4_def)

lemma wf_tunnel_updates:
  assumes "wf_tunnel c"
  shows "wf_address4 a \<Longrightarrow> wf_tunnel (c\<lparr>DNS := appendServer (DNS c) a\<rparr>)"
    "wf_address4 a \<Longrightarrow> wf_tunnel (c\<lparr>NBNS := appendServer (NBNS c) a\<rparr>)"
    "wf_route4 r \<Longrightarrow> wf_tunnel (c\<lparr>Routes := Routes c @ [r]\<rparr>)"
    "wf_route4 r \<Longrightarrow> wf_tunnel (c\<lparr>ExcludedRoutes := ExcludedRoutes c @ [r]\<rparr>)"
    "d \<noteq> [] \<Longrightarrow> wf_tunnel (c\<lparr>SearchDomains := SearchDomains c @ [d]\<rparr>)"
    "wf_tunnel (c\<lparr>MTU := m\<rparr>)"
  using assms appendServer_wf by (simp_all add: wf_tunnel_def)

lemma goString_nonempty [simp]: "goString bs = [] \<longleftrightarrow> bs = []"
  by (simp add: goString_def)

lemma applyTunnelAttribute_wf: "wf_tunnel c \<Longrightarrow> ensures wf_tunnel (applyTunnelAttribute c grp attribute content)"
  unfolding applyTunnelAttribute_def Let_def
  by (intro ensures_intros ensures_map_sum [OF ncIPv4Attribute_wf] ensures_map_sum [where P = "\<lambda>p. wf_route4 (prefixRoute p)"] ensuresI)
    (auto intro!: wf_tunnel_updates dest: ncIPv4Route_wf)

lemma applyESPAttribute_secret:
  "length (serverSecret p) \<in> {0, 64} \<Longrightarrow> ensures (\<lambda>p. length (serverSecret p) \<in> {0, 64}) (applyESPAttribute p grp attribute content)"
  unfolding applyESPAttribute_def by (intro ensures_intros) simp_all

lemma applyAttribute_wf:
  assumes "wf_attributes a"
  shows "ensures wf_attributes (applyNCONCPConfigurationAttribute grp attribute content a)"
proof -
  have t: "wf_tunnel (accConfiguration a)" and e: "length (serverSecret (accESP a)) \<in> {0, 64}"
    using assms by (simp_all add: wf_attributes_def)
  show ?thesis
    unfolding applyNCONCPConfigurationAttribute_def
    by (intro ensures_if ensures_map_sum [OF ncIPv4Attribute_wf] ensures_map_sum [OF applyESPAttribute_secret [OF e]]
        ensures_map_sum [OF applyTunnelAttribute_wf [OF t]])
      (use assms in \<open>simp_all add: wf_attributes_def\<close>)
qed

lemma ncAttributeLoop_wf: "wf_attributes a \<Longrightarrow> ensures wf_attributes (ncAttributeLoop what grp content a)"
proof (induction what grp content a rule: ncAttributeLoop.induct)
  case (1 what grp content a)
  let ?n = "unat (get_u32 (subslice content 2 6))"
  let ?r = "applyNCONCPConfigurationAttribute grp (get_u16 (take 2 content)) (subslice content 6 (6 + ?n)) a"
  show ?case
  proof (cases "content \<noteq> [] \<and> \<not> length content < 6 \<and> \<not> ?n > length content - 6")
    case False
    then show ?thesis unfolding ncAttributeLoop.simps [of what grp content a] Let_def
      using 1(2) by (intro ensures_intros) auto
  next
    case True
    have "ensures wf_attributes (case ?r of Inl err \<Rightarrow> Inl (markTerminal err)
        | Inr a' \<Rightarrow> ncAttributeLoop what grp (drop (6 + ?n) content) a')"
      using 1(1) [OF _ _ refl refl] True applyAttribute_wf [OF 1(2)] by (cases ?r) (auto simp: ensures_def)
    then show ?thesis using True unfolding ncAttributeLoop.simps [of what grp content a] Let_def by simp
  qed
qed

lemma ncGroupLoop_wf: "wf_attributes a \<Longrightarrow> ensures wf_attributes (ncGroupLoop what groupError allowed payload a)"
proof (induction what groupError allowed payload a rule: ncGroupLoop.induct)
  case (1 what groupError allowed payload a)
  let ?n = "unat (get_u32 (subslice payload 2 6))" and ?g = "get_u16 (take 2 payload)"
  let ?r = "ncAttributeLoop what ?g (subslice payload 6 (6 + ?n)) a"
  show ?case
  proof (cases "payload \<noteq> [] \<and> \<not> length payload < 6 \<and> \<not> (\<not> allowed ?g \<or> ?n > length payload - 6)")
    case False
    then show ?thesis unfolding ncGroupLoop.simps [of what groupError allowed payload a] Let_def
      using 1(2) by (intro ensures_intros) auto
  next
    case True
    have "ensures wf_attributes (case ?r of Inl err \<Rightarrow> Inl err
        | Inr a' \<Rightarrow> ncGroupLoop what groupError allowed (drop (6 + ?n) payload) a')"
      using 1(1) [OF _ _ refl refl] True ncAttributeLoop_wf [OF 1(2)] by (cases ?r) (auto simp: ensures_def)
    then show ?thesis using True unfolding ncGroupLoop.simps [of what groupError allowed payload a] Let_def by simp
  qed
qed

lemma emptyNCAttributes_wf: "wf_attributes emptyNCAttributes"
  by (simp add: wf_attributes_def wf_tunnel_def emptyNCAttributes_def emptyTunnelConfiguration_def clearParameters_def)

lemma normalize_ipv4:
  assumes "wf_tunnel c" "wf_address4 (prefixAddr p)"
  shows "normalizeTunnelConfiguration (c\<lparr>Addresses := [p], RemoteAddress := r\<rparr>) d =
    c\<lparr>Addresses := [p], RemoteAddress := r, Routes := (if Routes c = [] then [defaultRoute IPv4Unspecified] else Routes c)\<rparr>"
proof -
  let ?c = "c\<lparr>Addresses := [p], RemoteAddress := r\<rparr>"
  have w: "list_all wf_route4 (Routes c)" "list_all wf_route4 (ExcludedRoutes c)" "list_all wf_address4 (DNS c)" "list_all wf_address4 (NBNS c)"
    "SplitDNSRules c = []" "\<not> defaultIPv4RouteSuppressed c"
    using assms(1) by (simp_all add: wf_tunnel_def)
  have "\<forall>a \<in> mentions ?c. \<not> Is6 a"
    using w assms(2) wf_address4_family(2) by (auto simp: mentions_def list_all_iff wf_route4_def)
  then have "withoutIPv6 ?c = ?c" using w(5) by (intro withoutIPv6_id) auto
  then have n: "normalizeTunnelConfiguration ?c d = normalizeTunnelConfiguration ?c False" by (subst normalize_base) simp
  have h4: "hasIPv4 (map (\<lambda>r. prefixAddr (Prefix r)) (Routes c)) \<longleftrightarrow> Routes c \<noteq> []"
    using w(1) wf_address4_family(1) by (cases "Routes c") (auto simp: hasIPv4_def wf_route4_def)
  show ?thesis
    unfolding n using h4 wf_address4_family [OF assms(2)] w(6)
    by (simp add: normalizeTunnelConfiguration_def hasIPv4_def hasIPv6_def Let_def)
qed

lemma parseNCONCPConfigurationPayload_wf:
  assumes "parseNCONCPConfigurationPayload payload = Inr (c, q)"
  shows "\<exists>t k. wf_tunnel t \<and> k \<le> 32 \<and> wf_address4 (ncAssignedIPv4 c) \<and> 576 \<le> unat (MTU t) \<and> unat (MTU t) \<le> 65535 \<and>
    ncConfiguration c = t\<lparr>Addresses := [PrefixFrom (ncAssignedIPv4 c) (int k)]\<rparr> \<and> ncESP c = None \<and> length (serverSecret q) \<in> {0, 64}"
proof -
  obtain a p where g: "ncGroupLoop ''oNCP configuration'' ''oNCP configuration group length is invalid'' (\<lambda>_. True) payload emptyNCAttributes = Inr a"
    and v: "addrValid (accIPv4 a)" "addrValid (accNetmask a)" "\<not> MTU (accConfiguration a) < 576" "\<not> MTU (accConfiguration a) > 65535"
    and p: "ncIPv4Prefix (accIPv4 a) (accNetmask a) = Inr p"
    and c: "c = \<lparr>ncConfiguration = (accConfiguration a)\<lparr>Addresses := [p]\<rparr>, ncAssignedIPv4 = accIPv4 a, ncESP = None\<rparr>" and q: "q = accESP a"
    using assms unfolding parseNCONCPConfigurationPayload_def by (auto split: sum.split_asm if_split_asm)
  have w: "wf_attributes a" using ncGroupLoop_wf [OF emptyNCAttributes_wf] g by (rule ensuresD)
  then have w4: "wf_address4 (accIPv4 a)" "wf_address4 (accNetmask a)" using v by (auto simp: wf_attributes_def addrValid_def)
  then obtain m where m: "accNetmask a = Addr4 m" by (auto simp: wf_address4_def Is4_cases)
  obtain k where "k \<le> 32" "p = PrefixFrom (accIPv4 a) (int k)"
    using p w4 ncIPv4Prefix_netmask [of "accIPv4 a" m p] by (auto simp: m)
  moreover have "576 \<le> unat (MTU (accConfiguration a))" "unat (MTU (accConfiguration a)) \<le> 65535"
    using v(3,4) by (simp_all add: word_less_nat_alt)
  ultimately show ?thesis
    using w w4(1) by (intro exI [of _ "accConfiguration a"] exI [of _ k]) (simp add: c q wf_attributes_def)
qed

lemma encodeNCONCPKMP_bytes: "encodeNCONCPKMP t x = Inr bs \<Longrightarrow> bs = kmpBytes ncONCPKMPTailOutgoing (t, x) \<and> length x \<le> ncONCPMaximumKMPPayload"
  by (auto simp: encodeNCONCPKMP_def kmpBytes_def split: if_split_asm)

section \<open>Properties\<close>

text \<open>C18: a configuration that the client accepts is well typed: the assigned address is IPv4 with the prefix length of its
  netmask, the MTU is between 576 and 65535, name servers are IPv4 and at most three of a kind, every route is an IPv4
  prefix of a legal length and there is at least one; the reply begins with the control message that confirms the MTU.\<close>

theorem nc_configuration_type:
  assumes "parseNCONCPInitialConfiguration ipv6Disabled noUDP dpdInterval acceptedAddress message draws = Some (Inr (c, response))"
    "t = ncConfiguration c"
  shows "wf_address4 (ncAssignedIPv4 c) \<and> (\<exists>k \<le> 32. Addresses t = [PrefixFrom (ncAssignedIPv4 c) (int k)]) \<and>
    576 \<le> unat (MTU t) \<and> unat (MTU t) \<le> 65535 \<and> RemoteAddress t = Unmap acceptedAddress \<and>
    list_all wf_address4 (DNS t) \<and> length (DNS t) \<le> 3 \<and> list_all wf_address4 (NBNS t) \<and> length (NBNS t) \<le> 3 \<and>
    list_all wf_route4 (Routes t) \<and> Routes t \<noteq> [] \<and> list_all wf_route4 (ExcludedRoutes t) \<and>
    (\<exists>rest. response = kmpBytes ncONCPKMPTailOutgoing (303, encodeNCONCPMTUControlPayload (MTU t)) @ rest)"
proof -
  obtain c0 q r0 where p: "parseNCONCPConfigurationPayload (drop ncONCPKMPHeaderSize message) = Inr (c0, q)"
    and t: "t = normalizeTunnelConfiguration ((ncConfiguration c0)\<lparr>RemoteAddress := Unmap acceptedAddress\<rparr>) ipv6Disabled"
    and r0: "encodeNCONCPKMP ncONCPKMPControl (encodeNCONCPMTUControlPayload (MTU t)) = Inr r0" "\<exists>rest. response = r0 @ rest"
    and a: "ncAssignedIPv4 c = ncAssignedIPv4 c0"
    using assms unfolding parseNCONCPInitialConfiguration_def
    by (auto simp: Let_def split: sum.split_asm prod.split_asm if_split_asm option.split_asm)
  obtain t0 k where w: "wf_tunnel t0" "k \<le> 32" "wf_address4 (ncAssignedIPv4 c0)" "576 \<le> unat (MTU t0)" "unat (MTU t0) \<le> 65535"
    "ncConfiguration c0 = t0\<lparr>Addresses := [PrefixFrom (ncAssignedIPv4 c0) (int k)]\<rparr>"
    using parseNCONCPConfigurationPayload_wf [OF p] by blast
  have "wf_address4 (prefixAddr (PrefixFrom (ncAssignedIPv4 c0) (int k)))" using w(3) by (simp add: PrefixFrom_def)
  note t' = t [unfolded w(6) normalize_ipv4 [OF w(1) this]]
  have d: "wf_route4 (defaultRoute IPv4Unspecified)"
    by (auto simp: wf_route4_def defaultRoute_def PrefixFrom_def IPv4Unspecified_def wf_address4_def intro: exI [of _ 0])
  have "r0 = kmpBytes ncONCPKMPTailOutgoing (303, encodeNCONCPMTUControlPayload (MTU t))"
    using encodeNCONCPKMP_bytes [OF r0(1)] by (simp add: ncONCPKMPControl_def)
  then show ?thesis using w d r0(2) a by (auto simp: t' wf_tunnel_def)
qed

definition sampleGroups :: "(u16 \<times> (u16 \<times> bytes) list) list" where
  "sampleGroups = [(1, [(1, [10, 0, 0, 5]), (2, [255, 255, 255, 0])]), (6, [(2, [0, 0, 5, 0x78])])]"

lemma sampleGroups_parsed:
  "parseNCONCPConfigurationPayload (encodeGroups sampleGroups) = Inr
     (\<lparr>ncConfiguration = emptyTunnelConfiguration\<lparr>MTU := 1400, Addresses := [PrefixFrom (Addr4 [10, 0, 0, 5]) 24]\<rparr>,
       ncAssignedIPv4 = Addr4 [10, 0, 0, 5], ncESP = None\<rparr>, clearParameters)"
proof -
  have l: "ncGroupLoop w e (\<lambda>_. True) (encodeGroups sampleGroups) emptyNCAttributes = applyGroups sampleGroups emptyNCAttributes" for w e
    by (rule ncGroupLoop_encoded) (simp add: sampleGroups_def encodeAttributes_def encodeNCONCPTLV_def)
  have m: "IPMaskSize [255, 255, 255, 0] = (24, 32)" "get_u32 [0, 0, 5, 0x78] = 1400" by code_simp+
  show ?thesis
    unfolding parseNCONCPConfigurationPayload_def l
    by (simp add: sampleGroups_def applyNCONCPConfigurationAttribute_def ncIPv4Attribute_def applyTunnelAttribute_def m
        emptyNCAttributes_def emptyTunnelConfiguration_def addrValid_def ncIPv4Prefix_def)
qed

theorem nc_configuration_type_witness:
  "\<exists>c response. parseNCONCPInitialConfiguration True True 0 (Addr4 [1, 2, 3, 4])
       (kmpBytes ncONCPKMPTail (301, encodeGroups sampleGroups)) [] = Some (Inr (c, response)) \<and>
     wf_address4 (ncAssignedIPv4 c) \<and> Routes (ncConfiguration c) \<noteq> [] \<and> unat (MTU (ncConfiguration c)) \<le> 65535"
proof -
  let ?m = "kmpBytes ncONCPKMPTail (301, encodeGroups sampleGroups)"
  have l: "length (encodeGroups sampleGroups) = 42"
    by (simp add: sampleGroups_def encodeGroups_def encodeAttributes_def encodeNCONCPTLV_def)
  have h: "parseNCONCPKMPHeader ?m False = Inr (301, 42)"
    using parse_kmp_header [of ncONCPKMPTail "(301, encodeGroups sampleGroups)" False] parse_header_take [of ?m False]
    by (simp add: l length_kmpBytes ncONCPMaximumKMPPayload_def)
  have d: "drop ncONCPKMPHeaderSize ?m = encodeGroups sampleGroups" "length ?m = 62"
    by (simp_all add: kmpBytes_def ncONCPKMPHeaderSize_def l)
  obtain c response where p: "parseNCONCPInitialConfiguration True True 0 (Addr4 [1, 2, 3, 4]) ?m [] = Some (Inr (c, response))"
    unfolding parseNCONCPInitialConfiguration_def h d sampleGroups_parsed
    by (simp add: Let_def ncONCPKMPConfiguration_def ncONCPKMPHeaderSize_def encodeNCONCPKMP_def encodeNCONCPMTUControlPayload_def
        encodeNCONCPTLV_def ncONCPMaximumKMPPayload_def)
  from nc_configuration_type [OF p refl] p show ?thesis by blast
qed

section \<open>The key exchange\<close>

lemma parse_esp_response:
  assumes "length secret = 64"
  shows "parseNCONCPESPParameters (encodeNCONCPTLV 7 (encodeNCONCPTLV 1 (put_u32 n) @ encodeNCONCPTLV 2 secret)) q =
    Inr (q\<lparr>serverSPI := n, serverSecret := secret\<rparr>)"
proof -
  have e: "encodeNCONCPTLV 7 (encodeNCONCPTLV 1 (put_u32 n) @ encodeNCONCPTLV 2 secret) = encodeGroups [(7, [(1, put_u32 n), (2, secret)])]"
    by (simp add: encodeGroups_def encodeAttributes_def)
  have "list_all (\<lambda>(grp, as). (grp = 7 \<or> grp = 8) \<and> list_all (\<lambda>(k, x). length x < 4294967296) as \<and> length (encodeAttributes as) < 4294967296)
     [(7, [(1, put_u32 n), (2, secret)])]" using assms by (simp add: encodeAttributes_def encodeNCONCPTLV_def)
  note l = ncGroupLoop_encoded [OF this]
  show ?thesis
    unfolding parseNCONCPESPParameters_def e l
    using assms by (simp add: applyNCONCPConfigurationAttribute_def applyESPAttribute_def emptyNCAttributes_def)
qed

text \<open>What a successful preparation has drawn and checked.\<close>

lemma prepareNCONCPESP_keys:
  assumes "prepareNCONCPESP acceptedAddress p draws = Some (Inr (esp, response))"
  shows "\<exists>enc auth n config r. newESPKeySet config r = Inr (ncKeys esp) \<and>
    encodeNCONCPESPResponse n enc auth = Inr response \<and> encryptionKeyLength (parEncryption p) + authenticationKeyLength (parAuthentication p) \<le> 64 \<and>
    Encryption config = parEncryption p \<and> Authentication config = parAuthentication p \<and>
    Outbound config = secretMaterial (parEncryption p) (parAuthentication p) (serverSPI p) (serverSecret p) \<and>
    Inbound config = \<lparr>SPI = n, EncryptionKey = enc, AuthenticationKey = auth\<rparr>"
proof -
  obtain config random rest where b: "buildNCONCPESPKeyConfiguration p draws = Some (Inr (config, response), random # rest)"
    and k: "newESPKeySet config random = Inr (ncKeys esp)"
    using assms by (auto simp: prepareNCONCPESP_def split: option.split_asm sum.split_asm prod.split_asm list.split_asm)
  have small: "encryptionKeyLength (parEncryption p) + authenticationKeyLength (parAuthentication p) \<le> 64"
    using b by (simp add: buildNCONCPESPKeyConfiguration_def Let_def split: if_split_asm)
  obtain enc auth n where "encodeNCONCPESPResponse n enc auth = Inr response" and c: "config = \<lparr>Encryption = parEncryption p,
      Authentication = parAuthentication p,
      Outbound = secretMaterial (parEncryption p) (parAuthentication p) (serverSPI p) (serverSecret p),
      Inbound = \<lparr>SPI = n, EncryptionKey = enc, AuthenticationKey = auth\<rparr>, DisableReplayProtection = \<not> parReplayProtection p\<rparr>"
    using b by (auto simp: buildNCONCPESPKeyConfiguration_def Let_def split: if_split_asm option.split_asm sum.split_asm prod.split_asm)
  then show ?thesis using k small by (intro exI [of _ enc] exI [of _ auth] exI [of _ n] exI [of _ config] exI [of _ random]) simp
qed

text \<open>C19: the ESP key exchange works: a server that reads the client's reply with the same parser and takes the keys at the
  beginning of the secret it carries builds a key set that is paired with the client's in both directions, so that what
  either seals the other opens, for every pair of algorithms.\<close>

theorem nc_esp_key_exchange:
  assumes "prepareNCONCPESP acceptedAddress p draws = Some (Inr (esp, response))" "length (iv (outbound (ncKeys esp))) = 16"
    "length iv' = 16"
  shows "\<exists>q' serverKeys. parseNCONCPKMPHeader response True = Inr (ncONCPKMPESP, length response - ncONCPKMPHeaderSize) \<and>
    parseNCONCPESPParameters (drop ncONCPKMPHeaderSize response) q = Inr q' \<and>
    newESPKeySet \<lparr>Encryption = parEncryption p, Authentication = parAuthentication p,
      Outbound = secretMaterial (parEncryption p) (parAuthentication p) (serverSPI q') (serverSecret q'),
      Inbound = secretMaterial (parEncryption p) (parAuthentication p) (serverSPI p) (serverSecret p),
      DisableReplayProtection = d\<rparr> (Inr iv') = Inr serverKeys \<and>
    paired (ncKeys esp) serverKeys \<and> paired serverKeys (ncKeys esp)"
proof -
  obtain enc auth n config r where k: "newESPKeySet config r = Inr (ncKeys esp)"
    and e: "encodeNCONCPESPResponse n enc auth = Inr response"
    and small: "encryptionKeyLength (parEncryption p) + authenticationKeyLength (parAuthentication p) \<le> 64"
    and c: "Encryption config = parEncryption p" "Authentication config = parAuthentication p"
      "Outbound config = secretMaterial (parEncryption p) (parAuthentication p) (serverSPI p) (serverSecret p)"
      "Inbound config = \<lparr>SPI = n, EncryptionKey = enc, AuthenticationKey = auth\<rparr>"
    using prepareNCONCPESP_keys [OF assms(1)] by blast
  obtain inb where "newESPSecurityAssociation (parEncryption p) (parAuthentication p)
      \<lparr>SPI = n, EncryptionKey = enc, AuthenticationKey = auth\<rparr> False r = Inr inb"
    using k c by (auto simp: newESPKeySet_def split: sum.split_asm)
  note l = newESPSecurityAssociation_checked(4,5) [OF this, simplified]
  note secret = espSecret_keys [OF l small]
  let ?x = "encodeNCONCPTLV 7 (encodeNCONCPTLV 1 (put_u32 n) @ encodeNCONCPTLV 2 (espSecret enc auth))"
  have rb: "response = kmpBytes ncONCPKMPTailOutgoing (ncONCPKMPESP, ?x)" "length ?x \<le> ncONCPMaximumKMPPayload"
    using encodeNCONCPKMP_bytes e unfolding encodeNCONCPESPResponse_def by blast+
  have lr: "length response = 20 + length ?x" unfolding rb(1) by (simp add: length_kmpBytes)
  have h: "parseNCONCPKMPHeader response True = Inr (ncONCPKMPESP, length response - ncONCPKMPHeaderSize)"
    using parse_kmp_header [of ncONCPKMPTailOutgoing "(ncONCPKMPESP, ?x)" True] parse_header_take [of response True] rb(2) lr
    unfolding rb(1) [symmetric] by (simp add: ncONCPKMPHeaderSize_def)
  have d: "drop ncONCPKMPHeaderSize response = ?x" unfolding rb(1) by (simp add: kmpBytes_def ncONCPKMPHeaderSize_def)
  obtain s' where "newESPKeySet \<lparr>Encryption = Encryption config, Authentication = Authentication config,
      Outbound = Inbound config, Inbound = Outbound config, DisableReplayProtection = d\<rparr> (Inr iv') = Inr s'"
    "paired (ncKeys esp) s'" "paired s' (ncKeys esp)"
    using mirrored_paired [OF k assms(2,3) refl] by blast
  then show ?thesis
    using h parse_esp_response [OF secret(2), of n q]
    by (intro exI [of _ "q\<lparr>serverSPI := n, serverSecret := espSecret enc auth\<rparr>"] exI [of _ s']) (simp add: d secret(1) c)
qed

definition sampleParameters :: ncESPParameters where
  "sampleParameters = clearParameters\<lparr>parEncryption := espEncryptionAES128CBC, parAuthentication := espAuthenticationHMACSHA196,
     parPort := 4500, serverSPI := 7, serverSecret := replicate 64 1\<rparr>"

definition sampleDraws :: "bytes result list" where
  "sampleDraws = [Inr (replicate 16 1), Inr (replicate 20 2), Inr [0, 0, 0, 0], Inr [0, 0, 0, 9], Inr (replicate 16 3)]"

lemma sample_prepared:
  "\<exists>esp response. prepareNCONCPESP (Addr4 [1, 2, 3, 4]) sampleParameters sampleDraws = Some (Inr (esp, response)) \<and>
     length (iv (outbound (ncKeys esp))) = 16"
proof -
  have s: "length (subslice (replicate 64 (1 :: byte)) 16 36) = 20" by simp
  have "get_u32 [0, 0, 0, 0] = 0" "get_u32 [0, 0, 0, 9] = 9" by code_simp+
  then have d: "drawClientKeys sampleDraws = Some (Inr (replicate 16 1, replicate 20 2, 9), [Inr (replicate 16 3)])"
    by (simp add: drawClientKeys_def sampleDraws_def)
  have l: "length (espSecret (replicate 16 1) (replicate 20 2)) = 64" by (simp add: espSecret_def)
  obtain response where r: "encodeNCONCPESPResponse 9 (replicate 16 1) (replicate 20 2) = Inr response"
    using l by (simp add: encodeNCONCPESPResponse_def encodeNCONCPKMP_def encodeNCONCPTLV_def ncONCPMaximumKMPPayload_def)
  have "\<not> (1 :: byte) < 0" by simp
  then show ?thesis
    unfolding prepareNCONCPESP_def buildNCONCPESPKeyConfiguration_def d
    by (simp add: Let_def r sampleParameters_def clearParameters_def secretMaterial_def newESPKeySet_def newESPSecurityAssociation_def s)
qed

theorem nc_esp_key_exchange_witness:
  "\<exists>esp response q' serverKeys. prepareNCONCPESP (Addr4 [1, 2, 3, 4]) sampleParameters sampleDraws = Some (Inr (esp, response)) \<and>
     parseNCONCPESPParameters (drop ncONCPKMPHeaderSize response) clearParameters = Inr q' \<and>
     paired (ncKeys esp) serverKeys \<and> paired serverKeys (ncKeys esp)"
proof -
  obtain esp response where p: "prepareNCONCPESP (Addr4 [1, 2, 3, 4]) sampleParameters sampleDraws = Some (Inr (esp, response))"
    "length (iv (outbound (ncKeys esp))) = 16" using sample_prepared by blast
  from nc_esp_key_exchange [OF p, of "replicate 16 0" clearParameters False] p(1) show ?thesis by auto
qed


end
