(* ===== verification/Pulse_Config.thy ===== *)
theory Pulse_Config
  imports Pulse_Ift Netmask Go_Strings Tunnel_Config Esp_Exchange
begin

text \<open>
  The tunnel configuration of Pulse (\<^verbatim>\<open>pulse_config.go\<close>): the attribute blocks and the routing block of
  the main configuration, the ESP key exchange, and the loop that reads configuration frames until the
  last one.

  The options of the client that the functions read are arguments, logging has no definition, and the
  draws of the random source are an argument as in \<open>Esp_Exchange\<close>.
\<close>

section \<open>Definitions\<close>

definition pulseSecond :: duration where "pulseSecond = 1000000000"
definition pulseDefaultESPAttemptPeriod :: duration where "pulseDefaultESPAttemptPeriod = 60 * pulseSecond"

text \<open>The address and port of \<open>remote\<close> are the arguments of \<open>M.ParseSocksaddrHostPort\<close>.\<close>

record pulseESPConfiguration =
  pulseRemote :: "addr \<times> u16"
  pulseKeyConfiguration :: espKeySetConfig
  pulseEncryption :: espEncryption
  pulseAuthentication :: espAuthentication
  pulsePort :: u16
  pulseFallback :: duration
  pulseCrossFamily :: bool
  pulseReplayProtection :: bool
  probeNextHeader :: byte

record pulseTunnelConfiguration =
  pulseConfiguration :: TunnelConfiguration
  pulseAssignedIPv4 :: addr
  pulseAssignedIPv6 :: addr
  pulseESP :: "pulseESPConfiguration option"

record pulseConfigurationAccumulator =
  accConfiguration :: TunnelConfiguration
  accAssignedIPv4 :: addr
  accAssignedIPv6 :: addr
  accIPv4Netmask :: addr
  accESPEncryption :: espEncryption
  accESPAuthentication :: espAuthentication
  accESPPort :: u16
  accESPFallback :: duration
  accESPCrossFamily :: bool
  accESPReplay :: bool
  mainSeen :: bool

definition emptyAccumulator :: pulseConfigurationAccumulator where
  "emptyAccumulator = \<lparr>accConfiguration = emptyTunnelConfiguration, accAssignedIPv4 = NoAddr, accAssignedIPv6 = NoAddr,
     accIPv4Netmask = NoAddr, accESPEncryption = espEncryptionOther 0, accESPAuthentication = espAuthenticationOther 0,
     accESPPort = 0, accESPFallback = 0, accESPCrossFamily = False, accESPReplay = False, mainSeen = False\<rparr>"

subsection \<open>Attributes\<close>

definition pulseIPv4Attribute :: "bytes \<Rightarrow> addr result" where
  "pulseIPv4Attribute content =
     (if length content \<noteq> 4 then Inl (New ''attribute has invalid length'') else Inr (Addr4 content))"

text \<open>Attributes of the tunnel that the server assigns: addresses, servers and routes.\<close>

definition applyAddressAttribute ::
  "bool \<Rightarrow> pulseConfigurationAccumulator \<Rightarrow> u16 \<Rightarrow> bytes \<Rightarrow> pulseConfigurationAccumulator result" where
  "applyAddressAttribute ipv6Disabled acc attributeType content =
     (let conf = accConfiguration acc in
      if attributeType = 0x0001 then
        (case pulseIPv4Attribute content of Inl err \<Rightarrow> Inl err
         | Inr a \<Rightarrow> if IsUnspecified a \<or> IsMulticast a then Inl (New ''assigned IPv4 address is unusable'')
                   else Inr (acc\<lparr>accAssignedIPv4 := a\<rparr>))
      else if attributeType = 0x0002 then
        (case pulseIPv4Attribute content of Inl err \<Rightarrow> Inl err | Inr a \<Rightarrow> Inr (acc\<lparr>accIPv4Netmask := a\<rparr>))
      else if attributeType = 0x0003 then
        (case pulseIPv4Attribute content of Inl err \<Rightarrow> Inl err
         | Inr a \<Rightarrow> if IsUnspecified a then Inl (New ''IPv4 DNS server is unspecified'')
                   else Inr (acc\<lparr>accConfiguration := conf\<lparr>DNS := appendServer (DNS conf) a\<rparr>\<rparr>))
      else if attributeType = 0x0004 then
        (case pulseIPv4Attribute content of Inl err \<Rightarrow> Inl err
         | Inr a \<Rightarrow> if IsUnspecified a then Inl (New ''IPv4 NBNS server is unspecified'')
                   else Inr (acc\<lparr>accConfiguration := conf\<lparr>NBNS := appendServer (NBNS conf) a\<rparr>\<rparr>))
      else if attributeType = 0x0008 then
        if ipv6Disabled then Inr acc
        else if length content \<noteq> 17 \<or> content ! 16 > 128 then Inl (New ''IPv6 address attribute has invalid length or prefix'')
        else
          let a = Addr6 (take 16 content) in
          if Is4In6 a \<or> IsUnspecified a \<or> IsMulticast a then Inl (New ''assigned IPv6 address is unusable'')
          else Inr (acc\<lparr>accAssignedIPv6 := a,
            accConfiguration := conf\<lparr>Addresses := Addresses conf @ [PrefixFrom a (uint (content ! 16))]\<rparr>\<rparr>)
      else if attributeType = 0x000a then
        if ipv6Disabled then Inr acc
        else if length content \<noteq> 16 then Inl (New ''IPv6 DNS attribute has invalid length'')
        else
          let a = Addr6 content in
          if Is4In6 a \<or> IsUnspecified a then Inl (New ''IPv6 DNS server is unusable'')
          else Inr (acc\<lparr>accConfiguration := conf\<lparr>DNS := appendServer (DNS conf) a\<rparr>\<rparr>)
      else if attributeType = 0x000f \<or> attributeType = 0x0010 then
        if ipv6Disabled then Inr acc
        else if length content \<noteq> 17 \<or> content ! 16 > 128 then Inl (New ''IPv6 route attribute has invalid length or prefix'')
        else
          let a = Addr6 (take 16 content) in
          if Is4In6 a then Inl (New ''IPv6 route contains an IPv4-mapped address'')
          else
            let route = prefixRoute (Masked (PrefixFrom a (uint (content ! 16)))) in
            Inr (acc\<lparr>accConfiguration :=
              (if attributeType = 0x000f then conf\<lparr>Routes := Routes conf @ [route]\<rparr>
               else conf\<lparr>ExcludedRoutes := ExcludedRoutes conf @ [route]\<rparr>)\<rparr>)
      else Inr acc)"

text \<open>The MTU, the search domain and the parameters of ESP.\<close>

definition applyParameterAttribute ::
  "pulseConfigurationAccumulator \<Rightarrow> u16 \<Rightarrow> bytes \<Rightarrow> pulseConfigurationAccumulator result" where
  "applyParameterAttribute acc attributeType content =
     (let conf = accConfiguration acc in
      if attributeType = 0x4005 then
        if length content \<noteq> 4 then Inl (New ''MTU attribute has invalid length'')
        else Inr (acc\<lparr>accConfiguration := conf\<lparr>MTU := get_u32 content\<rparr>\<rparr>)
      else if attributeType = 0x4006 then
        if length content = 0 then Inl (New ''search domain attribute is empty'')
        else
          let domain = (if last content = 0 then butlast content else content) in
          Inr (if length domain > 0 then acc\<lparr>accConfiguration := conf\<lparr>SearchDomains := SearchDomains conf @ [goString domain]\<rparr>\<rparr> else acc)
      else if attributeType = 0x4010 then
        if length content \<noteq> 2 then Inl (New ''ESP encryption attribute has invalid length'')
        else Inr (acc\<lparr>accESPEncryption := espEncryptionOf (unat (get_u16 content))\<rparr>)
      else if attributeType = 0x4011 then
        if length content \<noteq> 2 then Inl (New ''ESP authentication attribute has invalid length'')
        else Inr (acc\<lparr>accESPAuthentication := espAuthenticationOf (unat (get_u16 content))\<rparr>)
      else if attributeType = 0x4012 \<or> attributeType = 0x4013 then
        if length content \<noteq> 4 then Inl (New ''ESP lifetime attribute has invalid length'') else Inr acc
      else if attributeType = 0x4014 then
        if length content \<noteq> 4 then Inl (New ''ESP replay attribute has invalid length'')
        else Inr (acc\<lparr>accESPReplay := (get_u32 content \<noteq> 0)\<rparr>)
      else if attributeType = 0x4016 then
        if length content \<noteq> 2 then Inl (New ''ESP port attribute has invalid length'')
        else Inr (acc\<lparr>accESPPort := get_u16 content\<rparr>)
      else if attributeType = 0x4017 then
        if length content \<noteq> 4 then Inl (New ''ESP fallback attribute has invalid length'')
        else Inr (acc\<lparr>accESPFallback := uint (get_u32 content) * pulseSecond\<rparr>)
      else if attributeType = 0x401a \<or> attributeType = 0x4024 then
        if length content \<noteq> 1 then Inl (New ''ESP flag attribute has invalid length'')
        else Inr (if attributeType = 0x4024 then acc\<lparr>accESPCrossFamily := (content ! 0 \<noteq> 0)\<rparr> else acc)
      else Inr acc)"

definition applyPulseAttribute ::
  "bool \<Rightarrow> pulseConfigurationAccumulator \<Rightarrow> u16 \<Rightarrow> bytes \<Rightarrow> pulseConfigurationAccumulator result" where
  "applyPulseAttribute ipv6Disabled acc attributeType content =
     (if attributeType < 0x4000 then applyAddressAttribute ipv6Disabled acc attributeType content
      else applyParameterAttribute acc attributeType content)"

subsection \<open>Blocks\<close>

function pulseAttributeLoop ::
  "bool \<Rightarrow> bytes \<Rightarrow> pulseConfigurationAccumulator \<Rightarrow> pulseConfigurationAccumulator result" where
  "pulseAttributeLoop ipv6Disabled content acc =
     (if content = [] then Inr acc
      else if length content < 4 then Inl (New ''attribute stream ended inside a header'')
      else
        let attributeType = get_u16 (take 2 content); attributeLength = unat (get_u16 (subslice content 2 4)) in
        if attributeLength > length content - 4 then Inl (New ''attribute exceeds its containing block'')
        else case applyPulseAttribute ipv6Disabled acc attributeType (subslice content 4 (4 + attributeLength)) of
          Inl err \<Rightarrow> Inl err
        | Inr acc' \<Rightarrow> pulseAttributeLoop ipv6Disabled (drop (4 + attributeLength) content) acc')"
  by pat_completeness auto
termination
  by (relation "measure (\<lambda>(d, content, acc). length content)") auto

declare pulseAttributeLoop.simps [simp del]

definition parsePulseAttributeBlock ::
  "bool \<Rightarrow> bytes \<Rightarrow> pulseConfigurationAccumulator \<Rightarrow> pulseConfigurationAccumulator result" where
  "parsePulseAttributeBlock ipv6Disabled content acc =
     (if length content < 8 \<or> get_u32 (subslice content 4 8) \<noteq> 0x03000000 then Inl (New ''invalid Pulse attribute block header'')
      else pulseAttributeLoop ipv6Disabled (drop 8 content) acc)"

text \<open>\<open>bits.OnesCount32\<close>\<close>

definition OnesCount32 :: "u32 \<Rightarrow> nat" where
  "OnesCount32 w = length (filter (bit w) [0..<32])"

definition parsePulseIPv4Route :: "bytes \<Rightarrow> pulseConfigurationAccumulator \<Rightarrow> pulseConfigurationAccumulator result" where
  "parsePulseIPv4Route content acc =
     (if length content \<noteq> 16 \<or> get_u32 (subslice content 4 8) \<noteq> 0x0000ffff then Inl (New ''invalid Pulse IPv4 route entry'')
      else
        let start = get_u32 (subslice content 8 12);
            finish = get_u32 (subslice content 12 16);
            hostMask = start XOR finish;
            routeMask = NOT hostMask;
            ones = OnesCount32 routeMask;
            expectedMask = (if ones > 0 then push_bit (32 - ones) (-1) else 0)
        in if routeMask \<noteq> expectedMask \<or> start AND routeMask \<noteq> start \<or> start OR hostMask \<noteq> finish
           then Inl (New ''IPv4 route range is not a CIDR prefix'')
           else
             let route = prefixRoute (PrefixFrom (Addr4 (put_u32 start)) (int ones));
                 conf = accConfiguration acc;
                 kind = get_u32 (take 4 content)
             in if kind = 0x07000010 then Inr (acc\<lparr>accConfiguration := conf\<lparr>Routes := Routes conf @ [route]\<rparr>\<rparr>)
                else if kind = 0xf1000010 then Inr (acc\<lparr>accConfiguration := conf\<lparr>ExcludedRoutes := ExcludedRoutes conf @ [route]\<rparr>\<rparr>)
                else Inl (New ''unknown Pulse IPv4 route type''))"

function pulseRouteLoop :: "bytes \<Rightarrow> pulseConfigurationAccumulator \<Rightarrow> pulseConfigurationAccumulator result" where
  "pulseRouteLoop content acc =
     (if content = [] then Inr acc
      else case parsePulseIPv4Route (take 16 content) acc of
        Inl err \<Rightarrow> Inl err
      | Inr acc' \<Rightarrow> pulseRouteLoop (drop 16 content) acc')"
  by pat_completeness auto
termination
  by (relation "measure (\<lambda>(content, acc). length content)") auto

declare pulseRouteLoop.simps [simp del]

text \<open>The leading attribute blocks of the newer format: what follows the last of them.\<close>

function pulseLeadingLoop ::
  "bool \<Rightarrow> bytes \<Rightarrow> pulseConfigurationAccumulator \<Rightarrow> (bytes \<times> pulseConfigurationAccumulator) result" where
  "pulseLeadingLoop ipv6Disabled content acc =
     (if length content < 8 then Inl (New ''leading configuration attributes are truncated'')
      else
        let attributeFlag = get_u16 (take 2 content); attributeLength = unat (get_u16 (subslice content 2 4)) in
        if attributeLength < 8 \<or> attributeLength > length content then Inl (New ''invalid Pulse leading attribute block length'')
        else case parsePulseAttributeBlock ipv6Disabled (take attributeLength content) acc of
          Inl err \<Rightarrow> Inl err
        | Inr acc' \<Rightarrow>
            if attributeFlag = 0x2c00 then Inr (drop attributeLength content, acc')
            else pulseLeadingLoop ipv6Disabled (drop attributeLength content) acc')"
  by pat_completeness auto
termination
  by (relation "measure (\<lambda>(d, content, acc). length content)") auto

declare pulseLeadingLoop.simps [simp del]

text \<open>The routing block and the final attribute block.\<close>

definition pulseFinalBlocks ::
  "bool \<Rightarrow> bytes \<Rightarrow> pulseConfigurationAccumulator \<Rightarrow> pulseConfigurationAccumulator result" where
  "pulseFinalBlocks ipv6Disabled content acc =
     (if length content < 8 \<or> get_u16 (take 2 content) \<noteq> 0x2e00 then Inl (New ''configuration omitted its routing block'')
      else
        let routingLength = unat (get_u16 (subslice content 2 4)); routeCount = unat (content ! 4) in
        if routingLength \<noteq> routeCount * 16 + 8 \<or> int routingLength > int (length content) - 4
        then Inl (New ''invalid Pulse routing block length'')
        else case pulseRouteLoop (subslice content 8 routingLength) acc of
          Inl err \<Rightarrow> Inl err
        | Inr acc' \<Rightarrow>
            let rest = drop routingLength content in
            if length rest < 8 then Inl (New ''final configuration attributes are truncated'')
            else if unat (get_u32 (take 4 rest)) \<noteq> length rest then Inl (New ''final attribute block length mismatch'')
            else map_sum id (\<lambda>acc. acc\<lparr>mainSeen := True\<rparr>) (parsePulseAttributeBlock ipv6Disabled rest acc'))"

definition parsePulseMainConfiguration ::
  "bool \<Rightarrow> bytes \<Rightarrow> pulseConfigurationAccumulator \<Rightarrow> pulseConfigurationAccumulator result" where
  "parsePulseMainConfiguration ipv6Disabled payload acc =
     (if get_u32 (subslice payload 16 20) = 0x2e20f000 then
        (case pulseLeadingLoop ipv6Disabled (drop 28 payload) acc of
           Inl err \<Rightarrow> Inl err
         | Inr (rest, acc') \<Rightarrow> pulseFinalBlocks ipv6Disabled rest acc')
      else pulseFinalBlocks ipv6Disabled (drop 28 payload) acc)"

definition pulseConfigurationEnvelopeValid :: "bytes \<Rightarrow> bool" where
  "pulseConfigurationEnvelopeValid payload \<longleftrightarrow>
     length payload \<ge> 28 \<and> get_u32 (subslice payload 24 28) = u32_of (length payload) \<and>
     list_all (\<lambda>offset. get_u32 (subslice payload offset (offset + 4)) = 0) [0, 4, 8, 12] \<and>
     get_u32 (subslice payload 20 24) = 0"

definition pulseIPv4AddressPrefix :: "addr \<Rightarrow> addr \<Rightarrow> prefix result" where
  "pulseIPv4AddressPrefix address maskAddress =
     (case IPMaskSize (As4 maskAddress) of (ones, bitLength) \<Rightarrow>
        if bitLength \<noteq> 32 then Inl (New ''IPv4 netmask is not contiguous'')
        else Inr (PrefixFrom (Addr4 (As4 address)) ones))"

subsection \<open>ESP\<close>

definition pulseESPConfigurationFrameValid :: "bytes \<Rightarrow> bool" where
  "pulseESPConfigurationFrameValid payload \<longleftrightarrow>
     length payload \<ge> 106 \<and> pulseConfigurationEnvelopeValid payload \<and>
     get_u32 (subslice payload 16 20) = 0x21202400 \<and>
     get_u32 (subslice payload 28 32) = u32_of (length payload - 28) \<and>
     get_u32 (subslice payload 32 36) = 0x01000000 \<and>
     get_u16 (subslice payload 40 42) = 64"

text \<open>The reply from its sixteenth byte on; the code fills an array of 192 bytes and returns this part.\<close>

definition pulseESPResponse :: "u32 \<Rightarrow> bytes \<Rightarrow> bytes \<Rightarrow> bytes \<Rightarrow> bytes" where
  "pulseESPResponse clientSPI enc auth payload =
     replicate 16 0 @ put_u32 0x21202400 @ replicate 4 0 @ put_u32 176 @ put_u32 148 @ put_u32 0x01000000 @
     put_le32 clientSPI @ put_u16 64 @ espSecret enc auth @ subslice payload 0x24 (0x24 + 70)"

definition parsePulseESPConfiguration ::
  "bytes \<Rightarrow> pulseConfigurationAccumulator \<Rightarrow> addr \<Rightarrow> bytes result list \<Rightarrow>
     ((pulseESPConfiguration \<times> bytes) result \<times> bytes result list) option" where
  "parsePulseESPConfiguration payload acc acceptedAddress draws =
     (let e = accESPEncryption acc; a = accESPAuthentication acc in
      if \<not> pulseESPConfigurationFrameValid payload then Some (Inl (New ''invalid Pulse ESP configuration frame''), draws)
      else if length payload < 42 + 64 \<or> encryptionKeyLength e = 0 \<or> authenticationKeyLength a = 0 \<or> accESPPort acc = 0
      then Some (Inl (New ''ESP configuration omitted usable algorithms, keys, or port''), draws)
      else if encryptionKeyLength e + authenticationKeyLength a > 64
      then Some (Inl (New ''ESP key lengths exceed the 64-byte secret block''), draws)
      else case drawClientKeys draws of
        None \<Rightarrow> None
      | Some (Inl err, rest) \<Rightarrow> Some (Inl (Cause err ''generate Pulse ESP client keys''), rest)
      | Some (Inr _, []) \<Rightarrow> None
      | Some (Inr (enc, auth, clientSPI), random # rest) \<Rightarrow>
          let keyConfiguration = \<lparr>Encryption = e, Authentication = a,
                Outbound = secretMaterial e a (get_le32 (subslice payload 36 40)) (drop 42 payload),
                Inbound = \<lparr>SPI = clientSPI, EncryptionKey = enc, AuthenticationKey = auth\<rparr>,
                DisableReplayProtection = \<not> accESPReplay acc\<rparr>
          in (case newESPKeySet keyConfiguration random of
                Inl err \<Rightarrow> Some (Inl err, rest)
              | Inr keys \<Rightarrow> Some (Inr (\<lparr>pulseRemote = (acceptedAddress, accESPPort acc), pulseKeyConfiguration = keyConfiguration,
                  pulseEncryption = e, pulseAuthentication = a, pulsePort = accESPPort acc,
                  pulseFallback = (if accESPFallback acc \<le> 0 then pulseDefaultESPAttemptPeriod else accESPFallback acc),
                  pulseCrossFamily = accESPCrossFamily acc, pulseReplayProtection = accESPReplay acc,
                  probeNextHeader = (if Is6 acceptedAddress then espIPv6NextHeader else espIPv4NextHeader)\<rparr>,
                  pulseESPResponse clientSPI enc auth payload), rest)))"

text \<open>Destroying the configuration clears its keys.\<close>

definition destroyPulseESPConfiguration :: "pulseESPConfiguration \<Rightarrow> pulseESPConfiguration" where
  "destroyPulseESPConfiguration configuration = configuration\<lparr>pulseKeyConfiguration := \<lparr>Encryption = espEncryptionOther 0,
     Authentication = espAuthenticationOther 0, Outbound = \<lparr>SPI = 0, EncryptionKey = [], AuthenticationKey = []\<rparr>,
     Inbound = \<lparr>SPI = 0, EncryptionKey = [], AuthenticationKey = []\<rparr>, DisableReplayProtection = False\<rparr>\<rparr>"

subsection \<open>The frames\<close>

text \<open>
  A frame that was read: the loop goes on, leaves, or fails. The state is the connection, the draws, the
  accumulator and the ESP configuration so far; \<open>None\<close> means that the draws ran out.
\<close>

datatype pulse_flow = Continue | Break | Fail go_error

record 'w pulse_reading =
  rdConnection :: "'w pulseIFTConnection"
  rdDraws :: "bytes result list"
  rdAccumulator :: pulseConfigurationAccumulator
  rdESP :: "pulseESPConfiguration option"

definition ncmoMessage :: bytes where "ncmoMessage = [0x6e, 0x63, 0x6d, 0x6f, 0x3d, 0x31, 0x0a, 0]"

text \<open>The answer to an ESP configuration, in two frames.\<close>

definition sendESPResponse :: "'w writer \<Rightarrow> 'w pulseIFTConnection \<Rightarrow> bytes \<Rightarrow> 'w pulseIFTConnection \<times> unit result" where
  "sendESPResponse w c responsePayload =
     (case writeFrame w c pulseVendorJuniper 1 responsePayload of
        (c1, Inl err) \<Rightarrow> (c1, Inl err)
      | (c1, Inr _) \<Rightarrow> writeFrame w c1 pulseVendorJuniper 5 ncmoMessage)"

definition pulseESPFrame ::
  "'w writer \<Rightarrow> addr \<Rightarrow> bytes \<Rightarrow> 'w pulse_reading \<Rightarrow> ('w pulse_reading \<times> pulse_flow) option" where
  "pulseESPFrame w acceptedAddress payload s =
     (case parsePulseESPConfiguration payload (rdAccumulator s) acceptedAddress (rdDraws s) of
        None \<Rightarrow> None
      | Some (Inl err, draws) \<Rightarrow> Some (s\<lparr>rdDraws := draws\<rparr>, Continue)
      | Some (Inr (newESP, responsePayload), draws) \<Rightarrow>
          (case sendESPResponse w (rdConnection s) responsePayload of
             (c, Inl err) \<Rightarrow>
               Some (s\<lparr>rdDraws := draws, rdConnection := c\<rparr>, Fail (Cause err ''send Pulse ESP configuration response''))
           | (c, Inr _) \<Rightarrow> Some (s\<lparr>rdDraws := draws, rdConnection := c, rdESP := Some newESP\<rparr>, Continue)))"

definition pulseFrame ::
  "'w writer \<Rightarrow> bool \<Rightarrow> bool \<Rightarrow> addr \<Rightarrow> pulseIFTFrame \<Rightarrow> 'w pulse_reading \<Rightarrow> ('w pulse_reading \<times> pulse_flow) option" where
  "pulseFrame w ipv6Disabled noUDP acceptedAddress frame s =
     (if vendor frame \<noteq> pulseVendorJuniper then Some (s, Continue)
      else if frameType frame = 0x8f then Some (s, Break)
      else if frameType frame \<noteq> 1 \<or> length (framePayload frame) < 28 then Some (s, Continue)
      else if \<not> pulseConfigurationEnvelopeValid (framePayload frame)
      then Some (s, Fail (markTerminal (New ''invalid Pulse configuration envelope'')))
      else
        let key = get_u32 (subslice (framePayload frame) 16 20) in
        if key = 0x2c20f000 \<or> key = 0x2e20f000 then
          (case parsePulseMainConfiguration ipv6Disabled (framePayload frame) (rdAccumulator s) of
             Inl err \<Rightarrow> Some (s, Fail (markTerminal (Cause err ''parse Pulse main configuration'')))
           | Inr acc \<Rightarrow> Some (s\<lparr>rdAccumulator := acc\<rparr>, Continue))
        else if key = 0x21202400 then
          if noUDP then Some (s, Continue) else pulseESPFrame w acceptedAddress (framePayload frame) s
        else Some (s, Continue))"

lemma writeFrame_input: "writeFrame w c v t x = (c', r) \<Longrightarrow> iftInput c' = iftInput c"
  by (auto simp: writeFrame_def writeFrames_def writeFrameBuffers_def split: if_split_asm prod.split_asm sum.split_asm)

lemma pulseFrame_input:
  assumes "pulseFrame w d u a f s = Some (s', flow)"
  shows "iftInput (rdConnection s') = iftInput (rdConnection s)"
proof -
  have "iftInput (rdConnection s') = iftInput (rdConnection s)" if "pulseESPFrame w a p s = Some (s', flow)" for p
    using that
    by (auto simp: pulseESPFrame_def sendESPResponse_def dest!: writeFrame_input
        split: option.split_asm prod.split_asm sum.split_asm)
  with assms show ?thesis by (auto simp: pulseFrame_def Let_def split: if_split_asm sum.split_asm)
qed

lemma readFrame_shrinks: "readFrame c n = (c', Inr f) \<Longrightarrow> length (stream (iftInput c')) < length (stream (iftInput c))"
  by (auto simp: readFrame_def readFrameBuffer_def readFull_def Let_def pulseIFTHeaderSize_def
      split: if_split_asm prod.split_asm sum.split_asm)

function pulseFrameLoop ::
  "'w writer \<Rightarrow> bool \<Rightarrow> bool \<Rightarrow> addr \<Rightarrow> 'w pulse_reading \<Rightarrow> ('w pulse_reading \<times> unit result) option" where
  "pulseFrameLoop w ipv6Disabled noUDP acceptedAddress s =
     (case readFrame (rdConnection s) (int pulseConfigurationFrameLimit) of
        (c, Inl err) \<Rightarrow> Some (s\<lparr>rdConnection := c\<rparr>, Inl err)
      | (c, Inr frame) \<Rightarrow>
          (case pulseFrame w ipv6Disabled noUDP acceptedAddress frame (s\<lparr>rdConnection := c\<rparr>) of
             None \<Rightarrow> None
           | Some (s', Continue) \<Rightarrow> pulseFrameLoop w ipv6Disabled noUDP acceptedAddress s'
           | Some (s', Break) \<Rightarrow> Some (s', Inr ())
           | Some (s', Fail err) \<Rightarrow> Some (s', Inl err)))"
  by pat_completeness auto
termination
  by (relation "measure (\<lambda>(w, d, u, a, s). length (stream (iftInput (rdConnection s))))")
    (auto dest!: pulseFrame_input readFrame_shrinks [OF sym])

declare pulseFrameLoop.simps [simp del]

text \<open>What is made of the accumulator after the last frame.\<close>

definition finishPulseConfiguration ::
  "bool \<Rightarrow> addr \<Rightarrow> pulseConfigurationAccumulator \<Rightarrow> pulseESPConfiguration option \<Rightarrow> pulseTunnelConfiguration result" where
  "finishPulseConfiguration ipv6Disabled acceptedAddress acc0 esp =
     (if \<not> mainSeen acc0 \<or> MTU (accConfiguration acc0) = 0 \<or> (\<not> addrValid (accAssignedIPv4 acc0) \<and> \<not> addrValid (accAssignedIPv6 acc0))
      then Inl (markTerminal (New ''server returned insufficient tunnel configuration''))
      else
        let acc = (if ipv6Disabled then acc0\<lparr>accAssignedIPv6 := NoAddr\<rparr> else acc0) in
        if ipv6Disabled \<and> \<not> addrValid (accAssignedIPv4 acc)
        then Inl (markTerminal (New ''server did not provide an IPv4 tunnel address''))
        else
          let minimumMTU = (if addrValid (accAssignedIPv6 acc) then 1280 else 576);
              conf = accConfiguration acc
          in if MTU conf < minimumMTU \<or> MTU conf > 65535 then Inl (markTerminal (New ''invalid Pulse tunnel MTU''))
             else if addrValid (accAssignedIPv4 acc) \<and> \<not> addrValid (accIPv4Netmask acc)
             then Inl (markTerminal (New ''IPv4 configuration omitted its netmask''))
             else case (if addrValid (accAssignedIPv4 acc)
                        then map_sum markTerminal (\<lambda>p. Addresses conf @ [p]) (pulseIPv4AddressPrefix (accAssignedIPv4 acc) (accIPv4Netmask acc))
                        else Inr (Addresses conf)) of
                    Inl err \<Rightarrow> Inl err
                  | Inr addresses \<Rightarrow>
                      Inr \<lparr>pulseConfiguration = normalizeTunnelConfiguration
                             (conf\<lparr>Addresses := addresses, RemoteAddress := Unmap acceptedAddress\<rparr>) ipv6Disabled,
                           pulseAssignedIPv4 = accAssignedIPv4 acc, pulseAssignedIPv6 = accAssignedIPv6 acc, pulseESP = esp\<rparr>)"

definition readPulseConfiguration ::
  "'w writer \<Rightarrow> bool \<Rightarrow> bool \<Rightarrow> 'w pulseIFTConnection \<Rightarrow> addr \<Rightarrow> instant \<Rightarrow> duration \<Rightarrow> bytes result list \<Rightarrow>
     ('w pulseIFTConnection \<times> pulseTunnelConfiguration result) option" where
  "readPulseConfiguration w ipv6Disabled noUDP connection acceptedAddress authenticationExpires idleTimeout draws =
     (let acc = emptyAccumulator\<lparr>accConfiguration := emptyTunnelConfiguration\<lparr>AuthenticationExpiration := authenticationExpires,
            IdleTimeout := idleTimeout\<rparr>\<rparr>
      in case pulseFrameLoop w ipv6Disabled noUDP acceptedAddress
                \<lparr>rdConnection = connection, rdDraws = draws, rdAccumulator = acc, rdESP = None\<rparr> of
           None \<Rightarrow> None
         | Some (s, Inl err) \<Rightarrow> Some (rdConnection s, Inl err)
         | Some (s, Inr _) \<Rightarrow>
             Some (rdConnection s, finishPulseConfiguration ipv6Disabled acceptedAddress (rdAccumulator s) (rdESP s)))"

section \<open>Routes\<close>

text \<open>A range of addresses that is the set of addresses with a common prefix of length \<open>k\<close>.\<close>

definition cidr :: "u32 \<Rightarrow> u32 \<Rightarrow> nat \<Rightarrow> bool" where
  "cidr start finish k \<longleftrightarrow> (\<forall>x. start \<le> x \<and> x \<le> finish \<longleftrightarrow> drop_bit (32 - k) x = drop_bit (32 - k) start)"

lemma OnesCount32_mask: "m \<le> 32 \<Longrightarrow> OnesCount32 (NOT (mask m)) = 32 - m"
proof -
  have "list_all (\<lambda>m. OnesCount32 (NOT (mask m)) = 32 - m) [0..<33]" by code_simp
  then show "m \<le> 32 \<Longrightarrow> OnesCount32 (NOT (mask m)) = 32 - m" by (simp add: list_all_iff)
qed

lemma mask_of_count: "(if n > 0 then push_bit (32 - n) (-1) else 0) = (NOT (mask (32 - n)) :: u32)"
proof (cases "n > 0")
  case True
  then show ?thesis by (simp add: push_bit_minus_one_eq_not_mask)
next
  case False
  have "(mask 32 :: u32) = -1" by (rule bit_word_eqI) (simp add: bit_simps)
  with False show ?thesis by simp
qed

lemma OnesCount32_le: "OnesCount32 w \<le> 32"
  unfolding OnesCount32_def by (rule order_trans [OF length_filter_le]) simp

text \<open>The test of the code: the range is a prefix with its host bits clear and then set.\<close>

lemma route_test:
  fixes start finish :: u32
  assumes "k = OnesCount32 (NOT (start XOR finish))"
  shows "NOT (start XOR finish) = (if k > 0 then push_bit (32 - k) (-1) else 0) \<and> start AND NOT (start XOR finish) = start \<and>
      start OR (start XOR finish) = finish \<longleftrightarrow>
    start AND NOT (mask (32 - k)) = start \<and> finish = start OR mask (32 - k)"
proof
  assume "NOT (start XOR finish) = (if k > 0 then push_bit (32 - k) (-1) else 0) \<and> start AND NOT (start XOR finish) = start \<and>
      start OR (start XOR finish) = finish"
  then have "NOT (start XOR finish) = NOT (mask (32 - k))" "start AND NOT (start XOR finish) = start"
      "start OR (start XOR finish) = finish" unfolding mask_of_count by blast+
  then show "start AND NOT (mask (32 - k)) = start \<and> finish = start OR mask (32 - k)"
    by (metis bit.double_compl)
next
  assume a: "start AND NOT (mask (32 - k)) = start \<and> finish = start OR mask (32 - k)"
  then have "\<not> bit start i" if "i < 32 - k" for i
    using that by (metis bit_and_iff bit_mask_iff bit_not_iff bit_imp_possible_bit)
  then have "start XOR finish = mask (32 - k)"
    using a by (intro bit_word_eqI) (auto simp: bit_simps)
  with a show "NOT (start XOR finish) = (if k > 0 then push_bit (32 - k) (-1) else 0) \<and> start AND NOT (start XOR finish) = start \<and>
      start OR (start XOR finish) = finish" unfolding mask_of_count by simp
qed

lemma unat_drop_bit_u32: "unat (drop_bit m (x :: u32)) = unat x div 2 ^ m"
proof -
  have "take_bit 32 (unat x) = unat x" using unsigned_less [of x, where ?'a = nat] by (intro take_bit_nat_eq_self) simp
  then show ?thesis unfolding unsigned_drop_bit_eq by (simp add: drop_bit_eq_div)
qed

lemma unat_mask_u32: "m \<le> 32 \<Longrightarrow> unat (mask m :: u32) = 2 ^ m - 1"
  unfolding unat_eq_nat_uint uint_mask_eq by (simp add: mask_eq_exp_minus_1 nat_diff_distrib nat_power_eq)

lemma unat_block:
  fixes start :: u32
  assumes "start AND NOT (mask m) = start" "m \<le> 32"
  shows "unat start = unat (drop_bit m start) * 2 ^ m" "unat (start OR mask m) = unat start + (2 ^ m - 1)"
proof -
  have n: "start AND mask m = 0"
    using assms(1) by (metis and.assoc and.commute bit.conj_cancel_right and_zero_eq and.left_commute)
  then have t: "take_bit m start = 0" by (simp add: take_bit_eq_mask)
  have "unat (take_bit m start) = unat start mod 2 ^ m"
    by (simp only: unsigned_take_bit_eq) (simp only: take_bit_eq_mod)
  then have z: "unat start mod 2 ^ m = 0" unfolding t by simp
  define q where "q = unat start div 2 ^ m"
  have d: "unat start = q * 2 ^ m"
    using div_mult_mod_eq [of "unat start" "2 ^ m"] unfolding z q_def [symmetric] by simp
  show e: "unat start = unat (drop_bit m start) * 2 ^ m" using d unfolding unat_drop_bit_u32 q_def .
  have p: "(2 :: nat) ^ 32 = 2 ^ (32 - m) * 2 ^ m" using assms(2) by (metis power_add le_add_diff_inverse2)
  have "unat start < 2 ^ 32" using unsigned_less [of start, where ?'a = nat] by simp
  then have "q < 2 ^ (32 - m)" unfolding p q_def by (rule less_mult_imp_div_less)
  then have "(q + 1) * 2 ^ m \<le> 2 ^ (32 - m) * 2 ^ m" by (intro mult_le_mono1) simp
  then have "q * 2 ^ m + 2 ^ m \<le> 2 ^ 32" unfolding p by (simp only: distrib_right mult_1)
  moreover have "(0 :: nat) < 2 ^ m" by simp
  ultimately have "q * 2 ^ m + (2 ^ m - 1) < 2 ^ 32" by linarith
  then have "unat start + unat (mask m :: u32) < 2 ^ LENGTH(32)"
    unfolding unat_mask_u32 [OF assms(2)] d by simp
  then have "unat (start + mask m) = unat start + unat (mask m :: u32)" by (rule unat_add_lem [THEN iffD1])
  then show "unat (start OR mask m) = unat start + (2 ^ m - 1)"
    unfolding disjunctive_add_eq_or [OF n] unat_mask_u32 [OF assms(2)] .
qed

lemma div_block: "0 < n \<Longrightarrow> (x :: nat) div n = q \<longleftrightarrow> q * n \<le> x \<and> x < q * n + n"
proof
  assume n: "0 < n" and q: "x div n = q"
  have "x = q * n + x mod n" using q div_mult_mod_eq [of x n] by simp
  moreover have "x mod n < n" using n by simp
  ultimately show "q * n \<le> x \<and> x < q * n + n" by linarith
qed (auto intro!: div_nat_eqI simp: mult.commute)

lemma cidr_block:
  assumes "m = 32 - k" "k \<le> 32"
  shows "cidr start finish k \<longleftrightarrow> start AND NOT (mask m) = start \<and> finish = start OR mask m"
proof
  assume c: "cidr start finish k"
  have "drop_bit m (start AND NOT (mask m)) = drop_bit m start" "drop_bit m (start OR mask m) = drop_bit m start"
    by (rule bit_word_eqI; auto simp: bit_simps dest: bit_imp_le_length)+
  then have "start \<le> start AND NOT (mask m)" "start OR mask m \<le> finish" and s: "start \<le> finish"
    using c unfolding cidr_def assms(1) by blast+
  moreover have "start AND NOT (mask m) \<le> start" by (rule word_and_le2)
  ultimately have st: "start AND NOT (mask m) = start" by simp
  have "drop_bit m finish = drop_bit m start" using c s unfolding cidr_def assms(1) by blast
  then have "unat finish div 2 ^ m = unat (drop_bit m start)" unfolding unat_drop_bit_u32 [symmetric] by simp
  then have "unat finish < unat (drop_bit m start) * 2 ^ m + 2 ^ m" by (subst (asm) div_block) simp_all
  moreover have m: "m \<le> 32" using assms by simp
  ultimately have "unat finish \<le> unat (start OR mask m)"
    unfolding unat_block(1) [OF st m, symmetric] unat_block(2) [OF st m] by simp
  then show "start AND NOT (mask m) = start \<and> finish = start OR mask m"
    using st \<open>start OR mask m \<le> finish\<close> by (simp add: word_le_nat_alt word_unat_eq_iff)
next
  assume a: "start AND NOT (mask m) = start \<and> finish = start OR mask m"
  have "m \<le> 32" using assms by simp
  note b = unat_block [OF _ this, of start]
  show "cidr start finish k"
    unfolding cidr_def assms(1) [symmetric]
  proof
    fix x :: u32
    define q where "q = unat (drop_bit m start)"
    have s: "unat start = q * 2 ^ m" "unat finish = q * 2 ^ m + (2 ^ m - 1)"
      using a b unfolding q_def by simp_all
    have "drop_bit m x = drop_bit m start \<longleftrightarrow> unat x div 2 ^ m = q"
      unfolding word_unat_eq_iff unat_drop_bit_u32 [of m x] q_def ..
    also have "\<dots> \<longleftrightarrow> q * 2 ^ m \<le> unat x \<and> unat x < q * 2 ^ m + 2 ^ m" by (rule div_block) simp
    also have "\<dots> \<longleftrightarrow> start \<le> x \<and> x \<le> finish"
      unfolding word_le_nat_alt s using zero_less_power [of "2 :: nat" m, OF zero_less_numeral] by (safe; linarith)
    finally show "start \<le> x \<and> x \<le> finish \<longleftrightarrow> drop_bit m x = drop_bit m start" by simp
  qed
qed

definition routeBytes :: "u32 \<Rightarrow> u32 \<Rightarrow> u32 \<Rightarrow> bytes" where
  "routeBytes kind start finish = put_u32 kind @ put_u32 0xffff @ put_u32 start @ put_u32 finish"

text \<open>Where a route of a kind goes.\<close>

definition addRoute :: "u32 \<Rightarrow> TunnelRoute \<Rightarrow> pulseConfigurationAccumulator \<Rightarrow> pulseConfigurationAccumulator" where
  "addRoute kind route acc = acc\<lparr>accConfiguration :=
     (if kind = 0x07000010 then (accConfiguration acc)\<lparr>Routes := Routes (accConfiguration acc) @ [route]\<rparr>
      else (accConfiguration acc)\<lparr>ExcludedRoutes := ExcludedRoutes (accConfiguration acc) @ [route]\<rparr>)\<rparr>"

lemma parsePulseIPv4Route_cidr:
  "parsePulseIPv4Route (routeBytes kind start finish) acc = Inr acc' \<longleftrightarrow>
     (kind = 0x07000010 \<or> kind = 0xf1000010) \<and>
     (\<exists>k \<le> 32. cidr start finish k \<and> acc' = addRoute kind (prefixRoute (PrefixFrom (Addr4 (put_u32 start)) (int k))) acc)"
proof -
  let ?k = "OnesCount32 (NOT (start XOR finish))"
  have f: "length (routeBytes kind start finish) = 16" "get_u32 (subslice (routeBytes kind start finish) 4 8) = 0xffff"
    "get_u32 (subslice (routeBytes kind start finish) 8 12) = start" "get_u32 (subslice (routeBytes kind start finish) 12 16) = finish"
    "get_u32 (take 4 (routeBytes kind start finish)) = kind"
    by (simp_all add: routeBytes_def subslice_def)
  note test = route_test [of ?k start finish, OF refl] cidr_block [OF refl OnesCount32_le, symmetric]
  have unique: "k = ?k" if "k \<le> 32" "cidr start finish k" for k
  proof -
    have a: "start AND NOT (mask (32 - k)) = start" "finish = start OR mask (32 - k)"
      using cidr_block [OF refl that(1)] that(2) by auto
    then have "\<not> bit start i" if "i < 32 - k" for i
      using that by (metis bit_and_iff bit_mask_iff bit_not_iff bit_imp_possible_bit)
    then have "start XOR finish = mask (32 - k)" using a(2) by (intro bit_word_eqI) (auto simp: bit_simps)
    then show ?thesis using OnesCount32_mask [of "32 - k"] that(1) by simp
  qed
  have "parsePulseIPv4Route (routeBytes kind start finish) acc = Inr acc' \<longleftrightarrow>
     (kind = 0x07000010 \<or> kind = 0xf1000010) \<and> cidr start finish ?k \<and>
     acc' = addRoute kind (prefixRoute (PrefixFrom (Addr4 (put_u32 start)) (int ?k))) acc"
    unfolding parsePulseIPv4Route_def f Let_def using test by (auto simp: addRoute_def)
  then show ?thesis using unique OnesCount32_le by auto
qed

section \<open>Well-formed configurations\<close>

definition wf_prefix :: "prefix \<Rightarrow> bool" where
  "wf_prefix p \<longleftrightarrow> wf_addr (prefixAddr p) \<and> (\<exists>b. prefixBits p = Some b \<and> 0 \<le> b \<and> b \<le> BitLen (prefixAddr p))"

text \<open>\<open>d\<close> is the option that disables IPv6.\<close>

definition fits :: "bool \<Rightarrow> addr \<Rightarrow> bool" where
  "fits d a \<longleftrightarrow> wf_addr a \<and> addrValid a \<and> \<not> (d \<and> Is6 a)"

definition wf_conf :: "bool \<Rightarrow> TunnelConfiguration \<Rightarrow> bool" where
  "wf_conf d c \<longleftrightarrow>
     list_all (\<lambda>p. wf_prefix p \<and> fits d (prefixAddr p)) (Addresses c) \<and>
     list_all (\<lambda>r. wf_prefix (Prefix r) \<and> fits d (prefixAddr (Prefix r))) (Routes c @ ExcludedRoutes c) \<and>
     list_all (fits d) (DNS c) \<and> length (DNS c) \<le> 3 \<and> list_all (fits d) (NBNS c) \<and> length (NBNS c) \<le> 3 \<and>
     [] \<notin> set (SearchDomains c)"

definition wf_accumulator :: "bool \<Rightarrow> pulseConfigurationAccumulator \<Rightarrow> bool" where
  "wf_accumulator d acc \<longleftrightarrow>
     wf_conf d (accConfiguration acc) \<and>
     (accAssignedIPv4 acc = NoAddr \<or> wf_address4 (accAssignedIPv4 acc) \<and> \<not> IsUnspecified (accAssignedIPv4 acc) \<and> \<not> IsMulticast (accAssignedIPv4 acc)) \<and>
     (accIPv4Netmask acc = NoAddr \<or> wf_address4 (accIPv4Netmask acc)) \<and>
     (accAssignedIPv6 acc = NoAddr \<or> \<not> d \<and> fits d (accAssignedIPv6 acc) \<and> Is6 (accAssignedIPv6 acc) \<and> Addresses (accConfiguration acc) \<noteq> [])"

lemma fits_4: "length bs = 4 \<Longrightarrow> fits d (Addr4 bs)" and fits_6: "length bs = 16 \<Longrightarrow> \<not> d \<Longrightarrow> fits d (Addr6 bs)"
  by (simp_all add: fits_def addrValid_def)

lemma appendServer_fits:
  "list_all (fits d) as \<Longrightarrow> fits d a \<Longrightarrow> list_all (fits d) (appendServer as a)" "length as \<le> 3 \<Longrightarrow> length (appendServer as a) \<le> 3"
  by (simp_all add: appendServer_def)

lemma wf_prefix_from: "wf_addr a \<Longrightarrow> addrValid a \<Longrightarrow> 0 \<le> b \<Longrightarrow> b \<le> BitLen a \<Longrightarrow> wf_prefix (PrefixFrom a b)"
  by (simp add: wf_prefix_def PrefixFrom_def addrValid_def)

lemma Masked_wf: "wf_prefix p \<Longrightarrow> wf_prefix (Masked p) \<and> (fits d (prefixAddr p) \<longrightarrow> fits d (prefixAddr (Masked p)))"
  by (cases "prefixAddr p") (auto simp: wf_prefix_def Masked_def fits_def addrValid_def)

lemma wf_conf_updates:
  assumes "wf_conf d c"
  shows "fits d a \<Longrightarrow> wf_conf d (c\<lparr>DNS := appendServer (DNS c) a\<rparr>)"
    "fits d a \<Longrightarrow> wf_conf d (c\<lparr>NBNS := appendServer (NBNS c) a\<rparr>)"
    "wf_prefix p \<Longrightarrow> fits d (prefixAddr p) \<Longrightarrow> wf_conf d (c\<lparr>Addresses := Addresses c @ [p]\<rparr>)"
    "wf_prefix p \<Longrightarrow> fits d (prefixAddr p) \<Longrightarrow> wf_conf d (c\<lparr>Routes := Routes c @ [prefixRoute p]\<rparr>)"
    "wf_prefix p \<Longrightarrow> fits d (prefixAddr p) \<Longrightarrow> wf_conf d (c\<lparr>ExcludedRoutes := ExcludedRoutes c @ [prefixRoute p]\<rparr>)"
    "x \<noteq> [] \<Longrightarrow> wf_conf d (c\<lparr>SearchDomains := SearchDomains c @ [x]\<rparr>)"
    "wf_conf d (c\<lparr>MTU := m\<rparr>)"
  using assms appendServer_fits by (simp_all add: wf_conf_def prefixRoute_def)

lemma wf_accumulator_conf:
  "wf_accumulator d acc \<Longrightarrow> wf_conf d c \<Longrightarrow> (Addresses c = [] \<Longrightarrow> Addresses (accConfiguration acc) = []) \<Longrightarrow>
     wf_accumulator d (acc\<lparr>accConfiguration := c\<rparr>)"
  by (auto simp: wf_accumulator_def)

lemma wf_accumulatorD: "wf_accumulator d acc \<Longrightarrow> wf_conf d (accConfiguration acc)"
  by (simp add: wf_accumulator_def)

lemma pulseIPv4Attribute_4: "ensures (\<lambda>a. \<exists>bs. a = Addr4 bs \<and> length bs = 4) (pulseIPv4Attribute content)"
  by (simp add: ensures_def pulseIPv4Attribute_def)

lemma ensures_case_id:
  "ensures P r \<Longrightarrow> (\<And>y. r = Inr y \<Longrightarrow> P y \<Longrightarrow> ensures Q (g y)) \<Longrightarrow> ensures Q (case r of Inl e \<Rightarrow> Inl e | Inr y \<Rightarrow> g y)"
  by (cases r) (simp_all add: ensures_def)

lemma uint_le_128: "\<not> b > 128 \<Longrightarrow> uint (b :: byte) \<le> 128"
  by (simp add: word_less_def)

lemma wf_accumulator_addresses:
  assumes "wf_accumulator d acc"
  shows "length bs = 4 \<Longrightarrow> \<not> (IsUnspecified (Addr4 bs) \<or> IsMulticast (Addr4 bs)) \<Longrightarrow> wf_accumulator d (acc\<lparr>accAssignedIPv4 := Addr4 bs\<rparr>)"
    "length bs = 4 \<Longrightarrow> wf_accumulator d (acc\<lparr>accIPv4Netmask := Addr4 bs\<rparr>)"
    "wf_prefix (PrefixFrom (Addr6 bs) b) \<Longrightarrow> fits d (Addr6 bs) \<Longrightarrow> \<not> d \<Longrightarrow> wf_accumulator d (acc\<lparr>accAssignedIPv6 := Addr6 bs,
       accConfiguration := (accConfiguration acc)\<lparr>Addresses := Addresses (accConfiguration acc) @ [PrefixFrom (Addr6 bs) b]\<rparr>\<rparr>)"
proof -
  show "length bs = 4 \<Longrightarrow> \<not> (IsUnspecified (Addr4 bs) \<or> IsMulticast (Addr4 bs)) \<Longrightarrow> wf_accumulator d (acc\<lparr>accAssignedIPv4 := Addr4 bs\<rparr>)"
    "length bs = 4 \<Longrightarrow> wf_accumulator d (acc\<lparr>accIPv4Netmask := Addr4 bs\<rparr>)"
    using assms by (simp_all add: wf_accumulator_def wf_address4_def)
  assume a: "wf_prefix (PrefixFrom (Addr6 bs) b)" "fits d (Addr6 bs)" "\<not> d"
  moreover have "wf_conf d ((accConfiguration acc)\<lparr>Addresses := Addresses (accConfiguration acc) @ [PrefixFrom (Addr6 bs) b]\<rparr>)"
    using a by (intro wf_conf_updates wf_accumulatorD [OF assms]) (simp_all add: PrefixFrom_def)
  ultimately show "wf_accumulator d (acc\<lparr>accAssignedIPv6 := Addr6 bs,
       accConfiguration := (accConfiguration acc)\<lparr>Addresses := Addresses (accConfiguration acc) @ [PrefixFrom (Addr6 bs) b]\<rparr>\<rparr>)"
    using assms by (simp add: wf_accumulator_def)
qed

lemma prefix6_wf:
  assumes "\<not> (length content \<noteq> 17 \<or> content ! 16 > 128)"
  shows "wf_prefix (PrefixFrom (Addr6 (take 16 content)) (uint (content ! 16)))" "\<not> d \<Longrightarrow> fits d (Addr6 (take 16 content))"
  using assms uint_le_128 by (auto intro!: wf_prefix_from fits_6 simp: addrValid_def)

lemma prefixAddr_from: "prefixAddr (PrefixFrom a b) = a"
  by (simp add: PrefixFrom_def)

lemma masked6_wf:
  assumes "\<not> (length content \<noteq> 17 \<or> content ! 16 > 128)" "\<not> d"
  shows "wf_prefix (Masked (PrefixFrom (Addr6 (take 16 content)) (uint (content ! 16))))"
    "fits d (prefixAddr (Masked (PrefixFrom (Addr6 (take 16 content)) (uint (content ! 16)))))"
  using Masked_wf [OF prefix6_wf(1) [OF assms(1)], of d] prefix6_wf(2) [OF assms] by (simp_all add: prefixAddr_from)

lemma applyAddressAttribute_wf:
  assumes "wf_accumulator d acc"
  shows "ensures (wf_accumulator d) (applyAddressAttribute d acc attributeType content)"
proof -
  note upd = wf_accumulator_conf [OF assms] and four = ensures_case_id [OF pulseIPv4Attribute_4]
  note u = wf_conf_updates [OF wf_accumulatorD [OF assms]] and w = wf_accumulator_addresses [OF assms]
  have dns: "wf_accumulator d (acc\<lparr>accConfiguration := (accConfiguration acc)\<lparr>DNS := appendServer (DNS (accConfiguration acc)) a\<rparr>\<rparr>)"
    and nbns: "wf_accumulator d (acc\<lparr>accConfiguration := (accConfiguration acc)\<lparr>NBNS := appendServer (NBNS (accConfiguration acc)) a\<rparr>\<rparr>)"
    if "fits d a" for a
    using that by (intro upd u; simp)+
  have routes: "wf_accumulator d (acc\<lparr>accConfiguration := (if b then (accConfiguration acc)\<lparr>Routes := Routes (accConfiguration acc) @ [prefixRoute p]\<rparr>
      else (accConfiguration acc)\<lparr>ExcludedRoutes := ExcludedRoutes (accConfiguration acc) @ [prefixRoute p]\<rparr>)\<rparr>)"
    if "wf_prefix p" "fits d (prefixAddr p)" for b p
    using that u(4,5) by (intro upd) (simp_all split: if_split_asm)
  show ?thesis
    unfolding applyAddressAttribute_def Let_def
    apply (intro ensures_intros four)
    subgoal by (elim exE conjE) (simp add: w(1))
    subgoal by (elim exE conjE) (simp add: w(2))
    subgoal by (elim exE conjE) (simp add: dns fits_4)
    subgoal by (elim exE conjE) (simp add: nbns fits_4)
    subgoal by (rule assms)
    subgoal by (intro w(3) prefix6_wf)
    subgoal by (rule assms)
    subgoal by (intro dns fits_6) simp_all
    subgoal by (rule assms)
    subgoal by (intro routes masked6_wf)
    subgoal by (rule assms)
    done
qed

lemma applyParameterAttribute_wf:
  assumes "wf_accumulator d acc"
  shows "ensures (wf_accumulator d) (applyParameterAttribute acc attributeType content)"
proof -
  note c = wf_accumulatorD [OF assms] and upd = wf_accumulator_conf [OF assms]
  note u = wf_conf_updates [OF c]
  have others: "wf_accumulator d (acc\<lparr>accESPEncryption := e\<rparr>)" "wf_accumulator d (acc\<lparr>accESPAuthentication := a\<rparr>)"
    "wf_accumulator d (acc\<lparr>accESPReplay := b\<rparr>)" "wf_accumulator d (acc\<lparr>accESPPort := n\<rparr>)"
    "wf_accumulator d (acc\<lparr>accESPFallback := t\<rparr>)" "wf_accumulator d (acc\<lparr>accESPCrossFamily := b\<rparr>)" for e a b n t
    using assms by (simp_all add: wf_accumulator_def)
  show ?thesis
    unfolding applyParameterAttribute_def Let_def
    by (intro ensures_intros) (use assms in \<open>auto intro!: upd u others simp: goString_def\<close>)
qed

lemma applyPulseAttribute_wf:
  "wf_accumulator d acc \<Longrightarrow> ensures (wf_accumulator d) (applyPulseAttribute d acc attributeType content)"
  unfolding applyPulseAttribute_def by (simp add: applyAddressAttribute_wf applyParameterAttribute_wf)

lemma pulseAttributeLoop_wf: "wf_accumulator d acc \<Longrightarrow> ensures (wf_accumulator d) (pulseAttributeLoop d content acc)"
proof (induction d content acc rule: pulseAttributeLoop.induct)
  case (1 d content acc)
  show ?case
    unfolding pulseAttributeLoop.simps [of d content acc] Let_def
    by (intro ensures_intros ensures_case_id [OF applyPulseAttribute_wf [OF 1(2)]] 1(2) 1(1) [OF _ _ refl refl]) assumption+
qed

lemma parsePulseAttributeBlock_wf:
  "wf_accumulator d acc \<Longrightarrow> ensures (wf_accumulator d) (parsePulseAttributeBlock d content acc)"
  unfolding parsePulseAttributeBlock_def by (intro ensures_intros pulseAttributeLoop_wf)

lemma parsePulseIPv4Route_wf:
  assumes "wf_accumulator d acc"
  shows "ensures (wf_accumulator d) (parsePulseIPv4Route content acc)"
proof -
  note u = wf_conf_updates(4,5) [OF wf_accumulatorD [OF assms]]
  have "wf_prefix (PrefixFrom (Addr4 (put_u32 x)) (int (OnesCount32 y)))" for x y
    using OnesCount32_le [of y] by (intro wf_prefix_from) (simp_all add: addrValid_def)
  then show ?thesis
    unfolding parsePulseIPv4Route_def Let_def
    by (intro ensures_intros wf_accumulator_conf [OF assms] u) (simp_all add: prefixAddr_from fits_4)
qed

lemma pulseRouteLoop_wf: "wf_accumulator d acc \<Longrightarrow> ensures (wf_accumulator d) (pulseRouteLoop content acc)"
proof (induction content acc rule: pulseRouteLoop.induct)
  case (1 content acc)
  show ?case
    unfolding pulseRouteLoop.simps [of content acc]
    by (intro ensures_intros ensures_case_id [OF parsePulseIPv4Route_wf [OF 1(2)]] 1(2) 1(1)) assumption+
qed

lemma pulseLeadingLoop_wf:
  "wf_accumulator d acc \<Longrightarrow> ensures (\<lambda>(rest, acc). wf_accumulator d acc) (pulseLeadingLoop d content acc)"
proof (induction d content acc rule: pulseLeadingLoop.induct)
  case (1 d content acc)
  show ?case
    unfolding pulseLeadingLoop.simps [of d content acc] Let_def
    by (intro ensures_intros ensures_case_id [OF parsePulseAttributeBlock_wf [OF 1(2)]] 1(1) [OF _ refl refl]) simp_all
qed

lemma pulseFinalBlocks_wf:
  assumes "wf_accumulator d acc"
  shows "ensures (wf_accumulator d) (pulseFinalBlocks d content acc)"
  unfolding pulseFinalBlocks_def Let_def
  by (intro ensures_intros ensures_case_id [OF pulseRouteLoop_wf [OF assms]] ensures_map_sum [OF parsePulseAttributeBlock_wf])
    (simp_all add: wf_accumulator_def)

lemma parsePulseMainConfiguration_wf:
  assumes "wf_accumulator d acc"
  shows "ensures (wf_accumulator d) (parsePulseMainConfiguration d payload acc)"
proof -
  have "ensures (wf_accumulator d) (case pulseLeadingLoop d (drop 28 payload) acc of Inl err \<Rightarrow> Inl err
      | Inr (rest, acc') \<Rightarrow> pulseFinalBlocks d rest acc')"
    using pulseLeadingLoop_wf [OF assms] pulseFinalBlocks_wf
    by (intro ensures_case_id [OF pulseLeadingLoop_wf [OF assms]]) auto
  then show ?thesis unfolding parsePulseMainConfiguration_def using pulseFinalBlocks_wf [OF assms] by simp
qed

text \<open>The keys of an ESP configuration make a key set.\<close>

definition usable_keys :: "pulseESPConfiguration \<Rightarrow> bool" where
  "usable_keys e \<longleftrightarrow> (\<exists>random keys. newESPKeySet (pulseKeyConfiguration e) random = Inr keys)"

definition wf_reading :: "bool \<Rightarrow> 'w pulse_reading \<Rightarrow> bool" where
  "wf_reading d s \<longleftrightarrow> wf_accumulator d (rdAccumulator s) \<and> pred_option usable_keys (rdESP s)"

lemma parsePulseESPConfiguration_keys:
  assumes "parsePulseESPConfiguration payload acc a draws = Some (Inr (e, response), rest)"
  shows "\<exists>enc auth n random keys. newESPKeySet (pulseKeyConfiguration e) random = Inr keys \<and>
    response = pulseESPResponse n enc auth payload \<and> pulseESPConfigurationFrameValid payload \<and>
    encryptionKeyLength (accESPEncryption acc) + authenticationKeyLength (accESPAuthentication acc) \<le> 64 \<and>
    Encryption (pulseKeyConfiguration e) = accESPEncryption acc \<and> Authentication (pulseKeyConfiguration e) = accESPAuthentication acc \<and>
    Outbound (pulseKeyConfiguration e) = secretMaterial (accESPEncryption acc) (accESPAuthentication acc)
      (get_le32 (subslice payload 36 40)) (drop 42 payload) \<and>
    Inbound (pulseKeyConfiguration e) = \<lparr>SPI = n, EncryptionKey = enc, AuthenticationKey = auth\<rparr>"
proof -
  let ?e = "accESPEncryption acc" and ?a = "accESPAuthentication acc"
  obtain enc auth n random rest' keys where f: "pulseESPConfigurationFrameValid payload" "\<not> encryptionKeyLength ?e + authenticationKeyLength ?a > 64"
    and d: "drawClientKeys draws = Some (Inr (enc, auth, n), random # rest')"
    and k: "newESPKeySet \<lparr>Encryption = ?e, Authentication = ?a,
        Outbound = secretMaterial ?e ?a (get_le32 (subslice payload 36 40)) (drop 42 payload),
        Inbound = \<lparr>SPI = n, EncryptionKey = enc, AuthenticationKey = auth\<rparr>, DisableReplayProtection = \<not> accESPReplay acc\<rparr> random = Inr keys"
    using assms unfolding parsePulseESPConfiguration_def Let_def
    by (clarsimp split: if_split_asm option.split_asm prod.split_asm sum.split_asm list.split_asm)
  have g: "\<not> (length payload < 42 + 64 \<or> encryptionKeyLength ?e = 0 \<or> authenticationKeyLength ?a = 0 \<or> accESPPort acc = 0)"
    using assms f(1) unfolding parsePulseESPConfiguration_def Let_def by (simp split: if_split_asm)
  show ?thesis
    using assms f k unfolding parsePulseESPConfiguration_def Let_def d if_not_P [OF g]
    by (intro exI [of _ enc] exI [of _ auth] exI [of _ n] exI [of _ random] exI [of _ keys]) auto
qed

lemma pulseESPFrame_wf:
  assumes "wf_reading d s" "pulseESPFrame w a payload s = Some (s', flow)"
  shows "wf_reading d s'"
proof (cases "parsePulseESPConfiguration payload (rdAccumulator s) a (rdDraws s)")
  case (Some x)
  show ?thesis
  proof (cases "fst x")
    case (Inl e)
    then show ?thesis using assms Some by (cases x) (auto simp: pulseESPFrame_def wf_reading_def)
  next
    case (Inr y)
    obtain new response draws where x: "x = (Inr (new, response), draws)" using Inr by (cases x; cases y) auto
    have "usable_keys new"
      using Some parsePulseESPConfiguration_keys unfolding x usable_keys_def by blast
    then show ?thesis
      using assms Some by (auto simp: x pulseESPFrame_def wf_reading_def split: prod.split_asm sum.split_asm)
  qed
qed (use assms in \<open>simp add: pulseESPFrame_def\<close>)

lemma pulseFrame_wf:
  assumes "wf_reading d s" "pulseFrame w d u a f s = Some (s', flow)"
  shows "wf_reading d s'"
proof -
  have m: "wf_reading d (s\<lparr>rdAccumulator := acc\<rparr>)" if "parsePulseMainConfiguration d p (rdAccumulator s) = Inr acc" for p acc
    using ensuresD [OF parsePulseMainConfiguration_wf that] assms(1) by (simp add: wf_reading_def)
  show ?thesis
    using assms m pulseESPFrame_wf [OF assms(1), of w a] unfolding pulseFrame_def Let_def
    by (auto split: if_split_asm sum.split_asm)
qed

lemma pulseFrameLoop_wf:
  "wf_reading d s \<Longrightarrow> pulseFrameLoop w d u a s = Some (s', r) \<Longrightarrow> wf_reading d s'"
proof (induction w d u a s rule: pulseFrameLoop.induct)
  case (1 w d u a s)
  obtain c x where r: "readFrame (rdConnection s) (int pulseConfigurationFrameLimit) = (c, x)" by force
  have c: "wf_reading d (s\<lparr>rdConnection := c\<rparr>)" using 1(2) by (simp add: wf_reading_def)
  show ?case
  proof (cases x)
    case (Inl e)
    then show ?thesis using 1(3) c unfolding pulseFrameLoop.simps [of w d u a s] r by simp
  next
    case (Inr f)
    show ?thesis
    proof (cases "pulseFrame w d u a f (s\<lparr>rdConnection := c\<rparr>)")
      case (Some y)
      obtain s1 flow where y: "y = (s1, flow)" by (cases y)
      have s1: "wf_reading d s1" using pulseFrame_wf [OF c] Some y by simp
      show ?thesis
        using 1(3) 1(1) [OF r [symmetric] Inr Some y [symmetric]] s1 unfolding pulseFrameLoop.simps [of w d u a s] r Inr
        by (cases flow) (simp_all add: Some y)
    qed (use 1(3) r Inr in \<open>simp add: pulseFrameLoop.simps [of w d u a s]\<close>)
  qed
qed

lemma finishPulseConfiguration_wf:
  assumes "wf_accumulator d acc" "finishPulseConfiguration d a acc esp = Inr t"
  shows "\<exists>c. pulseConfiguration t = normalizeTunnelConfiguration c d \<and> wf_conf d c \<and> Addresses c \<noteq> [] \<and> pulseESP t = esp \<and>
    (if addrValid (pulseAssignedIPv6 t) then 1280 else 576) \<le> unat (MTU c) \<and> unat (MTU c) \<le> 65535 \<and>
    (addrValid (pulseAssignedIPv4 t) \<or> addrValid (pulseAssignedIPv6 t)) \<and> (d \<longrightarrow> pulseAssignedIPv6 t = NoAddr) \<and> RemoteAddress c = Unmap a"
proof -
  let ?conf = "accConfiguration acc"
  have d6: "(if d then acc\<lparr>accAssignedIPv6 := NoAddr\<rparr> else acc) = acc"
    using assms(1) by (cases d) (auto simp: wf_accumulator_def)
  obtain addresses where v: "addrValid (accAssignedIPv4 acc) \<or> addrValid (accAssignedIPv6 acc)" "\<not> (d \<and> \<not> addrValid (accAssignedIPv4 acc))"
    and m: "\<not> MTU ?conf < (if addrValid (accAssignedIPv6 acc) then 1280 else 576)" "\<not> MTU ?conf > 65535"
    and n: "addrValid (accAssignedIPv4 acc) \<Longrightarrow> addrValid (accIPv4Netmask acc)"
    and p: "(if addrValid (accAssignedIPv4 acc)
         then map_sum markTerminal (\<lambda>p. Addresses ?conf @ [p]) (pulseIPv4AddressPrefix (accAssignedIPv4 acc) (accIPv4Netmask acc))
         else Inr (Addresses ?conf)) = Inr addresses"
    and t: "t = \<lparr>pulseConfiguration = normalizeTunnelConfiguration (?conf\<lparr>Addresses := addresses, RemoteAddress := Unmap a\<rparr>) d,
       pulseAssignedIPv4 = accAssignedIPv4 acc, pulseAssignedIPv6 = accAssignedIPv6 acc, pulseESP = esp\<rparr>"
    using assms(2) unfolding finishPulseConfiguration_def d6 Let_def
    by (auto split: if_split_asm sum.split_asm simp del: map_sum_id_Inr)
  have "list_all (\<lambda>p. wf_prefix p \<and> fits d (prefixAddr p)) addresses \<and> addresses \<noteq> []"
  proof (cases "addrValid (accAssignedIPv4 acc)")
    case False
    then show ?thesis using p v assms(1) by (auto simp: wf_accumulator_def wf_conf_def addrValid_def)
  next
    case True
    then have w: "wf_address4 (accAssignedIPv4 acc)" "wf_address4 (accIPv4Netmask acc)"
      using assms(1) n by (auto simp: wf_accumulator_def addrValid_def)
    then obtain x y where x: "accAssignedIPv4 acc = Addr4 x" "length x = 4" and y: "accIPv4Netmask acc = Addr4 y" "length y = 4"
      by (auto simp: wf_address4_def Is4_cases)
    obtain q where q: "pulseIPv4AddressPrefix (accAssignedIPv4 acc) (accIPv4Netmask acc) = Inr q" "addresses = Addresses ?conf @ [q]"
      using p True by (cases "pulseIPv4AddressPrefix (accAssignedIPv4 acc) (accIPv4Netmask acc)") auto
    obtain ones bits where i: "IPMaskSize y = (ones, bits)" by force
    have "bits = 32" "q = PrefixFrom (Addr4 x) ones" using q(1) by (simp_all add: pulseIPv4AddressPrefix_def x y i split: if_split_asm)
    moreover obtain k where "k \<le> 32" "ones = int k" using IPMaskSize_netmask [OF y(2), of ones] i calculation(1) by auto
    ultimately have "wf_prefix q" "fits d (prefixAddr q)" using x(2) by (auto intro!: wf_prefix_from simp: addrValid_def prefixAddr_from fits_4)
    then show ?thesis using assms(1) q(2) by (simp add: wf_accumulator_def wf_conf_def)
  qed
  then have "wf_conf d (?conf\<lparr>Addresses := addresses, RemoteAddress := Unmap a\<rparr>)" "addresses \<noteq> []"
    using assms(1) by (simp_all add: wf_accumulator_def wf_conf_def)
  moreover have "(if addrValid (accAssignedIPv6 acc) then 1280 else 576) \<le> unat (MTU ?conf)" "unat (MTU ?conf) \<le> 65535"
    using m by (simp_all add: word_less_nat_alt split: if_split_asm)
  ultimately show ?thesis
    using v assms(1) by (intro exI [of _ "?conf\<lparr>Addresses := addresses, RemoteAddress := Unmap a\<rparr>"]) (auto simp: t wf_accumulator_def)
qed

text \<open>Normalisation keeps a configuration well-formed.\<close>

lemma normalize_wf_conf:
  assumes "wf_conf d c"
  shows "wf_conf d (normalizeTunnelConfiguration c d)" "Addresses (normalizeTunnelConfiguration c d) = Addresses c"
    "MTU (normalizeTunnelConfiguration c d) = MTU c"
proof -
  have f: "list_all (fits True) as \<Longrightarrow> filter (\<lambda>a. \<not> Is6 a) as = as" for as
    by (induction as) (auto simp: fits_def)
  have fp: "list_all (\<lambda>p. wf_prefix p \<and> fits True (prefixAddr p)) ps \<Longrightarrow> filter (\<lambda>p. \<not> Is6 (prefixAddr p)) ps = ps" for ps
    by (induction ps) (auto simp: fits_def)
  have fr: "list_all (\<lambda>r. wf_prefix (Prefix r) \<and> fits True (prefixAddr (Prefix r))) rs \<Longrightarrow> filter (\<lambda>r. \<not> Is6 (prefixAddr (Prefix r))) rs = rs" for rs
    by (induction rs) (auto simp: fits_def)
  let ?c = "if d then withoutIPv6 c else c"
  have w: "wf_conf d ?c" "Addresses ?c = Addresses c" "MTU ?c = MTU c"
    using assms by (auto simp: withoutIPv6_def wf_conf_def f fp fr)
  have r4: "wf_prefix (Prefix (defaultRoute IPv4Unspecified))" "fits d (prefixAddr (Prefix (defaultRoute IPv4Unspecified)))"
    by (auto simp: defaultRoute_def prefixAddr_from IPv4Unspecified_def fits_def addrValid_def intro!: wf_prefix_from)
  have r6: "wf_prefix (Prefix (defaultRoute IPv6Unspecified))" "\<not> d \<Longrightarrow> fits d (prefixAddr (Prefix (defaultRoute IPv6Unspecified)))"
    by (auto simp: defaultRoute_def prefixAddr_from IPv6Unspecified_def fits_def addrValid_def intro!: wf_prefix_from)
  have no6: "\<not> hasIPv6 (map prefixAddr (Addresses ?c))" if d
    using w(1) that by (auto simp: wf_conf_def hasIPv6_def list_all_iff list_ex_iff fits_def)
  have add: "wf_conf d (c\<lparr>Routes := Routes c @ [r]\<rparr>)" if "wf_conf d c" "wf_prefix (Prefix r)" "fits d (prefixAddr (Prefix r))" for c r
    using that by (simp add: wf_conf_def)
  show "wf_conf d (normalizeTunnelConfiguration c d)"
    unfolding normalizeTunnelConfiguration_def Let_def using w(1) add r4 r6 no6 by (cases d) auto
  show "Addresses (normalizeTunnelConfiguration c d) = Addresses c" "MTU (normalizeTunnelConfiguration c d) = MTU c"
    using w(2,3) unfolding normalizeTunnelConfiguration_def Let_def by (simp_all split: if_split_asm)
qed


section \<open>The key exchange\<close>

lemma length_pulseESPResponse:
  assumes "length (espSecret enc auth) = 64" "length payload \<ge> 106"
  shows "length (pulseESPResponse n enc auth payload) = 176"
  using assms by (simp add: pulseESPResponse_def subslice_def length_put_le)

lemma pulseESPResponse_fields:
  assumes "length (espSecret enc auth) = 64" "length payload \<ge> 106"
  shows "pulseESPConfigurationFrameValid (pulseESPResponse n enc auth payload)"
    "get_le32 (subslice (pulseESPResponse n enc auth payload) 36 40) = n"
    "secretMaterial e a m (drop 42 (pulseESPResponse n enc auth payload)) =
       \<lparr>SPI = m, EncryptionKey = take (encryptionKeyLength e) (espSecret enc auth @ subslice payload 36 106),
         AuthenticationKey = subslice (espSecret enc auth @ subslice payload 36 106) (encryptionKeyLength e)
           (encryptionKeyLength e + authenticationKeyLength a)\<rparr>"
proof -
  let ?r = "pulseESPResponse n enc auth payload"
  note l = length_pulseESPResponse [OF assms, of n]
  have "subslice ?r 24 28 = put_u32 176" "subslice ?r 20 24 = [0, 0, 0, 0]" "subslice ?r 16 20 = put_u32 0x21202400"
    "subslice ?r 28 32 = put_u32 148" "subslice ?r 32 36 = put_u32 0x01000000" "subslice ?r 40 42 = put_u16 64"
    "subslice ?r 0 4 = [0, 0, 0, 0]" "subslice ?r 4 8 = [0, 0, 0, 0]" "subslice ?r 8 12 = [0, 0, 0, 0]" "subslice ?r 12 16 = [0, 0, 0, 0]"
    by (simp_all add: pulseESPResponse_def subslice_def length_put_le numeral_eq_Suc)
  moreover have "get_u32 [0, 0, 0, 0] = 0" by code_simp
  ultimately show "pulseESPConfigurationFrameValid ?r"
    unfolding pulseESPConfigurationFrameValid_def pulseConfigurationEnvelopeValid_def l by simp
  show "get_le32 (subslice ?r 36 40) = n"
    by (simp add: pulseESPResponse_def subslice_def length_put_le get_put_le)
  show "secretMaterial e a m (drop 42 ?r) = \<lparr>SPI = m, EncryptionKey = take (encryptionKeyLength e) (espSecret enc auth @ subslice payload 36 106),
         AuthenticationKey = subslice (espSecret enc auth @ subslice payload 36 106) (encryptionKeyLength e)
           (encryptionKeyLength e + authenticationKeyLength a)\<rparr>"
    by (simp add: pulseESPResponse_def secretMaterial_def length_put_le Let_def)
qed


section \<open>Properties\<close>

text \<open>A range of addresses is taken as a route exactly when it is the set of all addresses with some common prefix, and
  the route is then that prefix, added to the routes or to the excluded routes by its kind; every other range or kind is
  refused.\<close>

theorem pulse_route_cidr:
  "parsePulseIPv4Route (routeBytes kind start finish) acc = Inr acc' \<longleftrightarrow>
     (kind = 0x07000010 \<or> kind = 0xf1000010) \<and>
     (\<exists>k \<le> 32. cidr start finish k \<and> acc' = addRoute kind (prefixRoute (PrefixFrom (Addr4 (put_u32 start)) (int k))) acc)"
  by (rule parsePulseIPv4Route_cidr)

text \<open>C20: a configuration that is returned is well typed, whatever frames the server sent: it has an address, an MTU that the
  addresses allow, a route for every address family, prefixes of legal lengths, at most three servers of a kind, no empty
  search domain, nothing of IPv6 when that is disabled, and keys for ESP that make a key set.\<close>

theorem pulse_configuration_type:
  assumes "readPulseConfiguration w d noUDP connection a expires idle draws = Some (connection', Inr t)" "c = pulseConfiguration t"
  shows "wf_conf d c \<and> Addresses c \<noteq> [] \<and> unat (MTU c) \<le> 65535 \<and>
    (if addrValid (pulseAssignedIPv6 t) then 1280 else 576) \<le> unat (MTU c) \<and>
    (addrValid (pulseAssignedIPv4 t) \<or> addrValid (pulseAssignedIPv6 t)) \<and> (d \<longrightarrow> pulseAssignedIPv6 t = NoAddr) \<and>
    routed c \<and> pred_option usable_keys (pulseESP t)"
proof -
  let ?acc = "emptyAccumulator\<lparr>accConfiguration := emptyTunnelConfiguration\<lparr>AuthenticationExpiration := expires, IdleTimeout := idle\<rparr>\<rparr>"
  let ?s = "\<lparr>rdConnection = connection, rdDraws = draws, rdAccumulator = ?acc, rdESP = None\<rparr>"
  have i: "wf_reading d ?s"
    by (simp add: wf_reading_def wf_accumulator_def wf_conf_def emptyAccumulator_def emptyTunnelConfiguration_def)
  obtain s x where l: "pulseFrameLoop w d noUDP a ?s = Some (s, Inr x)"
    and f: "finishPulseConfiguration d a (rdAccumulator s) (rdESP s) = Inr t"
    using assms(1) unfolding readPulseConfiguration_def Let_def by (auto split: option.split_asm prod.split_asm sum.split_asm)
  have w: "wf_accumulator d (rdAccumulator s)" "pred_option usable_keys (rdESP s)"
    using pulseFrameLoop_wf [OF i l] by (simp_all add: wf_reading_def)
  obtain c0 where c0: "c = normalizeTunnelConfiguration c0 d" "wf_conf d c0" "Addresses c0 \<noteq> []" "pulseESP t = rdESP s"
    "(if addrValid (pulseAssignedIPv6 t) then 1280 else 576) \<le> unat (MTU c0)" "unat (MTU c0) \<le> 65535"
    "addrValid (pulseAssignedIPv4 t) \<or> addrValid (pulseAssignedIPv6 t)" "d \<longrightarrow> pulseAssignedIPv6 t = NoAddr"
    using finishPulseConfiguration_wf [OF w(1) f] assms(2) by blast
  show ?thesis
    using normalize_wf_conf [OF c0(2)] c0 w(2) normalize_routed by simp
qed

definition sampleAttributes :: bytes where
  "sampleAttributes = [0, 1, 0, 4, 10, 0, 0, 5, 0, 2, 0, 4, 255, 255, 255, 0, 0x40, 5, 0, 4, 0, 0, 5, 0x78]"
definition sampleMain :: bytes where
  "sampleMain = replicate 16 0 @ put_u32 0x2c20f000 @ put_u32 0 @ put_u32 68 @
     [0x2e, 0, 0, 8, 0, 0, 0, 0] @ put_u32 32 @ put_u32 0x03000000 @ sampleAttributes"
definition sampleFrames :: "pulseIFTFrame list" where
  "sampleFrames = [\<lparr>vendor = pulseVendorJuniper, frameType = 1, frameSequence = 0, framePayload = sampleMain\<rparr>,
     \<lparr>vendor = pulseVendorJuniper, frameType = 0x8f, frameSequence = 1, framePayload = []\<rparr>]"

definition sampleConnection :: "bytes pulseIFTConnection" where
  "sampleConnection = \<lparr>iftInput = \<lparr>stream = concat (map iftEnc sampleFrames), final = ioEOF\<rparr>, iftOutput = [],
     pulseIFTConnection.nextSequence = 0\<rparr>"

definition sampleAccumulator :: pulseConfigurationAccumulator where
  "sampleAccumulator = emptyAccumulator\<lparr>accAssignedIPv4 := Addr4 [10, 0, 0, 5], accIPv4Netmask := Addr4 [255, 255, 255, 0],
     accConfiguration := emptyTunnelConfiguration\<lparr>MTU := 1400\<rparr>, mainSeen := True\<rparr>"

lemma sampleMain_read:
  "parsePulseMainConfiguration True sampleMain emptyAccumulator = Inr sampleAccumulator"
  "pulseConfigurationEnvelopeValid sampleMain" "get_u32 (subslice sampleMain 16 20) = 0x2c20f000" "length sampleMain = 68"
  by code_simp+

lemma sample_finish:
  "\<exists>t. finishPulseConfiguration True (Addr4 [1, 2, 3, 4]) sampleAccumulator None = Inr t \<and> pulseAssignedIPv4 t = Addr4 [10, 0, 0, 5]"
proof -
  have "map_sum id pulseAssignedIPv4 (finishPulseConfiguration True (Addr4 [1, 2, 3, 4]) sampleAccumulator None) = Inr (Addr4 [10, 0, 0, 5])"
    by code_simp
  then show ?thesis by (cases "finishPulseConfiguration True (Addr4 [1, 2, 3, 4]) sampleAccumulator None") auto
qed

lemma sample_read:
  "\<exists>c t. readPulseConfiguration collect True True sampleConnection (Addr4 [1, 2, 3, 4]) 0 0 [] = Some (c, Inr t) \<and>
     pulseAssignedIPv4 t = Addr4 [10, 0, 0, 5]"
proof -
  define c1 where "c1 = sampleConnection\<lparr>iftInput := \<lparr>stream = iftEnc (sampleFrames ! 1), final = ioEOF\<rparr>\<rparr>"
  define c2 where "c2 = sampleConnection\<lparr>iftInput := \<lparr>stream = [], final = ioEOF\<rparr>\<rparr>"
  have r: "readFrame sampleConnection (int pulseConfigurationFrameLimit) = (c1, Inr (sampleFrames ! 0))"
    "readFrame c1 (int pulseConfigurationFrameLimit) = (c2, Inr (sampleFrames ! 1))"
    using readFrameBuffer_frame [of "int pulseConfigurationFrameLimit" "sampleFrames ! 0" sampleConnection "iftEnc (sampleFrames ! 1)"]
      readFrameBuffer_frame [of "int pulseConfigurationFrameLimit" "sampleFrames ! 1" c1 "[]"]
    by (simp_all add: readFrame_def ift_fits_def sampleFrames_def sampleMain_read(4) pulseConfigurationFrameLimit_def sampleConnection_def
        c1_def c2_def)
  have e: "emptyTunnelConfiguration\<lparr>AuthenticationExpiration := 0, IdleTimeout := 0\<rparr> = emptyTunnelConfiguration"
    "emptyAccumulator\<lparr>accConfiguration := emptyTunnelConfiguration\<rparr> = emptyAccumulator"
    by (simp_all add: emptyTunnelConfiguration_def emptyAccumulator_def)
  let ?s = "\<lparr>rdConnection = sampleConnection, rdDraws = [], rdAccumulator = emptyAccumulator, rdESP = None\<rparr>"
  have "pulseFrameLoop collect True True (Addr4 [1, 2, 3, 4]) ?s =
    Some (\<lparr>rdConnection = c2, rdDraws = [], rdAccumulator = sampleAccumulator, rdESP = None\<rparr>, Inr ())"
    by (subst pulseFrameLoop.simps, simp add: r sampleFrames_def pulseFrame_def sampleMain_read)
      (subst pulseFrameLoop.simps, simp add: r sampleFrames_def pulseFrame_def)
  then show ?thesis using sample_finish unfolding readPulseConfiguration_def e Let_def by auto
qed

theorem pulse_configuration_type_witness:
  "\<exists>c t. readPulseConfiguration collect True True sampleConnection (Addr4 [1, 2, 3, 4]) 0 0 [] = Some (c, Inr t) \<and>
     wf_conf True (pulseConfiguration t) \<and> Addresses (pulseConfiguration t) \<noteq> [] \<and> 576 \<le> unat (MTU (pulseConfiguration t))"
proof -
  obtain c t where r: "readPulseConfiguration collect True True sampleConnection (Addr4 [1, 2, 3, 4]) 0 0 [] = Some (c, Inr t)"
    using sample_read by blast
  from pulse_configuration_type [OF r refl] r show ?thesis by (auto split: if_split_asm)
qed

text \<open>The ESP key exchange works: the client's reply is itself a valid ESP configuration frame, and a server that takes
  its keys from it the way the client takes them from the server's frame builds a key set paired with the client's in both
  directions.\<close>

theorem pulse_esp_key_exchange:
  assumes "parsePulseESPConfiguration payload acc a draws = Some (Inr (e, response), rest)"
    "newESPKeySet (pulseKeyConfiguration e) random = Inr keys" "length (iv (outbound keys)) = 16" "length iv' = 16"
  shows "\<exists>serverKeys. pulseESPConfigurationFrameValid response \<and>
    newESPKeySet \<lparr>Encryption = accESPEncryption acc, Authentication = accESPAuthentication acc,
      Outbound = secretMaterial (accESPEncryption acc) (accESPAuthentication acc) (get_le32 (subslice response 36 40)) (drop 42 response),
      Inbound = secretMaterial (accESPEncryption acc) (accESPAuthentication acc) (get_le32 (subslice payload 36 40)) (drop 42 payload),
      DisableReplayProtection = r\<rparr> (Inr iv') = Inr serverKeys \<and>
    paired keys serverKeys \<and> paired serverKeys keys"
proof -
  let ?e = "accESPEncryption acc" and ?a = "accESPAuthentication acc"
  obtain enc auth n random' keys' where k: "newESPKeySet (pulseKeyConfiguration e) random' = Inr keys'"
    and response: "response = pulseESPResponse n enc auth payload" and v: "pulseESPConfigurationFrameValid payload"
    and small: "encryptionKeyLength ?e + authenticationKeyLength ?a \<le> 64"
    and c: "Encryption (pulseKeyConfiguration e) = ?e" "Authentication (pulseKeyConfiguration e) = ?a"
      "Outbound (pulseKeyConfiguration e) = secretMaterial ?e ?a (get_le32 (subslice payload 36 40)) (drop 42 payload)"
      "Inbound (pulseKeyConfiguration e) = \<lparr>SPI = n, EncryptionKey = enc, AuthenticationKey = auth\<rparr>"
    using parsePulseESPConfiguration_keys [OF assms(1)] by blast
  obtain inb where "newESPSecurityAssociation ?e ?a \<lparr>SPI = n, EncryptionKey = enc, AuthenticationKey = auth\<rparr> False random' = Inr inb"
    using k c by (auto simp: newESPKeySet_def split: sum.split_asm)
  note l = newESPSecurityAssociation_checked(4,5) [OF this, simplified]
  note secret = espSecret_keys [OF l small]
  have p: "length payload \<ge> 106" using v by (simp add: pulseESPConfigurationFrameValid_def)
  note f = pulseESPResponse_fields [OF secret(2) p, where n = n, folded response]
  have m: "secretMaterial ?e ?a n (drop 42 response) = secretMaterial ?e ?a n (espSecret enc auth)"
    unfolding f(3) using small secret(2) by (simp add: secretMaterial_def Let_def subslice_def)
  show ?thesis
    using mirrored_paired [OF assms(2-4) refl, of r] f(1,2) by (simp add: m secret(1) c)
qed

definition sampleESPFrame :: bytes where
  "sampleESPFrame = replicate 16 0 @ put_u32 0x21202400 @ put_u32 0 @ put_u32 106 @ put_u32 78 @ put_u32 0x01000000 @
     put_le32 7 @ put_u16 64 @ replicate 64 1"

definition sampleESPAccumulator :: pulseConfigurationAccumulator where
  "sampleESPAccumulator = emptyAccumulator\<lparr>accESPEncryption := espEncryptionAES128CBC,
     accESPAuthentication := espAuthenticationHMACSHA196, accESPPort := 4500\<rparr>"

lemma sample_esp:
  "\<exists>e response rest keys. parsePulseESPConfiguration sampleESPFrame sampleESPAccumulator (Addr4 [1, 2, 3, 4])
       [Inr (replicate 16 1), Inr (replicate 20 2), Inr [0, 0, 0, 9], Inr (replicate 16 3)] = Some (Inr (e, response), rest) \<and>
     newESPKeySet (pulseKeyConfiguration e) (Inr (replicate 16 3)) = Inr keys \<and> length (iv (outbound keys)) = 16"
proof -
  have v: "pulseESPConfigurationFrameValid sampleESPFrame" "length sampleESPFrame = 106"
    "get_le32 (subslice sampleESPFrame 36 40) = 7" by code_simp+
  have "get_u32 [0, 0, 0, 9] = 9" by code_simp
  then have d: "drawClientKeys [Inr (replicate 16 1), Inr (replicate 20 2), Inr [0, 0, 0, 9], Inr (replicate 16 3)] =
      Some (Inr (replicate 16 1, replicate 20 2, 9), [Inr (replicate 16 3)])"
    by (simp add: drawClientKeys_def)
  have s: "drop 42 sampleESPFrame = replicate 64 1" by code_simp
  show ?thesis
    unfolding parsePulseESPConfiguration_def d
    by (simp add: Let_def v s sampleESPAccumulator_def emptyAccumulator_def secretMaterial_def newESPKeySet_def newESPSecurityAssociation_def)
qed

theorem pulse_esp_key_exchange_witness:
  "\<exists>e response rest keys serverKeys. parsePulseESPConfiguration sampleESPFrame sampleESPAccumulator (Addr4 [1, 2, 3, 4])
       [Inr (replicate 16 1), Inr (replicate 20 2), Inr [0, 0, 0, 9], Inr (replicate 16 3)] = Some (Inr (e, response), rest) \<and>
     newESPKeySet (pulseKeyConfiguration e) (Inr (replicate 16 3)) = Inr keys \<and> pulseESPConfigurationFrameValid response \<and>
     paired keys serverKeys \<and> paired serverKeys keys"
proof -
  obtain e response rest keys where p: "parsePulseESPConfiguration sampleESPFrame sampleESPAccumulator (Addr4 [1, 2, 3, 4])
       [Inr (replicate 16 1), Inr (replicate 20 2), Inr [0, 0, 0, 9], Inr (replicate 16 3)] = Some (Inr (e, response), rest)"
    "newESPKeySet (pulseKeyConfiguration e) (Inr (replicate 16 3)) = Inr keys" "length (iv (outbound keys)) = 16"
    using sample_esp by blast
  from pulse_esp_key_exchange [OF p, of "replicate 16 0" False] p show ?thesis by auto
qed

end
