(* ===== verification/Go_Errors.thy ===== *)
theory Go_Errors
  imports Prelude
begin

text \<open>
  How errors are told apart: \<open>errors.Is\<close>, \<open>E.IsMulti\<close> and \<open>E.Cast\<close> walk the tree of an error, an
  error before those it wraps, and \<open>E.Append\<close> joins two of them (\<^verbatim>\<open>errors.go\<close>, and the
  classification of \<^verbatim>\<open>client_supervisor.go\<close>).
\<close>

section \<open>Definitions\<close>

text \<open>An authentication error that may be retried unwraps to the sentinel, not to its cause.\<close>

fun unwrapped :: "go_error \<Rightarrow> go_error list" where
  "unwrapped (Extend e m) = Extend e m # unwrapped e"
| "unwrapped (Cause e m) = Cause e m # unwrapped e"
| "unwrapped (Terminal e) = Terminal e # unwrapped e"
| "unwrapped (Joined es) = Joined es # concat (map unwrapped es)"
| "unwrapped (RetryableAuthentication keys e) = [RetryableAuthentication keys e, Sentinel ErrAuthenticationFailed]"
| "unwrapped e = [e]"

definition IsMulti :: "go_error \<Rightarrow> sentinel list \<Rightarrow> bool" where
  "IsMulti e targets \<longleftrightarrow> list_ex (\<lambda>x. list_ex (\<lambda>s. x = Sentinel s) targets) (unwrapped e)"

fun retryableKeys :: "go_error \<Rightarrow> string list option" where
  "retryableKeys (RetryableAuthentication keys e) = Some keys"
| "retryableKeys e = None"

fun isTerminal :: "go_error \<Rightarrow> bool" where
  "isTerminal (Terminal e) = True"
| "isTerminal e = False"

fun isCertificate :: "go_error \<Rightarrow> bool" where
  "isCertificate (Certificate m) = True"
| "isCertificate e = False"

fun isRekey :: "go_error \<Rightarrow> bool" where
  "isRekey SessionRekey = True"
| "isRekey e = False"

text \<open>\<open>E.Cast\<close> to the type of retryable authentication errors, with their keys, and to a rekey error.\<close>

definition castRetryable :: "go_error \<Rightarrow> string list option" where
  "castRetryable e = (case List.find (\<lambda>x. retryableKeys x \<noteq> None) (unwrapped e) of None \<Rightarrow> None | Some x \<Rightarrow> retryableKeys x)"

definition castRekey :: "go_error \<Rightarrow> bool" where
  "castRekey e \<longleftrightarrow> list_ex isRekey (unwrapped e)"

definition appendError :: "go_error option \<Rightarrow> go_error option \<Rightarrow> string \<Rightarrow> go_error option" where
  "appendError e other m =
     (case other of
        None \<Rightarrow> e
      | Some o' \<Rightarrow> (case e of None \<Rightarrow> Some (Cause o' m) | Some e' \<Rightarrow> Some (Joined [e', Cause o' m])))"

datatype clientSessionErrorClass = clientSessionErrorRetryable | clientSessionErrorTerminal

definition classifyClientSessionError :: "go_error option \<Rightarrow> clientSessionErrorClass" where
  "classifyClientSessionError err =
     (case err of
        None \<Rightarrow> clientSessionErrorRetryable
      | Some e \<Rightarrow>
          if castRetryable e \<noteq> None then clientSessionErrorRetryable
          else if list_ex isTerminal (unwrapped e) then clientSessionErrorTerminal
          else if IsMulti e [ErrMissingServer, ErrUnsupportedFlavor, ErrAuthenticationFailed, ErrInvalidBrowserAuthentication,
            ErrMaterialSourceConflict, ErrInvalidTLSMaterial, ErrDeprecatedCryptoDisabled, ErrProtocolNotSupported, ErrTunnelConfiguration]
          then clientSessionErrorTerminal
          else if list_ex isCertificate (unwrapped e) then clientSessionErrorTerminal
          else clientSessionErrorRetryable)"

section \<open>Lemmas\<close>

lemma unwrapped_self: "e \<in> set (unwrapped e)"
  by (cases e) auto

lemma IsMulti_Joined: "IsMulti (Joined es) targets \<longleftrightarrow> list_ex (\<lambda>e. IsMulti e targets) es"
  by (auto simp: IsMulti_def list_ex_iff)

lemma IsMulti_Cause [simp]: "IsMulti (Cause e m) targets = IsMulti e targets"
  by (auto simp: IsMulti_def list_ex_iff)

text \<open>Appending an error keeps what the first one was.\<close>

lemma appendError_is: "IsMulti e targets \<Longrightarrow> \<exists>e'. appendError (Some e) other m = Some e' \<and> IsMulti e' targets"
  by (auto simp: appendError_def IsMulti_Joined split: option.split)

lemma classify_terminal: "castRetryable (Terminal e) = None \<Longrightarrow> classifyClientSessionError (Some (Terminal e)) = clientSessionErrorTerminal"
  by (simp add: classifyClientSessionError_def)

end
