(* ===== verification/Client_State.thy ===== *)
theory Client_State
  imports Go_Errors Tunnel_Config
begin

text \<open>
  The life cycle state of the client (\<^verbatim>\<open>client.go\<close>, \<^verbatim>\<open>client_supervisor.go\<close>,
  \<^verbatim>\<open>transport.go\<close>): which session is current, which one is published and under which
  revision of the tunnel configuration, and the events for the application. Every section under
  \<open>lifecycleAccess\<close> is one definition.

  A session is a number, and \<open>ready\<close> is what its \<open>Ready\<close> method answers at that moment. The
  channels that are closed and replaced to wake waiters are the number of channels closed so far.
  The counters of sessions and revisions have 64 bits and never wrap in practice: they are natural
  numbers.
\<close>

section \<open>Definitions\<close>

datatype TunnelConfigurationEventReason =
    TunnelConfigurationEventInitial
  | TunnelConfigurationEventReestablishment
  | TunnelConfigurationEventRekey
  | TunnelConfigurationEventPathMTU

record TunnelConfigurationEvent =
  Reason :: TunnelConfigurationEventReason
  Revision :: nat
  Configuration :: TunnelConfiguration

type_synonym session = nat

text \<open>\<open>cancelled\<close> is whether the supervisor's context is; \<open>closeOnce\<close> is whether \<open>Close\<close> has run.\<close>

record client =
  clientStarted :: bool
  clientClosed :: bool
  suspended :: bool
  cancelled :: bool
  closeOnce :: bool
  terminalError :: "go_error option"
  currentSession :: "session option"
  sessionGeneration :: nat
  currentSessionGeneration :: nat
  publishedSession :: "session option"
  publishedSessionGeneration :: nat
  publishedSessionInitialRevision :: nat
  publishedSessionRevision :: nat
  activeTransportSession :: "session option"
  activeTransport :: string
  activeTransportUpdated :: nat
  stateChanged :: nat
  tunnelConfiguration :: TunnelConfiguration
  tunnelConfigurationRevision :: nat
  configurationEvents :: "TunnelConfigurationEvent list"
  configurationEventStopped :: bool
  stableCredentials :: "string \<rightharpoonup> string"

definition newClient :: "(string \<rightharpoonup> string) \<Rightarrow> client" where
  "newClient credentials = \<lparr>clientStarted = False, clientClosed = False, suspended = False, cancelled = False, closeOnce = False,
     terminalError = None, currentSession = None, sessionGeneration = 0, currentSessionGeneration = 0, publishedSession = None,
     publishedSessionGeneration = 0, publishedSessionInitialRevision = 0, publishedSessionRevision = 0,
     activeTransportSession = None, activeTransport = '''', activeTransportUpdated = 0, stateChanged = 0,
     tunnelConfiguration = emptyTunnelConfiguration, tunnelConfigurationRevision = 0, configurationEvents = [],
     configurationEventStopped = False, stableCredentials = credentials\<rparr>"

subsection \<open>Signals and the active transport\<close>

definition signalStateChangedLocked :: "client \<Rightarrow> client" where
  "signalStateChangedLocked c = c\<lparr>stateChanged := stateChanged c + 1\<rparr>"

definition setActiveTransportWithLifecycleLocked :: "string \<Rightarrow> client \<Rightarrow> client" where
  "setActiveTransportWithLifecycleLocked transport c =
     (if activeTransport c \<noteq> transport
      then c\<lparr>activeTransport := transport, activeTransportUpdated := activeTransportUpdated c + 1\<rparr> else c)"

definition setActiveTransport :: "session \<Rightarrow> string \<Rightarrow> client \<Rightarrow> client" where
  "setActiveTransport s transport c =
     (if activeTransportSession c = Some s \<and> (transport = '''' \<or> (\<not> clientClosed c \<and> terminalError c = None))
      then setActiveTransportWithLifecycleLocked transport c else c)"

definition stopActiveTransport :: "session \<Rightarrow> client \<Rightarrow> client" where
  "stopActiveTransport s c =
     (if activeTransportSession c = Some s
      then setActiveTransportWithLifecycleLocked '''' (c\<lparr>activeTransportSession := None\<rparr>) else c)"

subsection \<open>Sessions\<close>

text \<open>What the sections below reset together.\<close>

definition unpublished :: "client \<Rightarrow> client" where
  "unpublished c = c\<lparr>publishedSession := None, publishedSessionGeneration := 0, publishedSessionInitialRevision := 0,
     publishedSessionRevision := 0\<rparr>"

definition setCurrentSession :: "session \<Rightarrow> client \<Rightarrow> client \<times> bool" where
  "setCurrentSession s c =
     (if clientClosed c \<or> cancelled c then (c, False)
      else (signalStateChangedLocked (setActiveTransportWithLifecycleLocked ''''
              ((unpublished (c\<lparr>sessionGeneration := sessionGeneration c + 1, currentSessionGeneration := sessionGeneration c + 1,
                  currentSession := Some s\<rparr>))\<lparr>activeTransportSession := Some s\<rparr>)), True))"

definition publishCurrentSession :: "(session \<Rightarrow> bool) \<Rightarrow> session \<Rightarrow> nat \<Rightarrow> client \<Rightarrow> client \<times> bool" where
  "publishCurrentSession ready s revision c =
     (if clientClosed c \<or> terminalError c \<noteq> None \<or> cancelled c \<or> currentSession c \<noteq> Some s \<or> \<not> ready s then (c, False)
      else (signalStateChangedLocked (c\<lparr>publishedSession := Some s, publishedSessionGeneration := currentSessionGeneration c,
              publishedSessionInitialRevision := revision, publishedSessionRevision := revision\<rparr>), True))"

definition clearCurrentSession :: "session \<Rightarrow> client \<Rightarrow> client" where
  "clearCurrentSession s c =
     signalStateChangedLocked
       (if currentSession c = Some s
        then setActiveTransportWithLifecycleLocked ''''
          ((unpublished (c\<lparr>currentSession := None\<rparr>))\<lparr>activeTransportSession := None\<rparr>)
        else c)"

definition isReady :: "(session \<Rightarrow> bool) \<Rightarrow> client \<Rightarrow> bool" where
  "isReady ready c \<longleftrightarrow> \<not> clientClosed c \<and> terminalError c = None \<and>
     (case currentSession c of None \<Rightarrow> False | Some s \<Rightarrow> publishedSession c = Some s \<and> ready s)"

definition readySession :: "(session \<Rightarrow> bool) \<Rightarrow> client \<Rightarrow> session option" where
  "readySession ready c = (if isReady ready c then currentSession c else None)"

definition readySessionSnapshot :: "(session \<Rightarrow> bool) \<Rightarrow> client \<Rightarrow> (session \<times> nat \<times> nat) option" where
  "readySessionSnapshot ready c =
     (if isReady ready c then Some (the (currentSession c), currentSessionGeneration c, publishedSessionRevision c) else None)"

definition readySessionAtRevision :: "(session \<Rightarrow> bool) \<Rightarrow> nat \<Rightarrow> client \<Rightarrow> (session \<times> nat) option" where
  "readySessionAtRevision ready revision c =
     (if isReady ready c \<and> publishedSessionRevision c = revision
      then Some (the (currentSession c), currentSessionGeneration c) else None)"

text \<open>One round of \<open>WaitReadyRevision\<close>: a revision, an error, or \<open>None\<close> to wait for the next change.\<close>

definition waitReadyRound :: "(session \<Rightarrow> bool) \<Rightarrow> client \<Rightarrow> nat result option" where
  "waitReadyRound ready c =
     (if isReady ready c then Some (Inr (publishedSessionRevision c))
      else case terminalError c of
        Some err \<Rightarrow> Some (Inl err)
      | None \<Rightarrow> if clientClosed c then Some (Inl (Sentinel ErrClientClosed)) else None)"

subsection \<open>Starting, stopping and failing\<close>

text \<open>\<open>Start\<close> returns its error and whether the supervisor is started.\<close>

definition startClient :: "client \<Rightarrow> client \<times> unit result \<times> bool" where
  "startClient c =
     (if clientStarted c then (c, Inr (), False)
      else if clientClosed c then (c, Inl (Sentinel ErrClientClosed), False)
      else (c\<lparr>clientStarted := True\<rparr>, Inr (), True))"

text \<open>\<open>Suspend\<close> and \<open>RestartSession\<close> return the session they fail.\<close>

definition Suspend :: "client \<Rightarrow> client \<times> session option" where
  "Suspend c = (if suspended c \<or> clientClosed c then (c, None) else (c\<lparr>suspended := True\<rparr>, publishedSession c))"

definition Resume :: "client \<Rightarrow> client" where
  "Resume c = (if suspended c then c\<lparr>suspended := False\<rparr> else c)"

definition RestartSession :: "client \<Rightarrow> session option" where
  "RestartSession c = currentSession c"

text \<open>\<open>setTerminalError\<close> cancels the supervisor's context after its section; the result is whether it does.\<close>

definition setTerminalError :: "go_error option \<Rightarrow> client \<Rightarrow> client \<times> bool" where
  "setTerminalError err c =
     (if clientClosed c then (c, False)
      else if terminalError c = None
      then (signalStateChangedLocked (setActiveTransportWithLifecycleLocked ''''
              (c\<lparr>terminalError := Some (case err of None \<Rightarrow> New ''session terminated'' | Some e \<Rightarrow> e), activeTransportSession := None\<rparr>)),
            clientStarted c)
      else (c, clientStarted c))"

definition cancelSupervisor :: "client \<Rightarrow> client" where
  "cancelSupervisor c = c\<lparr>cancelled := True\<rparr>"

definition closeSupervisorState :: "client \<Rightarrow> client" where
  "closeSupervisorState c =
     (let c1 = (if \<not> clientClosed c \<and> terminalError c = None then c\<lparr>clientClosed := True\<rparr> else c)
      in signalStateChangedLocked (setActiveTransportWithLifecycleLocked ''''
           ((unpublished (c1\<lparr>currentSession := None\<rparr>))\<lparr>activeTransportSession := None\<rparr>)))"

text \<open>\<open>Close\<close>: the section under \<open>lifecycleAccess\<close>, with the session that is closed afterwards, and the
  section under \<open>configurationEventAccess\<close>.\<close>

definition closeLifecycle :: "client \<Rightarrow> client \<times> session option" where
  "closeLifecycle c =
     (if closeOnce c then (c, None)
      else (signalStateChangedLocked (setActiveTransportWithLifecycleLocked ''''
              (c\<lparr>closeOnce := True, clientClosed := True, activeTransportSession := None,
                 cancelled := (cancelled c \<or> clientStarted c)\<rparr>)), currentSession c))"

definition closeEvents :: "client \<Rightarrow> client" where
  "closeEvents c = c\<lparr>configurationEventStopped := True, configurationEvents := []\<rparr>"

definition clearStableCredentials :: "string list \<Rightarrow> client \<Rightarrow> client" where
  "clearStableCredentials keys c = c\<lparr>stableCredentials := stableCredentials c |` (- set keys)\<rparr>"

subsection \<open>Configurations and their events\<close>

definition setTunnelConfiguration :: "bool \<Rightarrow> TunnelConfiguration \<Rightarrow> client \<Rightarrow> client \<times> TunnelConfiguration \<times> nat" where
  "setTunnelConfiguration ipv6Disabled configuration0 c =
     (let configuration = normalizeTunnelConfiguration configuration0 ipv6Disabled;
          revision = tunnelConfigurationRevision c + 1
      in (c\<lparr>tunnelConfiguration := configuration, tunnelConfigurationRevision := revision\<rparr>, configuration, revision))"

text \<open>The two sections of \<open>publishTunnelConfigurationEvent\<close>; the second only runs when there is a callback.\<close>

definition raiseRevision :: "nat \<Rightarrow> client \<Rightarrow> client" where
  "raiseRevision revision c =
     (if publishedSession c \<noteq> None \<and> publishedSession c = currentSession c \<and> revision > publishedSessionRevision c
      then signalStateChangedLocked (c\<lparr>publishedSessionRevision := revision\<rparr>) else c)"

definition queueEvent :: "bool \<Rightarrow> TunnelConfigurationEvent \<Rightarrow> client \<Rightarrow> client" where
  "queueEvent callback event c =
     (if \<not> callback \<or> configurationEventStopped c then c
      else c\<lparr>configurationEvents := configurationEvents c @ [event]\<rparr>)"

text \<open>A round of the dispatcher: it stops, waits, or takes an event for the callback; what it does when the
  callback fails, up to the call of \<open>setTerminalError\<close>, and the session it fails afterwards.\<close>

datatype dispatch = DispatchStopped | DispatchWaits | DispatchEvent TunnelConfigurationEvent

definition dispatchRound :: "client \<Rightarrow> client \<times> dispatch" where
  "dispatchRound c =
     (if configurationEventStopped c then (c\<lparr>configurationEvents := []\<rparr>, DispatchStopped)
      else case configurationEvents c of
        [] \<Rightarrow> (c, DispatchWaits)
      | event # events \<Rightarrow> (c\<lparr>configurationEvents := events\<rparr>, DispatchEvent event))"

definition callbackFailure :: "go_error \<Rightarrow> go_error" where
  "callbackFailure err = Joined [Sentinel ErrTunnelConfiguration, Cause err ''apply openconnect tunnel configuration'']"

definition dispatchFailed :: "client \<Rightarrow> client \<times> session option" where
  "dispatchFailed c = (closeEvents c, currentSession c)"

section \<open>The invariant of the state\<close>

definition client_ok :: "client \<Rightarrow> bool" where
  "client_ok c \<longleftrightarrow>
     currentSessionGeneration c = sessionGeneration c \<and>
     (currentSession c = None \<or> 0 < sessionGeneration c) \<and>
     (case publishedSession c of
        None \<Rightarrow> publishedSessionGeneration c = 0 \<and> publishedSessionInitialRevision c = 0 \<and> publishedSessionRevision c = 0
      | Some s \<Rightarrow> currentSession c = Some s \<and> publishedSessionGeneration c = sessionGeneration c \<and>
          0 < publishedSessionInitialRevision c \<and> publishedSessionInitialRevision c \<le> publishedSessionRevision c \<and>
          publishedSessionRevision c \<le> tunnelConfigurationRevision c) \<and>
     (activeTransportSession c = None \<or> (activeTransportSession c = currentSession c \<and> \<not> clientClosed c)) \<and>
     (activeTransport c = '''' \<or> (activeTransportSession c \<noteq> None \<and> terminalError c = None)) \<and>
     (\<not> configurationEventStopped c \<or> configurationEvents c = [])"

named_theorems client_defs \<open>the sections under the locks of the client\<close>

lemmas [client_defs] = setActiveTransport_def stopActiveTransport_def setCurrentSession_def publishCurrentSession_def
  clearCurrentSession_def startClient_def Suspend_def Resume_def setTerminalError_def cancelSupervisor_def closeSupervisorState_def
  closeLifecycle_def closeEvents_def clearStableCredentials_def setTunnelConfiguration_def raiseRevision_def queueEvent_def
  dispatchRound_def dispatchFailed_def

text \<open>What the shared parts of the sections leave alone.\<close>

lemma signal_fields [simp]:
  "clientStarted (signalStateChangedLocked c) = clientStarted c" "clientClosed (signalStateChangedLocked c) = clientClosed c"
  "suspended (signalStateChangedLocked c) = suspended c" "cancelled (signalStateChangedLocked c) = cancelled c"
  "closeOnce (signalStateChangedLocked c) = closeOnce c" "terminalError (signalStateChangedLocked c) = terminalError c"
  "currentSession (signalStateChangedLocked c) = currentSession c"
  "sessionGeneration (signalStateChangedLocked c) = sessionGeneration c"
  "currentSessionGeneration (signalStateChangedLocked c) = currentSessionGeneration c"
  "publishedSession (signalStateChangedLocked c) = publishedSession c"
  "publishedSessionGeneration (signalStateChangedLocked c) = publishedSessionGeneration c"
  "publishedSessionInitialRevision (signalStateChangedLocked c) = publishedSessionInitialRevision c"
  "publishedSessionRevision (signalStateChangedLocked c) = publishedSessionRevision c"
  "activeTransportSession (signalStateChangedLocked c) = activeTransportSession c"
  "tunnelConfiguration (signalStateChangedLocked c) = tunnelConfiguration c"
  "tunnelConfigurationRevision (signalStateChangedLocked c) = tunnelConfigurationRevision c"
  "configurationEvents (signalStateChangedLocked c) = configurationEvents c"
  "configurationEventStopped (signalStateChangedLocked c) = configurationEventStopped c"
  "stableCredentials (signalStateChangedLocked c) = stableCredentials c"
  "activeTransport (signalStateChangedLocked c) = activeTransport c"
  "stateChanged (signalStateChangedLocked c) = stateChanged c + 1"
  by (simp_all add: signalStateChangedLocked_def)

lemma transport_fields [simp]:
  "clientStarted (setActiveTransportWithLifecycleLocked t c) = clientStarted c"
  "clientClosed (setActiveTransportWithLifecycleLocked t c) = clientClosed c"
  "suspended (setActiveTransportWithLifecycleLocked t c) = suspended c"
  "cancelled (setActiveTransportWithLifecycleLocked t c) = cancelled c"
  "closeOnce (setActiveTransportWithLifecycleLocked t c) = closeOnce c"
  "terminalError (setActiveTransportWithLifecycleLocked t c) = terminalError c"
  "currentSession (setActiveTransportWithLifecycleLocked t c) = currentSession c"
  "sessionGeneration (setActiveTransportWithLifecycleLocked t c) = sessionGeneration c"
  "currentSessionGeneration (setActiveTransportWithLifecycleLocked t c) = currentSessionGeneration c"
  "publishedSession (setActiveTransportWithLifecycleLocked t c) = publishedSession c"
  "publishedSessionGeneration (setActiveTransportWithLifecycleLocked t c) = publishedSessionGeneration c"
  "publishedSessionInitialRevision (setActiveTransportWithLifecycleLocked t c) = publishedSessionInitialRevision c"
  "publishedSessionRevision (setActiveTransportWithLifecycleLocked t c) = publishedSessionRevision c"
  "activeTransportSession (setActiveTransportWithLifecycleLocked t c) = activeTransportSession c"
  "tunnelConfiguration (setActiveTransportWithLifecycleLocked t c) = tunnelConfiguration c"
  "tunnelConfigurationRevision (setActiveTransportWithLifecycleLocked t c) = tunnelConfigurationRevision c"
  "configurationEvents (setActiveTransportWithLifecycleLocked t c) = configurationEvents c"
  "configurationEventStopped (setActiveTransportWithLifecycleLocked t c) = configurationEventStopped c"
  "stableCredentials (setActiveTransportWithLifecycleLocked t c) = stableCredentials c"
  "stateChanged (setActiveTransportWithLifecycleLocked t c) = stateChanged c"
  "activeTransport (setActiveTransportWithLifecycleLocked t c) = t"
  by (simp_all add: setActiveTransportWithLifecycleLocked_def)

lemma unpublished_fields [simp]:
  "clientStarted (unpublished c) = clientStarted c" "clientClosed (unpublished c) = clientClosed c"
  "suspended (unpublished c) = suspended c" "cancelled (unpublished c) = cancelled c"
  "closeOnce (unpublished c) = closeOnce c" "terminalError (unpublished c) = terminalError c"
  "currentSession (unpublished c) = currentSession c" "sessionGeneration (unpublished c) = sessionGeneration c"
  "currentSessionGeneration (unpublished c) = currentSessionGeneration c"
  "activeTransportSession (unpublished c) = activeTransportSession c"
  "tunnelConfiguration (unpublished c) = tunnelConfiguration c"
  "tunnelConfigurationRevision (unpublished c) = tunnelConfigurationRevision c"
  "configurationEvents (unpublished c) = configurationEvents c"
  "configurationEventStopped (unpublished c) = configurationEventStopped c"
  "stableCredentials (unpublished c) = stableCredentials c" "activeTransport (unpublished c) = activeTransport c"
  "stateChanged (unpublished c) = stateChanged c" "publishedSession (unpublished c) = None"
  "publishedSessionGeneration (unpublished c) = 0" "publishedSessionInitialRevision (unpublished c) = 0"
  "publishedSessionRevision (unpublished c) = 0"
  by (simp_all add: unpublished_def)

text \<open>A section of the client's code, by whoever runs it: the supervisor, a session, the dispatcher or the application.
  A revision that is published was given out by \<open>setTunnelConfiguration\<close>.\<close>

inductive client_step :: "bool \<Rightarrow> bool \<Rightarrow> (session \<Rightarrow> bool) \<Rightarrow> client \<Rightarrow> client \<Rightarrow> bool" for d callback ready where
  "client_step d callback ready c (setActiveTransport s t c)"
| "client_step d callback ready c (stopActiveTransport s c)"
| "client_step d callback ready c (fst (setCurrentSession s c))"
| "0 < revision \<Longrightarrow> revision \<le> tunnelConfigurationRevision c \<Longrightarrow>
     client_step d callback ready c (fst (publishCurrentSession ready s revision c))"
| "client_step d callback ready c (clearCurrentSession s c)"
| "client_step d callback ready c (fst (startClient c))"
| "client_step d callback ready c (fst (Suspend c))"
| "client_step d callback ready c (Resume c)"
| "client_step d callback ready c (fst (setTerminalError err c))"
| "client_step d callback ready c (cancelSupervisor c)"
| "client_step d callback ready c (closeSupervisorState c)"
| "client_step d callback ready c (fst (closeLifecycle c))"
| "client_step d callback ready c (closeEvents c)"
| "client_step d callback ready c (clearStableCredentials keys c)"
| "client_step d callback ready c (fst (setTunnelConfiguration d configuration c))"
| "revision \<le> tunnelConfigurationRevision c \<Longrightarrow> client_step d callback ready c (raiseRevision revision c)"
| "Revision event \<le> tunnelConfigurationRevision c \<Longrightarrow> client_step d callback ready c (queueEvent callback event c)"
| "client_step d callback ready c (fst (dispatchRound c))"
| "client_step d callback ready c (fst (dispatchFailed c))"

text \<open>Any number of them, while the answers of the sessions change.\<close>

inductive client_run :: "bool \<Rightarrow> bool \<Rightarrow> client \<Rightarrow> client \<Rightarrow> bool" for d callback where
  "client_run d callback c c"
| "client_run d callback c c' \<Longrightarrow> client_step d callback ready c' c'' \<Longrightarrow> client_run d callback c c''"

lemma client_step_ok: "client_step d callback ready c c' \<Longrightarrow> client_ok c \<Longrightarrow> client_ok c'"
  by (induction rule: client_step.induct)
    (auto simp: client_ok_def client_defs Let_def split: list.split option.split_asm)

lemma newClient_ok: "client_ok (newClient credentials)"
  by (simp add: newClient_def client_ok_def)

lemma client_run_ok: "client_run d callback c c' \<Longrightarrow> client_ok c \<Longrightarrow> client_ok c'"
  by (induction rule: client_run.induct) (auto intro: client_step_ok)

section \<open>What the sections promise\<close>

text \<open>A client that has failed or was closed is never ready again, and its error stays.\<close>

definition stopped :: "client \<Rightarrow> bool" where
  "stopped c \<longleftrightarrow> clientClosed c \<or> terminalError c \<noteq> None"

lemma client_step_stopped:
  "client_step d callback ready c c' \<Longrightarrow> stopped c \<Longrightarrow> stopped c' \<and> (terminalError c \<noteq> None \<longrightarrow> terminalError c' = terminalError c)"
  by (induction rule: client_step.induct) (auto simp: stopped_def client_defs Let_def split: list.split)

lemma client_step_counters:
  "client_step d callback ready c c' \<Longrightarrow>
     sessionGeneration c \<le> sessionGeneration c' \<and> tunnelConfigurationRevision c \<le> tunnelConfigurationRevision c' \<and>
     stateChanged c \<le> stateChanged c'"
  by (induction rule: client_step.induct) (auto simp: client_defs Let_def split: list.split)

text \<open>Whoever waits for the client is woken: a step after which a waiting reader would go on signals the change.\<close>

lemma client_step_wakes:
  assumes "client_step d callback ready c c'" "waitReadyRound ready' c = None" "waitReadyRound ready' c' \<noteq> None"
  shows "stateChanged c < stateChanged c'"
  using assms
  by (induction rule: client_step.induct)
    (auto simp: waitReadyRound_def isReady_def client_defs Let_def split: list.split_asm option.split_asm if_split_asm)

section \<open>Properties\<close>

text \<open>C25: in every state that the client can reach, whoever runs its code in whatever order, a published session is the
  current one, with its generation and a revision that was given out; a transport is only shown for the current session
  of a client that runs; and a client that failed or was closed stays so, keeps its first error, and is never ready again.\<close>

theorem client_lifecycle:
  assumes "client_run d callback (newClient credentials) c" "client_step d callback ready c c'"
  shows "(publishedSession c \<noteq> None \<longrightarrow> publishedSession c = currentSession c \<and>
      publishedSessionGeneration c = sessionGeneration c \<and> 0 < publishedSessionRevision c \<and>
      publishedSessionRevision c \<le> tunnelConfigurationRevision c) \<and>
    (activeTransport c \<noteq> '''' \<longrightarrow> activeTransportSession c \<noteq> None \<and> activeTransportSession c = currentSession c \<and> \<not> stopped c) \<and>
    (stopped c \<longrightarrow> stopped c' \<and> \<not> isReady ready' c' \<and> (terminalError c \<noteq> None \<longrightarrow> terminalError c' = terminalError c)) \<and>
    (configurationEventStopped c \<longrightarrow> configurationEvents c = [])"
proof -
  have ok: "client_ok c" by (rule client_run_ok [OF assms(1) newClient_ok])
  have "stopped c \<Longrightarrow> \<not> isReady ready' c'"
    using client_step_stopped [OF assms(2)] by (auto simp: stopped_def isReady_def)
  then show ?thesis
    using ok client_step_stopped [OF assms(2)] by (auto simp: client_ok_def stopped_def split: option.split_asm)
qed

definition failedClient :: client where
  "failedClient = fst (setTerminalError (Some (New ''x'')) (fst (startClient (newClient Map.empty))))"

lemma failedClient_run: "client_run False True (newClient Map.empty) failedClient"
  using client_run.intros(2) [OF client_run.intros(2) [OF client_run.intros(1) client_step.intros(6)] client_step.intros(9)]
  by (simp add: failedClient_def)

theorem client_lifecycle_witness:
  "stopped failedClient \<and> stopped (fst (setCurrentSession 3 failedClient)) \<and>
     terminalError (fst (setCurrentSession 3 failedClient)) = Some (New ''x'') \<and> \<not> isReady (\<lambda>_. True) (fst (setCurrentSession 3 failedClient))"
proof -
  have t: "terminalError failedClient = Some (New ''x'')"
    by (simp add: failedClient_def client_defs newClient_def)
  have s: "stopped failedClient" by (simp add: stopped_def t)
  have "client_step False True (\<lambda>_. True) failedClient (fst (setCurrentSession 3 failedClient))" by (rule client_step.intros(3))
  from client_lifecycle [OF failedClient_run this, of "\<lambda>_. True"] s t show ?thesis by simp
qed

text \<open>Nobody waits for the client in vain: whenever a step lets a waiting reader or \<open>WaitReady\<close> go on, it also signals the
  change that they wait for.\<close>

theorem client_waiters_woken:
  assumes "client_step d callback ready c c'" "waitReadyRound ready' c = None" "waitReadyRound ready' c' \<noteq> None"
  shows "stateChanged c < stateChanged c'"
  using assms by (rule client_step_wakes)

theorem client_waiters_woken_witness:
  "waitReadyRound (\<lambda>_. True) (newClient Map.empty) = None \<and>
   waitReadyRound (\<lambda>_. True) (fst (closeLifecycle (newClient Map.empty))) = Some (Inl (Sentinel ErrClientClosed)) \<and>
   stateChanged (newClient Map.empty) < stateChanged (fst (closeLifecycle (newClient Map.empty)))"
proof -
  have w: "waitReadyRound (\<lambda>_. True) (newClient Map.empty) = None"
    "waitReadyRound (\<lambda>_. True) (fst (closeLifecycle (newClient Map.empty))) = Some (Inl (Sentinel ErrClientClosed))"
    by (simp_all add: waitReadyRound_def isReady_def newClient_def client_defs)
  have "client_step False True (\<lambda>_. True) (newClient Map.empty) (fst (closeLifecycle (newClient Map.empty)))" by (rule client_step.intros(12))
  from client_waiters_woken [OF this w(1)] w show ?thesis by simp
qed

end
