(* ===== verification/Client_Supervisor.thy ===== *)
theory Client_Supervisor
  imports Client_State "HOL-Library.Multiset"
begin

text \<open>
  The supervisor of \<^verbatim>\<open>client_supervisor.go\<close>: the loop that authenticates, connects, runs a
  session and reconnects. It is a machine that stops wherever the code calls out, waits or takes a
  lock: \<open>sup_pc\<close> is the place, \<open>sup_input\<close> what comes back there, and a step gives the next state and
  the effects on the outside. Everything else that touches the client runs between the steps.
\<close>

section \<open>Definitions\<close>

definition clientReconnectInitialBackoff :: duration where "clientReconnectInitialBackoff = 1000000000"
definition clientReconnectMaximumBackoff :: duration where "clientReconnectMaximumBackoff = 60 * 1000000000"

definition nextClientReconnectBackoff :: "duration \<Rightarrow> duration" where
  "nextClientReconnectBackoff d =
     (let n = d * 2 in if n > clientReconnectMaximumBackoff then clientReconnectMaximumBackoff else n)"

record supervisor_options =
  optIPv6Disabled :: bool
  optReconnectTimeout :: duration
  optCallback :: bool

text \<open>An obtained session is a number, like a tunnel session.\<close>

datatype sup_pc =
    AtLoop
  | AtAwait
  | AtResume
  | AtObtain
  | AtConnect
  | AtWait duration
  | AtCurrent session
  | AtStart session
  | AtStartFailed session go_error
  | AtStartDecide go_error
  | AtConfigure session TunnelConfigurationEventReason TunnelConfiguration
  | AtPublish session TunnelConfigurationEventReason TunnelConfiguration nat
  | AtAbandon session
  | AtRaise session TunnelConfigurationEventReason TunnelConfiguration nat
  | AtQueue session TunnelConfigurationEventReason TunnelConfiguration nat
  | AtCheck session
  | AtRunning session
  | AtEnded session "go_error option"
  | AtDecide "go_error option"
  | AtReturn
  | Returned

text \<open>
  \<open>Proceed\<close> is the next section of the code; \<open>ContextDone\<close>, \<open>Resumed\<close> and \<open>TimerFired\<close> are the branches
  of a \<open>select\<close>. A failed start and the end of a session come with the error of the \<open>Close\<close> that
  follows them.
\<close>

datatype sup_input =
    Proceed
  | ContextDone
  | Resumed
  | TimerFired
  | Obtains "nat option result"
  | Connects "session result"
  | StartFails go_error "go_error option"
  | Starts TunnelConfiguration
  | Ends "go_error option" "go_error option"

datatype effect =
    ObtainedSession nat
  | ClosedObtained nat
  | OpenedSession session
  | ClosedSession session
  | FailedSession session go_error
  | Waits duration
  | RetriesImmediately
  | RejectsAuthentication
  | Announces TunnelConfigurationEventReason nat

text \<open>The variables of \<open>runSupervisor\<close>. A session that was closed on the way out is no longer in \<open>sessionState\<close>.\<close>

record supervisor =
  pc :: sup_pc
  sessionState :: "nat option"
  backoff :: duration
  established :: bool
  pendingRekeyEvent :: bool
  reconnecting :: bool
  reconnectTimeoutRemaining :: duration

definition newSupervisor :: supervisor where
  "newSupervisor = \<lparr>pc = AtLoop, sessionState = None, backoff = clientReconnectInitialBackoff, established = False,
     pendingRekeyEvent = False, reconnecting = False, reconnectTimeoutRemaining = 0\<rparr>"

type_synonym sup_next = "client \<times> supervisor \<times> effect list"

definition closeObtainedSession :: "supervisor \<Rightarrow> effect list" where
  "closeObtainedSession s = (case sessionState s of None \<Rightarrow> [] | Some n \<Rightarrow> [ClosedObtained n])"

definition leave :: "client \<Rightarrow> supervisor \<Rightarrow> sup_next" where
  "leave c s = (c, s\<lparr>pc := AtReturn, sessionState := None\<rparr>, closeObtainedSession s)"

text \<open>The session is given up: it is closed and the variables that belong to it are reset.\<close>

definition dropSession :: "supervisor \<Rightarrow> supervisor" where
  "dropSession s = s\<lparr>sessionState := None, pendingRekeyEvent := False\<rparr>"

definition failSupervisor :: "go_error option \<Rightarrow> client \<Rightarrow> client" where
  "failSupervisor err c = (case setTerminalError err c of (c', cancel) \<Rightarrow> if cancel then cancelSupervisor c' else c')"

definition handleRetryableAuthenticationError :: "go_error \<Rightarrow> client \<Rightarrow> client \<times> bool \<times> effect list" where
  "handleRetryableAuthenticationError err c =
     (case castRetryable err of
        None \<Rightarrow> (c, False, [])
      | Some keys \<Rightarrow> (clearStableCredentials keys c, True, [RejectsAuthentication]))"

text \<open>\<open>waitClientReconnectBackoff\<close> up to its \<open>select\<close>.\<close>

definition beginWait :: "client \<Rightarrow> supervisor \<Rightarrow> sup_next" where
  "beginWait c s =
     (if reconnecting s \<and> reconnectTimeoutRemaining s \<le> 0
      then leave (failSupervisor (Some (Sentinel ErrReconnectTimeout)) c) s
      else
        let wait = (if reconnecting s \<and> reconnectTimeoutRemaining s < backoff s then reconnectTimeoutRemaining s else backoff s)
        in (c, s\<lparr>pc := AtWait wait\<rparr>, [Waits wait]))"

text \<open>Its end, and the end of the iteration.\<close>

definition endWait :: "duration \<Rightarrow> supervisor \<Rightarrow> supervisor" where
  "endWait wait s =
     s\<lparr>pc := AtLoop, backoff := nextClientReconnectBackoff (backoff s),
       reconnectTimeoutRemaining := (if reconnecting s then reconnectTimeoutRemaining s - wait else reconnectTimeoutRemaining s)\<rparr>"

definition restart :: "supervisor \<Rightarrow> supervisor" where
  "restart s = s\<lparr>pc := AtLoop, backoff := clientReconnectInitialBackoff\<rparr>"

definition withEffects :: "effect list \<Rightarrow> sup_next \<Rightarrow> sup_next" where
  "withEffects es n = (case n of (c, s, es') \<Rightarrow> (c, s, es @ es'))"

definition enterIteration :: "supervisor \<Rightarrow> supervisor" where
  "enterIteration s = s\<lparr>pc := (if sessionState s = None then AtObtain else AtConnect)\<rparr>"

definition afterObtain :: "nat option result \<Rightarrow> client \<Rightarrow> supervisor \<Rightarrow> sup_next" where
  "afterObtain r c s =
     (case r of
        Inl err \<Rightarrow>
          if cancelled c \<or> clientClosed c then leave c s
          else (case handleRetryableAuthenticationError err c of (c', _, es) \<Rightarrow>
            if classifyClientSessionError (Some err) = clientSessionErrorTerminal
            then withEffects es (leave (failSupervisor (Some err) c') s)
            else withEffects es (beginWait c' s))
      | Inr None \<Rightarrow>
          leave (failSupervisor (Some (Extend (Sentinel ErrProtocolNotSupported) ''flavor returned an empty obtained session'')) c) s
      | Inr (Some n) \<Rightarrow> (c, s\<lparr>pc := AtConnect, sessionState := Some n\<rparr>, [ObtainedSession n]))"

definition afterConnect :: "session result \<Rightarrow> client \<Rightarrow> supervisor \<Rightarrow> sup_next" where
  "afterConnect r c s =
     (case r of
        Inr n \<Rightarrow> (c, s\<lparr>pc := AtCurrent n\<rparr>, [OpenedSession n])
      | Inl err \<Rightarrow>
          if IsMulti err [ErrSessionRejected] then withEffects (closeObtainedSession s) (beginWait c (dropSession s))
          else if castRekey err then (c, restart (s\<lparr>pendingRekeyEvent := True\<rparr>), [])
          else if cancelled c \<or> clientClosed c then leave c s
          else (case handleRetryableAuthenticationError err c of (c', retryable, es) \<Rightarrow>
            if retryable then (c', restart (dropSession s), es @ closeObtainedSession s)
            else if classifyClientSessionError (Some err) = clientSessionErrorTerminal
            then withEffects es (case leave c' s of (c1, s1, es1) \<Rightarrow> (failSupervisor (Some err) c1, s1, es1))
            else withEffects es (beginWait c' s)))"

definition makeCurrent :: "session \<Rightarrow> client \<Rightarrow> supervisor \<Rightarrow> sup_next" where
  "makeCurrent n c s =
     (case setCurrentSession n c of
        (c', True) \<Rightarrow> (c', s\<lparr>pc := AtStart n\<rparr>, [])
      | (c', False) \<Rightarrow> withEffects [ClosedSession n] (leave c' s))"

definition afterStart :: "session \<Rightarrow> TunnelConfiguration \<Rightarrow> supervisor_options \<Rightarrow> supervisor \<Rightarrow> supervisor" where
  "afterStart n configuration options s =
     (let reason = (if pendingRekeyEvent s then TunnelConfigurationEventRekey
                    else if established s then TunnelConfigurationEventReestablishment else TunnelConfigurationEventInitial)
      in s\<lparr>pc := AtConfigure n reason configuration, pendingRekeyEvent := False, established := True, reconnecting := False,
           reconnectTimeoutRemaining := 0\<rparr>)"

definition decideStart :: "go_error \<Rightarrow> client \<Rightarrow> supervisor \<Rightarrow> sup_next" where
  "decideStart err c s =
     (if castRekey err then (c, restart (s\<lparr>pendingRekeyEvent := True\<rparr>), [])
      else if IsMulti err [ErrSessionRejected] then withEffects (closeObtainedSession s) (beginWait c (dropSession s))
      else (case handleRetryableAuthenticationError err c of (c', retryable, es) \<Rightarrow>
        if retryable then (c', restart (dropSession s), es @ closeObtainedSession s)
        else if classifyClientSessionError (Some err) = clientSessionErrorTerminal
        then withEffects es (case leave c' s of (c1, s1, es1) \<Rightarrow> (failSupervisor (Some err) c1, s1, es1))
        else withEffects es (beginWait c' s)))"

text \<open>The tunnel was lost: the time for reconnecting starts to run.\<close>

definition reconnect :: "supervisor_options \<Rightarrow> supervisor \<Rightarrow> supervisor" where
  "reconnect options s = restart (s\<lparr>reconnecting := True, reconnectTimeoutRemaining := optReconnectTimeout options\<rparr>)"

definition isError :: "go_error option \<Rightarrow> (go_error \<Rightarrow> bool) \<Rightarrow> bool" where
  "isError err p = (case err of None \<Rightarrow> False | Some e \<Rightarrow> p e)"

definition decideEnd :: "supervisor_options \<Rightarrow> go_error option \<Rightarrow> client \<Rightarrow> supervisor \<Rightarrow> sup_next" where
  "decideEnd options err c s =
     (if cancelled c \<or> clientClosed c then leave c s
      else if isError err (\<lambda>e. IsMulti e [ErrClientSuspended]) \<or> suspended c then (c, restart s, [])
      else if isError err (\<lambda>e. IsMulti e [ErrSessionRejected])
      then (c, reconnect options (dropSession s), closeObtainedSession s @ [RetriesImmediately])
      else if isError err castRekey then (c, restart (s\<lparr>pendingRekeyEvent := True\<rparr>), [])
      else (case (case err of None \<Rightarrow> (c, False, []) | Some e \<Rightarrow> handleRetryableAuthenticationError e c) of (c', retryable, es) \<Rightarrow>
        if retryable then (c', restart (dropSession s), es @ closeObtainedSession s)
        else if classifyClientSessionError err = clientSessionErrorTerminal
        then withEffects es (case leave c' s of (c1, s1, es1) \<Rightarrow> (failSupervisor err c1, s1, es1))
        else (c', reconnect options s, es @ [RetriesImmediately])))"

text \<open>A section of the loop that needs no answer.\<close>

definition sup_proceed :: "supervisor_options \<Rightarrow> (session \<Rightarrow> bool) \<Rightarrow> client \<Rightarrow> supervisor \<Rightarrow> sup_next option" where
  "sup_proceed options ready c s =
     (case pc s of
        AtLoop \<Rightarrow> Some (if cancelled c \<or> clientClosed c then leave c s else (c, s\<lparr>pc := AtAwait\<rparr>, []))
      | AtAwait \<Rightarrow> Some (c, if suspended c then s\<lparr>pc := AtResume\<rparr> else enterIteration s, [])
      | AtCurrent n \<Rightarrow> Some (makeCurrent n c s)
      | AtStartFailed n err \<Rightarrow> Some (clearCurrentSession n c, s\<lparr>pc := AtStartDecide err\<rparr>, [])
      | AtStartDecide err \<Rightarrow> Some (decideStart err c s)
      | AtConfigure n reason configuration \<Rightarrow>
          Some (case setTunnelConfiguration (optIPv6Disabled options) configuration c of
            (c', configuration', revision) \<Rightarrow> (c', s\<lparr>pc := AtPublish n reason configuration' revision\<rparr>, []))
      | AtPublish n reason configuration revision \<Rightarrow>
          Some (case publishCurrentSession ready n revision c of
            (c', True) \<Rightarrow> (c', s\<lparr>pc := AtRaise n reason configuration revision\<rparr>, [Announces reason revision])
          | (c', False) \<Rightarrow> (c', s\<lparr>pc := AtAbandon n\<rparr>, [ClosedSession n]))
      | AtAbandon n \<Rightarrow> Some (leave (clearCurrentSession n c) s)
      | AtRaise n reason configuration revision \<Rightarrow>
          Some (raiseRevision revision c, s\<lparr>pc := AtQueue n reason configuration revision\<rparr>, [])
      | AtQueue n reason configuration revision \<Rightarrow>
          Some (queueEvent (optCallback options) \<lparr>Reason = reason, Revision = revision, Configuration = configuration\<rparr> c,
            s\<lparr>pc := AtCheck n\<rparr>, [])
      | AtCheck n \<Rightarrow> Some (c, s\<lparr>pc := AtRunning n\<rparr>, if suspended c then [FailedSession n (Sentinel ErrClientSuspended)] else [])
      | AtEnded n err \<Rightarrow> Some (clearCurrentSession n c, s\<lparr>pc := AtDecide err\<rparr>, [])
      | AtDecide err \<Rightarrow> Some (decideEnd options err c s)
      | AtReturn \<Rightarrow> Some (closeSupervisorState c, s\<lparr>pc := Returned\<rparr>, [])
      | _ \<Rightarrow> None)"

text \<open>An answer from outside; \<open>None\<close> where the code does not wait for it.\<close>

definition sup_answer :: "supervisor_options \<Rightarrow> sup_input \<Rightarrow> client \<Rightarrow> supervisor \<Rightarrow> sup_next option" where
  "sup_answer options inp c s =
     (case pc s of
        AtResume \<Rightarrow> (case inp of ContextDone \<Rightarrow> Some (leave c s) | Resumed \<Rightarrow> Some (c, enterIteration s, []) | _ \<Rightarrow> None)
      | AtObtain \<Rightarrow> (case inp of Obtains r \<Rightarrow> Some (afterObtain r c s) | _ \<Rightarrow> None)
      | AtConnect \<Rightarrow> (case inp of Connects r \<Rightarrow> Some (afterConnect r c s) | _ \<Rightarrow> None)
      | AtWait wait \<Rightarrow> (case inp of ContextDone \<Rightarrow> Some (leave c s) | TimerFired \<Rightarrow> Some (c, endWait wait s, []) | _ \<Rightarrow> None)
      | AtStart n \<Rightarrow>
          (case inp of
             StartFails err closeErr \<Rightarrow>
               Some (c, s\<lparr>pc := AtStartFailed n (the (appendError (Some err) closeErr ''close failed openconnect session''))\<rparr>, [ClosedSession n])
           | Starts configuration \<Rightarrow> Some (c, afterStart n configuration options s, [])
           | _ \<Rightarrow> None)
      | AtRunning n \<Rightarrow>
          (case inp of
             Ends err closeErr \<Rightarrow> Some (c, s\<lparr>pc := AtEnded n (appendError err closeErr ''close openconnect session'')\<rparr>, [ClosedSession n])
           | _ \<Rightarrow> None)
      | _ \<Rightarrow> None)"

definition sup_step :: "supervisor_options \<Rightarrow> (session \<Rightarrow> bool) \<Rightarrow> sup_input \<Rightarrow> client \<Rightarrow> supervisor \<Rightarrow> sup_next option" where
  "sup_step options ready inp c s = (if inp = Proceed then sup_proceed options ready c s else sup_answer options inp c s)"

end
