(* ===== verification/Client_Runs.thy ===== *)
theory Client_Runs
  imports Client_Supervisor
begin

text \<open>
  Runs of the supervisor, with whatever the rest of the program makes of the client between its
  steps: no session is leaked or closed twice, the waits respect the backoff and the time for
  reconnecting, and the announcements tell the application what happened.
\<close>

section \<open>Runs\<close>

text \<open>Any state of the client may be found at each step.\<close>

inductive sup_run :: "supervisor_options \<Rightarrow> supervisor \<Rightarrow> effect list \<Rightarrow> bool" for options where
  sup_run_start: "sup_run options newSupervisor []"
| sup_run_step: "sup_run options s es \<Longrightarrow> sup_step options ready inp c s = Some (c', s', es') \<Longrightarrow> sup_run options s' (es @ es')"

text \<open>What happened to the sessions, read off the effects.\<close>

fun obtainedBy :: "effect \<Rightarrow> nat list" where
  "obtainedBy (ObtainedSession n) = [n]" | "obtainedBy _ = []"
fun releasedBy :: "effect \<Rightarrow> nat list" where
  "releasedBy (ClosedObtained n) = [n]" | "releasedBy _ = []"
fun openedBy :: "effect \<Rightarrow> session list" where
  "openedBy (OpenedSession n) = [n]" | "openedBy _ = []"
fun closedBy :: "effect \<Rightarrow> session list" where
  "closedBy (ClosedSession n) = [n]" | "closedBy _ = []"
fun announcedBy :: "effect \<Rightarrow> TunnelConfigurationEventReason list" where
  "announcedBy (Announces r n) = [r]" | "announcedBy _ = []"

definition sessionsOf :: "(effect \<Rightarrow> 'a list) \<Rightarrow> effect list \<Rightarrow> 'a multiset" where
  "sessionsOf f es = mset (concat (map f es))"

text \<open>The tunnel session that the supervisor holds at a place of its code.\<close>

fun held :: "sup_pc \<Rightarrow> session list" where
  "held (AtCurrent n) = [n]"
| "held (AtStart n) = [n]"
| "held (AtConfigure n r t) = [n]"
| "held (AtPublish n r t v) = [n]"
| "held (AtRaise n r t v) = [n]"
| "held (AtQueue n r t v) = [n]"
| "held (AtCheck n) = [n]"
| "held (AtRunning n) = [n]"
| "held _ = []"

section \<open>What a step can do\<close>

text \<open>Places where the loop decides how to go on after something failed.\<close>

fun deciding :: "sup_pc \<Rightarrow> bool" where
  "deciding AtObtain = True"
| "deciding AtConnect = True"
| "deciding (AtStartDecide err) = True"
| "deciding (AtDecide err) = True"
| "deciding p = False"

definition waitTime :: "supervisor \<Rightarrow> duration" where
  "waitTime s = (if reconnecting s \<and> reconnectTimeoutRemaining s < backoff s then reconnectTimeoutRemaining s else backoff s)"

text \<open>Giving the obtained session up is optional: the supervisor's variables and the effect.\<close>

definition dropIf :: "bool \<Rightarrow> supervisor \<Rightarrow> supervisor" where
  "dropIf b s = (if b then dropSession s else s)"

definition releaseIf :: "bool \<Rightarrow> supervisor \<Rightarrow> effect list" where
  "releaseIf b s = (if b then closeObtainedSession s else [])"

definition rejection :: "effect list \<Rightarrow> bool" where
  "rejection es \<longleftrightarrow> es = [] \<or> es = [RejectsAuthentication]"

text \<open>The supervisor without the client: every step is one of these moves.\<close>

inductive move :: "supervisor_options \<Rightarrow> supervisor \<Rightarrow> supervisor \<Rightarrow> effect list \<Rightarrow> bool" for options where
  "rejection rej \<Longrightarrow> hs = held (pc s) \<Longrightarrow>
     move options s ((dropIf b s)\<lparr>pc := AtReturn, sessionState := None\<rparr>) (rej @ map ClosedSession hs @ closeObtainedSession s)"
| "rejection rej \<Longrightarrow> deciding (pc s) \<Longrightarrow> \<not> (reconnecting s \<and> reconnectTimeoutRemaining s \<le> 0) \<Longrightarrow>
     move options s ((dropIf b s)\<lparr>pc := AtWait (waitTime s)\<rparr>) (rej @ releaseIf b s @ [Waits (waitTime s)])"
| "deciding (pc s) \<Longrightarrow> move options s (restart (s\<lparr>pendingRekeyEvent := b\<rparr>)) []"
| "rejection rej \<Longrightarrow> deciding (pc s) \<Longrightarrow> move options s (restart (dropSession s)) (rej @ closeObtainedSession s)"
| "rejection rej \<Longrightarrow> deciding (pc s) \<Longrightarrow>
     move options s (reconnect options (dropIf b s)) (rej @ releaseIf b s @ [RetriesImmediately])"
| "pc s = AtWait w \<Longrightarrow> move options s (endWait w s) []"
| "pc s = AtLoop \<Longrightarrow> move options s (s\<lparr>pc := AtAwait\<rparr>) []"
| "pc s = AtAwait \<Longrightarrow> move options s (s\<lparr>pc := AtResume\<rparr>) []"
| "pc s = AtAwait \<or> pc s = AtResume \<Longrightarrow> move options s (enterIteration s) []"
| "pc s = AtObtain \<Longrightarrow> move options s (s\<lparr>pc := AtConnect, sessionState := Some m\<rparr>) [ObtainedSession m]"
| "pc s = AtConnect \<Longrightarrow> move options s (s\<lparr>pc := AtCurrent n\<rparr>) [OpenedSession n]"
| "pc s = AtCurrent n \<Longrightarrow> move options s (s\<lparr>pc := AtStart n\<rparr>) []"
| "pc s = AtStart n \<Longrightarrow> move options s (s\<lparr>pc := AtStartFailed n err\<rparr>) [ClosedSession n]"
| "pc s = AtStartFailed n err \<Longrightarrow> move options s (s\<lparr>pc := AtStartDecide err\<rparr>) []"
| "pc s = AtStart n \<Longrightarrow> move options s (afterStart n t options s) []"
| "pc s = AtConfigure n r t \<Longrightarrow> move options s (s\<lparr>pc := AtPublish n r t' v\<rparr>) []"
| "pc s = AtPublish n r t v \<Longrightarrow> move options s (s\<lparr>pc := AtRaise n r t v\<rparr>) [Announces r v]"
| "pc s = AtPublish n r t v \<Longrightarrow> move options s (s\<lparr>pc := AtAbandon n\<rparr>) [ClosedSession n]"
| "pc s = AtRaise n r t v \<Longrightarrow> move options s (s\<lparr>pc := AtQueue n r t v\<rparr>) []"
| "pc s = AtQueue n r t v \<Longrightarrow> move options s (s\<lparr>pc := AtCheck n\<rparr>) []"
| "pc s = AtCheck n \<Longrightarrow> es = [] \<or> es = [FailedSession n err] \<Longrightarrow> move options s (s\<lparr>pc := AtRunning n\<rparr>) es"
| "pc s = AtRunning n \<Longrightarrow> move options s (s\<lparr>pc := AtEnded n result\<rparr>) [ClosedSession n]"
| "pc s = AtEnded n result \<Longrightarrow> move options s (s\<lparr>pc := AtDecide result\<rparr>) []"
| "pc s = AtReturn \<Longrightarrow> move options s (s\<lparr>pc := Returned\<rparr>) []"

text \<open>A result of the supervisor's code as a move.\<close>

definition moves :: "supervisor_options \<Rightarrow> supervisor \<Rightarrow> sup_next \<Rightarrow> bool" where
  "moves options s n \<longleftrightarrow> (case n of (c, s', es) \<Rightarrow> move options s s' es)"

lemma deciding_held: "deciding p \<Longrightarrow> held p = []"
  by (cases p) auto

lemma withEffects_simps [simp]: "withEffects [] n = n" "withEffects es (withEffects es' n) = withEffects (es @ es') n"
  "withEffects es (c, s, es') = (c, s, es @ es')"
  by (cases n; simp add: withEffects_def)+

named_theorems moves_intros \<open>results of the supervisor's code as moves\<close>

lemma moves_if [moves_intros]: "(P \<Longrightarrow> moves options s a) \<Longrightarrow> (\<not> P \<Longrightarrow> moves options s b) \<Longrightarrow> moves options s (if P then a else b)"
  by simp

lemma moves_leave_rej: "rejection es \<Longrightarrow> held (pc s) = [] \<Longrightarrow> moves options s (withEffects es (leave c s))"
  using move.intros(1) [of es "[]" s options False] by (simp add: moves_def leave_def dropIf_def)

lemma moves_leave [moves_intros]: "held (pc s) = [] \<Longrightarrow> moves options s (leave c s)"
  using moves_leave_rej [of "[]" s options c] by (simp add: rejection_def)

lemma moves_closed: "held (pc s) = [n] \<Longrightarrow> moves options s (withEffects [ClosedSession n] (leave c s))"
  using move.intros(1) [of "[]" "[n]" s options False] by (simp add: moves_def leave_def dropIf_def rejection_def)

lemma moves_give_up [moves_intros]:
  "held (pc s) = [] \<Longrightarrow> moves options s (case leave c s of (c1, s1, es1) \<Rightarrow> (failSupervisor err c1, s1, es1))"
  using moves_leave [of s options c] by (simp add: moves_def split: prod.splits)

lemma moves_wait_rej:
  assumes "rejection es" "deciding (pc s)"
  shows "moves options s (withEffects es (beginWait c s))"
  using moves_leave_rej [of es s options] move.intros(2) [of es s options False] assms deciding_held [OF assms(2)]
  by (simp add: beginWait_def moves_def waitTime_def dropIf_def releaseIf_def Let_def)

lemma moves_wait [moves_intros]: "deciding (pc s) \<Longrightarrow> moves options s (beginWait c s)"
  using moves_wait_rej [of "[]"] by (simp add: rejection_def)

lemma moves_drop_wait [moves_intros]:
  assumes "deciding (pc s)"
  shows "moves options s (withEffects (closeObtainedSession s) (beginWait c (dropSession s)))"
proof (cases "reconnecting s \<and> reconnectTimeoutRemaining s \<le> 0")
  case True
  then show ?thesis
    using move.intros(1) [of "[]" "[]" s options True] deciding_held [OF assms]
    by (simp add: beginWait_def leave_def moves_def dropIf_def rejection_def dropSession_def closeObtainedSession_def)
next
  case False
  have w: "waitTime (dropSession s) = waitTime s" "pc (dropSession s) = pc s" by (simp_all add: waitTime_def dropSession_def)
  have "beginWait c (dropSession s) = (c, (dropSession s)\<lparr>pc := AtWait (waitTime s)\<rparr>, [Waits (waitTime s)])"
    using False unfolding w(1) [symmetric] by (auto simp: beginWait_def waitTime_def dropSession_def Let_def)
  then show ?thesis
    using move.intros(2) [of "[]" s options True] False assms by (simp add: moves_def dropIf_def releaseIf_def rejection_def)
qed

lemma moves_restart [moves_intros]:
  "deciding (pc s) \<Longrightarrow> moves options s (c, restart s, [])"
  "deciding (pc s) \<Longrightarrow> moves options s (c, restart (s\<lparr>pendingRekeyEvent := True\<rparr>), [])"
  using move.intros(3) [of s options "pendingRekeyEvent s"] move.intros(3) [of s options True] by (simp_all add: moves_def)

lemma moves_restart_drop:
  "rejection es \<Longrightarrow> deciding (pc s) \<Longrightarrow> moves options s (c, restart (dropSession s), es @ closeObtainedSession s)"
  by (simp add: moves_def move.intros(4))

lemma moves_reconnect [moves_intros]:
  "deciding (pc s) \<Longrightarrow> moves options s (c, reconnect options s, [RetriesImmediately])"
  "deciding (pc s) \<Longrightarrow> moves options s (c, reconnect options (dropSession s), closeObtainedSession s @ [RetriesImmediately])"
  using move.intros(5) [of "[]" s options False] move.intros(5) [of "[]" s options True]
  by (simp_all add: moves_def rejection_def dropIf_def releaseIf_def)

lemma handleRetryable_rejection:
  "handleRetryableAuthenticationError err c = (c', retryable, es) \<Longrightarrow> rejection es \<and> (\<not> retryable \<longrightarrow> es = [])"
  by (auto simp: handleRetryableAuthenticationError_def rejection_def split: option.split_asm)

lemma afterObtain_moves:
  assumes "pc s = AtObtain"
  shows "moves options s (afterObtain r c s)"
proof (cases r)
  case (Inl err)
  obtain c' retryable es where h: "handleRetryableAuthenticationError err c = (c', retryable, es)"
    by (cases "handleRetryableAuthenticationError err c") auto
  show ?thesis
    unfolding afterObtain_def Inl sum.case h prod.case
    using assms handleRetryable_rejection [OF h] by (intro moves_intros moves_leave_rej moves_wait_rej) simp_all
next
  case (Inr x)
  then show ?thesis
    using assms move.intros(10) [of s options] by (cases x) (auto simp: afterObtain_def moves_def intro!: moves_leave [unfolded moves_def])
qed

text \<open>The decisions after a failure share their last branches.\<close>

lemma moves_handled:
  assumes "deciding (pc s)"
  shows "moves options s (case handleRetryableAuthenticationError err c of (c', retryable, es) \<Rightarrow>
        if retryable then (c', restart (dropSession s), es @ closeObtainedSession s)
        else if P then withEffects es (case leave c' s of (c1, s1, es1) \<Rightarrow> (failSupervisor e c1, s1, es1))
        else withEffects es (beginWait c' s))"
proof -
  obtain c' retryable es where h: "handleRetryableAuthenticationError err c = (c', retryable, es)"
    by (cases "handleRetryableAuthenticationError err c") auto
  show ?thesis
    unfolding h prod.case
    using assms handleRetryable_rejection [OF h] deciding_held [OF assms] moves_give_up [of s options e c'] moves_wait [OF assms]
    by (intro moves_if moves_restart_drop) simp_all
qed

lemma afterConnect_moves:
  assumes "pc s = AtConnect"
  shows "moves options s (afterConnect r c s)"
proof (cases r)
  case (Inl err)
  show ?thesis
    unfolding afterConnect_def Inl sum.case using assms by (intro moves_intros moves_handled) simp_all
next
  case (Inr n)
  then show ?thesis using move.intros(11) [of s options n] assms by (simp add: afterConnect_def moves_def)
qed

lemma decideStart_moves: "pc s = AtStartDecide err \<Longrightarrow> moves options s (decideStart err' c s)"
  unfolding decideStart_def by (intro moves_intros moves_handled) simp_all

lemma decideEnd_moves:
  assumes "pc s = AtDecide err"
  shows "moves options s (decideEnd options err' c s)"
proof -
  have d: "deciding (pc s)" "held (pc s) = []" using assms by simp_all
  obtain c' retryable es where h: "(case err' of None \<Rightarrow> (c, False, []) | Some e \<Rightarrow> handleRetryableAuthenticationError e c) = (c', retryable, es)"
    by (cases "case err' of None \<Rightarrow> (c, False, []) | Some e \<Rightarrow> handleRetryableAuthenticationError e c") auto
  have r: "rejection es" "\<not> retryable \<Longrightarrow> es = []"
    using h handleRetryable_rejection [of _ c c' retryable es] by (auto simp: rejection_def split: option.split_asm)
  show ?thesis
    unfolding decideEnd_def h prod.case
    using d r moves_give_up [OF d(2), of options err' c'] moves_reconnect(1) [OF d(1)]
    by (intro moves_if moves_leave moves_restart moves_reconnect moves_restart_drop) simp_all
qed

lemma moves_move: "move options s s' es \<Longrightarrow> moves options s (c, s', es)"
  by (simp add: moves_def)

lemmas moves_rules = move.intros(6-) [THEN moves_move]

lemma sup_proceed_moves:
  assumes "sup_proceed options ready c s = Some n"
  shows "moves options s n"
proof (cases "pc s")
  case AtLoop
  then show ?thesis
    using assms moves_leave [of s options c] moves_move [OF move.intros(7)] by (auto simp: sup_proceed_def)
next
  case (AtCurrent m)
  obtain c' ok where c: "setCurrentSession m c = (c', ok)" by force
  show ?thesis
    using assms moves_closed [of s m options c'] move.intros(12) [OF AtCurrent, of options] AtCurrent
    by (cases ok) (auto simp: sup_proceed_def makeCurrent_def c intro: moves_move)
next
  case (AtPublish m r t v)
  then show ?thesis
    using assms by (auto simp: sup_proceed_def intro: moves_rules split: prod.splits bool.splits)
next
  case (AtAbandon m)
  then show ?thesis using assms moves_leave [of s options] by (auto simp: sup_proceed_def)
next
  case (AtStartDecide err)
  then show ?thesis using assms decideStart_moves [OF AtStartDecide] by (auto simp: sup_proceed_def)
next
  case (AtDecide err)
  then show ?thesis using assms decideEnd_moves [OF AtDecide] by (auto simp: sup_proceed_def)
qed (use assms in \<open>auto simp: sup_proceed_def split: prod.split intro: moves_rules\<close>)

lemma sup_answer_moves:
  assumes "sup_answer options inp c s = Some n"
  shows "moves options s n"
proof (cases "pc s")
  case AtObtain
  then show ?thesis using assms afterObtain_moves by (auto simp: sup_answer_def split: sup_input.split_asm)
next
  case AtConnect
  then show ?thesis using assms afterConnect_moves by (auto simp: sup_answer_def split: sup_input.split_asm)
qed (use assms in \<open>auto simp: sup_answer_def split: sup_input.split_asm intro: moves_leave moves_rules\<close>)

lemma sup_step_move: "sup_step options ready inp c s = Some (c', s', es) \<Longrightarrow> move options s s' es"
  using sup_proceed_moves [of options ready c s] sup_answer_moves [of options inp c s]
  by (auto simp: sup_step_def moves_def split: if_split_asm)

section \<open>Invariants\<close>

definition kept :: "supervisor \<Rightarrow> nat multiset" where
  "kept s = (case sessionState s of None \<Rightarrow> {#} | Some n \<Rightarrow> {#n#})"

text \<open>The session that the loop works with: there is none when it obtains one, and there is one when it connects
  or holds a tunnel session.\<close>

fun sessionFits :: "sup_pc \<Rightarrow> nat option \<Rightarrow> bool" where
  "sessionFits AtObtain n \<longleftrightarrow> n = None"
| "sessionFits AtConnect n \<longleftrightarrow> n \<noteq> None"
| "sessionFits AtReturn n \<longleftrightarrow> n = None"
| "sessionFits Returned n \<longleftrightarrow> n = None"
| "sessionFits p n \<longleftrightarrow> held p = [] \<or> n \<noteq> None"

text \<open>The books: what was obtained or opened is what was closed and what is still held.\<close>

definition balanced :: "supervisor \<Rightarrow> effect list \<Rightarrow> bool" where
  "balanced s es \<longleftrightarrow>
     sessionsOf obtainedBy es = sessionsOf releasedBy es + kept s \<and>
     sessionsOf openedBy es = sessionsOf closedBy es + mset (held (pc s)) \<and>
     sessionFits (pc s) (sessionState s)"

lemma sessionsOf_append [simp]: "sessionsOf f (es @ es') = sessionsOf f es + sessionsOf f es'"
  by (simp add: sessionsOf_def)

lemma sessionsOf_simps [simp]: "sessionsOf f [] = {#}" "sessionsOf f (e # es) = mset (f e) + sessionsOf f es"
  by (simp_all add: sessionsOf_def)

named_theorems supervisor_defs \<open>the parts of a step of the supervisor\<close>

lemmas [supervisor_defs] = dropSession_def restart_def endWait_def enterIteration_def reconnect_def
  closeObtainedSession_def dropIf_def releaseIf_def rejection_def afterStart_def Let_def

lemma rejection_sessions [simp]:
  assumes "rejection es"
  shows "sessionsOf obtainedBy es = {#}" "sessionsOf releasedBy es = {#}" "sessionsOf openedBy es = {#}" "sessionsOf closedBy es = {#}"
  using assms by (auto simp: rejection_def)

lemma closed_sessions [simp]:
  "sessionsOf closedBy (map ClosedSession hs) = mset hs" "sessionsOf obtainedBy (map ClosedSession hs) = {#}"
  "sessionsOf releasedBy (map ClosedSession hs) = {#}" "sessionsOf openedBy (map ClosedSession hs) = {#}"
  by (induction hs) auto

lemma released_sessions [simp]:
  "sessionsOf closedBy (closeObtainedSession s) = {#}" "sessionsOf obtainedBy (closeObtainedSession s) = {#}"
  "sessionsOf releasedBy (closeObtainedSession s) = kept s" "sessionsOf openedBy (closeObtainedSession s) = {#}"
  by (auto simp: closeObtainedSession_def kept_def split: option.split)

lemma move_balanced: "move options s s' es' \<Longrightarrow> balanced s es \<Longrightarrow> balanced s' (es @ es')"
proof (induction rule: move.induct)
  case (2 rej s b)
  then show ?case using deciding_held [OF 2(2)] by (cases b) (auto simp: balanced_def dropIf_def releaseIf_def dropSession_def kept_def)
next
  case (5 rej s b)
  then show ?case
    using deciding_held [OF 5(2)] by (cases b) (auto simp: balanced_def dropIf_def releaseIf_def reconnect_def restart_def dropSession_def kept_def)
next
  case (3 s b)
  then show ?case using deciding_held by (simp add: balanced_def restart_def kept_def)
next
  case (4 rej s)
  then show ?case using deciding_held by (simp add: balanced_def restart_def dropSession_def kept_def)
qed (auto simp: balanced_def dropIf_def dropSession_def endWait_def enterIteration_def afterStart_def Let_def kept_def)

text \<open>The time spent waiting since the tunnel was lost.\<close>

definition spent :: "duration \<Rightarrow> effect list \<Rightarrow> duration" where
  "spent = foldl (\<lambda>t e. case e of RetriesImmediately \<Rightarrow> 0 | Waits d \<Rightarrow> t + d | _ \<Rightarrow> t)"

fun pendingWait :: "sup_pc \<Rightarrow> duration" where
  "pendingWait (AtWait w) = w"
| "pendingWait p = 0"

fun over :: "sup_pc \<Rightarrow> bool" where
  "over (AtAbandon n) = True"
| "over AtReturn = True"
| "over Returned = True"
| "over p = False"

text \<open>The backoff is the first one, doubled some number of times, up to the largest.\<close>

definition doubled :: "duration \<Rightarrow> bool" where
  "doubled b \<longleftrightarrow> (\<exists>k. b = min (2 ^ k * clientReconnectInitialBackoff) clientReconnectMaximumBackoff)"

definition timed :: "supervisor_options \<Rightarrow> supervisor \<Rightarrow> duration \<Rightarrow> bool" where
  "timed options s t \<longleftrightarrow>
     doubled (backoff s) \<and>
     (reconnecting s \<longrightarrow>
        (if over (pc s) then t \<le> optReconnectTimeout options
         else t + reconnectTimeoutRemaining s = optReconnectTimeout options + pendingWait (pc s) \<and>
           pendingWait (pc s) \<le> reconnectTimeoutRemaining s \<and> 0 \<le> reconnectTimeoutRemaining s))"

definition waits_ok :: "effect list \<Rightarrow> bool" where
  "waits_ok es \<longleftrightarrow> list_all (\<lambda>e. case e of Waits d \<Rightarrow> 0 < d \<and> d \<le> clientReconnectMaximumBackoff | _ \<Rightarrow> True) es"

lemma spent_simps [simp]: "spent t [] = t" "spent t (es @ es') = spent (spent t es) es'"
  "spent t (Waits d # es) = spent (t + d) es" "spent t (RetriesImmediately # es) = spent 0 es"
  by (simp_all add: spent_def)

lemma spent_quiet [simp]: "rejection es \<Longrightarrow> spent t es = t" "spent t (closeObtainedSession s) = t" "spent t (releaseIf b s) = t"
  by (auto simp: spent_def rejection_def closeObtainedSession_def releaseIf_def split: option.split)

lemma spent_closed [simp]: "spent t (map ClosedSession hs) = t"
  by (induction hs) (simp_all add: spent_def)

lemma waits_ok_simps [simp]: "waits_ok []" "waits_ok (es @ es') \<longleftrightarrow> waits_ok es \<and> waits_ok es'" "rejection es \<Longrightarrow> waits_ok es"
  "waits_ok (closeObtainedSession s)" "waits_ok (releaseIf b s)" "waits_ok (map ClosedSession hs)"
  by (auto simp: waits_ok_def rejection_def closeObtainedSession_def releaseIf_def list_all_iff split: option.split)

lemma waits_ok_Cons [simp]:
  "waits_ok (Waits d # es) \<longleftrightarrow> 0 < d \<and> d \<le> clientReconnectMaximumBackoff \<and> waits_ok es"
  "waits_ok (RetriesImmediately # es) = waits_ok es" "waits_ok (ObtainedSession n # es) = waits_ok es"
  "waits_ok (OpenedSession m # es) = waits_ok es" "waits_ok (ClosedSession m # es) = waits_ok es"
  "waits_ok (Announces r v # es) = waits_ok es" "waits_ok (FailedSession m err # es) = waits_ok es"
  by (simp_all add: waits_ok_def)

lemma spent_Cons [simp]:
  "spent t (ObtainedSession n # es) = spent t es" "spent t (OpenedSession m # es) = spent t es"
  "spent t (ClosedSession m # es) = spent t es" "spent t (Announces r v # es) = spent t es"
  "spent t (FailedSession m err # es) = spent t es"
  by (simp_all add: spent_def)

lemma doubled_next: "doubled b \<Longrightarrow> doubled (nextClientReconnectBackoff b)"
proof -
  assume "doubled b"
  then obtain k where "b = min (2 ^ k * clientReconnectInitialBackoff) clientReconnectMaximumBackoff" by (auto simp: doubled_def)
  then have "nextClientReconnectBackoff b = min (2 ^ Suc k * clientReconnectInitialBackoff) clientReconnectMaximumBackoff"
    by (auto simp: nextClientReconnectBackoff_def Let_def clientReconnectMaximumBackoff_def clientReconnectInitialBackoff_def min_def)
  then show ?thesis unfolding doubled_def by blast
qed

lemma doubled_range: "doubled b \<Longrightarrow> 0 < b \<and> b \<le> clientReconnectMaximumBackoff"
  by (auto simp: doubled_def clientReconnectMaximumBackoff_def clientReconnectInitialBackoff_def)

lemma doubled_initial [simp]: "doubled clientReconnectInitialBackoff"
  unfolding doubled_def by (rule exI [of _ 0]) (simp add: clientReconnectMaximumBackoff_def clientReconnectInitialBackoff_def)

lemma dropIf_fields [simp]: "backoff (dropIf b s) = backoff s" "reconnecting (dropIf b s) = reconnecting s"
  "reconnectTimeoutRemaining (dropIf b s) = reconnectTimeoutRemaining s" "established (dropIf b s) = established s"
  "pc (dropIf b s) = pc s"
  by (simp_all add: dropIf_def dropSession_def)

lemma deciding_pending [simp]: "deciding p \<Longrightarrow> pendingWait p = 0" "deciding p \<Longrightarrow> \<not> over p"
  by (cases p; simp)+

lemma move_timed:
  "move options s s' es' \<Longrightarrow> 0 \<le> optReconnectTimeout options \<Longrightarrow> timed options s (spent 0 es) \<Longrightarrow>
     timed options s' (spent 0 (es @ es')) \<and> waits_ok es'"
proof (induction rule: move.induct)
  case (1 rej hs s b)
  have "spent 0 es \<le> optReconnectTimeout options" if "reconnecting s"
    using 1(4) that by (auto simp: timed_def split: if_split_asm)
  with 1 show ?case by (auto simp: timed_def)
next
  case (2 rej s b)
  have k: "doubled (backoff s)" using 2 by (simp add: timed_def)
  then have r: "0 < backoff s" "backoff s \<le> clientReconnectMaximumBackoff" using doubled_range by auto
  have t: "\<not> reconnecting s \<or> (spent 0 es + reconnectTimeoutRemaining s = optReconnectTimeout options \<and> 0 < reconnectTimeoutRemaining s)"
    using 2 by (auto simp: timed_def)
  show ?case using r t 2(1) k unfolding timed_def waitTime_def by auto
next
  case (6 s w)
  then show ?case using doubled_next by (auto simp: timed_def endWait_def)
next
  case (15 s n t)
  then show ?case by (auto simp: timed_def afterStart_def Let_def)
next
  case (21 s n es err)
  then show ?case by (auto simp: timed_def)
qed (auto simp: timed_def restart_def dropSession_def reconnect_def enterIteration_def)

text \<open>The announcements: an initial one can only be the first, and a re-establishment cannot.\<close>

fun carried :: "sup_pc \<Rightarrow> TunnelConfigurationEventReason option" where
  "carried (AtConfigure n r t) = Some r"
| "carried (AtPublish n r t v) = Some r"
| "carried p = None"

definition announcements :: "effect list \<Rightarrow> TunnelConfigurationEventReason list" where
  "announcements es = concat (map announcedBy es)"

definition announced_ok :: "supervisor \<Rightarrow> TunnelConfigurationEventReason list \<Rightarrow> bool" where
  "announced_ok s rs \<longleftrightarrow>
     (rs = [] \<or> (established s \<and> TunnelConfigurationEventInitial \<notin> set (tl rs) \<and> hd rs \<noteq> TunnelConfigurationEventReestablishment)) \<and>
     (case carried (pc s) of
        None \<Rightarrow> rs \<noteq> [] \<or> \<not> established s \<or> over (pc s)
      | Some r \<Rightarrow> established s \<and> (if rs = [] then r \<noteq> TunnelConfigurationEventReestablishment else r \<noteq> TunnelConfigurationEventInitial))"

lemma announcements_simps [simp]: "announcements [] = []" "announcements (es @ es') = announcements es @ announcements es'"
  "announcements (Announces r v # es) = r # announcements es"
  "rejection es \<Longrightarrow> announcements es = []" "announcements (closeObtainedSession s) = []" "announcements (releaseIf b s) = []"
  "announcements (map ClosedSession hs) = []"
  by (auto simp: announcements_def rejection_def closeObtainedSession_def releaseIf_def split: option.split)

lemma deciding_carried [simp]: "deciding p \<Longrightarrow> carried p = None"
  by (cases p) auto

lemma move_announced:
  "move options s s' es' \<Longrightarrow> announced_ok s (announcements es) \<Longrightarrow> announced_ok s' (announcements (es @ es'))"
proof (induction rule: move.induct)
  case (17 s n r t v)
  then show ?case by (cases "announcements es") (auto simp: announced_ok_def split: if_split_asm)
next
  case (21 s n es' err)
  then show ?case by (auto simp: announced_ok_def announcements_def)
qed (auto simp: announced_ok_def restart_def dropSession_def reconnect_def endWait_def enterIteration_def afterStart_def Let_def
    announcements_def [of "[_]"])

lemma sup_run_inv:
  assumes "sup_run options s es" "0 \<le> optReconnectTimeout options"
  shows "balanced s es \<and> timed options s (spent 0 es) \<and> waits_ok es \<and> announced_ok s (announcements es)"
  using assms
proof (induction rule: sup_run.induct)
  case sup_run_start
  show ?case by (simp add: newSupervisor_def balanced_def kept_def timed_def announced_ok_def)
next
  case (sup_run_step s es ready inp c c' s' es')
  then show ?case
    using move_balanced [OF sup_step_move] move_timed [OF sup_step_move] move_announced [OF sup_step_move] by fastforce
qed

section \<open>Giving up\<close>

text \<open>An environment in which everything fails and every timer fires: what it answers at a place, and the first \<open>n\<close>
  steps in it, with the error of each step.\<close>

definition nextAnswer :: "go_error \<Rightarrow> supervisor \<Rightarrow> sup_input" where
  "nextAnswer err s =
     (case pc s of AtObtain \<Rightarrow> Obtains (Inl err) | AtConnect \<Rightarrow> Connects (Inl err) | AtWait w \<Rightarrow> TimerFired | _ \<Rightarrow> Proceed)"

fun drive :: "supervisor_options \<Rightarrow> (session \<Rightarrow> bool) \<Rightarrow> (nat \<Rightarrow> go_error) \<Rightarrow> nat \<Rightarrow> client \<Rightarrow> supervisor \<Rightarrow> sup_next option" where
  "drive options ready errs 0 c s = Some (c, s, [])"
| "drive options ready errs (Suc n) c s =
     (case sup_step options ready (nextAnswer (errs 0) s) c s of
        None \<Rightarrow> None
      | Some (c', s', es) \<Rightarrow> map_option (withEffects es) (drive options ready (\<lambda>i. errs (Suc i)) n c' s'))"

text \<open>Errors after which the client tries again.\<close>

definition recoverable :: "go_error \<Rightarrow> bool" where
  "recoverable err \<longleftrightarrow> castRetryable err = None \<and> \<not> castRekey err \<and> classifyClientSessionError (Some err) = clientSessionErrorRetryable"

definition quiet :: "client \<Rightarrow> bool" where
  "quiet c \<longleftrightarrow> \<not> cancelled c \<and> \<not> clientClosed c \<and> \<not> suspended c \<and> terminalError c = None"

lemma drive_append:
  "drive options ready errs (m + n) c s =
     (case drive options ready errs m c s of
        None \<Rightarrow> None
      | Some (c', s', es) \<Rightarrow> map_option (withEffects es) (drive options ready (\<lambda>i. errs (m + i)) n c' s'))"
proof (induction m arbitrary: errs c s)
  case 0
  have "map_option (withEffects []) x = x" for x by (cases x) auto
  then show ?case by simp
next
  case (Suc m)
  have w: "map_option (withEffects es) (map_option (withEffects es') x) = map_option (withEffects (es @ es')) x" for es es' x
    by (cases x) auto
  show ?case
    by (auto simp: Suc w split: option.split)
qed

lemma drive_one: "drive options ready errs 1 c s = sup_step options ready (nextAnswer (errs 0) s) c s"
  by (auto simp: withEffects_def split: option.split)

text \<open>One attempt: two steps to the call, the call that fails, and the wait or the end.\<close>

lemma failing_attempt:
  assumes "recoverable (errs 2)" "quiet c" "pc s = AtLoop"
  shows "\<exists>b. drive options ready errs 3 c s = Some (withEffects (releaseIf b s) (beginWait c (dropIf b (s\<lparr>pc := (if sessionState s = None then AtObtain else AtConnect)\<rparr>))))"
proof -
  let ?s = "s\<lparr>pc := (if sessionState s = None then AtObtain else AtConnect)\<rparr>" and ?e = "errs 2"
  have c: "\<not> cancelled c" "\<not> clientClosed c" "\<not> suspended c" using assms(2) by (simp_all add: quiet_def)
  have two: "drive options ready errs 2 c s = Some (c, ?s, [])"
    using c assms(3) by (simp add: numeral_2_eq_2 sup_step_def nextAnswer_def sup_proceed_def enterIteration_def)
  have e: "castRetryable ?e = None" "\<not> castRekey ?e" "classifyClientSessionError (Some ?e) \<noteq> clientSessionErrorTerminal"
    using assms(1) by (simp_all add: recoverable_def)
  have r: "releaseIf b ?s = releaseIf b s" for b by (simp add: releaseIf_def closeObtainedSession_def)
  have "\<exists>b. sup_step options ready (nextAnswer ?e ?s) c ?s = Some (withEffects (releaseIf b s) (beginWait c (dropIf b ?s)))"
  proof (cases "sessionState s")
    case None
    have "sup_step options ready (nextAnswer ?e ?s) c ?s = Some (beginWait c ?s)"
      using None c e by (simp add: sup_step_def nextAnswer_def sup_answer_def afterObtain_def handleRetryableAuthenticationError_def)
    then show ?thesis by (intro exI [of _ False]) (simp add: releaseIf_def dropIf_def)
  next
    case (Some m)
    have "sup_step options ready (nextAnswer ?e ?s) c ?s = Some (if IsMulti ?e [ErrSessionRejected]
        then withEffects (closeObtainedSession ?s) (beginWait c (dropSession ?s)) else beginWait c ?s)"
      using Some c e by (simp add: sup_step_def nextAnswer_def sup_answer_def afterConnect_def handleRetryableAuthenticationError_def)
    then show ?thesis unfolding r [symmetric]
      by (intro exI [of _ "IsMulti ?e [ErrSessionRejected]"]) (simp add: releaseIf_def dropIf_def)
  qed
  then obtain b where b: "sup_step options ready (nextAnswer ?e ?s) c ?s = Some (withEffects (releaseIf b s) (beginWait c (dropIf b ?s)))"
    by blast
  have one: "drive options ready (\<lambda>i. errs (2 + i)) 1 c ?s = Some (withEffects (releaseIf b s) (beginWait c (dropIf b ?s)))"
    unfolding drive_one using b by simp
  have "drive options ready errs (2 + 1) c s = Some (withEffects (releaseIf b s) (beginWait c (dropIf b ?s)))"
    unfolding drive_append two option.case prod.case one by (cases "beginWait c (dropIf b ?s)") simp
  then show ?thesis by (intro exI [of _ b]) simp
qed

text \<open>The waits go on until the time is used up.\<close>

lemma drive_gives_up:
  assumes "\<And>i. recoverable (errs i)" "quiet c" "pc s = AtLoop" "reconnecting s" "doubled (backoff s)"
    "0 \<le> reconnectTimeoutRemaining s"
  shows "\<exists>n c' s' es. drive options ready errs n c s = Some (c', s', es) \<and> pc s' = Returned \<and>
    terminalError c' = Some (Sentinel ErrReconnectTimeout) \<and> (\<forall>t. spent t es = t + reconnectTimeoutRemaining s)"
  using assms
proof (induction "nat (reconnectTimeoutRemaining s)" arbitrary: errs s rule: less_induct)
  case less
  let ?p = "if sessionState s = None then AtObtain else AtConnect" and ?r = "reconnectTimeoutRemaining s"
  obtain b where b: "drive options ready errs 3 c s = Some (withEffects (releaseIf b s) (beginWait c (dropIf b (s\<lparr>pc := ?p\<rparr>))))"
    using failing_attempt less.prems(1-3) by blast
  let ?s = "dropIf b (s\<lparr>pc := ?p\<rparr>)"
  have f: "reconnecting ?s" "reconnectTimeoutRemaining ?s = ?r" "backoff ?s = backoff s" using less.prems(4) by simp_all
  show ?case
  proof (cases "?r \<le> 0")
    case True
    let ?c = "failSupervisor (Some (Sentinel ErrReconnectTimeout)) c"
    have t: "terminalError (closeSupervisorState ?c) = Some (Sentinel ErrReconnectTimeout)"
      using less.prems(2) by (auto simp: quiet_def failSupervisor_def setTerminalError_def closeSupervisorState_def cancelSupervisor_def Let_def)
    have w: "beginWait c ?s = leave ?c ?s" using True less.prems(4) by (simp add: beginWait_def)
    define es where "es = releaseIf b s @ closeObtainedSession ?s"
    have d: "drive options ready errs 3 c s = Some (?c, ?s\<lparr>pc := AtReturn, sessionState := None\<rparr>, es)"
      unfolding b w by (simp add: leave_def es_def)
    have "drive options ready errs (3 + 1) c s = Some (closeSupervisorState ?c, ?s\<lparr>pc := Returned, sessionState := None\<rparr>, es)"
      unfolding drive_append d option.case prod.case drive_one by (simp add: sup_step_def sup_proceed_def nextAnswer_def)
    moreover have "\<forall>t. spent t es = t + ?r" using True less.prems(6) by (simp add: es_def)
    ultimately show ?thesis
      using t by (intro exI [of _ "3 + 1"] exI [of _ "closeSupervisorState ?c"] exI [of _ "?s\<lparr>pc := Returned, sessionState := None\<rparr>"] exI [of _ es]) simp
  next
    case False
    define w where "w = waitTime s"
    have w: "0 < w" "w \<le> ?r" using doubled_range [OF less.prems(5)] False less.prems(4) by (auto simp: w_def waitTime_def)
    define s1 where "s1 = endWait w (?s\<lparr>pc := AtWait w\<rparr>)"
    have "beginWait c ?s = (c, ?s\<lparr>pc := AtWait w\<rparr>, [Waits w])"
      using False f by (auto simp: beginWait_def w_def waitTime_def Let_def)
    then have d: "drive options ready errs 3 c s = Some (c, ?s\<lparr>pc := AtWait w\<rparr>, releaseIf b s @ [Waits w])" unfolding b by simp
    have d4: "drive options ready errs (3 + 1) c s = Some (c, s1, releaseIf b s @ [Waits w])"
      unfolding drive_append d option.case prod.case drive_one by (simp add: sup_step_def sup_answer_def nextAnswer_def s1_def)
    have s1: "pc s1 = AtLoop" "reconnecting s1" "doubled (backoff s1)" "reconnectTimeoutRemaining s1 = ?r - w"
      using less.prems(4) doubled_next [OF less.prems(5)] by (simp_all add: s1_def endWait_def)
    have "nat (reconnectTimeoutRemaining s1) < nat ?r" "0 \<le> reconnectTimeoutRemaining s1" using w s1(4) by linarith+
    from less.hyps [OF this(1), of "\<lambda>i. errs (3 + 1 + i)", OF less.prems(1) less.prems(2) s1(1-3) this(2)]
    obtain n c' s' es where n: "drive options ready (\<lambda>i. errs (3 + 1 + i)) n c s1 = Some (c', s', es)" "pc s' = Returned"
      "terminalError c' = Some (Sentinel ErrReconnectTimeout)" "\<forall>t. spent t es = t + reconnectTimeoutRemaining s1" by blast
    have "drive options ready errs (3 + 1 + n) c s = Some (c', s', releaseIf b s @ [Waits w] @ es)"
      unfolding drive_append [of _ _ _ "3 + 1"] d4 option.case prod.case n(1) by simp
    moreover have "\<forall>t. spent t (releaseIf b s @ [Waits w] @ es) = t + ?r" using n(4) s1(4) by simp
    ultimately show ?thesis using n(2,3) by blast
  qed
qed

section \<open>Properties\<close>

text \<open>C23: the supervisor leaks no session and closes none twice, whatever the rest of the program does to the client: at every
  point the sessions that were obtained are those that were closed and the one it works with, and the tunnel sessions that
  were opened are those that were closed and the one it holds; a tunnel is only connected with an obtained session that
  is still open; once it has returned everything is closed.\<close>

theorem supervisor_releases_sessions:
  assumes "sup_run options s es" "0 \<le> optReconnectTimeout options"
  shows "sessionsOf obtainedBy es = sessionsOf releasedBy es + kept s \<and>
    sessionsOf openedBy es = sessionsOf closedBy es + mset (held (pc s)) \<and>
    (pc s = AtConnect \<longrightarrow> sessionState s \<noteq> None) \<and> (pc s = AtObtain \<longrightarrow> sessionState s = None) \<and>
    (pc s = Returned \<longrightarrow> sessionsOf obtainedBy es = sessionsOf releasedBy es \<and> sessionsOf openedBy es = sessionsOf closedBy es)"
  using sup_run_inv [OF assms] by (auto simp: balanced_def kept_def)

definition sampleOptions :: supervisor_options where
  "sampleOptions = \<lparr>optIPv6Disabled = False, optReconnectTimeout = 300 * 1000000000, optCallback = True\<rparr>"

text \<open>A run: a session is obtained, a tunnel opened and started, it ends with an error, and the client is closed.\<close>

definition sampleInputs :: "sup_input list" where
  "sampleInputs = [Proceed, Proceed, Obtains (Inr (Some 7)), Connects (Inr 1), Proceed, Starts emptyTunnelConfiguration, Proceed, Proceed,
     Proceed, Proceed, Proceed, Ends (Some (New ''reset'')) None, Proceed, Proceed, Proceed, Proceed, Connects (Inl (New ''refused''))]"

fun feed :: "supervisor_options \<Rightarrow> sup_input list \<Rightarrow> client \<Rightarrow> supervisor \<Rightarrow> sup_next option" where
  "feed options [] c s = Some (c, s, [])"
| "feed options (inp # inps) c s =
     (case sup_step options (\<lambda>_. True) inp c s of
        None \<Rightarrow> None
      | Some (c', s', es) \<Rightarrow> map_option (withEffects es) (feed options inps c' s'))"

lemma feed_run: "sup_run options s es \<Longrightarrow> feed options inps c s = Some (c', s', es') \<Longrightarrow> sup_run options s' (es @ es')"
proof (induction inps arbitrary: c s es es')
  case (Cons inp inps)
  then obtain c1 s1 es1 c2 s2 es2 where 1: "sup_step options (\<lambda>_. True) inp c s = Some (c1, s1, es1)"
    and 2: "feed options inps c1 s1 = Some (c2, s2, es2)" "c' = c2" "s' = s2" "es' = es1 @ es2"
    using Cons.prems(2) by (auto split: option.split_asm)
  show ?case using Cons.IH [OF sup_run_step [OF Cons.prems(1) 1]] 2 by simp
qed simp

lemma sample_feed:
  "\<exists>c s. feed sampleOptions sampleInputs (newClient Map.empty) newSupervisor =
     Some (c, s, [ObtainedSession 7, OpenedSession 1, Announces TunnelConfigurationEventInitial 1, ClosedSession 1,
       RetriesImmediately, Waits 1000000000]) \<and> pc s = AtWait 1000000000 \<and> reconnecting s \<and> sessionState s = Some 7 \<and> quiet c \<and>
     doubled (backoff s) \<and> reconnectTimeoutRemaining s = 300 * 1000000000"
proof -
  define t where "t = normalizeTunnelConfiguration emptyTunnelConfiguration False"
  have n: "normalizeTunnelConfiguration emptyTunnelConfiguration False = t" by (simp add: t_def)
  have e: "unwrapped (New m) = [New m]" for m by simp
  show ?thesis
    by (simp add: sampleInputs_def sup_step_def sup_proceed_def sup_answer_def newSupervisor_def newClient_def enterIteration_def
        afterObtain_def afterConnect_def makeCurrent_def setCurrentSession_def afterStart_def publishCurrentSession_def n
        setTunnelConfiguration_def raiseRevision_def queueEvent_def sampleOptions_def appendError_def clearCurrentSession_def
        decideEnd_def isError_def IsMulti_def e castRekey_def castRetryable_def classifyClientSessionError_def
        handleRetryableAuthenticationError_def reconnect_def restart_def beginWait_def clientReconnectInitialBackoff_def Let_def
        signalStateChangedLocked_def setActiveTransportWithLifecycleLocked_def unpublished_def quiet_def
        doubled_initial [unfolded clientReconnectInitialBackoff_def])
qed

theorem supervisor_releases_sessions_witness:
  "\<exists>c s es. feed sampleOptions sampleInputs (newClient Map.empty) newSupervisor = Some (c, s, es) \<and>
     sessionsOf obtainedBy es = {#7#} \<and> sessionsOf releasedBy es = {#} \<and> sessionsOf openedBy es = {#1#} \<and> sessionsOf closedBy es = {#1#} \<and>
     sessionsOf obtainedBy es = sessionsOf releasedBy es + kept s"
proof -
  obtain c s where f: "feed sampleOptions sampleInputs (newClient Map.empty) newSupervisor =
     Some (c, s, [ObtainedSession 7, OpenedSession 1, Announces TunnelConfigurationEventInitial 1, ClosedSession 1,
       RetriesImmediately, Waits 1000000000])" using sample_feed by blast
  have r: "sup_run sampleOptions s ([] @ [ObtainedSession 7, OpenedSession 1, Announces TunnelConfigurationEventInitial 1, ClosedSession 1,
       RetriesImmediately, Waits 1000000000])" by (rule feed_run [OF sup_run_start f])
  from supervisor_releases_sessions [OF r] f show ?thesis by (auto simp: sampleOptions_def)
qed

lemma waits_okD: "waits_ok es \<Longrightarrow> Waits d \<in> set es \<Longrightarrow> 0 < d \<and> d \<le> 60 * 1000000000"
  by (auto simp: waits_ok_def list_all_iff clientReconnectMaximumBackoff_def)

text \<open>Every wait before another attempt is positive and at most sixty seconds, the backoff is one second doubled some
  number of times up to that limit, and since an established tunnel was lost the supervisor never waits for longer than
  the reconnect timeout in total.\<close>

theorem supervisor_waits_bounded:
  assumes "sup_run options s es" "0 \<le> optReconnectTimeout options"
  shows "(\<forall>d. Waits d \<in> set es \<longrightarrow> 0 < d \<and> d \<le> 60 * 1000000000) \<and>
    (\<exists>k. backoff s = min (2 ^ k * clientReconnectInitialBackoff) clientReconnectMaximumBackoff) \<and>
    (reconnecting s \<longrightarrow> spent 0 es \<le> optReconnectTimeout options)"
  using sup_run_inv [OF assms] waits_okD [of es] by (auto simp: timed_def doubled_def split: if_split_asm)

theorem supervisor_waits_bounded_witness:
  "\<exists>c s es. feed sampleOptions sampleInputs (newClient Map.empty) newSupervisor = Some (c, s, es) \<and> reconnecting s \<and>
     spent 0 es = 1000000000 \<and> spent 0 es \<le> 300 * 1000000000"
proof -
  obtain c s where f: "feed sampleOptions sampleInputs (newClient Map.empty) newSupervisor =
     Some (c, s, [ObtainedSession 7, OpenedSession 1, Announces TunnelConfigurationEventInitial 1, ClosedSession 1,
       RetriesImmediately, Waits 1000000000])" "reconnecting s" using sample_feed by blast
  have r: "sup_run sampleOptions s ([] @ [ObtainedSession 7, OpenedSession 1, Announces TunnelConfigurationEventInitial 1, ClosedSession 1,
       RetriesImmediately, Waits 1000000000])" by (rule feed_run [OF sup_run_start f(1)])
  from supervisor_waits_bounded [OF r] f show ?thesis by (auto simp: sampleOptions_def)
qed

text \<open>C24: once an established tunnel is lost and every further attempt fails with an error that can be retried, the supervisor
  stops by itself with the reconnect timeout as the client's error, after waiting for exactly the time that was left.\<close>

theorem supervisor_gives_up:
  assumes "\<And>i. recoverable (errs i)" "quiet c" "pc s = AtLoop" "reconnecting s" "doubled (backoff s)"
    "0 \<le> reconnectTimeoutRemaining s"
  shows "\<exists>n c' s' es. drive options ready errs n c s = Some (c', s', es) \<and> pc s' = Returned \<and>
    terminalError c' = Some (Sentinel ErrReconnectTimeout) \<and> spent 0 es = reconnectTimeoutRemaining s"
  using drive_gives_up [OF assms, of options ready] by force

theorem supervisor_gives_up_witness:
  "\<exists>n c' s' es. drive sampleOptions (\<lambda>_. True) (\<lambda>_. Sentinel ErrSessionRejected) n (newClient Map.empty)
       (newSupervisor\<lparr>reconnecting := True, reconnectTimeoutRemaining := 300 * 1000000000\<rparr>) = Some (c', s', es) \<and>
     pc s' = Returned \<and> terminalError c' = Some (Sentinel ErrReconnectTimeout) \<and> spent 0 es = 300 * 1000000000"
  using supervisor_gives_up [of "\<lambda>_. Sentinel ErrSessionRejected" "newClient Map.empty"
      "newSupervisor\<lparr>reconnecting := True, reconnectTimeoutRemaining := 300 * 1000000000\<rparr>" sampleOptions "\<lambda>_. True"]
  by (simp add: recoverable_def castRetryable_def castRekey_def classifyClientSessionError_def IsMulti_def quiet_def newClient_def
      newSupervisor_def)

text \<open>What is announced to the application is consistent: an initial configuration can only be the first announcement,
  and a re-establishment is never announced before a tunnel was.\<close>

theorem supervisor_announcements:
  assumes "sup_run options s es" "0 \<le> optReconnectTimeout options" "announcements es = r # rs"
  shows "r \<noteq> TunnelConfigurationEventReestablishment \<and> TunnelConfigurationEventInitial \<notin> set rs"
  using sup_run_inv [OF assms(1,2)] assms(3) by (auto simp: announced_ok_def)

theorem supervisor_announcements_witness:
  "\<exists>c s es. feed sampleOptions sampleInputs (newClient Map.empty) newSupervisor = Some (c, s, es) \<and>
     announcements es = [TunnelConfigurationEventInitial] \<and> hd (announcements es) \<noteq> TunnelConfigurationEventReestablishment"
proof -
  obtain c s where f: "feed sampleOptions sampleInputs (newClient Map.empty) newSupervisor =
     Some (c, s, [ObtainedSession 7, OpenedSession 1, Announces TunnelConfigurationEventInitial 1, ClosedSession 1,
       RetriesImmediately, Waits 1000000000])" using sample_feed by blast
  have r: "sup_run sampleOptions s ([] @ [ObtainedSession 7, OpenedSession 1, Announces TunnelConfigurationEventInitial 1, ClosedSession 1,
       RetriesImmediately, Waits 1000000000])" by (rule feed_run [OF sup_run_start f])
  have a: "announcements [ObtainedSession 7, OpenedSession 1, Announces TunnelConfigurationEventInitial 1, ClosedSession 1,
       RetriesImmediately, Waits 1000000000] = [TunnelConfigurationEventInitial]" by (simp add: announcements_def)
  from supervisor_announcements [OF r] f a show ?thesis by (auto simp: sampleOptions_def)
qed

text \<open>What a session goroutine does when the path MTU changes.\<close>

definition pathMTUChange :: "supervisor_options \<Rightarrow> TunnelConfiguration \<Rightarrow> client \<Rightarrow> client" where
  "pathMTUChange options configuration c =
     (case setTunnelConfiguration (optIPv6Disabled options) configuration c of
        (c1, configuration', v) \<Rightarrow> queueEvent (optCallback options)
          \<lparr>Reason = TunnelConfigurationEventPathMTU, Revision = v, Configuration = configuration'\<rparr> (raiseRevision v c1))"

text \<open>C27: the supervisor publishes the configuration that it read before, so a change of the path MTU that a session makes in
  between is overtaken: the session stays published under the older revision although a newer one was given out, the
  events reach the application in the wrong order, and the last one carries the older configuration.\<close>

theorem path_mtu_change_overtaken:
  assumes "pc s = AtConfigure n reason older" "currentSession c = Some n" "publishedSession c = None" "quiet c"
    "optCallback options" "\<not> configurationEventStopped c" "v = tunnelConfigurationRevision c + 1"
    "sup_step options ready Proceed c s = Some (c1, s1, es1)"
    "feed options [Proceed, Proceed, Proceed] (pathMTUChange options newer c1) s1 = Some (c2, s2, es2)"
  shows "publishedSession c2 = Some n \<and> publishedSessionRevision c2 = v \<and> tunnelConfigurationRevision c2 = v + 1 \<and>
    configurationEvents c2 = configurationEvents c @
      [\<lparr>Reason = TunnelConfigurationEventPathMTU, Revision = v + 1, Configuration = normalizeTunnelConfiguration newer (optIPv6Disabled options)\<rparr>,
       \<lparr>Reason = reason, Revision = v, Configuration = normalizeTunnelConfiguration older (optIPv6Disabled options)\<rparr>]"
proof -
  have "s1 = s\<lparr>pc := AtPublish n reason (normalizeTunnelConfiguration older (optIPv6Disabled options)) v\<rparr>"
    "c1 = fst (setTunnelConfiguration (optIPv6Disabled options) older c)"
    using assms(1,7,8) by (auto simp: sup_step_def sup_proceed_def setTunnelConfiguration_def Let_def)
  then show ?thesis
    using assms(2-7,9)
    by (auto simp: pathMTUChange_def sup_step_def sup_proceed_def quiet_def publishCurrentSession_def raiseRevision_def queueEvent_def
        setTunnelConfiguration_def Let_def split: if_split_asm)
qed

definition startingClient :: client where
  "startingClient = fst (setCurrentSession 5 (newClient Map.empty))"

definition startingSupervisor :: supervisor where
  "startingSupervisor = newSupervisor\<lparr>pc := AtConfigure 5 TunnelConfigurationEventInitial emptyTunnelConfiguration, sessionState := Some 7,
     established := True\<rparr>"

theorem path_mtu_change_overtaken_witness:
  "\<exists>c1 s1 es1 c2 s2 es2. sup_step sampleOptions (\<lambda>_. True) Proceed startingClient startingSupervisor = Some (c1, s1, es1) \<and>
     feed sampleOptions [Proceed, Proceed, Proceed] (pathMTUChange sampleOptions (emptyTunnelConfiguration\<lparr>MTU := 1300\<rparr>) c1) s1 = Some (c2, s2, es2) \<and>
     publishedSessionRevision c2 = 1 \<and> tunnelConfigurationRevision c2 = 2 \<and> map Revision (configurationEvents c2) = [2, 1]"
proof -
  let ?newer = "emptyTunnelConfiguration\<lparr>MTU := 1300\<rparr>"
  have f: "pc startingSupervisor = AtConfigure 5 TunnelConfigurationEventInitial emptyTunnelConfiguration"
    "currentSession startingClient = Some 5" "publishedSession startingClient = None" "quiet startingClient"
    "optCallback sampleOptions" "\<not> configurationEventStopped startingClient" "1 = tunnelConfigurationRevision startingClient + 1"
    "configurationEvents startingClient = []"
    by (simp_all add: startingSupervisor_def startingClient_def sampleOptions_def client_defs newClient_def quiet_def)
  obtain c1 s1 es1 where 1: "sup_step sampleOptions (\<lambda>_. True) Proceed startingClient startingSupervisor = Some (c1, s1, es1)"
    using f(1) by (auto simp: sup_step_def sup_proceed_def setTunnelConfiguration_def Let_def)
  have s1: "s1 = startingSupervisor\<lparr>pc := AtPublish 5 TunnelConfigurationEventInitial (normalizeTunnelConfiguration emptyTunnelConfiguration False) 1\<rparr>"
    "c1 = fst (setTunnelConfiguration False emptyTunnelConfiguration startingClient)"
    using 1 f(7) by (auto simp: sup_step_def sup_proceed_def startingSupervisor_def sampleOptions_def setTunnelConfiguration_def Let_def)
  have "feed sampleOptions [Proceed, Proceed, Proceed] (pathMTUChange sampleOptions ?newer c1) s1 \<noteq> None"
    using f unfolding s1
    by (auto simp: pathMTUChange_def sup_step_def sup_proceed_def quiet_def publishCurrentSession_def raiseRevision_def queueEvent_def
        setTunnelConfiguration_def Let_def)
  then obtain c2 s2 es2 where 2: "feed sampleOptions [Proceed, Proceed, Proceed] (pathMTUChange sampleOptions ?newer c1) s1 = Some (c2, s2, es2)"
    by auto
  from path_mtu_change_overtaken [OF f(1-7) 1 2] f(8) 1 2 show ?thesis by auto
qed

end
