(* ===== verification/Client_Data.thy ===== *)
theory Client_Data
  imports Client_State Packet_Queue "HOL-Library.Multiset"
begin

text \<open>
  The way of a received packet through the client (\<^verbatim>\<open>client.go\<close>): a session tags it with its
  generation and the published revision, puts it into the bounded queue, and a reader resolves it
  against the state of the client at that moment. The payload type is arbitrary, so that a payload
  can carry where it comes from.
\<close>

section \<open>Definitions\<close>

record 'p incomingDataPacket =
  generation :: nat
  revision :: nat
  packetBuffer :: 'p

text \<open>\<open>pushIncomingDataPacketsWithin\<close> up to the queue; \<open>None\<close> when the session may not push, with the packets
  that count as dropped.\<close>

definition tagPackets ::
  "('p \<Rightarrow> bool) \<Rightarrow> (session \<Rightarrow> bool) \<Rightarrow> session \<Rightarrow> 'p list \<Rightarrow> client \<Rightarrow> 'p list + 'p incomingDataPacket list" where
  "tagPackets isEmpty ready s packetBuffers c =
     (let validBuffers = filter (\<lambda>p. \<not> isEmpty p) packetBuffers;
          allowed = (\<not> clientClosed c \<and> terminalError c = None \<and> currentSession c = Some s);
          n = currentSessionGeneration c;
          r = (if publishedSession c = Some s \<and> publishedSessionGeneration c = n \<and> ready s then publishedSessionRevision c else 0)
      in if \<not> allowed then Inl validBuffers
         else Inr (map (\<lambda>p. \<lparr>generation = n, revision = r, packetBuffer = p\<rparr>) validBuffers))"

text \<open>A round of \<open>resolveIncomingDataPacket\<close>.\<close>

datatype 'p resolution = Resolved "'p incomingDataPacket" bool | Unresolved go_error | StillWaiting

definition resolveRound :: "(session \<Rightarrow> bool) \<Rightarrow> 'p incomingDataPacket \<Rightarrow> client \<Rightarrow> 'p resolution" where
  "resolveRound ready packet c =
     (if generation packet \<noteq> currentSessionGeneration c then Resolved packet False
      else if isReady ready c \<and> publishedSessionGeneration c = generation packet then
        let packet' = (if revision packet = 0 then packet\<lparr>revision := publishedSessionInitialRevision c\<rparr> else packet)
        in Resolved packet' (revision packet' = publishedSessionRevision c)
      else case terminalError c of
        Some err \<Rightarrow> Unresolved err
      | None \<Rightarrow> if clientClosed c then Unresolved (Sentinel ErrClientClosed) else StillWaiting)"

text \<open>The last part of \<open>ReadDataPacketsWithRevision\<close>: the batch must belong to one revision.\<close>

definition finishRead :: "'p incomingDataPacket list \<Rightarrow> ('p list \<times> nat) result" where
  "finishRead packets =
     (let r = revision (hd packets) in
      if list_ex (\<lambda>p. revision p \<noteq> r) packets then Inl (New ''incoming data packet batch spans tunnel revisions'')
      else Inr (map packetBuffer packets, r))"

section \<open>The data plane as a system\<close>

text \<open>
  Any number of sessions that push, and one reader. \<open>offers\<close> are the batches that sessions are
  putting into the queue, \<open>batch\<close> and \<open>resolved\<close> the two halves of the reader's batch. The last four
  record what happened to the payloads: a delivered one with the revision that the reader returned with it.
\<close>

record 'p plane =
  theClient :: client
  incoming :: "'p incomingDataPacket dataPacketQueue"
  droppedIncomingDataPackets :: nat
  offers :: "'p incomingDataPacket list list"
  batch :: "'p incomingDataPacket list"
  resolved :: "'p incomingDataPacket list"
  pushedPayloads :: "'p multiset"
  droppedPayloads :: "'p multiset"
  releasedPayloads :: "'p multiset"
  deliveredPayloads :: "('p \<times> nat) list"

definition newPlane :: "(string \<rightharpoonup> string) \<Rightarrow> 'p incomingDataPacket \<Rightarrow> nat \<Rightarrow> 'p plane" where
  "newPlane credentials zero capacity = \<lparr>theClient = newClient credentials, incoming = newDataPacketQueue zero capacity,
     droppedIncomingDataPackets = 0, offers = [], batch = [], resolved = [], pushedPayloads = {#}, droppedPayloads = {#},
     releasedPayloads = {#}, deliveredPayloads = []\<rparr>"

abbreviation payloads :: "'p incomingDataPacket list \<Rightarrow> 'p multiset" where
  "payloads ps \<equiv> mset (map packetBuffer ps)"

definition dropPackets :: "'p incomingDataPacket list \<Rightarrow> 'p plane \<Rightarrow> 'p plane" where
  "dropPackets ps P = P\<lparr>droppedIncomingDataPackets := droppedIncomingDataPackets P + length ps,
     droppedPayloads := droppedPayloads P + payloads ps\<rparr>"

text \<open>What a resolved packet does to the reader: it is kept, counted as dropped, or the whole batch is released.\<close>

definition readerStep :: "'p incomingDataPacket list \<Rightarrow> 'p resolution \<Rightarrow> 'p plane \<Rightarrow> 'p plane" where
  "readerStep rest r P =
     (case r of
        Resolved p True \<Rightarrow> P\<lparr>batch := rest, resolved := resolved P @ [p]\<rparr>
      | Resolved p False \<Rightarrow> dropPackets [p] (P\<lparr>batch := rest\<rparr>)
      | Unresolved err \<Rightarrow> P\<lparr>batch := [], resolved := [], releasedPayloads := releasedPayloads P + payloads (resolved P) + payloads (batch P)\<rparr>
      | StillWaiting \<Rightarrow> P)"

inductive plane_step :: "bool \<Rightarrow> bool \<Rightarrow> ('p \<Rightarrow> bool) \<Rightarrow> ('p \<Rightarrow> session) \<Rightarrow> 'p incomingDataPacket \<Rightarrow> 'p plane \<Rightarrow> 'p plane \<Rightarrow> bool"
  for d callback isEmpty origin zero where
  plane_client: "client_step d callback ready (theClient P) c \<Longrightarrow>
     plane_step d callback isEmpty origin zero P (P\<lparr>theClient := c\<rparr>)"
| plane_tag: "\<forall>p \<in> set ps. origin p = s \<Longrightarrow> tagPackets isEmpty ready s ps (theClient P) = Inr qs \<Longrightarrow>
     plane_step d callback isEmpty origin zero P (P\<lparr>offers := qs # offers P, pushedPayloads := pushedPayloads P + payloads qs\<rparr>)"
| plane_refuse: "tagPackets isEmpty ready s ps (theClient P) = Inl qs \<Longrightarrow>
     plane_step d callback isEmpty origin zero P (P\<lparr>droppedIncomingDataPackets := droppedIncomingDataPackets P + length qs,
       pushedPayloads := pushedPayloads P + mset qs, droppedPayloads := droppedPayloads P + mset qs\<rparr>)"
| plane_offer: "offers P = xs @ ps # ys \<Longrightarrow> TryPushBatch (incoming P) ctxDone ps = (q, n) \<Longrightarrow>
     plane_step d callback isEmpty origin zero P (P\<lparr>incoming := q, offers := xs @ drop n ps # ys\<rparr>)"
| plane_push: "offers P = xs @ (p # ps) # ys \<Longrightarrow> pushRound (incoming P) ctxDone p = (q, PushedOne) \<Longrightarrow>
     plane_step d callback isEmpty origin zero P (P\<lparr>incoming := q, offers := xs @ ps # ys\<rparr>)"
| plane_drop: "offers P = xs @ ps # ys \<Longrightarrow>
     plane_step d callback isEmpty origin zero P (dropPackets ps (P\<lparr>offers := xs @ ys\<rparr>))"
| plane_close: "plane_step d callback isEmpty origin zero P (P\<lparr>incoming := Close (incoming P)\<rparr>)"
| plane_wake: "plane_step d callback isEmpty origin zero P (P\<lparr>incoming := Wake (incoming P)\<rparr>)"
| plane_drain: "Drain zero (incoming P) = (q, ps) \<Longrightarrow>
     plane_step d callback isEmpty origin zero P (P\<lparr>incoming := q, releasedPayloads := releasedPayloads P + payloads ps\<rparr>)"
| plane_pop: "batch P = [] \<Longrightarrow> resolved P = [] \<Longrightarrow> Pop zero (incoming P) m = (q, ps) \<Longrightarrow>
     plane_step d callback isEmpty origin zero P (P\<lparr>incoming := q, batch := ps\<rparr>)"
| plane_resolve: "batch P = p # ps \<Longrightarrow> plane_step d callback isEmpty origin zero P (readerStep ps (resolveRound ready p (theClient P)) P)"
| plane_cancel: "plane_step d callback isEmpty origin zero P (readerStep [] (Unresolved err) P)"
| plane_return: "batch P = [] \<Longrightarrow> resolved P \<noteq> [] \<Longrightarrow> finishRead (resolved P) = Inr (ps, r) \<Longrightarrow>
     plane_step d callback isEmpty origin zero P (P\<lparr>resolved := [], deliveredPayloads := deliveredPayloads P @ map (\<lambda>x. (x, r)) ps\<rparr>)"
| plane_spans: "batch P = [] \<Longrightarrow> resolved P \<noteq> [] \<Longrightarrow> finishRead (resolved P) = Inl err \<Longrightarrow>
     plane_step d callback isEmpty origin zero P (readerStep [] (Unresolved err) P)"

inductive plane_run :: "bool \<Rightarrow> bool \<Rightarrow> ('p \<Rightarrow> bool) \<Rightarrow> ('p \<Rightarrow> session) \<Rightarrow> 'p incomingDataPacket \<Rightarrow> 'p plane \<Rightarrow> bool"
  for d callback isEmpty origin zero where
  plane_start: "plane_run d callback isEmpty origin zero (newPlane credentials zero capacity)"
| plane_go: "plane_run d callback isEmpty origin zero P \<Longrightarrow> plane_step d callback isEmpty origin zero P P' \<Longrightarrow>
     plane_run d callback isEmpty origin zero P'"

section \<open>Invariants\<close>

text \<open>The packets that are on their way, and where all payloads are.\<close>

definition underway :: "'p plane \<Rightarrow> 'p incomingDataPacket multiset" where
  "underway P = mset (concat (offers P)) + mset (queued (incoming P)) + mset (batch P)"

definition accounted :: "'p plane \<Rightarrow> 'p multiset" where
  "accounted P = mset (map fst (deliveredPayloads P)) + droppedPayloads P + releasedPayloads P + image_mset packetBuffer (underway P) +
     payloads (resolved P)"

text \<open>A packet of the current generation comes from the current session.\<close>

definition fresh :: "('p \<Rightarrow> session) \<Rightarrow> client \<Rightarrow> 'p incomingDataPacket \<Rightarrow> bool" where
  "fresh origin c p \<longleftrightarrow> generation p \<le> sessionGeneration c \<and>
     (generation p = sessionGeneration c \<longrightarrow> currentSession c = None \<or> currentSession c = Some (origin (packetBuffer p)))"

definition plane_ok :: "('p \<Rightarrow> session) \<Rightarrow> 'p plane \<Rightarrow> bool" where
  "plane_ok origin P \<longleftrightarrow> client_ok (theClient P) \<and> ring (incoming P) \<and> channel_ok (incoming P) \<and>
     (\<forall>p \<in># underway P. fresh origin (theClient P) p) \<and> pushedPayloads P = accounted P \<and>
     droppedIncomingDataPackets P = size (droppedPayloads P)"

lemma client_step_fresh:
  "client_step d callback ready c c' \<Longrightarrow> client_ok c \<Longrightarrow> fresh origin c p \<Longrightarrow> fresh origin c' p"
  by (induction rule: client_step.induct)
    (auto simp: fresh_def client_defs client_ok_def Let_def split: list.split)

lemma tagPackets_fresh:
  assumes "tagPackets isEmpty ready s ps c = Inr qs" "client_ok c" "\<forall>p \<in> set ps. origin p = s"
  shows "list_all (fresh origin c) qs"
  using assms by (auto simp: tagPackets_def Let_def fresh_def client_ok_def list_all_iff split: if_split_asm)

text \<open>A step of the queue or of the reader: no packet is new, and every payload is accounted for.\<close>

lemma plane_okI:
  assumes "plane_ok origin P" "theClient P' = theClient P" "ring (incoming P')" "channel_ok (incoming P')"
    "underway P' \<subseteq># underway P" "pushedPayloads P' = pushedPayloads P" "accounted P' = accounted P"
    "droppedIncomingDataPackets P' = size (droppedPayloads P')"
  shows "plane_ok origin P'"
  using assms mset_subset_eqD [OF assms(5)] by (auto simp: plane_ok_def)

lemma plane_ok_parts:
  assumes "plane_ok origin P"
  shows "ring (incoming P)" "channel_ok (incoming P)" "droppedIncomingDataPackets P = size (droppedPayloads P)" "client_ok (theClient P)"
  using assms by (simp_all add: plane_ok_def)

lemma plane_ok_queue:
  assumes "plane_ok origin P" "keeps (incoming P) (incoming P')" "theClient P' = theClient P" "underway P' \<subseteq># underway P"
    "pushedPayloads P' = pushedPayloads P" "accounted P' = accounted P" "droppedIncomingDataPackets P' = size (droppedPayloads P')"
  shows "plane_ok origin P'"
  using assms by (intro plane_okI [OF assms(1)]) (auto simp: keeps_def)

lemma plane_ok_same_queue:
  assumes "plane_ok origin P" "incoming P' = incoming P" "theClient P' = theClient P" "underway P' \<subseteq># underway P"
    "pushedPayloads P' = pushedPayloads P" "accounted P' = accounted P" "droppedIncomingDataPackets P' = size (droppedPayloads P')"
  shows "plane_ok origin P'"
  using assms plane_ok_parts [OF assms(1)] by (intro plane_okI [OF assms(1)]) simp_all

lemma readerStep_ok:
  assumes "plane_ok origin P" "batch P = p # ps" "\<And>q b. r = Resolved q b \<Longrightarrow> packetBuffer q = packetBuffer p"
  shows "plane_ok origin (readerStep ps r P)"
proof (cases r)
  case (Resolved q b)
  then show ?thesis
    using assms(2,3) plane_ok_parts [OF assms(1)]
    by (intro plane_ok_same_queue [OF assms(1)]; cases b)
      (simp_all add: readerStep_def dropPackets_def underway_def accounted_def)
next
  case (Unresolved err)
  then show ?thesis
    using plane_ok_parts [OF assms(1)]
    by (intro plane_ok_same_queue [OF assms(1)]) (simp_all add: readerStep_def underway_def accounted_def)
next
  case StillWaiting
  then show ?thesis using assms by (simp add: readerStep_def)
qed

lemma readerStep_cancel:
  assumes "plane_ok origin P"
  shows "plane_ok origin (readerStep ps (Unresolved err) P)"
  using plane_ok_parts [OF assms]
  by (intro plane_ok_same_queue [OF assms]) (simp_all add: readerStep_def underway_def accounted_def)

lemma resolveRound_payload: "resolveRound ready p c = Resolved q b \<Longrightarrow> packetBuffer q = packetBuffer p"
  by (auto simp: resolveRound_def Let_def split: if_split_asm option.split_asm)

lemma plane_step_ok:
  "plane_step d callback isEmpty origin zero P P' \<Longrightarrow> plane_ok origin P \<Longrightarrow> plane_ok origin P'"
proof (induction rule: plane_step.induct)
  case (plane_client ready P c)
  then show ?case
    using client_step_ok [OF plane_client(1)] client_step_fresh [OF plane_client(1)]
    by (auto simp: plane_ok_def underway_def accounted_def)
next
  case (plane_tag ps s ready P qs)
  then show ?case
    using tagPackets_fresh [OF plane_tag(2)] by (auto simp: plane_ok_def underway_def accounted_def list_all_iff)
next
  case (plane_refuse ready s ps P qs)
  then show ?case by (simp add: plane_ok_def underway_def accounted_def)
next
  case (plane_offer P xs ps ys ctxDone q n)
  note r = plane_ok_parts [OF plane_offer(3)]
  have k: "keeps (incoming P) q" "queued q = queued (incoming P) @ take n ps"
    using TryPushBatch_keeps [OF r(1,2), of ctxDone ps] TryPushBatch_ring(2) [OF r(1), of ctxDone ps] plane_offer(2) by simp_all
  have "mset ps = mset (take n ps) + mset (drop n ps)" by (simp flip: mset_append)
  then have u: "underway (P\<lparr>incoming := q, offers := xs @ drop n ps # ys\<rparr>) = underway P"
    using k(2) plane_offer(1) by (simp add: underway_def)
  show ?case
    using k r by (intro plane_ok_queue [OF plane_offer(3)]) (simp_all add: u accounted_def)
next
  case (plane_push P xs p ps ys ctxDone q)
  note r = plane_ok_parts [OF plane_push(3)]
  note k = pushRound_ring [OF r(1,2) plane_push(2)]
  have u: "underway (P\<lparr>incoming := q, offers := xs @ ps # ys\<rparr>) = underway P"
    using k(2) plane_push(1) by (simp add: underway_def)
  show ?case using k r by (intro plane_ok_queue [OF plane_push(3)]) (simp_all add: u accounted_def)
next
  case (plane_drop P xs ps ys)
  then show ?case
    using plane_ok_parts [OF plane_drop(2)]
    by (intro plane_ok_same_queue [OF plane_drop(2)]) (simp_all add: dropPackets_def underway_def accounted_def)
next
  case (plane_close P)
  then show ?case
    using plane_ok_parts [OF plane_close] Close_keeps [of "incoming P"]
    by (intro plane_ok_queue [OF plane_close]) (simp_all add: underway_def accounted_def)
next
  case (plane_wake P)
  then show ?case
    using plane_ok_parts [OF plane_wake] Wake_keeps [of "incoming P"]
    by (intro plane_ok_queue [OF plane_wake]) (simp_all add: underway_def accounted_def)
next
  case (plane_drain P q ps)
  note r = plane_ok_parts [OF plane_drain(2)]
  have k: "keeps (incoming P) q" "queued (incoming P) = ps @ queued q"
    using PopInto_keeps [OF r(1,2), of zero 0] PopInto_ring(2) [OF r(1), of zero 0] plane_drain(1) by (simp_all add: Drain_def Pop_def)
  show ?case using k r by (intro plane_ok_queue [OF plane_drain(2)]) (simp_all add: underway_def accounted_def)
next
  case (plane_pop P m q ps)
  note r = plane_ok_parts [OF plane_pop(4)]
  have k: "keeps (incoming P) q" "queued (incoming P) = ps @ queued q"
    using PopInto_keeps [OF r(1,2), of zero m] PopInto_ring(2) [OF r(1), of zero m] plane_pop(3) by (simp_all add: Pop_def)
  show ?case using k r plane_pop(1,2) by (intro plane_ok_queue [OF plane_pop(4)]) (simp_all add: underway_def accounted_def)
next
  case (plane_resolve P p ps ready)
  then show ?case by (intro readerStep_ok) (auto intro: resolveRound_payload)
next
  case (plane_cancel err P)
  then show ?case by (rule readerStep_cancel)
next
  case (plane_return P ps r)
  then have "mset ps = payloads (resolved P)" by (auto simp: finishRead_def Let_def split: if_split_asm)
  then show ?case
    using plane_return(1) plane_ok_parts [OF plane_return(4)]
    by (intro plane_ok_same_queue [OF plane_return(4)]) (simp_all add: underway_def accounted_def comp_def)
next
  case (plane_spans P err)
  then show ?case by (intro readerStep_cancel)
qed

lemma plane_run_ok: "plane_run d callback isEmpty origin zero P \<Longrightarrow> plane_ok origin P"
proof (induction rule: plane_run.induct)
  case (plane_start credentials capacity)
  show ?case
    by (auto simp: newPlane_def plane_ok_def newClient_ok underway_def accounted_def newDataPacketQueue_def ring_def queued_def channel_ok_def)
qed (rule plane_step_ok)

lemma resolved_current:
  assumes "plane_ok origin P" "p \<in># underway P" "resolveRound ready p (theClient P) = Resolved q True"
  shows "isReady ready (theClient P)" "publishedSession (theClient P) = Some (origin (packetBuffer p))"
    "q = p\<lparr>revision := publishedSessionRevision (theClient P)\<rparr>" "publishedSessionGeneration (theClient P) = generation p"
    "currentSessionGeneration (theClient P) = generation p"
proof -
  let ?c = "theClient P"
  have r: "isReady ready ?c" "generation p = currentSessionGeneration ?c" "q = p\<lparr>revision := publishedSessionRevision ?c\<rparr>"
    "publishedSessionGeneration ?c = generation p"
    using assms(3) by (auto simp: resolveRound_def Let_def split: if_split_asm option.split_asm)
  have f: "fresh origin ?c p" "currentSessionGeneration ?c = sessionGeneration ?c"
    using assms(1,2) by (simp_all add: plane_ok_def client_ok_def)
  show "publishedSession ?c = Some (origin (packetBuffer p))"
    using r f by (auto simp: fresh_def isReady_def split: option.split_asm)
qed (use assms(3) in \<open>auto simp: resolveRound_def Let_def split: if_split_asm option.split_asm\<close>)

text \<open>\<open>x\<close>, returned with revision \<open>r\<close>, was resolved in an earlier state, as a packet of the session that was published
  and ready in that state, of its generation and of its revision.\<close>

definition resolvedBefore ::
  "bool \<Rightarrow> bool \<Rightarrow> ('p \<Rightarrow> bool) \<Rightarrow> ('p \<Rightarrow> session) \<Rightarrow> 'p incomingDataPacket \<Rightarrow> 'p plane \<Rightarrow> 'p \<Rightarrow> nat \<Rightarrow> bool" where
  "resolvedBefore d callback isEmpty origin zero P x r \<longleftrightarrow>
     (\<exists>P0 ready p ps. plane_run d callback isEmpty origin zero P0 \<and> (plane_step d callback isEmpty origin zero)\<^sup>*\<^sup>* P0 P \<and>
        batch P0 = p # ps \<and> packetBuffer p = x \<and> resolveRound ready p (theClient P0) = Resolved (p\<lparr>revision := r\<rparr>) True \<and>
        isReady ready (theClient P0) \<and> publishedSession (theClient P0) = Some (origin x) \<and>
        publishedSessionGeneration (theClient P0) = generation p \<and> currentSessionGeneration (theClient P0) = generation p \<and>
        publishedSessionRevision (theClient P0) = r)"

lemma resolvedBefore_step:
  assumes "plane_step d callback isEmpty origin zero P P'" "resolvedBefore d callback isEmpty origin zero P x r"
  shows "resolvedBefore d callback isEmpty origin zero P' x r"
proof -
  have "(plane_step d callback isEmpty origin zero)\<^sup>*\<^sup>* P0 P'" if "(plane_step d callback isEmpty origin zero)\<^sup>*\<^sup>* P0 P" for P0
    using that assms(1) by (rule rtranclp.rtrancl_into_rtrancl)
  then show ?thesis using assms(2) unfolding resolvedBefore_def by metis
qed

lemma resolvedBefore_new:
  assumes "plane_run d callback isEmpty origin zero P" "batch P = p # ps" "resolveRound ready p (theClient P) = Resolved q True"
    "plane_step d callback isEmpty origin zero P P'"
  shows "resolvedBefore d callback isEmpty origin zero P' (packetBuffer q) (revision q)"
proof -
  have u: "p \<in># underway P" using assms(2) by (simp add: underway_def)
  note c = resolved_current [OF plane_run_ok [OF assms(1)] u assms(3)]
  have q: "packetBuffer q = packetBuffer p" "revision q = publishedSessionRevision (theClient P)" by (simp_all add: c(3))
  show ?thesis
    unfolding resolvedBefore_def q
    using assms c by (intro exI [of _ P] exI [of _ ready] exI [of _ p] exI [of _ ps]) auto
qed

text \<open>What the reader holds as resolved and what it returned was resolved before.\<close>

definition plane_traced :: "(('p \<Rightarrow> nat \<Rightarrow> bool)) \<Rightarrow> 'p plane \<Rightarrow> bool" where
  "plane_traced R P \<longleftrightarrow> (\<forall>p \<in> set (resolved P). R (packetBuffer p) (revision p)) \<and> (\<forall>(x, r) \<in> set (deliveredPayloads P). R x r)"

lemma readerStep_traced:
  assumes "plane_traced R P" "\<And>q. r = Resolved q True \<Longrightarrow> R (packetBuffer q) (revision q)"
  shows "plane_traced R (readerStep rest r P)"
  using assms by (auto simp: readerStep_def dropPackets_def plane_traced_def split: resolution.split bool.split)

lemma finishRead_traced:
  assumes "finishRead ps = Inr (xs, r)" "\<forall>p \<in> set ps. R (packetBuffer p) (revision p)"
  shows "\<forall>x \<in> set xs. R x r"
  using assms by (fastforce simp: finishRead_def Let_def list_ex_iff split: if_split_asm)

lemma plane_step_traced:
  "plane_step d callback isEmpty origin zero P P' \<Longrightarrow> plane_traced R P \<Longrightarrow>
   (\<And>p ps ready q. batch P = p # ps \<Longrightarrow> resolveRound ready p (theClient P) = Resolved q True \<Longrightarrow> R (packetBuffer q) (revision q)) \<Longrightarrow>
   plane_traced R P'"
proof (induction rule: plane_step.induct)
  case (plane_resolve P p ps ready)
  then show ?case by (intro readerStep_traced) auto
next
  case (plane_return P ps r)
  then show ?case using finishRead_traced [OF plane_return(3), of R] by (auto simp: plane_traced_def)
qed (auto simp: plane_traced_def dropPackets_def readerStep_def)

lemma plane_run_traced:
  "plane_run d callback isEmpty origin zero P \<Longrightarrow> plane_traced (resolvedBefore d callback isEmpty origin zero P) P"
proof (induction rule: plane_run.induct)
  case (plane_start credentials capacity)
  show ?case by (simp add: plane_traced_def newPlane_def)
next
  case (plane_go P P')
  have "plane_traced (resolvedBefore d callback isEmpty origin zero P') P"
    using plane_go.IH resolvedBefore_step [OF plane_go(2)] by (auto simp: plane_traced_def)
  then show ?case
    by (rule plane_step_traced [OF plane_go(2)]) (rule resolvedBefore_new [OF plane_go(1) _ _ plane_go(2)])
qed

section \<open>A concrete run\<close>

type_synonym payload = "session \<times> bytes"

definition samplePacket :: "payload incomingDataPacket" where
  "samplePacket = \<lparr>generation = 1, revision = 1, packetBuffer = (5, [0x45])\<rparr>"

definition zeroPacket :: "payload incomingDataPacket" where
  "zeroPacket = \<lparr>generation = 0, revision = 0, packetBuffer = (0, [])\<rparr>"

definition currentClient :: client where
  "currentClient = fst (publishCurrentSession (\<lambda>_. True) 5 1
     (fst (setTunnelConfiguration False emptyTunnelConfiguration (fst (setCurrentSession 5 (newClient Map.empty))))))"

lemma currentClient_facts:
  "clientClosed currentClient = False" "terminalError currentClient = None" "currentSession currentClient = Some 5"
  "currentSessionGeneration currentClient = 1" "publishedSession currentClient = Some 5" "publishedSessionGeneration currentClient = 1"
  "publishedSessionRevision currentClient = 1"
  by (simp_all add: currentClient_def client_defs newClient_def Let_def)

definition samplePlane :: "payload plane" where
  "samplePlane = (newPlane Map.empty zeroPacket 2)\<lparr>theClient := currentClient, batch := [samplePacket],
     incoming := fst (Pop zeroPacket (fst (TryPushBatch (newDataPacketQueue zeroPacket 2) False [samplePacket])) 0),
     offers := [[]], pushedPayloads := {#(5, [0x45])#}\<rparr>"

lemma samplePlane_run: "plane_run False True (\<lambda>p. snd p = []) fst zeroPacket samplePlane"
proof -
  let ?run = "plane_run False True (\<lambda>p. snd p = []) fst zeroPacket" and ?P0 = "newPlane Map.empty zeroPacket 2 :: payload plane"
  let ?c1 = "fst (setCurrentSession 5 (newClient Map.empty))"
  let ?c2 = "fst (setTunnelConfiguration False emptyTunnelConfiguration ?c1)"
  have 0: "?run ?P0" by (rule plane_start)
  have 1: "?run (?P0\<lparr>theClient := ?c1\<rparr>)"
    using plane_go [OF 0 plane_client [of False True "\<lambda>_. True" ?P0 ?c1]] client_step.intros(3) [of False True "\<lambda>_. True"]
    by (simp add: newPlane_def)
  have 2: "?run (?P0\<lparr>theClient := ?c2\<rparr>)"
    using plane_go [OF 1 plane_client [of False True "\<lambda>_. True" _ ?c2]] client_step.intros(15) [of False True "\<lambda>_. True"]
    by (simp add: newPlane_def)
  have "tunnelConfigurationRevision ?c2 = 1" by (simp add: client_defs newClient_def Let_def)
  then have 3: "?run (?P0\<lparr>theClient := currentClient\<rparr>)"
    using plane_go [OF 2 plane_client [of False True "\<lambda>_. True" _ currentClient]] client_step.intros(4) [of 1 ?c2 False True "\<lambda>_. True" 5]
    by (simp add: newPlane_def currentClient_def)
  have t: "tagPackets (\<lambda>p. snd p = []) (\<lambda>_. True) 5 [(5, [0x45])] (theClient (?P0\<lparr>theClient := currentClient\<rparr>)) = Inr [samplePacket]"
    by (simp add: tagPackets_def currentClient_facts samplePacket_def)
  have 4: "?run (?P0\<lparr>theClient := currentClient, offers := [[samplePacket]], pushedPayloads := {#(5, [0x45])#}\<rparr>)"
    using plane_go [OF 3 plane_tag [OF _ t, of fst]] by (simp add: newPlane_def samplePacket_def)
  obtain q n where q: "TryPushBatch (newDataPacketQueue zeroPacket 2) False [samplePacket] = (q, n)" by force
  have n: "n = 1" using q by (simp add: TryPushBatch_def newDataPacketQueue_def Let_def split: if_split_asm)
  have 5: "?run (?P0\<lparr>theClient := currentClient, offers := [[]], pushedPayloads := {#(5, [0x45])#}, incoming := q\<rparr>)"
    using plane_go [OF 4 plane_offer [of _ "[]" "[samplePacket]" "[]" False q n]] q n by (simp add: newPlane_def)
  obtain r ps where r: "Pop zeroPacket q 0 = (r, ps)" by force
  have "ps = [samplePacket]"
    using r q by (auto simp: TryPushBatch_def newDataPacketQueue_def Let_def Pop_def PopInto_def putItem_def signalNotEmptyLocked_def
        numeral_2_eq_2 split: if_split_asm)
  then have 6: "?run (?P0\<lparr>theClient := currentClient, offers := [[]], pushedPayloads := {#(5, [0x45])#}, incoming := r, batch := [samplePacket]\<rparr>)"
    using plane_go [OF 5 plane_pop [of _ zeroPacket 0 r ps]] r by (simp add: newPlane_def)
  have "samplePlane = ?P0\<lparr>theClient := currentClient, offers := [[]], pushedPayloads := {#(5, [0x45])#}, incoming := r, batch := [samplePacket]\<rparr>"
    by (simp add: samplePlane_def q r)
  then show ?thesis using 6 by simp
qed

text \<open>The reader goes on and returns the packet with the revision of its session.\<close>

lemma samplePlane_delivers:
  "\<exists>P. plane_run False True (\<lambda>p. snd p = []) fst zeroPacket P \<and> deliveredPayloads P = [((5, [0x45]), 1)]"
proof -
  let ?run = "plane_run False True (\<lambda>p. snd p = []) fst zeroPacket"
  let ?P1 = "readerStep [] (resolveRound (\<lambda>_. True) samplePacket (theClient samplePlane)) samplePlane"
  have c: "theClient samplePlane = currentClient" "batch samplePlane = [samplePacket]" "resolved samplePlane = []"
    "deliveredPayloads samplePlane = []" by (simp_all add: samplePlane_def newPlane_def)
  have r: "resolveRound (\<lambda>_. True) samplePacket (theClient samplePlane) = Resolved samplePacket True"
    by (simp add: c resolveRound_def samplePacket_def currentClient_facts isReady_def)
  have P1: "?run ?P1" by (rule plane_go [OF samplePlane_run plane_resolve [OF c(2)]])
  have 1: "batch ?P1 = []" "resolved ?P1 = [samplePacket]" "deliveredPayloads ?P1 = []" by (simp_all only: r, simp_all add: readerStep_def c)
  have f: "finishRead (resolved ?P1) = Inr ([(5, [0x45])], 1)" by (simp only: 1) (simp add: finishRead_def samplePacket_def)
  show ?thesis
    by (rule exI, rule conjI, rule plane_go [OF P1 plane_return [OF 1(1) _ f]]) (simp_all add: 1)
qed

section \<open>Properties\<close>

text \<open>C21: a received packet that is handed to the application was resolved by the reader in an earlier state of
  the run: in that state the session that sent the packet was published and ready, the packet carried that session's
  generation, and the revision that is returned with the packet was the published one, whatever sessions, readers,
  reconnects and the application did between the packet's arrival and that moment. A session that is replaced after
  that moment does not take the packet back.\<close>

theorem client_no_stale_packets:
  assumes "plane_run d callback isEmpty origin zero P" "(x, r) \<in> set (deliveredPayloads P)"
  shows "\<exists>P0 ready p ps. plane_run d callback isEmpty origin zero P0 \<and> (plane_step d callback isEmpty origin zero)\<^sup>*\<^sup>* P0 P \<and>
    batch P0 = p # ps \<and> packetBuffer p = x \<and> resolveRound ready p (theClient P0) = Resolved (p\<lparr>revision := r\<rparr>) True \<and>
    isReady ready (theClient P0) \<and> publishedSession (theClient P0) = Some (origin x) \<and>
    publishedSessionGeneration (theClient P0) = generation p \<and> currentSessionGeneration (theClient P0) = generation p \<and>
    publishedSessionRevision (theClient P0) = r"
  using plane_run_traced [OF assms(1)] assms(2) by (auto simp: plane_traced_def resolvedBefore_def)

theorem client_no_stale_packets_witness:
  "\<exists>P P0 ready. plane_run False True (\<lambda>p. snd p = []) fst zeroPacket P \<and> deliveredPayloads P = [((5, [0x45]), 1)] \<and>
     (plane_step False True (\<lambda>p. snd p = []) fst zeroPacket)\<^sup>*\<^sup>* P0 P \<and> isReady ready (theClient P0) \<and>
     publishedSession (theClient P0) = Some 5 \<and> publishedSessionRevision (theClient P0) = 1"
proof -
  obtain P where P: "plane_run False True (\<lambda>p. snd p = []) fst zeroPacket P" "deliveredPayloads P = [((5, [0x45]), 1)]"
    using samplePlane_delivers by blast
  then have "((5, [0x45]), 1) \<in> set (deliveredPayloads P)" by simp
  from client_no_stale_packets [OF P(1) this] P show ?thesis by (metis fst_conv)
qed

text \<open>C26: every packet that the sessions hand in has exactly one of four fates at every point: it is still on its way;
  it was delivered; it was dropped, and the counter of dropped packets is the number of these; or it was released
  without being counted, which the reader does with the batch of a read that fails and the client with what is left
  in the queue when it ends.\<close>

theorem client_packets_accounted:
  assumes "plane_run d callback isEmpty origin zero P"
  shows "pushedPayloads P = mset (map fst (deliveredPayloads P)) + droppedPayloads P + releasedPayloads P +
      image_mset packetBuffer (underway P) + payloads (resolved P) \<and>
    droppedIncomingDataPackets P = size (droppedPayloads P)"
  using plane_run_ok [OF assms] by (simp add: plane_ok_def accounted_def)

theorem client_packets_accounted_witness:
  "pushedPayloads samplePlane = {#(5, [0x45])#} \<and> deliveredPayloads samplePlane = [] \<and> droppedIncomingDataPackets samplePlane = 0 \<and>
   image_mset packetBuffer (underway samplePlane) = {#(5, [0x45])#}"
proof -
  have s: "pushedPayloads samplePlane = {#(5, [0x45])#}" "deliveredPayloads samplePlane = []" "droppedPayloads samplePlane = {#}"
    "releasedPayloads samplePlane = {#}" "resolved samplePlane = []"
    by (simp_all add: samplePlane_def newPlane_def)
  from client_packets_accounted [OF samplePlane_run] s show ?thesis by simp
qed

end
