(* ===== verification/Client_Outbound.thy ===== *)
theory Client_Outbound
  imports Client_State Packet_Queue "HOL-Library.Sublist"
begin

text \<open>
  The way of a packet that the application sends (\<^verbatim>\<open>data_packet_writer.go\<close>): a call tags its packets
  with the session, generation and revision it saw, takes a slot for each, pushes it into the bounded queue and waits on
  a completion; the writer takes the packets from the queue, writes those of one call together, and
  completes each of them. Calls, the writer and \<open>Close\<close> run beside each other: each is a state machine
  whose steps are the sections of the code between two points at which it may be interrupted or has to wait.
\<close>

section \<open>Definitions\<close>

subsection \<open>Completions\<close>

text \<open>\<open>completionDone\<close> is what was sent on the channel \<open>done\<close>.\<close>

record outboundDataPacketCompletion =
  remaining :: int
  completionErr :: "go_error option"
  completionDone :: "go_error option list"

definition acquireOutboundDataPacketCompletion :: "nat \<Rightarrow> outboundDataPacketCompletion" where
  "acquireOutboundDataPacketCompletion n = \<lparr>remaining = int n, completionErr = None, completionDone = []\<rparr>"

definition complete :: "go_error option \<Rightarrow> outboundDataPacketCompletion \<Rightarrow> outboundDataPacketCompletion" where
  "complete err k =
     (let e = (if completionErr k = None \<and> err \<noteq> None then err else completionErr k); n = remaining k - 1
      in k\<lparr>completionErr := e, remaining := n, completionDone := completionDone k @ (if n = 0 then [e] else [])\<rparr>)"

definition failed :: "outboundDataPacketCompletion \<Rightarrow> bool" where
  "failed k \<longleftrightarrow> completionErr k \<noteq> None"

subsection \<open>Packets\<close>

text \<open>The completion of a packet is the number of the call it belongs to.\<close>

record 'b outboundDataPacket =
  outSession :: session
  outGeneration :: nat
  outRevision :: nat
  outBuffer :: 'b
  outCompletion :: nat

definition outboundDataPacketCurrent :: "(session \<Rightarrow> bool) \<Rightarrow> 'b outboundDataPacket \<Rightarrow> client \<Rightarrow> bool" where
  "outboundDataPacketCurrent ready p c \<longleftrightarrow>
     \<not> clientClosed c \<and> terminalError c = None \<and> currentSession c = Some (outSession p) \<and>
     currentSessionGeneration c = outGeneration p \<and> publishedSession c = Some (outSession p) \<and>
     publishedSessionGeneration c = outGeneration p \<and> publishedSessionRevision c = outRevision p \<and> ready (outSession p)"

subsection \<open>The state\<close>

text \<open>
  A call is at the head of its loop with the packets that are left, holds a slot and pushes the first
  of them, was refused by the queue and gives the slot back, fails what is left, or has returned. It waits on its
  completion when there is nothing left to enqueue or to fail.
\<close>

datatype 'b call_state =
    CallIdle
  | CallEnqueues "'b outboundDataPacket list"
  | CallPushes "'b outboundDataPacket list"
  | CallRefused "'b outboundDataPacket list"
  | CallFails "'b outboundDataPacket list"
  | CallReturned "go_error option"

text \<open>
  The writer is about to pop, found nothing, is about to ask for the wake channel, listens to it, popped packets,
  goes on with the packets that are left of them, found the call of a group without an error, completes the packets of a group
  with a result (\<open>WriterReleases\<close>: a slot is to be given back first), or has returned. The last list is what comes after the group.
\<close>

datatype 'b writer_state =
    WriterPolls
  | WriterEmpty
  | WriterAsks
  | WriterListens
  | WriterPopped "'b outboundDataPacket list"
  | WriterWrites "'b outboundDataPacket list"
  | WriterChecked "'b outboundDataPacket list" "'b outboundDataPacket list"
  | WriterCompletes "go_error option" "'b outboundDataPacket list" "'b outboundDataPacket list"
  | WriterReleases "go_error option" "'b outboundDataPacket list" "'b outboundDataPacket list"
  | WriterExited

text \<open>
  The completions, the queue, the channel of slots, whether \<open>outgoingDataPacketClosed\<close> is closed, and the calls and the writer.
  The last three record what each call was asked to write, what was handed to the sessions, and what was pushed.
\<close>

record 'b writing =
  completions :: "nat \<Rightarrow> outboundDataPacketCompletion"
  outgoing :: "'b outboundDataPacket dataPacketQueue"
  slotCapacity :: nat
  slotsTaken :: nat
  slotsClosed :: bool
  calls :: "nat \<Rightarrow> 'b call_state"
  writer :: "'b writer_state"
  askedPackets :: "nat \<Rightarrow> 'b outboundDataPacket list"
  written :: "(session \<times> 'b outboundDataPacket list) list"
  pushedPackets :: "'b outboundDataPacket list"

definition newWriting :: "'b outboundDataPacket \<Rightarrow> nat \<Rightarrow> 'b writing" where
  "newWriting zero capacity =
     \<lparr>completions = (\<lambda>_. acquireOutboundDataPacketCompletion 0), outgoing = newDataPacketQueue zero capacity, slotCapacity = capacity,
      slotsTaken = 0, slotsClosed = False, calls = (\<lambda>_. CallIdle), writer = WriterPolls, askedPackets = (\<lambda>_. []), written = [],
      pushedPackets = []\<rparr>"

definition completePacket :: "go_error option \<Rightarrow> 'b outboundDataPacket \<Rightarrow> 'b writing \<Rightarrow> 'b writing" where
  "completePacket err p w =
     w\<lparr>completions := (completions w)(outCompletion p := complete err (completions w (outCompletion p)))\<rparr>"

subsection \<open>The writer\<close>

text \<open>The state in which a group is written: the answers of the sessions, the client, and the result of the write.\<close>

record write_env =
  envReady :: "session \<Rightarrow> bool"
  envClient :: client
  envResult :: "go_error option"

text \<open>The loops that complete packets one after the other and give back their slots.\<close>

definition completeQueued :: "'b writing \<Rightarrow> 'b writing" where
  "completeQueued w =
     (case writer w of
        WriterCompletes err (p # ps) rest \<Rightarrow> (completePacket err p w)\<lparr>writer := WriterReleases err ps rest\<rparr>
      | WriterReleases err ps rest \<Rightarrow>
          if slotsTaken w = 0 then w else w\<lparr>slotsTaken := slotsTaken w - 1, writer := WriterCompletes err ps rest\<rparr>
      | WriterCompletes err [] rest \<Rightarrow> w\<lparr>writer := WriterWrites rest\<rparr>
      | _ \<Rightarrow> w)"

definition failQueuedOutboundDataPackets :: "'b outboundDataPacket list \<Rightarrow> 'b outboundDataPacket list \<Rightarrow> go_error \<Rightarrow> 'b writing \<Rightarrow> 'b writing" where
  "failQueuedOutboundDataPackets ps rest err w = w\<lparr>writer := WriterCompletes (Some err) ps rest\<rparr>"

text \<open>The packets of the first call are taken off, those of one call together; then, under the locks, they are written.\<close>

definition writeQueuedOutboundDataPackets :: "write_env \<Rightarrow> 'b writing \<Rightarrow> 'b writing" where
  "writeQueuedOutboundDataPackets e w =
     (case writer w of
        WriterWrites (p # ps) \<Rightarrow>
          let same = (\<lambda>q. outCompletion q = outCompletion p); first = p # takeWhile same ps; rest = dropWhile same ps
          in if failed (completions w (outCompletion p)) then w\<lparr>writer := WriterCompletes None first rest\<rparr>
             else w\<lparr>writer := WriterChecked first rest\<rparr>
      | WriterChecked ps rest \<Rightarrow>
          if \<not> outboundDataPacketCurrent (envReady e) (hd ps) (envClient e)
          then failQueuedOutboundDataPackets ps rest (Sentinel ErrDataChannelNotReady) w
          else w\<lparr>written := written w @ [(outSession (hd ps), ps)], writer := WriterCompletes (envResult e) ps rest\<rparr>
      | _ \<Rightarrow> w)"

text \<open>The loop of the writer; \<open>PopInto\<close> without a limit takes the whole queue.\<close>

definition runOutgoingDataPacketWriter :: "'b outboundDataPacket \<Rightarrow> 'b writing \<Rightarrow> 'b writing" where
  "runOutgoingDataPacketWriter zero w =
     (case writer w of
        WriterPolls \<Rightarrow>
          (case PopInto zero (outgoing w) 0 of
             (q, ps) \<Rightarrow> w\<lparr>outgoing := q, writer := (if ps = [] then WriterEmpty else WriterPopped ps)\<rparr>)
      | WriterEmpty \<Rightarrow> w\<lparr>writer := (if Closed (outgoing w) then WriterExited else WriterAsks)\<rparr>
      | WriterAsks \<Rightarrow> w\<lparr>outgoing := Wake (outgoing w), writer := WriterListens\<rparr>
      | WriterListens \<Rightarrow>
          if signalled (notEmpty (outgoing w))
          then w\<lparr>outgoing := (outgoing w)\<lparr>notEmpty := try_receive (notEmpty (outgoing w))\<rparr>, writer := WriterPolls\<rparr>
          else w
      | WriterPopped ps \<Rightarrow>
          if Closed (outgoing w) then failQueuedOutboundDataPackets ps [] (Sentinel ErrClientClosed) w
          else w\<lparr>writer := WriterWrites ps\<rparr>
      | WriterWrites [] \<Rightarrow> w\<lparr>writer := WriterPolls\<rparr>
      | _ \<Rightarrow> w)"

subsection \<open>Calls\<close>

definition outboundPackets :: "session \<Rightarrow> nat \<Rightarrow> nat \<Rightarrow> 'b list \<Rightarrow> nat \<Rightarrow> 'b outboundDataPacket list" where
  "outboundPackets s n r packetBuffers i =
     map (\<lambda>b. \<lparr>outSession = s, outGeneration = n, outRevision = r, outBuffer = b, outCompletion = i\<rparr>) packetBuffers"

text \<open>One packet that is left is failed.\<close>

definition failUnqueuedOutboundDataPackets :: "nat \<Rightarrow> 'b outboundDataPacket list \<Rightarrow> go_error \<Rightarrow> 'b writing \<Rightarrow> 'b writing" where
  "failUnqueuedOutboundDataPackets i ps err w =
     (case ps of
        [] \<Rightarrow> w
      | p # rest \<Rightarrow> (completePacket (Some err) p w)\<lparr>calls := (calls w)(i := CallFails rest)\<rparr>)"

text \<open>The wait for the completion, which goes on as long as nothing was sent.\<close>

definition waitCompletion :: "nat \<Rightarrow> 'b writing \<Rightarrow> 'b writing" where
  "waitCompletion i w =
     (case completionDone (completions w i) of
        [] \<Rightarrow> w
      | r # rs \<Rightarrow> w\<lparr>calls := (calls w)(i := CallReturned r)\<rparr>)"

text \<open>
  \<open>enqueueOutboundDataPacketBuffers\<close>: its start with a completion of its own, and its next step. When a slot is free and the
  client is closed, its \<open>select\<close> takes either, which \<open>preferClosed\<close> decides; when neither is, it waits.
\<close>

definition beginEnqueue :: "session \<Rightarrow> nat \<Rightarrow> nat \<Rightarrow> 'b list \<Rightarrow> nat \<Rightarrow> 'b writing \<Rightarrow> 'b writing" where
  "beginEnqueue s n r packetBuffers i w =
     w\<lparr>completions := (completions w)(i := acquireOutboundDataPacketCompletion (length packetBuffers)),
       calls := (calls w)(i := CallEnqueues (outboundPackets s n r packetBuffers i)),
       askedPackets := (askedPackets w)(i := outboundPackets s n r packetBuffers i)\<rparr>"

definition enqueueOutboundDataPacketBuffers :: "bool \<Rightarrow> nat \<Rightarrow> 'b writing \<Rightarrow> 'b writing" where
  "enqueueOutboundDataPacketBuffers preferClosed i w =
     (case calls w i of
        CallEnqueues (p # ps) \<Rightarrow>
          if slotsClosed w \<and> (preferClosed \<or> slotCapacity w \<le> slotsTaken w) then w\<lparr>calls := (calls w)(i := CallFails (p # ps))\<rparr>
          else if slotsTaken w < slotCapacity w
          then w\<lparr>slotsTaken := slotsTaken w + 1, calls := (calls w)(i := CallPushes (p # ps))\<rparr>
          else w
      | CallPushes (p # ps) \<Rightarrow>
          (case pushRound (outgoing w) False p of
             (q, PushedOne) \<Rightarrow> w\<lparr>outgoing := q, calls := (calls w)(i := CallEnqueues ps), pushedPackets := pushedPackets w @ [p]\<rparr>
           | (q, PushStopped) \<Rightarrow> w\<lparr>calls := (calls w)(i := CallRefused (p # ps))\<rparr>
           | (q, PushWaits g) \<Rightarrow> w)
      | CallRefused ps \<Rightarrow>
          if slotsTaken w = 0 then w else w\<lparr>slotsTaken := slotsTaken w - 1, calls := (calls w)(i := CallFails ps)\<rparr>
      | CallFails (p # ps) \<Rightarrow> failUnqueuedOutboundDataPackets i (p # ps) (Sentinel ErrClientClosed) w
      | CallEnqueues [] \<Rightarrow> waitCompletion i w
      | CallFails [] \<Rightarrow> waitCompletion i w
      | _ \<Rightarrow> w)"

text \<open>
  The entry points: \<open>WriteDataPacketsAtRevision\<close> and \<open>WriteDataPacketBuffers\<close> (\<open>client.go\<close>) answer at once or
  enqueue their packets; \<open>WriteDataPacketsDirectAtRevision\<close> looks at the client twice, as \<open>c\<close> when it takes
  the session and as \<open>c'\<close> once it holds the data plane, and then writes without the queue.
\<close>

datatype 'b write_call =
    Answered "go_error option"
  | Enqueues session nat nat "'b list"
  | WritesDirectly session "'b list"

definition WriteDataPacketsAtRevision :: "(session \<Rightarrow> bool) \<Rightarrow> 'b list \<Rightarrow> nat \<Rightarrow> client \<Rightarrow> 'b write_call" where
  "WriteDataPacketsAtRevision ready packets r c =
     (if packets = [] then Answered None
      else case readySessionAtRevision ready r c of
        None \<Rightarrow> Answered (Some (Sentinel ErrDataChannelNotReady))
      | Some (s, n) \<Rightarrow> Enqueues s n r packets)"

definition clientWriteDataPacketBuffers :: "(session \<Rightarrow> bool) \<Rightarrow> 'b list \<Rightarrow> client \<Rightarrow> 'b write_call" where
  "clientWriteDataPacketBuffers ready packetBuffers c =
     (if packetBuffers = [] then Answered None
      else case readySessionSnapshot ready c of
        None \<Rightarrow> Answered (Some (Sentinel ErrDataChannelNotReady))
      | Some (s, n, r) \<Rightarrow> Enqueues s n r packetBuffers)"

definition WriteDataPacketsDirectAtRevision ::
  "(session \<Rightarrow> bool) \<Rightarrow> (session \<Rightarrow> bool) \<Rightarrow> 'b list \<Rightarrow> nat \<Rightarrow> client \<Rightarrow> client \<Rightarrow> 'b write_call" where
  "WriteDataPacketsDirectAtRevision ready ready' packets r c c' =
     (if packets = [] then Answered None
      else case readySessionAtRevision ready r c of
        None \<Rightarrow> Answered (Some (Sentinel ErrDataChannelNotReady))
      | Some (s, n) \<Rightarrow>
          if \<not> outboundDataPacketCurrent ready'
                \<lparr>outSession = s, outGeneration = n, outRevision = r, outBuffer = hd packets, outCompletion = 0\<rparr> c'
          then Answered (Some (Sentinel ErrDataChannelNotReady))
          else WritesDirectly s packets)"

subsection \<open>The system\<close>

text \<open>
  Any number of calls, the writer, and \<open>Close\<close>, which closes the queue and then \<open>outgoingDataPacketClosed\<close>. Where code has to
  wait its step changes nothing. A call takes a number that was never used, although its completion may come from a pool: it was
  put back when nothing referred to it any more.
\<close>

inductive outbound_step :: "'b outboundDataPacket \<Rightarrow> 'b writing \<Rightarrow> 'b writing \<Rightarrow> bool" for zero where
  call_begins: "calls w i = CallIdle \<Longrightarrow> packetBuffers \<noteq> [] \<Longrightarrow> outbound_step zero w (beginEnqueue s n r packetBuffers i w)"
| call_goes_on: "outbound_step zero w (enqueueOutboundDataPacketBuffers preferClosed i w)"
| writer_runs: "outbound_step zero w (runOutgoingDataPacketWriter zero w)"
| writer_writes: "outbound_step zero w (writeQueuedOutboundDataPackets e w)"
| writer_completes: "outbound_step zero w (completeQueued w)"
| client_closes: "outbound_step zero w (w\<lparr>outgoing := Close (outgoing w)\<rparr>)"
| slots_close: "queueClosed (outgoing w) \<Longrightarrow> outbound_step zero w (w\<lparr>slotsClosed := True\<rparr>)"

inductive outbound_run :: "'b outboundDataPacket \<Rightarrow> nat \<Rightarrow> 'b writing \<Rightarrow> bool" for zero capacity where
  run_new: "outbound_run zero capacity (newWriting zero capacity)"
| run_step: "outbound_run zero capacity w \<Longrightarrow> outbound_step zero w w' \<Longrightarrow> outbound_run zero capacity w'"

definition calling :: "nat \<Rightarrow> 'b outboundDataPacket list \<Rightarrow> 'b outboundDataPacket list" where
  "calling i ps = [p \<leftarrow> ps. outCompletion p = i]"

definition sent :: "'b writing \<Rightarrow> 'b outboundDataPacket list" where
  "sent w = concat (map snd (written w))"

text \<open>What the writer holds: the packets that it completes with a result, and those that it has not come to.\<close>

fun finishing :: "'b writer_state \<Rightarrow> 'b outboundDataPacket list" where
  "finishing (WriterCompletes err ps rest) = ps"
| "finishing (WriterReleases err ps rest) = ps"
| "finishing _ = []"

fun unwritten :: "'b writer_state \<Rightarrow> 'b outboundDataPacket list" where
  "unwritten (WriterPopped ps) = ps"
| "unwritten (WriterWrites ps) = ps"
| "unwritten (WriterChecked ps rest) = ps @ rest"
| "unwritten (WriterCompletes err ps rest) = rest"
| "unwritten (WriterReleases err ps rest) = rest"
| "unwritten _ = []"

text \<open>The packets that were pushed and are not completed.\<close>

definition outstanding :: "'b writing \<Rightarrow> 'b outboundDataPacket list" where
  "outstanding w = finishing (writer w) @ unwritten (writer w) @ queued (outgoing w)"

fun callPackets :: "'b call_state \<Rightarrow> 'b outboundDataPacket list" where
  "callPackets (CallEnqueues ps) = ps"
| "callPackets (CallPushes ps) = ps"
| "callPackets (CallRefused ps) = ps"
| "callPackets (CallFails ps) = ps"
| "callPackets _ = []"

text \<open>The slots that are taken beside those of the outstanding packets.\<close>

fun callHolds :: "'b call_state \<Rightarrow> bool" where
  "callHolds (CallPushes ps) = True"
| "callHolds (CallRefused ps) = True"
| "callHolds _ = False"

fun writerOwes :: "'b writer_state \<Rightarrow> nat" where
  "writerOwes (WriterReleases err ps rest) = 1"
| "writerOwes _ = 0"

definition holders :: "'b writing \<Rightarrow> nat set" where
  "holders w = {i. callHolds (calls w i)}"

section \<open>Every packet is completed once\<close>

text \<open>What a completion has become after completions with the errors \<open>es\<close>.\<close>

definition completed :: "go_error option list \<Rightarrow> outboundDataPacketCompletion \<Rightarrow> outboundDataPacketCompletion" where
  "completed es k = fold complete es k"

lemma completed_simps [simp]: "completed [] k = k" "completed (es @ es') k = completed es' (completed es k)"
  "completed [e] k = complete e k"
  by (simp_all add: completed_def)

text \<open>The first error among them.\<close>

fun firstError :: "go_error option \<Rightarrow> go_error option list \<Rightarrow> go_error option" where
  "firstError None (e # es) = firstError e es"
| "firstError e es = e"

lemma firstError_Some [simp]: "firstError (Some e) es = Some e" by (cases es) auto
lemma firstError_Nil [simp]: "firstError e [] = e" by (cases e) auto

lemma firstError_append [simp]:
  "firstError x (es @ [e]) = (if firstError x es = None \<and> e \<noteq> None then e else firstError x es)"
proof (induction es arbitrary: x)
  case Nil
  show ?case by (cases x; cases e) auto
next
  case (Cons f es)
  then show ?case by (cases x) auto
qed

lemma completed_parts [simp]:
  "remaining (completed es k) = remaining k - int (length es)"
  "completionErr (completed es k) = firstError (completionErr k) es"
  by (induction es rule: rev_induct) (auto simp: complete_def Let_def)

lemma completed_done:
  assumes "completionDone k = []" "int (length es) \<le> remaining k" "0 < remaining k"
  shows "completionDone (completed es k) = (if int (length es) = remaining k then [firstError (completionErr k) es] else [])"
  using assms(2)
proof (induction es rule: rev_induct)
  case (snoc e es)
  then show ?case by (auto simp: complete_def Let_def)
qed (use assms in auto)

lemma calling_simps [simp]:
  "calling i [] = []" "calling i (ps @ qs) = calling i ps @ calling i qs"
  "calling i (p # ps) = (if outCompletion p = i then p # calling i ps else calling i ps)"
  "set (calling i ps) = {p \<in> set ps. outCompletion p = i}"
  by (auto simp: calling_def)

lemma calling_none: "\<forall>p \<in> set ps. outCompletion p \<noteq> i \<Longrightarrow> calling i ps = []"
  by (simp add: calling_def)

lemma calling_all: "\<forall>p \<in> set ps. outCompletion p = i \<Longrightarrow> calling i ps = ps"
  by (simp add: calling_def)

lemma failed_complete: "failed (complete e k) \<longleftrightarrow> failed k \<or> e \<noteq> None"
  by (auto simp: complete_def failed_def Let_def)

text \<open>What was handed over or will be, in order; and a call that has an error, or will get one from what the writer is completing.\<close>

definition line :: "'b writing \<Rightarrow> 'b outboundDataPacket list" where
  "line w = sent w @ unwritten (writer w) @ queued (outgoing w)"

fun finishErr :: "'b writer_state \<Rightarrow> go_error option" where
  "finishErr (WriterCompletes err ps rest) = err"
| "finishErr (WriterReleases err ps rest) = err"
| "finishErr _ = None"

definition doomed :: "'b writing \<Rightarrow> nat \<Rightarrow> bool" where
  "doomed w i \<longleftrightarrow> failed (completions w i) \<or> finishErr (writer w) \<noteq> None \<and> i \<in> outCompletion ` set (finishing (writer w))"

text \<open>The parts of the invariant.\<close>

definition queue_ok :: "'b writing \<Rightarrow> bool" where
  "queue_ok w \<longleftrightarrow> ring (outgoing w) \<and> channel_ok (outgoing w) \<and> length (items (outgoing w)) = slotCapacity w \<and>
     (writer w = WriterListens \<longrightarrow> consumer_ok (outgoing w))"

definition owners_ok :: "'b writing \<Rightarrow> bool" where
  "owners_ok w \<longleftrightarrow> (\<forall>p \<in> set (sent w @ outstanding w). calls w (outCompletion p) \<noteq> CallIdle) \<and>
     (\<forall>i. \<forall>p \<in> set (callPackets (calls w i)). outCompletion p = i) \<and>
     (\<forall>ps rest. writer w = WriterChecked ps rest \<longrightarrow> ps \<noteq> [] \<and> (\<forall>p \<in> set ps. outCompletion p = outCompletion (hd ps)))"

definition counted :: "'b writing \<Rightarrow> nat \<Rightarrow> bool" where
  "counted w i \<longleftrightarrow> (calls w i \<noteq> CallIdle \<longrightarrow> askedPackets w i \<noteq> [] \<and>
     (\<exists>es. completions w i = completed es (acquireOutboundDataPacketCompletion (length (askedPackets w i))) \<and>
        length es + length (calling i (outstanding w)) + length (callPackets (calls w i)) = length (askedPackets w i))) \<and>
     (\<forall>r. calls w i = CallReturned r \<longrightarrow> completionDone (completions w i) \<noteq> [] \<and> hd (completionDone (completions w i)) = r)"

definition traced :: "'b writing \<Rightarrow> nat \<Rightarrow> bool" where
  "traced w i \<longleftrightarrow> (calls w i \<noteq> CallIdle \<longrightarrow> \<not> doomed w i \<longrightarrow>
     calling i (line w) @ callPackets (calls w i) = askedPackets w i)"

definition ordered :: "'b writing \<Rightarrow> bool" where
  "ordered w \<longleftrightarrow> subseq (line w) (pushedPackets w)"

definition slots_ok :: "'b writing \<Rightarrow> bool" where
  "slots_ok w \<longleftrightarrow> finite (holders w) \<and> slotsTaken w = length (outstanding w) + writerOwes (writer w) + card (holders w) \<and>
     slotsTaken w \<le> slotCapacity w"

definition outbound_ok :: "'b writing \<Rightarrow> bool" where
  "outbound_ok w \<longleftrightarrow> queue_ok w \<and> owners_ok w \<and> (\<forall>i. counted w i) \<and> (\<forall>i. traced w i) \<and> ordered w \<and> slots_ok w"

lemma outbound_okD:
  assumes "outbound_ok w"
  shows "queue_ok w" "owners_ok w" "counted w i" "traced w i" "ordered w" "slots_ok w"
  using assms by (simp_all add: outbound_ok_def)

lemma subseq_drop: "subseq (xs @ ys) (xs @ ps @ ys)"
proof -
  have "subseq ys (ps @ ys)" by (rule list_emb_append2) (rule subseq_order.refl)
  then show ?thesis by (rule list_emb_append_mono [OF subseq_order.refl])
qed

text \<open>A step that leaves the calls and the outstanding packets alone.\<close>

lemma owners_quiet:
  assumes "owners_ok w" "calls w' = calls w" "set (sent w' @ outstanding w') \<subseteq> set (sent w @ outstanding w)"
    "\<And>ps rest. writer w' = WriterChecked ps rest \<Longrightarrow> ps \<noteq> [] \<and> (\<forall>p \<in> set ps. outCompletion p = outCompletion (hd ps))"
  shows "owners_ok w'"
  unfolding owners_ok_def
proof (intro conjI ballI allI impI)
  fix p
  assume "p \<in> set (sent w' @ outstanding w')"
  then have "p \<in> set (sent w @ outstanding w)" using assms(3) by blast
  then show "calls w' (outCompletion p) \<noteq> CallIdle" using assms(1) unfolding owners_ok_def assms(2) by blast
next
  fix i p
  assume "p \<in> set (callPackets (calls w' i))"
  then show "outCompletion p = i" using assms(1) unfolding owners_ok_def assms(2) by blast
qed (use assms(4) in blast)+

lemma counted_quiet:
  assumes "counted w i" "calls w' i = calls w i" "askedPackets w' i = askedPackets w i" "completions w' i = completions w i"
    "length (calling i (outstanding w')) = length (calling i (outstanding w))"
  shows "counted w' i"
  using assms(1) unfolding counted_def assms(2-5) .

lemma traced_quiet:
  assumes "traced w i" "calls w' i = calls w i" "askedPackets w' i = askedPackets w i"
    "\<not> doomed w' i \<Longrightarrow> \<not> doomed w i \<and> calling i (line w') = calling i (line w)"
  shows "traced w' i"
  unfolding traced_def assms(2,3)
proof (intro impI)
  assume c: "calls w i \<noteq> CallIdle" "\<not> doomed w' i"
  note d = assms(4) [OF c(2)]
  show "calling i (line w') @ callPackets (calls w i) = askedPackets w i"
    using assms(1) c(1) d unfolding traced_def by metis
qed

lemma ordered_quiet:
  assumes "ordered w" "pushedPackets w' = pushedPackets w" "subseq (line w') (line w)"
  shows "ordered w'"
  unfolding ordered_def assms(2) by (rule subseq_order.trans [OF assms(3) assms(1) [unfolded ordered_def]])

lemma slots_quiet:
  assumes "slots_ok w" "calls w' = calls w" "length (outstanding w') = length (outstanding w)" "slotsTaken w' = slotsTaken w"
    "slotCapacity w' = slotCapacity w" "writerOwes (writer w') = writerOwes (writer w)"
  shows "slots_ok w'"
  using assms(1) unfolding slots_ok_def holders_def assms(2-6) .

lemma quiet_step:
  assumes ok: "outbound_ok w" and same: "calls w' = calls w" "askedPackets w' = askedPackets w" "completions w' = completions w"
    "outstanding w' = outstanding w" "slotsTaken w' = slotsTaken w" "slotCapacity w' = slotCapacity w" "pushedPackets w' = pushedPackets w"
    "writerOwes (writer w') = writerOwes (writer w)"
    and new: "queue_ok w'" "set (sent w') \<subseteq> set (sent w @ outstanding w)"
    "\<And>ps rest. writer w' = WriterChecked ps rest \<Longrightarrow> ps \<noteq> [] \<and> (\<forall>p \<in> set ps. outCompletion p = outCompletion (hd ps))"
    "subseq (line w') (line w)" "\<And>i. \<not> doomed w' i \<Longrightarrow> \<not> doomed w i \<and> calling i (line w') = calling i (line w)"
  shows "outbound_ok w'"
proof -
  note o = outbound_okD [OF ok]
  have "set (sent w' @ outstanding w') \<subseteq> set (sent w @ outstanding w)" unfolding same(4) using new(2) by auto
  then have "owners_ok w'" using owners_quiet [OF o(2) same(1)] new(3) by blast
  moreover have "\<forall>i. counted w' i" using counted_quiet [OF o(3)] same by metis
  moreover have "\<forall>i. traced w' i" using traced_quiet [OF o(4)] same(1,2) new(5) by metis
  moreover have "ordered w'" by (rule ordered_quiet [OF o(5) same(7) new(4)])
  moreover have "slots_ok w'" by (rule slots_quiet [OF o(6) same(1) _ same(5,6,8)]) (simp only: same(4))
  ultimately show ?thesis using new(1) unfolding outbound_ok_def by blast
qed

lemma queue_ok_keeps:
  assumes "queue_ok w" "keeps (outgoing w) (outgoing w')" "slotCapacity w' = slotCapacity w"
    "writer w' = WriterListens \<Longrightarrow> consumer_ok (outgoing w')"
  shows "queue_ok w'"
  using assms by (simp add: queue_ok_def keeps_def)

lemma keeps_refl: "ring q \<Longrightarrow> channel_ok q \<Longrightarrow> keeps q q"
  by (simp add: keeps_def)

lemma queue_ok_same:
  assumes "queue_ok w" "outgoing w' = outgoing w" "slotCapacity w' = slotCapacity w" "writer w' \<noteq> WriterListens"
  shows "queue_ok w'"
  using assms by (simp add: queue_ok_def)

lemma writer_quiet:
  assumes ok: "outbound_ok w" and same: "finishing wr @ unwritten wr = finishing (writer w) @ unwritten (writer w)"
    "writerOwes wr = writerOwes (writer w)" "wr \<noteq> WriterListens"
    and new: "\<And>ps rest. wr = WriterChecked ps rest \<Longrightarrow> ps \<noteq> [] \<and> (\<forall>p \<in> set ps. outCompletion p = outCompletion (hd ps))"
    "subseq (line (w\<lparr>writer := wr\<rparr>)) (line w)"
    "\<And>i. \<not> doomed (w\<lparr>writer := wr\<rparr>) i \<Longrightarrow> \<not> doomed w i \<and> calling i (line (w\<lparr>writer := wr\<rparr>)) = calling i (line w)"
  shows "outbound_ok (w\<lparr>writer := wr\<rparr>)"
proof (rule quiet_step [OF ok])
  have "(finishing wr @ unwritten wr) @ queued (outgoing w) = (finishing (writer w) @ unwritten (writer w)) @ queued (outgoing w)"
    by (simp only: same(1))
  then show "outstanding (w\<lparr>writer := wr\<rparr>) = outstanding w" by (simp add: outstanding_def)
  show "queue_ok (w\<lparr>writer := wr\<rparr>)" using outbound_okD(1) [OF ok] same(3) by (simp add: queue_ok_def)
  show "writerOwes (writer (w\<lparr>writer := wr\<rparr>)) = writerOwes (writer w)" using same(2) by simp
  show "set (sent (w\<lparr>writer := wr\<rparr>)) \<subseteq> set (sent w @ outstanding w)" by (simp add: sent_def)
  show "ps \<noteq> [] \<and> (\<forall>p \<in> set ps. outCompletion p = outCompletion (hd ps))" if "writer (w\<lparr>writer := wr\<rparr>) = WriterChecked ps rest" for ps rest
    by (rule new(1)) (use that in simp)
  show "\<not> doomed w i \<and> calling i (line (w\<lparr>writer := wr\<rparr>)) = calling i (line w)" if "\<not> doomed (w\<lparr>writer := wr\<rparr>) i" for i
    using that by (rule new(3))
qed (simp_all add: new(2))

subsection \<open>The steps of the writer\<close>

lemma runWriter_ok:
  assumes ok: "outbound_ok w"
  shows "outbound_ok (runOutgoingDataPacketWriter zero w)"
proof -
  note q = outbound_okD(1) [OF ok]
  then have r: "ring (outgoing w)" "channel_ok (outgoing w)" by (simp_all add: queue_ok_def)
  show ?thesis
  proof (cases "writer w")
    case WriterPolls
    obtain q' ps where p: "PopInto zero (outgoing w) 0 = (q', ps)" by force
    have k: "keeps (outgoing w) q'" "queued (outgoing w) = ps @ queued q'"
      using PopInto_keeps [OF r, of zero 0] PopInto_ring(2) [OF r(1), of zero 0] p by simp_all
    let ?w = "w\<lparr>outgoing := q', writer := (if ps = [] then WriterEmpty else WriterPopped ps)\<rparr>"
    have "outstanding ?w = outstanding w" "line ?w = line w"
      using k(2) WriterPolls by (simp_all add: outstanding_def line_def sent_def)
    moreover have "queue_ok ?w" by (rule queue_ok_keeps [OF q]) (use k in \<open>simp_all split: if_split_asm\<close>)
    ultimately have "outbound_ok ?w"
      using WriterPolls by (intro quiet_step [OF ok]) (auto simp: doomed_def sent_def split: if_split_asm)
    then show ?thesis by (simp add: runOutgoingDataPacketWriter_def WriterPolls p)
  next
    case WriterEmpty
    let ?w = "w\<lparr>writer := (if Closed (outgoing w) then WriterExited else WriterAsks)\<rparr>"
    have "outbound_ok ?w"
      using WriterEmpty by (intro writer_quiet [OF ok]) (simp_all add: line_def sent_def doomed_def split: if_split_asm)
    then show ?thesis by (simp add: runOutgoingDataPacketWriter_def WriterEmpty)
  next
    case WriterAsks
    let ?w = "w\<lparr>outgoing := Wake (outgoing w), writer := WriterListens\<rparr>"
    note k = Wake_keeps [OF r]
    have "queue_ok ?w" by (rule queue_ok_keeps [OF q]) (use k in simp_all)
    then have "outbound_ok ?w"
      using WriterAsks k(2) by (intro quiet_step [OF ok]) (auto simp: outstanding_def line_def doomed_def sent_def)
    then show ?thesis by (simp add: runOutgoingDataPacketWriter_def WriterAsks)
  next
    case WriterListens
    let ?w = "w\<lparr>outgoing := (outgoing w)\<lparr>notEmpty := try_receive (notEmpty (outgoing w))\<rparr>, writer := WriterPolls\<rparr>"
    have "queue_ok ?w" using q by (auto simp: queue_ok_def ring_def channel_ok_def)
    then have "outbound_ok ?w"
      using WriterListens by (intro quiet_step [OF ok]) (auto simp: outstanding_def line_def doomed_def sent_def queued_def)
    then show ?thesis using ok by (simp add: runOutgoingDataPacketWriter_def WriterListens)
  next
    case (WriterPopped ps)
    let ?f = "w\<lparr>writer := WriterCompletes (Some (Sentinel ErrClientClosed)) ps []\<rparr>" and ?g = "w\<lparr>writer := WriterWrites ps\<rparr>"
    have "outbound_ok ?f" "outbound_ok ?g"
      using WriterPopped subseq_drop [of "sent w" "queued (outgoing w)" ps]
      by (intro writer_quiet [OF ok]; auto simp: doomed_def line_def sent_def intro!: calling_none)+
    then show ?thesis by (simp add: runOutgoingDataPacketWriter_def failQueuedOutboundDataPackets_def WriterPopped)
  next
    case (WriterWrites ps)
    let ?w = "w\<lparr>writer := WriterPolls\<rparr>"
    show ?thesis
    proof (cases ps)
      case Nil
      have "outbound_ok ?w"
        using WriterWrites Nil by (intro writer_quiet [OF ok]) (simp_all add: line_def sent_def doomed_def)
      then show ?thesis by (simp add: runOutgoingDataPacketWriter_def WriterWrites Nil)
    qed (simp add: runOutgoingDataPacketWriter_def WriterWrites ok)
  qed (simp_all add: runOutgoingDataPacketWriter_def ok)
qed

lemma first_same: "\<forall>q \<in> set (p # takeWhile (\<lambda>q. outCompletion q = outCompletion p) ps). outCompletion q = outCompletion p"
  by (auto dest: set_takeWhileD)

lemma drop_group:
  assumes "\<forall>q \<in> set ps. outCompletion q = c" "i \<noteq> c"
  shows "calling i (xs @ ps @ ys) = calling i (xs @ ys)"
  using assms by (simp add: calling_none)

lemma writeWrites_ok:
  assumes ok: "outbound_ok w" and w: "writer w = WriterWrites (p # ps)"
  shows "outbound_ok (writeQueuedOutboundDataPackets e w)"
proof -
  define first where "first = p # takeWhile (\<lambda>q. outCompletion q = outCompletion p) ps"
  define after where "after = dropWhile (\<lambda>q. outCompletion q = outCompletion p) ps"
  have split: "p # ps = first @ after" by (simp add: first_def after_def)
  have same: "\<forall>q \<in> set first. outCompletion q = outCompletion p" unfolding first_def by (rule first_same)
  have line: "line w = sent w @ first @ after @ queued (outgoing w)"
    by (simp only: line_def w unwritten.simps split append.assoc)
  have d: "doomed w i = failed (completions w i)" for i by (simp add: doomed_def w)
  show ?thesis
  proof (cases "failed (completions w (outCompletion p))")
    case True
    let ?f = "w\<lparr>writer := WriterCompletes None first after\<rparr>"
    have f: "line ?f = sent w @ after @ queued (outgoing w)" by (simp add: line_def sent_def)
    have "calling i (line ?f) = calling i (line w)" if "i \<noteq> outCompletion p" for i
      unfolding f line using drop_group [OF same that, of "sent w"] by simp
    moreover have "doomed ?f i = failed (completions w i)" for i by (simp add: doomed_def)
    ultimately have c: "\<not> doomed ?f i \<Longrightarrow> \<not> doomed w i \<and> calling i (line ?f) = calling i (line w)" for i
      using True d by metis
    have "outbound_ok ?f"
    proof (rule writer_quiet [OF ok])
      show "subseq (line ?f) (line w)" unfolding f line by (rule subseq_drop)
      show "finishing (WriterCompletes None first after) @ unwritten (WriterCompletes None first after) =
        finishing (writer w) @ unwritten (writer w)" by (simp only: w finishing.simps unwritten.simps split append.simps)
    qed (use c in \<open>simp_all add: w\<close>)
    then show ?thesis using True by (simp add: writeQueuedOutboundDataPackets_def w Let_def first_def after_def)
  next
    case False
    let ?g = "w\<lparr>writer := WriterChecked first after\<rparr>"
    have "line ?g = line w" unfolding line by (simp add: line_def sent_def)
    moreover have "doomed ?g i = doomed w i" for i by (simp add: doomed_def w)
    moreover have "first \<noteq> []" "hd first = p" by (simp_all add: first_def)
    ultimately have "outbound_ok ?g"
      using split [symmetric] same by (intro writer_quiet [OF ok]) (simp_all add: w)
    then show ?thesis using False by (simp add: writeQueuedOutboundDataPackets_def w Let_def first_def after_def)
  qed
qed

lemma writeChecked_ok:
  assumes ok: "outbound_ok w" and w: "writer w = WriterChecked ps rest"
  shows "outbound_ok (writeQueuedOutboundDataPackets e w)"
proof -
  have only: "ps \<noteq> []" "\<forall>p \<in> set ps. outCompletion p = outCompletion (hd ps)"
    using outbound_okD(2) [OF ok] w unfolding owners_ok_def by blast+
  have line: "line w = sent w @ ps @ rest @ queued (outgoing w)" by (simp add: line_def w)
  have d: "doomed w i = failed (completions w i)" for i by (simp add: doomed_def w)
  show ?thesis
  proof (cases "outboundDataPacketCurrent (envReady e) (hd ps) (envClient e)")
    case False
    let ?f = "w\<lparr>writer := WriterCompletes (Some (Sentinel ErrDataChannelNotReady)) ps rest\<rparr>"
    have f: "line ?f = sent w @ rest @ queued (outgoing w)" by (simp add: line_def sent_def)
    have "calling i (line ?f) = calling i (line w)" if "i \<noteq> outCompletion (hd ps)" for i
      unfolding f line using drop_group [OF only(2) that, of "sent w"] by simp
    moreover have "\<not> failed (completions w i) \<and> i \<noteq> outCompletion (hd ps)" if "\<not> doomed ?f i" for i
      using that hd_in_set [OF only(1)] by (auto simp: doomed_def)
    ultimately have c: "\<not> doomed ?f i \<Longrightarrow> \<not> doomed w i \<and> calling i (line ?f) = calling i (line w)" for i
      using d by metis
    have "outbound_ok ?f"
    proof (rule writer_quiet [OF ok])
      show "subseq (line ?f) (line w)" unfolding f line by (rule subseq_drop)
      show "\<not> doomed w i \<and> calling i (line ?f) = calling i (line w)" if "\<not> doomed ?f i" for i using that by (rule c)
    qed (simp_all add: w)
    then show ?thesis
      using False by (simp add: writeQueuedOutboundDataPackets_def failQueuedOutboundDataPackets_def w)
  next
    case True
    let ?g = "w\<lparr>written := written w @ [(outSession (hd ps), ps)], writer := WriterCompletes (envResult e) ps rest\<rparr>"
    have g: "line ?g = line w" "sent ?g = sent w @ ps" "outstanding ?g = outstanding w"
      by (simp_all add: line_def sent_def w outstanding_def)
    have "set ps \<subseteq> set (outstanding w)" by (auto simp: w outstanding_def)
    note g = g this
    have "outbound_ok ?g"
    proof (rule quiet_step [OF ok])
      show "outstanding ?g = outstanding w" by (rule g(3))
      show "queue_ok ?g" by (rule queue_ok_same [OF outbound_okD(1) [OF ok]]) simp_all
      show "set (sent ?g) \<subseteq> set (sent w @ outstanding w)" unfolding g(2) using g(4) by auto
      show "subseq (line ?g) (line w)" unfolding g(1) by (rule subseq_order.refl)
      show "\<not> doomed w i \<and> calling i (line ?g) = calling i (line w)" if "\<not> doomed ?g i" for i
        unfolding g(1) using that by (simp add: doomed_def w)
    qed (simp_all add: w)
    then show ?thesis using True by (simp add: writeQueuedOutboundDataPackets_def w)
  qed
qed

lemma writeQueued_ok:
  assumes "outbound_ok w"
  shows "outbound_ok (writeQueuedOutboundDataPackets e w)"
proof (cases "writer w")
  case (WriterWrites ps)
  then show ?thesis
    using assms writeWrites_ok [OF assms] by (cases ps) (simp_all add: writeQueuedOutboundDataPackets_def)
qed (use assms writeChecked_ok [OF assms] in \<open>simp_all add: writeQueuedOutboundDataPackets_def\<close>)

text \<open>One packet is completed: it is no longer outstanding, or no longer left to its call.\<close>

lemma counted_complete:
  assumes "counted w i" "calls w i \<noteq> CallIdle" "\<forall>r. calls w i \<noteq> CallReturned r"
    "completions w' i = complete err (completions w i)" "askedPackets w' i = askedPackets w i"
    "calls w' i \<noteq> CallIdle" "\<forall>r. calls w' i \<noteq> CallReturned r"
    "length (calling i (outstanding w)) + length (callPackets (calls w i)) =
       Suc (length (calling i (outstanding w')) + length (callPackets (calls w' i)))"
  shows "counted w' i"
proof -
  obtain es where es: "completions w i = completed es (acquireOutboundDataPacketCompletion (length (askedPackets w i)))"
    "length es + length (calling i (outstanding w)) + length (callPackets (calls w i)) = length (askedPackets w i)"
    "askedPackets w i \<noteq> []"
    using assms(1,2) by (auto simp: counted_def)
  have "completions w' i = completed (es @ [err]) (acquireOutboundDataPacketCompletion (length (askedPackets w' i)))"
    "length (es @ [err]) + length (calling i (outstanding w')) + length (callPackets (calls w' i)) = length (askedPackets w' i)"
    using es assms(4,5,8) by simp_all
  then show ?thesis using es(3) assms(5,7) unfolding counted_def by metis
qed

lemma acquired [simp]:
  "completionDone (acquireOutboundDataPacketCompletion n) = []" "remaining (acquireOutboundDataPacketCompletion n) = int n"
  "completionErr (acquireOutboundDataPacketCompletion n) = None"
  by (simp_all add: acquireOutboundDataPacketCompletion_def)

text \<open>A call is answered exactly when nothing of it is outstanding or left.\<close>

lemma counted_done:
  assumes "counted w i" "calls w i \<noteq> CallIdle"
  shows "completionDone (completions w i) =
    (if calling i (outstanding w) = [] \<and> callPackets (calls w i) = [] then [completionErr (completions w i)] else [])"
proof -
  obtain es where es: "completions w i = completed es (acquireOutboundDataPacketCompletion (length (askedPackets w i)))"
    "length es + length (calling i (outstanding w)) + length (callPackets (calls w i)) = length (askedPackets w i)"
    "askedPackets w i \<noteq> []"
    using assms by (auto simp: counted_def)
  have "length es = length (askedPackets w i) \<longleftrightarrow> calling i (outstanding w) = [] \<and> callPackets (calls w i) = []"
    using es(2) by auto
  then show ?thesis
    using completed_done [of "acquireOutboundDataPacketCompletion (length (askedPackets w i))" es] es by auto
qed

lemma counted_waits:
  assumes "counted w i" "calls w i \<noteq> CallIdle" "calling i (outstanding w) \<noteq> [] \<or> callPackets (calls w i) \<noteq> []"
  shows "\<forall>r. calls w i \<noteq> CallReturned r"
  using assms counted_done [OF assms(1,2)] by (auto simp: counted_def)

lemma owner_called:
  assumes "owners_ok w" "p \<in> set (outstanding w)"
  shows "calls w (outCompletion p) \<noteq> CallIdle"
  using assms unfolding owners_ok_def by simp

lemma completePacket_simps [simp]:
  "outgoing (completePacket err p w) = outgoing w" "slotCapacity (completePacket err p w) = slotCapacity w"
  "slotsTaken (completePacket err p w) = slotsTaken w" "slotsClosed (completePacket err p w) = slotsClosed w"
  "calls (completePacket err p w) = calls w" "writer (completePacket err p w) = writer w"
  "askedPackets (completePacket err p w) = askedPackets w" "written (completePacket err p w) = written w"
  "pushedPackets (completePacket err p w) = pushedPackets w"
  "completions (completePacket err p w) i = (if i = outCompletion p then complete err (completions w i) else completions w i)"
  by (simp_all add: completePacket_def)

lemma completes_first_ok:
  assumes ok: "outbound_ok w" and w: "writer w = WriterCompletes err (p # ps) rest"
  shows "outbound_ok ((completePacket err p w)\<lparr>writer := WriterReleases err ps rest\<rparr>)"
    (is "outbound_ok ?w")
proof -
  note o = outbound_okD [OF ok]
  let ?i = "outCompletion p"
  have out: "outstanding w = p # outstanding ?w" by (simp add: outstanding_def w)
  have called: "calls w ?i \<noteq> CallIdle" by (rule owner_called [OF o(2)]) (simp add: out)
  have line: "line ?w = line w" by (simp add: line_def sent_def w)
  have "queue_ok ?w" by (rule queue_ok_same [OF o(1)]) simp_all
  moreover have "owners_ok ?w"
    by (rule owners_quiet [OF o(2)]) (auto simp: out sent_def)
  moreover have "counted ?w i" for i
  proof (cases "i = ?i")
    case True
    show ?thesis unfolding True
      using called counted_waits [OF o(3) called]
      by (intro counted_complete [OF o(3) called]) (simp_all add: out)
  qed (rule counted_quiet [OF o(3)], simp_all add: out)
  moreover have "traced ?w i" for i
  proof (rule traced_quiet [OF o(4)])
    assume d: "\<not> doomed ?w i"
    have "\<not> doomed w i"
      using d by (auto simp: doomed_def w failed_complete split: if_split_asm)
    then show "\<not> doomed w i \<and> calling i (line ?w) = calling i (line w)" using line by simp
  qed simp_all
  moreover have "ordered ?w" by (rule ordered_quiet [OF o(5)]) (simp_all add: line)
  moreover have "slots_ok ?w" using o(6) by (simp add: slots_ok_def out w holders_def)
  ultimately show ?thesis unfolding outbound_ok_def by blast
qed

lemma holders_finite: "slots_ok w \<Longrightarrow> finite (holders w)"
  by (simp add: slots_ok_def)

lemma slots_next:
  assumes "slots_ok w" "finite (holders w')" "slotCapacity w' = slotCapacity w"
    "length (outstanding w') + writerOwes (writer w') + card (holders w') + slotsTaken w =
     slotsTaken w' + length (outstanding w) + writerOwes (writer w) + card (holders w)"
    "slotsTaken w' \<le> slotsTaken w \<or> slotsTaken w' \<le> slotCapacity w"
  shows "slots_ok w'"
  using assms unfolding slots_ok_def by linarith

lemma releases_ok:
  assumes ok: "outbound_ok w" and w: "writer w = WriterReleases err ps rest" and t: "slotsTaken w = Suc n"
  shows "outbound_ok (w\<lparr>slotsTaken := n, writer := WriterCompletes err ps rest\<rparr>)"
    (is "outbound_ok ?w")
proof -
  note o = outbound_okD [OF ok]
  have out: "outstanding ?w = outstanding w" by (simp add: outstanding_def w)
  have line: "line ?w = line w" by (simp add: line_def sent_def w)
  have "queue_ok ?w" by (rule queue_ok_same [OF o(1)]) simp_all
  moreover have "owners_ok ?w" by (rule owners_quiet [OF o(2)]) (simp_all add: out sent_def)
  moreover have "counted ?w i" for i by (rule counted_quiet [OF o(3)]) (simp_all add: out)
  moreover have "traced ?w i" for i
    by (rule traced_quiet [OF o(4)]) (simp_all add: line doomed_def w)
  moreover have "ordered ?w" by (rule ordered_quiet [OF o(5)]) (simp_all add: line)
  moreover have "slots_ok ?w" 
    by (rule slots_next [OF o(6)]) (simp_all add: holders_finite [OF o(6), unfolded holders_def] out w t holders_def)
  ultimately show ?thesis unfolding outbound_ok_def by blast
qed

lemma completeQueued_ok:
  assumes ok: "outbound_ok w"
  shows "outbound_ok (completeQueued w)"
proof (cases "writer w")
  case (WriterCompletes err ps rest)
  show ?thesis
  proof (cases ps)
    case Nil
    have "outbound_ok (w\<lparr>writer := WriterWrites rest\<rparr>)"
      by (rule writer_quiet [OF ok]) (simp_all add: WriterCompletes Nil line_def sent_def doomed_def)
    then show ?thesis by (simp add: completeQueued_def WriterCompletes Nil)
  next
    case (Cons p qs)
    then show ?thesis using completes_first_ok [OF ok, of err p qs rest] WriterCompletes by (simp add: completeQueued_def)
  qed
next
  case (WriterReleases err ps rest)
  then show ?thesis using releases_ok [OF ok WriterReleases] ok by (cases "slotsTaken w") (simp_all add: completeQueued_def)
qed (simp_all add: completeQueued_def ok)

subsection \<open>The steps of a call\<close>

text \<open>A call moves on and leaves everything else but the slots alone.\<close>

lemma owners_call:
  assumes "owners_ok w" "calls w' = (calls w)(i := c)" "c \<noteq> CallIdle" "sent w' = sent w"
    "set (outstanding w') \<subseteq> set (outstanding w) \<union> {q. outCompletion q = i}" "writer w' = writer w"
    "\<forall>p \<in> set (callPackets c). outCompletion p = i"
  shows "owners_ok w'"
  unfolding owners_ok_def
proof (intro conjI ballI allI impI)
  fix p
  assume "p \<in> set (sent w' @ outstanding w')"
  then have "outCompletion p = i \<or> p \<in> set (sent w @ outstanding w)" using assms(4,5) by auto
  then show "calls w' (outCompletion p) \<noteq> CallIdle" using assms(1,2,3) unfolding owners_ok_def by auto
next
  fix j p
  assume "p \<in> set (callPackets (calls w' j))"
  then show "outCompletion p = j"
    using assms(1,2,7) unfolding owners_ok_def by (cases "j = i") auto
next
  fix ps rest
  assume "writer w' = WriterChecked ps rest"
  then have "ps \<noteq> [] \<and> (\<forall>p \<in> set ps. outCompletion p = outCompletion (hd ps))"
    using assms(1) unfolding owners_ok_def assms(6) by blast
  then show "ps \<noteq> []" "\<And>p. p \<in> set ps \<Longrightarrow> outCompletion p = outCompletion (hd ps)" by blast+
qed

lemma call_owned:
  assumes "owners_ok w" "p \<in> set (callPackets (calls w i))"
  shows "outCompletion p = i"
  using assms unfolding owners_ok_def by blast

lemma call_moves:
  assumes ok: "outbound_ok w" and was: "calls w i \<noteq> CallIdle" "callPackets (calls w i) = callPackets c"
    and now: "c \<noteq> CallIdle" "\<And>r. c = CallReturned r \<Longrightarrow> completionDone (completions w i) \<noteq> [] \<and> hd (completionDone (completions w i)) = r"
    and slots: "slots_ok (w\<lparr>slotsTaken := n, calls := (calls w)(i := c)\<rparr>)"
  shows "outbound_ok (w\<lparr>slotsTaken := n, calls := (calls w)(i := c)\<rparr>)" (is "outbound_ok ?w")
proof -
  note o = outbound_okD [OF ok]
  have out: "outstanding ?w = outstanding w" by (simp add: outstanding_def)
  have line: "line ?w = line w" by (simp add: line_def sent_def)
  have "queue_ok ?w" using o(1) by (simp add: queue_ok_def)
  moreover have "owners_ok ?w"
  proof (rule owners_call [OF o(2) _ now(1)])
    show "\<forall>p \<in> set (callPackets c). outCompletion p = i" using call_owned [OF o(2), of _ i] was(2) by simp
  qed (auto simp: out sent_def)
  moreover have "counted ?w j" for j
  proof (cases "j = i")
    case True
    then show ?thesis using o(3) [of i] was now by (simp add: counted_def out)
  qed (rule counted_quiet [OF o(3)], simp_all add: out)
  moreover have "traced ?w j" for j
  proof (cases "j = i")
    case True
    then show ?thesis using o(4) [of i] was now by (simp add: traced_def line doomed_def)
  qed (rule traced_quiet [OF o(4)], simp_all add: line doomed_def)
  moreover have "ordered ?w" by (rule ordered_quiet [OF o(5)]) (simp_all add: line)
  ultimately show ?thesis using slots unfolding outbound_ok_def by blast
qed

lemma call_moves_quiet:
  assumes ok: "outbound_ok w" and was: "calls w i \<noteq> CallIdle" "callPackets (calls w i) = callPackets c" "callHolds (calls w i) = callHolds c"
    and now: "c \<noteq> CallIdle" "\<And>r. c = CallReturned r \<Longrightarrow> completionDone (completions w i) \<noteq> [] \<and> hd (completionDone (completions w i)) = r"
  shows "outbound_ok (w\<lparr>calls := (calls w)(i := c)\<rparr>)"
proof -
  let ?w = "w\<lparr>slotsTaken := slotsTaken w, calls := (calls w)(i := c)\<rparr>"
  have "holders ?w = holders w" using was(3) by (auto simp: holders_def)
  then have "slots_ok ?w"
    by (intro slots_next [OF outbound_okD(6) [OF ok]]) (simp_all add: outstanding_def holders_finite [OF outbound_okD(6) [OF ok]])
  from call_moves [OF ok was(1,2) now this] show ?thesis by simp
qed

lemma slot_taken_ok:
  assumes ok: "outbound_ok w" and c: "calls w i = CallEnqueues ps" and free: "slotsTaken w < slotCapacity w"
  shows "outbound_ok (w\<lparr>slotsTaken := Suc (slotsTaken w), calls := (calls w)(i := CallPushes ps)\<rparr>)" (is "outbound_ok ?w")
proof (rule call_moves [OF ok])
  have "holders ?w = insert i (holders w)" "i \<notin> holders w" by (auto simp: holders_def c)
  then show "slots_ok ?w"
    using free by (intro slots_next [OF outbound_okD(6) [OF ok]]) (simp_all add: outstanding_def holders_finite [OF outbound_okD(6) [OF ok]])
qed (simp_all add: c)

lemma slot_returned_ok:
  assumes ok: "outbound_ok w" and c: "calls w i = CallRefused ps" and taken: "slotsTaken w = Suc n"
  shows "outbound_ok (w\<lparr>slotsTaken := n, calls := (calls w)(i := CallFails ps)\<rparr>)" (is "outbound_ok ?w")
proof (rule call_moves [OF ok])
  have h: "holders ?w = holders w - {i}" "i \<in> holders w" by (auto simp: holders_def c)
  note slots = outbound_okD(6) [OF ok]
  have "card (holders w) = Suc (card (holders ?w))" using h holders_finite [OF slots] card.remove by metis
  moreover have "outstanding ?w = outstanding w" "finite (holders ?w)" using h holders_finite [OF slots] by (simp_all add: outstanding_def)
  ultimately show "slots_ok ?w" using taken by (intro slots_next [OF slots]) simp_all
qed (simp_all add: c)

lemma packet_pushed_ok:
  assumes ok: "outbound_ok w" and c: "calls w i = CallPushes (p # ps)"
    and q: "keeps (outgoing w) q" "queued q = queued (outgoing w) @ [p]"
  shows "outbound_ok (w\<lparr>outgoing := q, calls := (calls w)(i := CallEnqueues ps), pushedPackets := pushedPackets w @ [p]\<rparr>)"
    (is "outbound_ok ?w")
proof -
  note o = outbound_okD [OF ok]
  have own: "\<forall>q \<in> set (p # ps). outCompletion q = i" using call_owned [OF o(2), of _ i] c by simp
  have out: "outstanding ?w = outstanding w @ [p]" by (simp add: outstanding_def q(2))
  have line: "line ?w = line w @ [p]" by (simp add: line_def sent_def q(2))
  have "queue_ok ?w" by (rule queue_ok_keeps [OF o(1)]) (use q(1) o(1) in \<open>simp_all add: keeps_def queue_ok_def\<close>)
  moreover have "owners_ok ?w"
    by (rule owners_call [OF o(2)]) (use own in \<open>auto simp: out sent_def\<close>)
  moreover have "counted ?w j" for j
  proof (cases "j = i")
    case True
    then show ?thesis using o(3) [of i] own by (simp add: counted_def out c)
  qed (rule counted_quiet [OF o(3)], use own in \<open>simp_all add: out\<close>)
  moreover have "traced ?w j" for j
  proof (cases "j = i")
    case True
    then show ?thesis using o(4) [of i] own by (simp add: traced_def line doomed_def c)
  qed (rule traced_quiet [OF o(4)], use own in \<open>simp_all add: line doomed_def\<close>)
  moreover have "ordered ?w" using o(5) by (simp add: ordered_def line list_emb_append_mono)
  moreover have "slots_ok ?w"
  proof (rule slots_next [OF o(6)])
    have h: "holders ?w = holders w - {i}" "i \<in> holders w" by (auto simp: holders_def c)
    then have "card (holders w) = Suc (card (holders ?w))" using holders_finite [OF o(6)] card.remove by metis
    then show "length (outstanding ?w) + writerOwes (writer ?w) + card (holders ?w) + slotsTaken w =
       slotsTaken ?w + length (outstanding w) + writerOwes (writer w) + card (holders w)" unfolding out by simp
    show "finite (holders ?w)" using h holders_finite [OF o(6)] by simp
  qed simp_all
  ultimately show ?thesis unfolding outbound_ok_def by blast
qed

lemma packet_failed_ok:
  assumes ok: "outbound_ok w" and c: "calls w i = CallFails (p # ps)"
  shows "outbound_ok ((completePacket (Some err) p w)\<lparr>calls := (calls w)(i := CallFails ps)\<rparr>)"
    (is "outbound_ok ?w")
proof -
  note o = outbound_okD [OF ok]
  have own: "\<forall>q \<in> set (p # ps). outCompletion q = i" using call_owned [OF o(2), of _ i] c by simp
  have out: "outstanding ?w = outstanding w" by (simp add: outstanding_def)
  have line: "line ?w = line w" by (simp add: line_def sent_def)
  have "queue_ok ?w" using o(1) by (simp add: queue_ok_def)
  moreover have "owners_ok ?w"
    by (rule owners_call [OF o(2)]) (use own in \<open>auto simp: out sent_def\<close>)
  moreover have "counted ?w j" for j
  proof (cases "j = i")
    case True
    show ?thesis unfolding True
      by (rule counted_complete [OF o(3), where err = "Some err"]) (use own in \<open>simp_all add: out c\<close>)
  qed (rule counted_quiet [OF o(3)], use own in \<open>simp_all add: out\<close>)
  moreover have "traced ?w j" for j
  proof (cases "j = i")
    case True
    then have "doomed ?w j" using own by (simp add: doomed_def failed_complete)
    then show ?thesis by (simp add: traced_def)
  qed (rule traced_quiet [OF o(4)], use own in \<open>simp_all add: line doomed_def\<close>)
  moreover have "ordered ?w" by (rule ordered_quiet [OF o(5)]) (simp_all add: line)
  moreover have "slots_ok ?w"
  proof -
    have "holders ?w = holders w" by (auto simp: holders_def c)
    then show ?thesis by (intro slots_next [OF o(6)]) (simp_all add: outstanding_def holders_finite [OF o(6)])
  qed
  ultimately show ?thesis unfolding outbound_ok_def by blast
qed

lemma fresh_call:
  assumes "owners_ok w" "calls w i = CallIdle"
  shows "calling i (sent w @ outstanding w) = []" "calling i (line w) = []"
proof -
  have fresh: "\<forall>p \<in> set (sent w @ outstanding w). outCompletion p \<noteq> i"
    using assms unfolding owners_ok_def by metis
  then show "calling i (sent w @ outstanding w) = []" by (rule calling_none)
  show "calling i (line w) = []" by (rule calling_none) (use fresh in \<open>auto simp: line_def outstanding_def\<close>)
qed

lemma beginEnqueue_ok:
  assumes ok: "outbound_ok w" and c: "calls w i = CallIdle" and some: "packetBuffers \<noteq> []"
  shows "outbound_ok (beginEnqueue s n r packetBuffers i w)" (is "outbound_ok ?w")
proof -
  note o = outbound_okD [OF ok]
  note fresh = fresh_call [OF o(2) c]
  define ps where "ps = outboundPackets s n r packetBuffers i"
  have own: "\<forall>q \<in> set ps. outCompletion q = i" "length ps = length packetBuffers" "ps \<noteq> []"
    using some by (auto simp: ps_def outboundPackets_def)
  have w: "?w = w\<lparr>completions := (completions w)(i := acquireOutboundDataPacketCompletion (length ps)),
       calls := (calls w)(i := CallEnqueues ps), askedPackets := (askedPackets w)(i := ps)\<rparr>"
    by (simp add: beginEnqueue_def own(2) flip: ps_def)
  have out: "outstanding ?w = outstanding w" by (simp add: outstanding_def w)
  have line: "line ?w = line w" by (simp add: line_def sent_def w)
  have "queue_ok ?w" using o(1) by (simp add: queue_ok_def w)
  moreover have "owners_ok ?w"
  proof (rule owners_call [OF o(2), where c = "CallEnqueues ps"])
    show "set (outstanding ?w) \<subseteq> set (outstanding w) \<union> {q. outCompletion q = i}" unfolding out by blast
  qed (use own in \<open>simp_all add: sent_def w\<close>)
  moreover have "counted ?w j" for j
  proof (cases "j = i")
    case True
    have "completions ?w i = completed [] (acquireOutboundDataPacketCompletion (length (askedPackets ?w i)))" by (simp add: w)
    moreover have "length ([] :: go_error option list) + length (calling i (outstanding ?w)) + length (callPackets (calls ?w i)) =
        length (askedPackets ?w i)"
      using fresh(1) unfolding out by (simp add: w)
    ultimately show ?thesis unfolding True counted_def using own(3) by (auto simp: w)
  qed (rule counted_quiet [OF o(3)], use out in \<open>simp_all add: w\<close>)
  moreover have "traced ?w j" for j
  proof (cases "j = i")
    case True
    then show ?thesis using fresh(2) unfolding traced_def line by (simp add: w)
  qed (rule traced_quiet [OF o(4)], use line in \<open>simp_all add: doomed_def w\<close>)
  moreover have "ordered ?w" by (rule ordered_quiet [OF o(5)]) (use line in \<open>simp_all add: w\<close>)
  moreover have "slots_ok ?w"
  proof -
    have "holders ?w = holders w" by (auto simp: holders_def w c)
    then show ?thesis by (intro slots_next [OF o(6)]) (use out in \<open>simp_all add: w holders_finite [OF o(6)]\<close>)
  qed
  ultimately show ?thesis unfolding outbound_ok_def by blast
qed

lemma waitCompletion_ok:
  assumes ok: "outbound_ok w" and c: "calls w i = CallEnqueues [] \<or> calls w i = CallFails []"
  shows "outbound_ok (waitCompletion i w)"
proof (cases "completionDone (completions w i)")
  case (Cons r rs)
  have "outbound_ok (w\<lparr>calls := (calls w)(i := CallReturned r)\<rparr>)"
    by (rule call_moves_quiet [OF ok]) (use c Cons in auto)
  then show ?thesis by (simp add: waitCompletion_def Cons)
qed (simp add: waitCompletion_def ok)

lemma enqueue_ok:
  assumes ok: "outbound_ok w"
  shows "outbound_ok (enqueueOutboundDataPacketBuffers preferClosed i w)"
proof (cases "calls w i")
  case (CallEnqueues ps)
  show ?thesis
  proof (cases ps)
    case Nil
    then show ?thesis using waitCompletion_ok [OF ok] CallEnqueues by (simp add: enqueueOutboundDataPacketBuffers_def)
  next
    case (Cons p qs)
    have "outbound_ok (w\<lparr>calls := (calls w)(i := CallFails (p # qs))\<rparr>)"
      by (rule call_moves_quiet [OF ok]) (simp_all add: CallEnqueues Cons)
    then show ?thesis
      using slot_taken_ok [OF ok CallEnqueues] ok by (simp add: enqueueOutboundDataPacketBuffers_def CallEnqueues Cons)
  qed
next
  case (CallPushes ps)
  show ?thesis
  proof (cases ps)
    case Nil
    then show ?thesis using ok CallPushes by (simp add: enqueueOutboundDataPacketBuffers_def)
  next
    case (Cons p qs)
    obtain q r where r: "pushRound (outgoing w) False p = (q, r)" by force
    have q: "ring (outgoing w)" "channel_ok (outgoing w)" using outbound_okD(1) [OF ok] by (simp_all add: queue_ok_def)
    note push = pushRound_ring [OF q r]
    have "outbound_ok (w\<lparr>calls := (calls w)(i := CallRefused (p # qs))\<rparr>)"
      by (rule call_moves_quiet [OF ok]) (simp_all add: CallPushes Cons)
    moreover have "outbound_ok (w\<lparr>outgoing := q, calls := (calls w)(i := CallEnqueues qs), pushedPackets := pushedPackets w @ [p]\<rparr>)"
      if "r = PushedOne"
      by (rule packet_pushed_ok [OF ok]) (use push(1,2) that in \<open>simp_all add: CallPushes Cons\<close>)
    ultimately show ?thesis
      using ok by (cases r) (simp_all add: enqueueOutboundDataPacketBuffers_def CallPushes Cons r)
  qed
next
  case (CallRefused ps)
  then show ?thesis
    using slot_returned_ok [OF ok CallRefused] ok by (cases "slotsTaken w") (simp_all add: enqueueOutboundDataPacketBuffers_def)
next
  case (CallFails ps)
  then show ?thesis
    using waitCompletion_ok [OF ok] packet_failed_ok [OF ok]
    by (cases ps) (simp_all add: enqueueOutboundDataPacketBuffers_def failUnqueuedOutboundDataPackets_def)
qed (simp_all add: enqueueOutboundDataPacketBuffers_def ok)

subsection \<open>Runs\<close>

lemma quiet_close:
  assumes ok: "outbound_ok w" and q: "keeps (outgoing w) q" "queued q = queued (outgoing w)"
  shows "outbound_ok (w\<lparr>outgoing := q, slotsClosed := b\<rparr>)" (is "outbound_ok ?w")
proof (rule quiet_step [OF ok])
  show "outstanding ?w = outstanding w" by (simp add: outstanding_def q(2))
  have line: "line ?w = line w" by (simp add: line_def sent_def q(2))
  show "subseq (line ?w) (line w)" unfolding line by (rule subseq_order.refl)
  show "\<not> doomed w i \<and> calling i (line ?w) = calling i (line w)" if "\<not> doomed ?w i" for i
    unfolding line using that by (simp add: doomed_def)
  show "queue_ok ?w"
    by (rule queue_ok_keeps [OF outbound_okD(1) [OF ok]]) (use q(1) outbound_okD(1) [OF ok] in \<open>simp_all add: keeps_def queue_ok_def\<close>)
  show "ps \<noteq> [] \<and> (\<forall>p \<in> set ps. outCompletion p = outCompletion (hd ps))" if "writer ?w = WriterChecked ps rest" for ps rest
  proof -
    have "writer w = WriterChecked ps rest" using that by simp
    then show ?thesis using outbound_okD(2) [OF ok] unfolding owners_ok_def by blast
  qed
qed (simp_all add: sent_def)

lemma outbound_step_ok:
  assumes "outbound_step zero w w'" and ok: "outbound_ok w"
  shows "outbound_ok w'"
proof -
  have q: "ring (outgoing w)" "channel_ok (outgoing w)" using outbound_okD(1) [OF ok] by (simp_all add: queue_ok_def)
  have refl: "keeps (outgoing w) (outgoing w)" using keeps_refl [OF q] .
  from assms(1) show ?thesis
  proof cases
    case client_closes
    then show ?thesis using quiet_close [OF ok Close_keeps [OF q], of "slotsClosed w"] by simp
  next
    case slots_close
    then show ?thesis using quiet_close [OF ok refl, of True] by simp
  qed (use ok in \<open>simp_all add: beginEnqueue_ok enqueue_ok runWriter_ok writeQueued_ok completeQueued_ok\<close>)
qed

lemma slotCapacity_step: "outbound_step zero w w' \<Longrightarrow> slotCapacity w' = slotCapacity w"
  by (induction rule: outbound_step.induct)
    (auto simp: beginEnqueue_def enqueueOutboundDataPacketBuffers_def failUnqueuedOutboundDataPackets_def waitCompletion_def
      runOutgoingDataPacketWriter_def writeQueuedOutboundDataPackets_def failQueuedOutboundDataPackets_def completeQueued_def Let_def
      split: call_state.split writer_state.split list.split prod.split push_round.split)

lemma newWriting_ok: "outbound_ok (newWriting zero capacity)"
proof -
  have "channel_ok (newDataPacketQueue zero capacity)" by (auto simp: channel_ok_def newDataPacketQueue_def)
  moreover have "ring (newDataPacketQueue zero capacity)" by (auto simp: ring_def newDataPacketQueue_def)
  moreover have "length (items (newDataPacketQueue zero capacity)) = capacity" "queued (newDataPacketQueue zero capacity) = []"
    by (simp_all add: newDataPacketQueue_def queued_def)
  ultimately show ?thesis
    by (simp add: outbound_ok_def newWriting_def queue_ok_def owners_ok_def counted_def traced_def ordered_def slots_ok_def
        outstanding_def holders_def line_def sent_def)
qed

lemma outbound_run_ok: "outbound_run zero capacity w \<Longrightarrow> outbound_ok w \<and> slotCapacity w = capacity"
proof (induction rule: outbound_run.induct)
  case run_new
  show ?case using newWriting_ok by (simp add: newWriting_def)
next
  case (run_step w w')
  then show ?case using outbound_step_ok [OF run_step(2)] slotCapacity_step [OF run_step(2)] by simp
qed

text \<open>A call that holds a slot finds room in the queue, and one that is not answered still has a packet somewhere.\<close>

lemma slot_has_room:
  assumes "slots_ok w" "callHolds (calls w i)"
  shows "queueLength (outgoing w) < slotCapacity w"
proof -
  have "card (holders w) > 0" using assms by (auto simp: slots_ok_def holders_def card_gt_0_iff)
  then show ?thesis using assms(1) by (simp add: slots_ok_def outstanding_def)
qed

lemma answered_exactly:
  assumes ok: "outbound_ok w" and c: "calls w i = CallReturned r"
  shows "completionDone (completions w i) = [r]" "calling i (outstanding w) = []"
    "r = None \<Longrightarrow> calling i (sent w) = askedPackets w i"
proof -
  note o = outbound_okD [OF ok]
  have called: "calls w i \<noteq> CallIdle" by (simp add: c)
  have r: "completionDone (completions w i) \<noteq> []" "hd (completionDone (completions w i)) = r"
    using o(3) [of i] c by (simp_all add: counted_def)
  then show none: "calling i (outstanding w) = []" and dn: "completionDone (completions w i) = [r]"
    using counted_done [OF o(3) called] by (auto split: if_split_asm)
  assume "r = None"
  then have "\<not> failed (completions w i)"
    using counted_done [OF o(3) called] dn by (simp add: failed_def split: if_split_asm)
  moreover have "i \<notin> outCompletion ` set (finishing (writer w))" using none by (auto simp: outstanding_def calling_def filter_empty_conv)
  ultimately have "calling i (line w) = askedPackets w i" using o(4) [of i] called by (simp add: traced_def doomed_def c)
  then show "calling i (sent w) = askedPackets w i" using none by (simp add: line_def outstanding_def)
qed

lemma subseq_prefix: "subseq xs (xs @ ys)"
  using subseq_drop [of xs "[]" ys] by simp

subsection \<open>The writer gets on\<close>

text \<open>The next step of the writer on its own.\<close>

definition writerGoesOn :: "'b outboundDataPacket \<Rightarrow> write_env \<Rightarrow> 'b writing \<Rightarrow> 'b writing" where
  "writerGoesOn zero e w =
     (case writer w of
        WriterWrites (p # ps) \<Rightarrow> writeQueuedOutboundDataPackets e w
      | WriterChecked ps rest \<Rightarrow> writeQueuedOutboundDataPackets e w
      | WriterCompletes err ps rest \<Rightarrow> completeQueued w
      | WriterReleases err ps rest \<Rightarrow> completeQueued w
      | _ \<Rightarrow> runOutgoingDataPacketWriter zero w)"

text \<open>The distance of a writer from completing its next packet.\<close>

fun writerRank :: "'b writer_state \<Rightarrow> nat" where
  "writerRank WriterEmpty = 7"
| "writerRank WriterAsks = 6"
| "writerRank WriterListens = 5"
| "writerRank WriterPolls = 4"
| "writerRank (WriterPopped ps) = (if ps = [] then 7 else 3)"
| "writerRank (WriterWrites ps) = (if ps = [] then 5 else 2)"
| "writerRank (WriterChecked ps rest) = 1"
| "writerRank (WriterCompletes err ps rest) = (if ps = [] then 6 else 0)"
| "writerRank (WriterReleases err ps rest) = 7"
| "writerRank WriterExited = 0"

definition writerDistance :: "'b writing \<Rightarrow> nat" where
  "writerDistance w = 8 * length (outstanding w) + writerRank (writer w)"

definition leaving :: "'b writing \<Rightarrow> bool" where
  "leaving w \<longleftrightarrow> writer w = WriterExited \<or> writer w = WriterEmpty \<and> Closed (outgoing w)"

lemma writerGoesOn_step: "outbound_step zero w (writerGoesOn zero e w)"
  unfolding writerGoesOn_def
  by (cases "writer w"; simp add: writer_runs writer_writes writer_completes split: list.split)

lemma writerGoesOn_nearer:
  assumes ok: "outbound_ok w" and some: "outstanding w \<noteq> []" and stays: "\<not> leaving w"
  shows "writerDistance (writerGoesOn zero e w) < writerDistance w" "\<not> leaving (writerGoesOn zero e w)"
    "calls (writerGoesOn zero e w) = calls w"
proof -
  have q: "ring (outgoing w)" "channel_ok (outgoing w)" using outbound_okD(1) [OF ok] by (simp_all add: queue_ok_def)
  have "writerDistance (writerGoesOn zero e w) < writerDistance w \<and> \<not> leaving (writerGoesOn zero e w) \<and>
    calls (writerGoesOn zero e w) = calls w"
  proof (cases "writer w")
    case WriterPolls
    obtain q' ps where p: "PopInto zero (outgoing w) 0 = (q', ps)" by force
    have k: "queued (outgoing w) = ps @ queued q'" using PopInto_ring(2) [OF q(1), of zero 0] p by simp
    have "queueLength q' = 0"
      using p by (auto simp: PopInto_def Let_def signalNotEmptyLocked_def signalNotFullLocked_def split: prod.split_asm if_split_asm)
    then have "queued q' = []" by (simp add: queued_def)
    then have "ps \<noteq> []" using some k by (auto simp: outstanding_def WriterPolls)
    then show ?thesis
      using k by (simp add: writerGoesOn_def runOutgoingDataPacketWriter_def writerDistance_def outstanding_def WriterPolls p leaving_def)
  next
    case WriterListens
    have "signalled (notEmpty (outgoing w))"
      using outbound_okD(1) [OF ok] some WriterListens
      by (auto simp: queue_ok_def consumer_ok_def outstanding_def queued_def)
    then show ?thesis
      by (simp add: writerGoesOn_def runOutgoingDataPacketWriter_def writerDistance_def outstanding_def WriterListens leaving_def queued_def)
  next
    case (WriterWrites ps)
    have "8 * length (takeWhile P xs) + 8 * length (dropWhile P xs) = 8 * length xs" for P :: "'a outboundDataPacket \<Rightarrow> bool" and xs
      by (metis add_mult_distrib2 length_append takeWhile_dropWhile_id)
    then show ?thesis
      by (cases ps) (simp_all add: writerGoesOn_def runOutgoingDataPacketWriter_def writeQueuedOutboundDataPackets_def
          writerDistance_def outstanding_def WriterWrites leaving_def Let_def)
  next
    case (WriterChecked ps rest)
    have "ps \<noteq> []" using outbound_okD(2) [OF ok] WriterChecked unfolding owners_ok_def by blast
    then show ?thesis
      by (simp add: writerGoesOn_def writeQueuedOutboundDataPackets_def failQueuedOutboundDataPackets_def writerDistance_def
          outstanding_def WriterChecked leaving_def)
  next
    case (WriterCompletes err ps rest)
    then show ?thesis
      by (cases ps) (simp_all add: writerGoesOn_def completeQueued_def writerDistance_def outstanding_def leaving_def)
  next
    case (WriterReleases err ps rest)
    have "slotsTaken w \<noteq> 0" using outbound_okD(6) [OF ok] by (simp add: slots_ok_def WriterReleases)
    then show ?thesis
      using WriterReleases by (simp add: writerGoesOn_def completeQueued_def writerDistance_def outstanding_def leaving_def)
  next
    case (WriterPopped ps)
    then show ?thesis
      by (simp add: writerGoesOn_def runOutgoingDataPacketWriter_def failQueuedOutboundDataPackets_def writerDistance_def
          outstanding_def leaving_def)
  qed (use stays Wake_keeps(2) [OF q] in \<open>simp_all add: writerGoesOn_def runOutgoingDataPacketWriter_def writerDistance_def outstanding_def leaving_def\<close>)
  then show "writerDistance (writerGoesOn zero e w) < writerDistance w" "\<not> leaving (writerGoesOn zero e w)"
    "calls (writerGoesOn zero e w) = calls w" by blast+
qed

lemma writer_gets_on:
  assumes "outbound_ok w" "\<not> leaving w"
  shows "\<exists>n. outbound_ok ((writerGoesOn zero e ^^ n) w) \<and> outstanding ((writerGoesOn zero e ^^ n) w) = [] \<and>
    calls ((writerGoesOn zero e ^^ n) w) = calls w"
  using assms
proof (induction "writerDistance w" arbitrary: w rule: less_induct)
  case less
  show ?case
  proof (cases "outstanding w = []")
    case True
    then show ?thesis using less.prems(1) by (intro exI [where x = 0]) simp
  next
    case False
    note near = writerGoesOn_nearer [OF less.prems(1) False less.prems(2), of zero e]
    have "outbound_ok (writerGoesOn zero e w)" by (rule outbound_step_ok [OF writerGoesOn_step less.prems(1)])
    from less.hyps [OF near(1) this near(2)] obtain n where
      "outbound_ok ((writerGoesOn zero e ^^ n) (writerGoesOn zero e w)) \<and> outstanding ((writerGoesOn zero e ^^ n) (writerGoesOn zero e w)) = [] \<and>
       calls ((writerGoesOn zero e ^^ n) (writerGoesOn zero e w)) = calls w"
      using near(3) by auto
    then show ?thesis by (intro exI [where x = "Suc n"]) (simp add: funpow_swap1)
  qed
qed

subsection \<open>A packet that is left behind\<close>

definition abandoned :: "'b writing \<Rightarrow> nat \<Rightarrow> bool" where
  "abandoned w i \<longleftrightarrow> writer w = WriterExited \<and> calling i (queued (outgoing w)) \<noteq> []"

lemma abandoned_step:
  assumes ok: "outbound_ok w" and "abandoned w i" "outbound_step zero w w'"
  shows "abandoned w' i"
proof -
  have q: "ring (outgoing w)" "channel_ok (outgoing w)" using outbound_okD(1) [OF ok] by (simp_all add: queue_ok_def)
  have exited: "writer w = WriterExited" using assms(2) by (simp add: abandoned_def)
  from assms(3) have "writer w' = WriterExited \<and> (\<exists>ps. queued (outgoing w') = queued (outgoing w) @ ps)"
  proof cases
    case (call_goes_on preferClosed j)
    have "\<exists>ps. queued q' = queued (outgoing w) @ ps" if "pushRound (outgoing w) False p = (q', r)" for p q' r
      using pushRound_ring(2) [OF q that] by blast
    then show ?thesis unfolding call_goes_on
      by (auto simp: exited enqueueOutboundDataPacketBuffers_def failUnqueuedOutboundDataPackets_def waitCompletion_def
          split: call_state.split list.split prod.split push_round.split)
  qed (simp_all add: exited beginEnqueue_def runOutgoingDataPacketWriter_def writeQueuedOutboundDataPackets_def completeQueued_def Close_keeps(2) [OF q])
  then show ?thesis using assms(2) by (auto simp: abandoned_def)
qed

lemma abandoned_waits:
  assumes "(outbound_step zero)\<^sup>*\<^sup>* w w'" "outbound_ok w" "abandoned w i"
  shows "\<forall>r. calls w' i \<noteq> CallReturned r"
proof -
  have "outbound_ok w' \<and> abandoned w' i"
    using assms by (induction rule: rtranclp_induct) (auto intro: outbound_step_ok abandoned_step)
  then have "outbound_ok w'" "calling i (outstanding w') \<noteq> []" by (auto simp: abandoned_def outstanding_def)
  then show ?thesis using answered_exactly(2) by metis
qed

text \<open>What an entry point enqueues would be current at that moment; what it writes directly is current when it is written.\<close>

lemma enqueued_current:
  assumes "client_ok c" "WriteDataPacketsAtRevision ready packets r c = Enqueues s n r' ps \<or> clientWriteDataPacketBuffers ready packets c = Enqueues s n r' ps"
    "p \<in> set (outboundPackets s n r' ps i)"
  shows "outboundDataPacketCurrent ready p c"
  using assms
  by (auto simp: WriteDataPacketsAtRevision_def clientWriteDataPacketBuffers_def readySessionAtRevision_def readySessionSnapshot_def
      outboundPackets_def outboundDataPacketCurrent_def isReady_def client_ok_def split: if_split_asm option.split_asm)

lemma direct_current:
  assumes "WriteDataPacketsDirectAtRevision ready ready' packets r c c' = WritesDirectly s ps"
  shows "isReady ready' c' \<and> publishedSession c' = Some s \<and> publishedSessionRevision c' = r \<and> ps = packets"
  using assms
  by (auto simp: WriteDataPacketsDirectAtRevision_def outboundDataPacketCurrent_def isReady_def split: if_split_asm option.split_asm)


section \<open>Property\<close>

text \<open>C22: However the calls, the writer and the closing of the client run beside each other, the completion of a call is
  sent exactly one result, its first error, and this as soon as none of its packets is left to it or to the writer. What
  the call returns is that result; when it is no error, every packet of the call was handed to a session, once and in order.
  Packets are handed over in the order in which they were pushed; the slots taken are exactly those of packets that are
  pushed and not completed, of a packet the writer just completed and of calls that push, so that a push always finds room and
  the writer never sleeps while something is queued or the queue is closed. From every state but the ones named next, the writer
  completes all that was pushed. When it has found the queue empty and then closed it returns; a packet that was pushed in between
  is never completed, and its call never returns.
\<close>

theorem outbound_answered_once:
  assumes "outbound_run zero capacity w" "calls w i \<noteq> CallIdle"
  shows "completionDone (completions w i) =
      (if calling i (outstanding w) = [] \<and> callPackets (calls w i) = [] then [completionErr (completions w i)] else []) \<and>
    (\<forall>r. calls w i = CallReturned r \<longrightarrow> completionDone (completions w i) = [r] \<and>
      (r = None \<longrightarrow> calling i (sent w) = askedPackets w i)) \<and>
    subseq (sent w) (pushedPackets w) \<and>
    slotsTaken w = length (outstanding w) + writerOwes (writer w) + card (holders w) \<and> slotsTaken w \<le> capacity \<and>
    (callHolds (calls w i) \<longrightarrow> queueLength (outgoing w) < length (items (outgoing w))) \<and>
    (writer w = WriterListens \<longrightarrow> queued (outgoing w) \<noteq> [] \<or> Closed (outgoing w) \<longrightarrow> signalled (notEmpty (outgoing w))) \<and>
    (writer w \<noteq> WriterExited \<and> (writer w = WriterEmpty \<longrightarrow> \<not> Closed (outgoing w)) \<longrightarrow>
      (\<exists>n. outstanding ((writerGoesOn zero e ^^ n) w) = [] \<and>
        (callPackets (calls w i) = [] \<longrightarrow> (\<exists>r. completionDone (completions ((writerGoesOn zero e ^^ n) w) i) = [r])))) \<and>
    (writer w = WriterExited \<and> calling i (queued (outgoing w)) \<noteq> [] \<longrightarrow>
      (\<forall>w'. (outbound_step zero)\<^sup>*\<^sup>* w w' \<longrightarrow> (\<forall>r. calls w' i \<noteq> CallReturned r)))"
proof -
  have ok: "outbound_ok w" and cap: "slotCapacity w = capacity" using outbound_run_ok [OF assms(1)] by simp_all
  note o = outbound_okD [OF ok]
  have "\<forall>r. calls w i = CallReturned r \<longrightarrow> completionDone (completions w i) = [r] \<and> (r = None \<longrightarrow> calling i (sent w) = askedPackets w i)"
    using answered_exactly [OF ok] by blast
  moreover have "subseq (sent w) (pushedPackets w)"
    using o(5) unfolding ordered_def line_def by (rule subseq_order.trans [OF subseq_prefix])
  moreover have "callHolds (calls w i) \<longrightarrow> queueLength (outgoing w) < length (items (outgoing w))"
    using slot_has_room [OF o(6), of i] o(1) by (simp add: queue_ok_def)
  moreover have "writer w = WriterListens \<longrightarrow> queued (outgoing w) \<noteq> [] \<or> Closed (outgoing w) \<longrightarrow> signalled (notEmpty (outgoing w))"
    using o(1) by (auto simp: queue_ok_def consumer_ok_def Closed_def queued_def)
  moreover have "\<exists>n. outstanding ((writerGoesOn zero e ^^ n) w) = [] \<and>
      (callPackets (calls w i) = [] \<longrightarrow> (\<exists>r. completionDone (completions ((writerGoesOn zero e ^^ n) w) i) = [r]))"
    if stays: "writer w \<noteq> WriterExited \<and> (writer w = WriterEmpty \<longrightarrow> \<not> Closed (outgoing w))"
  proof -
    obtain n where n: "outbound_ok ((writerGoesOn zero e ^^ n) w)" "outstanding ((writerGoesOn zero e ^^ n) w) = []"
      "calls ((writerGoesOn zero e ^^ n) w) = calls w"
      using writer_gets_on [OF ok, of zero e] stays by (auto simp: leaving_def)
    then show ?thesis using counted_done [OF outbound_okD(3) [OF n(1)], of i] assms(2) by (intro exI [where x = n]) simp
  qed
  moreover have "\<forall>w'. (outbound_step zero)\<^sup>*\<^sup>* w w' \<longrightarrow> (\<forall>r. calls w' i \<noteq> CallReturned r)"
    if "writer w = WriterExited \<and> calling i (queued (outgoing w)) \<noteq> []"
    using abandoned_waits [OF _ ok, of zero] that by (simp add: abandoned_def)
  ultimately show ?thesis using counted_done [OF o(3) assms(2)] o(6) cap unfolding slots_ok_def by blast
qed

subsection \<open>Two runs\<close>

text \<open>The writer has found the queue empty; a packet is pushed, and the client is closed before the writer looks again.\<close>

definition zeroOutbound :: "nat outboundDataPacket" where
  "zeroOutbound = \<lparr>outSession = 0, outGeneration = 0, outRevision = 0, outBuffer = 0, outCompletion = 0\<rparr>"

definition pushedRun :: "nat writing" where
  "pushedRun = enqueueOutboundDataPacketBuffers False 0 (enqueueOutboundDataPacketBuffers False 0
     (beginEnqueue 5 1 1 [10] 0 (runOutgoingDataPacketWriter zeroOutbound (newWriting zeroOutbound 1))))"

definition abandonedRun :: "nat writing" where
  "abandonedRun = runOutgoingDataPacketWriter zeroOutbound (pushedRun\<lparr>outgoing := Close (outgoing pushedRun)\<rparr>)"

text \<open>When the client stays open, the writer completes the packet; what it finds when it writes does not matter.\<close>

definition openEnv :: write_env where
  "openEnv = \<lparr>envReady = (\<lambda>_. True), envClient = newClient Map.empty, envResult = None\<rparr>"

lemma pushedRun_run: "outbound_run zeroOutbound 1 pushedRun"
proof -
  have "outbound_run zeroOutbound 1 (runOutgoingDataPacketWriter zeroOutbound (newWriting zeroOutbound 1))" (is "outbound_run _ _ ?w")
    by (rule run_step [OF run_new writer_runs])
  moreover have "calls ?w 0 = CallIdle"
    by (simp add: runOutgoingDataPacketWriter_def newWriting_def split: prod.split)
  ultimately show ?thesis unfolding pushedRun_def
    by (intro run_step [OF run_step [OF run_step [OF _ call_begins] call_goes_on] call_goes_on]) (simp_all only: list.distinct not_False_eq_True)
qed

lemma abandonedRun_run: "outbound_run zeroOutbound 1 abandonedRun"
  unfolding abandonedRun_def by (rule run_step [OF run_step [OF pushedRun_run client_closes] writer_runs])

theorem outbound_answered_once_witness:
  "(\<exists>n r. outstanding ((writerGoesOn zeroOutbound openEnv ^^ n) pushedRun) = [] \<and>
     completionDone (completions ((writerGoesOn zeroOutbound openEnv ^^ n) pushedRun) 0) = [r]) \<and>
   {r. \<exists>w'. (outbound_step zeroOutbound)\<^sup>*\<^sup>* abandonedRun w' \<and> calls w' 0 = CallReturned r} = {}"
proof -
  have p: "calls pushedRun 0 \<noteq> CallIdle" "writer pushedRun = WriterEmpty" "\<not> Closed (outgoing pushedRun)" "callPackets (calls pushedRun 0) = []"
    by code_simp+
  have a: "calls abandonedRun 0 \<noteq> CallIdle" "writer abandonedRun = WriterExited" "calling 0 (queued (outgoing abandonedRun)) \<noteq> []"
    by code_simp+
  show ?thesis
    using outbound_answered_once [OF pushedRun_run p(1), of openEnv] outbound_answered_once [OF abandonedRun_run a(1), of openEnv] p a by auto
qed

end
