(* ===== verification/Auth_Form.thy ===== *)
theory Auth_Form
  imports Client_State
begin

text \<open>
  Authentication forms (\<^verbatim>\<open>auth_form.go\<close>): what a front end asks for is answered from the configured
  entries, the stable credentials and the token generators as far as possible; the rest is put to the
  application as a challenge, whose answer is validated. A map of Go is a function to options, or the
  list of its entries where the code iterates over it: the order of the list, which Go leaves open,
  only decides which of several errors is returned.
\<close>

section \<open>Definitions\<close>

subsection \<open>Data\<close>

definition AuthFormFieldText :: string where "AuthFormFieldText = ''text''"
definition AuthFormFieldPassword :: string where "AuthFormFieldPassword = ''password''"
definition AuthFormFieldSelect :: string where "AuthFormFieldSelect = ''select''"
definition authFormFieldHidden :: string where "authFormFieldHidden = ''hidden''"
definition authFormFieldToken :: string where "authFormFieldToken = ''token''"

lemmas kind_defs = AuthFormFieldText_def AuthFormFieldPassword_def AuthFormFieldSelect_def authFormFieldHidden_def authFormFieldToken_def

record AuthFormChoice =
  choiceValue :: string
  choiceLabel :: string

record AuthFormField =
  fieldSubmissionKey :: string
  fieldName :: string
  fieldLabel :: string
  fieldKind :: string
  fieldValue :: string
  fieldOptions :: "AuthFormChoice list"

record FormEntry =
  entryFormID :: string
  entrySubmissionKey :: string
  entryName :: string
  entryValue :: string
  entryPromote :: bool

record BrowserRequest =
  browserURL :: string
  browserFinalURL :: string
  CallbackURLPrefixes :: "string list"
  CookieNames :: "string list"
  EarlyCookieNames :: "string list"
  HeaderNames :: "string list"

record BrowserCookie =
  cookieName :: string
  cookieValue :: string

text \<open>Of the headers only their names are looked at here.\<close>

record BrowserResult =
  resultFinalURL :: string
  resultCookies :: "BrowserCookie list"
  resultHeader :: "string list"

record AuthResponse =
  responseForm :: "(string \<times> string) list option"
  responseBrowser :: "BrowserResult option"

text \<open>\<open>requestAutomatic\<close> is \<open>nil\<close> or what the generator returns when it is called.\<close>

record authenticationRequestField =
  requestSubmissionKey :: string
  requestName :: string
  requestLabel :: string
  requestKind :: string
  requestValue :: string
  requestOptions :: "AuthFormChoice list"
  requestCacheKey :: string
  requestAutomatic :: "string result option"

record authenticationRequest =
  requestFormID :: string
  requestBrowser :: "BrowserRequest option"
  requestFields :: "authenticationRequestField list"
  requestClearCacheKeys :: "string list"

record authenticationResponse =
  responseValues :: "string \<rightharpoonup> string"
  responseBrowserResult :: "BrowserResult option"

subsection \<open>Fields\<close>

fun itoa :: "nat \<Rightarrow> string" where
  "itoa n = (if n < 10 then [char_of (48 + n)] else itoa (n div 10) @ [char_of (48 + n mod 10)])"

declare itoa.simps [simp del]

definition authFormChoiceContains :: "AuthFormChoice list \<Rightarrow> string \<Rightarrow> bool" where
  "authFormChoiceContains choices v \<longleftrightarrow> list_ex (\<lambda>c. choiceValue c = v) choices"

definition formEntry :: "FormEntry list \<Rightarrow> string \<Rightarrow> string \<Rightarrow> string \<Rightarrow> FormEntry option" where
  "formEntry entries formID key name =
     (case List.find (\<lambda>e. entrySubmissionKey e \<noteq> '''' \<and> entrySubmissionKey e = key) (rev entries) of
        Some e \<Rightarrow> Some e
      | None \<Rightarrow> List.find (\<lambda>e. entrySubmissionKey e = '''' \<and> entryFormID e = formID \<and> entryName e = name) (rev entries))"

definition prefillAuthField :: "FormEntry list \<Rightarrow> (string \<rightharpoonup> string) \<Rightarrow> string \<Rightarrow> authenticationRequestField \<Rightarrow> string \<times> bool" where
  "prefillAuthField entries credentials formID f =
     (case formEntry entries formID (requestSubmissionKey f) (requestName f) of
        Some e \<Rightarrow>
          if \<not> entryPromote e then (entryValue e, True)
          else if requestCacheKey f \<noteq> '''' \<and> credentials (requestCacheKey f) \<noteq> None
          then (the (credentials (requestCacheKey f)), True) else (requestValue f, False)
      | None \<Rightarrow>
          if requestCacheKey f \<noteq> '''' \<and> credentials (requestCacheKey f) \<noteq> None
          then (the (credentials (requestCacheKey f)), True) else (requestValue f, False))"

text \<open>The variables of the loop over the fields.\<close>

record form_state =
  formValues :: "string \<rightharpoonup> string"
  visibleFields :: "AuthFormField list"
  seenKeys :: "string list"
  allVisibleFieldsAutomatic :: bool

definition emptyForm :: form_state where
  "emptyForm = \<lparr>formValues = Map.empty, visibleFields = [], seenKeys = [], allVisibleFieldsAutomatic = True\<rparr>"

definition withKey :: "string \<Rightarrow> nat \<Rightarrow> authenticationRequestField \<Rightarrow> authenticationRequestField" where
  "withKey formID i f =
     (if requestSubmissionKey f = '''' then f\<lparr>requestSubmissionKey := formID @ '':'' @ requestName f @ '':'' @ itoa i\<rparr> else f)"

definition visibleField :: "authenticationRequestField \<Rightarrow> string \<Rightarrow> string \<Rightarrow> AuthFormField" where
  "visibleField f kind v = \<lparr>fieldSubmissionKey = requestSubmissionKey f, fieldName = requestName f, fieldLabel = requestLabel f,
     fieldKind = kind, fieldValue = v, fieldOptions = requestOptions f\<rparr>"

text \<open>One field, whose key has been set: its value and whether it needs no answer, and what it adds to the form.\<close>

definition fieldInput :: "FormEntry list \<Rightarrow> (string \<rightharpoonup> string) \<Rightarrow> string \<Rightarrow> authenticationRequestField \<Rightarrow> string \<times> bool \<times> bool" where
  "fieldInput entries credentials formID f =
     (case prefillAuthField entries credentials formID f of (v, automatic) \<Rightarrow>
        let automatic = (automatic \<or> requestAutomatic f \<noteq> None) in
        case formEntry entries formID (requestSubmissionKey f) (requestName f) of
          None \<Rightarrow> (v, automatic, False)
        | Some e \<Rightarrow> if entryPromote e then (v, automatic, True) else (entryValue e, True, False))"

definition addField :: "FormEntry list \<Rightarrow> (string \<rightharpoonup> string) \<Rightarrow> string \<Rightarrow> authenticationRequestField \<Rightarrow> form_state \<Rightarrow> form_state result" where
  "addField entries credentials formID f st =
     (if requestSubmissionKey f \<in> set (seenKeys st)
      then Inl (markTerminal (New ''duplicate openconnect authentication submission key: ''))
      else
        let st = st\<lparr>seenKeys := requestSubmissionKey f # seenKeys st\<rparr> in
        case fieldInput entries credentials formID f of (v, automatic, promote) \<Rightarrow>
          if requestKind f = authFormFieldToken \<and> requestAutomatic f = None \<and> v = ''''
          then Inl (markTerminal (New ''token field has no automatic token generator: ''))
          else if (requestKind f = authFormFieldHidden \<and> \<not> promote) \<or> requestKind f = authFormFieldToken
          then Inr (if requestAutomatic f = None then st\<lparr>formValues := (formValues st)(requestSubmissionKey f \<mapsto> v)\<rparr> else st)
          else
            let kind = (if requestKind f = authFormFieldHidden then AuthFormFieldText else requestKind f) in
            if kind \<noteq> AuthFormFieldText \<and> kind \<noteq> AuthFormFieldPassword \<and> kind \<noteq> AuthFormFieldSelect
            then Inl (markTerminal (New ''unsupported openconnect authentication field kind: ''))
            else
              let automatic = (automatic \<and> \<not> (kind = AuthFormFieldSelect \<and> \<not> authFormChoiceContains (requestOptions f) v));
                  st = (if automatic \<and> requestAutomatic f = None then st\<lparr>formValues := (formValues st)(requestSubmissionKey f \<mapsto> v)\<rparr>
                        else st\<lparr>allVisibleFieldsAutomatic := False\<rparr>)
              in Inr (st\<lparr>visibleFields := visibleFields st @ [visibleField f kind v]\<rparr>))"

fun addFields :: "FormEntry list \<Rightarrow> (string \<rightharpoonup> string) \<Rightarrow> string \<Rightarrow> authenticationRequestField list \<Rightarrow> form_state \<Rightarrow> form_state result" where
  "addFields entries credentials formID [] st = Inr st"
| "addFields entries credentials formID (f # fs) st =
     (case addField entries credentials formID f st of Inl e \<Rightarrow> Inl e | Inr st' \<Rightarrow> addFields entries credentials formID fs st')"

fun keyed :: "string \<Rightarrow> nat \<Rightarrow> authenticationRequestField list \<Rightarrow> authenticationRequestField list" where
  "keyed formID i [] = []"
| "keyed formID i (f # fs) = withKey formID i f # keyed formID (Suc i) fs"

fun evaluateAutomaticFields :: "authenticationRequestField list \<Rightarrow> (string \<rightharpoonup> string) \<Rightarrow> (string \<rightharpoonup> string) result" where
  "evaluateAutomaticFields [] m = Inr m"
| "evaluateAutomaticFields (f # fs) m =
     (case requestAutomatic f of
        None \<Rightarrow> evaluateAutomaticFields fs m
      | Some (Inl e) \<Rightarrow> Inl e
      | Some (Inr v) \<Rightarrow> evaluateAutomaticFields fs (m(requestSubmissionKey f \<mapsto> v)))"

subsection \<open>Browser requests and results\<close>

text \<open>Names of headers are ASCII, where \<open>strings.EqualFold\<close> compares letters without their case.\<close>

definition asciiLower :: "char \<Rightarrow> char" where
  "asciiLower c = (if 65 \<le> (of_char c :: nat) \<and> (of_char c :: nat) \<le> 90 then char_of ((of_char c :: nat) + 32) else c)"

definition ToLower :: "string \<Rightarrow> string" where
  "ToLower s = map asciiLower s"

definition EqualFold :: "string \<Rightarrow> string \<Rightarrow> bool" where
  "EqualFold s t \<longleftrightarrow> ToLower s = ToLower t"

fun invalidStringList :: "bool \<Rightarrow> string list \<Rightarrow> string list \<Rightarrow> bool" where
  "invalidStringList caseless previous [] = False"
| "invalidStringList caseless previous (v # vs) =
     (v = '''' \<or> list_ex (\<lambda>p. p = v \<or> (caseless \<and> EqualFold p v)) previous \<or> invalidStringList caseless (previous @ [v]) vs)"

definition containsFold :: "string list \<Rightarrow> string \<Rightarrow> bool" where
  "containsFold vs target \<longleftrightarrow> list_ex (\<lambda>v. EqualFold v target) vs"

datatype browserAuthenticationMode =
    browserAuthenticationModeCallback
  | browserAuthenticationModeCookies
  | browserAuthenticationModeHeaders

definition validateBrowserRequest :: "BrowserRequest \<Rightarrow> browserAuthenticationMode result" where
  "validateBrowserRequest r =
     (if browserURL r = '''' then Inl (New ''openconnect browser request omitted its URL'')
      else
        let callbackMode = CallbackURLPrefixes r \<noteq> [];
            cookieMode = (browserFinalURL r \<noteq> '''' \<or> CookieNames r \<noteq> [] \<or> EarlyCookieNames r \<noteq> []);
            headerMode = HeaderNames r \<noteq> []
        in
          if length (filter id [callbackMode, cookieMode, headerMode]) \<noteq> 1
          then Inl (New ''openconnect browser request must select exactly one completion mode'')
          else if callbackMode then
            if browserFinalURL r \<noteq> '''' \<or> CookieNames r \<noteq> [] \<or> EarlyCookieNames r \<noteq> [] \<or> HeaderNames r \<noteq> []
            then Inl (New ''openconnect callback browser request contains fields from another completion mode'')
            else if invalidStringList False [] (CallbackURLPrefixes r)
            then Inl (New ''openconnect callback browser request contains an empty or duplicate URL prefix'')
            else Inr browserAuthenticationModeCallback
          else if cookieMode then
            if browserFinalURL r = '''' \<or> CookieNames r = [] \<or> CallbackURLPrefixes r \<noteq> [] \<or> HeaderNames r \<noteq> []
            then Inl (New ''openconnect cookie browser request requires only a final URL and cookie names'')
            else if invalidStringList False [] (CookieNames r)
            then Inl (New ''openconnect cookie browser request contains an empty or duplicate cookie name'')
            else if invalidStringList False [] (EarlyCookieNames r)
            then Inl (New ''openconnect cookie browser request contains an empty or duplicate early cookie name'')
            else if list_ex (\<lambda>c. c \<in> set (CookieNames r)) (EarlyCookieNames r)
            then Inl (New ''openconnect cookie browser request repeats an early cookie in its final cookie names'')
            else Inr browserAuthenticationModeCookies
          else if browserFinalURL r \<noteq> '''' \<or> CallbackURLPrefixes r \<noteq> [] \<or> CookieNames r \<noteq> [] \<or> EarlyCookieNames r \<noteq> []
          then Inl (New ''openconnect header browser request contains fields from another completion mode'')
          else if invalidStringList True [] (HeaderNames r)
          then Inl (New ''openconnect header browser request contains an empty or duplicate header name'')
          else Inr browserAuthenticationModeHeaders)"

fun checkCookies :: "string list \<Rightarrow> string list \<Rightarrow> BrowserCookie list \<Rightarrow> go_error option" where
  "checkCookies names seen [] = None"
| "checkCookies names seen (c # cs) =
     (if cookieName c = '''' \<or> cookieValue c = '''' \<or> cookieName c \<notin> set names
      then Some (Joined [Sentinel ErrInvalidBrowserAuthentication, New ''browser result contains an unrequested cookie''])
      else if cookieName c \<in> set seen
      then Some (Joined [Sentinel ErrInvalidBrowserAuthentication, New ''browser result contains a duplicate cookie''])
      else checkCookies names (cookieName c # seen) cs)"

fun checkHeaders :: "string list \<Rightarrow> string list \<Rightarrow> string list \<Rightarrow> go_error option" where
  "checkHeaders names seen [] = None"
| "checkHeaders names seen (h # hs) =
     (if \<not> containsFold names h
      then Some (Joined [Sentinel ErrInvalidBrowserAuthentication, New ''browser result contains an unrequested header''])
      else if ToLower h \<in> set seen
      then Some (Joined [Sentinel ErrInvalidBrowserAuthentication, New ''browser result contains a duplicate header''])
      else checkHeaders names (ToLower h # seen) hs)"

definition validateBrowserResponse :: "BrowserRequest \<Rightarrow> browserAuthenticationMode \<Rightarrow> AuthResponse \<Rightarrow> go_error option" where
  "validateBrowserResponse request mode response =
     (case responseBrowser response of
        None \<Rightarrow> Some (Sentinel ErrInvalidAuthResponse)
      | Some r \<Rightarrow>
          if responseForm response \<noteq> None then Some (Sentinel ErrInvalidAuthResponse)
          else case mode of
            browserAuthenticationModeCallback \<Rightarrow>
              if resultFinalURL r = '''' \<or> resultCookies r \<noteq> [] \<or> resultHeader r \<noteq> []
              then Some (Sentinel ErrInvalidBrowserAuthentication)
              else if list_ex (\<lambda>p. take (length p) (resultFinalURL r) = p) (CallbackURLPrefixes request) then None
              else Some (Joined [Sentinel ErrInvalidBrowserAuthentication, New ''browser callback URL did not match an accepted prefix''])
          | browserAuthenticationModeCookies \<Rightarrow>
              if resultFinalURL r = '''' \<and> resultHeader r = [] \<and> length (resultCookies r) = 1 \<and>
                 cookieValue (hd (resultCookies r)) \<noteq> '''' \<and> cookieName (hd (resultCookies r)) \<in> set (EarlyCookieNames request)
              then None
              else if resultFinalURL r \<noteq> browserFinalURL request \<or> resultCookies r = [] \<or> resultHeader r \<noteq> []
              then Some (Sentinel ErrInvalidBrowserAuthentication)
              else checkCookies (CookieNames request) [] (resultCookies r)
          | browserAuthenticationModeHeaders \<Rightarrow>
              if resultFinalURL r \<noteq> '''' \<or> resultCookies r \<noteq> [] \<or> resultHeader r = []
              then Some (Sentinel ErrInvalidBrowserAuthentication)
              else checkHeaders (HeaderNames request) [] (resultHeader r))"

subsection \<open>Form responses\<close>

definition unknownKey :: "AuthFormField list \<Rightarrow> (string \<times> string) list \<Rightarrow> bool" where
  "unknownKey asked vals \<longleftrightarrow> list_ex (\<lambda>(k, v). k \<notin> set (map fieldSubmissionKey asked)) vals"

fun checkFields :: "AuthFormField list \<Rightarrow> (string \<times> string) list \<Rightarrow> go_error option" where
  "checkFields [] vals = None"
| "checkFields (f # fs) vals =
     (case map_of vals (fieldSubmissionKey f) of
        None \<Rightarrow> Some (New ''missing openconnect authentication submission key: '')
      | Some v \<Rightarrow>
          if fieldKind f = AuthFormFieldSelect \<and> \<not> authFormChoiceContains (fieldOptions f) v
          then Some (New ''invalid openconnect authentication selection for submission key: '')
          else checkFields fs vals)"

definition validateAuthFormValues :: "AuthFormField list \<Rightarrow> (string \<times> string) list \<Rightarrow> go_error option" where
  "validateAuthFormValues asked vals =
     (if unknownKey asked vals then Some (New ''unknown openconnect authentication submission key: '') else checkFields asked vals)"

definition validateFormResponse :: "AuthFormField list \<Rightarrow> AuthResponse \<Rightarrow> go_error option" where
  "validateFormResponse asked response =
     (case responseForm response of
        None \<Rightarrow> Some (Sentinel ErrInvalidAuthResponse)
      | Some vals \<Rightarrow> if responseBrowser response \<noteq> None then Some (Sentinel ErrInvalidAuthResponse) else validateAuthFormValues asked vals)"

subsection \<open>Waiting for an answer\<close>

text \<open>
  \<open>awaitAuthChallenge\<close> up to its \<open>select\<close>: it fails, answers by itself, or publishes a challenge and
  waits. The fields it goes on with are those whose keys were set.
\<close>

datatype await_start =
    AwaitFails go_error
  | AwaitAnswers authenticationResponse
  | AwaitForm "AuthFormField list" "string \<rightharpoonup> string"
  | AwaitBrowser BrowserRequest browserAuthenticationMode "string \<rightharpoonup> string"

definition answerWith :: "authenticationRequestField list \<Rightarrow> (string \<rightharpoonup> string) \<Rightarrow> BrowserResult option \<Rightarrow> authenticationResponse result" where
  "answerWith asked m browser =
     (case evaluateAutomaticFields asked m of
        Inl e \<Rightarrow> Inl e
      | Inr m' \<Rightarrow> Inr \<lparr>responseValues = m', responseBrowserResult = browser\<rparr>)"

definition beginAwait :: "bool \<Rightarrow> FormEntry list \<Rightarrow> authenticationRequest \<Rightarrow> client \<Rightarrow> client \<times> await_start" where
  "beginAwait passwordDisabled entries request c =
     (if passwordDisabled
      then (c, AwaitFails (markTerminal (Joined [Sentinel ErrAuthenticationFailed,
             New ''server requested an authentication form while password authentication is disabled''])))
      else
        let c = clearStableCredentials (requestClearCacheKeys request) c;
            asked = keyed (requestFormID request) 0 (requestFields request)
        in (c,
          case addFields entries (stableCredentials c) (requestFormID request) asked emptyForm of
            Inl e \<Rightarrow> AwaitFails e
          | Inr st \<Rightarrow>
              (case requestBrowser request of
                 Some b \<Rightarrow>
                   (case validateBrowserRequest b of
                      Inl e \<Rightarrow> AwaitFails (markTerminal e)
                    | Inr mode \<Rightarrow> AwaitBrowser b mode (formValues st))
               | None \<Rightarrow>
                   if requestFields request \<noteq> [] \<and> (visibleFields st = [] \<or> allVisibleFieldsAutomatic st)
                   then (case answerWith asked (formValues st) None of Inl e \<Rightarrow> AwaitFails e | Inr r \<Rightarrow> AwaitAnswers r)
                   else AwaitForm (visibleFields st) (formValues st))))"

text \<open>What ends the wait, and what is returned then. The continuation's error is \<open>None\<close> when its channel was closed.\<close>

datatype await_end =
    ContextEnds go_error
  | Canceled
  | ContinuationEnds bool "go_error option"
  | Responds AuthResponse

definition storeStableCredential :: "string \<Rightarrow> string \<Rightarrow> client \<Rightarrow> client" where
  "storeStableCredential key v c = c\<lparr>stableCredentials := (stableCredentials c)(key \<mapsto> v)\<rparr>"

fun storeResponse :: "authenticationRequestField list \<Rightarrow> (string \<times> string) list \<Rightarrow> (string \<rightharpoonup> string) \<Rightarrow> client \<Rightarrow> (string \<rightharpoonup> string) \<times> client" where
  "storeResponse [] vals m c = (m, c)"
| "storeResponse (f # fs) vals m c =
     (case map_of vals (requestSubmissionKey f) of
        None \<Rightarrow> storeResponse fs vals m c
      | Some v \<Rightarrow> storeResponse fs vals (m(requestSubmissionKey f \<mapsto> v))
          (if requestCacheKey f \<noteq> '''' then storeStableCredential (requestCacheKey f) v c else c))"

definition endedWithout :: "string \<Rightarrow> await_end \<Rightarrow> go_error option" where
  "endedWithout pending e =
     (case e of
        ContextEnds err \<Rightarrow> Some err
      | Canceled \<Rightarrow> Some (Sentinel ErrAuthChallengeCanceled)
      | ContinuationEnds canceled err \<Rightarrow>
          Some (if canceled then Sentinel ErrAuthChallengeCanceled
                else case err of Some e \<Rightarrow> e | None \<Rightarrow> markTerminal (New (''authentication continuation closed while a '' @ pending @ '' was pending'')))
      | Responds r \<Rightarrow> None)"

definition finishForm :: "authenticationRequestField list \<Rightarrow> (string \<rightharpoonup> string) \<Rightarrow> await_end \<Rightarrow> client \<Rightarrow> client \<times> authenticationResponse result" where
  "finishForm asked m e c =
     (case e of
        Responds r \<Rightarrow> (case storeResponse asked (the (responseForm r)) m c of (m', c') \<Rightarrow> (c', answerWith asked m' None))
      | _ \<Rightarrow> (c, Inl (the (endedWithout ''form'' e))))"

definition finishBrowser :: "authenticationRequestField list \<Rightarrow> (string \<rightharpoonup> string) \<Rightarrow> await_end \<Rightarrow> authenticationResponse result" where
  "finishBrowser asked m e =
     (case e of
        Responds r \<Rightarrow> answerWith asked m (responseBrowser r)
      | _ \<Rightarrow> Inl (the (endedWithout ''browser challenge'' e)))"

text \<open>
  The whole of it; \<open>c'\<close> is the client when the wait ends. \<open>CompleteAuthChallenge\<close> only lets a response
  through that was validated, which is \<open>accepts\<close>.
\<close>

definition accepts :: "await_start \<Rightarrow> await_end \<Rightarrow> bool" where
  "accepts start e \<longleftrightarrow>
     (case e of
        Responds r \<Rightarrow>
          (case start of
             AwaitForm asked m \<Rightarrow> validateFormResponse asked r = None
           | AwaitBrowser b mode m \<Rightarrow> validateBrowserResponse b mode r = None
           | _ \<Rightarrow> False)
      | _ \<Rightarrow> True)"

definition awaitAuthChallenge :: "authenticationRequest \<Rightarrow> await_start \<Rightarrow> await_end \<Rightarrow> client \<Rightarrow> client \<times> authenticationResponse result" where
  "awaitAuthChallenge request start e c' =
     (let asked = keyed (requestFormID request) 0 (requestFields request) in
      case start of
        AwaitFails err \<Rightarrow> (c', Inl err)
      | AwaitAnswers r \<Rightarrow> (c', Inr r)
      | AwaitForm visible m \<Rightarrow> finishForm asked m e c'
      | AwaitBrowser b mode m \<Rightarrow> (c', finishBrowser asked m e))"

section \<open>What the loop over the fields collects\<close>

definition keysOf :: "authenticationRequestField list \<Rightarrow> string list" where
  "keysOf asked = map requestSubmissionKey asked"

definition chosen :: "AuthFormChoice list \<Rightarrow> string option \<Rightarrow> bool" where
  "chosen choices v \<longleftrightarrow> (case v of None \<Rightarrow> False | Some v \<Rightarrow> authFormChoiceContains choices v)"

lemma chosen_Some [simp]: "chosen choices (Some v) = authFormChoiceContains choices v" "chosen choices None = False"
  by (simp_all add: chosen_def)

text \<open>
  Every field is answered, visible or has a generator; the values that are known for the choices of the
  form are among them.
\<close>

definition collected :: "authenticationRequestField list \<Rightarrow> form_state \<Rightarrow> bool" where
  "collected asked st \<longleftrightarrow>
     distinct (keysOf asked) \<and> set (seenKeys st) = set (keysOf asked) \<and> dom (formValues st) \<subseteq> set (keysOf asked) \<and>
     set (map fieldSubmissionKey (visibleFields st)) \<subseteq> set (keysOf asked) \<and>
     (\<forall>f \<in> set asked. requestAutomatic f \<noteq> None \<or> requestSubmissionKey f \<in> dom (formValues st) \<or>
        requestSubmissionKey f \<in> set (map fieldSubmissionKey (visibleFields st))) \<and>
     (allVisibleFieldsAutomatic st \<longrightarrow> set (map fieldSubmissionKey (visibleFields st)) \<subseteq> dom (formValues st)) \<and>
     (\<forall>f \<in> set asked. requestKind f = AuthFormFieldSelect \<longrightarrow> (\<exists>v. visibleField f AuthFormFieldSelect v \<in> set (visibleFields st))) \<and>
     (\<forall>f \<in> set asked. requestKind f = AuthFormFieldSelect \<longrightarrow> requestSubmissionKey f \<in> dom (formValues st) \<longrightarrow>
        chosen (requestOptions f) (formValues st (requestSubmissionKey f)))"

lemma kinds_differ [simp]:
  "AuthFormFieldSelect \<noteq> authFormFieldToken" "AuthFormFieldSelect \<noteq> authFormFieldHidden" "AuthFormFieldSelect \<noteq> AuthFormFieldText"
  "authFormFieldToken \<noteq> AuthFormFieldSelect" "authFormFieldHidden \<noteq> AuthFormFieldSelect" "AuthFormFieldText \<noteq> AuthFormFieldSelect"
  "AuthFormFieldSelect \<noteq> AuthFormFieldPassword" "AuthFormFieldPassword \<noteq> AuthFormFieldSelect"
  by (simp_all add: kind_defs)

text \<open>The fields that the application is asked for: all but the tokens and the hidden ones that no entry promotes.\<close>

definition shown :: "FormEntry list \<Rightarrow> (string \<rightharpoonup> string) \<Rightarrow> string \<Rightarrow> authenticationRequestField \<Rightarrow> bool" where
  "shown entries credentials formID f \<longleftrightarrow>
     \<not> (requestKind f = authFormFieldHidden \<and> \<not> snd (snd (fieldInput entries credentials formID f))) \<and> requestKind f \<noteq> authFormFieldToken"

text \<open>The two ways in which a field is added: only a value, or a field that is visible, with or without a value.\<close>

lemma addField_cases:
  assumes "addField entries credentials formID f st = Inr st'"
  obtains (hidden) v where "requestSubmissionKey f \<notin> set (seenKeys st)" "requestKind f \<noteq> AuthFormFieldSelect"
      "v = fst (fieldInput entries credentials formID f)" "\<not> shown entries credentials formID f"
      "st' = st\<lparr>seenKeys := requestSubmissionKey f # seenKeys st,
         formValues := (if requestAutomatic f = None then (formValues st)(requestSubmissionKey f \<mapsto> v) else formValues st)\<rparr>"
  | (visible) kind v automatic where "requestSubmissionKey f \<notin> set (seenKeys st)" "requestKind f = AuthFormFieldSelect \<Longrightarrow> kind = AuthFormFieldSelect"
      "automatic \<Longrightarrow> kind = AuthFormFieldSelect \<Longrightarrow> authFormChoiceContains (requestOptions f) v"
      "v = fst (fieldInput entries credentials formID f)" "shown entries credentials formID f"
      "st' = st\<lparr>seenKeys := requestSubmissionKey f # seenKeys st, visibleFields := visibleFields st @ [visibleField f kind v],
         formValues := (if automatic then (formValues st)(requestSubmissionKey f \<mapsto> v) else formValues st),
         allVisibleFieldsAutomatic := (allVisibleFieldsAutomatic st \<and> automatic)\<rparr>"
proof -
  obtain v automatic promote where i: "fieldInput entries credentials formID f = (v, automatic, promote)" by (metis prod.exhaust)
  have new: "requestSubmissionKey f \<notin> set (seenKeys st)" using assms by (auto simp: addField_def split: if_split_asm)
  define kind where "kind = (if requestKind f = authFormFieldHidden then AuthFormFieldText else requestKind f)"
  define a where "a = (automatic \<and> \<not> (kind = AuthFormFieldSelect \<and> \<not> authFormChoiceContains (requestOptions f) v) \<and> requestAutomatic f = None)"
  show thesis
  proof (cases "(requestKind f = authFormFieldHidden \<and> \<not> promote) \<or> requestKind f = authFormFieldToken")
    case True
    then have "requestKind f \<noteq> AuthFormFieldSelect" by auto
    moreover have "st' = st\<lparr>seenKeys := requestSubmissionKey f # seenKeys st,
         formValues := (if requestAutomatic f = None then (formValues st)(requestSubmissionKey f \<mapsto> v) else formValues st)\<rparr>"
      using assms new True by (auto simp: addField_def i Let_def split: if_split_asm)
    moreover have "v = fst (fieldInput entries credentials formID f)" "\<not> shown entries credentials formID f"
      using True by (auto simp: i shown_def)
    ultimately show thesis using hidden new by blast
  next
    case False
    have "st' = st\<lparr>seenKeys := requestSubmissionKey f # seenKeys st, visibleFields := visibleFields st @ [visibleField f kind v],
         formValues := (if a then (formValues st)(requestSubmissionKey f \<mapsto> v) else formValues st),
         allVisibleFieldsAutomatic := (allVisibleFieldsAutomatic st \<and> a)\<rparr>"
      using assms new False unfolding addField_def i by (auto simp: Let_def kind_def [symmetric] a_def split: if_split_asm)
    moreover have "requestKind f = AuthFormFieldSelect \<Longrightarrow> kind = AuthFormFieldSelect" by (simp add: kind_def)
    moreover have "a \<Longrightarrow> kind = AuthFormFieldSelect \<Longrightarrow> authFormChoiceContains (requestOptions f) v" by (simp add: a_def)
    moreover have "v = fst (fieldInput entries credentials formID f)" "shown entries credentials formID f"
      using False by (auto simp: i shown_def)
    ultimately show thesis using visible new by blast
  qed
qed

lemma visibleField_key [simp]: "fieldSubmissionKey (visibleField f kind v) = requestSubmissionKey f"
  by (simp add: visibleField_def)

lemma new_key:
  assumes "collected asked st" "k \<notin> set (seenKeys st)"
  shows "\<forall>g \<in> set asked. requestSubmissionKey g \<noteq> k" "formValues st k = None"
proof -
  show "\<forall>g \<in> set asked. requestSubmissionKey g \<noteq> k"
    using assms unfolding collected_def keysOf_def by (metis image_eqI set_map)
  show "formValues st k = None" using assms unfolding collected_def by blast
qed

lemma addField_collected:
  assumes "collected asked st" "addField entries credentials formID f st = Inr st'"
  shows "collected (asked @ [f]) st'"
  using assms(2)
proof (cases rule: addField_cases)
  case (hidden v)
  note new_key [OF assms(1) hidden(1)]
  then show ?thesis using assms(1) hidden(2) unfolding collected_def keysOf_def hidden(5) by (auto simp: domIff)
next
  case (visible kind v automatic)
  note new_key [OF assms(1) visible(1)]
  then show ?thesis using assms(1) visible(2,3) unfolding collected_def keysOf_def visible(6) by (auto simp: domIff)
qed

lemma addFields_collected:
  assumes "collected asked st" "addFields entries credentials formID fs st = Inr st'"
  shows "collected (asked @ fs) st'"
  using assms
proof (induction fs arbitrary: asked st)
  case (Cons f fs)
  from Cons.prems(2) obtain st1 where 1: "addField entries credentials formID f st = Inr st1"
    "addFields entries credentials formID fs st1 = Inr st'" by (auto split: sum.split_asm)
  from Cons.IH [OF addField_collected [OF Cons.prems(1) 1(1)] 1(2)] show ?case by simp
qed simp

lemma emptyForm_collected: "collected [] emptyForm"
  by (simp add: collected_def emptyForm_def keysOf_def)

lemma keyed_collected:
  assumes "addFields entries credentials formID asked emptyForm = Inr st"
  shows "collected asked st"
  using addFields_collected [OF emptyForm_collected assms] by simp

text \<open>A value that is known is the field's own, and the visible fields are those that are shown, in their order.\<close>

definition sourced :: "FormEntry list \<Rightarrow> (string \<rightharpoonup> string) \<Rightarrow> string \<Rightarrow> authenticationRequestField list \<Rightarrow> form_state \<Rightarrow> bool" where
  "sourced entries credentials formID asked st \<longleftrightarrow>
     (\<forall>f \<in> set asked. requestSubmissionKey f \<in> dom (formValues st) \<longrightarrow>
        formValues st (requestSubmissionKey f) = Some (fst (fieldInput entries credentials formID f))) \<and>
     map fieldSubmissionKey (visibleFields st) = keysOf (filter (shown entries credentials formID) asked)"

lemma addField_sourced:
  assumes "collected asked st" "sourced entries credentials formID asked st" "addField entries credentials formID f st = Inr st'"
  shows "sourced entries credentials formID (asked @ [f]) st'"
  using assms(3)
proof (cases rule: addField_cases)
  case (hidden v)
  note new_key [OF assms(1) hidden(1)]
  then show ?thesis using assms(2) hidden(3,4) unfolding sourced_def keysOf_def hidden(5) by (auto simp: domIff)
next
  case (visible kind v automatic)
  note new_key [OF assms(1) visible(1)]
  then show ?thesis using assms(2) visible(4,5) unfolding sourced_def keysOf_def visible(6) by (auto simp: domIff)
qed

lemma addFields_sourced:
  assumes "collected asked st" "sourced entries credentials formID asked st" "addFields entries credentials formID fs st = Inr st'"
  shows "sourced entries credentials formID (asked @ fs) st'"
  using assms
proof (induction fs arbitrary: asked st)
  case (Cons f fs)
  from Cons.prems(3) obtain st1 where 1: "addField entries credentials formID f st = Inr st1"
    "addFields entries credentials formID fs st1 = Inr st'" by (auto split: sum.split_asm)
  from Cons.IH [OF addField_collected [OF Cons.prems(1) 1(1)] addField_sourced [OF Cons.prems(1,2) 1(1)] 1(2)] show ?case by simp
qed simp

lemma keyed_sourced:
  assumes "addFields entries credentials formID asked emptyForm = Inr st"
  shows "sourced entries credentials formID asked st"
  using addFields_sourced [OF emptyForm_collected _ assms] by (simp add: sourced_def emptyForm_def keysOf_def)

section \<open>What a response completes\<close>

text \<open>The generators only change the values of their fields.\<close>

lemma evaluate_other:
  "evaluateAutomaticFields fs m = Inr m' \<Longrightarrow> k \<notin> requestSubmissionKey ` {f \<in> set fs. requestAutomatic f \<noteq> None} \<Longrightarrow> m' k = m k"
  by (induction fs arbitrary: m) (force split: option.split_asm sum.split_asm)+

lemma evaluate_set:
  assumes "evaluateAutomaticFields fs m = Inr m'" "distinct (keysOf fs)" "f \<in> set fs" "requestAutomatic f \<noteq> None"
  shows "\<exists>v. requestAutomatic f = Some (Inr v) \<and> m' (requestSubmissionKey f) = Some v"
  using assms
proof (induction fs arbitrary: m)
  case (Cons g fs)
  obtain m1 where e: "evaluateAutomaticFields fs m1 = Inr m'" and m1: "g = f \<Longrightarrow> \<exists>v. requestAutomatic f = Some (Inr v) \<and> m1 (requestSubmissionKey f) = Some v"
  proof (cases "requestAutomatic g")
    case None
    then have "g \<noteq> f" using Cons.prems(4) by auto
    then show thesis using that [of m] None Cons.prems(1) by simp
  next
    case (Some r)
    then obtain v where v: "r = Inr v" "evaluateAutomaticFields fs (m(requestSubmissionKey g \<mapsto> v)) = Inr m'"
      using Cons.prems(1) by (cases r) auto
    then show thesis using that [OF v(2)] Some by auto
  qed
  show ?case
  proof (cases "f \<in> set fs")
    case True
    then show ?thesis using Cons.IH [OF e] Cons.prems by (simp add: keysOf_def)
  next
    case False
    then have "g = f" using Cons.prems(3) by simp
    moreover have "m' (requestSubmissionKey f) = m1 (requestSubmissionKey f)"
      using evaluate_other [OF e] Cons.prems(2) calculation by (auto simp: keysOf_def)
    ultimately show ?thesis using m1 by simp
  qed
qed simp

lemma evaluate_values:
  assumes "evaluateAutomaticFields fs m = Inr m'" "distinct (keysOf fs)"
  shows "dom m' = dom m \<union> requestSubmissionKey ` {f \<in> set fs. requestAutomatic f \<noteq> None}"
    "f \<in> set fs \<Longrightarrow> requestAutomatic f = None \<Longrightarrow> m' (requestSubmissionKey f) = m (requestSubmissionKey f)"
proof -
  let ?A = "requestSubmissionKey ` {f \<in> set fs. requestAutomatic f \<noteq> None}"
  have "k \<in> dom m' \<longleftrightarrow> k \<in> dom m \<union> ?A" for k
  proof (cases "k \<in> ?A")
    case True
    then show ?thesis using evaluate_set [OF assms] by blast
  next
    case False
    then show ?thesis using evaluate_other [OF assms(1) False] by (simp add: domIff)
  qed
  then show "dom m' = dom m \<union> ?A" by blast
  show "m' (requestSubmissionKey f) = m (requestSubmissionKey f)" if "f \<in> set fs" "requestAutomatic f = None"
  proof (rule evaluate_other [OF assms(1)])
    show "requestSubmissionKey f \<notin> ?A" using that assms(2) by (auto simp: keysOf_def distinct_map inj_on_def)
  qed
qed

lemma answerWith_values:
  assumes "distinct (keysOf asked)" "answerWith asked m b = Inr r" "f \<in> set asked"
  shows "case requestAutomatic f of
      Some g \<Rightarrow> \<exists>v. g = Inr v \<and> responseValues r (requestSubmissionKey f) = Some v
    | None \<Rightarrow> responseValues r (requestSubmissionKey f) = m (requestSubmissionKey f)"
proof -
  obtain m' where e: "evaluateAutomaticFields asked m = Inr m'" and r: "responseValues r = m'"
    using assms(2) by (auto simp: answerWith_def split: sum.split_asm)
  show ?thesis
    using evaluate_set [OF e assms(1,3)] evaluate_values(2) [OF e assms(1,3)] by (auto simp: r split: option.split)
qed

text \<open>A validated response has a value for every visible field, among its choices for a selection, and no other.\<close>

lemma checkFields_None:
  "checkFields fs vals = None \<Longrightarrow> f \<in> set fs \<Longrightarrow>
     \<exists>v. map_of vals (fieldSubmissionKey f) = Some v \<and> (fieldKind f = AuthFormFieldSelect \<longrightarrow> authFormChoiceContains (fieldOptions f) v)"
  by (induction fs) (auto split: option.split_asm if_split_asm)

lemma validate_None:
  assumes "validateAuthFormValues asked vals = None"
  shows "set (map fst vals) = set (map fieldSubmissionKey asked)"
proof -
  have "k \<in> fieldSubmissionKey ` set asked" if "(k, v) \<in> set vals" for k v
    using assms that by (auto simp: validateAuthFormValues_def unknownKey_def list_ex_iff split: if_split_asm)
  moreover have "fieldSubmissionKey f \<in> fst ` set vals" if "f \<in> set asked" for f
    using assms checkFields_None [OF _ that, of vals]
    by (auto simp: validateAuthFormValues_def split: if_split_asm dest!: map_of_SomeD intro: rev_image_eqI)
  ultimately show ?thesis by auto
qed

lemma storeResponse_values:
  assumes "storeResponse fs vals m c = (m', c')" "distinct (keysOf fs)"
  shows "m' k = (if k \<in> set (keysOf fs) \<and> map_of vals k \<noteq> None then map_of vals k else m k)"
  using assms
  by (induction fs arbitrary: m c) (auto simp: keysOf_def split: option.split_asm)

text \<open>What an answer is worth: a value for every field and no other, and a choice of the form for every selection.\<close>

definition answers :: "authenticationRequestField list \<Rightarrow> (string \<rightharpoonup> string) \<Rightarrow> bool" where
  "answers asked m \<longleftrightarrow> dom m = set (keysOf asked) \<and>
     (\<forall>f \<in> set asked. requestKind f = AuthFormFieldSelect \<longrightarrow> requestAutomatic f = None \<longrightarrow>
        chosen (requestOptions f) (m (requestSubmissionKey f)))"

lemma answerWith_answers:
  assumes "distinct (keysOf asked)" "answerWith asked m b = Inr r" "dom m \<subseteq> set (keysOf asked)"
    "\<forall>f \<in> set asked. requestAutomatic f \<noteq> None \<or> requestSubmissionKey f \<in> dom m"
    "\<forall>f \<in> set asked. requestKind f = AuthFormFieldSelect \<longrightarrow> requestAutomatic f = None \<longrightarrow> chosen (requestOptions f) (m (requestSubmissionKey f))"
  shows "answers asked (responseValues r)"
proof -
  obtain m' where e: "evaluateAutomaticFields asked m = Inr m'" and r: "responseValues r = m'"
    using assms(2) by (auto simp: answerWith_def split: sum.split_asm)
  have "dom m' = set (keysOf asked)"
    using evaluate_values(1) [OF e assms(1)] assms(3,4) by (auto simp: keysOf_def)
  then show ?thesis
    using evaluate_values(2) [OF e assms(1)] assms(5) by (auto simp: answers_def r)
qed

lemma keysOf_image: "set (keysOf asked) = requestSubmissionKey ` set asked"
  by (simp add: keysOf_def)

text \<open>The two ways to an answer without a browser.\<close>

lemma automatic_answers:
  assumes "collected asked st" "visibleFields st = [] \<or> allVisibleFieldsAutomatic st" "answerWith asked (formValues st) b = Inr r"
  shows "answers asked (responseValues r)"
proof (rule answerWith_answers [OF _ assms(3)])
  have vis: "set (map fieldSubmissionKey (visibleFields st)) \<subseteq> dom (formValues st)"
    using assms(1,2) by (auto simp: collected_def)
  show "\<forall>f \<in> set asked. requestAutomatic f \<noteq> None \<or> requestSubmissionKey f \<in> dom (formValues st)"
    using assms(1) vis unfolding collected_def by blast
  show "\<forall>f \<in> set asked. requestKind f = AuthFormFieldSelect \<longrightarrow> requestAutomatic f = None \<longrightarrow>
      chosen (requestOptions f) (formValues st (requestSubmissionKey f))"
    using assms(1) vis unfolding collected_def by blast
qed (use assms(1) in \<open>simp_all add: collected_def\<close>)

lemma response_answers:
  assumes "collected asked st" "validateAuthFormValues (visibleFields st) vals = None"
    "storeResponse asked vals (formValues st) c = (m, c')" "answerWith asked m b = Inr r"
  shows "answers asked (responseValues r)"
proof (rule answerWith_answers [OF _ assms(4)])
  show d: "distinct (keysOf asked)" using assms(1) by (simp add: collected_def)
  note m = storeResponse_values [OF assms(3) d]
  have check: "checkFields (visibleFields st) vals = None" using assms(2) by (simp add: validateAuthFormValues_def split: if_split_asm)
  have vis: "map_of vals (fieldSubmissionKey g) \<noteq> None" if "g \<in> set (visibleFields st)" for g
    using checkFields_None [OF check that] by auto
  have "dom (formValues st) \<subseteq> set (keysOf asked)" using assms(1) by (simp add: collected_def)
  then show "dom m \<subseteq> set (keysOf asked)" by (auto simp: m dom_def split: if_split_asm)
  show "\<forall>f \<in> set asked. requestAutomatic f \<noteq> None \<or> requestSubmissionKey f \<in> dom m"
  proof
    fix f assume f: "f \<in> set asked"
    then have "requestAutomatic f \<noteq> None \<or> requestSubmissionKey f \<in> dom (formValues st) \<or> map_of vals (requestSubmissionKey f) \<noteq> None"
      using assms(1) vis unfolding collected_def by fastforce
    then show "requestAutomatic f \<noteq> None \<or> requestSubmissionKey f \<in> dom m" using f by (auto simp: m domIff keysOf_image)
  qed
  show "\<forall>f \<in> set asked. requestKind f = AuthFormFieldSelect \<longrightarrow> requestAutomatic f = None \<longrightarrow>
      chosen (requestOptions f) (m (requestSubmissionKey f))"
  proof (intro ballI impI)
    fix f assume f: "f \<in> set asked" "requestKind f = AuthFormFieldSelect"
    obtain v where v: "visibleField f AuthFormFieldSelect v \<in> set (visibleFields st)"
      using assms(1) f unfolding collected_def by blast
    obtain u where "map_of vals (requestSubmissionKey f) = Some u" "authFormChoiceContains (requestOptions f) u"
      using checkFields_None [OF check v] by (auto simp: visibleField_def)
    then show "chosen (requestOptions f) (m (requestSubmissionKey f))" using f(1) by (simp add: m keysOf_image)
  qed
qed

text \<open>What the application answered.\<close>

definition applicationAnswer :: "await_start \<Rightarrow> await_end \<Rightarrow> string \<rightharpoonup> string" where
  "applicationAnswer start e =
     (case (start, e) of
        (AwaitForm visible m, Responds response) \<Rightarrow> map_of (the (responseForm response))
      | _ \<Rightarrow> Map.empty)"

text \<open>The value of a field: of its generator, of the application, or its own.\<close>

definition fieldAnswer ::
  "FormEntry list \<Rightarrow> (string \<rightharpoonup> string) \<Rightarrow> string \<Rightarrow> (string \<rightharpoonup> string) \<Rightarrow> authenticationRequestField \<Rightarrow> string result" where
  "fieldAnswer entries credentials formID answer f =
     (case requestAutomatic f of
        Some g \<Rightarrow> g
      | None \<Rightarrow> Inr (case answer (requestSubmissionKey f) of Some v \<Rightarrow> v | None \<Rightarrow> fst (fieldInput entries credentials formID f)))"

lemma answered_fields:
  assumes "collected asked st" "sourced entries credentials formID asked st" "answerWith asked m b = Inr r" "answers asked (responseValues r)"
    "\<And>f. f \<in> set asked \<Longrightarrow> m (requestSubmissionKey f) = (case answer (requestSubmissionKey f) of
        Some v \<Rightarrow> Some v | None \<Rightarrow> formValues st (requestSubmissionKey f))" "f \<in> set asked"
  shows "\<exists>v. fieldAnswer entries credentials formID answer f = Inr v \<and> responseValues r (requestSubmissionKey f) = Some v"
proof (cases "requestAutomatic f")
  case (Some g)
  have "distinct (keysOf asked)" using assms(1) by (simp add: collected_def)
  then show ?thesis using answerWith_values [OF _ assms(3,6)] Some by (auto simp: fieldAnswer_def)
next
  case None
  have "distinct (keysOf asked)" using assms(1) by (simp add: collected_def)
  then have v: "responseValues r (requestSubmissionKey f) = m (requestSubmissionKey f)"
    using answerWith_values [OF _ assms(3,6)] None by simp
  have "requestSubmissionKey f \<in> dom (responseValues r)" using assms(4,6) by (simp add: answers_def keysOf_image)
  then show ?thesis
    using v assms(5) [OF assms(6)] assms(2,6) None by (auto simp: fieldAnswer_def sourced_def dom_def split: option.split_asm)
qed

section \<open>Properties\<close>

text \<open>C28: an authentication that goes on without a browser has an answer for every field that the server asked for and for no
  other. A field with a token generator has what the generator returned; any other one has what the application answered,
  when it was asked, which it is for exactly the visible fields; and otherwise the value of the configured entry, of the
  stable credential or of the server. Every selection is one of the choices of the form.\<close>

theorem auth_form_answered:
  assumes "requestBrowser request = None" "beginAwait passwordDisabled entries request c = (c1, start)" "accepts start e"
    "awaitAuthChallenge request start e c2 = (c3, Inr r)"
  shows "dom (responseValues r) = set (keysOf (keyed (requestFormID request) 0 (requestFields request))) \<and>
    (\<forall>f \<in> set (keyed (requestFormID request) 0 (requestFields request)). \<exists>v.
       fieldAnswer entries (stableCredentials c1) (requestFormID request) (applicationAnswer start e) f = Inr v \<and>
       responseValues r (requestSubmissionKey f) = Some v) \<and>
    (\<forall>visible m. start = AwaitForm visible m \<longrightarrow> dom (applicationAnswer start e) =
       set (keysOf (filter (shown entries (stableCredentials c1) (requestFormID request)) (keyed (requestFormID request) 0 (requestFields request))))) \<and>
    (\<forall>f \<in> set (keyed (requestFormID request) 0 (requestFields request)).
       requestKind f = AuthFormFieldSelect \<longrightarrow> requestAutomatic f = None \<longrightarrow>
       chosen (requestOptions f) (responseValues r (requestSubmissionKey f)))"
proof -
  let ?asked = "keyed (requestFormID request) 0 (requestFields request)"
  have start: "\<forall>x. start \<noteq> AwaitFails x" using assms(4) by (auto simp: awaitAuthChallenge_def)
  then have on: "\<not> passwordDisabled" using assms(2) by (auto simp: beginAwait_def)
  then have c1: "c1 = clearStableCredentials (requestClearCacheKeys request) c" using assms(2) by (simp add: beginAwait_def Let_def)
  let ?add = "addFields entries (stableCredentials c1) (requestFormID request) ?asked emptyForm"
  obtain st where st: "?add = Inr st"
    using assms(2) start on by (cases ?add) (auto simp: beginAwait_def Let_def c1)
  have "start = snd (beginAwait False entries request c)" using assms(2) on by simp
  then have s: "start = (if requestFields request \<noteq> [] \<and> (visibleFields st = [] \<or> allVisibleFieldsAutomatic st)
      then (case answerWith ?asked (formValues st) None of Inl x \<Rightarrow> AwaitFails x | Inr r \<Rightarrow> AwaitAnswers r)
      else AwaitForm (visibleFields st) (formValues st))"
    by (simp add: beginAwait_def Let_def st [unfolded c1] assms(1))
  note col = keyed_collected [OF st] and src = keyed_sourced [OF st]
  show ?thesis
  proof (cases "requestFields request \<noteq> [] \<and> (visibleFields st = [] \<or> allVisibleFieldsAutomatic st)")
    case True
    then have r: "answerWith ?asked (formValues st) None = Inr r" "\<forall>v m. start \<noteq> AwaitForm v m"
      using s assms(4) by (auto simp: awaitAuthChallenge_def split: sum.split_asm)
    have a: "answers ?asked (responseValues r)" using automatic_answers [OF col] True r by blast
    have none: "applicationAnswer start e = Map.empty" using r(2) by (cases start) (auto simp: applicationAnswer_def split: await_end.split)
    show ?thesis
      using answered_fields [OF col src r(1) a, of Map.empty] a r(2) by (simp add: none answers_def)
  next
    case False
    have f: "start = AwaitForm (visibleFields st) (formValues st)" unfolding s by (rule if_not_P [OF False])
    obtain resp where e: "e = Responds resp" using assms(4) by (cases e) (auto simp: awaitAuthChallenge_def f finishForm_def)
    obtain vals where vals: "responseForm resp = Some vals" "validateAuthFormValues (visibleFields st) vals = None"
      using assms(3) by (auto simp: accepts_def e f validateFormResponse_def split: option.split_asm if_split_asm)
    obtain m where m: "storeResponse ?asked vals (formValues st) c2 = (m, c3)" "answerWith ?asked m None = Inr r"
      using assms(4) by (auto simp: awaitAuthChallenge_def f finishForm_def e vals(1) Let_def split: prod.split_asm)
    have a: "answers ?asked (responseValues r)" by (rule response_answers [OF col vals(2) m])
    have ans: "applicationAnswer start e = map_of vals" by (simp add: applicationAnswer_def f e vals(1))
    have d: "distinct (keysOf ?asked)" using col by (simp add: collected_def)
    have vis: "dom (map_of vals) = set (keysOf (filter (shown entries (stableCredentials c1) (requestFormID request)) ?asked))"
    proof -
      have "dom (map_of vals) = set (map fieldSubmissionKey (visibleFields st))"
        using validate_None [OF vals(2)] by (simp add: dom_map_of_conv_image_fst)
      then show ?thesis using src unfolding sourced_def by metis
    qed
    have mk: "m (requestSubmissionKey f) = (case map_of vals (requestSubmissionKey f) of
        Some v \<Rightarrow> Some v | None \<Rightarrow> formValues st (requestSubmissionKey f))" if "f \<in> set ?asked" for f
      using storeResponse_values [OF m(1) d, of "requestSubmissionKey f"] that by (auto simp: keysOf_image split: option.split)
    show ?thesis
      using answered_fields [OF col src m(2) a mk] a vis unfolding ans answers_def by blast
  qed
qed

text \<open>A login form: the name comes from a configured entry, the password and the group are asked for.\<close>

definition loginForm :: authenticationRequest where
  "loginForm = \<lparr>requestFormID = ''main'', requestBrowser = None, requestFields =
     [\<lparr>requestSubmissionKey = ''u'', requestName = ''username'', requestLabel = '''', requestKind = AuthFormFieldText,
        requestValue = '''', requestOptions = [], requestCacheKey = ''username'', requestAutomatic = None\<rparr>,
      \<lparr>requestSubmissionKey = '''', requestName = ''p'', requestLabel = '''', requestKind = AuthFormFieldPassword,
        requestValue = '''', requestOptions = [], requestCacheKey = ''password'', requestAutomatic = None\<rparr>,
      \<lparr>requestSubmissionKey = ''g'', requestName = ''group'', requestLabel = '''', requestKind = AuthFormFieldSelect,
        requestValue = ''x'', requestOptions = [\<lparr>choiceValue = ''staff'', choiceLabel = ''''\<rparr>], requestCacheKey = '''',
        requestAutomatic = None\<rparr>], requestClearCacheKeys = []\<rparr>"

definition loginEntries :: "FormEntry list" where
  "loginEntries = [\<lparr>entryFormID = ''main'', entrySubmissionKey = '''', entryName = ''username'', entryValue = ''me'', entryPromote = False\<rparr>]"

definition loginResponse :: AuthResponse where
  "loginResponse = \<lparr>responseForm = Some [(''u'', ''me''), (''main:p:1'', ''secret''), (''g'', ''staff'')], responseBrowser = None\<rparr>"

lemma itoa_small: "itoa 0 = ''0''" "itoa 1 = ''1''" "itoa (Suc 0) = ''1''" "itoa 2 = ''2''"
  by (simp_all add: itoa.simps) code_simp+

theorem auth_form_answered_witness:
  "\<exists>c1 start c3 r. beginAwait False loginEntries loginForm (newClient Map.empty) = (c1, start) \<and>
     awaitAuthChallenge loginForm start (Responds loginResponse) c1 = (c3, Inr r) \<and>
     dom (responseValues r) = {''u'', ''main:p:1'', ''g''} \<and> responseValues r ''main:p:1'' = Some ''secret'' \<and> stableCredentials c3 ''password'' = Some ''secret''"
proof -
  let ?b = "beginAwait False loginEntries loginForm (newClient Map.empty)"
  let ?a = "awaitAuthChallenge loginForm (snd ?b) (Responds loginResponse) (fst ?b)"
  note defs = beginAwait_def loginForm_def loginEntries_def newClient_def clearStableCredentials_def addField_def fieldInput_def
    prefillAuthField_def formEntry_def emptyForm_def withKey_def visibleField_def authFormChoiceContains_def kind_defs Let_def itoa_small
  have a: "\<exists>r. snd ?a = Inr r" "stableCredentials (fst ?a) ''password'' = Some ''secret''"
    by (simp_all add: defs awaitAuthChallenge_def finishForm_def loginResponse_def answerWith_def storeStableCredential_def)
  have acc: "accepts (snd ?b) (Responds loginResponse)"
    by (simp add: defs accepts_def loginResponse_def validateFormResponse_def validateAuthFormValues_def unknownKey_def)
  have keys: "set (keysOf (keyed (requestFormID loginForm) 0 (requestFields loginForm))) = {''u'', ''main:p:1'', ''g''}"
    by (simp add: keysOf_def loginForm_def withKey_def itoa_small)
  obtain r where r: "?a = (fst ?a, Inr r)" using a(1) by (metis prod.collapse)
  have "applicationAnswer (snd ?b) (Responds loginResponse) ''main:p:1'' = Some ''secret''"
    by (simp add: defs applicationAnswer_def loginResponse_def)
  then have "dom (responseValues r) = {''u'', ''main:p:1'', ''g''} \<and> responseValues r ''main:p:1'' = Some ''secret''"
    using auth_form_answered [OF _ prod.collapse [symmetric] acc r] keys
    by (simp add: loginForm_def withKey_def itoa_small fieldAnswer_def)
  then show ?thesis using r a(2) prod.collapse [of ?b] by metis
qed

end
