(* ===== verification/Auth_Challenge.thy ===== *)
theory Auth_Challenge
  imports Auth_Form "HOL-Library.Sublist" "HOL-Library.Multiset"
begin

text \<open>
  Authentication challenges (\<^verbatim>\<open>auth_form.go\<close>, \<^verbatim>\<open>client_supervisor.go\<close>): which browser results
  are accepted, the challenge that is pending while the application completes or cancels it and the
  client is closed beside it, and the loop that obtains a session from a front end.
\<close>

section \<open>Browser results\<close>

lemma checkCookies_iff:
  "checkCookies names seen cs = None \<longleftrightarrow>
     (\<forall>c \<in> set cs. cookieName c \<noteq> '''' \<and> cookieValue c \<noteq> '''' \<and> cookieName c \<in> set names) \<and>
     distinct (map cookieName cs) \<and> cookieName ` set cs \<inter> set seen = {}"
  by (induction cs arbitrary: seen) auto

lemma checkHeaders_iff:
  "checkHeaders names seen hs = None \<longleftrightarrow>
     (\<forall>h \<in> set hs. containsFold names h) \<and> distinct (map ToLower hs) \<and> ToLower ` set hs \<inter> set seen = {}"
  by (induction hs arbitrary: seen) auto

lemma invalidStringList_empty:
  "\<not> invalidStringList caseless previous vs \<Longrightarrow> '''' \<notin> set vs"
  by (induction vs arbitrary: previous) auto

lemma take_prefix: "take (length p) s = p \<longleftrightarrow> prefix p s"
  by (metis append_take_drop_id prefix_def take_is_prefix append_eq_conv_conj)

text \<open>What a request asks the browser for.\<close>

definition wanted :: "BrowserRequest \<Rightarrow> BrowserResult \<Rightarrow> bool" where
  "wanted b r \<longleftrightarrow>
     (if CallbackURLPrefixes b \<noteq> [] then
        resultCookies r = [] \<and> resultHeader r = [] \<and> (\<exists>p \<in> set (CallbackURLPrefixes b). prefix p (resultFinalURL r))
      else if browserFinalURL b \<noteq> '''' then
        resultHeader r = [] \<and>
        ((resultFinalURL r = '''' \<and> (\<exists>c. resultCookies r = [c] \<and> cookieValue c \<noteq> '''' \<and> cookieName c \<in> set (EarlyCookieNames b))) \<or>
         (resultFinalURL r = browserFinalURL b \<and> resultCookies r \<noteq> [] \<and> distinct (map cookieName (resultCookies r)) \<and>
          (\<forall>c \<in> set (resultCookies r). cookieValue c \<noteq> '''' \<and> cookieName c \<in> set (CookieNames b))))
      else
        resultFinalURL r = '''' \<and> resultCookies r = [] \<and> resultHeader r \<noteq> [] \<and> distinct (map ToLower (resultHeader r)) \<and>
        (\<forall>h \<in> set (resultHeader r). \<exists>n \<in> set (HeaderNames b). EqualFold n h))"

lemma request_mode:
  assumes "validateBrowserRequest b = Inr mode"
  shows "(mode = browserAuthenticationModeCallback \<and> CallbackURLPrefixes b \<noteq> [] \<and> '''' \<notin> set (CallbackURLPrefixes b)) \<or>
    (mode = browserAuthenticationModeCookies \<and> CallbackURLPrefixes b = [] \<and> browserFinalURL b \<noteq> '''' \<and> '''' \<notin> set (CookieNames b)) \<or>
    (mode = browserAuthenticationModeHeaders \<and> CallbackURLPrefixes b = [] \<and> browserFinalURL b = '''')"
  using assms invalidStringList_empty
  by (auto simp: validateBrowserRequest_def Let_def split: if_split_asm)

lemma one_cookie: "length cs = 1 \<and> P (hd cs) \<longleftrightarrow> (\<exists>c. cs = [c] \<and> P c)"
  by (cases cs) auto

lemma cookies_accepted:
  assumes "'''' \<notin> set names"
  shows "checkCookies names [] cs = None \<longleftrightarrow>
    distinct (map cookieName cs) \<and> (\<forall>c \<in> set cs. cookieValue c \<noteq> '''' \<and> cookieName c \<in> set names)"
  using assms by (auto simp: checkCookies_iff)

text \<open>C30: of a request that was accepted, exactly those browser results are accepted that it asks for: a final URL behind one of the
  prefixes, or the final URL with requested cookies, each once, or one early cookie, or requested headers, each once.\<close>

theorem browser_result_accepted:
  assumes "validateBrowserRequest b = Inr mode"
  shows "validateBrowserResponse b mode response = None \<longleftrightarrow>
    (\<exists>r. responseForm response = None \<and> responseBrowser response = Some r \<and> wanted b r)"
proof (cases "responseBrowser response")
  case (Some r)
  consider (callback) "mode = browserAuthenticationModeCallback" "CallbackURLPrefixes b \<noteq> []" "'''' \<notin> set (CallbackURLPrefixes b)"
    | (cookies) "mode = browserAuthenticationModeCookies" "CallbackURLPrefixes b = []" "browserFinalURL b \<noteq> ''''" "'''' \<notin> set (CookieNames b)"
    | (headers) "mode = browserAuthenticationModeHeaders" "CallbackURLPrefixes b = []" "browserFinalURL b = ''''"
    using request_mode [OF assms] by blast
  then show ?thesis
  proof cases
    case callback
    then show ?thesis
      by (auto simp: validateBrowserResponse_def wanted_def Some take_prefix list_ex_iff)
  next
    case cookies
    show ?thesis unfolding validateBrowserResponse_def wanted_def Some
      using cookies by (auto simp: cookies_accepted [OF cookies(4)] length_Suc_conv)
  next
    case headers
    then show ?thesis
      by (auto simp: validateBrowserResponse_def wanted_def Some checkHeaders_iff containsFold_def list_ex_iff)
  qed
qed (simp add: validateBrowserResponse_def)

definition callbackRequest :: BrowserRequest where
  "callbackRequest = \<lparr>browserURL = ''https://vpn/saml'', browserFinalURL = '''', CallbackURLPrefixes = [''app:''], CookieNames = [],
     EarlyCookieNames = [], HeaderNames = []\<rparr>"

theorem browser_result_accepted_witness:
  "validateBrowserRequest callbackRequest = Inr browserAuthenticationModeCallback \<and>
   validateBrowserResponse callbackRequest browserAuthenticationModeCallback
     \<lparr>responseForm = None, responseBrowser = Some \<lparr>resultFinalURL = ''app:ok'', resultCookies = [], resultHeader = []\<rparr>\<rparr> = None"
proof -
  have m: "validateBrowserRequest callbackRequest = Inr browserAuthenticationModeCallback"
    by (simp add: validateBrowserRequest_def callbackRequest_def)
  have "wanted callbackRequest \<lparr>resultFinalURL = ''app:ok'', resultCookies = [], resultHeader = []\<rparr>"
    by (simp add: wanted_def callbackRequest_def)
  then show ?thesis using m browser_result_accepted [OF m] by simp
qed

section \<open>The pending challenge\<close>

text \<open>
  Challenges are known by the numbers that \<open>newAuthChallengeID\<close> gives out. \<open>underValidation\<close> are the calls of
  \<open>CompleteAuthChallenge\<close> that are validating a response outside the lock, \<open>completions\<close> the sends on the
  channels of challenges (each has room for one response) and \<open>cancellations\<close> the calls of \<open>cancel\<close>, which
  close a channel.
\<close>

record challenges =
  pendingAuthChallenge :: "nat option"
  authChallengeIdentifier :: nat
  authChallengeUpdated :: nat
  underValidation :: "nat multiset"
  completedChallenges :: "nat multiset"
  cancelledChallenges :: "nat multiset"

definition noChallenges :: "nat \<Rightarrow> challenges" where
  "noChallenges n = \<lparr>pendingAuthChallenge = None, authChallengeIdentifier = n, authChallengeUpdated = 0, underValidation = {#},
     completedChallenges = {#}, cancelledChallenges = {#}\<rparr>"

definition newAuthChallengeID :: "challenges \<Rightarrow> challenges \<times> nat" where
  "newAuthChallengeID a = (a\<lparr>authChallengeIdentifier := authChallengeIdentifier a + 1\<rparr>, authChallengeIdentifier a + 1)"

definition signalAuthChallengeUpdatedLocked :: "challenges \<Rightarrow> challenges" where
  "signalAuthChallengeUpdatedLocked a = a\<lparr>authChallengeUpdated := authChallengeUpdated a + 1\<rparr>"

definition publishAuthChallenge :: "nat \<Rightarrow> challenges \<Rightarrow> challenges" where
  "publishAuthChallenge i a = signalAuthChallengeUpdatedLocked (a\<lparr>pendingAuthChallenge := Some i\<rparr>)"

definition clearAuthChallenge :: "nat \<Rightarrow> challenges \<Rightarrow> challenges" where
  "clearAuthChallenge i a =
     (if pendingAuthChallenge a = Some i then signalAuthChallengeUpdatedLocked (a\<lparr>pendingAuthChallenge := None\<rparr>) else a)"

text \<open>\<open>CompleteAuthChallenge\<close> before and after the validation, whose error is \<open>err\<close>.\<close>

definition beginComplete :: "nat \<Rightarrow> challenges \<Rightarrow> challenges \<times> go_error option" where
  "beginComplete i a =
     (if pendingAuthChallenge a \<noteq> Some i then (a, Some (Sentinel ErrNoPendingAuthChallenge))
      else (a\<lparr>underValidation := underValidation a + {#i#}\<rparr>, None))"

definition finishComplete :: "nat \<Rightarrow> go_error option \<Rightarrow> challenges \<Rightarrow> challenges \<times> go_error option" where
  "finishComplete i err a0 =
     (let a = a0\<lparr>underValidation := underValidation a0 - {#i#}\<rparr> in
      if err \<noteq> None then (a, err)
      else if pendingAuthChallenge a \<noteq> Some i then (a, Some (Sentinel ErrNoPendingAuthChallenge))
      else (signalAuthChallengeUpdatedLocked
              (a\<lparr>pendingAuthChallenge := None, completedChallenges := completedChallenges a + {#i#}\<rparr>), None))"

definition CancelAuthChallenge :: "nat \<Rightarrow> challenges \<Rightarrow> challenges \<times> go_error option" where
  "CancelAuthChallenge i a =
     (if pendingAuthChallenge a \<noteq> Some i then (a, Some (Sentinel ErrNoPendingAuthChallenge))
      else (signalAuthChallengeUpdatedLocked
              (a\<lparr>pendingAuthChallenge := None, cancelledChallenges := cancelledChallenges a + {#i#}\<rparr>), None))"

text \<open>The part of \<open>Client.Close\<close>.\<close>

definition closeChallenge :: "challenges \<Rightarrow> challenges" where
  "closeChallenge a =
     signalAuthChallengeUpdatedLocked
       (a\<lparr>pendingAuthChallenge := None,
          cancelledChallenges := (case pendingAuthChallenge a of None \<Rightarrow> cancelledChallenges a | Some i \<Rightarrow> cancelledChallenges a + {#i#})\<rparr>)"

text \<open>Identifiers are shared by all clients of the process, so some are taken by others.\<close>

inductive challenge_step :: "challenges \<Rightarrow> challenges \<Rightarrow> bool" where
  challenge_other: "challenge_step a (fst (newAuthChallengeID a))"
| challenge_publish: "newAuthChallengeID a = (a', i) \<Longrightarrow> challenge_step a (publishAuthChallenge i a')"
| challenge_clear: "challenge_step a (clearAuthChallenge i a)"
| challenge_begin: "challenge_step a (fst (beginComplete i a))"
| challenge_finish: "i \<in># underValidation a \<Longrightarrow> challenge_step a (fst (finishComplete i err a))"
| challenge_cancel: "challenge_step a (fst (CancelAuthChallenge i a))"
| challenge_close: "challenge_step a (closeChallenge a)"

inductive challenge_run :: "challenges \<Rightarrow> bool" where
  "challenge_run (noChallenges n)"
| "challenge_run a \<Longrightarrow> challenge_step a a' \<Longrightarrow> challenge_run a'"

definition ends :: "challenges \<Rightarrow> nat \<Rightarrow> nat" where
  "ends a i = count (completedChallenges a) i + count (cancelledChallenges a) i"

definition challenges_ok :: "challenges \<Rightarrow> bool" where
  "challenges_ok a \<longleftrightarrow> (\<forall>i. ends a i \<le> 1 \<and> (authChallengeIdentifier a < i \<longrightarrow> ends a i = 0) \<and>
     (pendingAuthChallenge a = Some i \<longrightarrow> ends a i = 0 \<and> i \<le> authChallengeIdentifier a))"

lemmas challenge_defs = newAuthChallengeID_def signalAuthChallengeUpdatedLocked_def publishAuthChallenge_def clearAuthChallenge_def
  beginComplete_def finishComplete_def CancelAuthChallenge_def closeChallenge_def

lemma challenge_step_ok: "challenge_step a a' \<Longrightarrow> challenges_ok a \<Longrightarrow> challenges_ok a'"
  by (induction rule: challenge_step.induct)
    (auto simp: challenges_ok_def ends_def challenge_defs Let_def split: option.split)

lemma challenge_run_ok: "challenge_run a \<Longrightarrow> challenges_ok a"
proof (induction rule: challenge_run.induct)
  case (1 n)
  show ?case by (simp add: challenges_ok_def ends_def noChallenges_def)
next
  case (2 a a')
  then show ?case using challenge_step_ok by blast
qed

lemma challenge_step_signals:
  "challenge_step a a' \<Longrightarrow> pendingAuthChallenge a' \<noteq> pendingAuthChallenge a \<Longrightarrow> authChallengeUpdated a < authChallengeUpdated a'"
  by (induction rule: challenge_step.induct) (auto simp: challenge_defs Let_def split: if_split_asm)

text \<open>C29: however completions, cancellations, the end of the wait and the closing of the client interleave, a challenge receives at
  most one response or one cancellation, so that no send blocks and no channel is closed twice; the pending challenge has received
  none; and whenever the pending challenge changes, those that wait for it are signalled.\<close>

theorem challenge_ends_once:
  assumes "challenge_run a" "challenge_step a a'"
  shows "count (completedChallenges a') i + count (cancelledChallenges a') i \<le> 1 \<and>
    (pendingAuthChallenge a' = Some i \<longrightarrow> i \<notin># completedChallenges a' \<and> i \<notin># cancelledChallenges a') \<and>
    (pendingAuthChallenge a' \<noteq> pendingAuthChallenge a \<longrightarrow> authChallengeUpdated a < authChallengeUpdated a')"
  using challenge_step_ok [OF assms(2) challenge_run_ok [OF assms(1)]] challenge_step_signals [OF assms(2)]
  by (auto simp: challenges_ok_def ends_def not_in_iff)

definition sampleChallenges :: challenges where
  "sampleChallenges = fst (beginComplete 1 (publishAuthChallenge 1 (fst (newAuthChallengeID (noChallenges 0)))))"

lemma sampleChallenges_run: "challenge_run sampleChallenges" "1 \<in># underValidation sampleChallenges"
proof -
  have "challenge_step (noChallenges 0) (publishAuthChallenge 1 (fst (newAuthChallengeID (noChallenges 0))))"
    by (rule challenge_publish) (simp add: newAuthChallengeID_def noChallenges_def)
  then show "challenge_run sampleChallenges"
    unfolding sampleChallenges_def by (meson challenge_run.intros challenge_begin)
qed (simp add: sampleChallenges_def challenge_defs noChallenges_def)

theorem challenge_ends_once_witness:
  "completedChallenges (fst (finishComplete 1 None sampleChallenges)) = {#1#} \<and>
   authChallengeUpdated sampleChallenges < authChallengeUpdated (fst (finishComplete 1 None sampleChallenges))"
proof -
  have e: "completedChallenges (fst (finishComplete 1 None sampleChallenges)) = {#1#}" "pendingAuthChallenge sampleChallenges = Some 1"
    "pendingAuthChallenge (fst (finishComplete 1 None sampleChallenges)) = None"
    by (simp_all add: sampleChallenges_def challenge_defs noChallenges_def Let_def)
  from challenge_ends_once [OF sampleChallenges_run(1) challenge_finish [OF sampleChallenges_run(2)], of None 1] e
  show ?thesis by simp
qed

section \<open>Obtaining a session\<close>

text \<open>
  The rounds of \<open>obtainSession\<close>: what \<open>Advance\<close> returns, and the answer to the challenge that follows when
  there is one. The result comes with the number of times that the continuation was closed; it is \<open>None\<close>
  while the script does not reach an end.
\<close>

datatype advance = AdvanceFails go_error | AdvanceReturns "nat option" bool

definition closing :: "go_error \<Rightarrow> go_error option \<Rightarrow> string \<Rightarrow> (nat result \<times> nat) option" where
  "closing err closeErr m = Some (Inl (the (appendError (Some err) closeErr m)), 1)"

fun obtainRounds :: "go_error option \<Rightarrow> (advance \<times> unit result) list \<Rightarrow> (nat result \<times> nat) option" where
  "obtainRounds closeErr [] = None"
| "obtainRounds closeErr ((AdvanceFails err, r) # rs) = closing err closeErr ''close failed openconnect authentication continuation''"
| "obtainRounds closeErr ((AdvanceReturns (Some n) True, r) # rs) =
     closing (Extend (Sentinel ErrProtocolNotSupported) ''authentication continuation returned a session and a pending challenge together'')
       closeErr ''close invalid openconnect authentication continuation''"
| "obtainRounds closeErr ((AdvanceReturns (Some n) False, r) # rs) = Some (Inr n, 0)"
| "obtainRounds closeErr ((AdvanceReturns None False, r) # rs) =
     closing (Extend (Sentinel ErrProtocolNotSupported) ''authentication continuation returned neither a session nor a pending challenge'')
       closeErr ''close invalid openconnect authentication continuation''"
| "obtainRounds closeErr ((AdvanceReturns None True, Inl err) # rs) = closing err closeErr ''close openconnect authentication continuation''"
| "obtainRounds closeErr ((AdvanceReturns None True, Inr r) # rs) = obtainRounds closeErr rs"

definition obtainSession :: "bool \<Rightarrow> go_error option \<Rightarrow> (advance \<times> unit result) list \<Rightarrow> (nat result \<times> nat) option" where
  "obtainSession hasContinuation closeErr rs =
     (if \<not> hasContinuation
      then Some (Inl (Extend (Sentinel ErrProtocolNotSupported) ''flavor returned an empty authentication continuation''), 0)
      else obtainRounds closeErr rs)"

text \<open>The continuation is closed once when no session is returned, and left to the session otherwise.\<close>

lemma obtainSession_closes:
  assumes "obtainSession True closeErr rs = Some (r, n)"
  shows "n = (case r of Inl err \<Rightarrow> 1 | Inr s \<Rightarrow> 0)"
proof -
  have "obtainRounds closeErr rs = Some (r, n)" using assms by (simp add: obtainSession_def)
  then show ?thesis by (induction closeErr rs rule: obtainRounds.induct) (auto simp: closing_def)
qed

end
