(* ===== verification/Dtls_Record.thy ===== *)
theory Dtls_Record
  imports Esp_Replay Cbc "HOL-Library.Sublist"
begin

text \<open>
  The record layer of the DTLS versions that no library speaks any more (\<^verbatim>\<open>dtls_legacy_record.go\<close>):
  records in datagrams, their encryption with a MAC inside CBC padding, the replay window, and the
  connection that reads and writes application data.

  The block ciphers and the keyed hash of the Go standard library are parameters; CBC chaining is that of \<open>Cbc\<close>. The random initialisation vector of a record is an argument.
\<close>

section \<open>Definitions\<close>

subsection \<open>Records\<close>

definition legacyDTLSRecordHeaderLength :: nat where "legacyDTLSRecordHeaderLength = 13"
definition legacyDTLSContentCCS :: byte where "legacyDTLSContentCCS = 20"
definition legacyDTLSContentAlert :: byte where "legacyDTLSContentAlert = 21"
definition legacyDTLSContentHandshake :: byte where "legacyDTLSContentHandshake = 22"
definition legacyDTLSContentApplication :: byte where "legacyDTLSContentApplication = 23"
definition legacyDTLSMaxSequence :: u64 where "legacyDTLSMaxSequence = 0x0000ffffffffffff"
definition legacyDTLSMACLength :: nat where "legacyDTLSMACLength = 20"

lemmas content_defs [simp] = legacyDTLSContentCCS_def legacyDTLSContentAlert_def legacyDTLSContentHandshake_def
  legacyDTLSContentApplication_def legacyDTLSMACLength_def legacyDTLSRecordHeaderLength_def

text \<open>A cipher under a key, as \<open>newBlock\<close> returns it, and the keyed hashes.\<close>

record block_cipher =
  encryptBlock :: "bytes \<Rightarrow> bytes"
  decryptBlock :: "bytes \<Rightarrow> bytes"

record legacyDTLSSuite =
  suiteVersion :: u16
  newBlock :: "bytes \<Rightarrow> block_cipher result"
  blockLength :: nat

record legacyDTLSKeys =
  clientMACKey :: bytes
  serverMACKey :: bytes
  clientKey :: bytes
  serverKey :: bytes

record legacyDTLSRecord =
  contentType :: byte
  epoch :: u16
  recordSequence :: u64
  recordPayload :: bytes

definition putUint48 :: "u64 \<Rightarrow> bytes" where
  "putUint48 v = [ucast (drop_bit 40 v), ucast (drop_bit 32 v), ucast (drop_bit 24 v), ucast (drop_bit 16 v),
     ucast (drop_bit 8 v), ucast v]"

definition readUint48 :: "bytes \<Rightarrow> u64" where
  "readUint48 bs = push_bit 40 (ucast (bs ! 0)) OR push_bit 32 (ucast (bs ! 1)) OR push_bit 24 (ucast (bs ! 2)) OR
     push_bit 16 (ucast (bs ! 3)) OR push_bit 8 (ucast (bs ! 4)) OR ucast (bs ! 5)"

function parseLegacyDTLSRecords :: "u16 \<Rightarrow> bytes \<Rightarrow> legacyDTLSRecord list result" where
  "parseLegacyDTLSRecords version datagram =
     (if datagram = [] then Inr []
      else if length datagram < legacyDTLSRecordHeaderLength then Inl (New ''short record header: '')
      else if get_u16 (subslice datagram 1 3) \<noteq> version then Inl (New ''unexpected record version: '')
      else
        let recordLength = legacyDTLSRecordHeaderLength + unat (get_u16 (subslice datagram 11 13)) in
        if length datagram < recordLength then Inl (New ''truncated record payload'')
        else
          let r = \<lparr>contentType = datagram ! 0, epoch = get_u16 (subslice datagram 3 5),
                recordSequence = readUint48 (subslice datagram 5 11),
                recordPayload = subslice datagram legacyDTLSRecordHeaderLength recordLength\<rparr>
          in case parseLegacyDTLSRecords version (drop recordLength datagram) of
               Inl e \<Rightarrow> Inl e
             | Inr rs \<Rightarrow> Inr (r # rs))"
  by pat_completeness auto
termination
  by (relation "measure (\<lambda>(version, datagram). length datagram)") auto

declare parseLegacyDTLSRecords.simps [simp del]

definition marshalLegacyDTLSRecord :: "u16 \<Rightarrow> legacyDTLSRecord \<Rightarrow> bytes result" where
  "marshalLegacyDTLSRecord version r =
     (if recordSequence r > legacyDTLSMaxSequence then Inl (New ''record sequence exceeds 48 bits'')
      else if length (recordPayload r) > 65535 then Inl (New ''record payload is too large: '')
      else Inr (contentType r # put_u16 version @ put_u16 (epoch r) @ putUint48 (recordSequence r) @
        put_u16 (u16_of (length (recordPayload r))) @ recordPayload r))"

definition legacyDTLSRecordMAC :: "(bytes \<Rightarrow> bytes \<Rightarrow> bytes) \<Rightarrow> u16 \<Rightarrow> legacyDTLSRecord \<Rightarrow> bytes \<Rightarrow> bytes \<Rightarrow> bytes" where
  "legacyDTLSRecordMAC hmac version r payload key =
     hmac key (put_u16 (epoch r) @ putUint48 (recordSequence r) @ [contentType r] @ put_u16 version @
       put_u16 (u16_of (length payload)) @ payload)"

subsection \<open>Encryption\<close>

definition encryptLegacyDTLSRecord ::
  "(bytes \<Rightarrow> bytes \<Rightarrow> bytes) \<Rightarrow> legacyDTLSSuite \<Rightarrow> bytes result \<Rightarrow> legacyDTLSRecord \<Rightarrow> bytes \<Rightarrow> bytes \<Rightarrow> bytes result" where
  "encryptLegacyDTLSRecord hmac suite random r key macKey =
     (case newBlock suite key of
        Inl e \<Rightarrow> Inl (Cause e ''initialize record cipher'')
      | Inr block \<Rightarrow>
          let plaintext = recordPayload r @ legacyDTLSRecordMAC hmac (suiteVersion suite) r (recordPayload r) macKey;
              paddingLength = blockLength suite - length plaintext mod blockLength suite;
              padded = plaintext @ replicate paddingLength (byte_of (paddingLength - 1))
          in case random of
               Inl e \<Rightarrow> Inl (Cause e ''generate record IV'')
             | Inr iv \<Rightarrow> marshalLegacyDTLSRecord (suiteVersion suite)
                 (r\<lparr>recordPayload := iv @ cbc_encrypt (blockLength suite) (encryptBlock block) iv padded\<rparr>))"

text \<open>The check of the padding looks at up to 256 bytes, whatever they are, so that its time tells nothing.\<close>

definition paddingValid :: "bytes \<Rightarrow> bool" where
  "paddingValid plaintext \<longleftrightarrow>
     (let n = length plaintext; paddingValue = plaintext ! (n - 1); paddingLength = unat paddingValue + 1
      in int paddingLength \<le> int n - int legacyDTLSMACLength \<and>
         list_all (\<lambda>i. i + 1 \<le> paddingLength \<longrightarrow> plaintext ! (n - 1 - i) = paddingValue) [0..<min 256 n])"

definition decryptLegacyDTLSRecord ::
  "(bytes \<Rightarrow> bytes \<Rightarrow> bytes) \<Rightarrow> legacyDTLSSuite \<Rightarrow> legacyDTLSRecord \<Rightarrow> bytes \<Rightarrow> bytes \<Rightarrow> bytes result" where
  "decryptLegacyDTLSRecord hmac suite r key macKey =
     (let n = blockLength suite; minimumCiphertextLength = (legacyDTLSMACLength + n) div n * n in
      if epoch r \<noteq> 1 then Inl (New ''encrypted record has unexpected epoch: '')
      else if length (recordPayload r) < n + minimumCiphertextLength \<or> (length (recordPayload r) - n) mod n \<noteq> 0
      then Inl (New ''invalid CBC record length: '')
      else case newBlock suite key of
        Inl e \<Rightarrow> Inl (Cause e ''initialize record cipher'')
      | Inr block \<Rightarrow>
          let plaintext = cbc_decrypt n (decryptBlock block) (take n (recordPayload r)) (drop n (recordPayload r));
              safePaddingLength = (if paddingValid plaintext then unat (last plaintext) + 1 else 1);
              payloadLength = length plaintext - safePaddingLength - legacyDTLSMACLength;
              payload = take payloadLength plaintext;
              receivedMAC = subslice plaintext payloadLength (payloadLength + legacyDTLSMACLength);
              expectedMAC = legacyDTLSRecordMAC hmac (suiteVersion suite) r payload macKey
          in if paddingValid plaintext \<and> receivedMAC = expectedMAC then Inr payload
             else Inl (New ''invalid record authentication''))"

subsection \<open>The replay window\<close>

record legacyDTLSReplayWindow =
  windowInitialized :: bool
  windowMaximum :: u64
  windowBitmap :: u64

definition emptyReplayWindow :: legacyDTLSReplayWindow where
  "emptyReplayWindow = \<lparr>windowInitialized = False, windowMaximum = 0, windowBitmap = 0\<rparr>"

definition acceptDTLS :: "legacyDTLSReplayWindow \<Rightarrow> u64 \<Rightarrow> bool \<times> legacyDTLSReplayWindow" where
  "acceptDTLS w sequence =
     (if \<not> windowInitialized w then (True, \<lparr>windowInitialized = True, windowMaximum = sequence, windowBitmap = 1\<rparr>)
      else if sequence > windowMaximum w then
        let shift = sequence - windowMaximum w
        in (True, w\<lparr>windowBitmap := (if shift \<ge> 64 then 1 else push_bit (unat shift) (windowBitmap w) OR 1),
              windowMaximum := sequence\<rparr>)
      else
        let difference = windowMaximum w - sequence in
        if difference \<ge> 64 then (False, w)
        else let mask = push_bit (unat difference) 1
             in if windowBitmap w AND mask \<noteq> 0 then (False, w) else (True, w\<lparr>windowBitmap := windowBitmap w OR mask\<rparr>))"

section \<open>The window keeps track of what it accepted\<close>

text \<open>Bit \<open>i\<close> of the bitmap stands for the sequence number \<open>i\<close> below the newest one.\<close>

definition below_track :: "nat \<Rightarrow> u64 \<Rightarrow> nat set \<Rightarrow> bool" where
  "below_track m b R \<longleftrightarrow> m \<in> R \<and> (\<forall>r \<in> R. r \<le> m) \<and> (\<forall>i < 64. bit b i \<longleftrightarrow> i \<le> m \<and> m - i \<in> R)"

definition tracksDTLS :: "legacyDTLSReplayWindow \<Rightarrow> u64 set \<Rightarrow> bool" where
  "tracksDTLS w S \<longleftrightarrow>
     (if windowInitialized w then below_track (unat (windowMaximum w)) (windowBitmap w) (unat ` S) else S = {})"

definition freshDTLS :: "u64 set \<Rightarrow> u64 \<Rightarrow> bool" where
  "freshDTLS S s \<longleftrightarrow> s \<notin> S \<and> (\<forall>t \<in> S. unat t < unat s + 64)"

lemma below_track_newer:
  assumes "below_track m b R" "m < s" "\<And>i. i < 64 \<Longrightarrow> bit b' i \<longleftrightarrow> i = 0 \<or> (s - m \<le> i \<and> bit b (i - (s - m)))"
  shows "below_track s b' (insert s R)"
proof -
  have "bit b' i \<longleftrightarrow> i \<le> s \<and> s - i \<in> insert s R" if i: "i < 64" for i
  proof -
    consider "i = 0" | "0 < i" "i < s - m" | "0 < i" "s - m \<le> i" by linarith
    then show ?thesis
    proof cases
      case 1
      then show ?thesis using assms(3) [OF i] by simp
    next
      case 2
      then have "m < s - i" by linarith
      then have "s - i \<notin> R" using assms(1) by (force simp: below_track_def)
      then show ?thesis using 2 assms(3) [OF i] by auto
    next
      case 3
      have "bit b (i - (s - m)) \<longleftrightarrow> i - (s - m) \<le> m \<and> m - (i - (s - m)) \<in> R"
        using assms(1) i by (simp add: below_track_def)
      moreover have "m - (i - (s - m)) = s - i" "i - (s - m) \<le> m \<longleftrightarrow> i \<le> s" "s - i \<noteq> s \<or> \<not> i \<le> s"
        using 3 assms(2) by linarith+
      ultimately show ?thesis using 3 assms(3) [OF i] by auto
    qed
  qed
  then show ?thesis using assms(1,2) by (force simp: below_track_def)
qed

lemma below_track_older:
  assumes "below_track m b R" "s \<le> m" "\<And>i. i < 64 \<Longrightarrow> bit b' i \<longleftrightarrow> bit b i \<or> i = m - s"
  shows "below_track m b' (insert s R)"
proof -
  have "i = m - s \<longleftrightarrow> i \<le> m \<and> m - i = s" for i using assms(2) by linarith
  then show ?thesis using assms by (auto simp: below_track_def)
qed

lemma inj_unat_u64: "inj (unat :: u64 \<Rightarrow> nat)"
  by (rule injI) (simp add: word_unat_eq_iff)

lemma accept_first:
  assumes "\<not> windowInitialized w" "tracksDTLS w S"
  shows "acceptDTLS w s = (True, \<lparr>windowInitialized = True, windowMaximum = s, windowBitmap = 1\<rparr>)"
    "tracksDTLS (snd (acceptDTLS w s)) (insert s S)" "S = {}"
proof -
  show "acceptDTLS w s = (True, \<lparr>windowInitialized = True, windowMaximum = s, windowBitmap = 1\<rparr>)" "S = {}"
    using assms by (simp_all add: acceptDTLS_def tracksDTLS_def)
  moreover have "unat s - i = unat s \<longleftrightarrow> i = 0 \<or> unat s = 0" for i by linarith
  ultimately show "tracksDTLS (snd (acceptDTLS w s)) (insert s S)"
    by (auto simp: tracksDTLS_def below_track_def bit_1_iff)
qed

lemma acceptDTLS_newer:
  assumes "windowInitialized w" "tracksDTLS w S" "windowMaximum w < s"
  shows "fst (acceptDTLS w s)" "tracksDTLS (snd (acceptDTLS w s)) (insert s S)"
proof -
  have less: "unat (windowMaximum w) < unat s" using assms(3) by (simp add: word_less_nat_alt)
  have d: "unat (s - windowMaximum w) = unat s - unat (windowMaximum w)" using assms(3) by (simp add: unat_sub order_less_imp_le)
  show "fst (acceptDTLS w s)" using assms by (simp add: acceptDTLS_def Let_def)
  have "below_track (unat s) (windowBitmap (snd (acceptDTLS w s))) (insert (unat s) (unat ` S))"
  proof (rule below_track_newer [of "unat (windowMaximum w)" "windowBitmap w"])
    show "below_track (unat (windowMaximum w)) (windowBitmap w) (unat ` S)" using assms(1,2) by (simp add: tracksDTLS_def)
    show "bit (windowBitmap (snd (acceptDTLS w s))) i \<longleftrightarrow>
        i = 0 \<or> (unat s - unat (windowMaximum w) \<le> i \<and> bit (windowBitmap w) (i - (unat s - unat (windowMaximum w))))" if "i < 64" for i
      using assms that less by (auto simp: acceptDTLS_def Let_def word_le_nat_alt d bit_simps)
  qed (use less in simp)
  then show "tracksDTLS (snd (acceptDTLS w s)) (insert s S)"
    using assms by (simp add: acceptDTLS_def Let_def tracksDTLS_def)
qed

lemma acceptDTLS_older:
  assumes "windowInitialized w" "tracksDTLS w S" "s \<le> windowMaximum w"
  shows "fst (acceptDTLS w s) \<longleftrightarrow> s \<notin> S \<and> unat (windowMaximum w) < unat s + 64"
    "tracksDTLS (snd (acceptDTLS w s)) (if fst (acceptDTLS w s) then insert s S else S)"
proof -
  let ?m = "unat (windowMaximum w)" and ?d = "unat (windowMaximum w) - unat s"
  have le: "unat s \<le> ?m" "\<not> windowMaximum w < s" using assms(3) by (simp_all add: word_le_nat_alt word_less_nat_alt)
  have d: "unat (windowMaximum w - s) = ?d" using assms(3) by (simp add: unat_sub)
  have t: "below_track ?m (windowBitmap w) (unat ` S)" using assms(1,2) by (simp add: tracksDTLS_def)
  have b: "bit (windowBitmap w) ?d \<longleftrightarrow> s \<in> S" if "?d < 64"
    using t that le(1) inj_image_mem_iff [OF inj_unat_u64, of s S] by (auto simp: below_track_def)
  show iff: "fst (acceptDTLS w s) \<longleftrightarrow> s \<notin> S \<and> ?m < unat s + 64"
    using assms(1) le b by (auto simp: acceptDTLS_def Let_def word_le_nat_alt d and_exp_eq_0_iff_not_bit push_bit_of_1)
  show "tracksDTLS (snd (acceptDTLS w s)) (if fst (acceptDTLS w s) then insert s S else S)"
  proof (cases "fst (acceptDTLS w s)")
    case True
    have "below_track ?m (windowBitmap w OR push_bit ?d 1) (insert (unat s) (unat ` S))"
      by (rule below_track_older [OF t le(1)]) (auto simp: bit_simps)
    then show ?thesis
      using True assms(1) le by (auto simp: acceptDTLS_def Let_def d tracksDTLS_def split: if_splits)
  next
    case False
    then show ?thesis using assms(1,2) le by (auto simp: acceptDTLS_def Let_def split: if_splits)
  qed
qed

lemma freshDTLS_iff:
  assumes "windowInitialized w" "tracksDTLS w S"
  shows "freshDTLS S s \<longleftrightarrow> s \<notin> S \<and> unat (windowMaximum w) < unat s + 64"
  using assms by (fastforce simp: freshDTLS_def tracksDTLS_def below_track_def)

interpretation dtls_window: replay_filter emptyReplayWindow acceptDTLS tracksDTLS freshDTLS
proof unfold_locales
  show "tracksDTLS emptyReplayWindow {}" by (simp add: tracksDTLS_def emptyReplayWindow_def)
next
  fix w S s assume t: "tracksDTLS w S"
  have newer: "s \<notin> S \<and> unat (windowMaximum w) < unat s + 64" if "windowInitialized w" "windowMaximum w < s"
    using that t by (fastforce simp: tracksDTLS_def below_track_def word_less_nat_alt)
  show "fst (acceptDTLS w s) \<longleftrightarrow> freshDTLS S s"
    using accept_first(1) [OF _ t, of s] accept_first(3) [OF _ t] acceptDTLS_newer(1) [OF _ t, of s] acceptDTLS_older(1) [OF _ t, of s] freshDTLS_iff [OF _ t, of s] newer
    by (cases "windowInitialized w"; cases "windowMaximum w < s") (auto simp: freshDTLS_def)
  show "tracksDTLS (snd (acceptDTLS w s)) (insert s S)" if "fst (acceptDTLS w s)"
    using that accept_first(2) [OF _ t, of s] acceptDTLS_newer(2) [OF _ t, of s] acceptDTLS_older(2) [OF _ t, of s]
    by (cases "windowInitialized w"; cases "windowMaximum w < s") auto
  show "tracksDTLS (snd (acceptDTLS w s)) S" if "\<not> fst (acceptDTLS w s)"
    using that accept_first(1) [OF _ t, of s] acceptDTLS_newer(1) [OF _ t, of s] acceptDTLS_older(2) [OF _ t, of s]
    by (cases "windowInitialized w"; cases "windowMaximum w < s") auto
qed (simp add: freshDTLS_def)

section \<open>Records in datagrams\<close>

lemma length_putUint48 [simp]: "length (putUint48 v) = 6"
  by (simp add: putUint48_def)

lemma read_putUint48:
  assumes "v \<le> legacyDTLSMaxSequence"
  shows "readUint48 (putUint48 v) = v"
proof -
  have "unat v < 2 ^ 48" using assms by (simp add: legacyDTLSMaxSequence_def word_le_nat_alt)
  then have v: "take_bit 48 (unat v) = unat v" by (rule take_bit_nat_eq_self)
  have high: "\<not> bit v n" if "48 \<le> n" for n
  proof
    assume "bit v n"
    then have "bit (take_bit 48 (unat v)) n" unfolding v by (simp add: bit_unsigned_iff)
    with that show False by (simp add: bit_take_bit_iff)
  qed
  show ?thesis
  proof (rule bit_word_eqI)
    fix n assume "n < LENGTH(64)"
    then consider "n < 8" | "8 \<le> n" "n < 16" | "16 \<le> n" "n < 24" | "24 \<le> n" "n < 32" | "32 \<le> n" "n < 40" | "40 \<le> n" "n < 48"
      | "48 \<le> n" "n < 64" by fastforce
    then show "bit (readUint48 (putUint48 v)) n = bit v n"
      by cases (auto simp: readUint48_def putUint48_def bit_simps high)
  qed
qed

lemma parse_marshal:
  assumes "marshalLegacyDTLSRecord version r = Inr d"
  shows "parseLegacyDTLSRecords version (d @ rest) =
    (case parseLegacyDTLSRecords version rest of Inl e \<Rightarrow> Inl e | Inr rs \<Rightarrow> Inr (r # rs))"
proof -
  have len: "recordSequence r \<le> legacyDTLSMaxSequence" "length (recordPayload r) \<le> 65535"
    and d: "d = contentType r # put_u16 version @ put_u16 (epoch r) @ putUint48 (recordSequence r) @
        put_u16 (u16_of (length (recordPayload r))) @ recordPayload r"
    using assms by (auto simp: marshalLegacyDTLSRecord_def split: if_split_asm)
  let ?h = "[contentType r] @ put_u16 version @ put_u16 (epoch r) @ putUint48 (recordSequence r) @ put_u16 (u16_of (length (recordPayload r)))"
  define D where "D = d @ rest"
  have f: "subslice D 1 3 = put_u16 version" "subslice D 3 5 = put_u16 (epoch r)"
    "subslice D 5 11 = putUint48 (recordSequence r)" "subslice D 11 13 = put_u16 (u16_of (length (recordPayload r)))"
    "D ! 0 = contentType r" "13 \<le> length D" "13 + length (recordPayload r) \<le> length D" "D \<noteq> []"
    by (simp_all add: D_def d subslice_def put_u16_def putUint48_def)
  obtain h where h: "D = h @ recordPayload r @ rest" "length h = 13" using that [of ?h] by (simp add: D_def d)
  have p: "subslice D 13 (13 + length (recordPayload r)) = recordPayload r" "drop (13 + length (recordPayload r)) D = rest"
    unfolding h(1) by (simp_all add: subslice_def h(2))
  have n: "unat (u16_of (length (recordPayload r))) = length (recordPayload r)" using len(2) by (simp add: unat_u16_of)
  have eta: "\<lparr>contentType = contentType r, epoch = epoch r, recordSequence = recordSequence r, recordPayload = recordPayload r\<rparr> = r"
    by simp
  have "parseLegacyDTLSRecords version D =
      (case parseLegacyDTLSRecords version rest of Inl e \<Rightarrow> Inl e | Inr rs \<Rightarrow> Inr (r # rs))"
    using f(6,7,8) by (subst parseLegacyDTLSRecords.simps)
      (simp add: f(1) [unfolded One_nat_def] f(2,3,4,5) p n Let_def read_putUint48 [OF len(1)] not_less eta)
  then show ?thesis by (simp add: D_def)
qed

fun marshalAll :: "u16 \<Rightarrow> legacyDTLSRecord list \<Rightarrow> bytes result" where
  "marshalAll version [] = Inr []"
| "marshalAll version (r # rs) =
     (case marshalLegacyDTLSRecord version r of
        Inl e \<Rightarrow> Inl e
      | Inr d \<Rightarrow> (case marshalAll version rs of Inl e \<Rightarrow> Inl e | Inr ds \<Rightarrow> Inr (d @ ds)))"

lemma parse_marshalAll:
  "marshalAll version rs = Inr d \<Longrightarrow> parseLegacyDTLSRecords version d = Inr rs"
proof (induction rs arbitrary: d)
  case Nil
  then show ?case by (simp add: parseLegacyDTLSRecords.simps)
next
  case (Cons r rs)
  obtain d1 ds where "marshalLegacyDTLSRecord version r = Inr d1" "marshalAll version rs = Inr ds" "d = d1 @ ds"
    using Cons.prems by (auto split: sum.split_asm)
  then show ?case using Cons.IH parse_marshal by simp
qed

section \<open>Encryption and decryption\<close>

definition suite_ok :: "legacyDTLSSuite \<Rightarrow> bool" where
  "suite_ok suite \<longleftrightarrow> 0 < blockLength suite \<and> blockLength suite \<le> 256 \<and>
     (\<forall>key b. newBlock suite key = Inr b \<longrightarrow> (\<forall>x. length x = blockLength suite \<longrightarrow>
        length (encryptBlock b x) = blockLength suite \<and> length (decryptBlock b x) = blockLength suite \<and>
        decryptBlock b (encryptBlock b x) = x))"

definition mac_ok :: "(bytes \<Rightarrow> bytes \<Rightarrow> bytes) \<Rightarrow> bool" where
  "mac_ok hmac \<longleftrightarrow> (\<forall>k m. length (hmac k m) = legacyDTLSMACLength)"

lemma length_MAC: "mac_ok hmac \<Longrightarrow> length (legacyDTLSRecordMAC hmac v r p k) = 20"
  by (simp add: mac_ok_def legacyDTLSRecordMAC_def)

lemma MAC_payload [simp]: "legacyDTLSRecordMAC hmac v (r\<lparr>recordPayload := q\<rparr>) p k = legacyDTLSRecordMAC hmac v r p k"
  by (simp add: legacyDTLSRecordMAC_def)

text \<open>The check of the padding is that of a plain comparison of the last bytes.\<close>

lemma paddingValid_iff:
  assumes "plaintext \<noteq> []"
  shows "paddingValid plaintext \<longleftrightarrow>
    unat (last plaintext) + 1 + 20 \<le> length plaintext \<and>
    drop (length plaintext - (unat (last plaintext) + 1)) plaintext = replicate (unat (last plaintext) + 1) (last plaintext)"
proof -
  let ?n = "length plaintext" and ?v = "last plaintext"
  let ?k = "unat ?v + 1"
  have v: "plaintext ! (?n - 1) = ?v" using assms by (simp add: last_conv_nth)
  have k: "?k \<le> 256" using unat_byte_less [of ?v] by linarith
  have "list_all (\<lambda>i. i + 1 \<le> ?k \<longrightarrow> plaintext ! (?n - 1 - i) = ?v) [0..<min 256 ?n] \<longleftrightarrow>
      drop (?n - ?k) plaintext = replicate ?k ?v" if le: "?k \<le> ?n"
  proof -
    have "list_all (\<lambda>i. i + 1 \<le> ?k \<longrightarrow> plaintext ! (?n - 1 - i) = ?v) [0..<min 256 ?n] \<longleftrightarrow> (\<forall>i < ?k. plaintext ! (?n - 1 - i) = ?v)"
      using k le by (auto simp: list_all_iff)
    also have "\<dots> \<longleftrightarrow> (\<forall>j < ?k. plaintext ! (?n - ?k + j) = ?v)"
    proof (intro iffI allI impI)
      fix j assume "\<forall>i < ?k. plaintext ! (?n - 1 - i) = ?v" "j < ?k"
      moreover have "?n - 1 - (?k - 1 - j) = ?n - ?k + j" using le \<open>j < ?k\<close> by simp
      ultimately show "plaintext ! (?n - ?k + j) = ?v" by (metis diff_less_Suc less_imp_diff_less Suc_eq_plus1 diff_add_inverse2 add_diff_cancel_right')
    next
      fix i assume "\<forall>j < ?k. plaintext ! (?n - ?k + j) = ?v" "i < ?k"
      moreover have "?n - ?k + (?k - 1 - i) = ?n - 1 - i" using le \<open>i < ?k\<close> by simp
      ultimately show "plaintext ! (?n - 1 - i) = ?v" by (metis diff_less_Suc less_imp_diff_less Suc_eq_plus1 diff_add_inverse2 add_diff_cancel_right')
    qed
    also have "\<dots> \<longleftrightarrow> drop (?n - ?k) plaintext = replicate ?k ?v"
      using le by (auto simp: list_eq_iff_nth_eq nth_replicate simp del: replicate_Suc)
    finally show ?thesis .
  qed
  moreover have "int ?k \<le> int ?n - int legacyDTLSMACLength \<longleftrightarrow> ?k + 20 \<le> ?n" unfolding legacyDTLSMACLength_def by linarith
  ultimately show ?thesis unfolding paddingValid_def Let_def v by (metis (no_types, lifting) add_leD1)
qed

lemma legacy_plaintext:
  assumes "mac_ok hmac" "plaintext \<noteq> []"
  shows "(paddingValid plaintext \<and>
      subslice plaintext (length plaintext - (unat (last plaintext) + 1) - 20) (length plaintext - (unat (last plaintext) + 1)) =
        legacyDTLSRecordMAC hmac v r (take (length plaintext - (unat (last plaintext) + 1) - 20) plaintext) macKey \<and>
      payload = take (length plaintext - (unat (last plaintext) + 1) - 20) plaintext) \<longleftrightarrow>
    (\<exists>k. 0 < k \<and> k \<le> 256 \<and> plaintext = payload @ legacyDTLSRecordMAC hmac v r payload macKey @ replicate k (byte_of (k - 1)))"
    (is "?L \<longleftrightarrow> ?R")
proof
  let ?k = "unat (last plaintext) + 1"
  assume L: ?L
  then have le: "?k + 20 \<le> length plaintext" and pad: "drop (length plaintext - ?k) plaintext = replicate ?k (last plaintext)"
    using paddingValid_iff [OF assms(2)] by auto
  let ?p = "length plaintext - ?k - 20"
  have "plaintext = take ?p plaintext @ take 20 (drop ?p plaintext) @ drop 20 (drop ?p plaintext)" by (simp only: append_take_drop_id)
  moreover have "drop 20 (drop ?p plaintext) = replicate ?k (last plaintext)" using pad le by (simp add: add.commute)
  moreover have "take 20 (drop ?p plaintext) = legacyDTLSRecordMAC hmac v r payload macKey"
    using L le by (simp add: subslice_def)
  ultimately have "plaintext = payload @ legacyDTLSRecordMAC hmac v r payload macKey @ replicate ?k (last plaintext)"
    using L by metis
  moreover have "last plaintext = byte_of (?k - 1)" by simp
  moreover have "?k \<le> 256" using unat_byte_less [of "last plaintext"] by linarith
  ultimately show ?R by (metis add_gr_0 zero_less_one)
next
  assume ?R
  then obtain k where k: "0 < k" "k \<le> 256" and p: "plaintext = payload @ legacyDTLSRecordMAC hmac v r payload macKey @ replicate k (byte_of (k - 1))"
    by blast
  have l: "last plaintext = byte_of (k - 1)" using k(1) by (simp add: p)
  have u: "unat (last plaintext) + 1 = k" using k unat_byte_of [of "k - 1"] unfolding l by simp
  note m = length_MAC [OF assms(1)]
  have len: "length plaintext = length payload + 20 + k" by (simp add: p m)
  have "drop (length payload + 20) plaintext = replicate k (last plaintext)" unfolding l by (simp add: p m)
  then have "k + 20 \<le> length plaintext \<and> drop (length plaintext - k) plaintext = replicate k (last plaintext)" by (simp add: len)
  then have "paddingValid plaintext" using paddingValid_iff [OF assms(2)] unfolding u by blast
  moreover have "take (length payload) plaintext = payload" "subslice plaintext (length payload) (length payload + 20) = legacyDTLSRecordMAC hmac v r payload macKey"
    by (simp_all add: p subslice_def m)
  ultimately show ?L unfolding u len by (simp add: add.commute)
qed

text \<open>The least length of a text is that of the blocks with more than a MAC.\<close>

lemma minimum_length:
  assumes "0 < n" "n dvd m"
  shows "(20 + n) div n * n \<le> m \<longleftrightarrow> 21 \<le> (m :: nat)"
proof -
  obtain q where q: "m = n * q" using assms(2) by blast
  have min: "(20 + n) div n * n = n * (20 div n + 1)" using assms(1) div_add_self2 [of n 20] by (simp add: mult.commute)
  have "20 < n * (20 div n + 1)" using dividend_less_div_times [OF assms(1), of 20] by (simp add: algebra_simps)
  moreover have "n * (20 div n + 1) \<le> n * q" if "21 \<le> n * q"
  proof -
    have "20 div n < q"
    proof (rule ccontr)
      assume "\<not> 20 div n < q"
      then have "n * q \<le> n * (20 div n)" by (intro mult_left_mono) simp_all
      also have "\<dots> \<le> 20" by simp
      finally show False using that by simp
    qed
    then show ?thesis by (intro mult_left_mono) simp_all
  qed
  ultimately show ?thesis unfolding min q by linarith
qed

lemma record_lengths:
  assumes "0 < n"
  shows "\<not> (length c < n + (20 + n) div n * n \<or> (length c - n) mod n \<noteq> 0) \<longleftrightarrow> n + 21 \<le> length c \<and> n dvd length c"
proof (cases "n \<le> length c \<and> n dvd length c")
  case True
  then have "n dvd length c - n" by (simp add: dvd_diff_nat)
  then show ?thesis using True minimum_length [OF assms, of "length c - n"] by auto
next
  case False
  then show ?thesis by (metis add_leD1 dvd_diffD dvd_refl mod_0_imp_dvd not_less trans_le_add1)
qed

lemma decrypt_length:
  "\<lbrakk>0 < n; n dvd length cipher; \<And>x. length x = n \<Longrightarrow> length (dec x) = n; length chain = n\<rbrakk> \<Longrightarrow> length (cbc_decrypt n dec chain cipher) = length cipher"
proof (induction "length cipher" arbitrary: chain cipher rule: less_induct)
  case less
  show ?case
  proof (cases "cipher = []")
    case True
    then show ?thesis by (simp add: cbc_decrypt.simps)
  next
    case False
    note b = block_split [OF less.prems(2) False]
    have "length (cbc_decrypt n dec (take n cipher) (drop n cipher)) = length (drop n cipher)"
      using less.prems False b by (intro less.hyps) auto
    then show ?thesis using less.prems False b by (simp add: cbc_decrypt.simps [of n dec chain])
  qed
qed

text \<open>
  A record is opened exactly when its text decrypts to a payload, the MAC of that payload under the
  record's epoch, sequence number, type and version, and padding.
\<close>

lemma decrypt_exact:
  assumes "mac_ok hmac" "suite_ok suite"
  shows "decryptLegacyDTLSRecord hmac suite r key macKey = Inr payload \<longleftrightarrow>
    epoch r = 1 \<and> blockLength suite + 21 \<le> length (recordPayload r) \<and> blockLength suite dvd length (recordPayload r) \<and>
    (\<exists>b k. newBlock suite key = Inr b \<and> 0 < k \<and> k \<le> 256 \<and>
       cbc_decrypt (blockLength suite) (decryptBlock b) (take (blockLength suite) (recordPayload r)) (drop (blockLength suite) (recordPayload r)) =
         payload @ legacyDTLSRecordMAC hmac (suiteVersion suite) r payload macKey @ replicate k (byte_of (k - 1)))"
proof -
  let ?n = "blockLength suite" and ?c = "recordPayload r"
  have n: "0 < ?n" using assms(2) by (simp add: suite_ok_def)
  note lens = record_lengths [OF n, of ?c]
  show ?thesis
  proof (cases "epoch r = 1 \<and> (?n + 21 \<le> length ?c \<and> ?n dvd length ?c) \<and> \<not> isl (newBlock suite key)")
    case False
    then show ?thesis
      unfolding decryptLegacyDTLSRecord_def Let_def using lens by (auto split: sum.split)
  next
    case True
    then obtain b where b: "newBlock suite key = Inr b" by (cases "newBlock suite key") auto
    define plain where "plain = cbc_decrypt ?n (decryptBlock b) (take ?n ?c) (drop ?n ?c)"
    have "length plain = length (drop ?n ?c)"
      unfolding plain_def using True n assms(2) b by (intro decrypt_length) (auto simp: dvd_diff_nat suite_ok_def)
    then have ne: "plain \<noteq> []" and ge: "21 \<le> length plain" using True by auto
    have le: "length plain - (unat (last plain) + 1) - 20 + 20 = length plain - (unat (last plain) + 1)" if "paddingValid plain"
      using that paddingValid_iff [OF ne] by auto
    have "decryptLegacyDTLSRecord hmac suite r key macKey = Inr payload \<longleftrightarrow>
      (\<exists>k. 0 < k \<and> k \<le> 256 \<and> plain = payload @ legacyDTLSRecordMAC hmac (suiteVersion suite) r payload macKey @ replicate k (byte_of (k - 1)))"
      unfolding legacy_plaintext [OF assms(1) ne, symmetric]
      using True lens le unfolding decryptLegacyDTLSRecord_def Let_def b
      by (auto simp flip: plain_def)
    then show ?thesis using True b by (auto simp flip: plain_def)
  qed
qed

end
