(* ===== verification/Dtls_Connection.thy ===== *)
theory Dtls_Connection
  imports Dtls_Record
begin

text \<open>
  The connection over legacy DTLS records (\<^verbatim>\<open>dtls_legacy_record.go\<close>): reading datagrams, with alerts and
  the retransmitted end of the handshake, writing application data, and closing.
\<close>

section \<open>Definitions\<close>

text \<open>Buffers are values here, so that the clearing of keys and plaintexts shows only in \<open>Close\<close>.\<close>

record legacyDTLSConn =
  connSuite :: legacyDTLSSuite
  connKeys :: legacyDTLSKeys
  strict :: bool
  closeAlert :: bool
  connMTU :: int
  readQueue :: "bytes list"
  writeSequence :: u64
  connReplay :: legacyDTLSReplayWindow
  finalFlight :: "bytes list"
  serverFinished :: bytes
  connClosed :: bool

definition decryptServer :: "(bytes \<Rightarrow> bytes \<Rightarrow> bytes) \<Rightarrow> legacyDTLSRecord \<Rightarrow> legacyDTLSConn \<Rightarrow> bytes result" where
  "decryptServer hmac r c = decryptLegacyDTLSRecord hmac (connSuite c) r (serverKey (connKeys c)) (serverMACKey (connKeys c))"

text \<open>
  What a record does: to the connection, the datagrams that are written (with the error of that write,
  \<open>flightErr\<close>), and the error that \<open>Read\<close> returns.
\<close>

definition readLegacyRecord :: "(bytes \<Rightarrow> bytes \<Rightarrow> bytes) \<Rightarrow> go_error option \<Rightarrow> legacyDTLSRecord \<Rightarrow> legacyDTLSConn \<Rightarrow>
    legacyDTLSConn \<times> bytes list \<times> go_error option" where
  "readLegacyRecord hmac flightErr r c =
     (if contentType r = legacyDTLSContentApplication then
        (case decryptServer hmac r c of
           Inl e \<Rightarrow> (c, [], if strict c then Some e else None)
         | Inr plaintext \<Rightarrow>
             (case acceptDTLS (connReplay c) (recordSequence r) of (ok, w) \<Rightarrow>
                (c\<lparr>connReplay := w, readQueue := readQueue c @ (if ok then [plaintext] else [])\<rparr>, [], None)))
      else if contentType r = legacyDTLSContentHandshake then
        if epoch r \<noteq> 1 then (c, [], None)
        else (case decryptServer hmac r c of
           Inl e \<Rightarrow> (c, [], None)
         | Inr plaintext \<Rightarrow>
             if plaintext \<noteq> serverFinished c then (c, [], None)
             else (c, finalFlight c, map_option (\<lambda>e. Cause e ''retransmit final handshake flight'') flightErr))
      else if contentType r = legacyDTLSContentAlert then
        if strict c then
          (c, [], Some (if epoch r = 1 then (case decryptServer hmac r c of Inl e \<Rightarrow> e | Inr _ \<Rightarrow> New ''peer sent an alert'')
                        else New ''peer sent an alert''))
        else if epoch r \<noteq> 1 then (c, [], None)
        else (case decryptServer hmac r c of
           Inl e \<Rightarrow> (c, [], None)
         | Inr plaintext \<Rightarrow>
             (c, [], Some (if length plaintext = 2 \<and> plaintext ! 1 = 0 then External ''EOF'' else New ''peer sent alert: '')))
      else if contentType r = legacyDTLSContentCCS then (c, [], None)
      else (c, [], if strict c then Some (New ''unknown record type: '') else None))"

fun readLegacyRecords :: "(bytes \<Rightarrow> bytes \<Rightarrow> bytes) \<Rightarrow> go_error option \<Rightarrow> legacyDTLSRecord list \<Rightarrow> legacyDTLSConn \<Rightarrow>
    legacyDTLSConn \<times> bytes list \<times> go_error option" where
  "readLegacyRecords hmac flightErr [] c = (c, [], None)"
| "readLegacyRecords hmac flightErr (r # rs) c =
     (case readLegacyRecord hmac flightErr r c of
        (c', out, Some e) \<Rightarrow> (c', out, Some e)
      | (c', out, None) \<Rightarrow> (case readLegacyRecords hmac flightErr rs c' of (c'', out', e) \<Rightarrow> (c'', out @ out', e)))"

definition readDatagram :: "(bytes \<Rightarrow> bytes \<Rightarrow> bytes) \<Rightarrow> go_error option \<Rightarrow> bytes \<Rightarrow> legacyDTLSConn \<Rightarrow>
    legacyDTLSConn \<times> bytes list \<times> go_error option" where
  "readDatagram hmac flightErr datagram c =
     (case parseLegacyDTLSRecords (suiteVersion (connSuite c)) datagram of
        Inl e \<Rightarrow> (c, [], if strict c then Some e else None)
      | Inr rs \<Rightarrow> readLegacyRecords hmac flightErr rs c)"

text \<open>
  \<open>Read\<close> into a buffer of \<open>room\<close> bytes, where \<open>reads\<close> are the results of the underlying reads; \<open>None\<close> while it
  waits for another. A payload that does not fit stays in the queue.
\<close>

fun readDTLS :: "(bytes \<Rightarrow> bytes \<Rightarrow> bytes) \<Rightarrow> nat \<Rightarrow> bytes result list \<Rightarrow> legacyDTLSConn \<Rightarrow> (legacyDTLSConn \<times> bytes result) option" where
  "readDTLS hmac room reads c =
     (case readQueue c of
        payload # queue \<Rightarrow>
          Some (if room < length payload then (c, Inl (External ''short buffer'')) else (c\<lparr>readQueue := queue\<rparr>, Inr payload))
      | [] \<Rightarrow>
          (case reads of
             [] \<Rightarrow> None
           | Inl e # _ \<Rightarrow> Some (c, Inl e)
           | Inr datagram # rest \<Rightarrow>
               (case readDatagram hmac None datagram c of
                  (c', _, Some e) \<Rightarrow> Some (c', Inl e)
                | (c', _, None) \<Rightarrow> readDTLS hmac room rest c')))"

declare readDTLS.simps [simp del]

text \<open>\<open>Write\<close>: the datagram goes to the underlying connection, which returns how much of it was written.\<close>

definition writeDTLS :: "(bytes \<Rightarrow> bytes \<Rightarrow> bytes) \<Rightarrow> bytes result \<Rightarrow> (bytes \<Rightarrow> nat result) \<Rightarrow> bytes \<Rightarrow> legacyDTLSConn \<Rightarrow>
    legacyDTLSConn \<times> bytes option \<times> nat result" where
  "writeDTLS hmac random underlying payload c =
     (if connClosed c then (c, None, Inl (External ''use of closed network connection''))
      else if writeSequence c > legacyDTLSMaxSequence then (c, None, Inl (New ''record sequence exhausted''))
      else case encryptLegacyDTLSRecord hmac (connSuite c) random
             \<lparr>contentType = legacyDTLSContentApplication, epoch = 1, recordSequence = writeSequence c, recordPayload = payload\<rparr>
             (clientKey (connKeys c)) (clientMACKey (connKeys c)) of
        Inl e \<Rightarrow> (c, None, Inl e)
      | Inr encoded \<Rightarrow>
          if connMTU c > 0 \<and> int (length encoded) > connMTU c
          then (c, None, Inl (Extend (External ''message too long'') ''record exceeds MTU''))
          else (case underlying encoded of
                  Inl e \<Rightarrow> (c, Some encoded, Inl (Cause e ''write datagram''))
                | Inr n \<Rightarrow>
                    if n \<noteq> length encoded then (c, Some encoded, Inl (New ''short datagram write''))
                    else (c\<lparr>writeSequence := writeSequence c + 1\<rparr>, Some encoded, Inr (length payload))))"

text \<open>\<open>Close\<close>: the alert that is written before the keys and the queue are cleared.\<close>

definition destroyKeys :: "legacyDTLSKeys \<Rightarrow> legacyDTLSKeys" where
  "destroyKeys k = \<lparr>clientMACKey = [], serverMACKey = [], clientKey = [], serverKey = []\<rparr>"

definition closeDTLS :: "(bytes \<Rightarrow> bytes \<Rightarrow> bytes) \<Rightarrow> bytes result \<Rightarrow> legacyDTLSConn \<Rightarrow> legacyDTLSConn \<times> bytes result option" where
  "closeDTLS hmac random c =
     (if connClosed c then (c, None)
      else (c\<lparr>connClosed := True, connKeys := destroyKeys (connKeys c), finalFlight := [], serverFinished := [], readQueue := []\<rparr>,
        if closeAlert c
        then Some (encryptLegacyDTLSRecord hmac (connSuite c) random
               \<lparr>contentType = legacyDTLSContentAlert, epoch = 1, recordSequence = writeSequence c, recordPayload = [1, 0]\<rparr>
               (clientKey (connKeys c)) (clientMACKey (connKeys c)))
        else None))"

section \<open>A record and its opening\<close>

text \<open>What the text of an encrypted record is.\<close>

lemma encrypted_text:
  assumes "mac_ok hmac" "suite_ok suite" "length iv = blockLength suite" "newBlock suite key = Inr b"
  obtains c k where "encryptLegacyDTLSRecord hmac suite (Inr iv) r key macKey = marshalLegacyDTLSRecord (suiteVersion suite) (r\<lparr>recordPayload := iv @ c\<rparr>)"
    "0 < k" "k \<le> blockLength suite" "length c = length (recordPayload r) + 20 + k" "blockLength suite dvd length c"
    "cbc_decrypt (blockLength suite) (decryptBlock b) iv c =
       recordPayload r @ legacyDTLSRecordMAC hmac (suiteVersion suite) r (recordPayload r) macKey @ replicate k (byte_of (k - 1))"
proof -
  let ?n = "blockLength suite" and ?mac = "legacyDTLSRecordMAC hmac (suiteVersion suite) r (recordPayload r) macKey"
  have n: "0 < ?n" using assms(2) by (simp add: suite_ok_def)
  define plain where "plain = recordPayload r @ ?mac"
  define k where "k = ?n - length plain mod ?n"
  have k: "0 < k" "k \<le> ?n" using n by (simp_all add: k_def)
  define c where "c = cbc_encrypt ?n (encryptBlock b) iv (plain @ replicate k (byte_of (k - 1)))"
  have pl: "length plain = length (recordPayload r) + 20" by (simp add: plain_def length_MAC [OF assms(1)])
  have "length plain + k = length plain - length plain mod ?n + ?n" unfolding k_def using n by (simp add: mod_le_divisor less_imp_le)
  moreover have "?n dvd (length plain - length plain mod ?n) + ?n" by (intro dvd_add dvd_minus_mod dvd_refl)
  ultimately have dvd: "?n dvd length plain + k" by (simp only:)
  have inv: "length c = length plain + k \<and> cbc_decrypt ?n (decryptBlock b) iv c = plain @ replicate k (byte_of (k - 1))"
    unfolding c_def using assms(2,3,4) dvd n cbc_inverse [of ?n "encryptBlock b" "decryptBlock b" iv "plain @ replicate k (byte_of (k - 1))"]
    by (simp add: suite_ok_def)
  have "encryptLegacyDTLSRecord hmac suite (Inr iv) r key macKey = marshalLegacyDTLSRecord (suiteVersion suite) (r\<lparr>recordPayload := iv @ c\<rparr>)"
    by (simp add: encryptLegacyDTLSRecord_def assms(4) Let_def c_def plain_def k_def length_MAC [OF assms(1)])
  then show thesis using that [of c k] k inv pl dvd by (simp add: plain_def)
qed

lemma encrypt_decrypt:
  assumes "mac_ok hmac" "suite_ok suite" "length iv = blockLength suite" "epoch r = 1"
    "encryptLegacyDTLSRecord hmac suite (Inr iv) r key macKey = Inr d"
  shows "\<exists>q. marshalLegacyDTLSRecord (suiteVersion suite) (r\<lparr>recordPayload := q\<rparr>) = Inr d \<and>
    decryptLegacyDTLSRecord hmac suite (r\<lparr>recordPayload := q\<rparr>) key macKey = Inr (recordPayload r)"
proof -
  let ?n = "blockLength suite"
  obtain b where b: "newBlock suite key = Inr b" using assms(5) by (auto simp: encryptLegacyDTLSRecord_def split: sum.split_asm)
  have n: "?n \<le> 256" using assms(2) by (simp add: suite_ok_def)
  obtain c k where c: "marshalLegacyDTLSRecord (suiteVersion suite) (r\<lparr>recordPayload := iv @ c\<rparr>) = Inr d"
    "0 < k" "k \<le> ?n" "length c = length (recordPayload r) + 20 + k" "?n dvd length c"
    "cbc_decrypt ?n (decryptBlock b) iv c =
       recordPayload r @ legacyDTLSRecordMAC hmac (suiteVersion suite) r (recordPayload r) macKey @ replicate k (byte_of (k - 1))"
    using encrypted_text [OF assms(1,2,3) b, of r macKey] assms(5) by metis
  have "?n dvd length (iv @ c)" "?n + 21 \<le> length (iv @ c)" using assms(3) c by simp_all
  moreover have "cbc_decrypt ?n (decryptBlock b) (take ?n (iv @ c)) (drop ?n (iv @ c)) =
       recordPayload r @ legacyDTLSRecordMAC hmac (suiteVersion suite) r (recordPayload r) macKey @ replicate k (byte_of (k - 1))"
    using assms(3) c(6) by simp
  moreover have "k \<le> 256" using c(3) n by simp
  ultimately have "decryptLegacyDTLSRecord hmac suite (r\<lparr>recordPayload := iv @ c\<rparr>) key macKey = Inr (recordPayload r)"
    unfolding decrypt_exact [OF assms(1,2)] using assms(4) b c(2) by auto
  then show ?thesis using c(1) by blast
qed

text \<open>Encryption only fails on what does not fit into a record.\<close>

lemma encrypt_succeeds:
  assumes "mac_ok hmac" "suite_ok suite" "length iv = blockLength suite" "newBlock suite key = Inr b"
    "recordSequence r \<le> legacyDTLSMaxSequence" "length (recordPayload r) \<le> 65000"
  shows "\<exists>d. encryptLegacyDTLSRecord hmac suite (Inr iv) r key macKey = Inr d"
proof -
  have n: "blockLength suite \<le> 256" using assms(2) by (simp add: suite_ok_def)
  obtain c k where c: "encryptLegacyDTLSRecord hmac suite (Inr iv) r key macKey = marshalLegacyDTLSRecord (suiteVersion suite) (r\<lparr>recordPayload := iv @ c\<rparr>)"
    "k \<le> blockLength suite" "length c = length (recordPayload r) + 20 + k"
    using encrypted_text [OF assms(1-4), of r macKey] by metis
  then have "length (iv @ c) \<le> 65535" using n assms(3,6) by simp
  then show ?thesis using c(1) assms(5) by (simp add: marshalLegacyDTLSRecord_def)
qed

section \<open>Datagrams that arrive\<close>

text \<open>The datagram in which the server sends a payload as application data.\<close>

definition serverDatagram :: "(bytes \<Rightarrow> bytes \<Rightarrow> bytes) \<Rightarrow> legacyDTLSConn \<Rightarrow> bytes \<Rightarrow> u64 \<Rightarrow> bytes \<Rightarrow> bytes result" where
  "serverDatagram hmac c iv n payload =
     encryptLegacyDTLSRecord hmac (connSuite c) (Inr iv)
       \<lparr>contentType = legacyDTLSContentApplication, epoch = 1, recordSequence = n, recordPayload = payload\<rparr>
       (serverKey (connKeys c)) (serverMACKey (connKeys c))"

text \<open>An arrival: sequence number, initialisation vector, payload and datagram.\<close>

type_synonym arrival = "u64 \<times> bytes \<times> bytes \<times> bytes"

definition genuine :: "(bytes \<Rightarrow> bytes \<Rightarrow> bytes) \<Rightarrow> legacyDTLSConn \<Rightarrow> arrival \<Rightarrow> bool" where
  "genuine hmac c a \<longleftrightarrow> (case a of (n, iv, payload, d) \<Rightarrow> length iv = blockLength (connSuite c) \<and> serverDatagram hmac c iv n payload = Inr d)"

fun passed :: "legacyDTLSReplayWindow \<Rightarrow> arrival list \<Rightarrow> (u64 \<times> bytes) list" where
  "passed w [] = []"
| "passed w ((n, iv, payload, d) # as) =
     (case acceptDTLS w n of (ok, w') \<Rightarrow> (if ok then [(n, payload)] else []) @ passed w' as)"

definition arrive :: "(bytes \<Rightarrow> bytes \<Rightarrow> bytes) \<Rightarrow> arrival list \<Rightarrow> legacyDTLSConn \<Rightarrow> legacyDTLSConn" where
  "arrive hmac as c = fold (\<lambda>(n, iv, payload, d) c. fst (readDatagram hmac None d c)) as c"

lemma passed_accepted: "map fst (passed w as) = accepted acceptDTLS w (map fst as)"
  by (induction w as rule: passed.induct) (auto split: prod.split)

lemma passed_subseq: "subseq (passed w as) (map (\<lambda>(n, iv, payload, d). (n, payload)) as)"
  by (induction w as rule: passed.induct) (auto split: prod.split)

lemma read_genuine:
  assumes "mac_ok hmac" "suite_ok (connSuite c)" "genuine hmac c (n, iv, payload, d)"
  shows "readDatagram hmac e d c =
    (case acceptDTLS (connReplay c) n of (ok, w) \<Rightarrow>
       (c\<lparr>connReplay := w, readQueue := readQueue c @ (if ok then [payload] else [])\<rparr>, [], None))"
proof -
  let ?r = "\<lparr>contentType = legacyDTLSContentApplication, epoch = 1, recordSequence = n, recordPayload = payload\<rparr>"
  obtain q where q: "marshalLegacyDTLSRecord (suiteVersion (connSuite c)) (?r\<lparr>recordPayload := q\<rparr>) = Inr d"
    "decryptLegacyDTLSRecord hmac (connSuite c) (?r\<lparr>recordPayload := q\<rparr>) (serverKey (connKeys c)) (serverMACKey (connKeys c)) = Inr payload"
    using encrypt_decrypt [OF assms(1,2), of iv ?r "serverKey (connKeys c)" "serverMACKey (connKeys c)" d] assms(3) by (auto simp: genuine_def serverDatagram_def)
  have "parseLegacyDTLSRecords (suiteVersion (connSuite c)) d = Inr [?r\<lparr>recordPayload := q\<rparr>]"
    using parse_marshal [OF q(1), of "[]"] by (simp add: parseLegacyDTLSRecords.simps [of _ "[]"])
  then show ?thesis using q(2)
    by (simp add: readDatagram_def readLegacyRecord_def decryptServer_def split: prod.split)
qed

lemma arrive_passed:
  assumes "mac_ok hmac" "suite_ok (connSuite c)" "\<forall>a \<in> set as. genuine hmac c a"
  shows "readQueue (arrive hmac as c) = readQueue c @ map snd (passed (connReplay c) as) \<and>
    connReplay (arrive hmac as c) = after acceptDTLS (connReplay c) (map fst as)"
  using assms
proof (induction as arbitrary: c)
  case Nil
  then show ?case by (simp add: arrive_def)
next
  case (Cons a as)
  obtain n iv payload d where a: "a = (n, iv, payload, d)" by (metis prod.exhaust)
  obtain ok w where w: "acceptDTLS (connReplay c) n = (ok, w)" by force
  let ?c = "c\<lparr>connReplay := w, readQueue := readQueue c @ (if ok then [payload] else [])\<rparr>"
  have s: "arrive hmac (a # as) c = arrive hmac as ?c"
    using read_genuine [OF Cons.prems(1,2), of n iv payload d None] Cons.prems(3) by (simp add: arrive_def a w)
  have g: "\<forall>a \<in> set as. genuine hmac ?c a" using Cons.prems(3) by (auto simp: genuine_def serverDatagram_def)
  show ?case
    unfolding s using Cons.IH [OF Cons.prems(1) _ g] Cons.prems(2) by (simp add: a w)
qed

section \<open>Properties\<close>

text \<open>C31: a record that the other side encrypted opens to its payload, and a record opens to a payload only if its text decrypts to that
  payload, its MAC under the record's epoch, sequence number, type and version, and padding; the check of the padding, which looks
  at up to 256 bytes to take the same time for all, accepts exactly this.\<close>

theorem dtls_record_exact:
  assumes "mac_ok hmac" "suite_ok suite"
  shows "(decryptLegacyDTLSRecord hmac suite r key macKey = Inr payload \<longleftrightarrow>
      epoch r = 1 \<and> blockLength suite + 21 \<le> length (recordPayload r) \<and> blockLength suite dvd length (recordPayload r) \<and>
      (\<exists>b k. newBlock suite key = Inr b \<and> 0 < k \<and> k \<le> 256 \<and>
         cbc_decrypt (blockLength suite) (decryptBlock b) (take (blockLength suite) (recordPayload r)) (drop (blockLength suite) (recordPayload r)) =
           payload @ legacyDTLSRecordMAC hmac (suiteVersion suite) r payload macKey @ replicate k (byte_of (k - 1)))) \<and>
    (epoch r = 1 \<and> length iv = blockLength suite \<and> encryptLegacyDTLSRecord hmac suite (Inr iv) r key macKey = Inr d \<longrightarrow>
      (\<exists>q. parseLegacyDTLSRecords (suiteVersion suite) d = Inr [r\<lparr>recordPayload := q\<rparr>] \<and>
         decryptLegacyDTLSRecord hmac suite (r\<lparr>recordPayload := q\<rparr>) key macKey = Inr (recordPayload r)))"
proof (intro conjI impI)
  assume e: "epoch r = 1 \<and> length iv = blockLength suite \<and> encryptLegacyDTLSRecord hmac suite (Inr iv) r key macKey = Inr d"
  obtain q where q: "marshalLegacyDTLSRecord (suiteVersion suite) (r\<lparr>recordPayload := q\<rparr>) = Inr d"
    "decryptLegacyDTLSRecord hmac suite (r\<lparr>recordPayload := q\<rparr>) key macKey = Inr (recordPayload r)"
    using encrypt_decrypt [OF assms, of iv r key macKey d] e by blast
  then show "\<exists>q. parseLegacyDTLSRecords (suiteVersion suite) d = Inr [r\<lparr>recordPayload := q\<rparr>] \<and>
      decryptLegacyDTLSRecord hmac suite (r\<lparr>recordPayload := q\<rparr>) key macKey = Inr (recordPayload r)"
    using parse_marshal [OF q(1), of "[]"] by (auto simp: parseLegacyDTLSRecords.simps [of _ "[]"])
qed (rule decrypt_exact [OF assms])

text \<open>A cipher that adds its key to every byte, with blocks of eight bytes, and a keyed hash of constant length.\<close>

definition addingSuite :: legacyDTLSSuite where
  "addingSuite = \<lparr>suiteVersion = 0x100, newBlock = (\<lambda>key. if key = [] then Inl (New ''key'') else
     Inr \<lparr>encryptBlock = map (\<lambda>x. x + hd key), decryptBlock = map (\<lambda>x. x - hd key)\<rparr>), blockLength = 8\<rparr>"

definition summingMAC :: "bytes \<Rightarrow> bytes \<Rightarrow> bytes" where
  "summingMAC key m = replicate 20 (sum_list key + sum_list m)"

lemma subseq_imp_set: "subseq xs ys \<Longrightarrow> set xs \<subseteq> set ys"
  by (auto dest: list_emb_set)

lemma sample_ok: "mac_ok summingMAC" "suite_ok addingSuite"
  by (auto simp: mac_ok_def summingMAC_def suite_ok_def addingSuite_def split: if_split_asm intro: map_idI)

theorem dtls_record_exact_witness:
  "\<exists>q. decryptLegacyDTLSRecord summingMAC addingSuite
     \<lparr>contentType = 23, epoch = 1, recordSequence = 5, recordPayload = q\<rparr> [7] [9] = Inr [1, 2, 3]"
proof -
  let ?r = "\<lparr>contentType = 23, epoch = 1, recordSequence = 5, recordPayload = [1, 2, 3]\<rparr> :: legacyDTLSRecord"
  obtain d where "encryptLegacyDTLSRecord summingMAC addingSuite (Inr (replicate 8 0)) ?r [7] [9] = Inr d"
    using encrypt_succeeds [OF sample_ok, of "replicate 8 0" "[7]" _ ?r "[9]"] by (auto simp: addingSuite_def legacyDTLSMaxSequence_def)
  then show ?thesis
    using dtls_record_exact [OF sample_ok, of ?r "[7]" "[9]" "[]" "replicate 8 0" d] by (auto simp: addingSuite_def)
qed

text \<open>C32: of the server's datagrams, however the network drops, repeats and reorders them, a fresh connection delivers each payload at
  most once and in the order of arrival, namely those that its window accepts: a sequence number that was not delivered before and is at
  most 63 below the newest one delivered.\<close>

theorem dtls_transfer:
  assumes "mac_ok hmac" "suite_ok (connSuite c)" "connReplay c = emptyReplayWindow" "\<forall>a \<in> set as. genuine hmac c a"
  shows "\<exists>ps. readQueue (arrive hmac as c) = readQueue c @ map snd ps \<and> distinct (map fst ps) \<and>
    subseq ps (map (\<lambda>(n, iv, payload, d). (n, payload)) as) \<and>
    (\<forall>n. fst (acceptDTLS (connReplay (arrive hmac as c)) n) \<longleftrightarrow>
       n \<notin> fst ` set ps \<and> list_all (\<lambda>t. unat t < unat n + 64) (map fst ps))"
proof (intro exI conjI allI)
  let ?ps = "passed emptyReplayWindow as"
  note q = arrive_passed [OF assms(1,2,4), unfolded assms(3)]
  show "readQueue (arrive hmac as c) = readQueue c @ map snd ?ps" using q by blast
  show "distinct (map fst ?ps)" unfolding passed_accepted by (rule dtls_window.accepted_once)
  show "subseq ?ps (map (\<lambda>(n, iv, payload, d). (n, payload)) as)" by (rule passed_subseq)
  have s: "fst ` set ?ps = set (accepted acceptDTLS emptyReplayWindow (map fst as))" unfolding passed_accepted [symmetric] by simp
  show "fst (acceptDTLS (connReplay (arrive hmac as c)) n) \<longleftrightarrow>
      n \<notin> fst ` set ?ps \<and> list_all (\<lambda>t. unat t < unat n + 64) (map fst ?ps)" for n
    using q dtls_window.accept_exact [of "map fst as" n] by (simp add: s freshDTLS_def list_all_iff passed_accepted)
qed

definition sampleConn :: legacyDTLSConn where
  "sampleConn = \<lparr>connSuite = addingSuite, connKeys = \<lparr>clientMACKey = [1], serverMACKey = [2], clientKey = [3], serverKey = [4]\<rparr>,
     strict = True, closeAlert = False, connMTU = 0, readQueue = [], writeSequence = 1, connReplay = emptyReplayWindow, finalFlight = [],
     serverFinished = [], connClosed = False\<rparr>"

definition sampleArrival :: "u64 \<Rightarrow> byte \<Rightarrow> arrival" where
  "sampleArrival n x = (n, replicate 8 0, [x], (case serverDatagram summingMAC sampleConn (replicate 8 0) n [x] of Inr d \<Rightarrow> d | Inl e \<Rightarrow> []))"

text \<open>Three datagrams, the second of which arrives first and once more at the end.\<close>

lemma sample_genuine: "n \<le> 100 \<Longrightarrow> genuine summingMAC sampleConn (sampleArrival n x)"
proof -
  assume n: "n \<le> 100"
  then have "n \<le> legacyDTLSMaxSequence" unfolding legacyDTLSMaxSequence_def by (rule order_trans) simp
  then obtain d where "serverDatagram summingMAC sampleConn (replicate 8 0) n [x] = Inr d"
    using encrypt_succeeds [OF sample_ok, of "replicate 8 0" "[4]" _ "\<lparr>contentType = 23, epoch = 1, recordSequence = n, recordPayload = [x]\<rparr>" "[2]"]
    by (auto simp: serverDatagram_def sampleConn_def addingSuite_def)
  then show ?thesis by (simp add: genuine_def sampleArrival_def) (simp add: sampleConn_def addingSuite_def)
qed

theorem dtls_transfer_witness:
  "readQueue (arrive summingMAC [sampleArrival 2 20, sampleArrival 1 10, sampleArrival 3 30, sampleArrival 2 20] sampleConn) = [[20], [10], [30]] \<and>
   \<not> fst (acceptDTLS (connReplay (arrive summingMAC [sampleArrival 2 20, sampleArrival 1 10, sampleArrival 3 30, sampleArrival 2 20] sampleConn)) 1)"
proof -
  let ?as = "[sampleArrival 2 20, sampleArrival 1 10, sampleArrival 3 30, sampleArrival 2 20]"
  have g: "\<forall>a \<in> set ?as. genuine summingMAC sampleConn a" by (simp add: sample_genuine)
  have ok: "suite_ok (connSuite sampleConn)" "connReplay sampleConn = emptyReplayWindow" by (simp_all add: sampleConn_def sample_ok)
  obtain ps where ps: "readQueue (arrive summingMAC ?as sampleConn) = map snd ps"
    "\<And>n. fst (acceptDTLS (connReplay (arrive summingMAC ?as sampleConn)) n) \<longleftrightarrow>
       n \<notin> fst ` set ps \<and> list_all (\<lambda>t. unat t < unat n + 64) (map fst ps)"
    "subseq ps (map (\<lambda>(n, iv, payload, d). (n, payload)) ?as)"
    using dtls_transfer [OF sample_ok(1) ok g] by (auto simp: sampleConn_def)
  have q: "readQueue (arrive summingMAC ?as sampleConn) = [[20], [10], [30]]"
  proof -
    have "passed emptyReplayWindow ?as = [(2, [20]), (1, [10]), (3, [30])]"
      by (simp add: sampleArrival_def acceptDTLS_def emptyReplayWindow_def word_le_nat_alt)
    moreover have "readQueue sampleConn = []" by (simp add: sampleConn_def)
    ultimately show ?thesis using arrive_passed [OF sample_ok(1) ok(1) g] by (simp add: ok(2))
  qed
  have "set ps \<subseteq> {(2, [20]), (1, [10]), (3, [30])}"
    using subseq_imp_set [OF ps(3)] by (auto simp: sampleArrival_def)
  moreover have "[10] \<in> snd ` set ps" using ps(1) q by (metis list.set_intros(1,2) list.set_map)
  ultimately have "(1, [10]) \<in> set ps" by auto
  then show ?thesis using q ps(2) [of 1] by force
qed

end
