(* ===== verification/Dtls_Handshake.thy ===== *)
theory Dtls_Handshake
  imports Dtls_Connection
begin

text \<open>
  The abbreviated handshake of Cisco's DTLS 0.9 (\<^verbatim>\<open>dtls_legacy.go\<close>, \<^verbatim>\<open>dtls_legacy_crypto.go\<close>): messages, the
  TLS 1.0 pseudo-random function and the keys it derives, the records of the server's flight, and the exchanges
  with their retransmissions. The hash functions are parameters.
\<close>

section \<open>Definitions\<close>

subsection \<open>Ciphers\<close>

record anyConnectLegacyCipher =
  cipherID :: u16
  cipherKeyLength :: nat
  cipherBlockLength :: nat
  cipherNewBlock :: "bytes \<Rightarrow> block_cipher result"

definition legacySuite :: "anyConnectLegacyCipher \<Rightarrow> legacyDTLSSuite" where
  "legacySuite c = \<lparr>suiteVersion = 0x0100, newBlock = cipherNewBlock c, blockLength = cipherBlockLength c\<rparr>"

text \<open>The constructors \<open>aes.NewCipher\<close>, \<open>des.NewTripleDESCipher\<close> and \<open>des.NewCipher\<close>.\<close>

record block_ciphers =
  newAES :: "bytes \<Rightarrow> block_cipher result"
  newTripleDES :: "bytes \<Rightarrow> block_cipher result"
  newDES :: "bytes \<Rightarrow> block_cipher result"

definition anyConnectLegacyCipherForName :: "block_ciphers \<Rightarrow> string \<Rightarrow> bool \<Rightarrow> anyConnectLegacyCipher result" where
  "anyConnectLegacyCipherForName bc name allowInsecureCrypto =
     (if name = ''DHE-RSA-AES128-SHA''
      then Inr \<lparr>cipherID = 0x0033, cipherKeyLength = 16, cipherBlockLength = 16, cipherNewBlock = newAES bc\<rparr>
      else if name = ''DHE-RSA-AES256-SHA''
      then Inr \<lparr>cipherID = 0x0039, cipherKeyLength = 32, cipherBlockLength = 16, cipherNewBlock = newAES bc\<rparr>
      else if name = ''AES128-SHA''
      then Inr \<lparr>cipherID = 0x002f, cipherKeyLength = 16, cipherBlockLength = 16, cipherNewBlock = newAES bc\<rparr>
      else if name = ''AES256-SHA''
      then Inr \<lparr>cipherID = 0x0035, cipherKeyLength = 32, cipherBlockLength = 16, cipherNewBlock = newAES bc\<rparr>
      else if name = ''DES-CBC3-SHA'' then
        if \<not> allowInsecureCrypto then Inl (Extend (Sentinel ErrDeprecatedCryptoDisabled) ''DTLS cipher '')
        else Inr \<lparr>cipherID = 0x000a, cipherKeyLength = 24, cipherBlockLength = 8, cipherNewBlock = newTripleDES bc\<rparr>
      else if name = ''DES-CBC-SHA'' then
        if \<not> allowInsecureCrypto then Inl (Extend (Sentinel ErrDeprecatedCryptoDisabled) ''DTLS cipher '')
        else Inr \<lparr>cipherID = 0x0009, cipherKeyLength = 8, cipherBlockLength = 8, cipherNewBlock = newDES bc\<rparr>
      else Inl (Extend (Sentinel ErrProtocolNotSupported) ''Cisco DTLS 0.9 cipher ''))"

definition isAnyConnectLegacyDTLS :: "string \<Rightarrow> bool \<Rightarrow> bool" where
  "isAnyConnectLegacyDTLS cipherSuite dtls12 \<longleftrightarrow> \<not> dtls12 \<and>
     cipherSuite \<in> set [''DHE-RSA-AES128-SHA'', ''DHE-RSA-AES256-SHA'', ''AES128-SHA'', ''AES256-SHA'', ''DES-CBC3-SHA'', ''DES-CBC-SHA'']"

subsection \<open>The pseudo-random function\<close>

record legacy_hashes =
  hashMD5 :: "bytes \<Rightarrow> bytes"
  hashSHA1 :: "bytes \<Rightarrow> bytes"
  hmacMD5 :: "bytes \<Rightarrow> bytes \<Rightarrow> bytes"
  hmacSHA1 :: "bytes \<Rightarrow> bytes \<Rightarrow> bytes"

text \<open>The loop of \<open>tls10PHash\<close>; every round adds a digest, so that as many rounds as bytes are enough.\<close>

fun hashRounds :: "nat \<Rightarrow> (bytes \<Rightarrow> bytes) \<Rightarrow> bytes \<Rightarrow> nat \<Rightarrow> bytes \<Rightarrow> bytes \<Rightarrow> bytes" where
  "hashRounds 0 mac seed n a result = result"
| "hashRounds (Suc rounds) mac seed n a result =
     (if length result < n then hashRounds rounds mac seed n (mac a) (result @ mac (mac a @ seed)) else result)"

definition tls10PHash :: "(bytes \<Rightarrow> bytes \<Rightarrow> bytes) \<Rightarrow> bytes \<Rightarrow> bytes \<Rightarrow> nat \<Rightarrow> bytes" where
  "tls10PHash hmac secret seed n = take n (hashRounds n (hmac secret) seed n seed [])"

definition tls10PRF :: "legacy_hashes \<Rightarrow> bytes \<Rightarrow> string \<Rightarrow> bytes \<Rightarrow> nat \<Rightarrow> bytes" where
  "tls10PRF h secret label seed n =
     (let labeledSeed = map of_char label @ seed;
          halfLength = (length secret + 1) div 2
      in map2 (XOR) (tls10PHash (hmacMD5 h) (take halfLength secret) labeledSeed n)
           (tls10PHash (hmacSHA1 h) (drop (length secret - halfLength) secret) labeledSeed n))"

definition anyConnectLegacyFinished :: "legacy_hashes \<Rightarrow> bytes \<Rightarrow> string \<Rightarrow> bytes \<Rightarrow> bytes" where
  "anyConnectLegacyFinished h masterSecret label transcript =
     tls10PRF h masterSecret label (hashMD5 h transcript @ hashSHA1 h transcript) 12"

definition deriveLegacyDTLSKeys :: "legacy_hashes \<Rightarrow> legacyDTLSSuite \<Rightarrow> nat \<Rightarrow> bytes \<Rightarrow> bytes \<Rightarrow> bytes \<Rightarrow> legacyDTLSKeys" where
  "deriveLegacyDTLSKeys h suite keyLength masterSecret clientRandom serverRandom =
     (let keyMaterial = tls10PRF h masterSecret ''key expansion'' (serverRandom @ clientRandom)
            (2 * legacyDTLSMACLength + 2 * keyLength + 2 * blockLength suite);
          m = legacyDTLSMACLength
      in \<lparr>clientMACKey = subslice keyMaterial 0 m, serverMACKey = subslice keyMaterial m (2 * m),
          clientKey = subslice keyMaterial (2 * m) (2 * m + keyLength),
          serverKey = subslice keyMaterial (2 * m + keyLength) (2 * m + 2 * keyLength)\<rparr>)"

subsection \<open>Messages\<close>

definition putUint24 :: "nat \<Rightarrow> bytes" where
  "putUint24 v = [byte_of (v div 65536), byte_of (v div 256), byte_of v]"

definition readUint24 :: "bytes \<Rightarrow> nat" where
  "readUint24 bs = unat (bs ! 0) * 65536 + unat (bs ! 1) * 256 + unat (bs ! 2)"

definition helloVerifyType :: byte where "helloVerifyType = 3"
definition serverHelloType :: byte where "serverHelloType = 2"
definition clientHelloType :: byte where "clientHelloType = 1"
definition finishedType :: byte where "finishedType = 20"

lemmas type_defs [simp] = helloVerifyType_def serverHelloType_def clientHelloType_def finishedType_def

record anyConnectLegacyHandshakeMessage =
  messageType :: byte
  messageSequence :: u16
  messageBody :: bytes

definition buildAnyConnectLegacyHandshakeMessage :: "byte \<Rightarrow> u16 \<Rightarrow> bytes \<Rightarrow> bytes" where
  "buildAnyConnectLegacyHandshakeMessage t n body =
     t # putUint24 (length body) @ put_u16 n @ putUint24 0 @ putUint24 (length body) @ body"

definition parseAnyConnectLegacyHandshakeMessage :: "bytes \<Rightarrow> anyConnectLegacyHandshakeMessage result" where
  "parseAnyConnectLegacyHandshakeMessage payload =
     (if length payload < 12 then Inl (New ''short Cisco DTLS 0.9 handshake header'')
      else
        let bodyLength = readUint24 (subslice payload 1 4); fragmentOffset = readUint24 (subslice payload 6 9);
            fragmentLength = readUint24 (subslice payload 9 12)
        in if fragmentOffset \<noteq> 0 \<or> fragmentLength \<noteq> bodyLength \<or> length payload \<noteq> 12 + bodyLength
           then Inl (New ''fragmented or truncated Cisco DTLS 0.9 handshake message'')
           else Inr \<lparr>messageType = payload ! 0, messageSequence = get_u16 (subslice payload 4 6), messageBody = drop 12 payload\<rparr>)"

definition buildAnyConnectLegacyClientHello :: "bytes \<Rightarrow> bytes \<Rightarrow> bytes \<Rightarrow> anyConnectLegacyCipher \<Rightarrow> u64 \<Rightarrow> (bytes \<times> bytes) result" where
  "buildAnyConnectLegacyClientHello clientRandom sessionID cookie cipher n =
     (if length clientRandom \<noteq> 32 \<or> length sessionID > 255 \<or> length cookie > 255
      then Inl (New ''invalid Cisco DTLS 0.9 ClientHello parameters'')
      else
        let body = [1, 0] @ clientRandom @ [byte_of (length sessionID)] @ sessionID @ [byte_of (length cookie)] @ cookie @
              [0, 2] @ put_u16 (cipherID cipher) @ [1, 0] @ [0, 0]
        in case marshalLegacyDTLSRecord (suiteVersion (legacySuite cipher))
             \<lparr>contentType = legacyDTLSContentHandshake, epoch = 0, recordSequence = n,
                recordPayload = buildAnyConnectLegacyHandshakeMessage clientHelloType 0 body\<rparr> of
             Inl e \<Rightarrow> Inl e
           | Inr d \<Rightarrow> Inr (d, body))"

definition parseAnyConnectLegacyHelloVerify :: "bytes \<Rightarrow> bytes result" where
  "parseAnyConnectLegacyHelloVerify body =
     (if length body < 3 \<or> body ! 0 \<noteq> 1 \<or> body ! 1 \<noteq> 0 then Inl (New ''invalid Cisco DTLS 0.9 HelloVerify version'')
      else if length body \<noteq> 3 + unat (body ! 2) \<or> body ! 2 = 0 then Inl (New ''invalid Cisco DTLS 0.9 HelloVerify cookie'')
      else Inr (drop 3 body))"

definition parseAnyConnectLegacyServerHello :: "bytes \<Rightarrow> bytes \<Rightarrow> u16 \<Rightarrow> bytes result" where
  "parseAnyConnectLegacyServerHello body sessionID cipher =
     (if length body < 38 \<or> body ! 0 \<noteq> 1 \<or> body ! 1 \<noteq> 0 then Inl (New ''invalid Cisco DTLS 0.9 ServerHello version'')
      else
        let serverRandom = subslice body 2 34; sessionLength = unat (body ! 34); position = 35 + sessionLength in
        if length body < position + 3 \<or> subslice body 35 position \<noteq> sessionID
        then Inl (New ''Cisco DTLS 0.9 server did not accept the injected Session-ID'')
        else if get_u16 (subslice body position (position + 2)) \<noteq> cipher
        then Inl (New ''Cisco DTLS 0.9 server selected unexpected cipher: '')
        else if body ! (position + 2) \<noteq> 0 then Inl (New ''Cisco DTLS 0.9 server selected unsupported compression: '')
        else if position + 3 < length body \<and> length body - (position + 3) < 2
        then Inl (New ''truncated Cisco DTLS 0.9 ServerHello extensions'')
        else if position + 3 < length body \<and>
          length body \<noteq> position + 3 + 2 + unat (get_u16 (subslice body (position + 3) (position + 5)))
        then Inl (New ''invalid Cisco DTLS 0.9 ServerHello extensions'')
        else Inr serverRandom)"

subsection \<open>The server's flight\<close>

record anyConnectLegacyServerFlight =
  serverRandom :: bytes
  serverHelloBody :: bytes
  flightKeys :: legacyDTLSKeys
  keysReady :: bool
  changeCipherSeen :: bool
  flightFinished :: bytes

definition emptyFlight :: anyConnectLegacyServerFlight where
  "emptyFlight = \<lparr>serverRandom = [], serverHelloBody = [], flightKeys = \<lparr>clientMACKey = [], serverMACKey = [], clientKey = [], serverKey = []\<rparr>,
     keysReady = False, changeCipherSeen = False, flightFinished = []\<rparr>"

text \<open>What the handshake is about.\<close>

record handshake =
  clientHelloBody :: bytes
  sessionID :: bytes
  masterSecret :: bytes
  clientRandom :: bytes
  cipherSuite :: anyConnectLegacyCipher
  serverHelloSequence :: u16

definition legacyChangeCipher :: "u16 \<Rightarrow> bytes" where
  "legacyChangeCipher n = 1 # put_u16 (n + 1)"

definition legacyKeys :: "legacy_hashes \<Rightarrow> handshake \<Rightarrow> bytes \<Rightarrow> legacyDTLSKeys" where
  "legacyKeys h hs random = deriveLegacyDTLSKeys h (legacySuite (cipherSuite hs)) (cipherKeyLength (cipherSuite hs)) (masterSecret hs) (clientRandom hs) random"

text \<open>The three kinds of record that the flight consists of.\<close>

definition acceptServerHello :: "legacy_hashes \<Rightarrow> handshake \<Rightarrow> bytes \<Rightarrow> anyConnectLegacyServerFlight \<Rightarrow> anyConnectLegacyServerFlight result" where
  "acceptServerHello h hs payload f =
     (case parseAnyConnectLegacyHandshakeMessage payload of
        Inl e \<Rightarrow> Inl e
      | Inr m \<Rightarrow>
          if messageType m = helloVerifyType then Inr f
          else if messageType m \<noteq> serverHelloType then Inl (New ''unexpected Cisco DTLS 0.9 handshake message: '')
          else if messageSequence m \<noteq> serverHelloSequence hs
          then Inl (New ''Cisco DTLS 0.9 ServerHello has unexpected handshake sequence: '')
          else (case parseAnyConnectLegacyServerHello (messageBody m) (sessionID hs) (cipherID (cipherSuite hs)) of
                  Inl e \<Rightarrow> Inl e
                | Inr random \<Rightarrow> Inr (f\<lparr>serverRandom := random, serverHelloBody := messageBody m, flightKeys := legacyKeys h hs random, keysReady := True\<rparr>)))"

definition acceptServerFinished :: "legacy_hashes \<Rightarrow> handshake \<Rightarrow> legacyDTLSRecord \<Rightarrow> anyConnectLegacyServerFlight \<Rightarrow> anyConnectLegacyServerFlight result" where
  "acceptServerFinished h hs r f =
     (if \<not> keysReady f then Inl (New ''Cisco DTLS 0.9 sent encrypted Finished before ServerHello'')
      else case decryptLegacyDTLSRecord (hmacSHA1 h) (legacySuite (cipherSuite hs)) r (serverKey (flightKeys f)) (serverMACKey (flightKeys f)) of
        Inl e \<Rightarrow> Inl (Cause e ''decrypt Cisco DTLS 0.9 server Finished'')
      | Inr plaintext \<Rightarrow>
          (case parseAnyConnectLegacyHandshakeMessage plaintext of
             Inl e \<Rightarrow> Inl e
           | Inr m \<Rightarrow>
               if messageType m \<noteq> finishedType \<or> length (messageBody m) \<noteq> 12 then Inl (New ''invalid Cisco DTLS 0.9 server Finished'')
               else if messageSequence m \<noteq> serverHelloSequence hs + 2
               then Inl (New ''Cisco DTLS 0.9 server Finished has unexpected handshake sequence: '')
               else if messageBody m \<noteq> anyConnectLegacyFinished h (masterSecret hs) ''server finished'' (clientHelloBody hs @ serverHelloBody f)
               then Inl (New ''Cisco DTLS 0.9 server Finished verification failed'')
               else Inr (f\<lparr>flightFinished := messageBody m\<rparr>)))"

definition acceptServerRecord :: "legacy_hashes \<Rightarrow> handshake \<Rightarrow> legacyDTLSRecord \<Rightarrow> anyConnectLegacyServerFlight \<Rightarrow> anyConnectLegacyServerFlight result" where
  "acceptServerRecord h hs r f =
     (if contentType r = legacyDTLSContentHandshake then
        if epoch r = 0 then acceptServerHello h hs (recordPayload r) f
        else if epoch r = 1 then acceptServerFinished h hs r f else Inr f
      else if contentType r = legacyDTLSContentCCS then
        if epoch r \<noteq> 0 \<or> recordPayload r \<noteq> legacyChangeCipher (serverHelloSequence hs)
        then Inl (New ''invalid Cisco DTLS 0.9 ChangeCipherSpec'')
        else Inr (f\<lparr>changeCipherSeen := True\<rparr>)
      else if contentType r = legacyDTLSContentAlert then Inl (New ''Cisco DTLS 0.9 peer sent an alert during handshake'')
      else Inl (New ''unexpected Cisco DTLS 0.9 server-flight record: ''))"

fun acceptServerRecords :: "legacy_hashes \<Rightarrow> handshake \<Rightarrow> legacyDTLSRecord list \<Rightarrow> anyConnectLegacyServerFlight \<Rightarrow> anyConnectLegacyServerFlight result" where
  "acceptServerRecords h hs [] f = Inr f"
| "acceptServerRecords h hs (r # rs) f =
     (case acceptServerRecord h hs r f of Inl e \<Rightarrow> Inl e | Inr f' \<Rightarrow> acceptServerRecords h hs rs f')"

definition flightComplete :: "anyConnectLegacyServerFlight \<Rightarrow> bool" where
  "flightComplete f \<longleftrightarrow> keysReady f \<and> changeCipherSeen f \<and> length (flightFinished f) = 12"

definition processAnyConnectLegacyServerRecords :: "legacy_hashes \<Rightarrow> handshake \<Rightarrow> legacyDTLSRecord list \<Rightarrow> anyConnectLegacyServerFlight \<Rightarrow>
    (anyConnectLegacyServerFlight \<times> bool) result" where
  "processAnyConnectLegacyServerRecords h hs rs f =
     (case acceptServerRecords h hs rs f of Inl e \<Rightarrow> Inl e | Inr f' \<Rightarrow> Inr (f', flightComplete f'))"

subsection \<open>The exchanges\<close>

text \<open>The results of the reads, in order: a datagram, a timeout, an error of the connection or of the context.\<close>

datatype read_result = ReadDatagram bytes | ReadTimeout | ReadFails go_error | ReadCanceled go_error

text \<open>
  \<open>exchangeAnyConnectLegacyInitialResponse\<close>: at most six times the ClientHello is sent and one datagram read. The result is a
  cookie or the records of a server that answers at once, the number of ClientHellos sent, and the reads that are left; it is
  \<open>None\<close> while a read is outstanding.
\<close>

record anyConnectLegacyInitialResponse =
  helloCookie :: bytes
  serverRecords :: "legacyDTLSRecord list"

fun initialRecords :: "legacyDTLSRecord list \<Rightarrow> legacyDTLSRecord list \<Rightarrow> anyConnectLegacyInitialResponse option result" where
  "initialRecords rs [] = Inr None"
| "initialRecords rs (r # rest) =
     (if contentType r \<noteq> legacyDTLSContentHandshake \<or> epoch r \<noteq> 0 then initialRecords rs rest
      else case parseAnyConnectLegacyHandshakeMessage (recordPayload r) of
        Inl e \<Rightarrow> Inl e
      | Inr m \<Rightarrow>
          if messageType m = helloVerifyType then
            if messageSequence m \<noteq> 0 then Inl (New ''Cisco DTLS 0.9 HelloVerify has unexpected handshake sequence: '')
            else (case parseAnyConnectLegacyHelloVerify (messageBody m) of
                    Inl e \<Rightarrow> Inl e
                  | Inr cookie \<Rightarrow> Inr (Some \<lparr>helloCookie = cookie, serverRecords = []\<rparr>))
          else if messageType m = serverHelloType then Inr (Some \<lparr>helloCookie = [], serverRecords = rs\<rparr>)
          else initialRecords rs rest)"

fun initialResponse :: "u16 \<Rightarrow> nat \<Rightarrow> read_result list \<Rightarrow> nat \<Rightarrow> (anyConnectLegacyInitialResponse result \<times> nat \<times> read_result list) option" where
  "initialResponse version 0 reads n = Some (Inl (New ''Cisco DTLS 0.9 peer did not answer the ClientHello''), n, reads)"
| "initialResponse version (Suc tries) reads n =
     (case reads of
        [] \<Rightarrow> None
      | ReadCanceled e # rest \<Rightarrow> Some (Inl (Cause e ''wait for Cisco DTLS 0.9 initial response''), n + 1, rest)
      | ReadTimeout # rest \<Rightarrow> initialResponse version tries rest (n + 1)
      | ReadFails e # rest \<Rightarrow> Some (Inl (Cause e ''read Cisco DTLS 0.9 initial response''), n + 1, rest)
      | ReadDatagram d # rest \<Rightarrow>
          (case parseLegacyDTLSRecords version d of
             Inl e \<Rightarrow> Some (Inl e, n + 1, rest)
           | Inr rs \<Rightarrow>
               (case initialRecords rs rs of
                  Inl e \<Rightarrow> Some (Inl e, n + 1, rest)
                | Inr (Some response) \<Rightarrow> Some (Inr response, n + 1, rest)
                | Inr None \<Rightarrow> initialResponse version tries rest (n + 1))))"

text \<open>
  \<open>exchangeAnyConnectLegacyServerFlight\<close>: the reads of an attempt up to its timeout, and the six attempts. \<open>next\<close> is the record
  sequence of the next ClientHello; the ClientHellos that were sent are collected.
\<close>

definition numbered :: "bytes \<Rightarrow> u64 \<Rightarrow> bytes" where
  "numbered clientHello n = take 5 clientHello @ putUint48 n @ drop 11 clientHello"

fun flightReads :: "legacy_hashes \<Rightarrow> handshake \<Rightarrow> read_result list \<Rightarrow> anyConnectLegacyServerFlight \<Rightarrow>
    ((anyConnectLegacyServerFlight \<times> bool) result \<times> read_result list) option" where
  "flightReads h hs [] f = None"
| "flightReads h hs (ReadCanceled e # reads) f = Some (Inl (Cause e ''wait for Cisco DTLS 0.9 server flight''), reads)"
| "flightReads h hs (ReadFails e # reads) f = Some (Inl (Cause e ''read Cisco DTLS 0.9 server flight''), reads)"
| "flightReads h hs (ReadTimeout # reads) f = Some (Inr (f, False), reads)"
| "flightReads h hs (ReadDatagram d # reads) f =
     (case parseLegacyDTLSRecords (suiteVersion (legacySuite (cipherSuite hs))) d of
        Inl e \<Rightarrow> Some (Inl e, reads)
      | Inr rs \<Rightarrow>
          (case processAnyConnectLegacyServerRecords h hs rs f of
             Inl e \<Rightarrow> Some (Inl e, reads)
           | Inr (f', True) \<Rightarrow> Some (Inr (f', True), reads)
           | Inr (f', False) \<Rightarrow> flightReads h hs reads f'))"

fun flightAttempts :: "legacy_hashes \<Rightarrow> handshake \<Rightarrow> bytes \<Rightarrow> nat \<Rightarrow> bool \<Rightarrow> read_result list \<Rightarrow> anyConnectLegacyServerFlight \<Rightarrow> u64 \<Rightarrow> bytes list \<Rightarrow>
    ((anyConnectLegacyServerFlight \<times> u64) result \<times> bytes list) option" where
  "flightAttempts h hs clientHello 0 sends reads f n sent =
     Some (Inl (New ''Cisco DTLS 0.9 abbreviated handshake did not complete''), sent)"
| "flightAttempts h hs clientHello (Suc tries) sends reads f n sent =
     (let n' = (if sends then n + 1 else n); sent' = (if sends then sent @ [numbered clientHello n] else sent) in
      case flightReads h hs reads f of
        None \<Rightarrow> None
      | Some (Inl e, _) \<Rightarrow> Some (Inl e, sent')
      | Some (Inr (f', True), _) \<Rightarrow> Some (Inr (f', n'), sent')
      | Some (Inr (f', False), rest) \<Rightarrow> flightAttempts h hs clientHello tries True rest f' n' sent')"

definition exchangeAnyConnectLegacyServerFlight :: "legacy_hashes \<Rightarrow> handshake \<Rightarrow> bytes \<Rightarrow> legacyDTLSRecord list \<Rightarrow> read_result list \<Rightarrow>
    ((anyConnectLegacyServerFlight \<times> u64) result \<times> bytes list) option" where
  "exchangeAnyConnectLegacyServerFlight h hs clientHello initial reads =
     (if initial = [] then flightAttempts h hs clientHello 6 True reads emptyFlight 1 []
      else case processAnyConnectLegacyServerRecords h hs initial emptyFlight of
        Inl e \<Rightarrow> Some (Inl e, [])
      | Inr (f, True) \<Rightarrow> Some (Inr (f, 1), [])
      | Inr (f, False) \<Rightarrow> flightAttempts h hs clientHello 6 False reads f 1 [])"

text \<open>The end of \<open>connectLegacy\<close>: the final flight and the connection.\<close>

definition finishLegacy :: "legacy_hashes \<Rightarrow> handshake \<Rightarrow> bytes result \<Rightarrow> anyConnectLegacyServerFlight \<Rightarrow> u64 \<Rightarrow> (legacyDTLSConn \<times> bytes) result" where
  "finishLegacy h hs random f n =
     (let suite = legacySuite (cipherSuite hs);
          transcript = clientHelloBody hs @ serverHelloBody f @ flightFinished f;
          verify = anyConnectLegacyFinished h (masterSecret hs) ''client finished'' transcript;
          message = buildAnyConnectLegacyHandshakeMessage finishedType (serverHelloSequence hs + 2) verify
      in case marshalLegacyDTLSRecord (suiteVersion suite)
           \<lparr>contentType = legacyDTLSContentCCS, epoch = 0, recordSequence = n, recordPayload = legacyChangeCipher (serverHelloSequence hs)\<rparr> of
           Inl e \<Rightarrow> Inl e
         | Inr ccs \<Rightarrow>
             (case encryptLegacyDTLSRecord (hmacSHA1 h) suite random
                \<lparr>contentType = legacyDTLSContentHandshake, epoch = 1, recordSequence = 0, recordPayload = message\<rparr>
                (clientKey (flightKeys f)) (clientMACKey (flightKeys f)) of
                Inl e \<Rightarrow> Inl e
              | Inr finished \<Rightarrow> Inr
                  (\<lparr>connSuite = suite, connKeys = flightKeys f, strict = True, closeAlert = False, connMTU = 0, readQueue = [],
                     writeSequence = 1, connReplay = emptyReplayWindow, finalFlight = [ccs @ finished],
                     serverFinished = buildAnyConnectLegacyHandshakeMessage finishedType (serverHelloSequence hs + 2) (flightFinished f),
                     connClosed = False\<rparr>, ccs @ finished)))"

definition connectLegacy :: "legacy_hashes \<Rightarrow> block_ciphers \<Rightarrow> string \<Rightarrow> bool \<Rightarrow> bytes \<Rightarrow> bytes \<Rightarrow> bytes \<Rightarrow> bytes result \<Rightarrow> read_result list \<Rightarrow>
    (legacyDTLSConn \<times> bytes) result option" where
  "connectLegacy h bc name allowInsecureCrypto sid master random iv reads =
     (if length sid \<noteq> 32 then Some (Inl (Extend (Sentinel ErrProtocolNotSupported) ''Cisco DTLS 0.9 requires a 32-byte X-DTLS-Session-ID, got ''))
      else if length master \<noteq> 48
      then Some (Inl (Extend (Sentinel ErrProtocolNotSupported) ''Cisco DTLS 0.9 requires a 48-byte master secret, got ''))
      else case anyConnectLegacyCipherForName bc name allowInsecureCrypto of
        Inl e \<Rightarrow> Some (Inl e)
      | Inr cipher \<Rightarrow>
          (case buildAnyConnectLegacyClientHello random sid [] cipher 0 of
             Inl e \<Rightarrow> Some (Inl e)
           | Inr (hello, _) \<Rightarrow>
               (case initialResponse (suiteVersion (legacySuite cipher)) 6 reads 0 of
                  None \<Rightarrow> None
                | Some (Inl e, _, _) \<Rightarrow> Some (Inl e)
                | Some (Inr response, _, rest) \<Rightarrow>
                    let direct = serverRecords response \<noteq> [] in
                    (case buildAnyConnectLegacyClientHello random sid (helloCookie response) cipher (if direct then 0 else 1) of
                       Inl e \<Rightarrow> Some (Inl e)
                     | Inr (clientHello, body) \<Rightarrow>
                         let hs = \<lparr>clientHelloBody = body, sessionID = sid, masterSecret = master, clientRandom = random,
                               cipherSuite = cipher, serverHelloSequence = (if direct then 0 else 1)\<rparr>
                         in (case exchangeAnyConnectLegacyServerFlight h hs clientHello (serverRecords response) rest of
                               None \<Rightarrow> None
                             | Some (Inl e, _) \<Rightarrow> Some (Inl e)
                             | Some (Inr (f, n), _) \<Rightarrow> Some (finishLegacy h hs iv f n))))))"

end
