(* ===== verification/Dtls_Flight.thy ===== *)
theory Dtls_Flight
  imports Dtls_Handshake
begin

text \<open>
  What the handshake of \<^verbatim>\<open>dtls_legacy.go\<close> achieves: with an honest server it completes and both sides hold the
  same keys, and it completes only after a Finished that covers the messages of both sides.
\<close>

section \<open>Messages are read back\<close>

lemma length_putUint24 [simp]: "length (putUint24 n) = 3"
  by (simp add: putUint24_def)

lemma unat_byte_of_mod: "unat (byte_of n) = n mod 256"
  by (simp add: unat_of_nat)

lemma read_putUint24:
  assumes "n < 16777216"
  shows "readUint24 (putUint24 n) = n"
proof -
  have q: "n div 65536 = n div 256 div 256" by (simp add: div_mult2_eq [symmetric])
  have less: "n div 256 div 256 < 256" using assms by (simp add: div_mult2_eq [symmetric] less_mult_imp_div_less)
  have "readUint24 (putUint24 n) = n div 256 div 256 * 65536 + n div 256 mod 256 * 256 + n mod 256"
    using less by (simp add: readUint24_def putUint24_def q unat_byte_of_mod del: unat_of_nat)
  also have "\<dots> = n" using div_mult_mod_eq [of "n div 256" 256] div_mult_mod_eq [of n 256] by linarith
  finally show ?thesis .
qed

lemma parse_build:
  assumes "length body < 16777216"
  shows "parseAnyConnectLegacyHandshakeMessage (buildAnyConnectLegacyHandshakeMessage t n body) =
    Inr \<lparr>messageType = t, messageSequence = n, messageBody = body\<rparr>"
proof -
  define L where "L = putUint24 (length body)"
  define m where "m = buildAnyConnectLegacyHandshakeMessage t n body"
  have L: "length L = 3" "readUint24 L = length body" "readUint24 (putUint24 0) = 0"
    using assms by (simp_all add: L_def read_putUint24)
  have m: "m = [t] @ L @ put_u16 n @ putUint24 0 @ L @ body" by (simp add: m_def buildAnyConnectLegacyHandshakeMessage_def L_def)
  have "subslice m 1 4 = L" "subslice m 4 6 = put_u16 n" "subslice m 6 9 = putUint24 0" "subslice m 9 12 = L"
    "m ! 0 = t" "drop 12 m = body" "length m = 12 + length body"
    by (simp_all add: m subslice_def L(1))
  then show ?thesis unfolding m_def [symmetric]
    by (simp add: parseAnyConnectLegacyHandshakeMessage_def L Let_def)
qed

section \<open>The pseudo-random function\<close>

text \<open>What is known of the hash functions: an MD5 digest is not empty, a SHA-1 digest has twenty bytes.\<close>

definition hashes_ok :: "legacy_hashes \<Rightarrow> bool" where
  "hashes_ok h \<longleftrightarrow> (\<forall>k m. 0 < length (hmacMD5 h k m)) \<and> mac_ok (hmacSHA1 h)"

lemma hashRounds_enough:
  "(\<And>m. 0 < length (mac m)) \<Longrightarrow> n \<le> length result + rounds \<Longrightarrow> n \<le> length (hashRounds rounds mac seed n a result)"
proof (induction rounds arbitrary: a result)
  case (Suc rounds)
  have "Suc 0 \<le> length (mac (mac a @ seed))" using Suc.prems(1) [of "mac a @ seed"] by linarith
  then show ?case using Suc.prems by (auto intro!: Suc.IH)
qed simp

lemma length_tls10PHash: "(\<And>m. 0 < length (hmac secret m)) \<Longrightarrow> length (tls10PHash hmac secret seed n) = n"
  using hashRounds_enough [of "hmac secret" n "[]" n seed seed] by (simp add: tls10PHash_def)

lemma length_tls10PRF: "hashes_ok h \<Longrightarrow> length (tls10PRF h secret label seed n) = n"
  by (simp add: tls10PRF_def Let_def hashes_ok_def mac_ok_def legacyDTLSMACLength_def length_tls10PHash)

lemma length_finished: "hashes_ok h \<Longrightarrow> length (anyConnectLegacyFinished h master label transcript) = 12"
  by (simp add: anyConnectLegacyFinished_def length_tls10PRF)

text \<open>Further rounds do not change the output, so that the number of rounds is no limit.\<close>

lemma hashRounds_stable:
  "n \<le> length (hashRounds rounds mac seed n a result) \<Longrightarrow>
   hashRounds (rounds + k) mac seed n a result = hashRounds rounds mac seed n a result"
proof (induction rounds arbitrary: a result)
  case 0
  then show ?case by (cases k) simp_all
qed auto

section \<open>The flight of an honest server\<close>

definition serverHelloRecord :: "handshake \<Rightarrow> bytes \<Rightarrow> u64 \<Rightarrow> legacyDTLSRecord" where
  "serverHelloRecord hs body n = \<lparr>contentType = legacyDTLSContentHandshake, epoch = 0, recordSequence = n,
     recordPayload = buildAnyConnectLegacyHandshakeMessage serverHelloType (serverHelloSequence hs) body\<rparr>"

definition changeCipherRecord :: "handshake \<Rightarrow> u64 \<Rightarrow> legacyDTLSRecord" where
  "changeCipherRecord hs n = \<lparr>contentType = legacyDTLSContentCCS, epoch = 0, recordSequence = n,
     recordPayload = legacyChangeCipher (serverHelloSequence hs)\<rparr>"

definition serverVerify :: "legacy_hashes \<Rightarrow> handshake \<Rightarrow> bytes \<Rightarrow> bytes" where
  "serverVerify h hs body = anyConnectLegacyFinished h (masterSecret hs) ''server finished'' (clientHelloBody hs @ body)"

text \<open>A record that opens, under the keys of the server's random bytes, to the Finished message.\<close>

definition isServerFinished :: "legacy_hashes \<Rightarrow> handshake \<Rightarrow> bytes \<Rightarrow> bytes \<Rightarrow> legacyDTLSRecord \<Rightarrow> bool" where
  "isServerFinished h hs body random r \<longleftrightarrow> contentType r = legacyDTLSContentHandshake \<and> epoch r = 1 \<and>
     decryptLegacyDTLSRecord (hmacSHA1 h) (legacySuite (cipherSuite hs)) r (serverKey (legacyKeys h hs random)) (serverMACKey (legacyKeys h hs random)) =
       Inr (buildAnyConnectLegacyHandshakeMessage finishedType (serverHelloSequence hs + 2) (serverVerify h hs body))"

definition honestRecord :: "legacy_hashes \<Rightarrow> handshake \<Rightarrow> bytes \<Rightarrow> bytes \<Rightarrow> legacyDTLSRecord \<Rightarrow> bool" where
  "honestRecord h hs body random r \<longleftrightarrow>
     (\<exists>n. r = serverHelloRecord hs body n) \<or> (\<exists>n. r = changeCipherRecord hs n) \<or> isServerFinished h hs body random r"

definition greeted :: "legacy_hashes \<Rightarrow> handshake \<Rightarrow> bytes \<Rightarrow> bytes \<Rightarrow> anyConnectLegacyServerFlight \<Rightarrow> anyConnectLegacyServerFlight" where
  "greeted h hs body random f = f\<lparr>serverRandom := random, serverHelloBody := body, flightKeys := legacyKeys h hs random, keysReady := True\<rparr>"

lemma accept_hello:
  assumes "parseAnyConnectLegacyServerHello body (sessionID hs) (cipherID (cipherSuite hs)) = Inr random" "length body < 16777216"
  shows "acceptServerRecord h hs (serverHelloRecord hs body n) f = Inr (greeted h hs body random f)"
  using assms by (simp add: acceptServerRecord_def serverHelloRecord_def acceptServerHello_def parse_build greeted_def)

lemma accept_change_cipher:
  "acceptServerRecord h hs (changeCipherRecord hs n) f = Inr (f\<lparr>changeCipherSeen := True\<rparr>)"
  by (simp add: acceptServerRecord_def changeCipherRecord_def)

lemma accept_finished:
  assumes "hashes_ok h" "isServerFinished h hs body random r"
  shows "acceptServerRecord h hs r (greeted h hs body random f) = Inr (greeted h hs body random (f\<lparr>flightFinished := serverVerify h hs body\<rparr>))"
proof -
  have "length (serverVerify h hs body) = 12" by (simp add: serverVerify_def length_finished assms(1))
  then show ?thesis using assms(2)
    by (simp add: acceptServerRecord_def isServerFinished_def acceptServerFinished_def greeted_def parse_build) (simp add: serverVerify_def)
qed

lemma greeted_simps [simp]:
  "greeted h hs body random (greeted h hs body random f) = greeted h hs body random f"
  "(greeted h hs body random f)\<lparr>changeCipherSeen := b\<rparr> = greeted h hs body random (f\<lparr>changeCipherSeen := b\<rparr>)"
  "keysReady (greeted h hs body random f)" "serverHelloBody (greeted h hs body random f) = body"
  "flightKeys (greeted h hs body random f) = legacyKeys h hs random"
  "changeCipherSeen (greeted h hs body random f) = changeCipherSeen f" "flightFinished (greeted h hs body random f) = flightFinished f"
  by (simp_all add: greeted_def)

text \<open>After the ServerHello the records may come in any order and any number.\<close>

lemma honest_records:
  assumes "hashes_ok h" "parseAnyConnectLegacyServerHello body (sessionID hs) (cipherID (cipherSuite hs)) = Inr random"
    "length body < 16777216" "\<forall>r \<in> set rs. honestRecord h hs body random r"
  shows "acceptServerRecords h hs rs (greeted h hs body random f) =
    Inr (greeted h hs body random (f\<lparr>changeCipherSeen := changeCipherSeen f \<or> (\<exists>r \<in> set rs. contentType r = legacyDTLSContentCCS),
      flightFinished := (if \<exists>r \<in> set rs. epoch r = 1 then serverVerify h hs body else flightFinished f)\<rparr>))"
  using assms(4)
proof (induction rs arbitrary: f)
  case (Cons r rs)
  consider n where "r = serverHelloRecord hs body n" | n where "r = changeCipherRecord hs n" | "isServerFinished h hs body random r"
    using Cons.prems by (auto simp: honestRecord_def)
  then show ?case
  proof cases
    case 1
    then show ?thesis using Cons accept_hello [OF assms(2,3)] by (simp add: serverHelloRecord_def)
  next
    case 2
    then show ?thesis using Cons accept_change_cipher by (simp add: changeCipherRecord_def)
  next
    case 3
    then have "contentType r = 22" "epoch r = 1" by (simp_all add: isServerFinished_def)
    then show ?thesis using Cons accept_finished [OF assms(1) 3] by simp
  qed
qed simp

lemma honest_flight:
  assumes "hashes_ok h" "parseAnyConnectLegacyServerHello body (sessionID hs) (cipherID (cipherSuite hs)) = Inr random"
    "length body < 16777216" "\<forall>r \<in> set rs. honestRecord h hs body random r"
    "\<exists>r \<in> set rs. contentType r = legacyDTLSContentCCS" "\<exists>r \<in> set rs. isServerFinished h hs body random r"
  shows "processAnyConnectLegacyServerRecords h hs (serverHelloRecord hs body n # rs) emptyFlight =
    Inr (greeted h hs body random (emptyFlight\<lparr>changeCipherSeen := True, flightFinished := serverVerify h hs body\<rparr>), True)"
proof -
  have "\<exists>r \<in> set rs. epoch r = 1" using assms(6) by (auto simp: isServerFinished_def)
  then show ?thesis
    unfolding processAnyConnectLegacyServerRecords_def acceptServerRecords.simps accept_hello [OF assms(2,3)]
    using assms(5) by (simp add: honest_records [OF assms(1-4)] flightComplete_def serverVerify_def length_finished [OF assms(1)])
qed

section \<open>What a completed flight rests on\<close>

lemma acceptServerRecords_append:
  "acceptServerRecords h hs (rs @ rs') f = (case acceptServerRecords h hs rs f of Inl e \<Rightarrow> Inl e | Inr f' \<Rightarrow> acceptServerRecords h hs rs' f')"
  by (induction rs arbitrary: f) (auto split: sum.split)

text \<open>The record kinds, by what they change.\<close>

lemma accept_cases:
  assumes "acceptServerRecord h hs r f = Inr f'"
  obtains "f' = f"
  | body random where "f' = greeted h hs body random f" "parseAnyConnectLegacyServerHello body (sessionID hs) (cipherID (cipherSuite hs)) = Inr random"
      "contentType r = legacyDTLSContentHandshake" "epoch r = 0"
  | "f' = f\<lparr>changeCipherSeen := True\<rparr>" "contentType r = legacyDTLSContentCCS"
  | "f' = f\<lparr>flightFinished := serverVerify h hs (serverHelloBody f)\<rparr>" "keysReady f" "contentType r = legacyDTLSContentHandshake" "epoch r = 1"
      "acceptServerFinished h hs r f = Inr f'"
  using assms
  by (auto simp: acceptServerRecord_def acceptServerHello_def acceptServerFinished_def greeted_def serverVerify_def split: if_split_asm sum.split_asm)

text \<open>The keys of a flight belong to the ServerHello that was taken last.\<close>

definition flightSound :: "legacy_hashes \<Rightarrow> handshake \<Rightarrow> anyConnectLegacyServerFlight \<Rightarrow> bool" where
  "flightSound h hs f \<longleftrightarrow> keysReady f \<longrightarrow>
     parseAnyConnectLegacyServerHello (serverHelloBody f) (sessionID hs) (cipherID (cipherSuite hs)) = Inr (serverRandom f) \<and>
     flightKeys f = legacyKeys h hs (serverRandom f)"

lemma flightSound_accept: "acceptServerRecord h hs r f = Inr f' \<Longrightarrow> flightSound h hs f \<Longrightarrow> flightSound h hs f'"
  by (erule accept_cases) (auto simp: flightSound_def greeted_def)

lemma flightSound_records: "acceptServerRecords h hs rs f = Inr f' \<Longrightarrow> flightSound h hs f \<Longrightarrow> flightSound h hs f'"
  by (induction rs arbitrary: f) (auto split: sum.split_asm dest: flightSound_accept)

text \<open>A verified Finished is that of a record, and covers the ServerHello of the records before it.\<close>

lemma finished_record:
  "acceptServerRecords h hs rs f = Inr f' \<Longrightarrow> flightFinished f' \<noteq> flightFinished f \<Longrightarrow>
   \<exists>before r after g. rs = before @ r # after \<and> acceptServerRecords h hs before f = Inr g \<and>
     contentType r = legacyDTLSContentHandshake \<and> epoch r = 1 \<and> keysReady g \<and>
     acceptServerRecord h hs r g = Inr (g\<lparr>flightFinished := flightFinished f'\<rparr>) \<and>
     acceptServerFinished h hs r g = Inr (g\<lparr>flightFinished := flightFinished f'\<rparr>)"
proof (induction rs arbitrary: f' rule: rev_induct)
  case (snoc r rs)
  obtain g where g: "acceptServerRecords h hs rs f = Inr g" "acceptServerRecord h hs r g = Inr f'"
    using snoc.prems(1) by (auto simp: acceptServerRecords_append split: sum.split_asm)
  show ?case
  proof (cases "flightFinished f' = flightFinished g")
    case True
    then show ?thesis using snoc.IH [OF g(1)] snoc.prems(2) by (metis append.assoc append_Cons)
  next
    case False
    have "contentType r = legacyDTLSContentHandshake \<and> epoch r = 1 \<and> keysReady g \<and> acceptServerFinished h hs r g = Inr f' \<and>
        f' = g\<lparr>flightFinished := flightFinished f'\<rparr>"
      using g(2) False by (cases rule: accept_cases) auto
    then show ?thesis using g by (intro exI [of _ rs] exI [of _ r] exI [of _ "[]"] exI [of _ g]) auto
  qed
qed simp

lemma finished_of_server:
  "acceptServerFinished h hs r f = Inr f' \<Longrightarrow> flightSound h hs f \<Longrightarrow> contentType r = legacyDTLSContentHandshake \<Longrightarrow> epoch r = 1 \<Longrightarrow>
   \<exists>p. decryptLegacyDTLSRecord (hmacSHA1 h) (legacySuite (cipherSuite hs)) r
         (serverKey (legacyKeys h hs (serverRandom f))) (serverMACKey (legacyKeys h hs (serverRandom f))) = Inr p \<and>
       parseAnyConnectLegacyHandshakeMessage p = Inr \<lparr>messageType = finishedType, messageSequence = serverHelloSequence hs + 2,
         messageBody = serverVerify h hs (serverHelloBody f)\<rparr>"
  by (auto simp: acceptServerFinished_def flightSound_def serverVerify_def split: if_split_asm sum.split_asm)

text \<open>The flight keeps its ServerHello unless a record brings another one.\<close>

definition helloOf :: "handshake \<Rightarrow> legacyDTLSRecord \<Rightarrow> bytes \<Rightarrow> bool" where
  "helloOf hs r body \<longleftrightarrow> contentType r = legacyDTLSContentHandshake \<and> epoch r = 0 \<and>
     (\<exists>m. parseAnyConnectLegacyHandshakeMessage (recordPayload r) = Inr m \<and> messageType m = serverHelloType \<and>
        messageSequence m = serverHelloSequence hs \<and> messageBody m = body)"

lemma accept_hello_cases:
  assumes "acceptServerRecord h hs r f = Inr f'"
  shows "serverHelloBody f' = serverHelloBody f \<and> serverRandom f' = serverRandom f \<or> helloOf hs r (serverHelloBody f')"
  using assms
  by (auto simp: acceptServerRecord_def acceptServerHello_def acceptServerFinished_def helloOf_def split: if_split_asm sum.split_asm)

lemma hello_cases:
  "acceptServerRecords h hs rs f = Inr f' \<Longrightarrow>
   serverHelloBody f' = serverHelloBody f \<and> serverRandom f' = serverRandom f \<or> (\<exists>x \<in> set rs. helloOf hs x (serverHelloBody f'))"
proof (induction rs arbitrary: f)
  case (Cons r rs)
  obtain g where g: "acceptServerRecord h hs r f = Inr g" "acceptServerRecords h hs rs g = Inr f'"
    using Cons.prems(1) by (auto split: sum.split_asm)
  show ?case using accept_hello_cases [OF g(1)] Cons.IH [OF g(2)] by auto
qed simp

lemma change_cipher_record:
  "acceptServerRecords h hs rs f = Inr f' \<Longrightarrow> changeCipherSeen f' \<Longrightarrow> \<not> changeCipherSeen f \<Longrightarrow> \<exists>r \<in> set rs. contentType r = legacyDTLSContentCCS"
proof (induction rs arbitrary: f)
  case (Cons r rs)
  obtain g where g: "acceptServerRecord h hs r f = Inr g" "acceptServerRecords h hs rs g = Inr f'"
    using Cons.prems(1) by (auto split: sum.split_asm)
  have "contentType r = legacyDTLSContentCCS \<or> \<not> changeCipherSeen g"
    using g(1) Cons.prems(3) by (cases rule: accept_cases) auto
  then show ?case using Cons.IH [OF g(2)] Cons.prems(2) by auto
qed simp

section \<open>The records of an exchange\<close>

text \<open>The records that arrive, in their order.\<close>

fun recordsOf :: "u16 \<Rightarrow> read_result \<Rightarrow> legacyDTLSRecord list" where
  "recordsOf version (ReadDatagram d) = (case parseLegacyDTLSRecords version d of Inl e \<Rightarrow> [] | Inr rs \<Rightarrow> rs)"
| "recordsOf version _ = []"

definition recordsRead :: "u16 \<Rightarrow> read_result list \<Rightarrow> legacyDTLSRecord list" where
  "recordsRead version reads = concat (map (recordsOf version) reads)"

lemma recordsRead_simps [simp]:
  "recordsRead version [] = []" "recordsRead version (x # rest) = recordsOf version x @ recordsRead version rest"
  by (simp_all add: recordsRead_def)

lemma process_accepted:
  "processAnyConnectLegacyServerRecords h hs rs f = Inr (f', complete) \<Longrightarrow>
   acceptServerRecords h hs rs f = Inr f' \<and> complete = flightComplete f'"
  by (auto simp: processAnyConnectLegacyServerRecords_def split: sum.split_asm)

lemma flightReads_accepted:
  "flightReads h hs reads f = Some (Inr (f', complete), rest) \<Longrightarrow>
   \<exists>rs. recordsRead (suiteVersion (legacySuite (cipherSuite hs))) reads = rs @ recordsRead (suiteVersion (legacySuite (cipherSuite hs))) rest \<and>
     acceptServerRecords h hs rs f = Inr f' \<and> (complete \<longrightarrow> flightComplete f')"
proof (induction h hs reads f rule: flightReads.induct)
  case (5 h hs d reads f)
  obtain rs f1 c1 where p: "parseLegacyDTLSRecords (suiteVersion (legacySuite (cipherSuite hs))) d = Inr rs"
    "processAnyConnectLegacyServerRecords h hs rs f = Inr (f1, c1)"
    using "5.prems"(1) by (auto split: sum.split_asm prod.split_asm)
  note a = process_accepted [OF p(2)]
  show ?case
  proof (cases c1)
    case True
    then show ?thesis using "5.prems"(1) p a by auto
  next
    case False
    then have reads: "flightReads h hs reads f1 = Some (Inr (f', complete), rest)" using "5.prems"(1) p by simp
    have "\<exists>rs'. recordsRead (suiteVersion (legacySuite (cipherSuite hs))) reads = rs' @ recordsRead (suiteVersion (legacySuite (cipherSuite hs))) rest \<and>
        acceptServerRecords h hs rs' f1 = Inr f' \<and> (complete \<longrightarrow> flightComplete f')"
      using False by (intro "5.IH" [OF p refl _ reads]) simp
    then obtain rs' where "recordsRead (suiteVersion (legacySuite (cipherSuite hs))) reads = rs' @ recordsRead (suiteVersion (legacySuite (cipherSuite hs))) rest"
      "acceptServerRecords h hs rs' f1 = Inr f'" "complete \<longrightarrow> flightComplete f'" by blast
    then show ?thesis using a p(1) by (intro exI [of _ "rs @ rs'"]) (simp add: acceptServerRecords_append)
  qed
qed auto

lemma flightAttempts_accepted:
  "flightAttempts h hs clientHello tries sends reads f n sent = Some (Inr (f', n'), sent') \<Longrightarrow>
   \<exists>rs rest. recordsRead (suiteVersion (legacySuite (cipherSuite hs))) reads = rs @ rest \<and>
     acceptServerRecords h hs rs f = Inr f' \<and> flightComplete f'"
proof (induction tries arbitrary: sends reads f n sent)
  case (Suc tries)
  obtain f1 c1 rest where r: "flightReads h hs reads f = Some (Inr (f1, c1), rest)"
    using Suc.prems(1) by (auto simp: Let_def split: option.split_asm sum.split_asm prod.split_asm)
  obtain rs where rs: "recordsRead (suiteVersion (legacySuite (cipherSuite hs))) reads = rs @ recordsRead (suiteVersion (legacySuite (cipherSuite hs))) rest"
    "acceptServerRecords h hs rs f = Inr f1" "c1 \<longrightarrow> flightComplete f1"
    using flightReads_accepted [OF r] by blast
  show ?case
  proof (cases c1)
    case True
    then show ?thesis using Suc.prems(1) r rs by (auto simp: Let_def)
  next
    case False
    then obtain n1 sent1 where "flightAttempts h hs clientHello tries True rest f1 n1 sent1 = Some (Inr (f', n'), sent')"
      using Suc.prems(1) r by (auto simp: Let_def)
    from Suc.IH [OF this] obtain rs' last' where "recordsRead (suiteVersion (legacySuite (cipherSuite hs))) rest = rs' @ last'"
      "acceptServerRecords h hs rs' f1 = Inr f'" "flightComplete f'" by blast
    then show ?thesis using rs by (intro exI [of _ "rs @ rs'"] exI [of _ last']) (simp add: acceptServerRecords_append)
  qed
qed simp

lemma exchange_accepted:
  assumes "exchangeAnyConnectLegacyServerFlight h hs clientHello initial reads = Some (Inr (f, n), sent)"
  shows "\<exists>rs rest. initial @ recordsRead (suiteVersion (legacySuite (cipherSuite hs))) reads = rs @ rest \<and>
    acceptServerRecords h hs rs emptyFlight = Inr f \<and> flightComplete f"
proof (cases "initial = []")
  case True
  then show ?thesis using assms flightAttempts_accepted by (simp add: exchangeAnyConnectLegacyServerFlight_def)
next
  case False
  obtain f1 c1 where p: "processAnyConnectLegacyServerRecords h hs initial emptyFlight = Inr (f1, c1)"
    using assms False by (auto simp: exchangeAnyConnectLegacyServerFlight_def split: sum.split_asm prod.split_asm)
  note a = process_accepted [OF p]
  show ?thesis
  proof (cases c1)
    case True
    then show ?thesis using assms False p a by (auto simp: exchangeAnyConnectLegacyServerFlight_def)
  next
    case c: False
    then have "flightAttempts h hs clientHello 6 False reads f1 1 [] = Some (Inr (f, n), sent)"
      using assms False p by (simp add: exchangeAnyConnectLegacyServerFlight_def)
    from flightAttempts_accepted [OF this] obtain rs' last' where
      "recordsRead (suiteVersion (legacySuite (cipherSuite hs))) reads = rs' @ last'"
      "acceptServerRecords h hs rs' f1 = Inr f" "flightComplete f" by blast
    then show ?thesis using a by (intro exI [of _ "initial @ rs'"] exI [of _ last']) (simp add: acceptServerRecords_append)
  qed
qed

end
