(* ===== verification/Dtls_Session.thy ===== *)
theory Dtls_Session
  imports Dtls_Flight
begin

text \<open>
  The whole of \<^verbatim>\<open>connectLegacy\<close> (\<^verbatim>\<open>dtls_legacy.go\<close>): cookie exchange, server flight and final flight, from the
  datagrams that arrive to the connection that it returns.
\<close>

section \<open>The hello messages\<close>

definition clientHelloText :: "bytes \<Rightarrow> bytes \<Rightarrow> bytes \<Rightarrow> anyConnectLegacyCipher \<Rightarrow> bytes" where
  "clientHelloText random sid cookie cipher =
     [1, 0] @ random @ [byte_of (length sid)] @ sid @ [byte_of (length cookie)] @ cookie @ [0, 2] @ put_u16 (cipherID cipher) @ [1, 0] @ [0, 0]"

definition helloVerifyRecord :: "bytes \<Rightarrow> u64 \<Rightarrow> legacyDTLSRecord" where
  "helloVerifyRecord cookie n = \<lparr>contentType = legacyDTLSContentHandshake, epoch = 0, recordSequence = n,
     recordPayload = buildAnyConnectLegacyHandshakeMessage helloVerifyType 0 ([1, 0, byte_of (length cookie)] @ cookie)\<rparr>"

lemma client_hello_built:
  assumes "length random = 32" "length sid \<le> 255" "length cookie \<le> 255" "n \<le> legacyDTLSMaxSequence"
  shows "\<exists>d. buildAnyConnectLegacyClientHello random sid cookie cipher n = Inr (d, clientHelloText random sid cookie cipher)"
  using assms(1-3)
  by (simp add: buildAnyConnectLegacyClientHello_def clientHelloText_def marshalLegacyDTLSRecord_def
      buildAnyConnectLegacyHandshakeMessage_def leD [OF assms(4)] Let_def)

lemma hello_verify_answer:
  assumes "0 < length cookie" "length cookie \<le> 255" "marshalLegacyDTLSRecord version (helloVerifyRecord cookie n) = Inr d"
  shows "initialResponse version (Suc tries) (ReadDatagram d # reads) k = Some (Inr \<lparr>helloCookie = cookie, serverRecords = []\<rparr>, k + 1, reads)"
proof -
  have p: "parseLegacyDTLSRecords version d = Inr [helloVerifyRecord cookie n]"
    using parse_marshal [OF assms(3), of "[]"] by (simp add: parseLegacyDTLSRecords.simps [of _ "[]"])
  have "unat (byte_of (length cookie)) = length cookie" using assms(2) by (intro unat_byte_of) simp
  moreover from this have "byte_of (length cookie) \<noteq> 0" using assms(1) by (metis less_numeral_extra(3) unat_0)
  ultimately have "parseAnyConnectLegacyHelloVerify ([1, 0, byte_of (length cookie)] @ cookie) = Inr cookie"
    by (simp add: parseAnyConnectLegacyHelloVerify_def)
  then have "initialRecords [helloVerifyRecord cookie n] [helloVerifyRecord cookie n] = Inr (Some \<lparr>helloCookie = cookie, serverRecords = []\<rparr>)"
    using assms(2) by (simp add: helloVerifyRecord_def parse_build)
  then show ?thesis by (simp add: p)
qed

lemma key_lengths:
  assumes "hashes_ok h"
  shows "length (clientKey (legacyKeys h hs random)) = cipherKeyLength (cipherSuite hs)"
    "length (serverKey (legacyKeys h hs random)) = cipherKeyLength (cipherSuite hs)"
  by (simp_all add: legacyKeys_def deriveLegacyDTLSKeys_def Let_def legacySuite_def subslice_def length_tls10PRF [OF assms])

lemma final_flight:
  assumes "hashes_ok h" "suite_ok (legacySuite (cipherSuite hs))" "length iv = cipherBlockLength (cipherSuite hs)"
    "cipherNewBlock (cipherSuite hs) (clientKey (flightKeys f)) = Inr b" "n \<le> legacyDTLSMaxSequence"
  shows "\<exists>conn out q. finishLegacy h hs (Inr iv) f n = Inr (conn, out) \<and> connKeys conn = flightKeys f \<and> connSuite conn = legacySuite (cipherSuite hs) \<and>
    connReplay conn = emptyReplayWindow \<and> readQueue conn = [] \<and> writeSequence conn = 1 \<and> strict conn \<and> \<not> connClosed conn \<and>
    finalFlight conn = [out] \<and>
    serverFinished conn = buildAnyConnectLegacyHandshakeMessage finishedType (serverHelloSequence hs + 2) (flightFinished f) \<and>
    parseLegacyDTLSRecords (suiteVersion (legacySuite (cipherSuite hs))) out = Inr [changeCipherRecord hs n, q] \<and>
    contentType q = legacyDTLSContentHandshake \<and> epoch q = 1 \<and>
    decryptLegacyDTLSRecord (hmacSHA1 h) (legacySuite (cipherSuite hs)) q (clientKey (flightKeys f)) (clientMACKey (flightKeys f)) =
      Inr (buildAnyConnectLegacyHandshakeMessage finishedType (serverHelloSequence hs + 2)
        (anyConnectLegacyFinished h (masterSecret hs) ''client finished'' (clientHelloBody hs @ serverHelloBody f @ flightFinished f)))"
proof -
  define suite where "suite = legacySuite (cipherSuite hs)"
  define message where "message = buildAnyConnectLegacyHandshakeMessage finishedType (serverHelloSequence hs + 2)
        (anyConnectLegacyFinished h (masterSecret hs) ''client finished'' (clientHelloBody hs @ serverHelloBody f @ flightFinished f))"
  let ?r = "\<lparr>contentType = legacyDTLSContentHandshake, epoch = 1, recordSequence = 0, recordPayload = message\<rparr>"
  have mac: "mac_ok (hmacSHA1 h)" using assms(1) by (simp add: hashes_ok_def)
  have ok: "suite_ok suite" "length iv = blockLength suite" "newBlock suite (clientKey (flightKeys f)) = Inr b"
    using assms(2-4) by (simp_all add: suite_def legacySuite_def)
  have "length message = 24" by (simp add: message_def buildAnyConnectLegacyHandshakeMessage_def length_finished assms(1))
  then obtain fin where fin: "encryptLegacyDTLSRecord (hmacSHA1 h) suite (Inr iv) ?r (clientKey (flightKeys f)) (clientMACKey (flightKeys f)) = Inr fin"
    using encrypt_succeeds [OF mac ok, of ?r "clientMACKey (flightKeys f)"] by (auto simp: legacyDTLSMaxSequence_def)
  obtain p where p: "marshalLegacyDTLSRecord (suiteVersion suite) (?r\<lparr>recordPayload := p\<rparr>) = Inr fin"
    "decryptLegacyDTLSRecord (hmacSHA1 h) suite (?r\<lparr>recordPayload := p\<rparr>) (clientKey (flightKeys f)) (clientMACKey (flightKeys f)) = Inr message"
    using encrypt_decrypt [OF mac ok(1,2) _ fin] by auto
  obtain ccs where ccs: "marshalLegacyDTLSRecord (suiteVersion suite) (changeCipherRecord hs n) = Inr ccs"
    by (auto simp: marshalLegacyDTLSRecord_def changeCipherRecord_def legacyChangeCipher_def leD [OF assms(5)])
  have "marshalAll (suiteVersion suite) [changeCipherRecord hs n, ?r\<lparr>recordPayload := p\<rparr>] = Inr (ccs @ fin)"
    using ccs p(1) by simp
  then have "parseLegacyDTLSRecords (suiteVersion suite) (ccs @ fin) = Inr [changeCipherRecord hs n, ?r\<lparr>recordPayload := p\<rparr>]"
    by (rule parse_marshalAll)
  moreover have "finishLegacy h hs (Inr iv) f n = Inr
      (\<lparr>connSuite = suite, connKeys = flightKeys f, strict = True, closeAlert = False, connMTU = 0, readQueue = [],
         writeSequence = 1, connReplay = emptyReplayWindow, finalFlight = [ccs @ fin],
         serverFinished = buildAnyConnectLegacyHandshakeMessage finishedType (serverHelloSequence hs + 2) (flightFinished f),
         connClosed = False\<rparr>, ccs @ fin)"
    using ccs fin by (simp add: finishLegacy_def Let_def suite_def message_def changeCipherRecord_def)
  ultimately show ?thesis using p(2) by (auto simp flip: suite_def) (simp add: message_def)
qed

text \<open>The server can encrypt its Finished.\<close>

lemma server_finished_exists:
  assumes "hashes_ok h" "suite_ok (legacySuite (cipherSuite hs))" "newBlock (legacySuite (cipherSuite hs)) (serverKey (legacyKeys h hs random)) = Inr b"
  obtains r d where "isServerFinished h hs body random r" "marshalLegacyDTLSRecord (suiteVersion (legacySuite (cipherSuite hs))) r = Inr d"
proof -
  let ?suite = "legacySuite (cipherSuite hs)" and ?keys = "legacyKeys h hs random"
  let ?r = "\<lparr>contentType = legacyDTLSContentHandshake, epoch = 1, recordSequence = 0,
    recordPayload = buildAnyConnectLegacyHandshakeMessage finishedType (serverHelloSequence hs + 2) (serverVerify h hs body)\<rparr>"
  let ?iv = "replicate (blockLength ?suite) 0"
  have mac: "mac_ok (hmacSHA1 h)" using assms(1) by (simp add: hashes_ok_def)
  have "length (recordPayload ?r) = 24"
    by (simp add: buildAnyConnectLegacyHandshakeMessage_def serverVerify_def length_finished assms(1))
  then obtain d where d: "encryptLegacyDTLSRecord (hmacSHA1 h) ?suite (Inr ?iv) ?r (serverKey ?keys) (serverMACKey ?keys) = Inr d"
    using encrypt_succeeds [OF mac assms(2) _ assms(3), of ?iv ?r "serverMACKey ?keys"] by (auto simp: legacyDTLSMaxSequence_def)
  obtain q where "marshalLegacyDTLSRecord (suiteVersion ?suite) (?r\<lparr>recordPayload := q\<rparr>) = Inr d"
    "decryptLegacyDTLSRecord (hmacSHA1 h) ?suite (?r\<lparr>recordPayload := q\<rparr>) (serverKey ?keys) (serverMACKey ?keys) = Inr (recordPayload ?r)"
    using encrypt_decrypt [OF mac assms(2) _ _ d] by auto
  then show thesis using that [of "?r\<lparr>recordPayload := q\<rparr>" d] by (simp add: isServerFinished_def)
qed

section \<open>The handshake\<close>

text \<open>C33: with a server that answers the ClientHello with a cookie and then sends its ServerHello, a ChangeCipherSpec and the Finished
  over the messages of both sides, repeated and in any order after the ServerHello, the handshake completes: the connection has the keys
  that both random values and the master secret give, and the server opens the client's last message to the Finished that it expects.\<close>

theorem dtls_handshake_completes:
  assumes "hashes_ok h" "anyConnectLegacyCipherForName bc name allow = Inr cipher" "suite_ok (legacySuite cipher)"
    "length sid = 32" "length master = 48" "length random = 32" "0 < length cookie" "length cookie \<le> 255"
    "hs = \<lparr>clientHelloBody = clientHelloText random sid cookie cipher, sessionID = sid, masterSecret = master, clientRandom = random,
       cipherSuite = cipher, serverHelloSequence = 1\<rparr>"
    "marshalLegacyDTLSRecord (suiteVersion (legacySuite cipher)) (helloVerifyRecord cookie n0) = Inr d0"
    "parseAnyConnectLegacyServerHello body sid (cipherID cipher) = Inr srandom" "length body < 16777216"
    "marshalAll (suiteVersion (legacySuite cipher)) (serverHelloRecord hs body n # rs) = Inr d1"
    "\<forall>r \<in> set rs. honestRecord h hs body srandom r" "\<exists>r \<in> set rs. contentType r = legacyDTLSContentCCS"
    "\<exists>r \<in> set rs. isServerFinished h hs body srandom r"
    "length iv = cipherBlockLength cipher" "cipherNewBlock cipher (clientKey (legacyKeys h hs srandom)) = Inr b"
  shows "\<exists>conn out q. connectLegacy h bc name allow sid master random (Inr iv) [ReadDatagram d0, ReadDatagram d1] = Some (Inr (conn, out)) \<and>
    connKeys conn = legacyKeys h hs srandom \<and> connSuite conn = legacySuite cipher \<and> connReplay conn = emptyReplayWindow \<and>
    readQueue conn = [] \<and> writeSequence conn = 1 \<and> finalFlight conn = [out] \<and>
    parseLegacyDTLSRecords (suiteVersion (legacySuite cipher)) out = Inr [changeCipherRecord hs 2, q] \<and>
    decryptLegacyDTLSRecord (hmacSHA1 h) (legacySuite cipher) q (clientKey (legacyKeys h hs srandom)) (clientMACKey (legacyKeys h hs srandom)) =
      Inr (buildAnyConnectLegacyHandshakeMessage finishedType 3
        (anyConnectLegacyFinished h master ''client finished'' (clientHelloText random sid cookie cipher @ body @ serverVerify h hs body)))"
proof -
  let ?f = "greeted h hs body srandom (emptyFlight\<lparr>changeCipherSeen := True, flightFinished := serverVerify h hs body\<rparr>)"
  have hs: "sessionID hs = sid" "cipherSuite hs = cipher" "masterSecret hs = master" "clientHelloBody hs = clientHelloText random sid cookie cipher"
    "serverHelloSequence hs = 1" using assms(9) by simp_all
  obtain hello0 where hello0: "buildAnyConnectLegacyClientHello random sid [] cipher 0 = Inr (hello0, clientHelloText random sid [] cipher)"
    using client_hello_built [of random sid "[]" 0 cipher] assms(4,6) by (auto simp: legacyDTLSMaxSequence_def)
  obtain hello where hello: "buildAnyConnectLegacyClientHello random sid cookie cipher 1 = Inr (hello, clientHelloText random sid cookie cipher)"
    using client_hello_built [of random sid cookie 1 cipher] assms(4,6,8) by (auto simp: legacyDTLSMaxSequence_def)
  note verify = hello_verify_answer [OF assms(7,8,10), of 5 "[ReadDatagram d1]" 0]
  have "processAnyConnectLegacyServerRecords h hs (serverHelloRecord hs body n # rs) emptyFlight = Inr (?f, True)"
    using assms(11) by (intro honest_flight assms(1,12,14-16)) (simp add: hs)
  then have reads: "flightReads h hs [ReadDatagram d1] emptyFlight = Some (Inr (?f, True), [])"
    using parse_marshalAll [OF assms(13)] by (simp add: hs)
  have flight: "exchangeAnyConnectLegacyServerFlight h hs hello [] [ReadDatagram d1] = Some (Inr (?f, 2), [numbered hello 1])"
    using reads by (simp add: exchangeAnyConnectLegacyServerFlight_def eval_nat_numeral Let_def del: flightReads.simps)
  have "connectLegacy h bc name allow sid master random (Inr iv) [ReadDatagram d0, ReadDatagram d1] = Some (finishLegacy h hs (Inr iv) ?f 2)"
    using verify flight by (simp add: connectLegacy_def assms(2,4,5) hello0 hello assms(9) [symmetric] eval_nat_numeral Let_def del: initialResponse.simps)
  moreover have "(2 :: u64) \<le> legacyDTLSMaxSequence" by (simp add: legacyDTLSMaxSequence_def)
  ultimately show ?thesis
    using final_flight [of h hs iv ?f b 2] assms(1,3,17,18) by (simp add: hs) blast
qed

text \<open>A session with a cipher that adds its key, and checksums for hashes.\<close>

definition sampleHashes :: legacy_hashes where
  "sampleHashes = \<lparr>hashMD5 = (\<lambda>m. [sum_list m]), hashSHA1 = (\<lambda>m. [of_nat (length m)]),
     hmacMD5 = (\<lambda>k m. replicate 16 (sum_list k + sum_list m)), hmacSHA1 = summingMAC\<rparr>"

definition sampleCiphers :: block_ciphers where
  "sampleCiphers = \<lparr>newAES = newBlock addingSuite, newTripleDES = newBlock addingSuite, newDES = newBlock addingSuite\<rparr>"

definition sampleCipher :: anyConnectLegacyCipher where
  "sampleCipher = \<lparr>cipherID = 0x002f, cipherKeyLength = 16, cipherBlockLength = 16, cipherNewBlock = newBlock addingSuite\<rparr>"

definition sampleHandshake :: handshake where
  "sampleHandshake = \<lparr>clientHelloBody = clientHelloText (replicate 32 3) (replicate 32 5) [9] sampleCipher, sessionID = replicate 32 5,
     masterSecret = replicate 48 8, clientRandom = replicate 32 3, cipherSuite = sampleCipher, serverHelloSequence = 1\<rparr>"

definition sampleHello :: "byte \<Rightarrow> bytes" where
  "sampleHello x = [1, 0] @ replicate 32 x @ [32] @ replicate 32 5 @ put_u16 0x002f @ [0]"

lemma sample_session:
  "hashes_ok sampleHashes" "anyConnectLegacyCipherForName sampleCiphers ''AES128-SHA'' False = Inr sampleCipher"
  "suite_ok (legacySuite sampleCipher)" "sessionID sampleHandshake = replicate 32 5" "cipherSuite sampleHandshake = sampleCipher"
  by (auto simp: hashes_ok_def sampleHashes_def mac_ok_def summingMAC_def anyConnectLegacyCipherForName_def sampleCiphers_def sampleCipher_def
      suite_ok_def legacySuite_def addingSuite_def sampleHandshake_def split: if_split_asm intro: map_idI)

lemma sample_hello:
  "parseAnyConnectLegacyServerHello (sampleHello x) (replicate 32 5) (cipherID sampleCipher) = Inr (replicate 32 x)" "length (sampleHello x) = 70"
proof -
  define r s where "r = replicate 32 x" and "s = replicate 32 (5 :: byte)"
  have l: "length r = 32" "length s = 32" by (simp_all add: r_def s_def)
  define H where "H = [1, 0] @ r @ [32] @ s @ put_u16 0x002f @ [0 :: byte]"
  have "H ! 0 = 1" "H ! 1 = 0" "H ! 34 = 32" "H ! 69 = 0" "length H = 70" "subslice H 2 34 = r" "subslice H 35 67 = s" "subslice H 67 69 = put_u16 0x002f"
    by (simp_all add: H_def subslice_def nth_append l put_u16_def)
  then have "parseAnyConnectLegacyServerHello H s 0x002f = Inr r"
    by (simp add: parseAnyConnectLegacyServerHello_def Let_def)
  then show "parseAnyConnectLegacyServerHello (sampleHello x) (replicate 32 5) (cipherID sampleCipher) = Inr (replicate 32 x)" "length (sampleHello x) = 70"
    by (simp_all add: H_def sampleHello_def r_def s_def sampleCipher_def)
qed

lemma sample_block: "cipherNewBlock sampleCipher (clientKey (legacyKeys sampleHashes sampleHandshake random)) =
    Inr \<lparr>encryptBlock = map (\<lambda>x. x + hd (clientKey (legacyKeys sampleHashes sampleHandshake random))),
      decryptBlock = map (\<lambda>x. x - hd (clientKey (legacyKeys sampleHashes sampleHandshake random)))\<rparr>"
  "newBlock (legacySuite sampleCipher) (serverKey (legacyKeys sampleHashes sampleHandshake random)) =
    Inr \<lparr>encryptBlock = map (\<lambda>x. x + hd (serverKey (legacyKeys sampleHashes sampleHandshake random))),
      decryptBlock = map (\<lambda>x. x - hd (serverKey (legacyKeys sampleHashes sampleHandshake random)))\<rparr>"
  using key_lengths [OF sample_session(1), of sampleHandshake random] by (auto simp: sample_session(5)) (auto simp: sampleCipher_def legacySuite_def addingSuite_def)

lemma sample_flight:
  obtains rs d where "marshalAll (suiteVersion (legacySuite sampleCipher)) (serverHelloRecord sampleHandshake (sampleHello 7) 1 # rs) = Inr d"
    "\<forall>r \<in> set rs. honestRecord sampleHashes sampleHandshake (sampleHello 7) (replicate 32 7) r"
    "\<exists>r \<in> set rs. contentType r = legacyDTLSContentCCS" "\<exists>r \<in> set rs. isServerFinished sampleHashes sampleHandshake (sampleHello 7) (replicate 32 7) r"
proof -
  let ?v = "suiteVersion (legacySuite sampleCipher)" and ?hs = sampleHandshake
  obtain fin dfin where fin: "isServerFinished sampleHashes ?hs (sampleHello 7) (replicate 32 7) fin" "marshalLegacyDTLSRecord ?v fin = Inr dfin"
    using server_finished_exists [of sampleHashes ?hs "replicate 32 7" _ "sampleHello 7"] sample_session sample_block(2) by metis
  have "\<exists>d. marshalLegacyDTLSRecord ?v (serverHelloRecord ?hs (sampleHello 7) 1) = Inr d"
    "\<exists>d. marshalLegacyDTLSRecord ?v (changeCipherRecord ?hs 2) = Inr d"
    by (simp_all add: marshalLegacyDTLSRecord_def serverHelloRecord_def changeCipherRecord_def
        buildAnyConnectLegacyHandshakeMessage_def legacyChangeCipher_def sample_hello(2) legacyDTLSMaxSequence_def)
  then obtain dh dc where "marshalLegacyDTLSRecord ?v (serverHelloRecord ?hs (sampleHello 7) 1) = Inr dh"
    "marshalLegacyDTLSRecord ?v (changeCipherRecord ?hs 2) = Inr dc"
    by blast
  then have "marshalAll ?v (serverHelloRecord ?hs (sampleHello 7) 1 # [changeCipherRecord ?hs 2, fin]) = Inr (dh @ dc @ dfin)"
    using fin(2) by simp
  then show thesis by (rule that) (use fin(1) in \<open>auto simp: honestRecord_def changeCipherRecord_def\<close>)
qed

theorem dtls_handshake_completes_witness:
  "\<exists>d0 d1 conn out. connectLegacy sampleHashes sampleCiphers ''AES128-SHA'' False (replicate 32 5) (replicate 48 8) (replicate 32 3)
     (Inr (replicate 16 0)) [ReadDatagram d0, ReadDatagram d1] = Some (Inr (conn, out)) \<and>
     connKeys conn = legacyKeys sampleHashes sampleHandshake (replicate 32 7)"
proof -
  have "\<exists>d. marshalLegacyDTLSRecord (suiteVersion (legacySuite sampleCipher)) (helloVerifyRecord [9] 0) = Inr d"
    by (simp add: marshalLegacyDTLSRecord_def helloVerifyRecord_def buildAnyConnectLegacyHandshakeMessage_def legacyDTLSMaxSequence_def)
  then obtain d0 where d0: "marshalLegacyDTLSRecord (suiteVersion (legacySuite sampleCipher)) (helloVerifyRecord [9] 0) = Inr d0" by blast
  obtain rs d1 where rs: "marshalAll (suiteVersion (legacySuite sampleCipher)) (serverHelloRecord sampleHandshake (sampleHello 7) 1 # rs) = Inr d1"
    "\<forall>r \<in> set rs. honestRecord sampleHashes sampleHandshake (sampleHello 7) (replicate 32 7) r"
    "\<exists>r \<in> set rs. contentType r = legacyDTLSContentCCS" "\<exists>r \<in> set rs. isServerFinished sampleHashes sampleHandshake (sampleHello 7) (replicate 32 7) r"
    by (rule sample_flight)
  have "length (replicate 16 0 :: bytes) = cipherBlockLength sampleCipher" by (simp add: sampleCipher_def)
  then show ?thesis
    using dtls_handshake_completes [OF sample_session(1,2,3) _ _ _ _ _ sampleHandshake_def d0 sample_hello(1) _ rs _ sample_block(1), of "replicate 16 0"]
    by (simp add: sample_hello(2)) blast
qed

text \<open>C34: a server flight only completes on a sequence of records, taken in the order in which they arrived, that has a
  ChangeCipherSpec and a record that opens, under the keys of a ServerHello taken before it, to the Finished over the
  ClientHello and that ServerHello. The ServerHello, the random bytes and the keys of the completed flight are those
  that the Finished covers, unless another ServerHello, which no Finished needs to cover, was taken after the
  Finished: then they are that one's.\<close>

theorem dtls_finished_covers:
  assumes "exchangeAnyConnectLegacyServerFlight h hs clientHello initial reads = Some (Inr (f, n), sent)"
  shows "parseAnyConnectLegacyServerHello (serverHelloBody f) (sessionID hs) (cipherID (cipherSuite hs)) = Inr (serverRandom f) \<and>
    flightKeys f = legacyKeys h hs (serverRandom f) \<and>
    (\<exists>before r after rest g p. initial @ recordsRead (suiteVersion (legacySuite (cipherSuite hs))) reads = before @ r # after @ rest \<and>
       acceptServerRecords h hs before emptyFlight = Inr g \<and> keysReady g \<and> epoch r = 1 \<and>
       (\<exists>c \<in> set (before @ after). contentType c = legacyDTLSContentCCS) \<and>
       decryptLegacyDTLSRecord (hmacSHA1 h) (legacySuite (cipherSuite hs)) r
         (serverKey (legacyKeys h hs (serverRandom g))) (serverMACKey (legacyKeys h hs (serverRandom g))) = Inr p \<and>
       parseAnyConnectLegacyHandshakeMessage p = Inr \<lparr>messageType = finishedType, messageSequence = serverHelloSequence hs + 2,
         messageBody = anyConnectLegacyFinished h (masterSecret hs) ''server finished'' (clientHelloBody hs @ serverHelloBody g)\<rparr> \<and>
       acceptServerRecords h hs after (g\<lparr>flightFinished := flightFinished f\<rparr>) = Inr f \<and>
       (serverHelloBody f = serverHelloBody g \<and> serverRandom f = serverRandom g \<and> flightKeys f = flightKeys g \<or>
        (\<exists>x \<in> set after. helloOf hs x (serverHelloBody f))))"
proof -
  obtain rs rest where rs: "initial @ recordsRead (suiteVersion (legacySuite (cipherSuite hs))) reads = rs @ rest"
    "acceptServerRecords h hs rs emptyFlight = Inr f" and complete: "flightComplete f"
    using exchange_accepted [OF assms] by blast
  note complete = complete [unfolded flightComplete_def]
  have sound: "flightSound h hs f" by (rule flightSound_records [OF rs(2)]) (simp add: flightSound_def emptyFlight_def)
  have "flightFinished f \<noteq> flightFinished emptyFlight" using complete by (auto simp: emptyFlight_def)
  then obtain before r after g where split: "rs = before @ r # after" "acceptServerRecords h hs before emptyFlight = Inr g"
    "contentType r = legacyDTLSContentHandshake" "epoch r = 1" "keysReady g"
    "acceptServerRecord h hs r g = Inr (g\<lparr>flightFinished := flightFinished f\<rparr>)"
    "acceptServerFinished h hs r g = Inr (g\<lparr>flightFinished := flightFinished f\<rparr>)"
    using finished_record [OF rs(2)] by blast
  have g: "flightSound h hs g" by (rule flightSound_records [OF split(2)]) (simp add: flightSound_def emptyFlight_def)
  have after: "acceptServerRecords h hs after (g\<lparr>flightFinished := flightFinished f\<rparr>) = Inr f"
    using rs(2) split(2,6) by (simp add: split(1) acceptServerRecords_append)
  have order: "initial @ recordsRead (suiteVersion (legacySuite (cipherSuite hs))) reads = before @ r # after @ rest"
    using rs(1) split(1) by simp
  have "\<exists>c \<in> set rs. contentType c = legacyDTLSContentCCS"
    using change_cipher_record [OF rs(2)] complete by (simp add: emptyFlight_def)
  then have ccs: "\<exists>c \<in> set (before @ after). contentType c = legacyDTLSContentCCS"
    using split(3) by (auto simp: split(1))
  have "flightKeys f = flightKeys g" if "serverRandom f = serverRandom g"
    using that sound g complete split(5) by (simp add: flightSound_def)
  then have hello: "serverHelloBody f = serverHelloBody g \<and> serverRandom f = serverRandom g \<and> flightKeys f = flightKeys g \<or>
      (\<exists>x \<in> set after. helloOf hs x (serverHelloBody f))"
    using hello_cases [OF after] by auto
  obtain p where p: "decryptLegacyDTLSRecord (hmacSHA1 h) (legacySuite (cipherSuite hs)) r
         (serverKey (legacyKeys h hs (serverRandom g))) (serverMACKey (legacyKeys h hs (serverRandom g))) = Inr p"
    "parseAnyConnectLegacyHandshakeMessage p = Inr \<lparr>messageType = finishedType, messageSequence = serverHelloSequence hs + 2,
         messageBody = anyConnectLegacyFinished h (masterSecret hs) ''server finished'' (clientHelloBody hs @ serverHelloBody g)\<rparr>"
    using finished_of_server [OF split(7) g split(3,4)] unfolding serverVerify_def by blast
  have f: "parseAnyConnectLegacyServerHello (serverHelloBody f) (sessionID hs) (cipherID (cipherSuite hs)) = Inr (serverRandom f)"
    "flightKeys f = legacyKeys h hs (serverRandom f)"
    using sound complete by (simp_all add: flightSound_def)
  show ?thesis using f order split(2,4,5) ccs p after hello by blast
qed

theorem dtls_finished_covers_witness:
  "\<exists>d f sent. exchangeAnyConnectLegacyServerFlight sampleHashes sampleHandshake [] [] [ReadDatagram d] = Some (Inr (f, 2), sent) \<and>
     flightKeys f = legacyKeys sampleHashes sampleHandshake (serverRandom f) \<and> serverRandom f = replicate 32 7"
proof -
  obtain rs d where rs: "marshalAll (suiteVersion (legacySuite sampleCipher)) (serverHelloRecord sampleHandshake (sampleHello 7) 1 # rs) = Inr d"
    "\<forall>r \<in> set rs. honestRecord sampleHashes sampleHandshake (sampleHello 7) (replicate 32 7) r"
    "\<exists>r \<in> set rs. contentType r = legacyDTLSContentCCS" "\<exists>r \<in> set rs. isServerFinished sampleHashes sampleHandshake (sampleHello 7) (replicate 32 7) r"
    by (rule sample_flight)
  have "processAnyConnectLegacyServerRecords sampleHashes sampleHandshake (serverHelloRecord sampleHandshake (sampleHello 7) 1 # rs) emptyFlight =
      Inr (greeted sampleHashes sampleHandshake (sampleHello 7) (replicate 32 7)
        (emptyFlight\<lparr>changeCipherSeen := True, flightFinished := serverVerify sampleHashes sampleHandshake (sampleHello 7)\<rparr>), True)"
    by (rule honest_flight) (use rs in \<open>simp_all add: sample_session sample_hello\<close>)
  then have "flightReads sampleHashes sampleHandshake [ReadDatagram d] emptyFlight = Some (Inr (greeted sampleHashes sampleHandshake (sampleHello 7) (replicate 32 7)
        (emptyFlight\<lparr>changeCipherSeen := True, flightFinished := serverVerify sampleHashes sampleHandshake (sampleHello 7)\<rparr>), True), [])"
    using parse_marshalAll [OF rs(1)] by (simp add: sample_session)
  then obtain f sent where e: "exchangeAnyConnectLegacyServerFlight sampleHashes sampleHandshake [] [] [ReadDatagram d] = Some (Inr (f, 2), sent)"
    "serverRandom f = replicate 32 7"
    by (simp add: exchangeAnyConnectLegacyServerFlight_def eval_nat_numeral Let_def greeted_def del: flightReads.simps)
  then show ?thesis using dtls_finished_covers [OF e(1)] by blast
qed

text \<open>A ServerHello that arrives between the Finished and the ChangeCipherSpec replaces the one that the Finished covers, and the flight completes
  although it is not authenticated.\<close>

lemma dtls_hello_replaced:
  assumes "hashes_ok h" "parseAnyConnectLegacyServerHello body (sessionID hs) (cipherID (cipherSuite hs)) = Inr random" "length body < 16777216"
    "parseAnyConnectLegacyServerHello body' (sessionID hs) (cipherID (cipherSuite hs)) = Inr random'" "length body' < 16777216"
    "isServerFinished h hs body random r"
  shows "processAnyConnectLegacyServerRecords h hs
      [serverHelloRecord hs body n, r, serverHelloRecord hs body' n', changeCipherRecord hs m] emptyFlight =
    Inr (greeted h hs body' random' (emptyFlight\<lparr>changeCipherSeen := True, flightFinished := serverVerify h hs body\<rparr>), True)"
  by (simp add: processAnyConnectLegacyServerRecords_def accept_hello [OF assms(2,3)] accept_hello [OF assms(4,5)] accept_change_cipher
      accept_finished [OF assms(1,6)] flightComplete_def serverVerify_def length_finished [OF assms(1)]) (simp add: greeted_def)

end
