(* ===== verification/Compression.thy ===== *)
theory Compression
  imports Cstp Lzs_Roundtrip "HOL-Library.Sublist"
begin

text \<open>
  Compression of CSTP and DTLS packets (\<^verbatim>\<open>anyconnect_compression.go\<close>): the negotiated method, the two
  methods that compress every packet by itself, and the deflate stream with its Adler-32 checksum. LZ4 and
  deflate come from libraries and are parameters; LZS is that of \<open>Lzs\<close>.
\<close>

section \<open>Definitions\<close>

subsection \<open>Methods\<close>

definition anyConnectMinimumCompressionSize :: nat where "anyConnectMinimumCompressionSize = 40"

datatype anyConnectCompression =
    anyConnectCompressionNone
  | anyConnectCompressionLZ4
  | anyConnectCompressionLZS
  | anyConnectCompressionDeflate

definition parseAnyConnectCompression :: "string \<Rightarrow> bool \<Rightarrow> string \<Rightarrow> bool \<Rightarrow> anyConnectCompression result" where
  "parseAnyConnectCompression v compressionDisabled compressionMode allowDeflate =
     (if v = '''' then Inr anyConnectCompressionNone
      else if compressionDisabled
      then Inl (Extend (Sentinel ErrProtocolNotSupported) '' selected compression while compression is disabled: '')
      else if v = ''oc-lz4'' then Inr anyConnectCompressionLZ4
      else if v = ''lzs'' then Inr anyConnectCompressionLZS
      else if v = ''deflate'' \<and> allowDeflate \<and> compressionMode = ''all'' then Inr anyConnectCompressionDeflate
      else Inl (Extend (Sentinel ErrProtocolNotSupported) ''unsupported ''))"

text \<open>The block functions of LZ4: the room of the destination and the source; the result may be empty.\<close>

record lz4_library =
  lz4CompressBlock :: "nat \<Rightarrow> bytes \<Rightarrow> bytes result"
  lz4UncompressBlock :: "nat \<Rightarrow> bytes \<Rightarrow> bytes result"

text \<open>The compressor of LZS comes from a pool, in any state; that it returns is proved in \<open>Lzs_Roundtrip\<close>.\<close>

definition compressAnyConnectStatelessPacket :: "lz4_library \<Rightarrow> lzsCompressor \<Rightarrow> anyConnectCompression \<Rightarrow> bytes \<Rightarrow> bytes option" where
  "compressAnyConnectStatelessPacket lz4 pooled method payload =
     (if length payload < anyConnectMinimumCompressionSize \<or>
         (method \<noteq> anyConnectCompressionLZ4 \<and> method \<noteq> anyConnectCompressionLZS) then None
      else
        let compressed =
          (if method = anyConnectCompressionLZ4 then lz4CompressBlock lz4 (length payload) payload
           else case compressLZS pooled (replicate (length payload) 0) payload of
             Some (Inr (n, d)) \<Rightarrow> Inr (take n d)
           | Some (Inl e) \<Rightarrow> Inl e
           | None \<Rightarrow> Inl (New ''''))
        in case compressed of
             Inl e \<Rightarrow> None
           | Inr d \<Rightarrow> if d = [] \<or> length d > length payload then None else Some d)"

definition decompressAnyConnectStatelessPacket :: "lz4_library \<Rightarrow> anyConnectCompression \<Rightarrow> bytes \<Rightarrow> nat \<Rightarrow> bytes result" where
  "decompressAnyConnectStatelessPacket lz4 method payload maximumPayloadSize =
     (case
        (case method of
           anyConnectCompressionLZ4 \<Rightarrow> lz4UncompressBlock lz4 maximumPayloadSize payload
         | anyConnectCompressionLZS \<Rightarrow>
             (case decompressLZS (replicate maximumPayloadSize 0) payload of Inl e \<Rightarrow> Inl e | Inr (n, d) \<Rightarrow> Inr (take n d))
         | _ \<Rightarrow> Inl (New ''unsupported stateless compression: '')) of
        Inl e \<Rightarrow> Inl e
      | Inr d \<Rightarrow> if d = [] then Inl (New ''decompressed packet is empty'') else Inr d)"

subsection \<open>Adler-32\<close>

definition adlerBlock :: "bytes \<Rightarrow> u32 \<times> u32 \<Rightarrow> u32 \<times> u32" where
  "adlerBlock block lh = fold (\<lambda>v (low, high). (low + ucast v, high + (low + ucast v))) block lh"

function adlerBlocks :: "u32 \<Rightarrow> u32 \<Rightarrow> bytes \<Rightarrow> u32 \<times> u32" where
  "adlerBlocks low high payload =
     (if payload = [] then (low, high)
      else case adlerBlock (take 5552 payload) (low, high) of
        (low', high') \<Rightarrow> adlerBlocks (low' mod 65521) (high' mod 65521) (drop 5552 payload))"
  by pat_completeness auto
termination
  by (relation "measure (\<lambda>(low, high, payload). length payload)") auto

declare adlerBlocks.simps [simp del]

definition updateAdler32 :: "u32 \<Rightarrow> bytes \<Rightarrow> u32" where
  "updateAdler32 checksum payload =
     (case adlerBlocks (checksum AND 0xffff) (drop_bit 16 checksum) payload of (low, high) \<Rightarrow> push_bit 16 high OR low)"

subsection \<open>The deflate stream\<close>

text \<open>What the decompressor reads from: \<open>append\<close>, \<open>Read\<close> and \<open>ReadByte\<close>.\<close>

record anyConnectDeflateSource =
  sourceContent :: bytes
  sourcePosition :: nat

definition appendSource :: "bytes \<Rightarrow> anyConnectDeflateSource \<Rightarrow> anyConnectDeflateSource" where
  "appendSource content r =
     (if sourcePosition r = length (sourceContent r) then \<lparr>sourceContent = content, sourcePosition = 0\<rparr>
      else \<lparr>sourceContent = drop (sourcePosition r) (sourceContent r) @ content, sourcePosition = 0\<rparr>)"

definition errAnyConnectDeflateInputExhausted :: go_error where
  "errAnyConnectDeflateInputExhausted = New ''truncated deflate packet''"

definition readSource :: "nat \<Rightarrow> anyConnectDeflateSource \<Rightarrow> anyConnectDeflateSource \<times> bytes result" where
  "readSource room r =
     (if sourcePosition r = length (sourceContent r) then (r, Inl errAnyConnectDeflateInputExhausted)
      else let d = take room (drop (sourcePosition r) (sourceContent r)) in (r\<lparr>sourcePosition := sourcePosition r + length d\<rparr>, Inr d))"

definition readByteSource :: "anyConnectDeflateSource \<Rightarrow> anyConnectDeflateSource \<times> byte result" where
  "readByteSource r =
     (if sourcePosition r = length (sourceContent r) then (r, Inl errAnyConnectDeflateInputExhausted)
      else (r\<lparr>sourcePosition := sourcePosition r + 1\<rparr>, Inr (sourceContent r ! sourcePosition r)))"

text \<open>
  The compressor puts what \<open>Write\<close> and \<open>Flush\<close> give into the outgoing buffer; the decompressor's \<open>Read\<close> reads the source and
  fills at most the given room.
\<close>

record ('w, 'r) flate_library =
  flateWrite :: "'w \<Rightarrow> bytes \<Rightarrow> 'w \<times> bytes \<times> nat result"
  flateFlush :: "'w \<Rightarrow> 'w \<times> bytes \<times> go_error option"
  inflateRead :: "'r \<Rightarrow> anyConnectDeflateSource \<Rightarrow> nat \<Rightarrow> 'r \<times> anyConnectDeflateSource \<times> bytes \<times> go_error option"

record ('w, 'r) anyConnectDeflateState =
  outgoingWriter :: 'w
  outgoingChecksum :: u32
  incomingSource :: anyConnectDeflateSource
  incomingReader :: 'r
  incomingChecksum :: u32

definition newAnyConnectDeflateState :: "'w result \<Rightarrow> 'r \<Rightarrow> ('w, 'r) anyConnectDeflateState result" where
  "newAnyConnectDeflateState writer reader =
     (case writer of
        Inl e \<Rightarrow> Inl (Cause e ''create deflate compressor'')
      | Inr w \<Rightarrow> Inr \<lparr>outgoingWriter = w, outgoingChecksum = 1, incomingSource = \<lparr>sourceContent = [], sourcePosition = 0\<rparr>,
          incomingReader = reader, incomingChecksum = 1\<rparr>)"

definition cstpMaximumPayloadSize :: nat where "cstpMaximumPayloadSize = 65535"

definition compressDeflate :: "('w, 'r) flate_library \<Rightarrow> bytes \<Rightarrow> ('w, 'r) anyConnectDeflateState \<Rightarrow> ('w, 'r) anyConnectDeflateState \<times> bytes result" where
  "compressDeflate lib payload s =
     (case flateWrite lib (outgoingWriter s) payload of
        (w, out, Inl e) \<Rightarrow> (s\<lparr>outgoingWriter := w\<rparr>, Inl (Cause e ''compress deflate packet''))
      | (w, out, Inr n) \<Rightarrow>
          if n \<noteq> length payload then (s\<lparr>outgoingWriter := w\<rparr>, Inl (New ''short deflate input: wrote ''))
          else (case flateFlush lib w of
                  (w, out', Some e) \<Rightarrow> (s\<lparr>outgoingWriter := w\<rparr>, Inl (Cause e ''flush deflate packet''))
                | (w, out', None) \<Rightarrow>
                    let checksum = updateAdler32 (outgoingChecksum s) payload;
                        s = s\<lparr>outgoingWriter := w, outgoingChecksum := checksum\<rparr>
                    in if length (out @ out') + 4 > cstpMaximumPayloadSize
                       then (s, Inl (New ''compressed deflate packet exceeds CSTP wire limit: ''))
                       else (s, Inr (out @ out' @ put_u32 checksum))))"

text \<open>How long the packet is that starts with these bytes; zero while they do not tell.\<close>

definition anyConnectIPPacketSize :: "bytes \<Rightarrow> nat result" where
  "anyConnectIPPacketSize payload =
     (if payload = [] then Inr 0
      else if drop_bit 4 (payload ! 0) = 4 then
        if length payload < 4 then Inr 0
        else let packetSize = unat (get_u16 (subslice payload 2 4))
             in if packetSize < 20 then Inl (New ''invalid decompressed IPv4 packet length: '') else Inr packetSize
      else if drop_bit 4 (payload ! 0) = 6 then
        if length payload < 6 then Inr 0 else Inr (40 + unat (get_u16 (subslice payload 4 6)))
      else Inl (New ''invalid decompressed IP version: ''))"

text \<open>The loop of \<open>decompress\<close>; \<open>expected\<close> is zero until the length is known.\<close>

function inflateLoop :: "('w, 'r) flate_library \<Rightarrow> nat \<Rightarrow> 'r \<Rightarrow> anyConnectDeflateSource \<Rightarrow> nat \<Rightarrow> bytes \<Rightarrow>
    'r \<times> anyConnectDeflateSource \<times> bytes result" where
  "inflateLoop lib maximum r src expected acc =
     (if expected \<noteq> 0 \<and> expected \<le> length acc then (r, src, Inr acc)
      else
        let free = maximum + 1 - length acc;
            room = (if expected > 0 then min free (expected - length acc) else free)
        in case inflateRead lib r src room of
          (r', src', d0, err) \<Rightarrow>
            let d = take room d0; acc' = acc @ d in
            if err \<noteq> None then (r', src', Inl (Cause (the err) ''decompress deflate packet''))
            else if d = [] then (r', src', Inl (New ''deflate decompressor made no progress''))
            else if expected \<noteq> 0 then inflateLoop lib maximum r' src' expected acc'
            else (case anyConnectIPPacketSize acc' of
                    Inl e \<Rightarrow> (r', src', Inl e)
                  | Inr n \<Rightarrow>
                      if n > maximum then (r', src', Inl (New ''decompressed deflate packet exceeds receive limit: ''))
                      else if length acc' > n then (r', src', Inl (New ''decompressed deflate packet exceeds its IP length: ''))
                      else inflateLoop lib maximum r' src' n acc'))"
  by pat_completeness auto
termination
  by (relation "measure (\<lambda>(lib, maximum, r, src, expected, acc). maximum + 1 - length acc)")
    (auto split: if_splits simp flip: length_greater_0_conv)

declare inflateLoop.simps [simp del]

definition decompressDeflate :: "('w, 'r) flate_library \<Rightarrow> nat \<Rightarrow> bytes \<Rightarrow> ('w, 'r) anyConnectDeflateState \<Rightarrow>
    ('w, 'r) anyConnectDeflateState \<times> bytes result" where
  "decompressDeflate lib maximum payload s =
     (if length payload < 4 then (s, Inl (New ''deflate packet is missing its Adler-32 checksum''))
      else case inflateLoop lib maximum (incomingReader s) (appendSource (take (length payload - 4) payload) (incomingSource s)) 0 [] of
        (r, src, Inl e) \<Rightarrow> (s\<lparr>incomingReader := r, incomingSource := src\<rparr>, Inl e)
      | (r, src, Inr d) \<Rightarrow>
          let checksum = updateAdler32 (incomingChecksum s) d;
              s = s\<lparr>incomingReader := r, incomingSource := src, incomingChecksum := checksum\<rparr>
          in if checksum \<noteq> get_u32 (drop (length payload - 4) payload)
             then (s, Inl (New ''deflate Adler-32 mismatch: expected '')) else (s, Inr d))"

section \<open>The checksum\<close>

text \<open>Adler-32 as it is defined: the sum of the bytes, and the sum of its values after each byte.\<close>

definition byteSum :: "bytes \<Rightarrow> nat" where
  "byteSum bs = sum_list (map unat bs)"

fun weightedSum :: "bytes \<Rightarrow> nat" where
  "weightedSum [] = 0"
| "weightedSum (b # bs) = (length bs + 1) * unat b + weightedSum bs"

definition adler32 :: "bytes \<Rightarrow> nat" where
  "adler32 bs = (length bs + weightedSum bs) mod 65521 * 65536 + (1 + byteSum bs) mod 65521"

lemma byteSum_simps [simp]:
  "byteSum [] = 0" "byteSum (b # bs) = unat b + byteSum bs" "byteSum (xs @ ys) = byteSum xs + byteSum ys"
  by (simp_all add: byteSum_def)

lemma weightedSum_append: "weightedSum (xs @ ys) = weightedSum xs + length ys * byteSum xs + weightedSum ys"
  by (induction xs) (simp_all add: algebra_simps)

lemma byteSum_bound: "byteSum bs \<le> 255 * length bs"
proof (induction bs)
  case (Cons b bs)
  have "unat b \<le> 255" using unat_byte_less [of b] by linarith
  then show ?case using Cons by simp
qed simp

lemma weightedSum_bound: "2 * weightedSum bs \<le> 255 * (length bs * (length bs + 1))"
proof (induction bs)
  case (Cons b bs)
  have "unat b \<le> 255" using unat_byte_less [of b] by linarith
  then have "(length bs + 1) * unat b \<le> (length bs + 1) * 255" by (intro mult_left_mono) simp_all
  then show ?case using Cons by (simp add: algebra_simps)
qed simp

text \<open>A block of 5552 bytes does not overflow 32 bits, however large its bytes are.\<close>

lemma block_bound:
  assumes "length bs \<le> 5552" "l < 65521" "h < 65521"
  shows "h + length bs * l + weightedSum bs < 4294967296" "l + byteSum bs < 4294967296"
proof -
  have "length bs * (length bs + 1) \<le> 5552 * 5553" using assms(1) by (intro mult_mono) simp_all
  then have "2 * weightedSum bs \<le> 255 * (5552 * 5553)" using weightedSum_bound [of bs] by linarith
  moreover have "length bs * l \<le> 5552 * 65520" using assms(1,2) by (intro mult_mono) simp_all
  ultimately show "h + length bs * l + weightedSum bs < 4294967296" using assms(3) by simp
  show "l + byteSum bs < 4294967296" using byteSum_bound [of bs] assms(1,2) by linarith
qed

lemma adlerBlock_sums:
  "unat low + byteSum bs < 4294967296 \<Longrightarrow> unat high + length bs * unat low + weightedSum bs < 4294967296 \<Longrightarrow>
   adlerBlock bs (low, high) = (low', high') \<Longrightarrow>
   unat low' = unat low + byteSum bs \<and> unat high' = unat high + length bs * unat low + weightedSum bs"
proof (induction bs arbitrary: low high)
  case Nil
  then show ?case by (simp add: adlerBlock_def)
next
  case (Cons b bs)
  have b: "unat (ucast b :: u32) = unat b" by (rule unat_ucast_byte)
  have low: "unat (low + ucast b) = unat low + unat b"
    using Cons.prems(1) unat_add_lem [of low "ucast b"] by (simp add: b)
  have sums: "unat high + length (b # bs) * unat low + weightedSum (b # bs) = unat high + unat (low + ucast b) + length bs * unat (low + ucast b) + weightedSum bs"
    unfolding low by (simp add: algebra_simps)
  have high: "unat (high + (low + ucast b)) = unat high + unat (low + ucast b)"
    using Cons.prems(2) unat_add_lem [of high "low + ucast b"] unfolding sums by simp
  have "adlerBlock bs (low + ucast b, high + (low + ucast b)) = (low', high')"
    using Cons.prems(3) by (simp add: adlerBlock_def)
  from Cons.IH [OF _ _ this] show ?case
    using Cons.prems(1,2) unfolding sums high by (simp add: low)
qed

lemma adlerBlocks_sums:
  "unat low < 65521 \<Longrightarrow> unat high < 65521 \<Longrightarrow> adlerBlocks low high bs = (low', high') \<Longrightarrow>
   unat low' = (unat low + byteSum bs) mod 65521 \<and> unat high' = (unat high + length bs * unat low + weightedSum bs) mod 65521"
proof (induction low high bs rule: adlerBlocks.induct)
  case (1 low high bs)
  show ?case
  proof (cases "bs = []")
    case True
    then show ?thesis using "1.prems" by (simp add: adlerBlocks.simps)
  next
    case False
    obtain l h where lh: "adlerBlock (take 5552 bs) (low, high) = (l, h)" by force
    have len: "length (take 5552 bs) \<le> 5552" by simp
    note b = block_bound [OF len "1.prems"(1,2)]
    have s: "unat l = unat low + byteSum (take 5552 bs)"
      "unat h = unat high + length (take 5552 bs) * unat low + weightedSum (take 5552 bs)"
      using adlerBlock_sums [OF b(2) b(1) lh] by blast+
    have m: "unat (l mod 65521) = unat l mod 65521" "unat (h mod 65521) = unat h mod 65521" by (simp_all add: unat_mod)
    have next': "adlerBlocks (l mod 65521) (h mod 65521) (drop 5552 bs) = (low', high')"
      using "1.prems"(3) False lh by (simp add: adlerBlocks.simps [of low high bs])
    have ih: "unat low' = (unat l mod 65521 + byteSum (drop 5552 bs)) mod 65521"
      "unat high' = (unat h mod 65521 + length (drop 5552 bs) * (unat l mod 65521) + weightedSum (drop 5552 bs)) mod 65521"
      using "1.IH" [OF False lh [symmetric] _ _ next'] by (simp_all add: m)
    have split: "byteSum bs = byteSum (take 5552 bs) + byteSum (drop 5552 bs)"
      "weightedSum bs = weightedSum (take 5552 bs) + length (drop 5552 bs) * byteSum (take 5552 bs) + weightedSum (drop 5552 bs)"
      "length bs = length (take 5552 bs) + length (drop 5552 bs)"
      by (metis append_take_drop_id byteSum_simps(3), metis append_take_drop_id weightedSum_append, simp)
    have "unat low' = (unat low + byteSum bs) mod 65521"
      unfolding ih(1) mod_add_left_eq s(1) split(1) by (simp only: add.assoc)
    moreover have "unat high' = (unat high + length bs * unat low + weightedSum bs) mod 65521"
    proof -
      have "unat high' = (unat h + length (drop 5552 bs) * unat l + weightedSum (drop 5552 bs)) mod 65521"
        unfolding ih(2) by (intro mod_add_cong mod_mult_cong mod_mod_trivial refl)
      also have "unat h + length (drop 5552 bs) * unat l + weightedSum (drop 5552 bs) = unat high + length bs * unat low + weightedSum bs"
        unfolding s split by (simp only: distrib_left distrib_right ac_simps)
      finally show ?thesis .
    qed
    ultimately show ?thesis ..
  qed
qed

lemma checksum_halves:
  assumes "unat (low :: u32) < 65536" "unat (high :: u32) < 65536"
  shows "(push_bit 16 high OR low) AND 0xffff = low" "drop_bit 16 (push_bit 16 high OR low) = high"
    "unat (push_bit 16 high OR low) = unat high * 65536 + unat low"
proof -
  have small: "\<not> bit w n" if "unat w < 65536" "16 \<le> n" for w :: u32 and n
  proof
    assume "bit w n"
    then have "bit (unat w) n" by (simp add: bit_unsigned_iff)
    moreover have "take_bit 16 (unat w) = unat w" using that(1) by (simp add: take_bit_eq_mod)
    ultimately have "bit (take_bit 16 (unat w)) n" by simp
    then show False using that(2) by (simp add: bit_take_bit_iff)
  qed
  have disj: "push_bit 16 high AND low = 0"
    by (rule bit_word_eqI) (auto simp: bit_simps small [OF assms(1)])
  have mask: "(0xffff :: u32) = mask 16" by (simp add: mask_eq_exp_minus_1)
  show "(push_bit 16 high OR low) AND 0xffff = low" unfolding mask
    by (rule bit_word_eqI) (auto simp: bit_simps small [OF assms(1)], metis small [OF assms(1)] not_le)
  show "drop_bit 16 (push_bit 16 high OR low) = high"
    by (rule bit_word_eqI) (auto simp: bit_simps small [OF assms(1)], metis small [OF assms(2)] not_le)
  have "unat (push_bit 16 high) = unat high * 65536"
    using assms(2) by (simp add: push_bit_eq_mult unat_mult_lem [THEN iffD1])
  moreover have "push_bit 16 high OR low = push_bit 16 high + low" using disj by (simp add: disjunctive_add_eq_or)
  ultimately show "unat (push_bit 16 high OR low) = unat high * 65536 + unat low"
    using assms by (simp add: unat_add_lem [THEN iffD1])
qed

definition adlerState :: "u32 \<Rightarrow> bytes \<Rightarrow> bool" where
  "adlerState checksum bs \<longleftrightarrow> unat checksum = adler32 bs"

lemma adler_start: "adlerState 1 []"
  by (simp add: adlerState_def adler32_def)

lemma adler_update:
  assumes "adlerState checksum bs"
  shows "adlerState (updateAdler32 checksum payload) (bs @ payload)"
proof -
  let ?l = "(1 + byteSum bs) mod 65521" and ?h = "(length bs + weightedSum bs) mod 65521"
  define low high where "low = u32_of ?l" and "high = u32_of ?h"
  have small: "?l < 65521" "?h < 65521" by simp_all
  have lh: "unat low = ?l" "unat high = ?h" by (simp_all add: low_def high_def unat_u32_of less_trans [OF small(1)] less_trans [OF small(2)])
  have lt: "unat low < 65521" "unat high < 65521" unfolding lh by simp_all
  then have halves: "unat low < 65536" "unat high < 65536" by linarith+
  have "unat checksum = unat (push_bit 16 high OR low)"
    using assms unfolding adlerState_def adler32_def checksum_halves(3) [OF halves] lh .
  then have checksum: "checksum = push_bit 16 high OR low" by (simp add: word_unat_eq_iff)
  obtain low' high' where b: "adlerBlocks low high payload = (low', high')" by force
  note sums = adlerBlocks_sums [OF lt b]
  have halves': "unat low' < 65536" "unat high' < 65536" using sums by (simp_all add: less_trans [of _ 65521])
  have low': "unat low' = (1 + byteSum (bs @ payload)) mod 65521"
    unfolding conjunct1 [OF sums] lh by (simp add: mod_add_left_eq add.assoc)
  have high': "unat high' = (length (bs @ payload) + weightedSum (bs @ payload)) mod 65521"
  proof -
    have "unat high' = (length bs + weightedSum bs + length payload * (1 + byteSum bs) + weightedSum payload) mod 65521"
      unfolding conjunct2 [OF sums] lh by (intro mod_add_cong mod_mult_cong mod_mod_trivial refl)
    then show ?thesis by (simp add: weightedSum_append algebra_simps)
  qed
  have "updateAdler32 checksum payload = push_bit 16 high' OR low'"
    unfolding checksum updateAdler32_def checksum_halves(1,2) [OF halves] b by simp
  then show ?thesis unfolding adlerState_def adler32_def checksum_halves(3) [OF halves', folded] low'[symmetric] high'[symmetric]
    by (simp add: checksum_halves(3) [OF halves'])
qed

section \<open>Packets in the deflate stream\<close>

lemma size_prefix:
  assumes "anyConnectIPPacketSize p = Inr n" "prefix a p"
  shows "anyConnectIPPacketSize a = Inr 0 \<or> anyConnectIPPacketSize a = Inr n"
proof -
  obtain b where p: "p = a @ b" using assms(2) by (auto simp: prefix_def)
  show ?thesis
  proof (cases "a = []")
    case True
    then show ?thesis by (simp add: anyConnectIPPacketSize_def)
  next
    case False
    have "subslice (a @ b) i j = subslice a i j" if "j \<le> length a" for i j
      using that by (simp add: subslice_def)
    moreover have "(a @ b) ! 0 = a ! 0" using False by (simp add: nth_append)
    ultimately show ?thesis using assms(1) False unfolding p
      by (auto simp: anyConnectIPPacketSize_def Let_def not_less split: if_split_asm)
  qed
qed

text \<open>
  What is known of the library: after a flush the decompressor can read all that was written. \<open>inStep w r src q\<close> says that
  the reader, with this source, has the bytes \<open>q\<close> before it and is then level with the writer.
\<close>

definition flate_ok :: "('w, 'r) flate_library \<Rightarrow> ('w \<Rightarrow> 'r \<Rightarrow> anyConnectDeflateSource \<Rightarrow> bytes \<Rightarrow> bool) \<Rightarrow> bool" where
  "flate_ok lib inStep \<longleftrightarrow>
     (\<forall>w r src p. inStep w r src [] \<and> p \<noteq> [] \<longrightarrow>
        (\<exists>w1 out w2 out'. flateWrite lib w p = (w1, out, Inr (length p)) \<and> flateFlush lib w1 = (w2, out', None) \<and>
           inStep w2 r (appendSource (out @ out') src) p)) \<and>
     (\<forall>w r src q n. inStep w r src q \<and> q \<noteq> [] \<and> 0 < n \<longrightarrow>
        (\<exists>r' src' d. inflateRead lib r src n = (r', src', d, None) \<and> d \<noteq> [] \<and> length d \<le> n \<and> prefix d q \<and>
           inStep w r' src' (drop (length d) q)))"

lemma flate_written:
  "flate_ok lib inStep \<Longrightarrow> inStep w r src [] \<Longrightarrow> p \<noteq> [] \<Longrightarrow>
   \<exists>w1 out w2 out'. flateWrite lib w p = (w1, out, Inr (length p)) \<and> flateFlush lib w1 = (w2, out', None) \<and>
     inStep w2 r (appendSource (out @ out') src) p"
  by (simp add: flate_ok_def)

text \<open>The decompressor tells enough at once when a read returns all that fits, or as many bytes as any length needs.\<close>

definition reads_enough :: "('w, 'r) flate_library \<Rightarrow> ('w \<Rightarrow> 'r \<Rightarrow> anyConnectDeflateSource \<Rightarrow> bytes \<Rightarrow> bool) \<Rightarrow> bool" where
  "reads_enough lib inStep \<longleftrightarrow>
     (\<forall>w r src q n r' src' d. inStep w r src q \<and> q \<noteq> [] \<and> 0 < n \<and> inflateRead lib r src n = (r', src', d, None) \<longrightarrow>
        6 \<le> length d \<or> length d = min n (length q))"

lemma inflate_read:
  assumes "flate_ok lib inStep" "inStep w r src q" "q \<noteq> []" "0 < n"
  obtains r' src' d q' where "inflateRead lib r src n = (r', src', d, None)" "d \<noteq> []" "length d \<le> n" "q = d @ q'" "inStep w r' src' q'"
proof -
  obtain r' src' d where d: "inflateRead lib r src n = (r', src', d, None)" "d \<noteq> []" "length d \<le> n" "prefix d q"
      "inStep w r' src' (drop (length d) q)"
    using assms unfolding flate_ok_def by metis
  then obtain q' where "q = d @ q'" by (auto simp: prefix_def)
  then show thesis using d that by simp
qed

lemma inflate_step:
  assumes "\<not> (expected \<noteq> 0 \<and> expected \<le> length acc)"
    "inflateRead lib r src (if expected > 0 then min (maximum + 1 - length acc) (expected - length acc) else maximum + 1 - length acc) = (r', src', d, None)"
    "d \<noteq> []" "length d \<le> (if expected > 0 then min (maximum + 1 - length acc) (expected - length acc) else maximum + 1 - length acc)"
  shows "inflateLoop lib maximum r src expected acc =
        (if expected \<noteq> 0 then inflateLoop lib maximum r' src' expected (acc @ d)
         else case anyConnectIPPacketSize (acc @ d) of
           Inl e \<Rightarrow> (r', src', Inl e)
         | Inr n \<Rightarrow> if n > maximum then (r', src', Inl (New ''decompressed deflate packet exceeds receive limit: ''))
             else if length (acc @ d) > n then (r', src', Inl (New ''decompressed deflate packet exceeds its IP length: ''))
             else inflateLoop lib maximum r' src' n (acc @ d))"
  unfolding inflateLoop.simps [of lib maximum r src expected acc] Let_def if_not_P [OF assms(1)] assms(2) prod.case take_all [OF assms(4)]
  using assms(3) by simp

text \<open>Once the length is known the pieces do not matter.\<close>

lemma inflate_rest:
  assumes "flate_ok lib inStep" "p \<noteq> []" "length p \<le> maximum"
  shows "inStep w r src q \<Longrightarrow> acc @ q = p \<Longrightarrow>
    \<exists>r' src'. inflateLoop lib maximum r src (length p) acc = (r', src', Inr p) \<and> inStep w r' src' []"
proof (induction q arbitrary: r src acc rule: length_induct)
  case (1 q)
  show ?case
  proof (cases "q = []")
    case True
    then show ?thesis using "1.prems" assms(2) by (simp add: inflateLoop.simps)
  next
    case False
    let ?room = "if length p > 0 then min (maximum + 1 - length acc) (length p - length acc) else maximum + 1 - length acc"
    have len: "length acc + length q = length p" using "1.prems"(2) by auto
    have room: "0 < ?room" using len False assms(3) by (cases q) auto
    obtain r' src' d q' where d: "inflateRead lib r src ?room = (r', src', d, None)" "d \<noteq> []" "length d \<le> ?room" "q = d @ q'"
        "inStep w r' src' q'"
      by (rule inflate_read [OF assms(1) "1.prems"(1) False room])
    have more: "\<not> (length p \<noteq> 0 \<and> length p \<le> length acc)" using len False by (cases q) auto
    have "length q' < length q" "(acc @ d) @ q' = p" using d(2,4) "1.prems"(2) by simp_all
    then show ?thesis using "1.IH" d(5) assms(2) inflate_step [OF more d(1-3)] by simp
  qed
qed

lemma size_known: "6 \<le> length d \<Longrightarrow> anyConnectIPPacketSize d \<noteq> Inr 0"
  by (auto simp: anyConnectIPPacketSize_def Let_def)

lemma inflate_packet:
  assumes "flate_ok lib inStep" "reads_enough lib inStep" "anyConnectIPPacketSize p = Inr (length p)" "p \<noteq> []" "length p \<le> maximum"
    "inStep w r src p"
  shows "\<exists>r' src'. inflateLoop lib maximum r src 0 [] = (r', src', Inr p) \<and> inStep w r' src' []"
proof -
  obtain r' src' d q where d: "inflateRead lib r src (maximum + 1) = (r', src', d, None)" "d \<noteq> []" "length d \<le> maximum + 1" "p = d @ q"
      "inStep w r' src' q"
    by (rule inflate_read [OF assms(1,6,4), of "maximum + 1"]) simp
  have "6 \<le> length d \<or> length d = length p"
    using assms(2,4-6) d(1) unfolding reads_enough_def by (metis add_gr_0 less_numeral_extra(1) min.absorb2 trans_le_add1)
  moreover have "anyConnectIPPacketSize d = Inr 0 \<or> anyConnectIPPacketSize d = Inr (length p)"
    using size_prefix [OF assms(3), of d] d(4) by (simp add: prefix_def)
  moreover have "d = p" if "length d = length p" using that d(4) by simp
  ultimately have size: "anyConnectIPPacketSize d = Inr (length p)" using size_known [of d] assms(3) by auto
  have "inflateLoop lib maximum r src 0 [] = inflateLoop lib maximum r' src' (length p) d"
    using inflate_step [of 0 "[]" lib r src maximum r' src' d] d(1-3) size assms(5) by (simp add: d(4))
  then show ?thesis using inflate_rest [OF assms(1,4,5) d(5)] d(4) by simp
qed

fun compressStream :: "('w, 'r) flate_library \<Rightarrow> bytes list \<Rightarrow> ('w, 'r) anyConnectDeflateState \<Rightarrow> bytes list result" where
  "compressStream lib [] s = Inr []"
| "compressStream lib (p # ps) s =
     (case compressDeflate lib p s of
        (s', Inl e) \<Rightarrow> Inl e
      | (s', Inr d) \<Rightarrow> map_sum id ((#) d) (compressStream lib ps s'))"

fun decompressStream :: "('w, 'r) flate_library \<Rightarrow> nat \<Rightarrow> bytes list \<Rightarrow> ('w, 'r) anyConnectDeflateState \<Rightarrow> bytes list result" where
  "decompressStream lib maximum [] s = Inr []"
| "decompressStream lib maximum (d # ds) s =
     (case decompressDeflate lib maximum d s of
        (s', Inl e) \<Rightarrow> Inl e
      | (s', Inr p) \<Rightarrow> map_sum id ((#) p) (decompressStream lib maximum ds s'))"

lemma deflate_packet:
  assumes "flate_ok lib inStep" "reads_enough lib inStep" "inStep (outgoingWriter a) (incomingReader b) (incomingSource b) []" "incomingChecksum b = outgoingChecksum a"
    "anyConnectIPPacketSize p = Inr (length p)" "p \<noteq> []" "length p \<le> maximum" "compressDeflate lib p a = (a', Inr d)"
  shows "\<exists>b'. decompressDeflate lib maximum d b = (b', Inr p) \<and> incomingChecksum b' = outgoingChecksum a' \<and>
    inStep (outgoingWriter a') (incomingReader b') (incomingSource b') []"
proof -
  obtain w1 out w2 out' where w: "flateWrite lib (outgoingWriter a) p = (w1, out, Inr (length p))" "flateFlush lib w1 = (w2, out', None)"
    "inStep w2 (incomingReader b) (appendSource (out @ out') (incomingSource b)) p"
    using flate_written [OF assms(1,3,6)] by (elim exE conjE)
  have a': "outgoingWriter a' = w2" "outgoingChecksum a' = updateAdler32 (outgoingChecksum a) p" and d: "d = (out @ out') @ put_u32 (updateAdler32 (outgoingChecksum a) p)"
    using assms(8) w(1,2) by (auto simp: compressDeflate_def Let_def split: if_split_asm)
  have "take (length d - 4) d = out @ out'" "drop (length d - 4) d = put_u32 (updateAdler32 (outgoingChecksum a) p)" "4 \<le> length d"
    by (simp_all add: d)
  moreover have "\<exists>r src. inflateLoop lib maximum (incomingReader b) (appendSource (out @ out') (incomingSource b)) 0 [] = (r, src, Inr p) \<and>
      inStep w2 r src []"
    by (rule inflate_packet [OF assms(1,2,5,6,7) w(3)])
  then obtain r src where "inflateLoop lib maximum (incomingReader b) (appendSource (out @ out') (incomingSource b)) 0 [] = (r, src, Inr p)"
    "inStep w2 r src []" by blast
  ultimately show ?thesis by (simp add: decompressDeflate_def assms(4) a' Let_def)
qed

section \<open>An instance\<close>

text \<open>A library that stores: the decompressor reads at most \<open>k\<close> bytes at a time.\<close>

definition storing :: "nat \<Rightarrow> (unit, unit) flate_library" where
  "storing k = \<lparr>flateWrite = (\<lambda>w p. (w, p, Inr (length p))), flateFlush = (\<lambda>w. (w, [], None)),
     inflateRead = (\<lambda>r src n. case readSource (min n k) src of (src', Inl e) \<Rightarrow> (r, src', [], Some e) | (src', Inr d) \<Rightarrow> (r, src', d, None))\<rparr>"

definition storedStep :: "unit \<Rightarrow> unit \<Rightarrow> anyConnectDeflateSource \<Rightarrow> bytes \<Rightarrow> bool" where
  "storedStep w r src q \<longleftrightarrow> sourcePosition src \<le> length (sourceContent src) \<and> drop (sourcePosition src) (sourceContent src) = q"

lemma storing_ok:
  assumes "0 < k"
  shows "flate_ok (storing k) storedStep"
  unfolding flate_ok_def
proof (intro conjI allI impI)
  fix w r src and p :: bytes assume "storedStep w r src [] \<and> p \<noteq> []"
  then have "storedStep w r (appendSource p src) p" by (auto simp: storedStep_def appendSource_def)
  then show "\<exists>w1 out w2 out'. flateWrite (storing k) w p = (w1, out, Inr (length p)) \<and> flateFlush (storing k) w1 = (w2, out', None) \<and>
      storedStep w2 r (appendSource (out @ out') src) p"
    by (simp add: storing_def)
next
  fix w r src q and n :: nat assume a: "storedStep w r src q \<and> q \<noteq> [] \<and> 0 < n"
  let ?d = "take (min n k) q"
  have p: "sourcePosition src < length (sourceContent src)" and q: "drop (sourcePosition src) (sourceContent src) = q"
    using a by (auto simp: storedStep_def)
  have "length ?d \<le> length (sourceContent src) - sourcePosition src" using q by auto
  moreover have "drop (sourcePosition src + length ?d) (sourceContent src) = drop (length ?d) q"
    unfolding q [symmetric] by (simp add: add.commute)
  ultimately have "inflateRead (storing k) r src n = (r, src\<lparr>sourcePosition := sourcePosition src + length ?d\<rparr>, ?d, None)"
    "storedStep w r (src\<lparr>sourcePosition := sourcePosition src + length ?d\<rparr>) (drop (length ?d) q)"
    using p q by (simp_all add: storing_def readSource_def storedStep_def Let_def)
  moreover have "?d \<noteq> []" "length ?d \<le> n" "prefix ?d q" using a assms by (auto simp: take_is_prefix)
  ultimately show "\<exists>r' src' d. inflateRead (storing k) r src n = (r', src', d, None) \<and> d \<noteq> [] \<and> length d \<le> n \<and> prefix d q \<and>
      storedStep w r' src' (drop (length d) q)" by blast
qed

lemma storing_enough: "6 \<le> k \<Longrightarrow> reads_enough (storing k) storedStep"
  by (auto simp: reads_enough_def storing_def storedStep_def readSource_def Let_def split: if_split_asm)

definition ipv4Packet :: "byte \<Rightarrow> bytes" where
  "ipv4Packet x = [0x45, 0, 0, 21] @ replicate 16 0 @ [x]"

lemma ipv4Packet_facts:
  "length (ipv4Packet x) = 21" "ipv4Packet x \<noteq> []" "anyConnectIPPacketSize (ipv4Packet x) = Inr 21"
  by (simp_all add: anyConnectIPPacketSize_def ipv4Packet_def subslice_def get_u16_def)

lemma fresh_state:
  obtains s where "newAnyConnectDeflateState (Inr ()) () = Inr s" "outgoingChecksum s = incomingChecksum s"
    "storedStep (outgoingWriter s) (incomingReader s) (incomingSource s) []"
  by (simp add: newAnyConnectDeflateState_def storedStep_def)

section \<open>Properties\<close>

text \<open>C39: the checksum of the packets that went into a stream, updated packet by packet in blocks with 32 bits, is the Adler-32 of all of
  them put together.\<close>

theorem adler32_exact: "unat (fold (\<lambda>p checksum. updateAdler32 checksum p) ps 1) = adler32 (concat ps)"
proof -
  have "adlerState (fold (\<lambda>p checksum. updateAdler32 checksum p) ps c) (bs @ concat ps)" if "adlerState c bs" for c bs
    using that
  proof (induction ps arbitrary: c bs)
    case (Cons p ps)
    then show ?case using Cons.IH [OF adler_update [OF Cons.prems], of p] by simp
  qed simp
  from this [OF adler_start] show ?thesis by (simp add: adlerState_def)
qed

text \<open>C38: IP packets that are compressed one after the other and decompressed in that order come out again, one packet for each, and
  both checksums stay level, whatever pieces the decompressor returns, if its first read of a packet tells the length of the packet.\<close>

theorem deflate_stream_roundtrip:
  assumes "flate_ok lib inStep" "reads_enough lib inStep" "inStep (outgoingWriter a) (incomingReader b) (incomingSource b) []" "incomingChecksum b = outgoingChecksum a"
    "\<forall>p \<in> set ps. p \<noteq> [] \<and> length p \<le> maximum \<and> anyConnectIPPacketSize p = Inr (length p)" "compressStream lib ps a = Inr ds"
  shows "decompressStream lib maximum ds b = Inr ps"
  using assms
proof (induction ps arbitrary: a b ds)
  case (Cons p ps)
  obtain a' d rest where c: "compressDeflate lib p a = (a', Inr d)" "compressStream lib ps a' = Inr rest" "ds = d # rest"
    using Cons.prems(6) by (auto split: sum.split_asm prod.split_asm simp: map_sum_def)
  obtain b' where b: "decompressDeflate lib maximum d b = (b', Inr p)" "incomingChecksum b' = outgoingChecksum a'"
    "inStep (outgoingWriter a') (incomingReader b') (incomingSource b') []"
    using deflate_packet [OF Cons.prems(1-4) _ _ _ c(1), of maximum] Cons.prems(5) by auto
  then show ?case using Cons.IH [OF Cons.prems(1,2) b(3,2) _ c(2)] Cons.prems(5) c(3) by simp
qed simp

theorem deflate_stream_roundtrip_witness:
  "\<exists>s ds. newAnyConnectDeflateState (Inr ()) () = Inr s \<and> compressStream (storing 8) [ipv4Packet 7, ipv4Packet 9] s = Inr ds \<and>
     decompressStream (storing 8) 1500 ds s = Inr [ipv4Packet 7, ipv4Packet 9]"
proof -
  obtain s where s: "newAnyConnectDeflateState (Inr ()) () = Inr s" "outgoingChecksum s = incomingChecksum s"
    "storedStep (outgoingWriter s) (incomingReader s) (incomingSource s) []"
    by (rule fresh_state)
  obtain ds where ds: "compressStream (storing 8) [ipv4Packet 7, ipv4Packet 9] s = Inr ds"
    by (simp add: compressDeflate_def storing_def Let_def cstpMaximumPayloadSize_def ipv4Packet_facts)
  have "\<forall>p \<in> set [ipv4Packet 7, ipv4Packet 9]. p \<noteq> [] \<and> length p \<le> 1500 \<and> anyConnectIPPacketSize p = Inr (length p)"
    by (simp add: ipv4Packet_facts)
  from deflate_stream_roundtrip [OF storing_ok storing_enough s(3) s(2)[symmetric] this ds] s(1) ds show ?thesis by auto
qed

text \<open>C40: an intact packet is refused as longer than itself when the decompressor, in step with the writer, first returns one to three of
  its bytes, as it may at the end of its window; the length is then not known, and the loop compares with zero.\<close>

theorem deflate_short_read:
  assumes "anyConnectIPPacketSize p = Inr (length p)" "compressDeflate lib p a = (a', Inr d)"
    "inflateRead lib (incomingReader b) (appendSource (take (length d - 4) d) (incomingSource b)) (maximum + 1) = (r, src, piece, None)"
    "prefix piece p" "piece \<noteq> []" "length piece < 4" "length p \<le> maximum"
  shows "snd (decompressDeflate lib maximum d b) = Inl (New ''decompressed deflate packet exceeds its IP length: '')"
proof -
  have "anyConnectIPPacketSize piece = Inr 0 \<or> anyConnectIPPacketSize piece = Inr (length p)"
    using size_prefix [OF assms(1)] assms(4) by blast
  moreover have "anyConnectIPPacketSize piece \<noteq> Inr n" if "n \<noteq> 0" for n
    using assms(6) that by (auto simp: anyConnectIPPacketSize_def)
  moreover have "p \<noteq> []" using assms(4,5) by auto
  ultimately have size: "anyConnectIPPacketSize piece = Inr 0" by auto
  have "length piece \<le> length p" using assms(4) by (rule prefix_length_le)
  then have fits: "length piece \<le> maximum + 1" using assms(7) by simp
  have "4 \<le> length d" using assms(2) by (auto simp: compressDeflate_def Let_def split: prod.split_asm sum.split_asm option.split_asm if_split_asm)
  then show ?thesis
    using inflate_step [of 0 "[]" lib "incomingReader b" "appendSource (take (length d - 4) d) (incomingSource b)" maximum r src piece]
      assms(3,5) size fits by (simp add: decompressDeflate_def)
qed

theorem deflate_short_read_witness:
  "\<exists>s d. newAnyConnectDeflateState (Inr ()) () = Inr s \<and> flate_ok (storing 3) storedStep \<and>
     snd (compressDeflate (storing 3) (ipv4Packet 7) s) = Inr d \<and>
     snd (decompressDeflate (storing 3) 1500 d s) = Inl (New ''decompressed deflate packet exceeds its IP length: '')"
proof -
  obtain s where s: "newAnyConnectDeflateState (Inr ()) () = Inr s" by (rule fresh_state)
  then have src: "incomingSource s = \<lparr>sourceContent = [], sourcePosition = 0\<rparr>" by (auto simp: newAnyConnectDeflateState_def)
  obtain a' d where d: "compressDeflate (storing 3) (ipv4Packet 7) s = (a', Inr d)" "take (length d - 4) d = ipv4Packet 7"
    by (simp add: compressDeflate_def storing_def Let_def cstpMaximumPayloadSize_def ipv4Packet_facts)
  have piece: "take 3 (ipv4Packet 7) = [0x45, 0, 0]" "prefix [0x45, 0, 0] (ipv4Packet 7)" by (simp_all add: ipv4Packet_def)
  have "snd (decompressDeflate (storing 3) 1500 d s) = Inl (New ''decompressed deflate packet exceeds its IP length: '')"
    by (rule deflate_short_read [OF _ d(1), where piece = "[0x45, 0, 0]"])
      (simp_all add: d(2) src storing_def appendSource_def readSource_def Let_def ipv4Packet_facts piece)
  then show ?thesis using s d(1) storing_ok [of 3] by auto
qed

end
