(* ===== verification/Channel.thy ===== *)
theory Channel
  imports Go_Errors
begin

text \<open>
  What the datagram channels of a session (\<^verbatim>\<open>esp_channel.go\<close>, \<^verbatim>\<open>dtls_session.go\<close>) have in common: their start and
  termination, whose first call wins (\<open>doneOnce\<close>), and the detection of a dead peer.
\<close>

section \<open>Starting and terminating\<close>

text \<open>
  How far \<open>terminate\<close> has come, with its variables. After the locked section: its error, whether a connection has to be closed, and
  whether the channel was ready. After the connection was closed: the error to report, the original one, and whether the channel was
  ready. At last, after the keys were dealt with, only the report is left.
\<close>

datatype channelTermination =
    Closing "go_error option" bool bool
  | ConnClosed "go_error option" "go_error option" bool
  | Reporting "go_error option"

text \<open>
  The fields that the code guards by \<open>access\<close>. \<open>dialing\<close> is set while \<open>Start\<close> connects, outside the lock. \<open>terminating\<close>
  tells how far \<open>terminate\<close> has come, which leaves the lock after its first section. \<open>chanDone\<close> is what the channel \<open>done\<close>
  gives once it is closed.
\<close>

record channel =
  chanStarted :: bool
  chanClosed :: bool
  chanReady :: bool
  chanConn :: bool
  dialing :: bool
  terminating :: "channelTermination option"
  chanDone :: "go_error option option"
  chanCloseErr :: "go_error option"

definition newChannel :: channel where
  "newChannel = \<lparr>chanStarted = False, chanClosed = False, chanReady = False, chanConn = False, dialing = False,
     terminating = None, chanDone = None, chanCloseErr = None\<rparr>"

definition startBegin :: "go_error \<Rightarrow> go_error \<Rightarrow> 'a channel_scheme \<Rightarrow> 'a channel_scheme \<times> go_error option" where
  "startBegin alreadyStarted alreadyClosed c =
     (if chanStarted c then (c, Some alreadyStarted)
      else if chanClosed c then (c, Some alreadyClosed)
      else (c\<lparr>chanStarted := True, dialing := True\<rparr>, None))"

definition beginTerminate :: "go_error option \<Rightarrow> 'a channel_scheme \<Rightarrow> 'a channel_scheme" where
  "beginTerminate err c =
     (if chanClosed c then c
      else c\<lparr>chanReady := False, chanClosed := True, chanConn := False, terminating := Some (Closing err (chanConn c) (chanReady c))\<rparr>)"

text \<open>\<open>closeErr\<close> is the error of closing the connection, unless it only says that it was closed before.\<close>

definition closeConnection :: "string \<Rightarrow> go_error option \<Rightarrow> 'a channel_scheme \<Rightarrow> 'a channel_scheme" where
  "closeConnection closeText closeErr c =
     (case terminating c of
        Some (Closing err hadConn wasReady) \<Rightarrow>
          (case (if hadConn then closeErr else None) of
             None \<Rightarrow> c\<lparr>terminating := Some (ConnClosed err err wasReady)\<rparr>
           | Some e \<Rightarrow>
               let wrapped = Cause e closeText in
               c\<lparr>chanCloseErr := Some wrapped,
                 terminating := Some (ConnClosed (Some (case err of None \<Rightarrow> wrapped | Some err \<Rightarrow> Joined [err, wrapped])) err wasReady)\<rparr>)
      | _ \<Rightarrow> c)"

definition publishDone :: "'a channel_scheme \<Rightarrow> 'a channel_scheme" where
  "publishDone c =
     (case terminating c of
        Some (Reporting err) \<Rightarrow> c\<lparr>terminating := None, chanDone := Some err\<rparr>
      | _ \<Rightarrow> c)"

lemmas channel_defs = startBegin_def beginTerminate_def closeConnection_def publishDone_def

text \<open>The states in between: closed is what \<open>terminate\<close> was called for, and it ends once.\<close>

definition channel_ok :: "'a channel_scheme \<Rightarrow> bool" where
  "channel_ok c \<longleftrightarrow>
     (chanClosed c \<longrightarrow> terminating c \<noteq> None \<or> chanDone c \<noteq> None) \<and> (terminating c \<noteq> None \<longrightarrow> chanClosed c \<and> chanDone c = None) \<and>
     (chanDone c \<noteq> None \<longrightarrow> chanClosed c) \<and>
     (chanClosed c \<longrightarrow> \<not> chanReady c \<and> \<not> chanConn c) \<and> (chanReady c \<longrightarrow> chanConn c) \<and>
     (chanConn c \<longrightarrow> chanStarted c \<and> \<not> dialing c) \<and> (dialing c \<longrightarrow> chanStarted c)"

lemma newChannel_ok: "channel_ok newChannel"
  by (simp add: channel_ok_def newChannel_def)

lemma startBegin_ok: "channel_ok c \<Longrightarrow> channel_ok (fst (startBegin e e' c))"
  by (auto simp: channel_ok_def startBegin_def)

lemma beginTerminate_ok: "channel_ok c \<Longrightarrow> channel_ok (beginTerminate err c)"
  by (auto simp: channel_ok_def beginTerminate_def)

lemma closeConnection_ok: "channel_ok c \<Longrightarrow> channel_ok (closeConnection m e c)"
  by (auto simp: channel_ok_def closeConnection_def Let_def split: option.split channelTermination.split)

lemma publishDone_ok: "channel_ok c \<Longrightarrow> channel_ok (publishDone c)"
  by (auto simp: channel_ok_def publishDone_def split: option.split channelTermination.split)

text \<open>What \<open>done\<close> gives is decided once.\<close>

lemma done_once:
  assumes "channel_ok c" "chanDone c = Some e"
  shows "chanDone (beginTerminate err c) = Some e" "chanDone (closeConnection m e' c) = Some e" "chanDone (publishDone c) = Some e"
proof -
  have "terminating c = None" "chanClosed c" using assms by (cases "terminating c"; simp add: channel_ok_def)+
  then show "chanDone (beginTerminate err c) = Some e" "chanDone (closeConnection m e' c) = Some e" "chanDone (publishDone c) = Some e"
    using assms(2) by (simp_all add: channel_defs)
qed

section \<open>Detection of a dead peer\<close>

text \<open>
  A tick of the timer gives up when nothing was received for twice the interval, and otherwise sends a probe when it is due: an interval
  after the last datagram, or half of one after the last probe when that is not answered.
\<close>

datatype verdict = Expired | ProbeNow | Quiet

definition probeDue :: "duration \<Rightarrow> instant \<Rightarrow> instant \<Rightarrow> instant" where
  "probeDue dpd received probed = (if probed > received then probed + dpd div 2 else received + dpd)"

text \<open>
  Runs of the timer with a peer that answers: ticks are at most \<open>gap\<close> apart and a probe is answered within \<open>delay\<close>. The clock, when
  something was received, probed and ticked last, and until when the answer to an unanswered probe has to arrive.
\<close>

inductive peer_run :: "(instant \<Rightarrow> instant \<Rightarrow> instant \<Rightarrow> verdict) \<Rightarrow> duration \<Rightarrow> duration \<Rightarrow>
    instant \<Rightarrow> instant \<Rightarrow> instant \<Rightarrow> instant \<Rightarrow> instant option \<Rightarrow> bool"
  for judge gap delay where
  peer_ready: "probed \<le> now \<Longrightarrow> tick \<le> now \<Longrightarrow> peer_run judge gap delay now now probed tick None"
| peer_received: "peer_run judge gap delay clock r probed tick answerBy \<Longrightarrow> clock \<le> now \<Longrightarrow> list_all (\<lambda>a. now \<le> a) (case answerBy of None \<Rightarrow> [] | Some a \<Rightarrow> [a]) \<Longrightarrow>
    peer_run judge gap delay now now probed tick None"
| peer_quiet: "peer_run judge gap delay clock r probed tick answerBy \<Longrightarrow> clock \<le> now \<Longrightarrow> now \<le> tick + gap \<Longrightarrow>
    list_all (\<lambda>a. now \<le> a) (case answerBy of None \<Rightarrow> [] | Some a \<Rightarrow> [a]) \<Longrightarrow> judge r probed now = Quiet \<Longrightarrow>
    peer_run judge gap delay now r probed now answerBy"
| peer_probed: "peer_run judge gap delay clock r probed tick answerBy \<Longrightarrow> clock \<le> now \<Longrightarrow> now \<le> tick + gap \<Longrightarrow>
    list_all (\<lambda>a. now \<le> a) (case answerBy of None \<Rightarrow> [] | Some a \<Rightarrow> [a]) \<Longrightarrow> judge r probed now = ProbeNow \<Longrightarrow>
    peer_run judge gap delay now r now now (Some (case answerBy of None \<Rightarrow> now + delay | Some a \<Rightarrow> a))"

text \<open>The contract of a timer: \<open>judge received probed now\<close> is its verdict. A peer that answers soon enough is never given up.\<close>

locale dead_peer_timer =
  fixes dpd :: duration
    and judge :: "instant \<Rightarrow> instant \<Rightarrow> instant \<Rightarrow> verdict"
  assumes expires: "judge received probed now = Expired \<longleftrightarrow> now > received + 2 * dpd"
    and probes: "judge received probed now = ProbeNow \<longleftrightarrow> now \<le> received + 2 * dpd \<and> probeDue dpd received probed \<le> now"
begin

lemma peer_run_bounds:
  assumes "peer_run judge gap delay clock r probed tick answerBy" and interval: "0 < dpd"
  shows "r \<le> clock \<and> probed \<le> clock \<and> tick \<le> clock \<and>
    (case answerBy of None \<Rightarrow> probed \<le> r \<and> tick < r + dpd | Some a \<Rightarrow> a < r + dpd + gap + delay)"
  using assms(1)
proof induction
  case (peer_ready probed now tick)
  then show ?case using interval by simp
next
  case (peer_received clock r probed tick answerBy now)
  then show ?case using interval by (auto split: option.splits)
next
  case (peer_quiet clock r probed tick answerBy now)
  have "\<not> (now \<le> r + 2 * dpd \<and> probeDue dpd r probed \<le> now)" "\<not> now > r + 2 * dpd"
    using peer_quiet.hyps(5) probes expires by (metis verdict.distinct(4) verdict.simps(6))+
  then show ?case using peer_quiet by (auto simp: probeDue_def split: option.splits)
next
  case (peer_probed clock r probed tick answerBy now)
  then show ?case by (auto split: option.splits)
qed

lemma answering_peer_kept:
  assumes "peer_run judge gap delay clock r probed tick answerBy" "gap + delay \<le> dpd"
    "clock \<le> now" "now \<le> tick + gap" "list_all (\<lambda>a. now \<le> a) (case answerBy of None \<Rightarrow> [] | Some a \<Rightarrow> [a])" "0 \<le> delay" "0 < dpd"
  shows "judge r probed now \<noteq> Expired"
  using peer_run_bounds [OF assms(1,7)] assms(2-) by (auto simp: expires split: option.splits)

end

end
