(* ===== verification/Esp_Channel.thy ===== *)
theory Esp_Channel
  imports Channel Esp_Packet "HOL-Library.Sublist"
begin

text \<open>
  The ESP data channel (\<^verbatim>\<open>esp_channel.go\<close>): probes until the peer answers, packets both ways under a key set, and the
  timer that gives up a dead peer. The sections between locks, reads and writes are operations; the goroutines are their
  interleavings. LZO is a library, and what a datagram write returns is an argument.
\<close>

section \<open>Definitions\<close>

record espChannelConfig =
  configKeys :: "espKeySet option"
  remoteValid :: bool
  remotePort :: nat
  channelMTU :: int
  channelDPD :: duration
  BuildProbe :: "(u16 \<Rightarrow> bytes result) option"
  IsProbeResponse :: "(bytes \<Rightarrow> bool) option"
  hasDeliver :: bool
  ProbeNextHeader :: byte
  AcceptLZO :: bool
  PreserveKeysOnFailure :: bool
  PreserveKeysOnStartupFailure :: bool

text \<open>\<open>openedPacket\<close> is the packet that the reader holds, \<open>sealing\<close> the one that a writer is about to seal, and \<open>probing\<close> tells
  that the writer is the timer.\<close>

record espChannel = channel +
  channelKeys :: espKeySet
  probeSequence :: u16
  establishedOnce :: bool
  establishedClosed :: nat
  espLastReceived :: instant
  espLastDPD :: instant
  openedPacket :: "(byte \<times> bytes) option"
  sealing :: "(bytes \<times> byte) option"
  probing :: bool

definition newESPChannel :: "espChannelConfig \<Rightarrow> espChannel result" where
  "newESPChannel cfg =
     (case configKeys cfg of
        None \<Rightarrow> Inl (New ''ESP channel requires keys'')
      | Some keys \<Rightarrow>
          if \<not> remoteValid cfg \<or> remotePort cfg = 0 then Inl (New ''ESP channel requires a valid UDP remote address'')
          else if channelMTU cfg \<le> 0 \<or> channelMTU cfg > 65535 then Inl (New ''invalid ESP channel MTU: '')
          else if channelDPD cfg < 0 then Inl (New ''invalid ESP DPD interval: '')
          else if channelDPD cfg > 0x7fffffffffffffff div 2 then Inl (New ''ESP DPD interval is too large: '')
          else if BuildProbe cfg = None \<or> IsProbeResponse cfg = None then Inl (New ''ESP channel requires probe callbacks'')
          else Inr (channel.extend newChannel
            \<lparr>channelKeys = keys, probeSequence = 0, establishedOnce = False, establishedClosed = 0, espLastReceived = 0,
             espLastDPD = 0, openedPacket = None, sealing = None, probing = False\<rparr>))"

subsection \<open>Start\<close>

definition espStartBegin :: "espChannel \<Rightarrow> espChannel \<times> go_error option" where
  "espStartBegin c = startBegin (New ''ESP channel already started'') (Sentinel ErrClientClosed) c"

definition espDialFailed :: "go_error \<Rightarrow> espChannel \<Rightarrow> espChannel \<times> go_error option" where
  "espDialFailed err c =
     (let wrapped = Cause err ''connect ESP UDP transport'' in (beginTerminate (Some wrapped) (c\<lparr>dialing := False\<rparr>), Some wrapped))"

definition espConnected :: "go_error option \<Rightarrow> espChannel \<Rightarrow> espChannel \<times> go_error option" where
  "espConnected closeErr c =
     (if chanClosed c
      then (c\<lparr>dialing := False\<rparr>,
        Some (case closeErr of
                None \<Rightarrow> Sentinel ErrClientClosed
              | Some e \<Rightarrow> Joined [Sentinel ErrClientClosed, Cause e ''close ESP UDP transport after concurrent shutdown'']))
      else (c\<lparr>dialing := False, chanConn := True\<rparr>, None))"

subsection \<open>Writing\<close>

text \<open>\<open>SendProbe\<close> and the checks of \<open>WriteDataPacketBuffers\<close> up to \<open>sealBuffer\<close>; the writer then holds the packet.\<close>

definition writeGuard :: "bool \<Rightarrow> bytes \<Rightarrow> byte \<Rightarrow> espChannel \<Rightarrow> espChannel \<times> go_error option" where
  "writeGuard requireEstablished payload nextHeader c =
     (if requireEstablished \<and> \<not> chanReady c then (c, Some (Sentinel ErrDataChannelNotReady))
      else if chanClosed c then (c, Some (Sentinel ErrClientClosed))
      else if \<not> chanConn c then (c, Some (Sentinel ErrDataChannelNotReady))
      else (c\<lparr>sealing := Some (payload, nextHeader)\<rparr>, None))"

definition espWriteData :: "espChannelConfig \<Rightarrow> bytes \<Rightarrow> espChannel \<Rightarrow> espChannel \<times> go_error option" where
  "espWriteData cfg payload c =
     (if int (length payload) > channelMTU cfg then (c, Some (New ''ESP data packet exceeds negotiated MTU: ''))
      else writeGuard True payload 0 c)"

definition SendProbe :: "espChannelConfig \<Rightarrow> espChannel \<Rightarrow> espChannel \<times> go_error option" where
  "SendProbe cfg c =
     (case the (BuildProbe cfg) (probeSequence c) of
        Inl e \<Rightarrow> (c, Some (Cause e ''build ESP probe''))
      | Inr payload \<Rightarrow> writeGuard False payload (ProbeNextHeader cfg) (c\<lparr>probeSequence := probeSequence c + 1\<rparr>))"

text \<open>\<open>E.IsMulti(err, errESPSequenceExhausted, errESPKeysDestroyed)\<close>.\<close>

definition associationTerminal :: "go_error option \<Rightarrow> bool" where
  "associationTerminal err \<longleftrightarrow>
     (case err of None \<Rightarrow> False | Some e \<Rightarrow> list_ex (\<lambda>x. x = errESPSequenceExhausted \<or> x = errESPKeysDestroyed) (unwrapped e))"

text \<open>
  Sealing and the write, whose result is what the connection says of the datagram; the datagram is what was written. \<open>writeSealed\<close>
  also returns to \<open>processDPD\<close> and \<open>timerLoop\<close>, which give the channel up when their probe fails.
\<close>

definition sealAndWrite :: "esp_crypto \<Rightarrow> (bytes \<Rightarrow> nat result) \<Rightarrow> espChannel \<Rightarrow> espChannel \<times> bytes option \<times> go_error option" where
  "sealAndWrite cr connWrite c =
     (case sealing c of
        None \<Rightarrow> (c, None, None)
      | Some (payload, nextHeader) \<Rightarrow>
          (case sealBuffer cr (channelKeys c) payload nextHeader of (keys, sealed) \<Rightarrow>
             let c = c\<lparr>sealing := None, channelKeys := keys\<rparr> in
             case sealed of
               Inl e \<Rightarrow> (if associationTerminal (Some e) then beginTerminate (Some e) c else c, None, Some e)
             | Inr datagram \<Rightarrow>
                 (case connWrite datagram of
                    Inl e \<Rightarrow> let wrapped = Cause e ''write ESP UDP datagram'' in (beginTerminate (Some wrapped) c, None, Some wrapped)
                  | Inr n \<Rightarrow>
                      if n \<noteq> length datagram
                      then let short = New ''short ESP UDP write: wrote '' in (beginTerminate (Some short) c, None, Some short)
                      else (c, Some datagram, None))))"

definition timerFailed :: "go_error \<Rightarrow> espChannel \<Rightarrow> espChannel" where
  "timerFailed err c = beginTerminate (Some (Cause err ''send ESP dead peer detection probe'')) c"

definition writeSealed :: "esp_crypto \<Rightarrow> (bytes \<Rightarrow> nat result) \<Rightarrow> espChannel \<Rightarrow> espChannel \<times> bytes option \<times> go_error option" where
  "writeSealed cr connWrite c =
     (case sealAndWrite cr connWrite c of
        (c', datagram, err) \<Rightarrow>
          ((case err of Some e \<Rightarrow> (if probing c then timerFailed e c' else c') | None \<Rightarrow> c')\<lparr>probing := False\<rparr>, datagram, err))"

subsection \<open>Reading\<close>

text \<open>A round of \<open>readLoop\<close>: the read, and what becomes of the packet that was opened.\<close>

definition espReadFailed :: "bool \<Rightarrow> go_error \<Rightarrow> espChannel \<Rightarrow> espChannel" where
  "espReadFailed canceled err c =
     beginTerminate (if \<not> canceled \<and> err \<noteq> External ''EOF'' then Some (Cause err ''read ESP UDP datagram'') else None) c"

definition openDatagram :: "esp_crypto \<Rightarrow> instant \<Rightarrow> bytes \<Rightarrow> espChannel \<Rightarrow> espChannel" where
  "openDatagram cr now datagram c =
     (if datagram = [] then c
      else case openBuffer cr (channelKeys c) datagram of
        (keys, Inl e) \<Rightarrow> c\<lparr>channelKeys := keys\<rparr>
      | (keys, Inr packet) \<Rightarrow> c\<lparr>channelKeys := keys, espLastReceived := now, openedPacket := Some packet\<rparr>)"

definition establish :: "espChannel \<Rightarrow> espChannel" where
  "establish c =
     (if establishedOnce c then c
      else if chanClosed c then c\<lparr>establishedOnce := True\<rparr>
      else c\<lparr>establishedOnce := True, chanReady := True, establishedClosed := establishedClosed c + 1\<rparr>)"

definition plainPayload :: "(nat \<Rightarrow> bytes \<Rightarrow> bytes result) \<Rightarrow> espChannelConfig \<Rightarrow> byte \<times> bytes \<Rightarrow> bytes option" where
  "plainPayload lzo cfg packet =
     (if fst packet = espLZONextHeader
      then (case lzo (nat (channelMTU cfg)) (snd packet) of Inl e \<Rightarrow> None | Inr p \<Rightarrow> Some p)
      else Some (snd packet))"

definition dispatchPacket :: "(nat \<Rightarrow> bytes \<Rightarrow> bytes result) \<Rightarrow> espChannelConfig \<Rightarrow> espChannel \<Rightarrow> espChannel \<times> bytes option" where
  "dispatchPacket lzo cfg c0 =
     (case openedPacket c0 of
        None \<Rightarrow> (c0, None)
      | Some packet \<Rightarrow>
          let c = c0\<lparr>openedPacket := None\<rparr> in
          if fst packet = espLZONextHeader \<and> \<not> AcceptLZO cfg
          then (beginTerminate (Some (Extend (Sentinel ErrProtocolNotSupported) ''received LZO-compressed ESP payload'')) c, None)
          else if the (IsProbeResponse cfg) (snd packet) then (establish c, None)
          else (case plainPayload lzo cfg packet of
                  None \<Rightarrow> (c, None)
                | Some payload \<Rightarrow> (c, if chanReady c \<and> hasDeliver cfg then Some payload else None)))"

subsection \<open>The timer\<close>

definition espVerdict :: "duration \<Rightarrow> instant \<Rightarrow> instant \<Rightarrow> instant \<Rightarrow> verdict" where
  "espVerdict dpd received probed now =
     (if now > received + 2 * dpd then Expired
      else let due = (if probed > received then probed + dpd div 2 else received + dpd) in
        if now < due then Quiet else ProbeNow)"

text \<open>\<open>processDPD\<close> with the call of \<open>terminate\<close> in \<open>timerLoop\<close>; the probe is then sealed and written like a packet.\<close>

definition processDPD :: "espChannelConfig \<Rightarrow> instant \<Rightarrow> espChannel \<Rightarrow> espChannel" where
  "processDPD cfg now c =
     (if \<not> chanReady c then c
      else case espVerdict (channelDPD cfg) (espLastReceived c) (espLastDPD c) now of
        Expired \<Rightarrow> beginTerminate (Some (New ''ESP dead peer detection expired after '')) c
      | Quiet \<Rightarrow> c
      | ProbeNow \<Rightarrow>
          (case SendProbe cfg (c\<lparr>espLastDPD := now\<rparr>) of
             (c', None) \<Rightarrow> c'\<lparr>probing := True\<rparr>
           | (c', Some e) \<Rightarrow> timerFailed e c'))"

subsection \<open>Termination\<close>

definition preserveKeys :: "espChannelConfig \<Rightarrow> go_error option \<Rightarrow> bool \<Rightarrow> bool" where
  "preserveKeys cfg err wasReady \<longleftrightarrow>
     err \<noteq> None \<and> \<not> associationTerminal err \<and> (PreserveKeysOnFailure cfg \<or> PreserveKeysOnStartupFailure cfg \<and> \<not> wasReady)"

text \<open>After the connection was closed the keys are destroyed, unless they are to be kept, before the end is reported.\<close>

definition espDestroyKeys :: "espChannelConfig \<Rightarrow> espChannel \<Rightarrow> espChannel" where
  "espDestroyKeys cfg c =
     (case terminating c of
        Some (ConnClosed final err wasReady) \<Rightarrow>
          (if preserveKeys cfg err wasReady then c else c\<lparr>channelKeys := destroyKeySet (channelKeys c)\<rparr>)
            \<lparr>terminating := Some (Reporting final)\<rparr>
      | _ \<Rightarrow> c)"

abbreviation espCloseConnection :: "go_error option \<Rightarrow> espChannel \<Rightarrow> espChannel" where
  "espCloseConnection \<equiv> closeConnection ''close ESP UDP transport''"

section \<open>Runs\<close>

text \<open>
  What can be seen: datagrams that were opened, with their index and sequence number, payloads that were delivered, and the rekeys,
  with whether they turn replay protection off. The keys are shared with the session, which rekeys or destroys them at any time.
\<close>

datatype esp_event = Opened "u32 \<times> u32" byte bytes | Delivered bytes | Sent bytes | Rekeyed bool

definition openedNow :: "espChannel \<Rightarrow> bytes \<Rightarrow> espChannel \<Rightarrow> esp_event list" where
  "openedNow c datagram c' =
     (case openedPacket c' of
        Some (h, p) \<Rightarrow> [Opened (get_u32 datagram, datagram_sequence datagram) h p]
      | None \<Rightarrow> [])"

inductive esp_run :: "esp_crypto \<Rightarrow> (nat \<Rightarrow> bytes \<Rightarrow> bytes result) \<Rightarrow> espChannelConfig \<Rightarrow> espChannel \<Rightarrow> esp_event list \<Rightarrow> bool"
  for cr lzo cfg where
  esp_new: "newESPChannel cfg = Inr c \<Longrightarrow> esp_run cr lzo cfg c []"
| esp_start: "esp_run cr lzo cfg c tr \<Longrightarrow> esp_run cr lzo cfg (fst (espStartBegin c)) tr"
| esp_failed: "esp_run cr lzo cfg c tr \<Longrightarrow> dialing c \<Longrightarrow> esp_run cr lzo cfg (fst (espDialFailed e c)) tr"
| esp_connected: "esp_run cr lzo cfg c tr \<Longrightarrow> dialing c \<Longrightarrow> esp_run cr lzo cfg (fst (espConnected closeErr c)) tr"
| esp_data: "esp_run cr lzo cfg c tr \<Longrightarrow> sealing c = None \<Longrightarrow> esp_run cr lzo cfg (fst (espWriteData cfg payload c)) tr"
| esp_probe: "esp_run cr lzo cfg c tr \<Longrightarrow> sealing c = None \<Longrightarrow> esp_run cr lzo cfg (fst (SendProbe cfg c)) tr"
| esp_seal: "esp_run cr lzo cfg c tr \<Longrightarrow> writeSealed cr connWrite c = (c', datagram, e) \<Longrightarrow>
    esp_run cr lzo cfg c' (tr @ (case datagram of None \<Rightarrow> [] | Some d \<Rightarrow> [Sent d]))"
| esp_read: "esp_run cr lzo cfg c tr \<Longrightarrow> openedPacket c = None \<Longrightarrow> chanStarted c \<and> \<not> dialing c \<Longrightarrow> c' = openDatagram cr now datagram c \<Longrightarrow>
    esp_run cr lzo cfg c' (tr @ openedNow c datagram c')"
| esp_dispatch: "esp_run cr lzo cfg c tr \<Longrightarrow> dispatchPacket lzo cfg c = (c', payload) \<Longrightarrow>
    esp_run cr lzo cfg c' (tr @ (case payload of None \<Rightarrow> [] | Some p \<Rightarrow> [Delivered p]))"
| esp_read_failed: "esp_run cr lzo cfg c tr \<Longrightarrow> esp_run cr lzo cfg (espReadFailed canceled e c) tr"
| esp_tick: "esp_run cr lzo cfg c tr \<Longrightarrow> sealing c = None \<Longrightarrow> esp_run cr lzo cfg (processDPD cfg now c) tr"
| esp_terminate: "esp_run cr lzo cfg c tr \<Longrightarrow> esp_run cr lzo cfg (beginTerminate None c) tr"
| esp_close_connection: "esp_run cr lzo cfg c tr \<Longrightarrow> esp_run cr lzo cfg (espCloseConnection closeErr c) tr"
| esp_destroy_keys: "esp_run cr lzo cfg c tr \<Longrightarrow> esp_run cr lzo cfg (espDestroyKeys cfg c) tr"
| esp_publish: "esp_run cr lzo cfg c tr \<Longrightarrow> esp_run cr lzo cfg (publishDone c) tr"
| esp_rekey: "esp_run cr lzo cfg c tr \<Longrightarrow> install (channelKeys c) config random = (keys, r) \<Longrightarrow>
    esp_run cr lzo cfg (c\<lparr>channelKeys := keys\<rparr>) (tr @ (case r of Inl e \<Rightarrow> [] | Inr _ \<Rightarrow> [Rekeyed (DisableReplayProtection config)]))"
| esp_session_destroys: "esp_run cr lzo cfg c tr \<Longrightarrow> esp_run cr lzo cfg (c\<lparr>channelKeys := destroyKeySet (channelKeys c)\<rparr>) tr"

section \<open>The life of a channel\<close>

lemma sealBuffer_destroyed: "destroyed (fst (sealBuffer cr s payload h)) = destroyed s"
  by (auto simp: sealBuffer_def Let_def split: sum.splits)



lemma destroyKeySet_destroyed [simp]: "destroyed (destroyKeySet s)"
  by (simp add: destroyKeySet_def)

text \<open>Three independent parts: the connection, the announcement of being established, and the keys.\<close>

definition conn_ok :: "espChannel \<Rightarrow> bool" where
  "conn_ok c \<longleftrightarrow> channel_ok c \<and> (chanStarted c \<and> \<not> dialing c \<longrightarrow> chanClosed c \<or> chanConn c) \<and>
     (openedPacket c \<noteq> None \<longrightarrow> chanStarted c \<and> \<not> dialing c)"

definition est_ok :: "espChannel \<Rightarrow> bool" where
  "est_ok c \<longleftrightarrow> establishedClosed c \<le> 1 \<and> (\<not> establishedOnce c \<longrightarrow> establishedClosed c = 0) \<and> (chanReady c \<longrightarrow> establishedClosed c = 1)"

text \<open>Before the report, and after it, the keys are destroyed unless they are kept after a failure.\<close>

definition keys_ok :: "espChannelConfig \<Rightarrow> espChannel \<Rightarrow> bool" where
  "keys_ok cfg c \<longleftrightarrow>
     (\<forall>final err wasReady. terminating c = Some (ConnClosed final err wasReady) \<longrightarrow> final = None \<longrightarrow> err = None) \<and>
     (\<forall>e. (chanDone c = Some e \<or> terminating c = Some (Reporting e)) \<and>
        (e = None \<or> \<not> PreserveKeysOnFailure cfg \<and> \<not> PreserveKeysOnStartupFailure cfg) \<longrightarrow> destroyed (channelKeys c))"

definition esp_ok :: "espChannelConfig \<Rightarrow> espChannel \<Rightarrow> bool" where
  "esp_ok cfg c \<longleftrightarrow> conn_ok c \<and> est_ok c \<and> keys_ok cfg c"

lemma esp_ok_irrelevant [simp]:
  "esp_ok cfg (c\<lparr>probeSequence := n\<rparr>) = esp_ok cfg c" "esp_ok cfg (c\<lparr>sealing := x\<rparr>) = esp_ok cfg c"
  "esp_ok cfg (c\<lparr>espLastReceived := t\<rparr>) = esp_ok cfg c" "esp_ok cfg (c\<lparr>espLastDPD := t\<rparr>) = esp_ok cfg c"
  "esp_ok cfg (c\<lparr>probing := b\<rparr>) = esp_ok cfg c"
  by (simp_all add: esp_ok_def conn_ok_def channel_ok_def est_ok_def keys_ok_def)




lemma beginTerminate_fields [simp]:
  "channelKeys (beginTerminate e c) = channelKeys c" "establishedOnce (beginTerminate e c) = establishedOnce c"
  "establishedClosed (beginTerminate e c) = establishedClosed c" "openedPacket (beginTerminate e c) = openedPacket c"
  "chanStarted (beginTerminate e c) = chanStarted c" "dialing (beginTerminate e c) = dialing c"
  "chanDone (beginTerminate e c) = chanDone c" "chanClosed (beginTerminate e c)" "sealing (beginTerminate e c) = sealing c"
  by (simp_all add: beginTerminate_def)

lemma beginTerminate_ready: "chanReady (beginTerminate e c) \<Longrightarrow> chanReady c"
  by (simp add: beginTerminate_def split: if_split_asm)










lemma closeConnection_fields [simp]:
  "channelKeys (closeConnection m e c) = channelKeys c" "establishedOnce (closeConnection m e c) = establishedOnce c"
  "establishedClosed (closeConnection m e c) = establishedClosed c" "openedPacket (closeConnection m e c) = openedPacket c"
  "chanStarted (closeConnection m e c) = chanStarted c" "dialing (closeConnection m e c) = dialing c"
  "chanClosed (closeConnection m e c) = chanClosed c" "chanConn (closeConnection m e c) = chanConn c"
  "chanReady (closeConnection m e c) = chanReady c" "chanDone (closeConnection m e c) = chanDone c"
  by (simp_all add: closeConnection_def Let_def split: option.split channelTermination.split)

lemma publishDone_fields [simp]:
  "channelKeys (publishDone c) = channelKeys c" "establishedOnce (publishDone c) = establishedOnce c"
  "establishedClosed (publishDone c) = establishedClosed c" "openedPacket (publishDone c) = openedPacket c"
  "chanStarted (publishDone c) = chanStarted c" "dialing (publishDone c) = dialing c"
  "chanClosed (publishDone c) = chanClosed c" "chanConn (publishDone c) = chanConn c" "chanReady (publishDone c) = chanReady c"
  by (simp_all add: publishDone_def split: option.split channelTermination.split)

lemma espDestroyKeys_fields [simp]:
  "establishedOnce (espDestroyKeys cfg c) = establishedOnce c" "openedPacket (espDestroyKeys cfg c) = openedPacket c"
  "chanReady (espDestroyKeys cfg c) = chanReady c"
  by (simp_all add: espDestroyKeys_def split: option.split channelTermination.split)









section \<open>What a channel delivers\<close>

fun opens :: "esp_event list \<Rightarrow> ((u32 \<times> u32) \<times> byte \<times> bytes) list" where
  "opens [] = []"
| "opens (Opened n h p # tr) = (n, h, p) # opens tr"
| "opens (_ # tr) = opens tr"

fun deliveries :: "esp_event list \<Rightarrow> bytes list" where
  "deliveries [] = []"
| "deliveries (Delivered p # tr) = p # deliveries tr"
| "deliveries (_ # tr) = deliveries tr"

lemma events_append [simp]:
  "opens (tr @ tr') = opens tr @ opens tr'" "deliveries (tr @ tr') = deliveries tr @ deliveries tr'"
  by (induction tr rule: opens.induct) simp_all

text \<open>The payloads come from datagrams in their order, each from another one.\<close>

definition stemsFrom :: "(nat \<Rightarrow> bytes \<Rightarrow> bytes result) \<Rightarrow> espChannelConfig \<Rightarrow> ((u32 \<times> u32) \<times> byte \<times> bytes) list \<Rightarrow> bytes list \<Rightarrow> bool" where
  "stemsFrom lzo cfg os ps \<longleftrightarrow> (\<exists>os'. subseq os' os \<and> list_all2 (\<lambda>(n, packet) p. plainPayload lzo cfg packet = Some p) os' ps)"

lemma stemsFrom_more: "stemsFrom lzo cfg os ps \<Longrightarrow> stemsFrom lzo cfg (os @ os') ps"
  by (meson list_emb_append2 stemsFrom_def subseq_order.trans subseq_rev_drop_many subseq_order.order_refl list_emb_prefix)

lemma stemsFrom_snoc: "stemsFrom lzo cfg os ps \<Longrightarrow> plainPayload lzo cfg packet = Some p \<Longrightarrow> stemsFrom lzo cfg (os @ [(n, packet)]) (ps @ [p])"
  unfolding stemsFrom_def by (elim exE) (rule_tac x = "os' @ [(n, packet)]" in exI, simp add: list_all2_appendI)

definition answered :: "espChannelConfig \<Rightarrow> esp_event list \<Rightarrow> bool" where
  "answered cfg tr \<longleftrightarrow> (\<exists>(n, h, p) \<in> set (opens tr). the (IsProbeResponse cfg) p)"

definition trace_ok :: "(nat \<Rightarrow> bytes \<Rightarrow> bytes result) \<Rightarrow> espChannelConfig \<Rightarrow> espChannel \<Rightarrow> esp_event list \<Rightarrow> bool" where
  "trace_ok lzo cfg c tr \<longleftrightarrow>
     (chanReady c \<longrightarrow> answered cfg tr) \<and>
     (\<forall>before p after. tr = before @ Delivered p # after \<longrightarrow> answered cfg before) \<and>
     (case openedPacket c of
        None \<Rightarrow> stemsFrom lzo cfg (opens tr) (deliveries tr)
      | Some packet \<Rightarrow> \<exists>n os. opens tr = os @ [(n, packet)] \<and> stemsFrom lzo cfg os (deliveries tr))"

lemma trace_same:
  "trace_ok lzo cfg c tr \<Longrightarrow> openedPacket c' = openedPacket c \<Longrightarrow> (chanReady c' \<Longrightarrow> chanReady c) \<Longrightarrow> trace_ok lzo cfg c' tr"
  by (auto simp: trace_ok_def)

lemma writeGuard_same: "openedPacket (fst (writeGuard b p h c)) = openedPacket c" "chanReady (fst (writeGuard b p h c)) = chanReady c"
  by (simp_all add: writeGuard_def)

lemma SendProbe_same: "openedPacket (fst (SendProbe cfg c)) = openedPacket c" "chanReady (fst (SendProbe cfg c)) = chanReady c"
  by (simp_all add: SendProbe_def writeGuard_same split: sum.split)

lemma processDPD_same:
  "openedPacket (processDPD cfg now c) = openedPacket c" "chanReady (processDPD cfg now c) \<Longrightarrow> chanReady c"
  using SendProbe_same [of cfg "c\<lparr>espLastDPD := now\<rparr>"]
  by (cases "SendProbe cfg (c\<lparr>espLastDPD := now\<rparr>)"; simp add: processDPD_def timerFailed_def split: verdict.splits option.splits if_split_asm)+

lemma sealAndWrite_same:
  assumes "sealAndWrite cr connWrite c = (c', datagram, e)"
  shows "openedPacket c' = openedPacket c" "chanReady c' \<Longrightarrow> chanReady c"
proof -
  have "openedPacket c' = openedPacket c \<and> (chanReady c' \<longrightarrow> chanReady c)"
    using assms beginTerminate_ready
    by (fastforce simp: sealAndWrite_def Let_def split: option.split_asm prod.split_asm sum.split_asm if_split_asm)
  then show "openedPacket c' = openedPacket c" "chanReady c' \<Longrightarrow> chanReady c" by blast+
qed

lemma writeSealed_same:
  assumes "writeSealed cr connWrite c = (c', datagram, e)"
  shows "openedPacket c' = openedPacket c" "chanReady c' \<Longrightarrow> chanReady c"
proof -
  obtain d datagram' e' where s: "sealAndWrite cr connWrite c = (d, datagram', e')" by (metis prod.exhaust)
  have "openedPacket c' = openedPacket d \<and> (chanReady c' \<longrightarrow> chanReady d)"
    using assms beginTerminate_ready by (auto simp: writeSealed_def s timerFailed_def split: option.split_asm if_split_asm)
  then show "openedPacket c' = openedPacket c" "chanReady c' \<Longrightarrow> chanReady c" using sealAndWrite_same [OF s] by auto
qed

text \<open>Events that are not deliveries keep what was said of deliveries.\<close>

lemma trace_sent: "trace_ok lzo cfg c tr \<Longrightarrow> trace_ok lzo cfg c (tr @ (case datagram of None \<Rightarrow> [] | Some d \<Rightarrow> [Sent d]))"
proof (cases datagram)
  case (Some d)
  assume ok: "trace_ok lzo cfg c tr"
  have "answered cfg before" if "tr @ [Sent d] = before @ Delivered p # after" for before p after
    using that ok by (cases after rule: rev_cases) (auto simp: trace_ok_def)
  then show ?thesis using ok by (auto simp: trace_ok_def Some answered_def split: option.splits)
qed simp

lemma trace_rekeyed:
  assumes "trace_ok lzo cfg c tr"
  shows "trace_ok lzo cfg (c\<lparr>channelKeys := keys\<rparr>) (tr @ (case r of Inl e \<Rightarrow> [] | Inr u \<Rightarrow> [Rekeyed d]))"
proof (cases r)
  case (Inr u)
  have "answered cfg before" if "tr @ [Rekeyed d] = before @ Delivered p # after" for before p after
    using that assms by (cases after rule: rev_cases) (auto simp: trace_ok_def)
  then show ?thesis using assms by (auto simp: trace_ok_def Inr answered_def split: option.splits)
qed (use assms in \<open>simp add: trace_ok_def\<close>)

lemma trace_opened:
  assumes ok: "trace_ok lzo cfg c tr" and none: "openedPacket c = None"
  shows "trace_ok lzo cfg (openDatagram cr now datagram c) (tr @ openedNow c datagram (openDatagram cr now datagram c))"
proof -
  obtain keys r where k: "openBuffer cr (channelKeys c) datagram = (keys, r)" by force
  show ?thesis
  proof (cases "datagram = [] \<or> isl r")
    case True
    then have "openedPacket (openDatagram cr now datagram c) = None" "chanReady (openDatagram cr now datagram c) = chanReady c"
      using none k by (auto simp: openDatagram_def split: sum.split)
    then show ?thesis using ok none by (simp add: openedNow_def trace_ok_def)
  next
    case False
    then obtain h p where r: "r = Inr (h, p)" by (cases r) auto
    let ?c = "c\<lparr>channelKeys := keys, espLastReceived := now, openedPacket := Some (h, p)\<rparr>"
    let ?e = "Opened (get_u32 datagram, datagram_sequence datagram) h p"
    have c: "openDatagram cr now datagram c = ?c" using False k r by (simp add: openDatagram_def)
    have "answered cfg before" if "tr @ [?e] = before @ Delivered q # after" for before q after
      using that ok by (cases after rule: rev_cases) (auto simp: trace_ok_def)
    then show ?thesis unfolding c using ok none by (auto simp: trace_ok_def openedNow_def answered_def)
  qed
qed

lemma trace_dispatched:
  assumes ok: "trace_ok lzo cfg c tr" and d: "dispatchPacket lzo cfg c = (c', payload)"
  shows "trace_ok lzo cfg c' (tr @ (case payload of None \<Rightarrow> [] | Some p \<Rightarrow> [Delivered p]))"
proof (cases "openedPacket c")
  case None
  then show ?thesis using assms by (simp add: dispatchPacket_def)
next
  case (Some packet)
  obtain n os where os: "opens tr = os @ [(n, packet)]" "stemsFrom lzo cfg os (deliveries tr)"
    using ok Some by (auto simp: trace_ok_def)
  have delivered: "\<forall>before p after. tr = before @ Delivered p # after \<longrightarrow> answered cfg before" using ok by (simp add: trace_ok_def)
  have none: "openedPacket c' = None" using d Some
    by (auto simp: dispatchPacket_def establish_def Let_def split: if_split_asm option.split_asm)
  show ?thesis
  proof (cases payload)
    case n: None
    have "chanReady c' \<longrightarrow> answered cfg tr"
    proof (cases "the (IsProbeResponse cfg) (snd packet)")
      case True
      then show ?thesis by (cases packet) (auto simp: answered_def os(1))
    next
      case False
      then have "chanReady c' \<longrightarrow> chanReady c" using d Some beginTerminate_ready
        by (fastforce simp: dispatchPacket_def Let_def split: if_split_asm option.split_asm)
      then show ?thesis using ok by (simp add: trace_ok_def)
    qed
    then show ?thesis using delivered os stemsFrom_more [OF os(2), of "[(n, packet)]"] by (simp add: trace_ok_def none n)
  next
    case p: (Some p)
    have facts: "plainPayload lzo cfg packet = Some p" "chanReady c" "chanReady c' = chanReady c"
      using d Some p by (auto simp: dispatchPacket_def Let_def split: if_split_asm option.split_asm)
    have a: "answered cfg tr" using facts(2) ok by (simp add: trace_ok_def)
    have "answered cfg before" if "tr @ [Delivered p] = before @ Delivered q # after" for before q after
      using that delivered a by (cases after rule: rev_cases) auto
    then show ?thesis
      using stemsFrom_snoc [OF os(2) facts(1), of n] a by (auto simp: trace_ok_def none p os(1) answered_def)
  qed
qed

lemma esp_run_trace: "esp_run cr lzo cfg c tr \<Longrightarrow> trace_ok lzo cfg c tr"
proof (induction rule: esp_run.induct)
  case (esp_new c)
  then have "openedPacket c = None" "\<not> chanReady c"
    by (auto simp: newESPChannel_def newChannel_def channel.defs split: option.split_asm if_split_asm)
  then show ?case by (simp add: trace_ok_def stemsFrom_def)
next
  case (esp_start c tr)
  then show ?case by (auto elim!: trace_same simp: espStartBegin_def startBegin_def)
next
  case (esp_failed c tr e)
  then show ?case by (auto elim!: trace_same simp: espDialFailed_def Let_def dest: beginTerminate_ready)
next
  case (esp_connected c tr closeErr)
  then show ?case by (auto elim!: trace_same simp: espConnected_def)
next
  case (esp_data c tr payload)
  then show ?case by (auto elim!: trace_same simp: espWriteData_def writeGuard_same)
next
  case (esp_probe c tr)
  then show ?case by (auto elim!: trace_same simp: SendProbe_same)
next
  case (esp_seal c tr connWrite c' datagram e)
  then show ?case using trace_same [OF esp_seal.IH writeSealed_same [OF esp_seal.hyps(2)]] by (intro trace_sent) simp
next
  case (esp_read c tr c' now datagram)
  then show ?case by (simp add: trace_opened)
next
  case (esp_dispatch c tr c' payload)
  then show ?case by (simp add: trace_dispatched)
next
  case (esp_read_failed c tr canceled e)
  then show ?case by (auto elim!: trace_same simp: espReadFailed_def dest: beginTerminate_ready)
next
  case (esp_tick c tr now)
  then show ?case by (auto elim!: trace_same simp: processDPD_same(1) dest: processDPD_same(2))
next
  case (esp_terminate c tr)
  then show ?case by (auto elim!: trace_same dest: beginTerminate_ready)
next
  case (esp_rekey c tr config random keys r)
  then show ?case by (simp add: trace_rekeyed)
qed (auto elim!: trace_same)

text \<open>
  The pairs of index and number that were opened under the keys of each rekey, the last one first, with whether these keys disable
  replay protection.
\<close>

fun epochStep :: "esp_event \<Rightarrow> (bool \<times> (u32 \<times> u32) list) list \<Rightarrow> (bool \<times> (u32 \<times> u32) list) list" where
  "epochStep (Opened n h p) ((d, ns) # es) = (d, ns @ [n]) # es"
| "epochStep (Rekeyed d) es = (d, []) # es"
| "epochStep _ es = es"

definition epochs :: "bool \<Rightarrow> esp_event list \<Rightarrow> (bool \<times> (u32 \<times> u32) list) list" where
  "epochs d tr = fold epochStep tr [(d, [])]"

lemma epochs_simps [simp]: "epochs d [] = [(d, [])]" "epochs d (tr @ [e]) = epochStep e (epochs d tr)"
  by (simp_all add: epochs_def)

lemma epochs_ne: "epochs d tr \<noteq> []"
proof (induction tr rule: rev_induct)
  case (snoc e tr)
  then show ?case by (cases e; cases "epochs d tr") auto
qed simp

lemma epochs_opens: "concat (rev (map snd (epochs d tr))) = map fst (opens tr)"
proof (induction tr rule: rev_induct)
  case (snoc e tr)
  then show ?case using epochs_ne [of d tr] by (cases e; cases "epochs d tr") auto
qed simp

text \<open>No datagram is opened twice under the same keys: what the windows of the key set let through covers what was opened.\<close>

definition pairs_ok :: "esp_crypto \<Rightarrow> bool \<Rightarrow> espKeySet \<Rightarrow> esp_event list \<Rightarrow> bool" where
  "pairs_ok cr d0 keys tr \<longleftrightarrow> key_state cr keys \<and> list_all (\<lambda>(d, ns). d \<or> distinct ns) (epochs d0 tr) \<and>
     fst (hd (epochs d0 tr)) = disableReplayProtection keys \<and>
     (destroyed keys \<or> disableReplayProtection keys \<or> (\<exists>P. seen_by keys P \<and> set (snd (hd (epochs d0 tr))) \<subseteq> P))"

lemma epochs_quiet [simp]: "epochs d (tr @ (case datagram of None \<Rightarrow> [] | Some x \<Rightarrow> [Sent x])) = epochs d tr"
  "epochs d (tr @ (case payload of None \<Rightarrow> [] | Some p \<Rightarrow> [Delivered p])) = epochs d tr"
  by (simp_all split: option.split)

lemma pairs_quiet [simp]: "pairs_ok cr d keys (tr @ (case datagram of None \<Rightarrow> [] | Some x \<Rightarrow> [Sent x])) = pairs_ok cr d keys tr"
  "pairs_ok cr d keys (tr @ (case payload of None \<Rightarrow> [] | Some p \<Rightarrow> [Delivered p])) = pairs_ok cr d keys tr"
  by (simp_all only: pairs_ok_def epochs_quiet)

lemma seal_inbound:
  "currentInbound (fst (sealBuffer cr k payload h)) = currentInbound k" "previousInbound (fst (sealBuffer cr k payload h)) = previousInbound k"
  "disableReplayProtection (fst (sealBuffer cr k payload h)) = disableReplayProtection k"
  by (simp_all add: sealBuffer_def Let_def split: sum.split)

lemma pairs_seal: "pairs_ok cr d k tr \<Longrightarrow> pairs_ok cr d (fst (sealBuffer cr k payload h)) tr"
proof -
  have "seen_by (fst (sealBuffer cr k payload h)) P = seen_by k P" for P
    by (simp add: seen_by_def seen_pairs_def seal_inbound)
  then show "pairs_ok cr d k tr \<Longrightarrow> pairs_ok cr d (fst (sealBuffer cr k payload h)) tr"
    by (simp add: pairs_ok_def seal_inbound sealBuffer_destroyed key_state.sealed)
qed

lemma openBuffer_flag: "disableReplayProtection (fst (openBuffer cr k d)) = disableReplayProtection k"
  by (auto simp: openBuffer_def Let_def split: option.splits bool.splits prod.splits)

lemma pairs_destroyed: "pairs_ok cr d k tr \<Longrightarrow> pairs_ok cr d (destroyKeySet k) tr"
  by (simp add: pairs_ok_def key_state.erased) (simp add: destroyKeySet_def)

lemma pairs_rekeyed:
  assumes "pairs_ok cr d k tr" "install k config random = (keys, r)"
  shows "pairs_ok cr d keys (tr @ (case r of Inl e \<Rightarrow> [] | Inr _ \<Rightarrow> [Rekeyed (DisableReplayProtection config)]))"
proof (cases r)
  case (Inl e)
  then have "keys = k" using assms(2) by (auto simp: install_def split: sum.split_asm if_split_asm)
  then show ?thesis using assms(1) Inl by simp
next
  case (Inr u)
  have k: "key_state cr keys" using assms key_state.rekeyed [of cr k config random] by (simp add: pairs_ok_def)
  moreover obtain P where "seen_by keys P" using key_state_windows [OF k] by (auto simp: windows_ok_def seen_by_def)
  moreover have "disableReplayProtection keys = DisableReplayProtection config"
    using assms(2) Inr by (auto simp: install_def split: sum.split_asm if_split_asm)
  ultimately show ?thesis using assms(1) Inr by (auto simp: pairs_ok_def)
qed

lemma sealAndWrite_keys:
  assumes "sealAndWrite cr connWrite c = (c', datagram, e)"
  shows "channelKeys c' = channelKeys c \<or> (\<exists>payload h. channelKeys c' = fst (sealBuffer cr (channelKeys c) payload h))"
proof (cases "sealing c")
  case (Some packet)
  obtain payload h where packet: "packet = (payload, h)" by force
  obtain keys sealed where k: "sealBuffer cr (channelKeys c) payload h = (keys, sealed)" by force
  have "channelKeys c' = keys" using assms
    by (auto simp: sealAndWrite_def Some packet k Let_def split: sum.split_asm if_split_asm)
  then show ?thesis using k by (metis fst_conv)
qed (use assms in \<open>simp add: sealAndWrite_def\<close>)

lemma writeSealed_keys:
  assumes "writeSealed cr connWrite c = (c', datagram, e)"
  shows "channelKeys c' = channelKeys c \<or> (\<exists>payload h. channelKeys c' = fst (sealBuffer cr (channelKeys c) payload h))"
proof -
  obtain d datagram' e' where s: "sealAndWrite cr connWrite c = (d, datagram', e')" by (metis prod.exhaust)
  have "channelKeys c' = channelKeys d" using assms by (auto simp: writeSealed_def s timerFailed_def split: option.split_asm if_split_asm)
  then show ?thesis using sealAndWrite_keys [OF s] by simp
qed

lemma pairs_sealed:
  assumes "pairs_ok cr d0 (channelKeys c) tr" "writeSealed cr connWrite c = (c', datagram, e)"
  shows "pairs_ok cr d0 (channelKeys c') tr"
  using writeSealed_keys [OF assms(2)] assms(1) by (auto simp: pairs_seal)

lemma pairs_opened:
  assumes ok: "pairs_ok cr d0 (channelKeys c) tr" and none: "openedPacket c = None"
  shows "pairs_ok cr d0 (channelKeys (openDatagram cr now d c)) (tr @ openedNow c d (openDatagram cr now d c))"
proof -
  obtain keys r where k: "openBuffer cr (channelKeys c) d = (keys, r)" by force
  have same: "key_state cr keys" "disableReplayProtection keys = disableReplayProtection (channelKeys c)"
    using ok key_state.opened [of cr "channelKeys c" d] openBuffer_flag [of cr "channelKeys c" d] k by (simp_all add: pairs_ok_def)
  obtain off ns es where es: "epochs d0 tr = (off, ns) # es" using epochs_ne [of d0 tr] by (metis list.exhaust surj_pair)
  have all: "list_all (\<lambda>(d, ns). d \<or> distinct ns) es" "off \<or> distinct ns" "off = disableReplayProtection (channelKeys c)"
    using ok by (auto simp: pairs_ok_def es)
  let ?n = "(get_u32 d, datagram_sequence d)"
  consider "destroyed (channelKeys c) \<or> d = []" | "\<not> destroyed (channelKeys c)" "d \<noteq> []" "off"
    | P where "\<not> destroyed (channelKeys c)" "d \<noteq> []" "\<not> off" "seen_by (channelKeys c) P" "set ns \<subseteq> P"
    using ok all(3) by (auto simp: pairs_ok_def es)
  then show ?thesis
  proof cases
    case 1
    then have "openDatagram cr now d c = c" using k by (auto simp: openDatagram_def openBuffer_def)
    then show ?thesis using ok none by (simp add: openedNow_def)
  next
    case 2
    show ?thesis
    proof (cases r)
      case (Inl e)
      then show ?thesis using 2 none same all by (simp add: openDatagram_def k openedNow_def pairs_ok_def es)
    next
      case (Inr packet)
      then show ?thesis using 2 none same all
        by (cases packet) (simp add: openDatagram_def k openedNow_def pairs_ok_def es)
    qed
  next
    case (3 P)
    have on: "\<not> disableReplayProtection (channelKeys c)" using 3(3) all(3) by simp
    note o = openBuffer_seen [OF 3(4) on k]
    show ?thesis
    proof (cases r)
      case (Inl e)
      then obtain P' where "P \<subseteq> P'" "seen_by keys P'" using o(2) by auto
      then have "seen_by keys P' \<and> set ns \<subseteq> P'" using 3(5) by blast
      then show ?thesis using Inl 3(2) none same all by (auto simp: openDatagram_def k openedNow_def pairs_ok_def es)
    next
      case (Inr packet)
      obtain h p where packet: "packet = (h, p)" by force
      have new: "?n \<notin> P" "seen_by keys (insert ?n P)" using o(3) Inr by simp_all
      have "distinct (ns @ [?n])" using new(1) 3(3,5) all(2) by auto
      moreover have "seen_by keys (insert ?n P) \<and> set (ns @ [?n]) \<subseteq> insert ?n P" using new(2) 3(5) by auto
      ultimately have "pairs_ok cr d0 keys (tr @ [Opened ?n h p])"
        using same all(1,3) unfolding pairs_ok_def es epochs_simps epochStep.simps list.pred_inject list.sel fst_conv snd_conv prod.case by blast
      then show ?thesis using 3(2) Inr packet none by (simp add: openDatagram_def k openedNow_def)
    qed
  qed
qed

lemma dispatch_keys: "dispatchPacket lzo cfg c = (c', payload) \<Longrightarrow> channelKeys c' = channelKeys c"
  by (auto simp: dispatchPacket_def establish_def Let_def split: option.split_asm if_split_asm)

lemma tick_keys: "channelKeys (processDPD cfg now c) = channelKeys c"
  by (auto simp: processDPD_def SendProbe_def writeGuard_def timerFailed_def split: verdict.split sum.split)

lemma espDestroyKeys_keys: "channelKeys (espDestroyKeys cfg c) \<in> {channelKeys c, destroyKeySet (channelKeys c)}"
  by (simp add: espDestroyKeys_def split: option.split channelTermination.split)

lemma quiet_keys:
  "channelKeys (fst (espStartBegin c)) = channelKeys c" "channelKeys (fst (espDialFailed e c)) = channelKeys c"
  "channelKeys (fst (espConnected e' c)) = channelKeys c" "channelKeys (fst (espWriteData cfg payload c)) = channelKeys c"
  "channelKeys (fst (SendProbe cfg c)) = channelKeys c" "channelKeys (espReadFailed canceled e c) = channelKeys c"
  by (simp_all add: espStartBegin_def startBegin_def espDialFailed_def Let_def espConnected_def espWriteData_def writeGuard_def
      SendProbe_def espReadFailed_def split: sum.split)

lemma esp_run_pairs:
  assumes "configKeys cfg = Some k" "key_state cr k"
  shows "esp_run cr lzo cfg c tr \<Longrightarrow> pairs_ok cr (disableReplayProtection k) (channelKeys c) tr"
proof (induction rule: esp_run.induct)
  case (esp_new c)
  have "channelKeys c = k" using esp_new assms(1) by (auto simp: newESPChannel_def channel.defs split: if_split_asm)
  moreover obtain P where "seen_by k P" using key_state_windows [OF assms(2)] by (auto simp: windows_ok_def seen_by_def)
  ultimately show ?case using assms(2) by (auto simp: pairs_ok_def)
next
  case (esp_seal c tr connWrite c' datagram e)
  then show ?case by (simp add: pairs_sealed)
next
  case (esp_read c tr c' now datagram)
  then show ?case by (simp add: pairs_opened)
next
  case (esp_dispatch c tr c' payload)
  then show ?case by (simp add: dispatch_keys)
next
  case (esp_destroy_keys c tr)
  then show ?case using espDestroyKeys_keys [of cfg c] by (auto simp: pairs_destroyed)
next
  case (esp_rekey c tr config random keys r)
  then show ?case using pairs_rekeyed by simp
qed (simp_all add: quiet_keys tick_keys pairs_destroyed)

section \<open>The timer\<close>

interpretation esp_timer: dead_peer_timer dpd "espVerdict dpd" for dpd
  by unfold_locales (auto simp: espVerdict_def probeDue_def Let_def)

section \<open>An instance\<close>

definition demo_esp :: espChannelConfig where
  "demo_esp = \<lparr>configKeys = Some demo_keys, remoteValid = True, remotePort = 4500, channelMTU = 1400, channelDPD = 20,
     BuildProbe = Some (\<lambda>n. Inr [0x45, 1]), IsProbeResponse = Some (\<lambda>p. p = [0x45, 1]), hasDeliver = True, ProbeNextHeader = 0,
     AcceptLZO = False, PreserveKeysOnFailure = False, PreserveKeysOnStartupFailure = True\<rparr>"

definition demo_channel :: espChannel where
  "demo_channel = channel.extend (newChannel\<lparr>chanStarted := True, chanConn := True\<rparr>)
     \<lparr>channelKeys = demo_keys, probeSequence = 0, establishedOnce = False, establishedClosed = 0, espLastReceived = 0,
      espLastDPD = 0, openedPacket = None, sealing = None, probing = False\<rparr>"

lemma demo_channel_run: "esp_run cr lzo demo_esp demo_channel []"
proof -
  obtain c where c: "newESPChannel demo_esp = Inr c" by (simp add: newESPChannel_def demo_esp_def)
  have "demo_channel = fst (espConnected None (fst (espStartBegin c)))" "dialing (fst (espStartBegin c))"
    using c by (auto simp: demo_channel_def newESPChannel_def demo_esp_def espConnected_def espStartBegin_def startBegin_def
        newChannel_def channel.defs)
  then show ?thesis using esp_connected [OF esp_start [OF esp_new [OF c]]] by metis
qed

lemma demo_paired: "paired demo_keys demo_keys" "valid (outbound demo_keys)"
  using demo_keys_facts by (simp_all add: paired_def matches_def)

lemma demo_two:
  obtains d1 d2 k1 k2 where "openBuffer demo_crypto demo_keys d1 = (k1, Inr (4, [0x45, 1]))"
    "openBuffer demo_crypto k1 d2 = (k2, Inr (4, [0x45, 2]))" "d1 \<noteq> []" "d2 \<noteq> []"
proof -
  have h: "selectNextHeader [0x45, n] 0 = Inr 4" "knownNextHeader 4" for n
    by (simp_all add: selectNextHeader_def knownNextHeader_def espIPv4NextHeader_def drop_bit_eq_div)
  obtain s1 d1 where s1: "sealBuffer demo_crypto demo_keys [0x45, 1] 0 = (s1, Inr d1)" "sequence (outbound s1) = 1"
    using sealBuffer_eq [OF demo_keys_facts(1) demo_paired(2) h(1) h(2), of demo_crypto]
    by (simp add: demo_keys_facts sealed_association_def)
  obtain k1 where k1: "openBuffer demo_crypto demo_keys d1 = (k1, Inr (4, [0x45, 1]))" "paired s1 k1"
    using seal_open_step [OF demo_crypto_ok demo_paired(1) _ s1(1) h(1)] by auto
  have "\<not> destroyed s1" "valid (outbound s1)" using k1(2) by (simp_all add: paired_def matches_def)
  then obtain s2 d2 where s2: "sealBuffer demo_crypto s1 [0x45, 2] 0 = (s2, Inr d2)"
    using sealBuffer_eq [of s1 "[0x45, 2]" 0 4 demo_crypto] h s1(2) by auto
  obtain k2 where k2: "openBuffer demo_crypto k1 d2 = (k2, Inr (4, [0x45, 2]))"
    using seal_open_step [OF demo_crypto_ok k1(2) _ s2 h(1)] by auto
  have "d1 \<noteq> []" "d2 \<noteq> []" using k1(1) k2 by (auto simp: openBuffer_def split: if_split_asm)
  with k1(1) k2 show thesis by (rule that)
qed

text \<open>The channel is established by the first datagram and delivers the second.\<close>

lemma demo_delivers:
  "\<exists>c tr. esp_run demo_crypto lzo demo_esp c tr \<and> deliveries tr = [[0x45, 2]] \<and> length (opens tr) = 2 \<and> length (epochs False tr) = 1 \<and> chanReady c \<and> chanConn c \<and> \<not> chanClosed c \<and>
    espLastReceived c = 7 \<and> espLastDPD c = 0"
proof -
  obtain d1 d2 k1 k2 where k: "openBuffer demo_crypto demo_keys d1 = (k1, Inr (4, [0x45, 1]))"
      "openBuffer demo_crypto k1 d2 = (k2, Inr (4, [0x45, 2]))" "d1 \<noteq> []" "d2 \<noteq> []"
    by (rule demo_two)
  note defs = demo_channel_def demo_esp_def newChannel_def channel.defs openDatagram_def dispatchPacket_def establish_def
    plainPayload_def espLZONextHeader_def Let_def openedNow_def
  define c1 where "c1 = openDatagram demo_crypto 5 d1 demo_channel"
  define c2 where "c2 = fst (dispatchPacket lzo demo_esp c1)"
  define c3 where "c3 = openDatagram demo_crypto 7 d2 c2"
  define c4 where "c4 = fst (dispatchPacket lzo demo_esp c3)"
  have c1: "openedPacket c1 = Some (4, [0x45, 1])" "channelKeys c1 = k1" "chanConn c1" "\<not> chanClosed c1" "\<not> establishedOnce c1"
    "chanStarted c1 \<and> \<not> dialing c1" "espLastDPD c1 = 0"
    using k by (simp_all add: c1_def defs)
  have c2: "openedPacket c2 = None" "channelKeys c2 = k1" "chanConn c2" "\<not> chanClosed c2" "chanReady c2" "chanStarted c2 \<and> \<not> dialing c2"
    "espLastDPD c2 = 0" "snd (dispatchPacket lzo demo_esp c1) = None"
    using c1 by (simp_all add: c2_def defs)
  have c3: "openedPacket c3 = Some (4, [0x45, 2])" "chanConn c3" "\<not> chanClosed c3" "chanReady c3" "espLastReceived c3 = 7" "espLastDPD c3 = 0"
    using c2 k by (simp_all add: c3_def openDatagram_def)
  have c4: "chanConn c4" "\<not> chanClosed c4" "chanReady c4" "espLastReceived c4 = 7" "espLastDPD c4 = 0"
    "snd (dispatchPacket lzo demo_esp c3) = Some [0x45, 2]"
    using c3 by (simp_all add: c4_def dispatchPacket_def demo_esp_def plainPayload_def espLZONextHeader_def Let_def)
  have r1: "esp_run demo_crypto lzo demo_esp c1 ([] @ openedNow demo_channel d1 c1)"
    by (rule esp_read [OF demo_channel_run _ _ c1_def]) (simp_all add: demo_channel_def newChannel_def channel.defs)
  note r2 = esp_dispatch [OF r1, of c2 None]
  have r2: "esp_run demo_crypto lzo demo_esp c2 (openedNow demo_channel d1 c1)"
    using esp_dispatch [OF r1, of c2 None] c2(8) by (simp add: c2_def prod_eq_iff)
  note r3 = esp_read [OF r2 c2(1) c2(6) c3_def]
  let ?tr = "(openedNow demo_channel d1 c1 @ openedNow c2 d2 c3) @ [Delivered [0x45, 2]]"
  have "esp_run demo_crypto lzo demo_esp c4 ?tr"
    using esp_dispatch [OF r3, of c4 "Some [0x45, 2]"] c4(6) by (simp add: c4_def prod_eq_iff)
  moreover have "deliveries ?tr = [[0x45, 2]]" "length (opens ?tr) = 2" "length (epochs False ?tr) = 1"
    using c1(1) c3(1) by (simp_all add: openedNow_def epochs_def)
  ultimately show ?thesis using c4 by (intro exI [of _ c4] exI [of _ ?tr]) simp
qed

lemma demo_first_epoch: "length (epochs d tr) = 1 \<Longrightarrow> fst (hd (epochs d tr)) = d"
proof (induction tr rule: rev_induct)
  case (snoc e tr)
  then show ?case using epochs_ne [of d tr] by (cases e; cases "epochs d tr") (auto split: prod.splits)
qed simp

section \<open>Properties\<close>



text \<open>C35: whatever arrives and however the goroutines of a channel, rekeys and the end of its session interleave: under keys
  with replay protection no two datagrams that are opened between two rekeys have the same index and sequence number; the payloads that are
  delivered come from opened datagrams, in their order and each from another one; and before the first of them an answer to a probe was opened.\<close>

theorem esp_channel_delivers:
  assumes "esp_run cr lzo cfg c tr" "configKeys cfg = Some keys" "key_state cr keys"
  shows "(\<forall>(disabled, ns) \<in> set (epochs (disableReplayProtection keys) tr). \<not> disabled \<longrightarrow> distinct ns) \<and>
    concat (rev (map snd (epochs (disableReplayProtection keys) tr))) = map fst (opens tr) \<and>
    (\<exists>os. subseq os (opens tr) \<and> list_all2 (\<lambda>(n, packet) p. plainPayload lzo cfg packet = Some p) os (deliveries tr)) \<and>
    (\<forall>before p after. tr = before @ Delivered p # after \<longrightarrow> (\<exists>(n, h, q) \<in> set (opens before). the (IsProbeResponse cfg) q))"
proof -
  have t: "trace_ok lzo cfg c tr" by (rule esp_run_trace [OF assms(1)])
  have "stemsFrom lzo cfg (opens tr) (deliveries tr)"
    using t stemsFrom_more by (auto simp: trace_ok_def split: option.splits)
  moreover have "\<forall>(disabled, ns) \<in> set (epochs (disableReplayProtection keys) tr). \<not> disabled \<longrightarrow> distinct ns"
    using esp_run_pairs [OF assms(2,3,1)] by (auto simp: pairs_ok_def list_all_iff)
  ultimately show ?thesis using t epochs_opens by (auto simp: trace_ok_def stemsFrom_def answered_def)
qed

theorem esp_channel_delivers_witness:
  "\<exists>c tr ns. esp_run demo_crypto (\<lambda>_. Inr) demo_esp c tr \<and> deliveries tr = [[0x45, 2]] \<and> epochs False tr = [(False, ns)] \<and>
     distinct ns \<and> length ns = 2"
proof -
  obtain c tr where c: "esp_run demo_crypto (\<lambda>_. Inr) demo_esp c tr" "deliveries tr = [[0x45, 2]]" "length (opens tr) = 2"
    "length (epochs False tr) = 1"
    using demo_delivers by blast
  then obtain d ns where e: "epochs False tr = [(d, ns)]" by (auto simp: length_Suc_conv)
  have "configKeys demo_esp = Some demo_keys" by (simp add: demo_esp_def)
  note facts = esp_channel_delivers [OF c(1) this key_state.created [OF demo_created]]
  have d: "\<not> d" "disableReplayProtection demo_keys = False" using demo_first_epoch [of False tr] e c(4) demo_keys_facts(4) by simp_all
  have "length ns = 2" using facts c(3) by (simp add: d(2) e)
  moreover have "distinct ns" using facts d by (auto simp: e)
  ultimately show ?thesis using c e d(1) by (intro exI [of _ c] exI [of _ tr] exI [of _ ns]) auto
qed

text \<open>C37: when the timer ticks at most \<open>gap\<close> apart and the peer answers every probe within \<open>delay\<close>, and the two together are not more than the
  interval, a tick never gives the channel up; and a tick gives it up when nothing was received for more than twice the interval.\<close>

theorem esp_dead_peer:
  assumes "peer_run (espVerdict (channelDPD cfg)) gap delay clock (espLastReceived c) (espLastDPD c) tick answerBy"
    "gap + delay \<le> channelDPD cfg" "0 \<le> delay" "0 < channelDPD cfg" "clock \<le> now" "now \<le> tick + gap"
    "list_all (\<lambda>a. now \<le> a) (case answerBy of None \<Rightarrow> [] | Some a \<Rightarrow> [a])" "chanReady c" "chanConn c" "\<not> chanClosed c"
    "\<forall>n. \<exists>payload. the (BuildProbe cfg) n = Inr payload"
  shows "\<not> chanClosed (processDPD cfg now c) \<and>
    (\<forall>late. late > espLastReceived c + 2 * channelDPD cfg \<longrightarrow> chanClosed (processDPD cfg late c))"
proof -
  have "espVerdict (channelDPD cfg) (espLastReceived c) (espLastDPD c) now \<noteq> Expired"
    by (rule esp_timer.answering_peer_kept [OF assms(1,2,5,6,7,3,4)])
  moreover obtain payload where "the (BuildProbe cfg) (probeSequence c) = Inr payload" using assms(11) by metis
  ultimately have "\<not> chanClosed (processDPD cfg now c)"
    using assms(8-10) by (auto simp: processDPD_def SendProbe_def writeGuard_def split: verdict.split)
  moreover have "chanClosed (processDPD cfg late c)" if "late > espLastReceived c + 2 * channelDPD cfg" for late
    using that assms(8) by (simp add: processDPD_def espVerdict_def)
  ultimately show ?thesis by blast
qed

theorem esp_dead_peer_witness:
  "\<exists>c. chanReady c \<and> \<not> chanClosed (processDPD demo_esp 12 c) \<and> chanClosed (processDPD demo_esp 50 c)"
proof -
  obtain c :: espChannel where c: "chanReady c" "chanConn c" "\<not> chanClosed c" "espLastReceived c = 7" "espLastDPD c = 0"
    using demo_delivers [of "\<lambda>_. Inr"] by blast
  have "peer_run (espVerdict (channelDPD demo_esp)) 6 3 7 (espLastReceived c) (espLastDPD c) 6 None"
    unfolding c by (rule peer_ready) simp_all
  from esp_dead_peer [OF this, of 12] have "\<not> chanClosed (processDPD demo_esp 12 c)" "chanClosed (processDPD demo_esp 50 c)"
    using c by (simp_all add: demo_esp_def)
  then show ?thesis using c by blast
qed

end
