(* ===== verification/Spec2Isabelle.thy ===== *)
theory Spec2Isabelle
  imports Lzs_Roundtrip Esp_Packet Packet_Queue Cstp Ppp_Progress Ppp_Data Pulse_Ttls Nc_Config Pulse_Config Client_Runs Client_Data Client_Outbound Auth_Challenge Dtls_Session Compression Esp_Channel
begin

text \<open>
  A verification library for an OpenConnect-compatible VPN client written in Go. File names below are
  those under \<^verbatim>\<open>src\<close>; a definition has the name of the function or type it models wherever that name is free.

  \<^bold>\<open>The program.\<close> A client (\<^verbatim>\<open>client.go\<close>) owns a supervisor goroutine (\<^verbatim>\<open>client_supervisor.go\<close>) that authenticates through
  the front end of a flavor, connects a session, runs it, and reconnects when it is lost. While it authenticates, what the server asks
  is answered from configuration or put to the application as a challenge (\<^verbatim>\<open>auth_form.go\<close>). A session gets its tunnel configuration
  from the server (\<^verbatim>\<open>nc_oncp.go\<close>, \<^verbatim>\<open>pulse_config.go\<close>, \<^verbatim>\<open>tunnel_config.go\<close>) and carries packets over one of the data channels: CSTP
  records (\<^verbatim>\<open>cstp_packet.go\<close>) and the old DTLS of Cisco (\<^verbatim>\<open>dtls_legacy*.go\<close>), oNCP records (\<^verbatim>\<open>nc_oncp.go\<close>), IF-T frames
  (\<^verbatim>\<open>pulse_ift.go\<close>, \<^verbatim>\<open>pulse_ttls.go\<close>), a PPP link (\<^verbatim>\<open>ppp_*.go\<close>), or ESP (\<^verbatim>\<open>esp_*.go\<close>); CSTP packets may be compressed (\<^verbatim>\<open>anyconnect_compression.go\<close>, \<^verbatim>\<open>lzs.go\<close>).
  Packets that arrive go through a bounded queue (\<^verbatim>\<open>data_packet_queue.go\<close>) to the application's reader, packets that are sent go
  through another one to the writer (\<^verbatim>\<open>data_packet_writer.go\<close>).

  \<^bold>\<open>Foundations.\<close> \<open>Prelude\<close> holds the integer types at their width, byte slices as lists, errors as the type \<open>go_error\<close>, fallible
  functions as \<open>'a result\<close>, the codecs of \<^verbatim>\<open>encoding/binary\<close>, and the collections \<open>wire_simps\<close> and \<open>ensures_intros\<close>. \<open>Go_Strings\<close>,
  \<open>Go_Errors\<close> (how errors are told apart: \<^verbatim>\<open>errors.go\<close> and the classification of session errors), \<open>Netip\<close>, \<open>Netmask\<close> and \<open>Cbc\<close> hold
  what is used of the standard library. \<open>Framing\<close> has readers and writers of connections, and the locales \<open>record_format\<close> (records that are cut from a
  stream one by one) and \<open>stream_decoder\<close>, \<open>bounded_stream_decoder\<close> (decoders that are fed in pieces). Both are proved once and
  interpreted by every record layer: CSTP, the attributes of Network Connect, oNCP records, PPP options and frames, IF-T frames and
  attribute-value pairs.

  \<^bold>\<open>Components.\<close>
  \<^item> \<open>Lzs\<close>, \<open>Lzs_Roundtrip\<close> (\<^verbatim>\<open>lzs.go\<close>): bit writer and reader (locales \<open>bit_sink\<close>, \<open>bit_source\<close>), hash-chain compressor and
    decompressor. The lemmas show that the loops return, that a bit stream is read back, and, by way of the tokens that a stream encodes, that decompression
    inverts compression whatever state the pooled compressor was in.
  \<^item> \<open>Compression\<close> (\<^verbatim>\<open>anyconnect_compression.go\<close>): the blocked Adler-32 checksum and the compressed stream of IP packets; the round trip, and a short
    read that is refused although the packet is intact. The flate library is a parameter.
  \<^item> \<open>Esp_Replay\<close>, \<open>Esp_Packet\<close>, \<open>Esp_Exchange\<close> (\<^verbatim>\<open>esp_replay.go\<close>, \<^verbatim>\<open>esp_packet.go\<close>): the anti-replay window as an implementation of the locale
    \<open>replay_filter\<close>, whose abstraction is the set of numbers accepted; key sets with the current and previous inbound association, sealing and opening. The
    lemmas show exact acceptance, authenticity, absence of replays under keys that do not disable the protection, and what arrives over a lossy channel.
  \<^item> \<open>Channel\<close>, \<open>Esp_Channel\<close> (\<^verbatim>\<open>esp_channel.go\<close>): a channel from its start to its report, as the relation \<open>esp_run\<close> of its goroutines' sections. Termination has
    its stages (\<open>channelTermination\<close>): marking closed, closing the connection, destroying the keys, reporting; rekeys and the end of the session change the shared key set
    beside it. LZO is a parameter.
  \<^item> \<open>Packet_Queue\<close> (\<^verbatim>\<open>data_packet_queue.go\<close>): one definition per critical section, the locale \<open>fifo\<close>, and the relation \<open>queue_step\<close> that
    interleaves blocked producers and a consumer; order, capacity, and no lost wake-up.
  \<^item> \<open>Cstp\<close> (\<^verbatim>\<open>cstp_packet.go\<close>, \<^verbatim>\<open>cstp_keepalive.go\<close>, \<^verbatim>\<open>cstp_rekey.go\<close>, \<^verbatim>\<open>cstp_mtu.go\<close>, \<^verbatim>\<open>dtls_mtu.go\<close>): records, timers and the MTU search.
  \<^item> \<open>Ppp_Frame\<close>, \<open>Ppp_Control\<close>, \<open>Ppp_Link\<close>, \<open>Ppp_Negotiation\<close> (\<^verbatim>\<open>ppp_frame.go\<close>, \<^verbatim>\<open>ppp_control.go\<close>, \<^verbatim>\<open>ppp_link.go\<close>, \<^verbatim>\<open>ppp_negotiation.go\<close>): the model
    of PPP. A function that runs under the link's mutex is a function on the record \<open>pppLink\<close>; \<open>Ppp_Lifecycle\<close> interleaves them as \<open>ppp_step\<close>.
    Termination leaves the mutex between its stages (\<open>pppTermination\<close>): the link is closed, then the carrier is taken off, then closed, then the result is published.
    \<open>Ppp_Answers\<close> is the answer to a request, \<open>Ppp_Invariants\<close> the invariants of all reachable links, \<open>Ppp_Progress\<close> what the negotiation achieves, \<open>Ppp_Data\<close> data packets.
  \<^item> \<open>Nc_Oncp\<close>, \<open>Nc_Config\<close> (\<^verbatim>\<open>nc_oncp.go\<close>) and \<open>Pulse_Ift\<close>, \<open>Pulse_Ttls\<close>, \<open>Pulse_Config\<close> (\<^verbatim>\<open>pulse_ift.go\<close>, \<^verbatim>\<open>pulse_ttls.go\<close>, \<^verbatim>\<open>pulse_config.go\<close>): byte streams,
    fragments, configurations and ESP keys. The lemmas show streams read back whatever the cuts, that every configuration accepted is well typed (\<open>Tunnel_Config\<close>,
    \<^verbatim>\<open>tunnel_config.go\<close>), and that the key exchanges leave both sides with paired keys, in terms of \<open>Esp_Packet\<close>.
  \<^item> \<open>Client_State\<close>, \<open>Client_Supervisor\<close>, \<open>Client_Runs\<close> (\<^verbatim>\<open>client.go\<close>, \<^verbatim>\<open>client_supervisor.go\<close>, \<^verbatim>\<open>transport.go\<close>): the record \<open>client\<close> and one definition per section under
    \<open>lifecycleAccess\<close>; \<open>runSupervisor\<close> as the machine \<open>sup_step\<close> with a program counter that stops at every lock, wait and call. \<open>Client_Runs\<close> lets any state
    of the client be found at each step: no session is leaked, the reconnect timeout is respected. \<open>Client_Data\<close> and \<open>Client_Outbound\<close> (\<^verbatim>\<open>data_packet_writer.go\<close>) follow packets both
    ways, on the queue of \<open>Packet_Queue\<close>: \<open>plane_step\<close> and \<open>outbound_step\<close> interleave the application's calls, the reader, the writer and \<open>Close\<close>. A call to
    write is answered once, unless the writer returned before its packet was pushed, which then waits forever.
  \<^item> \<open>Auth_Form\<close>, \<open>Auth_Challenge\<close> (\<^verbatim>\<open>auth_form.go\<close>): what of a form is answered automatically, which answers are accepted, the pending challenge under the
    interleaving \<open>challenge_step\<close>, and the loop that obtains a session.
  \<^item> \<open>Dtls_Record\<close>, \<open>Dtls_Connection\<close>, \<open>Dtls_Handshake\<close>, \<open>Dtls_Flight\<close>, \<open>Dtls_Session\<close> (\<^verbatim>\<open>dtls_legacy_record.go\<close>, \<^verbatim>\<open>dtls_legacy.go\<close>, \<^verbatim>\<open>dtls_legacy_crypto.go\<close>): records and their
    encryption, a second implementation of \<open>replay_filter\<close>, the connection, and the abbreviated handshake up to \<open>connectLegacy\<close>. A record opens exactly to what was
    encrypted, an honest server is accepted, and no flight completes without a Finished.

  \<^bold>\<open>Conventions.\<close> Goroutines are interleavings of the sections that hold a lock; what happens outside (reads, clocks, callbacks, random draws, the results of
  the underlying writes) is an argument of the step. A loop that waits for something outside, such as a read, gives \<open>None\<close> when the script of arguments ends before it
  does; theorems that a loop returns are stated with scripts that are long enough. Loops with a counter in the code have the counter as fuel, and it is the code's own
  number (six tries of a handshake, the number of elements, the number of bytes of a key expansion, each round of which adds at least one: \<open>hashRounds_stable\<close>); the
  others are proved to terminate by a measure, or return an option by \<open>partial_function\<close> and a lemma shows that it is not \<open>None\<close>.
  A Go map is a function to options, or the list of its entries where the code ranges over it.

  \<^bold>\<open>What is assumed of other code.\<close> Block ciphers, hashes and keyed hashes are parameters with the hypotheses \<open>crypto_ok\<close>, \<open>suite_ok\<close>, \<open>mac_ok\<close> and \<open>hashes_ok\<close>:
  decryption inverts encryption on a block, and blocks and digests have the documented lengths. \<^verbatim>\<open>E.IsMulti\<close>, \<^verbatim>\<open>E.Cast\<close> and \<^verbatim>\<open>E.Append\<close> of the
  sing library walk error trees as documented. \<^verbatim>\<open>strings.EqualFold\<close> is applied to ASCII names only. Error texts keep their constant part.

  \<^bold>\<open>Not modelled.\<close> The HTTP, XML and HTML exchanges of the front ends (\<^verbatim>\<open>*_auth.go\<close>, \<^verbatim>\<open>*_form.go\<close>, \<^verbatim>\<open>gp_*.go\<close>, \<^verbatim>\<open>f5_*.go\<close>,
  \<^verbatim>\<open>fortinet_*.go\<close>), the goroutines and deadlines of the sessions (\<^verbatim>\<open>*_session.go\<close>, \<^verbatim>\<open>cstp_client.go\<close>), DTLS by the pion library (\<^verbatim>\<open>dtls_client.go\<close>,
  \<^verbatim>\<open>dtls_session.go\<close> and others), host scans that run external programs, TLS and certificate handling, token formats, and logging.
\<close>

end
